(* ===== verification/Prelude.thy ===== *)
theory Prelude
  imports Main "HOL-Library.AList" "HOL-Library.Word"
begin

text \<open>
  The prelude of the development: the types every component shares (time, bytes, results),
  the model of Go's maps as association lists where the code counts or ranges over them,
  and the generic lemmas on lists, association lists and machine words that the component
  proofs use.

  Conventions of the model:
  \<^item> A Go \<open>string\<close> or \<open>[]byte\<close> is a list; \<open>string\<close> is a list of bytes (\<open>char\<close>).
  \<^item> \<open>time.Time\<close> is the number of nanoseconds since Go's zero time, so \<open>IsZero\<close> is \<open>= 0\<close>;
    \<open>time.Now()\<close> is an argument of the operation that reads the clock.
  \<^item> A function that returns \<open>(T, error)\<close> returns a sum, \<open>Inl\<close> for the error.
  \<^item> A pointer is a natural number into an explicit store when the code shares or mutates the
    object through several references, and the object itself when it does not.
\<close>

section \<open>Shared types\<close>

type_synonym byte = "8 word"
type_synonym gotime = int
type_synonym duration = int
type_synonym addr = nat

definition second :: duration where "second = 1000000000"
definition minute :: duration where "minute = 60 * second"
definition hour :: duration where "hour = 60 * minute"

text \<open>Go's \<open>time.Time.IsZero\<close>, \<open>After\<close>, \<open>Before\<close>, \<open>Sub\<close> and \<open>Unix\<close> (seconds since 1970).\<close>

definition IsZero :: "gotime \<Rightarrow> bool" where "IsZero t \<longleftrightarrow> t = 0"
definition After :: "gotime \<Rightarrow> gotime \<Rightarrow> bool" where "After t u \<longleftrightarrow> u < t"
definition Before :: "gotime \<Rightarrow> gotime \<Rightarrow> bool" where "Before t u \<longleftrightarrow> t < u"
definition Unix :: "gotime \<Rightarrow> int" where "Unix t = t div 1000000000 - 62135596800"

lemmas time_defs = IsZero_def After_def Before_def second_def minute_def hour_def

text \<open>Sequencing of fallible computations: the early return on an error.\<close>

fun res_bind :: "'e + 'a \<Rightarrow> ('a \<Rightarrow> 'e + 'b) \<Rightarrow> 'e + 'b" where
  "res_bind (Inl e) f = Inl e"
| "res_bind (Inr x) f = f x"

text \<open>Go's truncating division and remainder on \<open>int\<close>.\<close>

definition go_div :: "int \<Rightarrow> int \<Rightarrow> int" where
  "go_div a b = sgn a * sgn b * (\<bar>a\<bar> div \<bar>b\<bar>)"

definition go_mod :: "int \<Rightarrow> int \<Rightarrow> int" where
  "go_mod a b = a - go_div a b * b"

section \<open>Go maps that are counted or ranged over\<close>

text \<open>
  A Go map is a partial function; where the code takes its \<open>len\<close> or ranges over it, it is an
  association list with distinct keys, read by \<^const>\<open>map_of\<close>, written by
  \<^const>\<open>AList.update\<close> and \<^const>\<open>AList.delete\<close>. The order of a \<open>range\<close> is unspecified in Go:
  where it can matter, it is an argument of the model.
\<close>

type_synonym ('k, 'v) gomap = "('k \<times> 'v) list"

definition keys :: "('k, 'v) gomap \<Rightarrow> 'k list" where
  "keys m = map fst m"

definition wf_map :: "('k, 'v) gomap \<Rightarrow> bool" where
  "wf_map m \<longleftrightarrow> distinct (map fst m)"

definition is_range :: "'k list \<Rightarrow> ('k, 'v) gomap \<Rightarrow> bool" where
  "is_range ks m \<longleftrightarrow> distinct ks \<and> set ks = fst ` set m"

section \<open>Slices\<close>

text \<open>\<open>append(xs[:i], xs[i+1:]...)\<close>, the deletion of position \<open>i\<close>.\<close>

definition remove_at :: "nat \<Rightarrow> 'a list \<Rightarrow> 'a list" where
  "remove_at i xs = take i xs @ drop (Suc i) xs"

text \<open>
  The loop \<open>for i, x := range xs { if p(x) { xs = append(xs[:i], xs[i+1:]...); break } }\<close>: the
  first element that satisfies \<open>p\<close> is deleted.
\<close>

fun remove_first :: "('a \<Rightarrow> bool) \<Rightarrow> 'a list \<Rightarrow> 'a list" where
  "remove_first p [] = []"
| "remove_first p (x # xs) = (if p x then xs else x # remove_first p xs)"

text \<open>
  The loop \<open>for i := range xs { if p(xs[i]) { f(&xs[i]); return true } }\<close>: the first element
  that satisfies \<open>p\<close> is updated in place.
\<close>

fun update_first :: "('a \<Rightarrow> bool) \<Rightarrow> ('a \<Rightarrow> 'a) \<Rightarrow> 'a list \<Rightarrow> 'a list" where
  "update_first p f [] = []"
| "update_first p f (x # xs) = (if p x then f x # xs else x # update_first p f xs)"

section \<open>Lemmas\<close>

lemma res_bind_Inr_iff [simp]: "res_bind r f = Inr y \<longleftrightarrow> (\<exists>x. r = Inr x \<and> f x = Inr y)"
  by (cases r) auto

lemma res_bind_Inl_iff: "res_bind r f = Inl e \<longleftrightarrow> r = Inl e \<or> (\<exists>x. r = Inr x \<and> f x = Inl e)"
  by (cases r) auto

lemma wf_map_Nil [simp]: "wf_map []"
  by (simp add: wf_map_def)

lemma wf_map_update [simp]: "wf_map m \<Longrightarrow> wf_map (AList.update k v m)"
  by (simp add: wf_map_def distinct_update)

lemma wf_map_delete [simp]: "wf_map m \<Longrightarrow> wf_map (AList.delete k m)"
  by (simp add: wf_map_def distinct_delete)

lemma wf_map_in_iff: "wf_map m \<Longrightarrow> (k, v) \<in> set m \<longleftrightarrow> map_of m k = Some v"
  by (simp add: wf_map_def)

lemma map_of_update_iff [simp]:
  "map_of (AList.update k v m) k' = (if k' = k then Some v else map_of m k')"
  by (simp add: update_conv')

lemma map_of_delete_iff [simp]:
  "map_of (AList.delete k m) k' = (if k' = k then None else map_of m k')"
  by (simp add: delete_conv')

lemma length_delete_present:
  "wf_map m \<Longrightarrow> map_of m k = Some v \<Longrightarrow> Suc (length (AList.delete k m)) = length m"
proof (induction m)
  case Nil
  then show ?case by simp
next
  case (Cons p m)
  obtain k1 v1 where p: "p = (k1, v1)" by force
  show ?case
  proof (cases "k1 = k")
    case True
    with Cons.prems p have "k \<notin> fst ` set m" by (auto simp: wf_map_def)
    then have "AList.delete k m = m" by (simp add: delete_id)
    with p True show ?thesis by simp
  next
    case False
    with Cons p show ?thesis by (auto simp: wf_map_def)
  qed
qed

lemma length_update_absent:
  "map_of m k = None \<Longrightarrow> length (AList.update k v m) = Suc (length m)"
  by (induction m) (auto split: if_splits)

lemma length_update_present:
  "map_of m k = Some w \<Longrightarrow> length (AList.update k v m) = length m"
  by (induction m) (auto split: if_splits)

lemma remove_first_none: "\<forall>x\<in>set xs. \<not> p x \<Longrightarrow> remove_first p xs = xs"
  by (induction xs) auto

lemma set_remove_first_subset: "set (remove_first p xs) \<subseteq> set xs"
  by (induction xs) auto

lemma distinct_remove_first [simp]: "distinct xs \<Longrightarrow> distinct (remove_first p xs)"
  by (induction xs) (auto dest: subsetD [OF set_remove_first_subset])

lemma remove_first_eq_remove1: "remove_first (\<lambda>y. y = x) xs = remove1 x xs"
  by (induction xs) auto

lemma length_update_first [simp]: "length (update_first p f xs) = length xs"
  by (induction xs) auto

lemma nth_drop_split:
  "i < length xs \<Longrightarrow> xs = take i xs @ xs ! i # drop (Suc i) xs"
  by (simp add: id_take_nth_drop)

lemma mset_free_remove_at:
  "i < length xs \<Longrightarrow> set (remove_at i xs) \<subseteq> set xs"
  by (auto simp: remove_at_def dest: in_set_takeD in_set_dropD)

lemma length_remove_at [simp]: "i < length xs \<Longrightarrow> length (remove_at i xs) = length xs - 1"
  by (simp add: remove_at_def)

lemma map_leD: "f \<subseteq>\<^sub>m g \<Longrightarrow> f k = Some v \<Longrightarrow> g k = Some v"
  by (metis map_le_def domI)

end
