(* ===== verification/GoStrings.thy ===== *)
theory GoStrings
  imports Prelude
begin

text \<open>
  The functions of Go's \<open>strings\<close>, \<open>strconv\<close> and \<open>hash/fnv\<close> packages that the program calls, on
  byte strings. \<open>ToLower\<close>, \<open>ToUpper\<close> and \<open>TrimSpace\<close> are those of Go on ASCII strings (identifiers,
  tags, header values, addresses, host names): on other bytes Go maps Unicode letters and spaces, and
  replaces a byte that is not valid UTF-8 by three.
\<close>

section \<open>Definitions\<close>

definition code :: "char \<Rightarrow> nat" where "code c = of_char c"

definition is_space :: "char \<Rightarrow> bool" where
  "is_space c \<longleftrightarrow> code c \<in> {9, 10, 11, 12, 13, 32}"

definition is_digit :: "char \<Rightarrow> bool" where
  "is_digit c \<longleftrightarrow> 48 \<le> code c \<and> code c \<le> 57"

definition TrimLeft :: "(char \<Rightarrow> bool) \<Rightarrow> string \<Rightarrow> string" where
  "TrimLeft p s = dropWhile p s"

definition TrimRight :: "(char \<Rightarrow> bool) \<Rightarrow> string \<Rightarrow> string" where
  "TrimRight p s = rev (dropWhile p (rev s))"

definition TrimSpace :: "string \<Rightarrow> string" where
  "TrimSpace s = TrimRight is_space (TrimLeft is_space s)"

definition Trim :: "string \<Rightarrow> string \<Rightarrow> string" where
  "Trim s cutset = TrimRight (\<lambda>c. c \<in> set cutset) (TrimLeft (\<lambda>c. c \<in> set cutset) s)"

definition lower_char :: "char \<Rightarrow> char" where
  "lower_char c = (if 65 \<le> code c \<and> code c \<le> 90 then char_of (code c + 32) else c)"

definition upper_char :: "char \<Rightarrow> char" where
  "upper_char c = (if 97 \<le> code c \<and> code c \<le> 122 then char_of (code c - 32) else c)"

definition ToLower :: "string \<Rightarrow> string" where "ToLower s = map lower_char s"
definition ToUpper :: "string \<Rightarrow> string" where "ToUpper s = map upper_char s"

definition HasPrefix :: "string \<Rightarrow> string \<Rightarrow> bool" where
  "HasPrefix s p \<longleftrightarrow> take (length p) s = p"

definition TrimPrefix :: "string \<Rightarrow> string \<Rightarrow> string" where
  "TrimPrefix s p = (if HasPrefix s p then drop (length p) s else s)"

fun Contains :: "string \<Rightarrow> string \<Rightarrow> bool" where
  "Contains [] sub \<longleftrightarrow> sub = []"
| "Contains (c # s) sub \<longleftrightarrow> HasPrefix (c # s) sub \<or> Contains s sub"

text \<open>
  \<open>ReplaceAll(s, old, new)\<close> for a non-empty \<open>old\<close>: the occurrences from left to right, not
  overlapping. \<open>k\<close> counts the bytes of an occurrence that are still to be skipped.
\<close>

fun replace_from :: "nat \<Rightarrow> string \<Rightarrow> string \<Rightarrow> string \<Rightarrow> string" where
  "replace_from k [] old new = []"
| "replace_from (Suc k) (c # s) old new = replace_from k s old new"
| "replace_from 0 (c # s) old new =
     (if HasPrefix (c # s) old then new @ replace_from (length old - 1) s old new
      else c # replace_from 0 s old new)"

definition ReplaceAll :: "string \<Rightarrow> string \<Rightarrow> string \<Rightarrow> string" where
  "ReplaceAll s old new = replace_from 0 s old new"

text \<open>\<open>Split(s, sep)\<close> for a one-byte separator: always at least one part.\<close>

fun Split :: "string \<Rightarrow> char \<Rightarrow> string list" where
  "Split [] c = [[]]"
| "Split (x # s) c =
     (if x = c then [] # Split s c
      else (case Split s c of [] \<Rightarrow> [[x]] | p # ps \<Rightarrow> (x # p) # ps))"

fun Join :: "string list \<Rightarrow> string \<Rightarrow> string" where
  "Join [] sep = []"
| "Join [p] sep = p"
| "Join (p # q # ps) sep = p @ sep @ Join (q # ps) sep"

text \<open>\<open>s[LastIndex(s, c)+1:]\<close>, when \<open>c\<close> occurs in \<open>s\<close>.\<close>

definition after_last :: "string \<Rightarrow> char \<Rightarrow> string option" where
  "after_last s c = (if c \<in> set s then Some (rev (takeWhile (\<lambda>x. x \<noteq> c) (rev s))) else None)"

text \<open>Decimal numerals: \<open>strconv.Itoa\<close>, \<open>%d\<close>.\<close>

definition digit_char :: "nat \<Rightarrow> char" where "digit_char d = char_of (48 + d)"

fun utoa :: "nat \<Rightarrow> string" where
  "utoa n = (if n < 10 then [digit_char n] else utoa (n div 10) @ [digit_char (n mod 10)])"

declare utoa.simps [simp del]

definition itoa :: "int \<Rightarrow> string" where
  "itoa i = (if i < 0 then CHR ''-'' # utoa (nat (- i)) else utoa (nat i))"

definition HasSuffix :: "string \<Rightarrow> string \<Rightarrow> bool" where
  "HasSuffix s t \<longleftrightarrow> length t \<le> length s \<and> drop (length s - length t) s = t"

definition TrimSuffix :: "string \<Rightarrow> string \<Rightarrow> string" where
  "TrimSuffix s t = (if HasSuffix s t then take (length s - length t) s else s)"

text \<open>Numerals as numbers; \<open>strconv.Atoi\<close> accepts a sign.\<close>

definition digits_val :: "string \<Rightarrow> nat" where
  "digits_val s = foldl (\<lambda>a c. a * 10 + (code c - 48)) 0 s"

definition Atoi :: "string \<Rightarrow> int option" where
  "Atoi s =
     (let (neg, ds) = (case s of c # cs \<Rightarrow> if c = CHR ''-'' then (True, cs) else if c = CHR ''+'' then (False, cs) else (False, s) | [] \<Rightarrow> (False, []));
          n = int (digits_val ds); v = (if neg then - n else n)
      in if ds \<noteq> [] \<and> list_all is_digit ds \<and> - (2 ^ 63) \<le> v \<and> v < 2 ^ 63 then Some v else None)"

text \<open>FNV-1a on 64 bits (\<open>fnv.New64a\<close>) and FNV-1 on 64 bits (\<open>fnv.New64\<close>).\<close>

unbundle bit_operations_syntax

definition fnv64_offset :: "64 word" where "fnv64_offset = 14695981039346656037"
definition fnv64_prime :: "64 word" where "fnv64_prime = 1099511628211"

definition fnv64a :: "string \<Rightarrow> 64 word" where
  "fnv64a s = fold (\<lambda>c h. (h XOR of_nat (code c)) * fnv64_prime) s fnv64_offset"

definition fnv64 :: "string \<Rightarrow> 64 word" where
  "fnv64 s = fold (\<lambda>c h. (h * fnv64_prime) XOR of_nat (code c)) s fnv64_offset"

section \<open>Lemmas\<close>

lemma code_lt_256 [simp]: "code c < 256"
  by (simp add: code_def)

lemma char_of_code [simp]: "char_of (code c) = c"
  by (simp add: code_def)

lemma code_char_of: "n < 256 \<Longrightarrow> code (char_of n) = n"
  by (simp add: code_def)

lemma code_inj: "code c = code d \<longleftrightarrow> c = d"
  by (metis char_of_code)

lemma code_digit_char [simp]: "d < 10 \<Longrightarrow> code (digit_char d) = 48 + d"
  by (simp add: digit_char_def code_char_of)

lemma is_digit_digit_char [simp]: "d < 10 \<Longrightarrow> is_digit (digit_char d)"
  by (simp add: is_digit_def)

lemma digit_char_inj: "d < 10 \<Longrightarrow> e < 10 \<Longrightarrow> digit_char d = digit_char e \<longleftrightarrow> d = e"
  by (metis add_left_cancel code_digit_char)

lemma utoa_digits: "\<forall>c\<in>set (utoa n). is_digit c"
proof (induction n rule: utoa.induct)
  case (1 n)
  show ?case
    using "1.IH" by (subst utoa.simps) auto
qed

lemma utoa_nonempty [simp]: "utoa n \<noteq> []" "[] \<noteq> utoa n"
  by (subst utoa.simps, simp)+

lemma utoa_inj: "utoa m = utoa n \<longleftrightarrow> m = n"
proof (induction m arbitrary: n rule: utoa.induct)
  case (1 m)
  show ?case
  proof (cases "m < 10")
    case True
    then show ?thesis
      by (subst (1 2) utoa.simps) (auto simp: digit_char_inj append_eq_Cons_conv)
  next
    case False
    show ?thesis
    proof (cases "n < 10")
      case True
      with False show ?thesis
        by (subst (1 2) utoa.simps) (auto simp: append_eq_Cons_conv)
    next
      case n: False
      have "utoa m = utoa n \<longleftrightarrow> utoa (m div 10) = utoa (n div 10) \<and> m mod 10 = n mod 10"
        using False n by (subst (1 2) utoa.simps) (auto simp: digit_char_inj)
      also have "\<dots> \<longleftrightarrow> m div 10 = n div 10 \<and> m mod 10 = n mod 10"
        using "1.IH" [OF False] by simp
      also have "\<dots> \<longleftrightarrow> m = n"
        by (metis div_mult_mod_eq)
      finally show ?thesis .
    qed
  qed
qed

lemma is_digit_not_punct [simp]: "is_digit c \<Longrightarrow> c \<noteq> CHR ''.''" "is_digit c \<Longrightarrow> c \<noteq> CHR ''/''"
  "is_digit c \<Longrightarrow> c \<noteq> CHR '':''" "is_digit c \<Longrightarrow> c \<noteq> CHR ''-''" "is_digit c \<Longrightarrow> c \<noteq> CHR ''%''"
  by (auto simp: is_digit_def code_def)

lemma itoa_inj: "itoa i = itoa j \<longleftrightarrow> i = j"
proof -
  have dash: "CHR ''-'' \<notin> set (utoa n)" for n
    using utoa_digits [of n] is_digit_not_punct(4) by blast
  have ne: "utoa m \<noteq> CHR ''-'' # utoa n" for m n
    using dash [of m] by (metis list.set_intros(1))
  show ?thesis
    using ne [of "nat i" "nat (- j)"] ne [of "nat j" "nat (- i)"]
    by (auto simp: itoa_def utoa_inj)
qed

text \<open>
  A separator that does not occur in the left parts makes a concatenation readable back: the
  cache and block keys of the program are built this way.
\<close>

lemma append_sep_inj:
  assumes "c \<notin> set a" and "c \<notin> set a'"
  shows "a @ c # b = a' @ c # b' \<longleftrightarrow> a = a' \<and> b = b'"
  using assms
proof (induction a arbitrary: a')
  case Nil
  then show ?case by (cases a') auto
next
  case (Cons x a)
  then show ?case by (cases a') auto
qed

lemma HasPrefix_Nil [simp]: "HasPrefix s []"
  by (simp add: HasPrefix_def)

lemma TrimPrefix_id: "\<not> HasPrefix s p \<Longrightarrow> TrimPrefix s p = s"
  by (simp add: TrimPrefix_def)

lemma Split_nonempty [simp]: "Split s c \<noteq> []"
  by (induction s) (auto split: list.splits)

lemma TrimSpace_ends:
  assumes "TrimSpace s = x # xs"
  shows "\<not> is_space x \<and> \<not> is_space (last (x # xs))"
proof -
  have left: "dropWhile is_space (rev (dropWhile is_space s)) \<noteq> []"
    using assms by (auto simp: TrimSpace_def TrimRight_def TrimLeft_def)
  have "\<not> is_space (hd (dropWhile is_space (rev (dropWhile is_space s))))"
    using left by (rule hd_dropWhile)
  moreover have "last (x # xs) = hd (dropWhile is_space (rev (dropWhile is_space s)))"
    using assms left by (metis TrimLeft_def TrimRight_def TrimSpace_def hd_rev rev_rev_ident)
  moreover have "\<not> is_space x"
  proof -
    obtain ys where ys: "rev (dropWhile is_space s)
        = ys @ dropWhile is_space (rev (dropWhile is_space s))"
      by (metis takeWhile_dropWhile_id)
    then have "dropWhile is_space s
        = rev (dropWhile is_space (rev (dropWhile is_space s))) @ rev ys"
      by (metis rev_append rev_rev_ident)
    then have "dropWhile is_space s = (x # xs) @ rev ys"
      using assms by (simp add: TrimSpace_def TrimRight_def TrimLeft_def)
    then show ?thesis
      by (metis append_Cons hd_dropWhile list.distinct(1) list.sel(1))
  qed
  ultimately show ?thesis by simp
qed

lemma trimmed: "s = [] \<or> \<not> is_space (hd s) \<and> \<not> is_space (last s) \<Longrightarrow> TrimSpace s = s"
proof (cases "s = []")
  case False
  assume "s = [] \<or> \<not> is_space (hd s) \<and> \<not> is_space (last s)"
  then have "dropWhile is_space s = s" "dropWhile is_space (rev s) = rev s" using False by (simp_all add: dropWhile_eq_self_iff hd_rev)
  then show ?thesis by (simp add: TrimSpace_def TrimLeft_def TrimRight_def)
qed (simp add: TrimSpace_def TrimLeft_def TrimRight_def)

lemma Join_Cons: "ps \<noteq> [] \<Longrightarrow> Join (p # ps) sep = p @ sep @ Join ps sep"
  by (cases ps) auto

lemma digits_val_snoc: "digits_val (s @ [c]) = digits_val s * 10 + (code c - 48)"
  by (simp add: digits_val_def)

lemma Split_prefix_comma: "c \<notin> set p \<Longrightarrow> Split (p @ c # s) c = p # Split s c"
  by (induction p) (auto split: list.splits)

lemma Split_no_comma: "c \<notin> set p \<Longrightarrow> Split p c = [p]"
  by (induction p) auto

lemma Split_Join_comma: "ps \<noteq> [] \<Longrightarrow> \<forall>p\<in>set ps. c \<notin> set p \<Longrightarrow> Split (Join ps [c]) c = ps"
proof (induction ps)
  case (Cons p ps)
  then show ?case by (cases ps) (simp_all add: Join_Cons Split_no_comma Split_prefix_comma)
qed simp

lemma digits_val_utoa: "digits_val (utoa n) = n"
proof (induction n rule: utoa.induct)
  case (1 n)
  have d: "code (digit_char k) - 48 = k" if "k < 10" for k using that code_char_of [of "48 + k"] by (simp add: digit_char_def)
  show ?case
  proof (cases "n < 10")
    case True
    then show ?thesis using d by (subst utoa.simps) (simp add: digits_val_def)
  next
    case False
    then have "utoa n = utoa (n div 10) @ [digit_char (n mod 10)]" by (subst utoa.simps) simp
    then show ?thesis using 1 False d [of "n mod 10"] by (simp add: digits_val_snoc)
  qed
qed

lemma Atoi_utoa: "n < 2 ^ 63 \<Longrightarrow> Atoi (utoa n) = Some (int n)"
proof -
  assume n: "n < 2 ^ 63"
  obtain c cs where u: "utoa n = c # cs" using utoa_nonempty(1) by (cases "utoa n") auto
  have d: "list_all is_digit (utoa n)" using utoa_digits [of n] by (simp add: list_all_iff)
  then have "is_digit c" by (simp add: u)
  then have "c \<noteq> CHR ''-''" "c \<noteq> CHR ''+''" by (auto simp: is_digit_def code_def)
  moreover have "int n < 2 ^ 63" using n by (metis of_nat_less_iff of_nat_numeral of_nat_power)
  ultimately show ?thesis using d digits_val_utoa [of n] by (simp add: Atoi_def u Let_def)
qed

end
