(* ===== verification/GoNet.thy ===== *)
theory GoNet
  imports GoStrings
begin

text \<open>
  The part of Go's \<open>net\<close> package that the address manager, the access rules and the rate limiter
  use: \<open>IP\<close> as a byte slice of length 4 or 16 (the empty slice is \<open>nil\<close>), \<open>IPMask\<close>, \<open>IPNet\<close>,
  \<open>ParseIP\<close>, \<open>ParseCIDR\<close>, \<open>To4\<close>, \<open>Equal\<close>, \<open>Contains\<close> and the textual forms. Parsing follows
  \<open>netip.ParseAddr\<close>: dotted decimals without leading zeros, and IPv6 with one ellipsis and an
  optional embedded IPv4 address; \<open>net.ParseIP\<close> refuses zones.
\<close>

unbundle bit_operations_syntax

section \<open>Addresses\<close>

type_synonym IP = "byte list"
type_synonym IPMask = "byte list"

record IPNet =
  nIP :: IP
  nMask :: IPMask

definition v4InV6Prefix :: "byte list" where
  "v4InV6Prefix = replicate 10 0 @ [255, 255]"

definition To4 :: "IP \<Rightarrow> IP" where
  "To4 ip = (if length ip = 4 then ip
     else if length ip = 16 \<and> take 12 ip = v4InV6Prefix then drop 12 ip
     else [])"

definition IP_Equal :: "IP \<Rightarrow> IP \<Rightarrow> bool" where
  "IP_Equal ip x =
     (if length ip = length x then ip = x
      else if length ip = 4 \<and> length x = 16 then take 12 x = v4InV6Prefix \<and> ip = drop 12 x
      else if length ip = 16 \<and> length x = 4 then take 12 ip = v4InV6Prefix \<and> drop 12 ip = x
      else False)"

section \<open>Masks\<close>

fun mask_bytes :: "nat \<Rightarrow> nat \<Rightarrow> IPMask" where
  "mask_bytes n 0 = []"
| "mask_bytes n (Suc l) =
     (if 8 \<le> n then 255 # mask_bytes (n - 8) l
      else NOT (drop_bit n 255) # mask_bytes 0 l)"

definition CIDRMask :: "nat \<Rightarrow> nat \<Rightarrow> IPMask" where
  "CIDRMask ones bits = mask_bytes ones (bits div 8)"

definition lead_ones :: "byte \<Rightarrow> nat" where
  "lead_ones v = length (takeWhile (\<lambda>i. bit v i) (rev [0..<8]))"

fun simpleMaskLength :: "IPMask \<Rightarrow> nat option" where
  "simpleMaskLength [] = Some 0"
| "simpleMaskLength (v # m) =
     (if v = 255 then map_option ((+) 8) (simpleMaskLength m)
      else if push_bit (lead_ones v) v \<noteq> 0 then None
      else if list_all (\<lambda>x. x = 0) m then Some (lead_ones v) else None)"

definition Mask_Size :: "IPMask \<Rightarrow> nat \<times> nat" where
  "Mask_Size m = (case simpleMaskLength m of None \<Rightarrow> (0, 0) | Some n \<Rightarrow> (n, 8 * length m))"

definition IP_Mask :: "IP \<Rightarrow> IPMask \<Rightarrow> IP" where
  "IP_Mask ip m =
     (let m' = (if length m = 16 \<and> length ip = 4 \<and> list_all (\<lambda>b. b = 255) (take 12 m)
                then drop 12 m else m);
          ip' = (if length m' = 4 \<and> length ip = 16 \<and> take 12 ip = v4InV6Prefix
                 then drop 12 ip else ip)
      in if length ip' \<noteq> length m' then [] else map2 (AND) ip' m')"

section \<open>Networks\<close>

definition networkNumberAndMask :: "IPNet \<Rightarrow> IP \<times> IPMask" where
  "networkNumberAndMask n =
     (let ip4 = To4 (nIP n); ip = (if ip4 \<noteq> [] then ip4 else nIP n); m = nMask n
      in if ip4 = [] \<and> length ip \<noteq> 16 then ([], [])
         else if length m = 4 then (if length ip \<noteq> 4 then ([], []) else (ip, m))
         else if length m = 16 then (ip, if length ip = 4 then drop 12 m else m)
         else ([], []))"

definition IPNet_Contains :: "IPNet \<Rightarrow> IP \<Rightarrow> bool" where
  "IPNet_Contains n ip =
     (let (nn, m) = networkNumberAndMask n; x = To4 ip; ip' = (if x \<noteq> [] then x else ip)
      in length ip' = length nn \<and> map2 (AND) nn m = map2 (AND) ip' m)"

section \<open>Textual form\<close>

definition hex_digit :: "nat \<Rightarrow> char" where
  "hex_digit d = (if d < 10 then char_of (48 + d) else char_of (87 + d))"

fun utoa16 :: "nat \<Rightarrow> string" where
  "utoa16 n = (if n < 16 then [hex_digit n] else utoa16 (n div 16) @ [hex_digit (n mod 16)])"

declare utoa16.simps [simp del]

definition hexString :: "byte list \<Rightarrow> string" where
  "hexString bs = concat (map (\<lambda>b. [hex_digit (unat b div 16), hex_digit (unat b mod 16)]) bs)"

definition v4_String :: "byte list \<Rightarrow> string" where
  "v4_String ip = Join (map (\<lambda>b. utoa (unat b)) ip) ''.''"

fun v6_groups :: "byte list \<Rightarrow> nat list" where
  "v6_groups (a # b # bs) = (unat a * 256 + unat b) # v6_groups bs"
| "v6_groups bs = []"

definition zero_run :: "nat list \<Rightarrow> nat \<Rightarrow> nat" where
  "zero_run gs i = length (takeWhile (\<lambda>g. g = 0) (drop i gs))"

text \<open>The first of the longest runs of at least two zero groups, as (start, length).\<close>

definition best_run :: "nat list \<Rightarrow> (nat \<times> nat) option" where
  "best_run gs = fold (\<lambda>i best. if 2 \<le> zero_run gs i \<and>
       (case best of None \<Rightarrow> True | Some (_, l) \<Rightarrow> l < zero_run gs i)
     then Some (i, zero_run gs i) else best) [0..<length gs] None"

definition v6_String :: "byte list \<Rightarrow> string" where
  "v6_String ip =
     (let gs = v6_groups ip in
      case best_run gs of
        None \<Rightarrow> Join (map utoa16 gs) '':''
      | Some (i, l) \<Rightarrow> Join (map utoa16 (take i gs)) '':'' @ ''::'' @
                      Join (map utoa16 (drop (i + l) gs)) '':'')"

definition IP_String :: "IP \<Rightarrow> string" where
  "IP_String ip =
     (if ip = [] then ''<nil>''
      else if length ip \<noteq> 4 \<and> length ip \<noteq> 16 then ''?'' @ hexString ip
      else if To4 ip \<noteq> [] then v4_String (To4 ip) else v6_String ip)"

definition IPNet_String :: "IPNet \<Rightarrow> string" where
  "IPNet_String n =
     (let (nn, m) = networkNumberAndMask n
      in if nn = [] \<or> m = [] then ''<nil>''
         else (case simpleMaskLength m of
                 None \<Rightarrow> IP_String nn @ ''/'' @ hexString m
               | Some l \<Rightarrow> IP_String nn @ ''/'' @ utoa l))"

section \<open>Parsing\<close>

fun v4_fields :: "char option \<Rightarrow> nat \<Rightarrow> nat \<Rightarrow> byte list \<Rightarrow> string \<Rightarrow> byte list option" where
  "v4_fields prev val digLen fs [] =
     (if length fs < 3 then None else Some (fs @ [of_nat val]))"
| "v4_fields prev val digLen fs (c # s) =
     (if is_digit c then
        (if digLen = 1 \<and> val = 0 then None
         else if 255 < val * 10 + (code c - 48) then None
         else v4_fields (Some c) (val * 10 + (code c - 48)) (Suc digLen) fs s)
      else if c = CHR ''.'' then
        (if prev = None \<or> s = [] \<or> prev = Some (CHR ''.'') then None
         else if length fs = 3 then None
         else v4_fields (Some c) 0 0 (fs @ [of_nat val]) s)
      else None)"

definition parseIPv4Fields :: "string \<Rightarrow> byte list option" where
  "parseIPv4Fields s = v4_fields None 0 0 [] s"

definition hex_val :: "char \<Rightarrow> nat option" where
  "hex_val c =
     (if is_digit c then Some (code c - 48)
      else if 97 \<le> code c \<and> code c \<le> 102 then Some (code c - 87)
      else if 65 \<le> code c \<and> code c \<le> 70 then Some (code c - 55)
      else None)"

definition hex_run :: "string \<Rightarrow> string" where
  "hex_run s = takeWhile (\<lambda>c. hex_val c \<noteq> None) s"

definition hex_num :: "string \<Rightarrow> nat" where
  "hex_num s = foldl (\<lambda>acc c. 16 * acc + the (hex_val c)) 0 s"

text \<open>
  The loop of \<open>parseIPv6\<close>: \<open>acc\<close> holds the bytes read so far (\<open>i = length acc\<close>), \<open>ell\<close> the
  position of the ellipsis, \<open>s\<close> the rest of the text. The result is the loop's final state.
\<close>

function v6_loop :: "byte list \<Rightarrow> nat option \<Rightarrow> string \<Rightarrow> (byte list \<times> nat option \<times> string) option"
where
  "v6_loop acc ell s =
     (if 16 \<le> length acc then Some (acc, ell, s)
      else let h = hex_run s; rest = drop (length h) s in
        if length h = 0 \<or> 4 < length h then None
        else if rest \<noteq> [] \<and> hd rest = CHR ''.'' then
          (if ell = None \<and> length acc \<noteq> 12 then None
           else if 16 < length acc + 4 then None
           else (case parseIPv4Fields s of
                   None \<Rightarrow> None
                 | Some fs \<Rightarrow> Some (acc @ fs, ell, [])))
        else
          let acc' = acc @ [of_nat (hex_num h div 256), of_nat (hex_num h mod 256)] in
          if rest = [] then Some (acc', ell, [])
          else if hd rest \<noteq> CHR '':'' \<or> length rest = 1 then None
          else if rest ! 1 = CHR '':'' then
            (if ell \<noteq> None then None
             else if length rest = 2 then Some (acc', Some (length acc'), [])
             else v6_loop acc' (Some (length acc')) (drop 2 rest))
          else v6_loop acc' ell (drop 1 rest))"
  by pat_completeness auto
termination
  by (relation "measure (\<lambda>(acc, ell, s). length s)") (auto simp: Let_def)

declare v6_loop.simps [simp del]

definition v6_finish :: "byte list \<times> nat option \<times> string \<Rightarrow> byte list option" where
  "v6_finish r = (case r of (acc, ell, s) \<Rightarrow>
     if s \<noteq> [] then None
     else if length acc < 16 then
       (case ell of None \<Rightarrow> None
        | Some e \<Rightarrow> Some (take e acc @ replicate (16 - length acc) 0 @ drop e acc))
     else (if ell = None then Some acc else None))"

definition parseIPv6 :: "string \<Rightarrow> byte list option" where
  "parseIPv6 s =
     (if HasPrefix s ''::'' then
        (if length s = 2 then Some (replicate 16 0)
         else Option.bind (v6_loop [] (Some 0) (drop 2 s)) v6_finish)
      else Option.bind (v6_loop [] None s) v6_finish)"

definition ParseIP :: "string \<Rightarrow> IP option" where
  "ParseIP s =
     (if CHR ''%'' \<in> set s then None
      else case find (\<lambda>c. c = CHR ''.'' \<or> c = CHR '':'') s of
        None \<Rightarrow> None
      | Some c \<Rightarrow> if c = CHR ''.'' then map_option ((@) v4InV6Prefix) (parseIPv4Fields s)
                  else parseIPv6 s)"

definition dtoi :: "string \<Rightarrow> nat option" where
  "dtoi s = (if s \<noteq> [] \<and> list_all is_digit s
     then Some (foldl (\<lambda>n c. 10 * n + (code c - 48)) 0 s) else None)"

definition ParseCIDR :: "string \<Rightarrow> (IP \<times> IPNet) option" where
  "ParseCIDR s =
     (if CHR ''/'' \<notin> set s then None
      else let a = takeWhile (\<lambda>c. c \<noteq> CHR ''/'') s; m = tl (dropWhile (\<lambda>c. c \<noteq> CHR ''/'') s) in
        case ParseIP a of None \<Rightarrow> None
        | Some ip16 \<Rightarrow>
            let bits = (if CHR '':'' \<in> set a then 128 else 32) in
            (case dtoi m of None \<Rightarrow> None
             | Some n \<Rightarrow> if bits < n then None
                         else let mask = CIDRMask n bits in
                           Some (ip16, \<lparr>nIP = IP_Mask ip16 mask, nMask = mask\<rparr>)))"

section \<open>Lemmas\<close>

lemma length_v4InV6Prefix [simp]: "length v4InV6Prefix = 12"
  by (simp add: v4InV6Prefix_def)

lemma To4_4 [simp]: "length ip = 4 \<Longrightarrow> To4 ip = ip"
  by (simp add: To4_def)

lemma To4_mapped [simp]: "length ip = 4 \<Longrightarrow> To4 (v4InV6Prefix @ ip) = ip"
  by (simp add: To4_def)

lemma IP_Equal_mapped [simp]:
  "length a = 4 \<Longrightarrow> length b = 4 \<Longrightarrow>
   IP_Equal (v4InV6Prefix @ a) (v4InV6Prefix @ b) \<longleftrightarrow> a = b"
  by (simp add: IP_Equal_def)

lemma list4_cases:
  assumes "length xs = 4"
  obtains a b c d where "xs = [a, b, c, d]"
  using assms by (auto simp: numeral_eq_Suc length_Suc_conv)

subsection \<open>Dotted decimals read back\<close>

lemma utoa_1: "n < 10 \<Longrightarrow> utoa n = [digit_char n]"
  by (subst utoa.simps) simp

lemma utoa_2: "10 \<le> n \<Longrightarrow> n < 100 \<Longrightarrow> utoa n = [digit_char (n div 10), digit_char (n mod 10)]"
  by (subst utoa.simps) (simp add: utoa_1)

lemma utoa_3: "100 \<le> n \<Longrightarrow> n < 1000 \<Longrightarrow>
  utoa n = [digit_char (n div 100), digit_char (n div 10 mod 10), digit_char (n mod 10)]"
  by (subst utoa.simps) (simp add: utoa_2 div_mult2_eq [symmetric])

lemma octet_cases:
  fixes n :: nat
  assumes "n < 256"
  obtains (one) "n < 10" | (two) "10 \<le> n" "n < 100" | (three) "100 \<le> n" "n < 1000"
  using assms by linarith

lemma v4_fields_digit:
  assumes "d < 10" and "10 * val + d < 256" and "digLen \<noteq> 1 \<or> val \<noteq> 0"
  shows "v4_fields prev val digLen fs (digit_char d # s)
       = v4_fields (Some (digit_char d)) (10 * val + d) (Suc digLen) fs s"
  using assms by (auto simp: mult.commute)

lemma v4_fields_octet:
  assumes "n < 256"
  shows "v4_fields prev 0 0 fs (utoa n @ rest)
       = v4_fields (Some (last (utoa n))) n (length (utoa n)) fs rest"
  using assms
proof (cases rule: octet_cases)
  case one
  then show ?thesis by (simp add: utoa_1)
next
  case two
  define q r where "q = n div 10" and "r = n mod 10"
  then have "n = 10 * q + r" "r < 10" by simp_all
  with two have "q < 10" "q \<noteq> 0" by auto
  show ?thesis
    unfolding utoa_2 [OF two] q_def [symmetric] r_def [symmetric]
    using \<open>q < 10\<close> \<open>q \<noteq> 0\<close> \<open>r < 10\<close> \<open>n = 10 * q + r\<close> assms
    by (simp add: v4_fields_digit del: v4_fields.simps)
next
  case three
  define p q r where "p = n div 100" and "q = n div 10 mod 10" and "r = n mod 10"
  then have "n = 10 * (10 * p + q) + r" "r < 10" "q < 10"
    by (simp_all add: div_mult2_eq [of n 10 10, simplified])
  with three have "p < 10" "p \<noteq> 0" by auto
  have "10 * p + q < 256"
    using assms \<open>n = 10 * (10 * p + q) + r\<close> by simp
  show ?thesis
    unfolding utoa_3 [OF three] p_def [symmetric] q_def [symmetric] r_def [symmetric]
    using \<open>p < 10\<close> \<open>p \<noteq> 0\<close> \<open>q < 10\<close> \<open>r < 10\<close> \<open>n = 10 * (10 * p + q) + r\<close> \<open>10 * p + q < 256\<close> assms
    by (simp add: v4_fields_digit del: v4_fields.simps)
qed

lemma utoa_last_not_dot [simp]: "last (utoa n) \<noteq> CHR ''.''"
  using utoa_digits [of n] is_digit_not_punct(1) last_in_set utoa_nonempty(1) by blast

lemma unat_byte_lt [simp]: "unat (b :: byte) < 256"
  by (rule order_less_le_trans [OF unsigned_less]) simp

lemma v4_String_4:
  "v4_String [a, b, c, d] = utoa (unat a) @ CHR ''.'' # utoa (unat b) @ CHR ''.'' #
     utoa (unat c) @ CHR ''.'' # utoa (unat d)"
  by (simp add: v4_String_def)

lemma dot_not_digit [simp]: "\<not> is_digit (CHR ''.'')" "\<not> is_digit (CHR ''/'')" "\<not> is_digit (CHR '':'')"
  "\<not> is_digit (CHR ''%'')"
  by (simp_all add: is_digit_def code_def)

lemma parseIPv4Fields_v4_String:
  assumes "length ip = 4"
  shows "parseIPv4Fields (v4_String ip) = Some ip"
proof -
  obtain a b c d where ip: "ip = [a, b, c, d]" using assms by (rule list4_cases)
  have last: "v4_fields prev 0 0 fs (utoa n) = v4_fields (Some (last (utoa n))) n (length (utoa n)) fs []"
    if "n < 256" for prev n fs
    using v4_fields_octet [OF that, of prev fs "[]"] by simp
  show ?thesis
    by (simp add: ip parseIPv4Fields_def v4_String_4 v4_fields_octet last)
qed

lemma v4_String_chars:
  assumes "length ip = 4"
  shows "\<forall>x\<in>set (v4_String ip). is_digit x \<or> x = CHR ''.''"
proof -
  obtain a b c d where "ip = [a, b, c, d]" using assms by (rule list4_cases)
  then show ?thesis using utoa_digits by (auto simp: v4_String_4)
qed

lemma v4_String_no_punct:
  assumes "length ip = 4"
  shows "CHR ''/'' \<notin> set (v4_String ip)" "CHR '':'' \<notin> set (v4_String ip)"
    "CHR ''%'' \<notin> set (v4_String ip)"
  by (rule notI, drule bspec [OF v4_String_chars [OF assms]], simp)+

lemma find_SomeD: "find P xs = Some x \<Longrightarrow> P x \<and> x \<in> set xs"
  by (induction xs) (auto split: if_splits)

lemma ParseIP_v4_String:
  assumes "length ip = 4"
  shows "ParseIP (v4_String ip) = Some (v4InV6Prefix @ ip)"
proof -
  let ?P = "\<lambda>c. c = CHR ''.'' \<or> c = CHR '':''"
  have "CHR ''.'' \<in> set (v4_String ip)"
    using assms by (rule list4_cases) (simp add: v4_String_4)
  then obtain c where c: "find ?P (v4_String ip) = Some c"
    by (cases "find ?P (v4_String ip)") (auto simp: find_None_iff)
  then have "?P c \<and> c \<in> set (v4_String ip)"
    by (rule find_SomeD)
  then have "c = CHR ''.''"
    using v4_String_no_punct(2) [OF assms] by auto
  with c show ?thesis
    using assms v4_String_no_punct(3) [OF assms]
    by (simp add: ParseIP_def parseIPv4Fields_v4_String)
qed

lemma v4_String_inj:
  assumes "length a = 4" and "length b = 4"
  shows "v4_String a = v4_String b \<longleftrightarrow> a = b"
proof
  assume "v4_String a = v4_String b"
  then have "parseIPv4Fields (v4_String a) = parseIPv4Fields (v4_String b)"
    by (rule arg_cong)
  then show "a = b"
    unfolding parseIPv4Fields_v4_String [OF assms(1)] parseIPv4Fields_v4_String [OF assms(2)]
    by (rule option.inject [THEN iffD1])
qed simp

lemma IP_String_4 [simp]: "length ip = 4 \<Longrightarrow> IP_String ip = v4_String ip"
  by (auto simp: IP_String_def)

subsection \<open>The /27 networks of the address manager\<close>

definition mask27 :: IPMask where "mask27 = [255, 255, 255, 224]"

lemma CIDRMask_27: "CIDRMask 27 32 = mask27"
  by code_simp

lemma simpleMaskLength_mask27 [simp]: "simpleMaskLength mask27 = Some 27"
  by code_simp

lemma length_mask27 [simp]: "length mask27 = 4"
  by (simp add: mask27_def)

lemma networkNumberAndMask_v4 [simp]:
  "length ip = 4 \<Longrightarrow> length m = 4 \<Longrightarrow> networkNumberAndMask \<lparr>nIP = ip, nMask = m\<rparr> = (ip, m)"
  by (auto simp: networkNumberAndMask_def)

lemma utoa_27: "utoa 27 = ''27''"
  by code_simp

lemma IPNet_String_27:
  "length ip = 4 \<Longrightarrow> IPNet_String \<lparr>nIP = ip, nMask = mask27\<rparr> = v4_String ip @ ''/27''"
  by (auto simp: IPNet_String_def utoa_27 simp flip: length_0_conv)

text \<open>A /27 network number: four bytes, the low five bits clear.\<close>

definition net27 :: "IPNet \<Rightarrow> bool" where
  "net27 n \<longleftrightarrow> length (nIP n) = 4 \<and> nMask n = mask27 \<and> map2 (AND) (nIP n) mask27 = nIP n"

lemma IPNet_String_27_inj:
  assumes "net27 a" and "net27 b"
  shows "IPNet_String a = IPNet_String b \<longleftrightarrow> a = b"
proof -
  obtain x y where "a = \<lparr>nIP = x, nMask = mask27\<rparr>" "b = \<lparr>nIP = y, nMask = mask27\<rparr>"
    "length x = 4" "length y = 4"
    using assms by (metis IPNet.surjective net27_def old.unit.exhaust)
  then show ?thesis
    by (simp add: IPNet_String_27 v4_String_inj)
qed

lemma net27_disjoint:
  assumes "net27 a" and "net27 b" and "IPNet_Contains a ip" and "IPNet_Contains b ip"
  shows "a = b"
proof -
  obtain x y where xy: "a = \<lparr>nIP = x, nMask = mask27\<rparr>" "b = \<lparr>nIP = y, nMask = mask27\<rparr>"
    and l: "length x = 4" "length y = 4"
    using assms(1,2) by (metis IPNet.surjective net27_def old.unit.exhaust)
  have "map2 (AND) x mask27 = map2 (AND) y mask27"
    using assms(3,4) l by (auto simp: IPNet_Contains_def xy Let_def)
  then show ?thesis
    using assms(1,2) by (simp add: net27_def xy)
qed

lemma ParseCIDR_27:
  assumes "net27 n"
  shows "ParseCIDR (IPNet_String n) = Some (v4InV6Prefix @ nIP n, n)"
proof -
  obtain x where x: "n = \<lparr>nIP = x, nMask = mask27\<rparr>" and l: "length x = 4"
    and m: "map2 (AND) x mask27 = x"
    using assms by (metis IPNet.surjective IPNet.select_convs(1) net27_def old.unit.exhaust)
  have slash: "takeWhile (\<lambda>c. c \<noteq> CHR ''/'') (v4_String x @ ''/27'') = v4_String x"
    "dropWhile (\<lambda>c. c \<noteq> CHR ''/'') (v4_String x @ ''/27'') = ''/27''"
    using v4_String_no_punct(1) [OF l] by (auto simp: takeWhile_append dropWhile_append)
  have "dtoi ''27'' = Some 27"
    by code_simp
  then show ?thesis
    using l m v4_String_no_punct(2) [OF l]
    by (simp add: x IPNet_String_27 ParseCIDR_def slash ParseIP_v4_String CIDRMask_27 IP_Mask_def Let_def)
qed

section \<open>Addresses as numbers\<close>

fun bval :: "byte list \<Rightarrow> nat" where
  "bval [] = 0"
| "bval (b # bs) = unat b * 256 ^ length bs + bval bs"

lemma bval_bound: "bval bs < 256 ^ length bs"
proof (induction bs)
  case (Cons b bs)
  have "unat b * 256 ^ length bs + bval bs < unat b * 256 ^ length bs + 256 ^ length bs"
    using Cons by simp
  also have "\<dots> = (unat b + 1) * 256 ^ length bs" by (simp add: algebra_simps)
  also have "\<dots> \<le> 256 * 256 ^ length bs" by (rule mult_right_mono) (use unat_byte_lt [of b] in \<open>simp_all del: unat_byte_lt\<close>)
  finally show ?case by simp
qed simp

lemma digit_split:
  fixes a b v w K :: nat
  assumes "v < K" and "w < K"
  shows "a * K + v = b * K + w \<longleftrightarrow> a = b \<and> v = w"
proof
  assume e: "a * K + v = b * K + w"
  have "(a * K + v) div K = a" "(b * K + w) div K = b" using assms by simp_all
  then have "a = b" using e by metis
  then show "a = b \<and> v = w" using e by simp
qed simp

lemma bval_inj: "length xs = length ys \<Longrightarrow> bval xs = bval ys \<longleftrightarrow> xs = ys"
proof (induction xs ys rule: list_induct2)
  case (Cons x xs y ys)
  then show ?case
    using digit_split [OF bval_bound [of xs], of "bval ys" "unat x" "unat y"] bval_bound [of ys]
    by (simp add: unsigned_word_eqI) (metis word_unat_eq_iff)
qed simp

lemma and_not_mask_eq:
  fixes x y :: "'a :: len word"
  shows "x AND NOT (mask k) = y AND NOT (mask k) \<longleftrightarrow> drop_bit k x = drop_bit k y"
proof
  assume e: "x AND NOT (mask k) = y AND NOT (mask k)"
  show "drop_bit k x = drop_bit k y"
  proof (rule bit_eqI)
    fix n
    assume "possible_bit TYPE('a word) n"
    have "bit (x AND NOT (mask k)) (k + n) = bit (y AND NOT (mask k)) (k + n)" using e by simp
    then show "bit (drop_bit k x) n = bit (drop_bit k y) n"
      by (auto simp: bit_simps dest: bit_imp_le_length)
  qed
next
  assume e: "drop_bit k x = drop_bit k y"
  show "x AND NOT (mask k) = y AND NOT (mask k)"
  proof (rule bit_eqI)
    fix n
    have "bit x (k + (n - k)) = bit y (k + (n - k))"
      using e by (metis bit_drop_bit_eq comp_apply)
    then show "bit (x AND NOT (mask k)) n = bit (y AND NOT (mask k)) n"
      by (cases "n < k") (auto simp: bit_simps)
  qed
qed

text \<open>The top \<open>n\<close> bits of a byte.\<close>

lemma NOT_drop_255: "n < 8 \<Longrightarrow> NOT (drop_bit n 255 :: byte) = NOT (mask (8 - n))"
proof -
  assume "n < 8"
  then have "n \<in> {0, 1, 2, 3, 4, 5, 6, 7}" by auto
  then show ?thesis by (auto simp: mask_eq_exp_minus_1 drop_bit_eq_div)
qed

lemma byte_mask_eq:
  fixes x y :: byte
  assumes "n < 8"
  shows "x AND NOT (drop_bit n 255) = y AND NOT (drop_bit n 255) \<longleftrightarrow>
    unat x div 2 ^ (8 - n) = unat y div 2 ^ (8 - n)"
proof -
  have "unat z div 2 ^ (8 - n) = unat (drop_bit (8 - n) z)" for z :: byte
    unfolding unat_drop_bit_eq by (rule drop_bit_eq_div [symmetric])
  then show ?thesis
    unfolding NOT_drop_255 [OF assms] and_not_mask_eq by (metis word_unat_eq_iff)
qed

lemma byte_and_255 [simp]: "x AND 255 = (x :: byte)"
proof -
  have "(255 :: byte) = - 1" by simp
  then show ?thesis by (simp only: and.right_neutral)
qed

lemma zero_mask: "length xs = length ys \<Longrightarrow> map2 (AND) xs (mask_bytes 0 (length xs)) = map2 (AND) ys (mask_bytes 0 (length ys))"
proof (induction xs ys rule: list_induct2)
  case (Cons x xs y ys)
  have "NOT (drop_bit 0 255) = (0 :: byte)" by simp
  then show ?case using Cons by (simp del: drop_bit_0)
qed simp

lemma length_mask_bytes [simp]: "length (mask_bytes n l) = l"
  by (induction n l rule: mask_bytes.induct) auto

lemma div_digit:
  fixes a v l k :: nat
  assumes "v < 256 ^ l"
  shows "k \<le> 8 * l \<Longrightarrow> (a * 256 ^ l + v) div 2 ^ k = a * 2 ^ (8 * l - k) + v div 2 ^ k"
    and "8 * l \<le> k \<Longrightarrow> (a * 256 ^ l + v) div 2 ^ k = a div 2 ^ (k - 8 * l)"
proof -
  have p: "(256 :: nat) ^ l = 2 ^ (8 * l)" by (simp add: power_mult)
  show "(a * 256 ^ l + v) div 2 ^ k = a * 2 ^ (8 * l - k) + v div 2 ^ k" if "k \<le> 8 * l"
  proof -
    have "(2 :: nat) ^ (8 * l) = 2 ^ (8 * l - k) * 2 ^ k" using that by (simp flip: power_add)
    then have "a * 256 ^ l + v = v + a * 2 ^ (8 * l - k) * 2 ^ k" by (simp add: p)
    then have "(a * 256 ^ l + v) div 2 ^ k = (v + a * 2 ^ (8 * l - k) * 2 ^ k) div 2 ^ k" by (rule arg_cong)
    also have "\<dots> = a * 2 ^ (8 * l - k) + v div 2 ^ k" by (rule div_mult_self1) simp
    finally show ?thesis .
  qed
  show "(a * 256 ^ l + v) div 2 ^ k = a div 2 ^ (k - 8 * l)" if "8 * l \<le> k"
  proof -
    have "(2 :: nat) ^ k = 2 ^ (8 * l) * 2 ^ (k - 8 * l)" using that by (simp flip: power_add)
    then have "(a * 256 ^ l + v) div 2 ^ k = (a * 256 ^ l + v) div 256 ^ l div 2 ^ (k - 8 * l)"
      by (simp add: p div_mult2_eq)
    then show ?thesis using assms by simp
  qed
qed

lemma masked_eq:
  assumes "length xs = length ys" and "n \<le> 8 * length xs"
  shows "map2 (AND) xs (mask_bytes n (length xs)) = map2 (AND) ys (mask_bytes n (length xs)) \<longleftrightarrow>
    bval xs div 2 ^ (8 * length xs - n) = bval ys div 2 ^ (8 * length xs - n)"
  using assms
proof (induction xs ys arbitrary: n rule: list_induct2)
  case (Cons x xs y ys)
  let ?l = "length xs"
  show ?case
  proof (cases "8 \<le> n")
    case True
    let ?k = "8 * ?l - (n - 8)"
    have k: "8 * length (x # xs) - n = ?k" "?k \<le> 8 * ?l" using True by simp_all
    have b: "bval zs div 2 ^ ?k < 2 ^ (8 * ?l - ?k)" if "length zs = ?l" for zs
    proof (rule less_mult_imp_div_less)
      have "(2 :: nat) ^ (8 * ?l - ?k) * 2 ^ ?k = 256 ^ ?l"
        using k(2) unfolding power_add [symmetric] by (simp add: power_mult)
      then show "bval zs < 2 ^ (8 * ?l - ?k) * 2 ^ ?k" using bval_bound [of zs] that by simp
    qed
    have "bval (z # zs) div 2 ^ ?k = unat z * 2 ^ (8 * ?l - ?k) + bval zs div 2 ^ ?k"
      if "length zs = ?l" for z zs
      using div_digit(1) [OF bval_bound [of zs], of ?k "unat z"] that k(2) by simp
    then have "bval (x # xs) div 2 ^ ?k = bval (y # ys) div 2 ^ ?k \<longleftrightarrow>
        unat x = unat y \<and> bval xs div 2 ^ ?k = bval ys div 2 ^ ?k"
      using digit_split [OF b [of xs] b [of ys], of "unat x" "unat y"] Cons.hyps by metis
    then show ?thesis using Cons.IH [of "n - 8"] Cons.prems True
      unfolding k(1) by (simp add: word_unat_eq_iff del: bval.simps)
  next
    case False
    let ?k = "8 * length (x # xs) - n"
    have k: "8 * ?l \<le> ?k" "?k - 8 * ?l = 8 - n" using False by simp_all
    have "bval (z # zs) div 2 ^ ?k = unat z div 2 ^ (8 - n)" if "length zs = ?l" for z zs
      using div_digit(2) [OF bval_bound [of zs], of ?k "unat z"] that k by simp
    then have "bval (x # xs) div 2 ^ ?k = bval (y # ys) div 2 ^ ?k \<longleftrightarrow>
        unat x div 2 ^ (8 - n) = unat y div 2 ^ (8 - n)"
      using Cons.hyps by simp
    then show ?thesis
      using False zero_mask [OF Cons.hyps] Cons.hyps byte_mask_eq [of n x y]
      by (simp del: bval.simps)
  qed
qed simp


lemma IPNet_Contains_iff:
  assumes "length x = 4" and "length ip = 4" and "n \<le> 32"
  shows "IPNet_Contains \<lparr>nIP = x, nMask = CIDRMask n 32\<rparr> ip \<longleftrightarrow>
    bval x div 2 ^ (32 - n) = bval ip div 2 ^ (32 - n)"
  using masked_eq [of x ip n] assms
  by (simp add: IPNet_Contains_def CIDRMask_def Let_def)

lemma masked_self:
  "map2 (AND) (map2 (AND) xs m) m = map2 (AND) xs (m :: byte list)"
  by (induction xs m rule: list_induct2') (simp_all add: and.assoc)

lemma byte_masked_dvd:
  fixes x :: byte
  assumes "n < 8"
  shows "2 ^ (8 - n) dvd unat (x AND NOT (drop_bit n 255))"
proof -
  let ?z = "x AND NOT (mask (8 - n))"
  have "take_bit (8 - n) ?z = 0" by (rule bit_eqI) (simp add: bit_simps)
  then have "take_bit (8 - n) (unat ?z) = 0" using unsigned_take_bit_eq [of "8 - n" ?z] by simp
  then show ?thesis unfolding NOT_drop_255 [OF assms] by (simp add: take_bit_eq_mod mod_eq_0_iff_dvd)
qed

lemma bval_zero_mask: "bval (map2 (AND) xs (mask_bytes 0 (length xs))) = 0"
proof (induction xs)
  case (Cons x xs)
  have "NOT (drop_bit 0 255) = (0 :: byte)" by simp
  then show ?case using Cons by (simp del: drop_bit_0)
qed simp

lemma masked_dvd: "n \<le> 8 * length xs \<Longrightarrow> 2 ^ (8 * length xs - n) dvd bval (map2 (AND) xs (mask_bytes n (length xs)))"
proof (induction xs arbitrary: n)
  case (Cons x xs)
  let ?l = "length xs"
  have p: "(256 :: nat) ^ ?l = 2 ^ (8 * ?l)" by (simp add: power_mult)
  show ?case
  proof (cases "8 \<le> n")
    case True
    have "(2 :: nat) ^ (8 * ?l - (n - 8)) dvd unat x * 256 ^ ?l"
      unfolding p by (rule dvd_mult) (rule le_imp_power_dvd, simp)
    moreover have "8 * length (x # xs) - n = 8 * ?l - (n - 8)" using True by simp
    ultimately show ?thesis using Cons.IH [of "n - 8"] Cons.prems True
      by (simp only: mask_bytes.simps if_True list.size zip_Cons_Cons list.map prod.case bval.simps
          length_map length_zip length_mask_bytes) (simp add: dvd_add)
  next
    case False
    have "8 * length (x # xs) - n = (8 - n) + 8 * ?l" using False by simp
    moreover have "2 ^ (8 - n) * 256 ^ ?l dvd unat (x AND NOT (drop_bit n 255)) * 256 ^ ?l"
      by (rule mult_dvd_mono [OF byte_masked_dvd]) (use False in simp_all)
    moreover have "bval (map2 (AND) (x # xs) (mask_bytes n (length (x # xs)))) =
        unat (x AND NOT (drop_bit n 255)) * 256 ^ ?l"
      using False by (simp add: bval_zero_mask)
    ultimately show ?thesis by (simp only: power_add p)
  qed
qed simp

text \<open>The mask of \<open>CIDRMask\<close> has the length it was built with.\<close>

lemma lead_ones_byte:
  "n < 8 \<Longrightarrow> NOT (drop_bit n 255 :: byte) \<noteq> 255 \<and> lead_ones (NOT (drop_bit n 255)) = n \<and>
   push_bit n (NOT (drop_bit n 255) :: byte) = 0"
proof -
  assume "n < 8"
  then have "n = 0 \<or> n = 1 \<or> n = 2 \<or> n = 3 \<or> n = 4 \<or> n = 5 \<or> n = 6 \<or> n = 7" by auto
  then show ?thesis by (elim disjE; simp only:; code_simp)
qed

lemma mask_bytes_0: "list_all (\<lambda>x. x = 0) (mask_bytes 0 l)"
  by (induction l) simp_all

lemma simpleMaskLength_mask_bytes: "n \<le> 8 * l \<Longrightarrow> simpleMaskLength (mask_bytes n l) = Some n"
proof (induction n l rule: mask_bytes.induct)
  case (2 n l)
  then show ?case using lead_ones_byte [of n] mask_bytes_0 by (cases "8 \<le> n") auto
qed simp

lemma Mask_Size_CIDRMask:
  "n \<le> 8 * (bits div 8) \<Longrightarrow> Mask_Size (CIDRMask n bits) = (n, 8 * (bits div 8))"
  by (simp add: Mask_Size_def CIDRMask_def simpleMaskLength_mask_bytes)

text \<open>An IPv4 network as \<open>ParseCIDR\<close> gives it.\<close>

definition v4net :: "nat \<Rightarrow> IPNet \<Rightarrow> bool" where
  "v4net n net \<longleftrightarrow> n \<le> 32 \<and> length (nIP net) = 4 \<and> nMask net = CIDRMask n 32 \<and>
     map2 (AND) (nIP net) (nMask net) = nIP net"

lemma v4net_dvd:
  assumes "v4net n net"
  shows "2 ^ (32 - n) dvd bval (nIP net)"
proof -
  have "2 ^ (8 * length (nIP net) - n) dvd bval (map2 (AND) (nIP net) (mask_bytes n (length (nIP net))))"
    by (rule masked_dvd) (use assms in \<open>simp add: v4net_def\<close>)
  moreover have "mask_bytes n (length (nIP net)) = nMask net"
    using assms by (simp add: v4net_def CIDRMask_def)
  then have "map2 (AND) (nIP net) (mask_bytes n (length (nIP net))) = nIP net"
    using assms unfolding v4net_def by metis
  ultimately show ?thesis using assms by (simp add: v4net_def)
qed

lemma v4net_Contains:
  assumes "v4net n net" and "length ip = 4"
  shows "IPNet_Contains net ip \<longleftrightarrow> bval (nIP net) \<le> bval ip \<and> bval ip < bval (nIP net) + 2 ^ (32 - n)"
proof -
  let ?K = "2 ^ (32 - n) :: nat"
  obtain q where q: "bval (nIP net) = ?K * q" using v4net_dvd [OF assms(1)] by (auto simp: dvd_def)
  have net: "net = \<lparr>nIP = nIP net, nMask = CIDRMask n 32\<rparr>" using assms(1) by (simp add: v4net_def)
  have "IPNet_Contains net ip \<longleftrightarrow> bval (nIP net) div ?K = bval ip div ?K"
    using IPNet_Contains_iff [of "nIP net" ip n] assms net by (simp add: v4net_def)
  also have "bval (nIP net) div ?K = q" using q by simp
  also have "q = bval ip div ?K \<longleftrightarrow> ?K * q \<le> bval ip \<and> bval ip < ?K * q + ?K"
  proof
    assume "q = bval ip div ?K"
    then show "?K * q \<le> bval ip \<and> bval ip < ?K * q + ?K"
      using dividend_less_times_div [of ?K "bval ip"] times_div_less_eq_dividend [of ?K "bval ip"]
      by simp
  next
    assume "?K * q \<le> bval ip \<and> bval ip < ?K * q + ?K"
    then show "q = bval ip div ?K" by (metis add.commute div_nat_eqI mult.commute mult_Suc)
  qed
  finally show ?thesis using q by simp
qed

lemma net27_iff: "net27 net \<longleftrightarrow> v4net 27 net"
  by (auto simp: net27_def v4net_def CIDRMask_27)

lemma aligned_v4net:
  assumes "length ip = 4" and "n \<le> 32" and "2 ^ (32 - n) dvd bval ip"
  shows "v4net n \<lparr>nIP = ip, nMask = CIDRMask n 32\<rparr>"
proof -
  let ?z = "map2 (AND) ip (CIDRMask n 32)" and ?K = "2 ^ (32 - n) :: nat"
  have l: "length ?z = 4" using assms(1) by (simp add: CIDRMask_def)
  have "map2 (AND) ?z (mask_bytes n 4) = map2 (AND) ip (mask_bytes n 4)"
    by (simp add: CIDRMask_def masked_self)
  then have "bval ?z div ?K = bval ip div ?K"
    using masked_eq [of ?z ip n] l assms(1,2) by simp
  moreover have "?K dvd bval ?z"
    using masked_dvd [of n ip] assms(1,2) by (simp add: CIDRMask_def)
  ultimately have "bval ?z = bval ip" using assms(3) by (metis dvd_div_mult_self)
  then have "?z = ip" using bval_inj [of ?z ip] l assms(1) by simp
  then show ?thesis using assms(1,2) by (simp add: v4net_def)
qed

lemma bval_append: "bval (xs @ ys) = bval xs * 256 ^ length ys + bval ys"
  by (induction xs) (simp_all add: algebra_simps power_add)

lemma mask_bytes_nth: "n \<le> 8 * i \<Longrightarrow> i < l \<Longrightarrow> mask_bytes n l ! i = 0"
proof (induction n l arbitrary: i rule: mask_bytes.induct)
  case (2 n l)
  have "NOT (drop_bit 0 255) = (0 :: byte)" by simp
  then show ?case using 2 by (cases i; cases "8 \<le> n") (auto simp del: drop_bit_0)
qed simp

text \<open>
  An IPv4 result of \<open>ParseCIDR\<close> is a proper IPv4 network, unless it is an IPv6 network inside the
  IPv4-mapped range, whose prefix is longer than 27.
\<close>

lemma ParseCIDR_v4net:
  assumes "ParseCIDR s = Some (ip, net)" and "To4 (nIP net) \<noteq> []"
  shows "(\<exists>n. v4net n net) \<or> 27 < fst (Mask_Size (nMask net))"
proof -
  let ?a = "takeWhile (\<lambda>c. c \<noteq> CHR ''/'') s"
  define bits where "bits = (if CHR '':'' \<in> set ?a then 128 else 32 :: nat)"
  obtain n where p: "n \<le> bits" "net = \<lparr>nIP = IP_Mask ip (CIDRMask n bits), nMask = CIDRMask n bits\<rparr>"
    using assms(1) unfolding ParseCIDR_def Let_def bits_def [symmetric]
    by (auto simp: not_less split: if_splits option.splits)
  have "bits = 32 \<or> bits = 128" by (simp add: bits_def)
  then show ?thesis
  proof
    assume b: "bits = 32"
    have "IP_Mask ip (CIDRMask n 32) \<noteq> []" using assms(2) by (auto simp: p(2) b To4_def)
    then obtain x where x: "length x = 4" "nIP net = map2 (AND) x (CIDRMask n 32)"
      by (auto simp: p(2) b IP_Mask_def CIDRMask_def Let_def split: if_splits)
    have "v4net n net"
      using x p(1) masked_self [of x "mask_bytes n 4"]
      by (simp add: v4net_def) (simp add: p(2) b CIDRMask_def)
    then show ?thesis by blast
  next
    assume b: "bits = 128"
    have "80 < n"
    proof (rule ccontr)
      assume "\<not> 80 < n"
      then have m: "mask_bytes n 16 ! 10 = 0" by (intro mask_bytes_nth) simp_all
      have "\<not> list_all (\<lambda>b. b = 255) (take 12 (mask_bytes n 16))"
        using m by (auto simp: list_all_length intro!: exI [of _ 10])
      moreover have ne: "To4 (IP_Mask ip (CIDRMask n 128)) \<noteq> []" using assms(2) by (simp add: p(2) b)
      then have "IP_Mask ip (CIDRMask n 128) \<noteq> []" by (auto simp: To4_def)
      ultimately have l: "length ip = 16" "IP_Mask ip (CIDRMask n 128) = map2 (AND) ip (mask_bytes n 16)"
        by (auto simp: IP_Mask_def CIDRMask_def Let_def split: if_splits)
      then have t: "take 12 (map2 (AND) ip (mask_bytes n 16)) = v4InV6Prefix"
        using ne by (auto simp: To4_def split: if_splits)
      have "map2 (AND) ip (mask_bytes n 16) ! 10 = take 12 (map2 (AND) ip (mask_bytes n 16)) ! 10"
        by (rule nth_take [symmetric]) simp
      then show False using l(1) m unfolding t by (simp add: v4InV6Prefix_def nth_append)
    qed
    then show ?thesis using Mask_Size_CIDRMask [of n 128] p(1) by (simp add: p(2) b)
  qed
qed


end
