(* ===== verification/Cache_Spec.thy ===== *)
theory Cache_Spec
  imports Prelude
begin

text \<open>
  The interface of the in-process cache (\<open>internal/cache\<close>) as its clients use it: the address
  manager keeps tenant allocations in one, the access-control manager keeps packet decisions in
  one. A cache may forget at any time (eviction, expiry, closing), so its contract bounds what
  it can return from above: \<open>content\<close> is the map of the values a \<open>Get\<close> may still answer with.

  The clients' lemmas are proved here once: a cache that is coherent with the map it fronts
  answers only with what the map holds, and each client operation keeps it coherent.
\<close>

locale cache_spec =
  fixes get :: "'c \<Rightarrow> string \<Rightarrow> gotime \<Rightarrow> ('v option \<times> bool) \<times> 'c"
    and set :: "'c \<Rightarrow> string \<Rightarrow> 'v \<Rightarrow> duration \<Rightarrow> gotime \<Rightarrow> 'c"
    and delete :: "'c \<Rightarrow> string \<Rightarrow> 'c"
    and clear :: "'c \<Rightarrow> 'c"
    and content :: "'c \<Rightarrow> string \<Rightarrow> 'v option"
    and invar :: "'c \<Rightarrow> bool"
  assumes get_hit: "invar c \<Longrightarrow> get c k now = ((x, True), c') \<Longrightarrow> content c k = x \<and> x \<noteq> None"
    and get_miss: "invar c \<Longrightarrow> get c k now = ((x, False), c') \<Longrightarrow> x = None"
    and content_get: "invar c \<Longrightarrow> content (snd (get c k now)) \<subseteq>\<^sub>m content c"
    and content_set: "invar c \<Longrightarrow> content (set c k v ttl now) \<subseteq>\<^sub>m (content c)(k \<mapsto> v)"
    and content_delete: "invar c \<Longrightarrow> content (delete c k) \<subseteq>\<^sub>m (content c)(k := None)"
    and content_clear: "invar c \<Longrightarrow> content (clear c) = Map.empty"
    and invar_get: "invar c \<Longrightarrow> invar (snd (get c k now))"
    and invar_set: "invar c \<Longrightarrow> invar (set c k v ttl now)"
    and invar_delete: "invar c \<Longrightarrow> invar (delete c k)"
    and invar_clear: "invar c \<Longrightarrow> invar (clear c)"
begin

definition coherent :: "(string \<Rightarrow> 'v option) \<Rightarrow> 'c \<Rightarrow> bool" where
  "coherent src c \<longleftrightarrow> invar c \<and> content c \<subseteq>\<^sub>m src"

lemma coherent_hit:
  assumes "coherent src c" and "get c k now = ((x, True), c')"
  obtains v where "x = Some v" "src k = Some v"
proof -
  have "content c k = x" "x \<noteq> None"
    using assms get_hit unfolding coherent_def by blast+
  then obtain v where "x = Some v" "content c k = Some v" by auto
  moreover from this have "src k = Some v"
    using assms(1) unfolding coherent_def map_le_def by (metis domI)
  ultimately show thesis using that by blast
qed

lemma coherent_get: "coherent src c \<Longrightarrow> coherent src (snd (get c k now))"
  unfolding coherent_def using content_get invar_get map_le_trans by blast

lemma coherent_set:
  assumes "coherent src c"
  shows "coherent (src(k \<mapsto> v)) (set c k v ttl now)"
proof -
  have "content c \<subseteq>\<^sub>m src" "invar c" using assms by (simp_all add: coherent_def)
  then have "(content c)(k \<mapsto> v) \<subseteq>\<^sub>m src(k \<mapsto> v)" by (simp only: map_le_upd)
  with content_set [OF \<open>invar c\<close>] have "content (set c k v ttl now) \<subseteq>\<^sub>m src(k \<mapsto> v)"
    by (rule map_le_trans)
  then show ?thesis using \<open>invar c\<close> by (simp add: coherent_def invar_set)
qed

lemma coherent_set_same:
  assumes "coherent src c" and "src k = Some v"
  shows "coherent src (set c k v ttl now)"
proof -
  have "src(k \<mapsto> v) = src" using assms(2) by (simp add: map_upd_triv)
  with coherent_set [OF assms(1), of k v ttl now] show ?thesis by simp
qed

lemma coherent_delete:
  assumes "coherent src c"
  shows "coherent (src(k := None)) (delete c k)"
proof -
  have "content c \<subseteq>\<^sub>m src" "invar c" using assms by (simp_all add: coherent_def)
  then have "(content c)(k := None) \<subseteq>\<^sub>m src(k := None)" by (simp only: map_le_upd)
  with content_delete [OF \<open>invar c\<close>] have "content (delete c k) \<subseteq>\<^sub>m src(k := None)"
    by (rule map_le_trans)
  then show ?thesis using \<open>invar c\<close> by (simp add: coherent_def invar_delete)
qed

lemma coherent_clear: "invar c \<Longrightarrow> coherent src (clear c)"
  unfolding coherent_def by (simp add: content_clear invar_clear)

lemma coherent_invar: "coherent src c \<Longrightarrow> invar c"
  by (simp add: coherent_def)

end

end
