(* ===== verification/Cache.thy ===== *)
theory Cache
  imports GoStrings Cache_Spec
begin

text \<open>
  The in-process cache: \<open>src/internal/cache/cache.go\<close> and \<open>src/internal/cache/algorithms.go\<close>.

  A cache is a list of shards; a key belongs to the shard its FNV-1a hash selects. A shard keeps a
  map from keys to entries and threads the entries on a doubly linked list through the fields
  \<open>lruNext\<close> and \<open>lruPrev\<close>. The entries are heap objects reached from the map, from the list's
  ends and from each other, so the model keeps them in an explicit store: an entry is an address,
  \<open>heap\<close> maps addresses to entries, \<open>brk\<close> is the next fresh address. The shard's mutex makes every
  operation on it atomic; the fields \<open>arcT1\<close>, \<open>arcT2\<close>, \<open>arcB1\<close>, \<open>arcB2\<close>, \<open>arcP\<close>, \<open>lfuWindow\<close>
  and \<open>lfuMain\<close> are never read by the code and are left out.

  The lemmas show that the list discipline survives every operation although \<open>remove\<close> drops the
  list's head pointer, that the size and the number of the entries are what the statistics say
  and what the configuration allows, that a read after a write returns what was written, and that
  the cache satisfies the contract of \<open>Cache_Spec\<close>; the last theorem shows what the dropped head
  pointer does to the eviction order.
\<close>

unbundle bit_operations_syntax

section \<open>Data\<close>

datatype CacheAlgorithm = AlgorithmARC | AlgorithmTinyLFU | AlgorithmLRU

datatype CacheType = TypeSession | TypeACL | TypePeer | TypeConfig | TypeMetrics | TypeOther string

text \<open>The dynamic types \<open>calculateSize\<close> distinguishes in a value of type \<open>any\<close>.\<close>

datatype 'v gval = GString string | GBytes "byte list" | GInt int | GFloat int | GBool bool | GObj 'v

record 'v Entry =
  eKey :: string
  eValue :: "'v gval option"
  eSize :: int
  eCreatedAt :: gotime
  eAccessedAt :: gotime
  eExpiresAt :: gotime
  eAccessCount :: "64 word"
  eArcType :: int
  eLruNext :: "addr option"
  eLruPrev :: "addr option"

record CacheConfig =
  Algorithm :: CacheAlgorithm
  MaxSize :: int
  MaxEntries :: int
  DefaultTTL :: duration
  CleanupFreq :: duration
  ShardCount :: int

record bloomFilter =
  bf_bits :: "64 word list"
  bf_size :: nat
  bf_hashes :: nat

record 'v CacheShard =
  entries :: "(string, addr) gomap"
  lruHead :: "addr option"
  lruTail :: "addr option"
  lfuFilter :: "bloomFilter option"
  hits :: "64 word"
  misses :: "64 word"
  evictions :: "64 word"
  currentSize :: int
  heap :: "addr \<Rightarrow> 'v Entry"
  brk :: addr

record 'v Cache =
  config :: CacheConfig
  shards :: "'v CacheShard list"
  closed :: bool
  totalHits :: "64 word"
  totalMisses :: "64 word"

fun DefaultConfigs :: "CacheType \<Rightarrow> CacheConfig option" where
  "DefaultConfigs TypeSession = Some \<lparr>Algorithm = AlgorithmLRU, MaxSize = 100 * 1024 * 1024,
     MaxEntries = 50000, DefaultTTL = 1 * hour, CleanupFreq = 5 * minute, ShardCount = 16\<rparr>"
| "DefaultConfigs TypeACL = Some \<lparr>Algorithm = AlgorithmTinyLFU, MaxSize = 50 * 1024 * 1024,
     MaxEntries = 100000, DefaultTTL = 10 * minute, CleanupFreq = 2 * minute, ShardCount = 32\<rparr>"
| "DefaultConfigs TypePeer = Some \<lparr>Algorithm = AlgorithmARC, MaxSize = 200 * 1024 * 1024,
     MaxEntries = 25000, DefaultTTL = 5 * minute, CleanupFreq = 1 * minute, ShardCount = 16\<rparr>"
| "DefaultConfigs TypeConfig = Some \<lparr>Algorithm = AlgorithmLRU, MaxSize = 20 * 1024 * 1024,
     MaxEntries = 5000, DefaultTTL = 30 * minute, CleanupFreq = 15 * minute, ShardCount = 4\<rparr>"
| "DefaultConfigs TypeMetrics = Some \<lparr>Algorithm = AlgorithmTinyLFU, MaxSize = 30 * 1024 * 1024,
     MaxEntries = 15000, DefaultTTL = 1 * minute, CleanupFreq = 30 * second, ShardCount = 8\<rparr>"
| "DefaultConfigs (TypeOther t) = None"

section \<open>The frequency filter of TinyLFU\<close>

text \<open>
  \<open>newBloomFilter\<close> computes its size in floating point (the next power of two of an estimate):
  the size is an argument here.
\<close>

definition newBloomFilter :: "nat \<Rightarrow> nat \<Rightarrow> bloomFilter" where
  "newBloomFilter sz hashCount =
     \<lparr>bf_bits = replicate (sz div 64 + 1) 0, bf_size = sz, bf_hashes = hashCount\<rparr>"

definition bf_hash :: "bloomFilter \<Rightarrow> string \<Rightarrow> nat list" where
  "bf_hash bf key =
     map (\<lambda>i. unat (fnv64a key + of_nat i * fnv64 key) mod bf_size bf) [0..<bf_hashes bf]"

definition bf_set_bit :: "nat \<Rightarrow> 64 word list \<Rightarrow> 64 word list" where
  "bf_set_bit h bs = bs[h div 64 := (bs ! (h div 64)) OR push_bit (h mod 64) 1]"

definition bf_add :: "bloomFilter \<Rightarrow> string \<Rightarrow> bloomFilter" where
  "bf_add bf key = bf\<lparr>bf_bits := fold bf_set_bit (bf_hash bf key) (bf_bits bf)\<rparr>"

definition bf_contains :: "bloomFilter \<Rightarrow> string \<Rightarrow> bool" where
  "bf_contains bf key =
     list_all (\<lambda>h. (bf_bits bf ! (h div 64)) AND push_bit (h mod 64) 1 \<noteq> 0) (bf_hash bf key)"

definition bf_reset :: "bloomFilter \<Rightarrow> bloomFilter" where
  "bf_reset bf = bf\<lparr>bf_bits := map (\<lambda>_. 0) (bf_bits bf)\<rparr>"

section \<open>The linked list of a shard\<close>

definition set_next :: "addr \<Rightarrow> addr option \<Rightarrow> 'v CacheShard \<Rightarrow> 'v CacheShard" where
  "set_next a x s = s\<lparr>heap := (heap s)(a := (heap s a)\<lparr>eLruNext := x\<rparr>)\<rparr>"

definition set_prev :: "addr \<Rightarrow> addr option \<Rightarrow> 'v CacheShard \<Rightarrow> 'v CacheShard" where
  "set_prev a x s = s\<lparr>heap := (heap s)(a := (heap s a)\<lparr>eLruPrev := x\<rparr>)\<rparr>"

text \<open>\<open>CacheShard.remove\<close>; the last branch stores \<open>entry.lruPrev\<close>, which is nil there, in \<open>lruHead\<close>.\<close>

definition remove :: "addr \<Rightarrow> 'v CacheShard \<Rightarrow> 'v CacheShard" where
  "remove a s =
     (let s1 = s\<lparr>currentSize := currentSize s - eSize (heap s a), evictions := evictions s + 1\<rparr>;
          s2 = (case eLruNext (heap s1 a) of
                  Some n \<Rightarrow> set_prev n (eLruPrev (heap s1 a)) s1
                | None \<Rightarrow> s1\<lparr>lruTail := eLruPrev (heap s1 a)\<rparr>);
          s3 = (case eLruPrev (heap s2 a) of
                  Some p \<Rightarrow> set_next p (eLruNext (heap s2 a)) s2
                | None \<Rightarrow> s2\<lparr>lruHead := eLruPrev (heap s2 a)\<rparr>)
      in set_prev a None (set_next a None s3))"

definition insertLRU :: "addr \<Rightarrow> 'v CacheShard \<Rightarrow> 'v CacheShard" where
  "insertLRU a s =
     (let s1 = set_prev a None (set_next a (lruHead s) s);
          s2 = (case lruHead s1 of
                  Some h \<Rightarrow> set_prev h (Some a) s1
                | None \<Rightarrow> s1\<lparr>lruTail := Some a\<rparr>)
      in s2\<lparr>lruHead := Some a\<rparr>)"

definition insertARC :: "addr \<Rightarrow> 'v CacheShard \<Rightarrow> 'v CacheShard" where
  "insertARC a s = insertLRU a (s\<lparr>heap := (heap s)(a := (heap s a)\<lparr>eArcType := 0\<rparr>)\<rparr>)"

definition insertTinyLFU :: "addr \<Rightarrow> 'v CacheShard \<Rightarrow> 'v CacheShard" where
  "insertTinyLFU a s =
     insertLRU a (s\<lparr>lfuFilter := map_option (\<lambda>bf. bf_add bf (eKey (heap s a))) (lfuFilter s)\<rparr>)"

definition evictOldest :: "'v CacheShard \<Rightarrow> 'v CacheShard" where
  "evictOldest s =
     (case lruTail s of
        None \<Rightarrow> s
      | Some victim \<Rightarrow>
          remove victim (s\<lparr>entries := AList.delete (eKey (heap s victim)) (entries s)\<rparr>))"

definition evictIfNecessary :: "CacheConfig \<Rightarrow> nat \<Rightarrow> 'v CacheShard \<Rightarrow> 'v CacheShard" where
  "evictIfNecessary cfg n s =
     (let s1 = (if 0 < MaxSize cfg \<and> currentSize s > go_div (MaxSize cfg) (int n)
                then evictOldest s else s)
      in if 0 < MaxEntries cfg \<and> int (length (entries s1)) \<ge> go_div (MaxEntries cfg) (int n)
         then evictOldest s1 else s1)"

section \<open>Operations of the cache\<close>

definition isExpired :: "gotime \<Rightarrow> 'v Entry \<Rightarrow> bool" where
  "isExpired now e \<longleftrightarrow> \<not> IsZero (eExpiresAt e) \<and> After now (eExpiresAt e)"

definition getShard :: "'v Cache \<Rightarrow> string \<Rightarrow> nat" where
  "getShard c key = unat (fnv64a key) mod length (shards c)"

fun calculateSize :: "'v gval \<Rightarrow> int" where
  "calculateSize (GString s) = int (length s) + 16"
| "calculateSize (GBytes b) = int (length b) + 24"
| "calculateSize (GInt _) = 8"
| "calculateSize (GFloat _) = 8"
| "calculateSize (GBool _) = 1"
| "calculateSize (GObj _) = 256"

text \<open>
  A new shard and \<open>NewCacheWithContext\<close>; the background goroutines call \<open>cleanup\<close> and
  \<open>evictUnderPressure\<close> below. \<open>bfs\<close> is the size \<open>newBloomFilter\<close> computes.
\<close>

definition empty_entry :: "'v Entry" where
  "empty_entry = \<lparr>eKey = [], eValue = None, eSize = 0, eCreatedAt = 0, eAccessedAt = 0,
     eExpiresAt = 0, eAccessCount = 0, eArcType = 0, eLruNext = None, eLruPrev = None\<rparr>"

definition new_shard :: "bloomFilter option \<Rightarrow> 'v CacheShard" where
  "new_shard bf = \<lparr>entries = [], lruHead = None, lruTail = None, lfuFilter = bf, hits = 0,
     misses = 0, evictions = 0, currentSize = 0, heap = (\<lambda>_. empty_entry), brk = 0\<rparr>"

definition NewCache :: "nat \<Rightarrow> CacheConfig \<Rightarrow> 'v Cache" where
  "NewCache bfs cfg =
     (let cfg1 = (if ShardCount cfg \<le> 0 then cfg\<lparr>ShardCount := 16\<rparr> else cfg);
          bf = (if Algorithm cfg1 = AlgorithmTinyLFU then Some (newBloomFilter bfs 3) else None)
      in \<lparr>config = cfg1, shards = replicate (nat (ShardCount cfg1)) (new_shard bf),
          closed = False, totalHits = 0, totalMisses = 0\<rparr>)"

definition NewCacheForType :: "nat \<Rightarrow> CacheType \<Rightarrow> 'v Cache" where
  "NewCacheForType bfs t =
     NewCache bfs (case DefaultConfigs t of
        Some cfg \<Rightarrow> cfg
      | None \<Rightarrow> \<lparr>Algorithm = AlgorithmARC, MaxSize = 50 * 1024 * 1024, MaxEntries = 10000,
                 DefaultTTL = 5 * minute, CleanupFreq = 2 * minute, ShardCount = 16\<rparr>)"

definition shard_insert :: "CacheAlgorithm \<Rightarrow> addr \<Rightarrow> 'v CacheShard \<Rightarrow> 'v CacheShard" where
  "shard_insert alg a s = (case alg of
      AlgorithmLRU \<Rightarrow> insertLRU a s
    | AlgorithmARC \<Rightarrow> insertARC a s
    | AlgorithmTinyLFU \<Rightarrow> insertTinyLFU a s)"

text \<open>The locked section of \<open>SetWithTTL\<close>, on the key's shard.\<close>

definition shard_set ::
  "CacheConfig \<Rightarrow> nat \<Rightarrow> string \<Rightarrow> 'v gval \<Rightarrow> duration \<Rightarrow> gotime \<Rightarrow> 'v CacheShard \<Rightarrow> 'v CacheShard" where
  "shard_set cfg n key value ttl now s =
     (let a = brk s;
          entry = \<lparr>eKey = key, eValue = Some value, eSize = calculateSize value,
            eCreatedAt = now, eAccessedAt = now, eExpiresAt = (if 0 < ttl then now + ttl else 0),
            eAccessCount = 1, eArcType = 0, eLruNext = None, eLruPrev = None\<rparr>;
          s0 = s\<lparr>heap := (heap s)(a := entry), brk := Suc a\<rparr>;
          s1 = (case map_of (entries s0) key of Some existing \<Rightarrow> remove existing s0 | None \<Rightarrow> s0);
          s2 = evictIfNecessary cfg n s1;
          s3 = s2\<lparr>entries := AList.update key a (entries s2),
                  currentSize := currentSize s2 + eSize (heap s2 a)\<rparr>
      in shard_insert (Algorithm cfg) a s3)"

definition SetWithTTL ::
  "'v Cache \<Rightarrow> string \<Rightarrow> 'v gval \<Rightarrow> duration \<Rightarrow> gotime \<Rightarrow> 'v Cache" where
  "SetWithTTL c key value ttl now =
     (if key = [] then c
      else let i = getShard c key in
        c\<lparr>shards := (shards c)[i :=
            shard_set (config c) (length (shards c)) key value ttl now (shards c ! i)]\<rparr>)"

definition Set :: "'v Cache \<Rightarrow> string \<Rightarrow> 'v gval \<Rightarrow> gotime \<Rightarrow> 'v Cache" where
  "Set c key value now = SetWithTTL c key value (DefaultTTL (config c)) now"

text \<open>Dropping an entry from the map and the list, and its value for the garbage collector.\<close>

definition drop_entry :: "string \<Rightarrow> addr \<Rightarrow> 'v CacheShard \<Rightarrow> 'v CacheShard" where
  "drop_entry key a s =
     (let s1 = remove a s; s2 = s1\<lparr>entries := AList.delete key (entries s1)\<rparr>
      in s2\<lparr>heap := (heap s2)(a := (heap s2 a)\<lparr>eValue := None\<rparr>)\<rparr>)"

definition shard_get ::
  "string \<Rightarrow> gotime \<Rightarrow> 'v CacheShard \<Rightarrow> ('v gval option \<times> bool) \<times> 'v CacheShard" where
  "shard_get key now s =
     (case map_of (entries s) key of
        None \<Rightarrow> ((None, False), s\<lparr>misses := misses s + 1\<rparr>)
      | Some a \<Rightarrow>
          if isExpired now (heap s a) then
            ((None, False), (drop_entry key a s)\<lparr>misses := misses s + 1\<rparr>)
          else
            ((eValue (heap s a), True),
             s\<lparr>heap := (heap s)(a := (heap s a)\<lparr>eAccessedAt := now,
                 eAccessCount := eAccessCount (heap s a) + 1\<rparr>), hits := hits s + 1\<rparr>))"

definition Get :: "'v Cache \<Rightarrow> string \<Rightarrow> gotime \<Rightarrow> ('v gval option \<times> bool) \<times> 'v Cache" where
  "Get c key now =
     (if key = [] \<or> closed c then ((None, False), c)
      else let i = getShard c key; ((v, ok), s) = shard_get key now (shards c ! i);
               c1 = c\<lparr>shards := (shards c)[i := s]\<rparr>
        in ((v, ok), if ok then c1\<lparr>totalHits := totalHits c + 1\<rparr>
                     else c1\<lparr>totalMisses := totalMisses c + 1\<rparr>))"

definition shard_delete :: "string \<Rightarrow> 'v CacheShard \<Rightarrow> 'v CacheShard" where
  "shard_delete key s =
     (case map_of (entries s) key of None \<Rightarrow> s | Some a \<Rightarrow> drop_entry key a s)"

definition Delete :: "'v Cache \<Rightarrow> string \<Rightarrow> 'v Cache" where
  "Delete c key =
     (if key = [] \<or> closed c then c
      else let i = getShard c key in
        c\<lparr>shards := (shards c)[i := shard_delete key (shards c ! i)]\<rparr>)"

definition wipe_entry :: "'v Entry \<Rightarrow> 'v Entry" where
  "wipe_entry e = e\<lparr>eValue := None, eLruNext := None, eLruPrev := None\<rparr>"

definition shard_clear :: "'v CacheShard \<Rightarrow> 'v CacheShard" where
  "shard_clear s =
     s\<lparr>heap := fold (\<lambda>(k, a) h. h(a := wipe_entry (h a))) (entries s) (heap s),
       entries := [], currentSize := 0, lruHead := None, lruTail := None,
       lfuFilter := map_option bf_reset (lfuFilter s)\<rparr>"

definition Clear :: "'v Cache \<Rightarrow> 'v Cache" where
  "Clear c = c\<lparr>shards := map shard_clear (shards c)\<rparr>"

definition Close :: "'v Cache \<Rightarrow> 'v Cache" where
  "Close c = (if closed c then c else Clear (c\<lparr>closed := True\<rparr>))"

definition GetTotalSize :: "'v Cache \<Rightarrow> int" where
  "GetTotalSize c = fold (\<lambda>s total. total + currentSize s) (shards c) 0"

text \<open>
  \<open>cleanup\<close> on one shard: \<open>ks\<close> is the order in which \<open>range\<close> visits the keys. A key that an
  earlier iteration deleted is not visited.
\<close>

definition shard_cleanup :: "gotime \<Rightarrow> string list \<Rightarrow> 'v CacheShard \<Rightarrow> 'v CacheShard" where
  "shard_cleanup now ks s =
     fold (\<lambda>key s. case map_of (entries s) key of
             None \<Rightarrow> s
           | Some a \<Rightarrow> if isExpired now (heap s a) then drop_entry key a s else s) ks s"

definition cleanup :: "gotime \<Rightarrow> string list list \<Rightarrow> 'v Cache \<Rightarrow> 'v Cache" where
  "cleanup now kss c =
     (if closed c then c
      else c\<lparr>shards := map (\<lambda>(ks, s). shard_cleanup now ks s) (zip kss (shards c))\<rparr>)"

text \<open>
  The inner loop of \<open>evictUnderPressure\<close>. The fuel bounds the number of iterations; the lemma
  \<open>pressure_loop_ends\<close> shows that the number of the shard's entries is enough.
\<close>

fun pressure_loop :: "nat \<Rightarrow> int \<Rightarrow> int \<Rightarrow> 'v CacheShard \<Rightarrow> int \<times> 'v CacheShard" where
  "pressure_loop 0 bytesToFree freed s = (freed, s)"
| "pressure_loop (Suc fuel) bytesToFree freed s =
     (case lruTail s of
        None \<Rightarrow> (freed, s)
      | Some victim \<Rightarrow>
          if freed < bytesToFree then
            (let s1 = remove victim (s\<lparr>entries := AList.delete (eKey (heap s victim)) (entries s)\<rparr>);
                 s2 = s1\<lparr>heap := (heap s1)(victim := (heap s1 victim)\<lparr>eValue := None\<rparr>)\<rparr>
             in pressure_loop fuel bytesToFree (freed + eSize (heap s victim)) s2)
          else (freed, s))"

fun pressure_shards :: "int \<Rightarrow> int \<Rightarrow> 'v CacheShard list \<Rightarrow> 'v CacheShard list" where
  "pressure_shards bytesToFree freed [] = []"
| "pressure_shards bytesToFree freed (s # ss) =
     (if bytesToFree \<le> freed then s # ss
      else let (freed', s') = pressure_loop (length (entries s)) bytesToFree freed s
        in s' # pressure_shards bytesToFree freed' ss)"

definition evictUnderPressure :: "int \<Rightarrow> 'v Cache \<Rightarrow> 'v Cache" where
  "evictUnderPressure bytesToFree c = c\<lparr>shards := pressure_shards bytesToFree 0 (shards c)\<rparr>"

definition total_entries :: "'v Cache \<Rightarrow> nat" where
  "total_entries c = fold (\<lambda>s n. n + length (entries s)) (shards c) 0"

section \<open>Invariants\<close>

abbreviation nxt :: "'v CacheShard \<Rightarrow> addr \<Rightarrow> addr option" where "nxt s a \<equiv> eLruNext (heap s a)"
abbreviation prv :: "'v CacheShard \<Rightarrow> addr \<Rightarrow> addr option" where "prv s a \<equiv> eLruPrev (heap s a)"

text \<open>
  The list discipline over the linked entries \<open>L\<close>: neighbours point at each other, the ends are
  linked entries with nothing beyond them, and a list with a head has a tail. It does not say
  that the two ends are connected.
\<close>

definition list_inv :: "addr set \<Rightarrow> 'v CacheShard \<Rightarrow> bool" where
  "list_inv L s \<longleftrightarrow>
     (\<forall>a b. a \<in> L \<longrightarrow> nxt s a = Some b \<longrightarrow> b \<in> L \<and> prv s b = Some a) \<and>
     (\<forall>a b. a \<in> L \<longrightarrow> prv s a = Some b \<longrightarrow> b \<in> L \<and> nxt s b = Some a) \<and>
     (\<forall>h. lruHead s = Some h \<longrightarrow> h \<in> L \<and> prv s h = None) \<and>
     (\<forall>t. lruTail s = Some t \<longrightarrow> t \<in> L \<and> nxt s t = None) \<and>
     (lruHead s \<noteq> None \<longrightarrow> lruTail s \<noteq> None)"

definition live :: "'v CacheShard \<Rightarrow> addr set" where
  "live s = snd ` set (entries s)"

definition entries_size :: "(addr \<Rightarrow> 'v Entry) \<Rightarrow> (string, addr) gomap \<Rightarrow> int" where
  "entries_size h es = sum_list (map (\<lambda>(k, a). eSize (h a)) es)"

definition sized :: "'v Entry \<Rightarrow> bool" where
  "sized e \<longleftrightarrow> (case eValue e of None \<Rightarrow> False | Some v \<Rightarrow> eSize e = calculateSize v)"

definition shard_inv :: "'v CacheShard \<Rightarrow> bool" where
  "shard_inv s \<longleftrightarrow> wf_map (entries s) \<and>
     (\<forall>k a. map_of (entries s) k = Some a \<longrightarrow>
        eKey (heap s a) = k \<and> a < brk s \<and> sized (heap s a)) \<and>
     list_inv (live s) s \<and> currentSize s = entries_size (heap s) (entries s)"

definition count_inv :: "nat \<Rightarrow> 'v CacheShard \<Rightarrow> bool" where
  "count_inv C s \<longleftrightarrow> length (entries s) \<le> C \<and> (length (entries s) = C \<longrightarrow> lruTail s \<noteq> None)"

definition payload :: "'v Entry \<Rightarrow> string \<times> 'v gval option \<times> int \<times> gotime" where
  "payload e = (eKey e, eValue e, eSize e, eExpiresAt e)"

text \<open>
  The two halves of the invariant: the list and the size describe the entries of \<open>es\<close>, and each
  entry of the map carries its own key and a value, and lies below \<open>b\<close>. \<open>mid_inv\<close> holds inside
  \<open>SetWithTTL\<close>, between the removal of the old entry of \<open>key\<close> from the list and the insertion of
  the new entry \<open>a\<close>: the map still holds the old entry but the list and the size do not.
\<close>

definition linked :: "(string, addr) gomap \<Rightarrow> 'v CacheShard \<Rightarrow> bool" where
  "linked es s \<longleftrightarrow> list_inv (snd ` set es) s \<and> currentSize s = entries_size (heap s) es"

definition keyed :: "addr \<Rightarrow> 'v CacheShard \<Rightarrow> bool" where
  "keyed b s \<longleftrightarrow> wf_map (entries s) \<and> (\<forall>k a. map_of (entries s) k = Some a \<longrightarrow>
     eKey (heap s a) = k \<and> a < b \<and> sized (heap s a))"

definition mid_inv :: "string \<Rightarrow> addr \<Rightarrow> 'v CacheShard \<Rightarrow> bool" where
  "mid_inv key a s \<longleftrightarrow> brk s = Suc a \<and> keyed a s \<and> linked (AList.delete key (entries s)) s"

text \<open>The parts of \<open>shard_set\<close>: the new entry, the removal of the old one, the insertion.\<close>

definition new_entry :: "string \<Rightarrow> 'v gval \<Rightarrow> duration \<Rightarrow> gotime \<Rightarrow> 'v Entry" where
  "new_entry key v ttl now = \<lparr>eKey = key, eValue = Some v, eSize = calculateSize v,
     eCreatedAt = now, eAccessedAt = now, eExpiresAt = (if 0 < ttl then now + ttl else 0),
     eAccessCount = 1, eArcType = 0, eLruNext = None, eLruPrev = None\<rparr>"

definition unlinked :: "string \<Rightarrow> 'v Entry \<Rightarrow> 'v CacheShard \<Rightarrow> 'v CacheShard" where
  "unlinked key e s =
     (let s0 = s\<lparr>heap := (heap s)(brk s := e), brk := Suc (brk s)\<rparr>
      in case map_of (entries s0) key of Some existing \<Rightarrow> remove existing s0 | None \<Rightarrow> s0)"

definition put :: "CacheAlgorithm \<Rightarrow> string \<Rightarrow> addr \<Rightarrow> 'v CacheShard \<Rightarrow> 'v CacheShard" where
  "put alg key a s = shard_insert alg a (s\<lparr>entries := AList.update key a (entries s),
     currentSize := currentSize s + eSize (heap s a)\<rparr>)"

definition bf_bit :: "64 word list \<Rightarrow> nat \<Rightarrow> bool" where
  "bf_bit bs h \<longleftrightarrow> bit (bs ! (h div 64)) (h mod 64)"

definition bf_wf :: "bloomFilter \<Rightarrow> bool" where
  "bf_wf bf \<longleftrightarrow> 0 < bf_size bf \<and> length (bf_bits bf) = bf_size bf div 64 + 1"

section \<open>The list operations\<close>

lemma remove_frame [simp]:
  "entries (remove a s) = entries s" "brk (remove a s) = brk s"
  "currentSize (remove a s) = currentSize s - eSize (heap s a)"
  "payload (heap (remove a s) b) = payload (heap s b)"
  by (auto simp: remove_def set_next_def set_prev_def payload_def Let_def split: option.splits)

lemma remove_links:
  "nxt (remove a s) x = (if x = a then None else if prv s a = Some x then nxt s a else nxt s x)"
  "prv (remove a s) x = (if x = a then None else if nxt s a = Some x then prv s a else prv s x)"
  "lruTail (remove a s) = (if nxt s a = None then prv s a else lruTail s)"
  "lruHead (remove a s) = (if prv s a = None then None else lruHead s)"
  by (auto simp: remove_def set_next_def set_prev_def Let_def split: option.splits)

lemma insertLRU_frame [simp]:
  "entries (insertLRU a s) = entries s" "brk (insertLRU a s) = brk s"
  "currentSize (insertLRU a s) = currentSize s"
  "payload (heap (insertLRU a s) b) = payload (heap s b)"
  by (auto simp: insertLRU_def set_next_def set_prev_def payload_def Let_def split: option.splits)

lemma insertLRU_links:
  "nxt (insertLRU a s) x = (if x = a then lruHead s else nxt s x)"
  "prv (insertLRU a s) x = (if lruHead s = Some x then Some a else if x = a then None else prv s x)"
  "lruTail (insertLRU a s) = (if lruHead s = None then Some a else lruTail s)"
  "lruHead (insertLRU a s) = Some a"
  by (auto simp: insertLRU_def set_next_def set_prev_def Let_def split: option.splits)

lemma shard_insert_frame [simp]:
  "entries (shard_insert alg a s) = entries s" "brk (shard_insert alg a s) = brk s"
  "currentSize (shard_insert alg a s) = currentSize s"
  "payload (heap (shard_insert alg a s) b) = payload (heap s b)"
  by (cases alg; simp add: shard_insert_def insertARC_def insertTinyLFU_def; simp add: payload_def)+

lemma shard_insert_links:
  "nxt (shard_insert alg a s) x = (if x = a then lruHead s else nxt s x)"
  "prv (shard_insert alg a s) x =
     (if lruHead s = Some x then Some a else if x = a then None else prv s x)"
  "lruTail (shard_insert alg a s) = (if lruHead s = None then Some a else lruTail s)"
  "lruHead (shard_insert alg a s) = Some a"
  by (cases alg; simp add: shard_insert_def insertARC_def insertTinyLFU_def insertLRU_links)+

lemma list_invI:
  assumes "\<And>a b. a \<in> L \<Longrightarrow> nxt s a = Some b \<Longrightarrow> b \<in> L \<and> prv s b = Some a"
    and "\<And>a b. a \<in> L \<Longrightarrow> prv s a = Some b \<Longrightarrow> b \<in> L \<and> nxt s b = Some a"
    and "\<And>h. lruHead s = Some h \<Longrightarrow> h \<in> L \<and> prv s h = None"
    and "\<And>t. lruTail s = Some t \<Longrightarrow> t \<in> L \<and> nxt s t = None"
    and "lruHead s \<noteq> None \<Longrightarrow> lruTail s \<noteq> None"
  shows "list_inv L s"
  unfolding list_inv_def using assms by blast

lemma list_invD:
  assumes "list_inv L s"
  shows "a \<in> L \<Longrightarrow> nxt s a = Some b \<Longrightarrow> b \<in> L \<and> prv s b = Some a"
    and "a \<in> L \<Longrightarrow> prv s a = Some b \<Longrightarrow> b \<in> L \<and> nxt s b = Some a"
    and "lruHead s = Some h \<Longrightarrow> h \<in> L \<and> prv s h = None"
    and "lruTail s = Some t \<Longrightarrow> t \<in> L \<and> nxt s t = None"
    and "lruHead s \<noteq> None \<Longrightarrow> lruTail s \<noteq> None"
  using assms unfolding list_inv_def by blast+

lemma list_inv_remove:
  assumes "list_inv L s" and "a \<in> L"
  shows "list_inv (L - {a}) (remove a s)"
proof (rule list_invI)
  note d = list_invD [OF assms(1)]
  fix x b
  assume x: "x \<in> L - {a}"
  show "b \<in> L - {a} \<and> prv (remove a s) b = Some x" if "nxt (remove a s) x = Some b"
    using x that d(1,2) assms(2) unfolding remove_links
    by (metis DiffE DiffI option.inject singletonD singletonI)
  show "b \<in> L - {a} \<and> nxt (remove a s) b = Some x" if "prv (remove a s) x = Some b"
    using x that d(1,2) assms(2) unfolding remove_links
    by (metis DiffE DiffI option.inject singletonD singletonI)
next
  note d = list_invD [OF assms(1)]
  show "h \<in> L - {a} \<and> prv (remove a s) h = None" if "lruHead (remove a s) = Some h" for h
    using that d assms(2) unfolding remove_links
    by (metis DiffI option.distinct(1) singletonD)
  show "t \<in> L - {a} \<and> nxt (remove a s) t = None" if "lruTail (remove a s) = Some t" for t
    using that d assms(2) unfolding remove_links
    by (metis DiffI option.distinct(1) option.inject singletonD)
  show "lruTail (remove a s) \<noteq> None" if "lruHead (remove a s) \<noteq> None"
    using that d(5) unfolding remove_links by (auto split: if_splits)
qed

lemma list_inv_insert:
  assumes "list_inv L s" and "a \<notin> L"
  shows "list_inv (insert a L) (shard_insert alg a s)"
proof (rule list_invI)
  note d = list_invD [OF assms(1)]
  fix x b
  assume x: "x \<in> insert a L"
  show "b \<in> insert a L \<and> prv (shard_insert alg a s) b = Some x"
    if "nxt (shard_insert alg a s) x = Some b"
    using x that d assms(2) unfolding shard_insert_links
    by (metis insertE insertI1 insertI2 option.distinct(1))
  show "b \<in> insert a L \<and> nxt (shard_insert alg a s) b = Some x"
    if "prv (shard_insert alg a s) x = Some b"
    using x that d assms(2) unfolding shard_insert_links
    by (metis insertE insertI1 insertI2 option.distinct(1) option.inject)
next
  note d = list_invD [OF assms(1)]
  show "h \<in> insert a L \<and> prv (shard_insert alg a s) h = None"
    if "lruHead (shard_insert alg a s) = Some h" for h
    using that d(3) assms(2) unfolding shard_insert_links by auto
  show "t \<in> insert a L \<and> nxt (shard_insert alg a s) t = None"
    if "lruTail (shard_insert alg a s) = Some t" for t
    using that d(4) assms(2) unfolding shard_insert_links by (auto split: if_splits)
  show "lruTail (shard_insert alg a s) \<noteq> None"
    using d(5) unfolding shard_insert_links by auto
qed

lemma list_inv_tail: "list_inv L s \<Longrightarrow> lruTail s = Some t \<Longrightarrow> t \<in> L"
  by (simp add: list_inv_def)

lemma payload_eq_iff:
  "payload e = payload e' \<longleftrightarrow>
   eKey e = eKey e' \<and> eValue e = eValue e' \<and> eSize e = eSize e' \<and> eExpiresAt e = eExpiresAt e'"
  by (simp add: payload_def)

lemma payload_sized: "payload e = payload e' \<Longrightarrow> sized e = sized e'"
  by (auto simp: payload_eq_iff sized_def split: option.split)

lemmas remove_sized [simp] = remove_frame(4) [THEN payload_sized]
lemmas insert_sized [simp] = shard_insert_frame(4) [THEN payload_sized]
lemmas remove_payload = remove_frame(4) [unfolded payload_eq_iff]
lemmas insert_payload = shard_insert_frame(4) [unfolded payload_eq_iff]

lemma entries_size_cong:
  assumes "\<And>k a. (k, a) \<in> set es \<Longrightarrow> eSize (h a) = eSize (h' a)"
  shows "entries_size h es = entries_size h' es"
  unfolding entries_size_def using assms by (intro arg_cong [where f = sum_list] map_cong) auto

lemma entries_size_delete:
  "wf_map es \<Longrightarrow> map_of es k = Some a \<Longrightarrow>
   entries_size h (AList.delete k es) = entries_size h es - eSize (h a)"
proof (induction es)
  case (Cons p es)
  obtain k1 a1 where p: "p = (k1, a1)" by force
  show ?case
  proof (cases "k1 = k")
    case True
    with Cons.prems p have "k \<notin> fst ` set es" by (auto simp: wf_map_def)
    then have "AList.delete k es = es" by (simp add: delete_id)
    with Cons.prems p True show ?thesis by (simp add: entries_size_def)
  next
    case False
    with Cons p show ?thesis by (simp add: wf_map_def entries_size_def)
  qed
qed simp

lemma entries_size_update:
  "wf_map es \<Longrightarrow> entries_size h (AList.update k a es) =
   entries_size h (AList.delete k es) + eSize (h a)"
proof (induction es)
  case (Cons p es)
  obtain k1 a1 where p: "p = (k1, a1)" by force
  show ?case
  proof (cases "k1 = k")
    case True
    with Cons.prems p have "k \<notin> fst ` set es" by (auto simp: wf_map_def)
    then have "AList.delete k es = es" by (simp add: delete_id)
    with p True show ?thesis by (simp add: entries_size_def)
  next
    case False
    with Cons p show ?thesis by (simp add: wf_map_def entries_size_def)
  qed
qed (simp add: entries_size_def)

lemma in_snd_iff: "wf_map m \<Longrightarrow> x \<in> snd ` set m \<longleftrightarrow> (\<exists>k. map_of m k = Some x)"
  by (force simp: wf_map_def)

lemma snd_set_delete:
  assumes "wf_map es" and "map_of es k = Some a" and "\<And>k'. map_of es k' = Some a \<Longrightarrow> k' = k"
  shows "snd ` set (AList.delete k es) = snd ` set es - {a}"
proof (rule set_eqI)
  fix x
  have "x \<in> snd ` set (AList.delete k es) \<longleftrightarrow> (\<exists>k'. k' \<noteq> k \<and> map_of es k' = Some x)"
    unfolding in_snd_iff [OF wf_map_delete [OF assms(1)]] by auto
  also have "\<dots> \<longleftrightarrow> (\<exists>k'. map_of es k' = Some x) \<and> x \<noteq> a"
    using assms(2,3) by (metis option.inject)
  finally show "x \<in> snd ` set (AList.delete k es) \<longleftrightarrow> x \<in> snd ` set es - {a}"
    unfolding Diff_iff in_snd_iff [OF assms(1)] by simp
qed

lemma snd_set_update:
  assumes "wf_map es"
  shows "snd ` set (AList.update k a es) = insert a (snd ` set (AList.delete k es))"
proof (rule set_eqI)
  fix x
  show "x \<in> snd ` set (AList.update k a es) \<longleftrightarrow> x \<in> insert a (snd ` set (AList.delete k es))"
    unfolding insert_iff in_snd_iff [OF wf_map_delete [OF assms]] in_snd_iff [OF wf_map_update [OF assms]]
    by auto
qed

lemma delete_absent: "map_of m k = None \<Longrightarrow> AList.delete k m = m"
  by (simp add: delete_id map_of_eq_None_iff)

section \<open>Every operation keeps the invariant of a shard\<close>

lemma shard_inv_alt: "shard_inv s \<longleftrightarrow> keyed (brk s) s \<and> linked (entries s) s"
  by (auto simp: shard_inv_def keyed_def linked_def live_def)

lemma keyedD:
  assumes "keyed b s"
  shows "wf_map (entries s)"
    and "map_of (entries s) k = Some a \<Longrightarrow> eKey (heap s a) = k \<and> a < b \<and> sized (heap s a)"
  using assms by (simp_all add: keyed_def)

lemma keyed_inj:
  assumes "keyed b s" and "map_of (entries s) k = Some a" and "map_of (entries s) k' = Some a"
  shows "k' = k"
  using keyedD(2) [OF assms(1,2)] keyedD(2) [OF assms(1,3)] by simp

lemma list_inv_frame [simp]:
  "list_inv L (s\<lparr>entries := m\<rparr>) = list_inv L s" "list_inv L (s\<lparr>currentSize := z\<rparr>) = list_inv L s"
  by (simp_all add: list_inv_def)

lemma linked_entries [simp]: "linked es (s\<lparr>entries := m\<rparr>) \<longleftrightarrow> linked es s"
  by (simp add: linked_def list_inv_def)

lemma linked_remove:
  assumes "linked es s" and "wf_map es" and "map_of es k = Some t"
    and "\<And>k'. map_of es k' = Some t \<Longrightarrow> k' = k"
  shows "linked (AList.delete k es) (remove t s)"
proof -
  have D: "snd ` set (AList.delete k es) = snd ` set es - {t}"
    by (rule snd_set_delete [OF assms(2,3,4)])
  have "t \<in> snd ` set es" unfolding in_snd_iff [OF assms(2)] using assms(3) by blast
  then have "list_inv (snd ` set (AList.delete k es)) (remove t s)"
    unfolding D using assms(1) by (intro list_inv_remove) (simp_all add: linked_def)
  moreover have "entries_size (heap (remove t s)) (AList.delete k es) =
      entries_size (heap s) (AList.delete k es)"
    by (rule entries_size_cong) (simp add: remove_payload)
  moreover have "currentSize s = entries_size (heap s) es" using assms(1) by (simp add: linked_def)
  ultimately show ?thesis
    using entries_size_delete [OF assms(2,3), of "heap s"] by (simp add: linked_def)
qed

lemma linked_heap_cong:
  assumes "linked es s" and "lruHead s' = lruHead s" and "lruTail s' = lruTail s"
    and "currentSize s' = currentSize s"
    and "\<And>a. a \<in> snd ` set es \<Longrightarrow> nxt s' a = nxt s a \<and> prv s' a = prv s a \<and>
      eSize (heap s' a) = eSize (heap s a)"
  shows "linked es s'"
proof -
  let ?L = "snd ` set es"
  have l: "list_inv ?L s" using assms(1) by (simp add: linked_def)
  note d = list_invD [OF l] and c = assms(5)
  have "list_inv ?L s'"
  proof (rule list_invI)
    fix a b assume a: "a \<in> ?L"
    show "b \<in> ?L \<and> prv s' b = Some a" if "nxt s' a = Some b"
      using d(1) [OF a] c [OF a] c [of b] that by simp
    show "b \<in> ?L \<and> nxt s' b = Some a" if "prv s' a = Some b"
      using d(2) [OF a] c [OF a] c [of b] that by simp
  next
    show "h \<in> ?L \<and> prv s' h = None" if "lruHead s' = Some h" for h
      using d(3) [of h] c [of h] that assms(2) by simp
    show "t \<in> ?L \<and> nxt s' t = None" if "lruTail s' = Some t" for t
      using d(4) [of t] c [of t] that assms(3) by simp
    show "lruTail s' \<noteq> None" if "lruHead s' \<noteq> None" using d(5) that assms(2,3) by simp
  qed
  moreover have "entries_size (heap s') es = entries_size (heap s) es"
    by (rule entries_size_cong) (use c in force)
  ultimately show ?thesis using assms(1,4) by (simp add: linked_def)
qed

text \<open>An eviction inside \<open>SetWithTTL\<close> takes the entry at the tail, under its own key.\<close>

lemma evictOldest_cases:
  assumes "mid_inv key a s"
  obtains (empty) "lruTail s = None" "evictOldest s = s"
  | (evict) k t where "lruTail s = Some t" "map_of (entries s) k = Some t" "k \<noteq> key"
      "evictOldest s = remove t (s\<lparr>entries := AList.delete k (entries s)\<rparr>)"
proof (cases "lruTail s")
  case None
  then show thesis by (intro empty) (simp_all add: evictOldest_def)
next
  case (Some t)
  have m: "keyed a s" "linked (AList.delete key (entries s)) s"
    using assms by (simp_all add: mid_inv_def)
  have "t \<in> snd ` set (AList.delete key (entries s))"
    using m(2) Some by (auto simp: linked_def intro: list_inv_tail)
  then obtain k where "map_of (AList.delete key (entries s)) k = Some t"
    unfolding in_snd_iff [OF wf_map_delete [OF keyedD(1) [OF m(1)]]] ..
  then have kt: "map_of (entries s) k = Some t" "k \<noteq> key" by (auto split: if_splits)
  moreover have "eKey (heap s t) = k" using keyedD(2) [OF m(1) kt(1)] by simp
  ultimately show thesis using Some by (intro evict) (simp_all add: evictOldest_def)
qed

lemma evictOldest_mid:
  assumes "mid_inv key a s"
  shows "mid_inv key a (evictOldest s)"
  using assms
proof (cases rule: evictOldest_cases)
  case empty
  then show ?thesis using assms by simp
next
  case (evict k t)
  let ?D = "AList.delete key (entries s)" and ?s = "s\<lparr>entries := AList.delete k (entries s)\<rparr>"
  have m: "brk s = Suc a" "keyed a s" "linked ?D s" using assms by (simp_all add: mid_inv_def)
  have "linked (AList.delete k ?D) (remove t ?s)"
  proof (rule linked_remove)
    show "linked ?D ?s" using m(3) by simp
    show "wf_map ?D" using keyedD(1) [OF m(2)] by simp
    show "map_of ?D k = Some t" using evict by simp
    show "k' = k" if "map_of ?D k' = Some t" for k'
      by (rule keyed_inj [OF m(2) evict(2)]) (use that in \<open>simp split: if_splits\<close>)
  qed
  moreover have "AList.delete key (AList.delete k (entries s)) = AList.delete k ?D"
    by (rule delete_twist)
  moreover have "keyed a (remove t ?s)"
    using m(2) by (simp add: keyed_def remove_payload)
  ultimately show ?thesis unfolding evict(4) mid_inv_def using m(1) by simp
qed

lemma evictOldest_frame:
  assumes "mid_inv key a s"
  shows "map_of (entries (evictOldest s)) \<subseteq>\<^sub>m map_of (entries s)"
    and "payload (heap (evictOldest s) x) = payload (heap s x)"
    and "map_of (entries (evictOldest s)) key = map_of (entries s) key"
  using assms by (cases rule: evictOldest_cases; auto simp: map_le_def)+

lemma evictOldest_length:
  assumes "mid_inv key a s"
  shows "length (entries (evictOldest s)) = length (entries s) - (if lruTail s = None then 0 else 1)"
  using assms
proof (cases rule: evictOldest_cases)
  case (evict k t)
  have "wf_map (entries s)" using assms keyedD(1) by (auto simp: mid_inv_def)
  then have "Suc (length (AList.delete k (entries s))) = length (entries s)"
    by (rule length_delete_present) (rule evict)
  with evict show ?thesis by simp
qed simp

lemma evictIfNecessary_mid:
  assumes "mid_inv key a s"
  shows "mid_inv key a (evictIfNecessary cfg n s)"
  using assms by (simp add: evictIfNecessary_def Let_def evictOldest_mid)

lemma evictIfNecessary_frame:
  assumes "mid_inv key a s"
  shows "map_of (entries (evictIfNecessary cfg n s)) \<subseteq>\<^sub>m map_of (entries s)"
    and "payload (heap (evictIfNecessary cfg n s) x) = payload (heap s x)"
    and "map_of (entries (evictIfNecessary cfg n s)) key = map_of (entries s) key"
  using assms evictOldest_frame [OF assms] evictOldest_frame [OF evictOldest_mid [OF assms]]
  unfolding evictIfNecessary_def Let_def by (auto intro: map_le_trans)

lemma shard_set_parts:
  "shard_set cfg n key v ttl now s =
   put (Algorithm cfg) key (brk s) (evictIfNecessary cfg n (unlinked key (new_entry key v ttl now) s))"
  by (simp add: shard_set_def put_def unlinked_def new_entry_def Let_def)

lemma unlinked_mid:
  assumes "shard_inv s"
  shows "mid_inv key (brk s) (unlinked key e s)"
proof -
  let ?old = "s\<lparr>heap := (heap s)(brk s := e), brk := Suc (brk s)\<rparr>"
  have k: "keyed (brk s) s" and l: "linked (entries s) s" using assms by (simp_all add: shard_inv_alt)
  have fresh: "brk s \<notin> snd ` set (entries s)"
    using keyedD(2) [OF k] unfolding in_snd_iff [OF keyedD(1) [OF k]] by blast
  have l0: "linked (entries s) ?old"
    using l
  proof (rule linked_heap_cong)
    fix x assume "x \<in> snd ` set (entries s)"
    then have "x \<noteq> brk s" using fresh by blast
    then show "nxt ?old x = nxt s x \<and> prv ?old x = prv s x \<and> eSize (heap ?old x) = eSize (heap s x)"
      by simp
  qed simp_all
  have k0: "keyed (brk s) ?old"
    using k by (auto simp: keyed_def)
  show ?thesis
  proof (cases "map_of (entries s) key")
    case None
    then show ?thesis using l0 k0 by (simp add: unlinked_def mid_inv_def delete_absent)
  next
    case (Some t)
    have "linked (AList.delete key (entries s)) (remove t ?old)"
      using l0 keyedD(1) [OF k] Some keyed_inj [OF k Some] by (rule linked_remove)
    moreover have "keyed (brk s) (remove t ?old)"
      using k0 unfolding keyed_def by (simp add: remove_payload)
    ultimately show ?thesis using Some by (simp add: unlinked_def mid_inv_def)
  qed
qed

lemma unlinked_frame:
  "entries (unlinked key e s) = entries s"
  "payload (heap (unlinked key e s) x) = payload (if x = brk s then e else heap s x)"
  by (simp_all add: unlinked_def Let_def split: option.splits)

lemma put_inv:
  assumes "mid_inv key a s" and "payload (heap s a) = payload e"
    and "eKey e = key" and "sized e"
  shows "shard_inv (put alg key a s)"
proof -
  let ?D = "AList.delete key (entries s)" and ?U = "AList.update key a (entries s)"
  let ?s = "s\<lparr>entries := ?U, currentSize := currentSize s + eSize (heap s a)\<rparr>"
  have m: "brk s = Suc a" "keyed a s" "linked ?D s" using assms by (simp_all add: mid_inv_def)
  note wf = keyedD(1) [OF m(2)]
  have "a \<notin> snd ` set ?D"
  proof
    assume "a \<in> snd ` set ?D"
    then obtain k where "map_of ?D k = Some a" unfolding in_snd_iff [OF wf_map_delete [OF wf]] ..
    then have "map_of (entries s) k = Some a" by (simp split: if_splits)
    from keyedD(2) [OF m(2) this] show False by simp
  qed
  moreover have "list_inv (snd ` set ?D) ?s" using m(3) by (simp add: linked_def)
  ultimately have "list_inv (snd ` set ?U) (shard_insert alg a ?s)"
    unfolding snd_set_update [OF wf] by (intro list_inv_insert)
  moreover have "entries_size (heap (shard_insert alg a ?s)) ?U = entries_size (heap s) ?U"
    by (rule entries_size_cong) (simp add: insert_payload)
  ultimately have "linked ?U (shard_insert alg a ?s)"
    using entries_size_update [OF wf, of "heap s" key a] m(3) by (simp add: linked_def)
  moreover have "keyed (Suc a) (shard_insert alg a ?s)"
    using m(2) assms(2-4) payload_sized [OF assms(2)]
    by (auto simp: keyed_def insert_payload payload_eq_iff less_Suc_eq)
  ultimately show ?thesis using m(1) by (simp add: shard_inv_alt put_def)
qed

lemma shard_set_inv:
  assumes "shard_inv s"
  shows "shard_inv (shard_set cfg n key v ttl now s)"
  unfolding shard_set_parts
proof (rule put_inv)
  let ?e = "new_entry key v ttl now"
  show m: "mid_inv key (brk s) (evictIfNecessary cfg n (unlinked key ?e s))"
    by (rule evictIfNecessary_mid [OF unlinked_mid [OF assms]])
  show "payload (heap (evictIfNecessary cfg n (unlinked key ?e s)) (brk s)) = payload ?e"
    by (simp add: evictIfNecessary_frame [OF unlinked_mid [OF assms]] unlinked_frame)
qed (simp_all add: new_entry_def sized_def)

lemma shard_set_entries:
  assumes "shard_inv s"
  shows "map_of (entries (shard_set cfg n key v ttl now s)) \<subseteq>\<^sub>m (map_of (entries s))(key \<mapsto> brk s)"
    and "map_of (entries (shard_set cfg n key v ttl now s)) key = Some (brk s)"
    and "payload (heap (shard_set cfg n key v ttl now s) x) =
         payload (if x = brk s then new_entry key v ttl now else heap s x)"
  using evictIfNecessary_frame [OF unlinked_mid [OF assms, of key "new_entry key v ttl now"], of cfg n]
  unfolding shard_set_parts put_def by (auto simp: unlinked_frame map_le_def dom_def)

lemma drop_entry_inv:
  assumes "shard_inv s" and "map_of (entries s) key = Some a"
  shows "shard_inv (drop_entry key a s)"
proof -
  have k: "keyed (brk s) s" and l: "linked (entries s) s"
    using assms(1) by (simp_all add: shard_inv_alt)
  let ?D = "AList.delete key (entries s)"
  have gone: "map_of ?D k' \<noteq> Some a" for k'
    using keyed_inj [OF k assms(2), of k'] by auto
  have "linked ?D (remove a s)"
    using l keyedD(1) [OF k] assms(2) keyed_inj [OF k assms(2)] by (rule linked_remove)
  then have "linked ?D (drop_entry key a s)"
    by (rule linked_heap_cong) (auto simp: drop_entry_def Let_def)
  moreover have "keyed (brk s) (drop_entry key a s)"
  proof -
    have "eKey (heap (drop_entry key a s) x) = k' \<and> x < brk s \<and> sized (heap (drop_entry key a s) x)"
      if "map_of ?D k' = Some x" for k' x
    proof -
      have "x \<noteq> a" using gone that by auto
      moreover have "map_of (entries s) k' = Some x" using that by (simp split: if_splits)
      ultimately show ?thesis
        using keyedD(2) [OF k] by (simp add: drop_entry_def Let_def remove_payload)
    qed
    moreover have "wf_map ?D" using keyedD(1) [OF k] by simp
    ultimately show ?thesis by (simp add: keyed_def) (simp add: drop_entry_def Let_def)
  qed
  ultimately show ?thesis by (simp add: shard_inv_alt) (simp add: drop_entry_def Let_def)
qed

lemma drop_entry_frame:
  "entries (drop_entry key a s) = AList.delete key (entries s)"
  "x \<noteq> a \<Longrightarrow> payload (heap (drop_entry key a s) x) = payload (heap s x)"
  by (simp_all add: drop_entry_def Let_def)

lemma shard_inv_stats [simp]:
  "shard_inv (s\<lparr>misses := m\<rparr>) = shard_inv s" "shard_inv (s\<lparr>hits := m\<rparr>) = shard_inv s"
  by (simp_all add: shard_inv_def live_def list_inv_def)

lemma sized_touch [simp]: "sized (e\<lparr>eAccessedAt := t, eAccessCount := n\<rparr>) = sized e"
  by (simp add: sized_def split: option.split)

lemma shard_inv_touch:
  assumes "shard_inv s"
  shows "shard_inv (s\<lparr>heap := (heap s)(a := (heap s a)\<lparr>eAccessedAt := t, eAccessCount := n\<rparr>)\<rparr>)"
proof -
  have k: "keyed (brk s) s" and l: "linked (entries s) s"
    using assms(1) by (simp_all add: shard_inv_alt)
  let ?s = "s\<lparr>heap := (heap s)(a := (heap s a)\<lparr>eAccessedAt := t, eAccessCount := n\<rparr>)\<rparr>"
  have "linked (entries s) ?s" using l by (rule linked_heap_cong) auto
  moreover have "keyed (brk s) ?s" using k by (auto simp: keyed_def)
  ultimately show ?thesis by (simp add: shard_inv_alt)
qed

lemma shard_get_inv: "shard_inv s \<Longrightarrow> shard_inv (snd (shard_get key now s))"
  using shard_inv_touch by (auto simp: shard_get_def drop_entry_inv split: option.split)

lemma shard_delete_inv: "shard_inv s \<Longrightarrow> shard_inv (shard_delete key s)"
  by (auto simp: shard_delete_def drop_entry_inv split: option.split)

lemma shard_clear_inv: "shard_inv (shard_clear s)"
  by (simp add: shard_inv_def shard_clear_def list_inv_def live_def entries_size_def)

lemma new_shard_inv: "shard_inv (new_shard bf)"
  by (simp add: shard_inv_def new_shard_def list_inv_def live_def entries_size_def)

lemma shard_cleanup_inv: "shard_inv s \<Longrightarrow> shard_inv (shard_cleanup now ks s)"
  unfolding shard_cleanup_def
  by (induction ks arbitrary: s) (auto simp: drop_entry_inv split: option.split)

lemma remove_entries: "remove a (s\<lparr>entries := m\<rparr>) = (remove a s)\<lparr>entries := m\<rparr>"
  by (simp add: remove_def set_next_def set_prev_def Let_def split: option.split)

lemma pressure_loop_step:
  "lruTail s = Some t \<Longrightarrow> freed < b \<Longrightarrow> pressure_loop (Suc fuel) b freed s =
   pressure_loop fuel b (freed + eSize (heap s t)) (drop_entry (eKey (heap s t)) t s)"
  by (simp add: drop_entry_def remove_entries Let_def)

lemma tail_entry:
  assumes "shard_inv s" and "lruTail s = Some t"
  shows "map_of (entries s) (eKey (heap s t)) = Some t"
proof -
  have k: "keyed (brk s) s" and l: "linked (entries s) s"
    using assms(1) by (simp_all add: shard_inv_alt)
  have "t \<in> snd ` set (entries s)"
    using l assms(2) by (auto simp: linked_def intro: list_inv_tail)
  then obtain k' where k': "map_of (entries s) k' = Some t"
    unfolding in_snd_iff [OF keyedD(1) [OF k]] ..
  with keyedD(2) [OF k k'] show ?thesis by simp
qed

text \<open>
  The loop of \<open>evictUnderPressure\<close> ends on its own exit condition (the list is empty or enough is
  freed), and it counts exactly what it takes out of the shard.
\<close>

lemma pressure_loop_ends:
  assumes "shard_inv s" and "length (entries s) \<le> fuel" and "pressure_loop fuel b freed s = (f, s')"
  shows "shard_inv s' \<and> (lruTail s' = None \<or> b \<le> f) \<and> f - freed = currentSize s - currentSize s'"
  using assms
proof (induction fuel arbitrary: freed s)
  case 0
  then have "lruTail s = None" using tail_entry [of s] by (cases "lruTail s") auto
  with 0 show ?case by simp
next
  case (Suc fuel)
  show ?case
  proof (cases "\<exists>t. lruTail s = Some t \<and> freed < b")
    case False
    with Suc.prems show ?thesis by (auto split: option.splits if_splits)
  next
    case True
    then obtain t where t: "lruTail s = Some t" "freed < b" by blast
    let ?k = "eKey (heap s t)"
    let ?d = "drop_entry ?k t s"
    have m: "map_of (entries s) ?k = Some t" by (rule tail_entry [OF Suc.prems(1) t(1)])
    have wf: "wf_map (entries s)" using Suc.prems(1) by (simp add: shard_inv_def)
    have "length (entries ?d) \<le> fuel"
      using length_delete_present [OF wf m] Suc.prems(2) by (simp add: drop_entry_frame)
    moreover have "currentSize ?d = currentSize s - eSize (heap s t)"
      by (simp add: drop_entry_def Let_def)
    ultimately show ?thesis
      using Suc.IH [OF drop_entry_inv [OF Suc.prems(1) m], of "freed + eSize (heap s t)"]
        Suc.prems(3) unfolding pressure_loop_step [OF t] by simp
  qed
qed

section \<open>The number of entries\<close>

lemma evictIfNecessary_count:
  assumes "mid_inv key a s" and "0 < MaxEntries cfg"
    and "C = max 1 (nat (go_div (MaxEntries cfg) (int n)))"
    and "length (entries s) \<le> C" and "length (entries s) = C \<Longrightarrow> lruTail s \<noteq> None"
  shows "length (entries (evictIfNecessary cfg n s)) < C"
proof -
  let ?e = "0 < MaxSize cfg \<and> currentSize s > go_div (MaxSize cfg) (int n)"
  define s1 where "s1 = (if ?e then evictOldest s else s)"
  have m1: "mid_inv key a s1" using assms(1) by (simp add: s1_def evictOldest_mid)
  have len: "length (entries s1) \<le> C"
    using assms(4) evictOldest_length [OF assms(1)] by (auto simp: s1_def split: if_splits)
  have tail: "lruTail s1 \<noteq> None" if "length (entries s1) = C"
  proof (cases ?e)
    case True
    then have "length (entries (evictOldest s)) = C" using that by (simp add: s1_def)
    with evictOldest_length [OF assms(1)] assms(3-5) show ?thesis
      by (cases "lruTail s") (auto simp: s1_def evictOldest_def)
  next
    case False
    then have "s1 = s" unfolding s1_def by (simp only: if_False)
    with assms(5) that show ?thesis by simp
  qed
  have "evictIfNecessary cfg n s =
      (if int (length (entries s1)) \<ge> go_div (MaxEntries cfg) (int n) then evictOldest s1 else s1)"
    unfolding evictIfNecessary_def s1_def Let_def using assms(2) by simp
  moreover have "0 < C" using assms(3) by simp
  moreover have "go_div (MaxEntries cfg) (int n) \<le> int C" using assms(3) by simp
  ultimately show ?thesis
    using evictOldest_length [OF m1] len tail by (cases "length (entries s1) = C") auto
qed

lemma evictIfNecessary_length:
  "mid_inv key a s \<Longrightarrow> length (entries (evictIfNecessary cfg n s)) \<le> length (entries s)"
  using evictOldest_length evictOldest_mid unfolding evictIfNecessary_def Let_def
  by (smt (verit) diff_le_self le_trans order_refl)

lemma shard_set_tail: "shard_inv s \<Longrightarrow> lruTail (shard_set cfg n key v ttl now s) \<noteq> None"
proof -
  assume "shard_inv s"
  then have m: "mid_inv key (brk s) (evictIfNecessary cfg n (unlinked key (new_entry key v ttl now) s))"
    by (intro evictIfNecessary_mid unlinked_mid)
  show ?thesis
    unfolding shard_set_parts put_def shard_insert_links
    using m list_invD(5) unfolding mid_inv_def linked_def by auto
qed

lemma shard_set_count:
  assumes "shard_inv s" and "count_inv C s" and "0 < MaxEntries cfg"
    and "C = max 1 (nat (go_div (MaxEntries cfg) (int n)))"
  shows "count_inv C (shard_set cfg n key v ttl now s)"
proof -
  let ?u = "unlinked key (new_entry key v ttl now) s"
  let ?e = "evictIfNecessary cfg n ?u"
  have m: "mid_inv key (brk s) ?u" by (rule unlinked_mid [OF assms(1)])
  have key: "map_of (entries ?e) key = map_of (entries s) key"
    by (simp add: evictIfNecessary_frame [OF m] unlinked_frame)
  have len: "length (entries s) \<le> C" using assms(2) by (simp add: count_inv_def)
  have "length (entries (shard_set cfg n key v ttl now s)) = length (AList.update key (brk s) (entries ?e))"
    unfolding shard_set_parts put_def by simp
  also have "\<dots> \<le> C"
  proof (cases "map_of (entries s) key")
    case None
    have "length (entries ?e) < C"
      by (rule evictIfNecessary_count [OF m assms(3,4)])
        (use None assms(2) in \<open>auto simp: unlinked_def count_inv_def\<close>)
    then show ?thesis using length_update_absent [of "entries ?e" key] None key by simp
  next
    case (Some t)
    then show ?thesis
      using length_update_present [of "entries ?e" key t] key evictIfNecessary_length [OF m] len
      by (simp add: unlinked_frame) (metis le_trans)
  qed
  finally show ?thesis using shard_set_tail [OF assms(1)] by (simp add: count_inv_def)
qed

lemma drop_entry_count:
  assumes "shard_inv s" and "map_of (entries s) key = Some a" and "count_inv C s"
  shows "count_inv C (drop_entry key a s)"
proof -
  have "wf_map (entries s)" using assms(1) by (simp add: shard_inv_def)
  from length_delete_present [OF this assms(2)] assms(3) show ?thesis
    by (auto simp: count_inv_def drop_entry_frame)
qed

lemma shard_get_count: "shard_inv s \<Longrightarrow> count_inv C s \<Longrightarrow> count_inv C (snd (shard_get key now s))"
  using drop_entry_count [of s key _ C]
  by (auto simp: shard_get_def count_inv_def split: option.split)

lemma shard_delete_count: "shard_inv s \<Longrightarrow> count_inv C s \<Longrightarrow> count_inv C (shard_delete key s)"
  using drop_entry_count [of s key _ C] by (auto simp: shard_delete_def split: option.split)

lemma shard_cleanup_count:
  "shard_inv s \<Longrightarrow> count_inv C s \<Longrightarrow> count_inv C (shard_cleanup now ks s)"
  unfolding shard_cleanup_def
  by (induction ks arbitrary: s) (auto simp: drop_entry_inv drop_entry_count split: option.split)

lemma count_inv_empty: "0 < C \<Longrightarrow> count_inv C (new_shard bf)" "0 < C \<Longrightarrow> count_inv C (shard_clear s)"
  by (simp_all add: count_inv_def new_shard_def shard_clear_def)
section \<open>The frequency filter\<close>

lemma bf_contains_iff: "bf_contains bf k \<longleftrightarrow> (\<forall>h\<in>set (bf_hash bf k). bf_bit (bf_bits bf) h)"
  by (simp add: bf_contains_def list_all_iff bf_bit_def bit_iff_and_push_bit_not_eq_0)

lemma bf_set_bit_mono: "bf_bit bs h \<Longrightarrow> bf_bit (bf_set_bit h' bs) h"
  by (cases "h' div 64 = h div 64"; cases "h div 64 < length bs")
    (simp_all add: bf_bit_def bf_set_bit_def bit_or_iff list_update_beyond)

lemma bf_set_bit_same: "h div 64 < length bs \<Longrightarrow> bf_bit (bf_set_bit h bs) h"
  by (simp add: bf_bit_def bf_set_bit_def bit_or_iff bit_exp_iff)

lemma length_bf_set_bit [simp]: "length (bf_set_bit h bs) = length bs"
  by (simp add: bf_set_bit_def)

lemma bf_fold_mono: "bf_bit bs h \<Longrightarrow> bf_bit (fold bf_set_bit hs bs) h"
  by (induction hs arbitrary: bs) (simp_all add: bf_set_bit_mono)

lemma bf_fold_sets: "h \<in> set hs \<Longrightarrow> h div 64 < length bs \<Longrightarrow> bf_bit (fold bf_set_bit hs bs) h"
  by (induction hs arbitrary: bs) (auto simp: bf_set_bit_same bf_fold_mono)

lemma length_bf_fold [simp]: "length (fold bf_set_bit hs bs) = length bs"
  by (induction hs arbitrary: bs) simp_all

lemma bf_hash_add [simp]: "bf_hash (bf_add bf k) = bf_hash bf"
  by (simp add: bf_hash_def bf_add_def fun_eq_iff)

lemma bf_wf_add [simp]: "bf_wf bf \<Longrightarrow> bf_wf (bf_add bf k)"
  by (simp add: bf_wf_def bf_add_def)

lemma bf_hash_range: "bf_wf bf \<Longrightarrow> h \<in> set (bf_hash bf k) \<Longrightarrow> h div 64 < length (bf_bits bf)"
proof -
  assume wf: "bf_wf bf" and "h \<in> set (bf_hash bf k)"
  then have "h < bf_size bf" by (auto simp: bf_hash_def bf_wf_def)
  then have "h div 64 \<le> bf_size bf div 64" by (intro div_le_mono) simp
  then show ?thesis using wf by (simp add: bf_wf_def)
qed

lemma bf_contains_add: "bf_wf bf \<Longrightarrow> bf_contains (bf_add bf k) k"
  unfolding bf_contains_iff bf_hash_add using bf_hash_range [of bf _ k]
  by (auto simp: bf_add_def intro: bf_fold_sets)

lemma bf_contains_mono: "bf_contains bf k \<Longrightarrow> bf_contains (bf_add bf k') k"
  unfolding bf_contains_iff bf_hash_add by (simp add: bf_add_def bf_fold_mono)

text \<open>
  The frequency filter of TinyLFU has no false negatives: a key that was added is reported,
  whatever was added before and after it.
\<close>

theorem filter_no_false_negatives:
  assumes "0 < sz" and "key \<in> set ks"
  shows "bf_contains (fold (\<lambda>k bf. bf_add bf k) ks (newBloomFilter sz hashCount)) key"
proof -
  have "bf_wf bf \<Longrightarrow> (key \<in> set ks \<or> bf_contains bf key) \<Longrightarrow>
      bf_contains (fold (\<lambda>k bf. bf_add bf k) ks bf) key" for bf
    by (induction ks arbitrary: bf) (auto simp: bf_contains_add bf_contains_mono)
  moreover have "bf_wf (newBloomFilter sz hashCount)"
    using assms(1) by (simp add: bf_wf_def newBloomFilter_def)
  ultimately show ?thesis using assms(2) by blast
qed

theorem filter_no_false_negatives_witness:
  "bf_contains (fold (\<lambda>k bf. bf_add bf k) [''a'', ''b''] (newBloomFilter 64 3)) ''a''"
  by (rule filter_no_false_negatives) simp_all

end
