(* ===== verification/Cache_Contract.thy ===== *)
theory Cache_Contract
  imports Cache
begin

text \<open>
  The cache as its clients see it: the invariant of all shards, the content a \<open>Get\<close> may answer
  with, the interpretation of the interface \<open>cache_spec\<close> on the operations of
  \<open>src/internal/cache/cache.go\<close>, and the properties of the caches that sequences of operations
  produce (capacity, accounting of sizes, expiry, eviction).
\<close>

section \<open>Content, limits and runs\<close>

definition cache_inv :: "'v Cache \<Rightarrow> bool" where
  "cache_inv c \<longleftrightarrow> shards c \<noteq> [] \<and> list_all shard_inv (shards c)"

definition shard_view :: "'v CacheShard \<Rightarrow> string \<Rightarrow> 'v gval option" where
  "shard_view s k = (case map_of (entries s) k of None \<Rightarrow> None | Some a \<Rightarrow> eValue (heap s a))"

definition content :: "'v Cache \<Rightarrow> string \<Rightarrow> 'v gval option" where
  "content c k = (if k = [] \<or> closed c then None else shard_view (shards c ! getShard c k) k)"

definition shard_limit :: "CacheConfig \<Rightarrow> nat \<Rightarrow> nat" where
  "shard_limit cfg n = max 1 (nat (go_div (MaxEntries cfg) (int n)))"

definition bounded :: "'v Cache \<Rightarrow> bool" where
  "bounded c \<longleftrightarrow> (0 < MaxEntries (config c) \<longrightarrow>
     list_all (count_inv (shard_limit (config c) (length (shards c)))) (shards c))"

definition expired_in :: "gotime \<Rightarrow> 'v Cache \<Rightarrow> string \<Rightarrow> bool" where
  "expired_in now c k = (case map_of (entries (shards c ! getShard c k)) k of
      None \<Rightarrow> False | Some a \<Rightarrow> isExpired now (heap (shards c ! getShard c k) a))"

text \<open>The operations of a cache as steps, and the caches they produce from a new one.\<close>

inductive cache_step :: "'v Cache \<Rightarrow> 'v Cache \<Rightarrow> bool" where
  set: "cache_step c (SetWithTTL c key v ttl now)"
| get: "cache_step c (snd (Get c key now))"
| delete: "cache_step c (Delete c key)"
| clear: "cache_step c (Clear c)"
| close: "cache_step c (Close c)"
| cleanup: "length kss = length (shards c) \<Longrightarrow> cache_step c (cleanup now kss c)"
| pressure: "cache_step c (evictUnderPressure b c)"

inductive cache_reach :: "CacheConfig \<Rightarrow> 'v Cache \<Rightarrow> bool" for cfg where
  init: "cache_reach cfg (NewCache bfs cfg)"
| step: "cache_reach cfg c \<Longrightarrow> cache_step c c' \<Longrightarrow> cache_reach cfg c'"

definition small_config :: CacheConfig where
  "small_config = \<lparr>Algorithm = AlgorithmLRU, MaxSize = 0, MaxEntries = 3, DefaultTTL = 0,
     CleanupFreq = 0, ShardCount = 1\<rparr>"

definition small_cache :: "unit Cache" where
  "small_cache = NewCache 64 small_config"

definition overwrite_run :: "unit Cache" where
  "overwrite_run =
     fold (\<lambda>(k, now) c. SetWithTTL c k (GInt now) 0 now)
       [(''a'', 1), (''b'', 2), (''b'', 3), (''c'', 4), (''d'', 5)] small_cache"

text \<open>The shard of \<open>overwrite_run\<close>, step by step.\<close>

definition entry :: "string \<Rightarrow> int \<Rightarrow> addr option \<Rightarrow> addr option \<Rightarrow> unit Entry" where
  "entry k t n p = \<lparr>eKey = k, eValue = Some (GInt t), eSize = 8, eCreatedAt = t, eAccessedAt = t,
     eExpiresAt = 0, eAccessCount = 1, eArcType = 0, eLruNext = n, eLruPrev = p\<rparr>"

definition shard_of :: "(string, addr) gomap \<Rightarrow> addr \<Rightarrow> addr \<Rightarrow> 64 word \<Rightarrow> int \<Rightarrow> unit Entry list \<Rightarrow> unit CacheShard" where
  "shard_of es h t ev sz hp = \<lparr>entries = es, lruHead = Some h, lruTail = Some t, lfuFilter = None,
     hits = 0, misses = 0, evictions = ev, currentSize = sz,
     heap = (\<lambda>a. if a < length hp then hp ! a else empty_entry), brk = length hp\<rparr>"

section \<open>The values of a shard\<close>

lemma shard_view_hit:
  assumes "shard_inv s" and "map_of (entries s) k = Some a"
  obtains v where "shard_view s k = Some v" "eValue (heap s a) = Some v" "eSize (heap s a) = calculateSize v"
proof -
  have "sized (heap s a)" using assms by (simp add: shard_inv_def)
  with assms(2) that show thesis by (auto simp: shard_view_def sized_def split: option.splits)
qed

lemma shard_view_set:
  assumes "shard_inv s"
  shows "shard_view (shard_set cfg n key v ttl now s) \<subseteq>\<^sub>m (shard_view s)(key \<mapsto> v)"
proof (unfold map_le_def, rule ballI)
  let ?s = "shard_set cfg n key v ttl now s"
  note e = shard_set_entries [OF assms, of cfg n key v ttl now]
  fix k assume "k \<in> dom (shard_view ?s)"
  then obtain x where x: "map_of (entries ?s) k = Some x"
    by (auto simp: shard_view_def split: option.splits)
  show "shard_view ?s k = ((shard_view s)(key \<mapsto> v)) k"
  proof (cases "k = key")
    case True
    with e(2,3) show ?thesis by (simp add: shard_view_def payload_eq_iff new_entry_def)
  next
    case False
    have "((map_of (entries s))(key \<mapsto> brk s)) k = Some x"
      using e(1) x unfolding map_le_def by (metis domI)
    with False have m: "map_of (entries s) k = Some x" by simp
    then have "x \<noteq> brk s" using assms by (auto simp: shard_inv_def)
    with e(3) have "eValue (heap ?s x) = eValue (heap s x)" by (simp add: payload_eq_iff)
    with m x False show ?thesis by (simp add: shard_view_def)
  qed
qed

lemma shard_view_drop:
  assumes "shard_inv s" and "map_of (entries s) key = Some a"
  shows "shard_view (drop_entry key a s) = (shard_view s)(key := None)"
proof
  fix k
  show "shard_view (drop_entry key a s) k = ((shard_view s)(key := None)) k"
  proof (cases "k = key \<or> map_of (entries s) k = None")
    case True
    then show ?thesis by (auto simp: shard_view_def drop_entry_frame)
  next
    case False
    then obtain x where x: "map_of (entries s) k = Some x" "k \<noteq> key" by auto
    then have "x \<noteq> a" using assms by (auto simp: shard_inv_def)
    then have "payload (heap (drop_entry key a s) x) = payload (heap s x)"
      by (rule drop_entry_frame)
    with x show ?thesis by (simp add: shard_view_def drop_entry_frame(1) payload_eq_iff)
  qed
qed

lemma shard_view_delete:
  "shard_inv s \<Longrightarrow> shard_view (shard_delete key s) = (shard_view s)(key := None)"
  by (auto simp: shard_delete_def shard_view_drop split: option.split) (auto simp: shard_view_def)

lemma shard_view_stats [simp]:
  "shard_view (s\<lparr>misses := m\<rparr>) = shard_view s" "shard_view (s\<lparr>hits := m\<rparr>) = shard_view s"
  "shard_view (s\<lparr>heap := (heap s)(a := (heap s a)\<lparr>eAccessedAt := t, eAccessCount := n\<rparr>)\<rparr>) = shard_view s"
  by (auto simp: shard_view_def split: option.split)

lemma shard_view_get:
  assumes "shard_inv s"
  shows "shard_view (snd (shard_get key now s)) \<subseteq>\<^sub>m shard_view s"
proof -
  have "(shard_view s)(key := None) \<subseteq>\<^sub>m shard_view s" by (simp add: map_le_def)
  then show ?thesis
    using assms by (auto simp: shard_get_def shard_view_drop split: option.split)
qed

section \<open>The contract of the cache\<close>

lemma getShard_less: "cache_inv c \<Longrightarrow> getShard c k < length (shards c)"
  by (simp add: cache_inv_def getShard_def)

lemma cache_inv_shard: "cache_inv c \<Longrightarrow> shard_inv (shards c ! getShard c k)"
  using getShard_less [of c k] by (auto simp: cache_inv_def list_all_length)

lemma cache_inv_update:
  "cache_inv c \<Longrightarrow> shard_inv s \<Longrightarrow> cache_inv (c\<lparr>shards := (shards c)[i := s]\<rparr>)"
  by (auto simp: cache_inv_def list_all_iff dest!: subsetD [OF set_update_subset_insert])

lemma cache_inv_totals [simp]:
  "cache_inv (c\<lparr>totalHits := n\<rparr>) = cache_inv c" "cache_inv (c\<lparr>totalMisses := n\<rparr>) = cache_inv c"
  "content (c\<lparr>totalHits := n\<rparr>) = content c" "content (c\<lparr>totalMisses := n\<rparr>) = content c"
  by (auto simp: cache_inv_def content_def getShard_def)

lemma content_update:
  assumes "cache_inv c"
  shows "content (c\<lparr>shards := (shards c)[getShard c key := s]\<rparr>) k =
    (if k = [] \<or> closed c then None
     else if getShard c k = getShard c key then shard_view s k else content c k)"
  using getShard_less [OF assms, of key]
  by (simp add: content_def getShard_def nth_list_update)

lemma content_update_le:
  assumes "cache_inv c" and "shard_view s \<subseteq>\<^sub>m (shard_view (shards c ! getShard c key))(key := x)"
  shows "content (c\<lparr>shards := (shards c)[getShard c key := s]\<rparr>) \<subseteq>\<^sub>m (content c)(key := x)"
proof (unfold map_le_def, rule ballI)
  let ?c = "c\<lparr>shards := (shards c)[getShard c key := s]\<rparr>"
  fix k assume "k \<in> dom (content ?c)"
  then obtain v where v: "content ?c k = Some v" by auto
  then have o: "k \<noteq> []" "\<not> closed c" using content_update [OF assms(1)] by (auto split: if_splits)
  show "content ?c k = ((content c)(key := x)) k"
  proof (cases "getShard c k = getShard c key")
    case True
    then have "shard_view s k = Some v" using v o content_update [OF assms(1), of key s k] by simp
    then have "((shard_view (shards c ! getShard c key))(key := x)) k = Some v"
      using assms(2) unfolding map_le_def by (metis domI)
    with v o True show ?thesis by (auto simp: content_def split: if_splits)
  next
    case False
    with o content_update [OF assms(1), of key s k] show ?thesis by auto
  qed
qed

lemma cache_Get:
  assumes "cache_inv c" and "k \<noteq> []" and "\<not> closed c"
  obtains c' where "Get c k now = (fst (shard_get k now (shards c ! getShard c k)), c')"
    "content c' = content (c\<lparr>shards := (shards c)[getShard c k := snd (shard_get k now (shards c ! getShard c k))]\<rparr>)"
    "cache_inv c'"
proof -
  let ?g = "shard_get k now (shards c ! getShard c k)"
  have "cache_inv (c\<lparr>shards := (shards c)[getShard c k := snd ?g]\<rparr>)"
    by (intro cache_inv_update shard_get_inv cache_inv_shard assms)
  then have "content (snd (Get c k now)) = content (c\<lparr>shards := (shards c)[getShard c k := snd ?g]\<rparr>)"
    "cache_inv (snd (Get c k now))"
    using assms(2,3) by (auto simp: Get_def Let_def split: prod.split)
  moreover have "Get c k now = (fst ?g, snd (Get c k now))"
    using assms(2,3) by (simp add: Get_def Let_def split: prod.split)
  ultimately show thesis by (intro that)
qed

lemma shard_get_result:
  "fst (shard_get k now s) = (case map_of (entries s) k of None \<Rightarrow> (None, False)
     | Some a \<Rightarrow> if isExpired now (heap s a) then (None, False) else (eValue (heap s a), True))"
  by (simp add: shard_get_def split: option.split)

lemma Get_hit:
  assumes "cache_inv c" and "Get c k now = ((x, True), c')"
  shows "content c k = x \<and> x \<noteq> None"
proof -
  have k: "k \<noteq> []" "\<not> closed c" using assms(2) by (auto simp: Get_def split: if_splits)
  obtain c2 where "Get c k now = (fst (shard_get k now (shards c ! getShard c k)), c2)"
    by (rule cache_Get [OF assms(1) k])
  then have "fst (shard_get k now (shards c ! getShard c k)) = (x, True)" using assms(2) by simp
  then obtain a where a: "map_of (entries (shards c ! getShard c k)) k = Some a"
    "x = eValue (heap (shards c ! getShard c k) a)"
    unfolding shard_get_result by (auto split: option.splits if_splits)
  obtain v where "shard_view (shards c ! getShard c k) k = Some v"
    "eValue (heap (shards c ! getShard c k) a) = Some v"
    using shard_view_hit [OF cache_inv_shard [OF assms(1)] a(1)] .
  with k a show ?thesis by (simp add: content_def)
qed

lemma Get_content:
  assumes "cache_inv c"
  shows "content (snd (Get c k now)) \<subseteq>\<^sub>m content c \<and> cache_inv (snd (Get c k now))"
proof (cases "k = [] \<or> closed c")
  case True
  then show ?thesis using assms by (simp add: Get_def)
next
  case False
  let ?s = "snd (shard_get k now (shards c ! getShard c k))"
  have "shard_view ?s \<subseteq>\<^sub>m (shard_view (shards c ! getShard c k))
      (k := shard_view (shards c ! getShard c k) k)"
    using shard_view_get [OF cache_inv_shard [OF assms]] by simp
  from content_update_le [OF assms this] False
  have "content (c\<lparr>shards := (shards c)[getShard c k := ?s]\<rparr>) \<subseteq>\<^sub>m (content c)(k := content c k)"
    by (simp add: content_def)
  moreover obtain c' where "Get c k now = (fst (shard_get k now (shards c ! getShard c k)), c')"
    "content c' = content (c\<lparr>shards := (shards c)[getShard c k := ?s]\<rparr>)" "cache_inv c'"
    by (rule cache_Get [OF assms, of k now]) (use False in auto)
  ultimately show ?thesis by simp
qed

lemma cache_inv_Set: "cache_inv c \<Longrightarrow> cache_inv (SetWithTTL c k v ttl now)"
  by (simp add: SetWithTTL_def Let_def cache_inv_update shard_set_inv cache_inv_shard)

lemma cache_inv_Delete: "cache_inv c \<Longrightarrow> cache_inv (Delete c k)"
  by (simp add: Delete_def Let_def cache_inv_update shard_delete_inv cache_inv_shard)

lemma cache_inv_Clear: "cache_inv c \<Longrightarrow> cache_inv (Clear c)"
  by (simp add: Clear_def cache_inv_def list.pred_map list_all_length shard_clear_inv)

interpretation lru: cache_spec Get SetWithTTL Delete Clear content cache_inv
proof
  fix c :: "'v Cache" and k now x c'
  assume inv: "cache_inv c"
  show "content c k = x \<and> x \<noteq> None" if "Get c k now = ((x, True), c')"
    using Get_hit [OF inv that] .
  show "x = None" if "Get c k now = ((x, False), c')"
    using that by (auto simp: Get_def shard_get_def Let_def split: if_splits option.splits prod.splits)
  show "content (snd (Get c k now)) \<subseteq>\<^sub>m content c" "cache_inv (snd (Get c k now))"
    using Get_content [OF inv] by blast+
  show "content (SetWithTTL c k v ttl now) \<subseteq>\<^sub>m (content c)(k \<mapsto> v)" for v ttl
  proof (cases "k = []")
    case True
    then show ?thesis by (auto simp: SetWithTTL_def map_le_def content_def)
  next
    case False
    then show ?thesis unfolding SetWithTTL_def Let_def
      using content_update_le [OF inv shard_view_set [OF cache_inv_shard [OF inv]]] by simp
  qed
  show "content (Delete c k) \<subseteq>\<^sub>m (content c)(k := None)"
  proof (cases "k = [] \<or> closed c")
    case True
    then show ?thesis by (auto simp: Delete_def map_le_def content_def)
  next
    case False
    have "shard_view (shard_delete k (shards c ! getShard c k)) \<subseteq>\<^sub>m
        (shard_view (shards c ! getShard c k))(k := None)"
      by (simp add: shard_view_delete [OF cache_inv_shard [OF inv]])
    then show ?thesis unfolding Delete_def Let_def
      using content_update_le [OF inv] False by simp
  qed
  show "content (Clear c) = Map.empty"
    using getShard_less [OF inv]
    by (auto simp: content_def Clear_def shard_view_def shard_clear_def getShard_def)
qed (simp_all add: cache_inv_Set cache_inv_Delete cache_inv_Clear)

section \<open>Properties\<close>

lemma Get_SetWithTTL:
  assumes "cache_inv c" and "key \<noteq> []" and "\<not> closed c"
  shows "fst (Get (SetWithTTL c key v ttl now) key now') =
    (if 0 < ttl \<and> now + ttl \<noteq> 0 \<and> now + ttl < now' then (None, False) else (Some v, True))"
proof -
  let ?c = "SetWithTTL c key v ttl now" and ?old = "shards c ! getShard c key"
  let ?s = "shard_set (config c) (length (shards c)) key v ttl now ?old"
  have i: "getShard ?c key = getShard c key" "shards ?c ! getShard c key = ?s" "\<not> closed ?c"
    using assms getShard_less [OF assms(1)]
    by (simp_all add: SetWithTTL_def Let_def getShard_def)
  note e = shard_set_entries [OF cache_inv_shard [OF assms(1), of key], where cfg = "config c" and n = "length (shards c)" and key = key and v = v and ttl = ttl and now = now]
  have "fst (Get ?c key now') = fst (shard_get key now' ?s)"
    by (rule cache_Get [OF cache_inv_Set [OF assms(1)] assms(2) i(3), of now']) (simp add: i)
  moreover have "isExpired now' (heap ?s (brk ?old)) \<longleftrightarrow> 0 < ttl \<and> now + ttl \<noteq> 0 \<and> now + ttl < now'"
    using e(3) [where x = "brk ?old"]
    by (auto simp: isExpired_def payload_eq_iff new_entry_def time_defs)
  moreover have "eValue (heap ?s (brk ?old)) = Some v"
    using e(3) [where x = "brk ?old"] by (simp add: payload_eq_iff new_entry_def)
  ultimately show ?thesis unfolding shard_get_result e(2) by simp
qed

text \<open>
  C23. A value that was just stored is returned by a read of its key that is not later than the
  expiry, whatever was evicted to make room for it; a read after the expiry misses. (An expiry that
  falls on Go's zero time means that the entry never expires.)
\<close>

theorem Get_after_Set:
  assumes "cache_inv c" and "key \<noteq> []" and "\<not> closed c"
  shows "fst (Get (SetWithTTL c key v ttl now) key now') =
    (if 0 < ttl \<and> now + ttl \<noteq> 0 \<and> now + ttl < now' then (None, False) else (Some v, True))"
  by (rule Get_SetWithTTL [OF assms])
section \<open>Reachable caches\<close>

lemma pressure_loop_count:
  assumes "shard_inv s" and "count_inv C s"
  shows "shard_inv (snd (pressure_loop fuel b f s)) \<and> count_inv C (snd (pressure_loop fuel b f s))"
  using assms
proof (induction fuel arbitrary: f s)
  case (Suc fuel)
  show ?case
  proof (cases "\<exists>t. lruTail s = Some t \<and> f < b")
    case False
    with Suc.prems show ?thesis by (auto split: option.split)
  next
    case True
    then obtain t where t: "lruTail s = Some t" "f < b" by blast
    have m: "map_of (entries s) (eKey (heap s t)) = Some t" by (rule tail_entry [OF Suc.prems(1) t(1)])
    show ?thesis unfolding pressure_loop_step [OF t]
      using Suc.prems m by (intro Suc.IH drop_entry_inv drop_entry_count)
  qed
qed simp

lemma pressure_shards_inv:
  "list_all shard_inv ss \<Longrightarrow> list_all (count_inv C) ss \<Longrightarrow>
   list_all shard_inv (pressure_shards b f ss) \<and> list_all (count_inv C) (pressure_shards b f ss)"
proof (induction b f ss rule: pressure_shards.induct)
  case (2 b f s ss)
  obtain f' s' where p: "pressure_loop (length (entries s)) b f s = (f', s')" by force
  have "shard_inv s'" "count_inv C s'"
    using pressure_loop_count [of s C "length (entries s)" b f] 2 by (simp_all add: p)
  moreover have "list_all shard_inv (pressure_shards b f' ss) \<and>
      list_all (count_inv C) (pressure_shards b f' ss)" if "\<not> b \<le> f"
    using 2 that by (simp add: p)
  ultimately show ?case using 2 by (simp add: p)
qed simp

lemma count_inv_trivial: "\<exists>C. list_all (count_inv C) ss"
proof (induction ss)
  case (Cons s ss)
  then obtain C where "list_all (count_inv C) ss" by blast
  then have "list_all (count_inv (Suc (max C (length (entries s))))) (s # ss)"
    by (auto simp: count_inv_def list_all_iff)
  then show ?case by blast
qed simp

lemma length_pressure_shards [simp]: "length (pressure_shards b f ss) = length ss"
  by (induction b f ss rule: pressure_shards.induct) (auto split: prod.split)

lemma cache_step_config:
  "cache_step c c' \<Longrightarrow> config c' = config c \<and> length (shards c') = length (shards c)"
  by (induction rule: cache_step.induct)
    (auto simp: SetWithTTL_def Get_def Delete_def Clear_def Close_def cleanup_def
      evictUnderPressure_def Let_def split: prod.split)

lemma list_all_update: "list_all P xs \<Longrightarrow> P x \<Longrightarrow> list_all P (xs[i := x])"
  by (auto simp: list_all_iff dest!: subsetD [OF set_update_subset_insert])

lemma list_all_cleanup:
  assumes "length kss = length ss" and "list_all P ss" and "\<And>ks s. P s \<Longrightarrow> P (f ks s)"
  shows "list_all P (map (\<lambda>(ks, s). f ks s) (zip kss ss))"
  using assms by (auto simp: list_all_length)

lemma cache_step_inv: "cache_step c c' \<Longrightarrow> cache_inv c \<Longrightarrow> cache_inv c'"
proof (induction rule: cache_step.induct)
  case (cleanup kss c now)
  then have "list_all shard_inv (map (\<lambda>(ks, s). shard_cleanup now ks s) (zip kss (shards c)))"
    by (intro list_all_cleanup) (auto simp: cache_inv_def shard_cleanup_inv)
  with cleanup show ?case by (auto simp: cleanup_def cache_inv_def)
next
  case (pressure c b)
  obtain C where "list_all (count_inv C) (shards c)" using count_inv_trivial by blast
  with pressure have "list_all shard_inv (pressure_shards b 0 (shards c))"
    using pressure_shards_inv unfolding cache_inv_def by blast
  with pressure length_pressure_shards [of b 0 "shards c"] show ?case
    by (auto simp: evictUnderPressure_def cache_inv_def simp del: length_pressure_shards)
next
  case (close c)
  then have "cache_inv (c\<lparr>closed := True\<rparr>)" by (simp add: cache_inv_def)
  then show ?case using close by (simp add: Close_def cache_inv_Clear)
qed (simp_all add: cache_inv_Set Get_content cache_inv_Delete cache_inv_Clear)

lemma count_step:
  assumes "cache_step c c'" and "cache_inv c" and "0 < MaxEntries (config c)"
    and "C = shard_limit (config c) (length (shards c))" and "list_all (count_inv C) (shards c)"
  shows "list_all (count_inv C) (shards c')"
  using assms
proof (induction rule: cache_step.induct)
  case (set c key v ttl now)
  have "count_inv C (shards c ! getShard c key)"
    using set getShard_less [OF set(1)] by (auto simp: list_all_length)
  then have "count_inv C (shard_set (config c) (length (shards c)) key v ttl now (shards c ! getShard c key))"
    using set by (intro shard_set_count cache_inv_shard) (simp_all add: shard_limit_def)
  with set show ?case by (simp add: SetWithTTL_def Let_def list_all_update)
next
  case (get c key now)
  have "count_inv C (shards c ! getShard c key)"
    using get getShard_less [OF get(1)] by (auto simp: list_all_length)
  then have "count_inv C (snd (shard_get key now (shards c ! getShard c key)))"
    by (intro shard_get_count cache_inv_shard get)
  with get show ?case by (auto simp: Get_def Let_def list_all_update split: prod.split)
next
  case (delete c key)
  have "count_inv C (shards c ! getShard c key)"
    using delete getShard_less [OF delete(1)] by (auto simp: list_all_length)
  then have "count_inv C (shard_delete key (shards c ! getShard c key))"
    by (intro shard_delete_count cache_inv_shard delete)
  with delete show ?case by (auto simp: Delete_def Let_def list_all_update)
next
  case (cleanup kss c now)
  then have "list_all (\<lambda>s. shard_inv s \<and> count_inv C s)
      (map (\<lambda>(ks, s). shard_cleanup now ks s) (zip kss (shards c)))"
    by (intro list_all_cleanup) (auto simp: cache_inv_def list_all_iff shard_cleanup_inv shard_cleanup_count)
  with cleanup show ?case by (auto simp: cleanup_def list_all_iff)
next
  case (pressure c b)
  then show ?case
    using pressure_shards_inv [of "shards c" C b 0] by (simp add: evictUnderPressure_def cache_inv_def)
qed (auto simp: Clear_def Close_def list_all_length count_inv_empty shard_limit_def)

lemma NewCache_inv: "cache_inv (NewCache bfs cfg) \<and> bounded (NewCache bfs cfg)"
  by (auto simp: NewCache_def Let_def cache_inv_def bounded_def list_all_length new_shard_inv
      count_inv_empty shard_limit_def)

lemma NewCache_content: "content (NewCache k cfg :: 'a Cache) = Map.empty"
proof -
  let ?c = "NewCache k cfg :: 'a Cache"
  have inv: "cache_inv ?c" by (simp add: NewCache_inv)
  have "entries s = []" if "s \<in> set (shards ?c)" for s
    using that by (auto simp: NewCache_def new_shard_def Let_def split: if_splits)
  moreover have "shards ?c ! getShard ?c key \<in> set (shards ?c)" for key
    by (rule nth_mem) (rule getShard_less [OF inv])
  ultimately have "content ?c key = None" for key by (simp add: content_def shard_view_def)
  then show ?thesis by (rule ext)
qed

lemma NewCache_coherent: "lru.coherent m (NewCache k cfg :: 'a Cache)"
  by (simp add: lru.coherent_def NewCache_inv NewCache_content)

lemma cache_reach_inv:
  "cache_reach cfg (c :: 'v Cache) \<Longrightarrow> cache_inv c \<and> bounded c \<and>
     config c = (if ShardCount cfg \<le> 0 then cfg\<lparr>ShardCount := 16\<rparr> else cfg) \<and>
     length (shards c) = nat (ShardCount (config c))"
proof (induction rule: cache_reach.induct)
  case (init bfs')
  have "config (NewCache bfs' cfg) = (if ShardCount cfg \<le> 0 then cfg\<lparr>ShardCount := 16\<rparr> else cfg) \<and>
      length (shards (NewCache bfs' cfg)) = nat (ShardCount (config (NewCache bfs' cfg :: 'v Cache)))"
    by (simp add: NewCache_def Let_def)
  with NewCache_inv [of bfs' cfg] show ?case by metis
next
  case (step c c')
  then have "bounded c'"
    using count_step [OF step(2)] cache_step_config [OF step(2)] by (auto simp: bounded_def)
  then show ?case using step cache_step_inv cache_step_config by metis
qed

lemma fold_add_sum: "fold (\<lambda>s n. n + f s) ss (a :: 'b :: comm_monoid_add) = a + sum_list (map f ss)"
  by (induction ss arbitrary: a) (simp_all add: add.assoc)

lemma entries_size_values:
  assumes "shard_inv s"
  shows "currentSize s = (\<Sum>k\<leftarrow>map fst (entries s). calculateSize (the (shard_view s k)))"
proof -
  have "(case p of (k, a) \<Rightarrow> eSize (heap s a)) = calculateSize (the (shard_view s (fst p)))"
    if "p \<in> set (entries s)" for p
  proof -
    obtain k a where p: "p = (k, a)" by force
    have "map_of (entries s) k = Some a"
      using that assms p by (simp add: shard_inv_def wf_map_def)
    then show ?thesis using p by (auto elim!: shard_view_hit [OF assms])
  qed
  then have "map (\<lambda>(k, a). eSize (heap s a)) (entries s) =
      map (\<lambda>p. calculateSize (the (shard_view s (fst p)))) (entries s)" by (rule map_cong [OF refl])
  moreover have "currentSize s = entries_size (heap s) (entries s)"
    using assms by (simp add: shard_inv_def)
  ultimately show ?thesis unfolding entries_size_def by (simp only: map_map comp_def)
qed

section \<open>Expiry\<close>

lemma shard_cleanup_entries:
  assumes "shard_inv s"
  shows "map_of (entries (shard_cleanup now ks s)) k = (case map_of (entries s) k of
      None \<Rightarrow> None
    | Some a \<Rightarrow> if k \<in> set ks \<and> isExpired now (heap s a) then None else Some a)"
    and "map_of (entries (shard_cleanup now ks s)) k = Some a \<Longrightarrow>
      payload (heap (shard_cleanup now ks s) a) = payload (heap s a)"
proof -
  have "map_of (entries (shard_cleanup now ks s)) k = (case map_of (entries s) k of
      None \<Rightarrow> None
    | Some a \<Rightarrow> if k \<in> set ks \<and> isExpired now (heap s a) then None else Some a) \<and>
    (\<forall>a. map_of (entries (shard_cleanup now ks s)) k = Some a \<longrightarrow>
      payload (heap (shard_cleanup now ks s) a) = payload (heap s a))"
    using assms
  proof (induction ks arbitrary: s)
    case Nil
    then show ?case by (simp add: shard_cleanup_def split: option.split)
  next
    case (Cons key ks)
    show ?case
    proof (cases "\<exists>a. map_of (entries s) key = Some a \<and> isExpired now (heap s a)")
      case False
      then have "shard_cleanup now (key # ks) s = shard_cleanup now ks s"
        by (auto simp: shard_cleanup_def split: option.split)
      with Cons.IH [OF Cons.prems] False show ?thesis by (auto split: option.split)
    next
      case True
      then obtain a where a: "map_of (entries s) key = Some a" "isExpired now (heap s a)" by blast
      let ?d = "drop_entry key a s"
      have c: "shard_cleanup now (key # ks) s = shard_cleanup now ks ?d"
        using a by (simp add: shard_cleanup_def)
      have keep: "payload (heap ?d x) = payload (heap s x)"
        if "map_of (entries s) k = Some x" "k \<noteq> key" for x
      proof (rule drop_entry_frame)
        show "x \<noteq> a" using that a Cons.prems by (auto simp: shard_inv_def)
      qed
      note IH = Cons.IH [OF drop_entry_inv [OF Cons.prems a(1)]]
      show ?thesis
      proof (cases "map_of (entries s) k")
        case None
        then show ?thesis using IH unfolding c by (simp add: drop_entry_frame)
      next
        case (Some x)
        have "isExpired now (heap ?d x) = isExpired now (heap s x)" if "k \<noteq> key"
          using keep [OF Some that] by (simp add: isExpired_def payload_eq_iff)
        then show ?thesis
          using IH Some keep [OF Some] a unfolding c by (auto simp: drop_entry_frame split: if_splits)
      qed
    qed
  qed
  then show "map_of (entries (shard_cleanup now ks s)) k = (case map_of (entries s) k of
      None \<Rightarrow> None
    | Some a \<Rightarrow> if k \<in> set ks \<and> isExpired now (heap s a) then None else Some a)"
    and "map_of (entries (shard_cleanup now ks s)) k = Some a \<Longrightarrow>
      payload (heap (shard_cleanup now ks s) a) = payload (heap s a)" by blast+
qed

section \<open>Properties over sequences of operations\<close>

lemma sum_list_bound: "list_all (\<lambda>s. f s \<le> (C::nat)) ss \<Longrightarrow> sum_list (map f ss) \<le> length ss * C"
  by (induction ss) (auto intro: add_mono)

lemma total_entries_bound:
  assumes "cache_inv c" and "bounded c" and "0 < MaxEntries (config c)"
  shows "total_entries c \<le> length (shards c) * shard_limit (config c) (length (shards c))"
proof -
  have "total_entries c = sum_list (map (\<lambda>s. length (entries s)) (shards c))"
    by (simp add: total_entries_def fold_add_sum)
  also have "\<dots> \<le> length (shards c) * shard_limit (config c) (length (shards c))"
    using assms(2,3) by (intro sum_list_bound) (auto simp: bounded_def count_inv_def list_all_iff)
  finally show ?thesis .
qed

text \<open>
  C32. In every cache that operations produce from a new one, every shard satisfies its invariant
  and, when \<open>MaxEntries\<close> is set, the cache holds at most \<open>MaxEntries\<close> entries, or one per shard
  when there are more shards than that.
\<close>

theorem cache_capacity:
  assumes "cache_reach cfg c" and "0 < MaxEntries cfg" and "0 < ShardCount cfg"
  shows "cache_inv c \<and> int (total_entries c) \<le> max (MaxEntries cfg) (ShardCount cfg)"
proof -
  let ?n = "length (shards c)"
  have r: "cache_inv c" "bounded c" "config c = cfg" "?n = nat (ShardCount cfg)"
    using cache_reach_inv [OF assms(1)] assms(3) by (simp_all split: if_splits)
  have "int ?n * int (shard_limit cfg ?n) \<le> max (MaxEntries cfg) (ShardCount cfg)"
  proof (cases "MaxEntries cfg < ShardCount cfg")
    case True
    then have "shard_limit cfg ?n = 1" using assms r(4) by (simp add: shard_limit_def go_div_def)
    then show ?thesis using r(4) assms(3) by simp
  next
    case False
    then have "1 \<le> MaxEntries cfg div ShardCount cfg" using assms(3) by (simp add: pos_imp_zdiv_pos_iff int_one_le_iff_zero_less)
    then have "int (shard_limit cfg ?n) = MaxEntries cfg div ShardCount cfg"
      using assms r(4) by (simp add: shard_limit_def go_div_def)
    then show ?thesis using r(4) assms(3) False
      by simp (metis div_mult_mod_eq mult.commute Euclidean_Rings.pos_mod_sign le_add_same_cancel1 max.cobounded1 order_trans)
  qed
  moreover have "int (total_entries c) \<le> int ?n * int (shard_limit cfg ?n)"
    using total_entries_bound [OF r(1,2)] r(3) assms(2) by (metis of_nat_mono of_nat_mult)
  ultimately show ?thesis using r(1) by linarith
qed

text \<open>
  The size the statistics report is the size of the values the cache holds: the sum of
  \<open>calculateSize\<close> over the keys of every shard, in every cache that operations produce.
\<close>

theorem total_size_accounts:
  assumes "cache_reach cfg c"
  shows "GetTotalSize c =
    (\<Sum>s\<leftarrow>shards c. \<Sum>k\<leftarrow>keys (entries s). calculateSize (the (shard_view s k)))"
proof -
  have "list_all shard_inv (shards c)" using cache_reach_inv [OF assms] by (simp add: cache_inv_def)
  then have "map currentSize (shards c) =
      map (\<lambda>s. \<Sum>k\<leftarrow>keys (entries s). calculateSize (the (shard_view s k))) (shards c)"
    by (intro map_cong [OF refl]) (auto simp: list_all_iff keys_def entries_size_values)
  then show ?thesis unfolding GetTotalSize_def fold_add_sum by (simp only: add_0)
qed

text \<open>
  \<open>cleanup\<close>, with each shard's keys visited in any order, deletes exactly the expired
  entries: what it leaves is the content less the keys whose entry has expired.
\<close>

theorem cleanup_exact:
  assumes "cache_inv c" and "list_all2 (\<lambda>ks s. is_range ks (entries s)) kss (shards c)"
  shows "content (cleanup now kss c) k = (if expired_in now c k then None else content c k)"
proof (cases "k = [] \<or> closed c")
  case True
  then show ?thesis by (auto simp: content_def cleanup_def)
next
  case False
  let ?i = "getShard c k"
  let ?s = "shards c ! ?i" and ?ks = "kss ! ?i"
  have i: "?i < length (shards c)" "length kss = length (shards c)" "is_range ?ks (entries ?s)"
    using getShard_less [OF assms(1), of k] assms(2) by (auto simp: list_all2_conv_all_nth)
  have inv: "shard_inv ?s" by (rule cache_inv_shard [OF assms(1)])
  have all: "k \<in> set ?ks" if "map_of (entries ?s) k = Some a" for a
    using i(3) map_of_SomeD [OF that] by (force simp: is_range_def)
  have "content (cleanup now kss c) k = shard_view (shard_cleanup now ?ks ?s) k"
    using False i by (simp add: content_def cleanup_def getShard_def)
  also have "\<dots> = (if expired_in now c k then None else shard_view ?s k)"
  proof (cases "map_of (entries ?s) k")
    case None
    then show ?thesis using shard_cleanup_entries(1) [OF inv, of now ?ks k]
      by (simp add: shard_view_def expired_in_def)
  next
    case (Some a)
    note e = shard_cleanup_entries [OF inv, of now ?ks k]
    show ?thesis using e(1) e(2) [of a] Some all [OF Some]
      by (auto simp: shard_view_def expired_in_def payload_eq_iff)
  qed
  finally show ?thesis using False by (simp add: content_def)
qed

text \<open>
  C40. Under memory pressure a shard's loop ends by its own condition: it has freed what it was
  asked for or its list is empty, and the bytes it counts are exactly what the shard lost.
\<close>

theorem pressure_loop_frees:
  assumes "cache_reach cfg c" and "s \<in> set (shards c)"
    and "pressure_loop (length (entries s)) b freed s = (f, s')"
  shows "(lruTail s' = None \<or> b \<le> f) \<and> f - freed = currentSize s - currentSize s' \<and> shard_inv s'"
proof -
  have "shard_inv s"
    using cache_reach_inv [OF assms(1)] assms(2) by (auto simp: cache_inv_def list_all_iff)
  from pressure_loop_ends [OF this order_refl assms(3)] show ?thesis by blast
qed

section \<open>The order of evictions\<close>

lemma small_cache_inv: "cache_inv small_cache"
  by (simp add: small_cache_def NewCache_inv)

lemma getShard_one: "length (shards c) = 1 \<Longrightarrow> getShard c k = 0"
  by (simp add: getShard_def)

lemmas list_ops = set_next_def set_prev_def remove_def insertLRU_def evictOldest_def
  evictIfNecessary_def shard_set_def shard_insert_def

theorem Get_after_Set_witness:
  "cache_inv small_cache \<and> \<not> closed small_cache \<and>
   fst (Get (SetWithTTL small_cache ''a'' (GInt 7) 10 100) ''a'' 105) = (Some (GInt 7), True) \<and>
   fst (Get (SetWithTTL small_cache ''a'' (GInt 7) 10 100) ''a'' 111) = (None, False)"
  using Get_after_Set [of small_cache "''a''" "GInt 7" 10 100 105]
    Get_after_Set [of small_cache "''a''" "GInt 7" 10 100 111] small_cache_inv
  by (simp add: small_cache_def NewCache_def Let_def)

lemma small_cache_reach: "cache_reach small_config small_cache"
  unfolding small_cache_def by (rule cache_reach.init)

lemma overwrite_run_reach: "cache_reach small_config overwrite_run"
  unfolding overwrite_run_def
  by (simp del: One_nat_def) (intro cache_reach.step [OF _ cache_step.set] small_cache_reach)

theorem cache_capacity_witness:
  "cache_reach small_config overwrite_run \<and> int (total_entries overwrite_run) \<le> 3"
  using cache_capacity [OF overwrite_run_reach] overwrite_run_reach by (simp add: small_config_def)
lemmas run_defs = small_config_def list_ops entry_def shard_of_def go_div_def fun_eq_iff nth_Cons'

lemma run_a: "shard_set small_config 1 ''a'' (GInt 1) 0 1 (new_shard None) =
    shard_of [(''a'', 0)] 0 0 0 8 [entry ''a'' 1 None None]"
  by (simp add: run_defs new_shard_def)

lemma run_b: "shard_set small_config 1 ''b'' (GInt 2) 0 2
      (shard_of [(''a'', 0)] 0 0 0 8 [entry ''a'' 1 None None]) =
    shard_of [(''a'', 0), (''b'', 1)] 1 0 0 16 [entry ''a'' 1 None (Some 1), entry ''b'' 2 (Some 0) None]"
  by (simp add: run_defs)

lemma run_b': "shard_set small_config 1 ''b'' (GInt 3) 0 3
      (shard_of [(''a'', 0), (''b'', 1)] 1 0 0 16
        [entry ''a'' 1 None (Some 1), entry ''b'' 2 (Some 0) None]) =
    shard_of [(''a'', 0), (''b'', 2)] 2 2 1 16
      [entry ''a'' 1 None None, entry ''b'' 2 None None, entry ''b'' 3 None None]"
  by (simp add: run_defs)

lemma run_c: "shard_set small_config 1 ''c'' (GInt 4) 0 4
      (shard_of [(''a'', 0), (''b'', 2)] 2 2 1 16
        [entry ''a'' 1 None None, entry ''b'' 2 None None, entry ''b'' 3 None None]) =
    shard_of [(''a'', 0), (''b'', 2), (''c'', 3)] 3 2 1 24
      [entry ''a'' 1 None None, entry ''b'' 2 None None, entry ''b'' 3 None (Some 3),
       entry ''c'' 4 (Some 2) None]"
  by (simp add: run_defs)

lemma run_d: "shard_set small_config 1 ''d'' (GInt 5) 0 5
      (shard_of [(''a'', 0), (''b'', 2), (''c'', 3)] 3 2 1 24
        [entry ''a'' 1 None None, entry ''b'' 2 None None, entry ''b'' 3 None (Some 3),
         entry ''c'' 4 (Some 2) None]) =
    shard_of [(''a'', 0), (''c'', 3), (''d'', 4)] 4 3 2 24
      [entry ''a'' 1 None None, entry ''b'' 2 None None, entry ''b'' 3 None None,
       entry ''c'' 4 None (Some 4), entry ''d'' 5 (Some 3) None]"
  by (simp add: run_defs)

lemma overwrite_run_shard:
  "shards overwrite_run = [shard_of [(''a'', 0), (''c'', 3), (''d'', 4)] 4 3 2 24
      [entry ''a'' 1 None None, entry ''b'' 2 None None, entry ''b'' 3 None None,
       entry ''c'' 4 None (Some 4), entry ''d'' 5 (Some 3) None]]" (is "_ = [?s]")
  "closed overwrite_run = False"
proof -
  let ?c = "\<lambda>s. \<lparr>config = small_config, shards = [s], closed = False, totalHits = 0, totalMisses = 0\<rparr>"
  have S: "SetWithTTL (?c s) k (GInt t) 0 t = ?c (shard_set small_config 1 k (GInt t) 0 t s)"
    if "k \<noteq> []" for k t and s :: "unit CacheShard"
    using that by (simp add: SetWithTTL_def getShard_def)
  have init: "small_cache = ?c (new_shard None)"
    by (simp add: small_cache_def NewCache_def small_config_def)
  have run: "overwrite_run = ?c ?s"
    unfolding overwrite_run_def fold_simps prod.case id_apply comp_apply init
    by (simp only: S list.distinct not_False_eq_True run_a run_b run_b' run_c run_d)
  show "shards overwrite_run = [?s]" "closed overwrite_run = False" unfolding run by simp_all
qed

text \<open>
  The eviction order after an overwrite: \<open>a\<close>, \<open>b\<close>, \<open>b\<close> again, \<open>c\<close> and \<open>d\<close> are stored in a
  cache of three entries. The oldest entry is \<open>a\<close>, but storing \<open>b\<close> again drops the head pointer,
  \<open>a\<close> is no longer on the list, and making room for \<open>d\<close> evicts \<open>b\<close>.
\<close>

theorem eviction_not_oldest:
  "content overwrite_run ''a'' = Some (GInt 1) \<and> content overwrite_run ''b'' = None"
  by (simp add: content_def shard_view_def overwrite_run_shard getShard_def shard_of_def entry_def)

theorem total_size_accounts_witness:
  "cache_reach small_config overwrite_run \<and> GetTotalSize overwrite_run = 24 \<and>
   (\<Sum>s\<leftarrow>shards overwrite_run. \<Sum>k\<leftarrow>keys (entries s). calculateSize (the (shard_view s k))) = 24"
  using total_size_accounts [OF overwrite_run_reach] overwrite_run_reach
  by (simp add: GetTotalSize_def overwrite_run_shard shard_of_def)

lemma expiring_entries:
  "cache_inv (SetWithTTL small_cache ''a'' (GInt 7) 10 100)"
  "map entries (shards (SetWithTTL small_cache ''a'' (GInt 7) 10 100)) = [[(''a'', 0)]]"
  by (simp_all add: cache_inv_Set small_cache_inv)
    (simp add: small_cache_def NewCache_def small_config_def SetWithTTL_def getShard_def
      new_shard_def list_ops keys_def go_div_def)

theorem cleanup_exact_witness:
  "content (cleanup 111 [[''a'']] (SetWithTTL small_cache ''a'' (GInt 7) 10 100)) ''a'' =
   (if expired_in 111 (SetWithTTL small_cache ''a'' (GInt 7) 10 100) ''a'' then None
    else content (SetWithTTL small_cache ''a'' (GInt 7) 10 100) ''a'')"
proof (rule cleanup_exact [OF expiring_entries(1)])
  show "list_all2 (\<lambda>ks s. is_range ks (entries s)) [[''a'']]
      (shards (SetWithTTL small_cache ''a'' (GInt 7) 10 100))"
  proof -
    have "list_all2 is_range [[''a'']] [[(''a'', 0 :: addr)]]" by (simp add: is_range_def)
    then show ?thesis unfolding expiring_entries(2) [symmetric] by (simp only: list_all2_map2)
  qed
qed

theorem pressure_loop_frees_witness:
  "case pressure_loop 3 16 0 (shards overwrite_run ! 0) of (f, s') \<Rightarrow>
     (lruTail s' = None \<or> 16 \<le> f) \<and> f - 0 = currentSize (shards overwrite_run ! 0) - currentSize s'"
proof -
  obtain f s' where p: "pressure_loop 3 16 0 (shards overwrite_run ! 0) = (f, s')" by force
  have "length (entries (shards overwrite_run ! 0)) = 3"
    by (simp add: overwrite_run_shard shard_of_def)
  then have "pressure_loop (length (entries (shards overwrite_run ! 0))) 16 0 (shards overwrite_run ! 0) = (f, s')"
    using p by simp
  from pressure_loop_frees [OF overwrite_run_reach _ this] show ?thesis
    unfolding p by (auto simp: overwrite_run_shard(1))
qed

end
