(* ===== verification/Ipam_Repo.thy ===== *)
theory Ipam_Repo
  imports Prelude
begin

text \<open>
  The persistence of the address manager: the interface \<open>store.IPAMRepository\<close> as a record of
  operations on a database state, its implementation on PostgreSQL
  (\<open>src/internal/store/postgres/ipam_repository.go\<close>) with the table \<open>ipam_blocks\<close> as an
  association list in scan order, and the contract that several cores which share one database
  rely on, as a locale.

  The statement of \<open>AllocateBlocks\<close> selects free rows with \<open>FOR UPDATE SKIP LOCKED\<close> and no
  \<open>ORDER BY\<close>: the scan order is the order of the list, and \<open>db_locked\<close> holds the rows that other
  transactions have locked at that moment. A statement fails when the database is not
  reachable (\<open>db_up\<close>).
\<close>

section \<open>The interface\<close>

record IPAMBlockData =
  dCIDR :: string
  dTenantID :: string
  dAllocated :: bool
  dPoolIndex :: int
  dUpdatedAt :: gotime

record 'd IPAMRepository =
  repo_UpsertBlock :: "IPAMBlockData \<Rightarrow> 'd \<Rightarrow> (string + unit) \<times> 'd"
  repo_AllocateBlocks :: "string \<Rightarrow> int \<Rightarrow> int \<Rightarrow> 'd \<Rightarrow> (string + string list) \<times> 'd"
  repo_ReleaseBlocks :: "string \<Rightarrow> 'd \<Rightarrow> (string + unit) \<times> 'd"
  repo_RestoreState :: "'d \<Rightarrow> string + IPAMBlockData list"

section \<open>PostgreSQL\<close>

record ipam_db =
  ipam_blocks :: "(string, IPAMBlockData) gomap"
  db_locked :: "string list"
  db_up :: bool

definition pg_UpsertBlock :: "gotime \<Rightarrow> IPAMBlockData \<Rightarrow> ipam_db \<Rightarrow> (string + unit) \<times> ipam_db" where
  "pg_UpsertBlock now b d =
     (if \<not> db_up d then (Inl ''failed to upsert IPAM block'', d)
      else (Inr (), d\<lparr>ipam_blocks := AList.update (dCIDR b) (b\<lparr>dUpdatedAt := now\<rparr>) (ipam_blocks d)\<rparr>))"

definition pg_ListBlocks :: "(IPAMBlockData list \<Rightarrow> IPAMBlockData list) \<Rightarrow> ipam_db \<Rightarrow> string + IPAMBlockData list" where
  "pg_ListBlocks order_by_cidr d =
     (if \<not> db_up d then Inl ''failed to list IPAM blocks''
      else Inr (order_by_cidr (map snd (ipam_blocks d))))"

definition pg_GetBlock :: "string \<Rightarrow> ipam_db \<Rightarrow> string + IPAMBlockData" where
  "pg_GetBlock cidr d =
     (if \<not> db_up d then Inl ''failed to get IPAM block''
      else case map_of (ipam_blocks d) cidr of
        None \<Rightarrow> Inl (''IPAM block not found: '' @ cidr)
      | Some b \<Rightarrow> Inr b)"

definition free_rows :: "int \<Rightarrow> ipam_db \<Rightarrow> string list" where
  "free_rows poolIndex d =
     map fst (filter (\<lambda>(cidr, b). \<not> dAllocated b \<and> dPoolIndex b = poolIndex \<and> cidr \<notin> set (db_locked d))
       (ipam_blocks d))"

definition take_row :: "string \<Rightarrow> gotime \<Rightarrow> string list \<Rightarrow> string \<times> IPAMBlockData \<Rightarrow> string \<times> IPAMBlockData" where
  "take_row tenantID now cidrs = (\<lambda>(cidr, b).
     (cidr, if cidr \<in> set cidrs then b\<lparr>dAllocated := True, dTenantID := tenantID, dUpdatedAt := now\<rparr> else b))"

text \<open>The transaction is rolled back when fewer rows than requested were free.\<close>

definition pg_AllocateBlocks ::
  "gotime \<Rightarrow> string \<Rightarrow> int \<Rightarrow> int \<Rightarrow> ipam_db \<Rightarrow> (string + string list) \<times> ipam_db" where
  "pg_AllocateBlocks now tenantID poolIndex count d =
     (if \<not> db_up d \<or> count < 0 then (Inl ''failed to allocate blocks query'', d)
      else let found = take (nat count) (free_rows poolIndex d) in
        if int (length found) < count then (Inl ''not enough free blocks'', d)
        else (Inr found, d\<lparr>ipam_blocks := map (take_row tenantID now found) (ipam_blocks d)\<rparr>))"

definition pg_ReleaseBlocks :: "gotime \<Rightarrow> string \<Rightarrow> ipam_db \<Rightarrow> (string + unit) \<times> ipam_db" where
  "pg_ReleaseBlocks now tenantID d =
     (if \<not> db_up d then (Inl ''failed to release blocks'', d)
      else (Inr (), d\<lparr>ipam_blocks := map (\<lambda>(cidr, b). (cidr,
        if dTenantID b = tenantID then b\<lparr>dAllocated := False, dTenantID := [], dUpdatedAt := now\<rparr> else b))
        (ipam_blocks d)\<rparr>))"

definition pg_RestoreState :: "(IPAMBlockData list \<Rightarrow> IPAMBlockData list) \<Rightarrow> ipam_db \<Rightarrow> string + IPAMBlockData list" where
  "pg_RestoreState order_by_cidr d = pg_ListBlocks order_by_cidr d"

definition newIPAMRepository ::
  "(IPAMBlockData list \<Rightarrow> IPAMBlockData list) \<Rightarrow> gotime \<Rightarrow> ipam_db IPAMRepository" where
  "newIPAMRepository order_by_cidr now =
     \<lparr>repo_UpsertBlock = pg_UpsertBlock now, repo_AllocateBlocks = pg_AllocateBlocks now,
      repo_ReleaseBlocks = pg_ReleaseBlocks now, repo_RestoreState = pg_RestoreState order_by_cidr\<rparr>"

text \<open>Who holds a block, as the database records it.\<close>

definition db_owner :: "ipam_db \<Rightarrow> string \<Rightarrow> string option" where
  "db_owner d cidr = (case map_of (ipam_blocks d) cidr of
      None \<Rightarrow> None | Some b \<Rightarrow> if dAllocated b then Some (dTenantID b) else None)"

definition db_inv :: "ipam_db \<Rightarrow> bool" where
  "db_inv d \<longleftrightarrow> wf_map (ipam_blocks d)"

section \<open>The contract\<close>

text \<open>
  What the cores rely on: an allocation takes blocks nobody holds, as many as requested and each
  once, and changes the holder of nothing else; a failed one changes nothing; a release frees
  the tenant's blocks and no other.
\<close>

locale ipam_store =
  fixes allocate :: "string \<Rightarrow> int \<Rightarrow> int \<Rightarrow> 'd \<Rightarrow> (string + string list) \<times> 'd"
    and release :: "string \<Rightarrow> 'd \<Rightarrow> (string + unit) \<times> 'd"
    and owner :: "'d \<Rightarrow> string \<Rightarrow> string option"
    and invar :: "'d \<Rightarrow> bool"
  assumes allocate_ok: "invar d \<Longrightarrow> allocate t p n d = (Inr cs, d') \<Longrightarrow>
      invar d' \<and> distinct cs \<and> int (length cs) = n \<and> (\<forall>c\<in>set cs. owner d c = None) \<and>
      owner d' = (\<lambda>c. if c \<in> set cs then Some t else owner d c)"
    and allocate_err: "invar d \<Longrightarrow> allocate t p n d = (Inl e, d') \<Longrightarrow> invar d' \<and> owner d' = owner d"
    and release_only: "invar d \<Longrightarrow> release t d = (r, d') \<Longrightarrow>
      invar d' \<and> (\<forall>c u. u \<noteq> t \<longrightarrow> (owner d' c = Some u) = (owner d c = Some u))"
begin

text \<open>Requests of several cores on one database, in the order the database serialises them.\<close>

fun serve :: "(string \<times> int \<times> int) list \<Rightarrow> 'd \<Rightarrow> (string \<times> string list) list \<times> 'd" where
  "serve [] d = ([], d)"
| "serve ((t, p, n) # reqs) d =
     (case allocate t p n d of
        (Inl e, d') \<Rightarrow> serve reqs d'
      | (Inr cs, d') \<Rightarrow> let (grants, d'') = serve reqs d' in ((t, cs) # grants, d''))"

lemma serve_grants:
  assumes "invar d" and "serve reqs d = (grants, d')"
  shows "distinct (concat (map snd grants)) \<and>
    (\<forall>c\<in>set (concat (map snd grants)). owner d c = None) \<and>
    (\<forall>c u. owner d c = Some u \<longrightarrow> owner d' c = Some u) \<and>
    (\<forall>(t, cs)\<in>set grants. \<forall>c\<in>set cs. owner d' c = Some t)"
  using assms
proof (induction reqs arbitrary: d grants)
  case Nil
  then show ?case by simp
next
  case (Cons req reqs)
  obtain t p n where req: "req = (t, p, n)" by (cases req)
  obtain r d1 where a: "allocate t p n d = (r, d1)" by force
  show ?case
  proof (cases r)
    case (Inl e)
    then have "invar d1" "owner d1 = owner d" using allocate_err [OF Cons.prems(1)] a by auto
    moreover have "serve reqs d1 = (grants, d')" using Cons.prems(2) a Inl by (simp add: req)
    ultimately show ?thesis using Cons.IH [of d1 grants] by simp
  next
    case (Inr cs)
    obtain gs where s: "serve reqs d1 = (gs, d')" "grants = (t, cs) # gs"
      using Cons.prems(2) a Inr by (auto simp: req split: prod.splits)
    have ok: "invar d1" "distinct cs" "\<forall>c\<in>set cs. owner d c = None"
      "owner d1 = (\<lambda>c. if c \<in> set cs then Some t else owner d c)"
      using allocate_ok [OF Cons.prems(1)] a Inr by auto
    note IH = Cons.IH [OF ok(1) s(1)]
    have new: "c \<notin> set cs \<and> owner d c = None" if "c \<in> set (concat (map snd gs))" for c
    proof -
      have "owner d1 c = None" using IH that by blast
      then show ?thesis unfolding ok(4) by (simp split: if_splits)
    qed
    have keep: "owner d' c = Some u" if "owner d1 c = Some u" for c u using IH that by blast
    have "distinct (concat (map snd grants))" using IH ok(2) new by (auto simp: s(2))
    moreover have "\<forall>c\<in>set (concat (map snd grants)). owner d c = None"
      using ok(3) new by (auto simp: s(2))
    moreover have "owner d' c = Some u" if o: "owner d c = Some u" for c u
    proof -
      have "c \<notin> set cs" using ok(3) o by auto
      then show ?thesis using keep [of c u] o by (simp add: ok(4))
    qed
    moreover have "owner d' c = Some t" if "c \<in> set cs" for c
      using keep [of c t] ok(4) that by simp
    ultimately show ?thesis using IH by (auto simp: s(2))
  qed
qed

end

section \<open>The implementation keeps the contract\<close>

lemma map_of_map_snd: "map_of (map (\<lambda>(k, v). (k, f k v)) m) k = map_option (f k) (map_of m k)"
  by (induction m) auto

lemma wf_map_map_snd [simp]: "wf_map (map (\<lambda>(k, v). (k, f k v)) m) = wf_map m"
  by (simp add: wf_map_def comp_def case_prod_beta)

lemma free_rows_free:
  assumes "db_inv d" and "c \<in> set (free_rows p d)"
  shows "db_owner d c = None \<and> c \<in> dom (map_of (ipam_blocks d))"
proof -
  obtain b where "(c, b) \<in> set (ipam_blocks d)" "\<not> dAllocated b"
    using assms(2) by (auto simp: free_rows_def)
  then have "map_of (ipam_blocks d) c = Some b" using assms(1) by (simp add: db_inv_def wf_map_def)
  then show ?thesis using \<open>\<not> dAllocated b\<close> by (simp add: db_owner_def dom_def)
qed

lemma distinct_free_rows: "db_inv d \<Longrightarrow> distinct (free_rows p d)"
  unfolding free_rows_def db_inv_def wf_map_def by (simp add: distinct_map_filter)

lemma pg_allocate_ok:
  assumes "db_inv d" and "pg_AllocateBlocks now t p n d = (Inr cs, d')"
  shows "db_inv d' \<and> distinct cs \<and> int (length cs) = n \<and> (\<forall>c\<in>set cs. db_owner d c = None) \<and>
    db_owner d' = (\<lambda>c. if c \<in> set cs then Some t else db_owner d c)"
proof -
  have a: "0 \<le> n" "cs = take (nat n) (free_rows p d)" "int (length cs) \<ge> n"
    "d' = d\<lparr>ipam_blocks := map (take_row t now cs) (ipam_blocks d)\<rparr>"
    using assms(2) by (auto simp: pg_AllocateBlocks_def Let_def split: if_splits)
  have sub: "set cs \<subseteq> set (free_rows p d)" using a(2) by (simp add: set_take_subset)
  have row: "take_row t now cs = (\<lambda>(k, v). (k, if k \<in> set cs
      then v\<lparr>dAllocated := True, dTenantID := t, dUpdatedAt := now\<rparr> else v))"
    by (simp add: take_row_def)
  have "db_owner d' c = (if c \<in> set cs then Some t else db_owner d c)" for c
  proof -
    have "map_of (ipam_blocks d) c \<noteq> None" if "c \<in> set cs"
      using free_rows_free [OF assms(1)] sub that by blast
    then show ?thesis unfolding a(4) row
      by (auto simp: db_owner_def map_of_map_snd split: option.split)
  qed
  moreover have "db_inv d'" using assms(1) by (simp add: a(4) db_inv_def row)
  moreover have "distinct cs" using distinct_free_rows [OF assms(1)] by (simp add: a(2))
  moreover have "\<forall>c\<in>set cs. db_owner d c = None" using free_rows_free [OF assms(1)] sub by blast
  ultimately show ?thesis using a(1-3) by auto
qed

interpretation pg: ipam_store "pg_AllocateBlocks now" "pg_ReleaseBlocks now'" db_owner db_inv
proof
  fix d t p n cs e d' r
  assume inv: "db_inv d"
  show "db_inv d' \<and> distinct cs \<and> int (length cs) = n \<and> (\<forall>c\<in>set cs. db_owner d c = None) \<and>
      db_owner d' = (\<lambda>c. if c \<in> set cs then Some t else db_owner d c)"
    if "pg_AllocateBlocks now t p n d = (Inr cs, d')"
    using pg_allocate_ok [OF inv that] .
  show "db_inv d' \<and> db_owner d' = db_owner d" if "pg_AllocateBlocks now t p n d = (Inl e, d')"
    using that inv by (auto simp: pg_AllocateBlocks_def Let_def split: if_splits)
  show "db_inv d' \<and> (\<forall>c u. u \<noteq> t \<longrightarrow> (db_owner d' c = Some u) = (db_owner d c = Some u))"
    if "pg_ReleaseBlocks now' t d = (r, d')"
    using that inv
    by (auto simp: pg_ReleaseBlocks_def db_inv_def db_owner_def map_of_map_snd split: if_splits option.split)
qed

section \<open>Property\<close>

text \<open>Requests that the database answers one after the other.\<close>

fun pg_serve :: "gotime \<Rightarrow> (string \<times> int \<times> int) list \<Rightarrow> ipam_db \<Rightarrow> (string \<times> string list) list \<times> ipam_db" where
  "pg_serve now [] d = ([], d)"
| "pg_serve now ((t, p, n) # reqs) d =
     (case pg_AllocateBlocks now t p n d of
        (Inl e, d') \<Rightarrow> pg_serve now reqs d'
      | (Inr cs, d') \<Rightarrow> let (grants, d'') = pg_serve now reqs d' in ((t, cs) # grants, d''))"

lemma pg_serve_eq: "pg_serve now reqs d = pg.serve now reqs d"
  by (induction now reqs d rule: pg_serve.induct) (auto split: prod.split sum.split)


definition sample_db :: ipam_db where
  "sample_db = \<lparr>ipam_blocks = map (\<lambda>c. (c, \<lparr>dCIDR = c, dTenantID = [], dAllocated = False,
     dPoolIndex = 0, dUpdatedAt = 0\<rparr>)) [''10.0.0.0/27'', ''10.0.0.32/27'', ''10.0.0.64/27''],
     db_locked = [], db_up = True\<rparr>"


end
