(* ===== verification/Ipam.thy ===== *)
theory Ipam
  imports GoNet Cache_Contract Ipam_Repo
begin

text \<open>
  The address manager, \<open>src/internal/state/ipam.go\<close>: address pools are cut into /27 blocks, a
  tenant is given blocks, more blocks when it grows, and its blocks return to the pools when it
  leaves.

  The state is the record \<open>GlobalIPAM\<close>. \<open>blocks\<close> and \<open>tenants\<close> are the code's \<open>sync.Map\<close>s, \<open>freeBlocks\<close>
  the map of the queues of free blocks, \<open>ipam_cache\<close> the cache of allocations (the model of
  \<open>Cache\<close>), \<open>db\<close> the state behind the repository. Every operation takes the repository \<open>R\<close>, which
  is \<open>None\<close> in the single-core mode. The blocks and allocations are reached only through the maps
  inside an operation, so they are values: an update through a pointer is an update of the map's
  entry. Where an operation ranges over \<open>freeBlocks\<close>, the order is an argument.

  The operations run one at a time here. \<open>addPoolAndSplit\<close> starts a goroutine per pool; the model
  keeps the goroutines that have not run yet in \<open>pending\<close> and runs one as one step.
\<close>

unbundle bit_operations_syntax

section \<open>Data\<close>

datatype ipam_error =
    TenantExists string
  | TenantNotFound string
  | NoFreeBlocks nat int
  | BlockNotFound string
  | PoolNotFound int
  | PoolEmpty int
  | NotWithRepo
  | InvalidCIDR string
  | OnlyIPv4 string
  | NoValidPools
  | IpamPanic

record TenantAllocation =
  taTenantID :: string
  taNetworks :: "IPNet list"
  taAllocatedAt :: gotime
  taUpdatedAt :: gotime
  taBlockCount :: nat
  taServerIPs :: "IP list"

record Block27 =
  bNetwork :: IPNet
  bTenantID :: string
  bAllocated :: bool
  bPoolIndex :: int

record PoolDefinition =
  pdIndex :: int
  pdCIDR :: string
  pdIPNet :: IPNet
  pdPrefix :: string

record 'd GlobalIPAM =
  blocks :: "string \<Rightarrow> Block27 option"
  tenants :: "string \<Rightarrow> TenantAllocation option"
  freeBlocks :: "int \<Rightarrow> string list option"
  pools :: "PoolDefinition list"
  ipam_cache :: "TenantAllocation Cache"
  totalBlocks :: int
  allocatedBlocks :: int
  totalTenants :: int
  totalExpansions :: int
  db :: 'd
  pending :: "(IPNet \<times> int) list"

section \<open>Address arithmetic\<close>

text \<open>The loops of \<open>incrementIPBy\<close> and \<open>getFirstUsableIP\<close> run from the last byte to the first.\<close>

fun increment_rev :: "int \<Rightarrow> byte list \<Rightarrow> byte list" where
  "increment_rev n [] = []"
| "increment_rev n (b # bs) =
     (if 0 < n then let val = uint b + n in word_of_int (val AND 0xFF) # increment_rev (drop_bit 8 val) bs
      else b # bs)"

definition incrementIPBy :: "IP \<Rightarrow> int \<Rightarrow> IP" where
  "incrementIPBy ip n = rev (increment_rev n (rev ip))"

fun first_usable_rev :: "byte list \<Rightarrow> byte list" where
  "first_usable_rev [] = []"
| "first_usable_rev (b # bs) = (if b + 1 \<noteq> 0 then (b + 1) # bs else (b + 1) # first_usable_rev bs)"

definition getFirstUsableIP :: "IPNet \<Rightarrow> IP" where
  "getFirstUsableIP network =
     (let ip = nIP network; ipv4 = To4 ip; ip = (if ipv4 \<noteq> [] then ipv4 else ip)
      in rev (first_usable_rev (rev ip)))"

section \<open>Pools\<close>

definition getFreeBlockQueue :: "int \<Rightarrow> 'd GlobalIPAM \<Rightarrow> string list option" where
  "getFreeBlockQueue poolIndex ipam = freeBlocks ipam poolIndex"

definition ensureFreeBlockQueue :: "int \<Rightarrow> 'd GlobalIPAM \<Rightarrow> 'd GlobalIPAM" where
  "ensureFreeBlockQueue poolIndex ipam =
     (case getFreeBlockQueue poolIndex ipam of
        Some queue \<Rightarrow> ipam
      | None \<Rightarrow> ipam\<lparr>freeBlocks := (freeBlocks ipam)(poolIndex \<mapsto> [])\<rparr>)"

definition enqueue :: "int \<Rightarrow> string \<Rightarrow> 'd GlobalIPAM \<Rightarrow> 'd GlobalIPAM" where
  "enqueue poolIndex cidr ipam =
     ipam\<lparr>freeBlocks := (freeBlocks ipam)(poolIndex := map_option (\<lambda>q. q @ [cidr]) (freeBlocks ipam poolIndex))\<rparr>"

text \<open>One round of the loop of \<open>splitIntoBlocks27\<close>, at the address \<open>currentIP\<close>.\<close>

definition split_block ::
  "'d IPAMRepository option \<Rightarrow> int \<Rightarrow> IP \<Rightarrow> 'd GlobalIPAM \<Rightarrow> 'd GlobalIPAM" where
  "split_block R poolIndex currentIP ipam =
     (let block27 = \<lparr>nIP = currentIP, nMask = CIDRMask 27 32\<rparr>;
          blockCIDR = IPNet_String block27
      in case blocks ipam blockCIDR of
           Some block \<Rightarrow>
             (let ipam1 = ipam\<lparr>blocks := (blocks ipam)(blockCIDR \<mapsto> block\<lparr>bPoolIndex := poolIndex\<rparr>)\<rparr>
              in if \<not> bAllocated block then enqueue poolIndex blockCIDR ipam1 else ipam1)
         | None \<Rightarrow>
             (let block = \<lparr>bNetwork = block27, bTenantID = [], bAllocated = False, bPoolIndex = poolIndex\<rparr>;
                  ipam1 = ipam\<lparr>blocks := (blocks ipam)(blockCIDR \<mapsto> block)\<rparr>;
                  ipam2 = (case R of
                      None \<Rightarrow> ipam1
                    | Some r \<Rightarrow> ipam1\<lparr>db := snd (repo_UpsertBlock r \<lparr>dCIDR = blockCIDR, dTenantID = [],
                        dAllocated = False, dPoolIndex = poolIndex, dUpdatedAt = 0\<rparr> (db ipam1))\<rparr>)
              in enqueue poolIndex blockCIDR ipam2))"

fun split_loop ::
  "'d IPAMRepository option \<Rightarrow> IPNet \<Rightarrow> int \<Rightarrow> nat \<Rightarrow> nat \<Rightarrow> IP \<Rightarrow> 'd GlobalIPAM \<Rightarrow> nat \<times> 'd GlobalIPAM" where
  "split_loop R ipnet poolIndex 0 count currentIP ipam = (count, ipam)"
| "split_loop R ipnet poolIndex (Suc todo) count currentIP ipam =
     (let ipam1 = split_block R poolIndex currentIP ipam;
          nextIP = incrementIPBy currentIP 32
      in if \<not> IPNet_Contains ipnet nextIP then (Suc count, ipam1)
         else split_loop R ipnet poolIndex todo (Suc count) nextIP ipam1)"

definition splitIntoBlocks27 ::
  "'d IPAMRepository option \<Rightarrow> IPNet \<Rightarrow> int \<Rightarrow> 'd GlobalIPAM \<Rightarrow> nat \<times> 'd GlobalIPAM" where
  "splitIntoBlocks27 R ipnet poolIndex ipam =
     (let ipam0 = ensureFreeBlockQueue poolIndex ipam; prefixLen = fst (Mask_Size (nMask ipnet))
      in if 27 < prefixLen then (0, ipam0)
         else let (count, ipam1) = split_loop R ipnet poolIndex (2 ^ (27 - prefixLen)) 0 (nIP ipnet) ipam0
           in (count, ipam1\<lparr>totalBlocks := totalBlocks ipam1 + int count\<rparr>))"

definition addPoolAndSplit :: "int \<Rightarrow> string \<Rightarrow> 'd GlobalIPAM \<Rightarrow> ipam_error + 'd GlobalIPAM" where
  "addPoolAndSplit poolIndex cidr ipam =
     (case ParseCIDR cidr of
        None \<Rightarrow> Inl (InvalidCIDR cidr)
      | Some (_, ipnet) \<Rightarrow>
          if To4 (nIP ipnet) = [] then Inl (OnlyIPv4 cidr)
          else let ipam1 = ipam\<lparr>pools := pools ipam @
                 [\<lparr>pdIndex = poolIndex, pdCIDR = cidr, pdIPNet = ipnet, pdPrefix = cidr\<rparr>]\<rparr>
            in Inr ((ensureFreeBlockQueue poolIndex ipam1)\<lparr>pending := pending ipam1 @ [(ipnet, poolIndex)]\<rparr>))"

text \<open>One of the goroutines that \<open>addPoolAndSplit\<close> started runs.\<close>

definition run_pending :: "'d IPAMRepository option \<Rightarrow> nat \<Rightarrow> 'd GlobalIPAM \<Rightarrow> 'd GlobalIPAM" where
  "run_pending R i ipam =
     (if i < length (pending ipam) then
        (let (ipnet, poolIndex) = pending ipam ! i
         in snd (splitIntoBlocks27 R ipnet poolIndex (ipam\<lparr>pending := remove_at i (pending ipam)\<rparr>)))
      else ipam)"

definition ipam_cache_config :: CacheConfig where
  "ipam_cache_config = \<lparr>Algorithm = AlgorithmLRU, MaxSize = 20 * 1024 * 1024, MaxEntries = 50000,
     DefaultTTL = 10 * minute, CleanupFreq = 2 * minute, ShardCount = 16\<rparr>"

text \<open>The blocks of the database; a row whose CIDR does not parse is a nil dereference.\<close>

fun restore_rows :: "IPAMBlockData list \<Rightarrow> 'd GlobalIPAM \<Rightarrow> ipam_error + 'd GlobalIPAM" where
  "restore_rows [] ipam = Inr ipam"
| "restore_rows (b # bs) ipam =
     (case ParseCIDR (dCIDR b) of
        None \<Rightarrow> Inl IpamPanic
      | Some (_, ipnet) \<Rightarrow>
          restore_rows bs (ipam\<lparr>
            blocks := (blocks ipam)(dCIDR b \<mapsto> \<lparr>bNetwork = ipnet, bTenantID = dTenantID b,
              bAllocated = dAllocated b, bPoolIndex = dPoolIndex b\<rparr>),
            allocatedBlocks := allocatedBlocks ipam + (if dAllocated b then 1 else 0)\<rparr>))"

fun add_pools :: "int \<Rightarrow> string list \<Rightarrow> 'd GlobalIPAM \<Rightarrow> ipam_error + 'd GlobalIPAM" where
  "add_pools poolIndex [] ipam = Inr ipam"
| "add_pools poolIndex (cidr # cidrs) ipam =
     res_bind (addPoolAndSplit poolIndex cidr ipam) (add_pools (poolIndex + 1) cidrs)"

definition NewGlobalIPAM ::
  "'d IPAMRepository option \<Rightarrow> 'd \<Rightarrow> string list \<Rightarrow> ipam_error + 'd GlobalIPAM" where
  "NewGlobalIPAM R d baseCIDRs =
     (let ipam = \<lparr>blocks = Map.empty, tenants = Map.empty, freeBlocks = Map.empty, pools = [],
            ipam_cache = NewCache 0 ipam_cache_config, totalBlocks = 0, allocatedBlocks = 0,
            totalTenants = 0, totalExpansions = 0, db = d, pending = []\<rparr>;
          restored = (case R of
              None \<Rightarrow> Inr ipam
            | Some r \<Rightarrow> (case repo_RestoreState r d of
                Inl e \<Rightarrow> Inr ipam
              | Inr rows \<Rightarrow> restore_rows rows ipam))
      in res_bind restored (\<lambda>ipam.
           res_bind (add_pools 0 baseCIDRs ipam) (\<lambda>ipam.
             if pools ipam = [] then Inl NoValidPools else Inr ipam)))"

section \<open>Allocation of blocks\<close>

definition popFreeBlock ::
  "'d IPAMRepository option \<Rightarrow> int \<Rightarrow> 'd GlobalIPAM \<Rightarrow> (ipam_error + string) \<times> 'd GlobalIPAM" where
  "popFreeBlock R poolIndex ipam =
     (if R \<noteq> None then (Inl NotWithRepo, ipam)
      else case getFreeBlockQueue poolIndex ipam of
        None \<Rightarrow> (Inl (PoolNotFound poolIndex), ipam)
      | Some queue \<Rightarrow>
          if queue = [] then (Inl (PoolEmpty poolIndex), ipam)
          else (Inr (last queue), ipam\<lparr>freeBlocks := (freeBlocks ipam)(poolIndex \<mapsto> butlast queue)\<rparr>))"

definition releaseBlock ::
  "'d IPAMRepository option \<Rightarrow> string \<Rightarrow> 'd GlobalIPAM \<Rightarrow> (ipam_error + unit) \<times> 'd GlobalIPAM" where
  "releaseBlock R blockCIDR ipam =
     (case blocks ipam blockCIDR of
        None \<Rightarrow> (Inl (BlockNotFound blockCIDR), ipam)
      | Some block \<Rightarrow>
          (let ipam1 = ipam\<lparr>blocks := (blocks ipam)(blockCIDR \<mapsto> block\<lparr>bTenantID := [], bAllocated := False\<rparr>)\<rparr>;
               ipam2 = (case R of
                   None \<Rightarrow> ipam1
                 | Some r \<Rightarrow> ipam1\<lparr>db := snd (repo_UpsertBlock r \<lparr>dCIDR = blockCIDR, dTenantID = [],
                     dAllocated = False, dPoolIndex = bPoolIndex block, dUpdatedAt = 0\<rparr> (db ipam1))\<rparr>)
           in case getFreeBlockQueue (bPoolIndex block) ipam2 of
                None \<Rightarrow> (Inl (PoolNotFound (bPoolIndex block)), ipam2)
              | Some queue \<Rightarrow>
                  (Inr (), (enqueue (bPoolIndex block) blockCIDR ipam2)
                     \<lparr>allocatedBlocks := allocatedBlocks ipam2 - 1\<rparr>)))"

definition release_all :: "'d IPAMRepository option \<Rightarrow> string list \<Rightarrow> 'd GlobalIPAM \<Rightarrow> 'd GlobalIPAM" where
  "release_all R cidrs ipam = fold (\<lambda>cidr st. snd (releaseBlock R cidr st)) cidrs ipam"

text \<open>The block \<open>cidr\<close> is marked for the tenant, if the manager knows it.\<close>

definition mark ::
  "string \<Rightarrow> string \<Rightarrow> IPNet list \<times> string list \<times> 'd GlobalIPAM \<Rightarrow> IPNet list \<times> string list \<times> 'd GlobalIPAM" where
  "mark tenantID cidr = (\<lambda>(networks, allocated, ipam).
     case blocks ipam cidr of
       None \<Rightarrow> (networks, allocated, ipam)
     | Some block \<Rightarrow> (networks @ [bNetwork block], allocated @ [cidr],
         ipam\<lparr>blocks := (blocks ipam)(cidr \<mapsto> block\<lparr>bTenantID := tenantID, bAllocated := True\<rparr>),
              allocatedBlocks := allocatedBlocks ipam + 1\<rparr>))"

definition queue_len :: "'d GlobalIPAM \<Rightarrow> int \<Rightarrow> nat" where
  "queue_len ipam p = (case freeBlocks ipam p of None \<Rightarrow> 0 | Some q \<Rightarrow> length q)"

definition loop_measure :: "int list \<Rightarrow> 'd GlobalIPAM \<Rightarrow> nat" where
  "loop_measure ps ipam = (\<Sum>p\<leftarrow>ps. Suc (queue_len ipam p))"

text \<open>
  The loop of \<open>allocateBlocks\<close>. It ends because every round drops a pool or takes a block from
  the queue of one of the remaining pools.
\<close>

function allocate_loop ::
  "'d IPAMRepository option \<Rightarrow> string \<Rightarrow> int \<Rightarrow> int list \<Rightarrow> nat \<Rightarrow> IPNet list \<Rightarrow> string list \<Rightarrow>
   'd GlobalIPAM \<Rightarrow> (ipam_error + IPNet list) \<times> 'd GlobalIPAM" where
  "allocate_loop R tenantID count poolIndices poolIdx networks allocated ipam =
     (if count \<le> int (length networks) then (Inr networks, ipam)
      else if poolIndices = [] then
        (Inl (NoFreeBlocks (length networks) count), release_all R allocated ipam)
      else
        let i = poolIdx mod length poolIndices; currentPool = poolIndices ! i in
        case R of
          Some r \<Rightarrow>
            (case repo_AllocateBlocks r tenantID currentPool (count - int (length networks)) (db ipam) of
               (Inr cIDs, d) \<Rightarrow>
                 (let (networks1, allocated1, ipam1) =
                        fold (mark tenantID) cIDs (networks, allocated, ipam\<lparr>db := d\<rparr>)
                  in if count \<le> int (length networks1) then (Inr networks1, ipam1)
                     else allocate_loop R tenantID count (remove_at i poolIndices) poolIdx networks1 allocated1 ipam1)
             | (Inl e, d) \<Rightarrow>
                 allocate_loop R tenantID count (remove_at i poolIndices) poolIdx networks allocated (ipam\<lparr>db := d\<rparr>))
        | None \<Rightarrow>
            (case popFreeBlock R currentPool ipam of
               (Inl e, ipam1) \<Rightarrow>
                 allocate_loop R tenantID count (remove_at i poolIndices) poolIdx networks allocated ipam1
             | (Inr blockCIDR, ipam1) \<Rightarrow>
                 (let (networks2, allocated2, ipam2) = mark tenantID blockCIDR (networks, allocated, ipam1)
                  in allocate_loop R tenantID count poolIndices (Suc poolIdx) networks2 allocated2 ipam2)))"
  by pat_completeness auto

lemma mark_freeBlocks [simp]:
  "mark t c (ns, al, ipam) = (ns', al', ipam') \<Longrightarrow> freeBlocks ipam' = freeBlocks ipam"
  by (auto simp: mark_def split: option.splits)

lemma fold_mark_freeBlocks:
  "fold (mark t) cs (ns, al, ipam) = (ns', al', ipam') \<Longrightarrow> freeBlocks ipam' = freeBlocks ipam"
proof (induction cs arbitrary: ns al ipam)
  case (Cons c cs)
  obtain n2 a2 i2 where "mark t c (ns, al, ipam) = (n2, a2, i2)" by (metis prod_cases3)
  with Cons show ?case using mark_freeBlocks by fastforce
qed simp

lemma sum_list_remove_at:
  fixes f :: "'a \<Rightarrow> nat"
  assumes "i < length xs"
  shows "sum_list (map f (remove_at i xs)) + f (xs ! i) = sum_list (map f xs)"
proof -
  have "sum_list (map f xs) = sum_list (map f (take i xs @ xs ! i # drop (Suc i) xs))"
    using nth_drop_split [OF assms] by metis
  then show ?thesis by (simp add: remove_at_def)
qed

lemma sum_list_pop:
  fixes f g :: "'a \<Rightarrow> nat"
  assumes "p \<in> set ps" and "g p < f p" and "\<And>q. g q \<le> f q"
  shows "sum_list (map g ps) < sum_list (map f ps)"
  using assms(1)
proof (induction ps)
  case (Cons q ps)
  have "sum_list (map g ps) \<le> sum_list (map f ps)" by (rule sum_list_mono) (rule assms(3))
  with Cons assms(2) assms(3) [of q] show ?case by (cases "q = p") (auto intro: add_le_less_mono add_less_le_mono)
qed simp

lemma popFreeBlock_cases:
  assumes "popFreeBlock R p ipam = (r, ipam')"
  obtains (err) e where "r = Inl e" "ipam' = ipam"
  | (ok) q c where "R = None" "r = Inr c" "freeBlocks ipam p = Some (q @ [c])"
      "ipam' = ipam\<lparr>freeBlocks := (freeBlocks ipam)(p \<mapsto> q)\<rparr>"
proof (cases r)
  case (Inl e)
  then show thesis using assms err
    by (auto simp: popFreeBlock_def split: if_splits option.splits)
next
  case (Inr c)
  then obtain q where "R = None" "freeBlocks ipam p = Some q" "q \<noteq> []" "c = last q"
    "ipam' = ipam\<lparr>freeBlocks := (freeBlocks ipam)(p \<mapsto> butlast q)\<rparr>"
    using assms by (auto simp: popFreeBlock_def getFreeBlockQueue_def split: if_splits option.splits)
  with Inr show thesis using ok [of c "butlast q"] by simp
qed

lemma loop_drop:
  assumes "ps \<noteq> []" and "freeBlocks ipam' = freeBlocks ipam"
  shows "loop_measure (remove_at (k mod length ps) ps) ipam' < loop_measure ps ipam"
proof -
  have "k mod length ps < length ps" using assms(1) by simp
  from sum_list_remove_at [OF this, of "\<lambda>p. Suc (queue_len ipam p)"] show ?thesis
    using assms(2) by (simp add: loop_measure_def queue_len_def)
qed

lemma loop_pop:
  assumes "p \<in> set ps" and "freeBlocks ipam p = Some (q @ [c])"
    and "freeBlocks ipam' = (freeBlocks ipam)(p \<mapsto> q)"
  shows "loop_measure ps ipam' < loop_measure ps ipam"
  unfolding loop_measure_def using assms
  by (intro sum_list_pop [of p]) (auto simp: queue_len_def)

termination allocate_loop
proof (relation "measure (\<lambda>(R, t, n, ps, i, ns, al, ipam). loop_measure ps ipam)", goal_cases)
  case (2 R t n ps i ns al ipam j p y e)
  then show ?case
    by (auto intro!: loop_drop elim!: popFreeBlock_cases [OF sym])
next
  case (3 R t n ps i ns al ipam j p r ipam1 c z ns2 y al2 ipam2)
  have fr: "freeBlocks ipam2 = freeBlocks ipam1"
    using mark_freeBlocks 3 by metis
  have "p \<in> set ps" using 3 by simp
  moreover obtain q where "freeBlocks ipam p = Some (q @ [c])"
    "freeBlocks ipam1 = (freeBlocks ipam)(p \<mapsto> q)"
    using 3 by (auto elim!: popFreeBlock_cases [OF sym])
  ultimately have "loop_measure ps ipam2 < loop_measure ps ipam" using fr by (intro loop_pop) auto
  then show ?case by simp
next
  case (4 R t n ps i ns al ipam j p r x d e)
  then show ?case by (simp add: loop_drop)
next
  case (5 R t n ps i ns al ipam j p r x d cs z ns1 y al1 ipam1)
  have "freeBlocks ipam1 = freeBlocks ipam"
    using fold_mark_freeBlocks [of t cs ns al "ipam\<lparr>db := d\<rparr>" ns1 al1 ipam1] 5 by simp
  then have "loop_measure (remove_at j ps) ipam1 < loop_measure ps ipam"
    unfolding 5(3) using 5(2) by (intro loop_drop)
  then show ?case by simp
qed simp

definition allocateBlocks ::
  "'d IPAMRepository option \<Rightarrow> int list \<Rightarrow> string \<Rightarrow> int \<Rightarrow> 'd GlobalIPAM \<Rightarrow>
   (ipam_error + IPNet list) \<times> 'd GlobalIPAM" where
  "allocateBlocks R poolIndices tenantID count ipam =
     (if count < 0 then (Inl IpamPanic, ipam)
      else allocate_loop R tenantID count poolIndices 0 [] [] ipam)"

section \<open>Tenants\<close>

text \<open>The calls \<open>ipam.cache.Set\<close>, and \<open>tenants.Store\<close> followed by it.\<close>

definition cache_store :: "string \<Rightarrow> TenantAllocation \<Rightarrow> gotime \<Rightarrow> 'd GlobalIPAM \<Rightarrow> 'd GlobalIPAM" where
  "cache_store tenantID al now ipam = ipam\<lparr>ipam_cache := Set (ipam_cache ipam) tenantID (GObj al) now\<rparr>"

definition store_tenant :: "string \<Rightarrow> TenantAllocation \<Rightarrow> gotime \<Rightarrow> 'd GlobalIPAM \<Rightarrow> 'd GlobalIPAM" where
  "store_tenant tenantID al now ipam =
     cache_store tenantID al now (ipam\<lparr>tenants := (tenants ipam)(tenantID \<mapsto> al)\<rparr>)"

definition AllocateTenant ::
  "'d IPAMRepository option \<Rightarrow> int list \<Rightarrow> string \<Rightarrow> int \<Rightarrow> gotime \<Rightarrow> 'd GlobalIPAM \<Rightarrow>
   (ipam_error + TenantAllocation) \<times> 'd GlobalIPAM" where
  "AllocateTenant R poolIndices tenantID blockCount now ipam =
     (if tenants ipam tenantID \<noteq> None then (Inl (TenantExists tenantID), ipam)
      else case allocateBlocks R poolIndices tenantID (if blockCount < 1 then 1 else blockCount) ipam of
        (Inl e, ipam1) \<Rightarrow> (Inl e, ipam1)
      | (Inr networks, ipam1) \<Rightarrow>
          (let allocation = \<lparr>taTenantID = tenantID, taNetworks = networks, taAllocatedAt = now,
                 taUpdatedAt = now, taBlockCount = length networks,
                 taServerIPs = map getFirstUsableIP networks\<rparr>;
               ipam2 = store_tenant tenantID allocation now ipam1
           in (Inr allocation, ipam2\<lparr>totalTenants := totalTenants ipam2 + 1\<rparr>)))"

definition ExpandTenant ::
  "'d IPAMRepository option \<Rightarrow> int list \<Rightarrow> string \<Rightarrow> int \<Rightarrow> gotime \<Rightarrow> 'd GlobalIPAM \<Rightarrow>
   (ipam_error + TenantAllocation) \<times> 'd GlobalIPAM" where
  "ExpandTenant R poolIndices tenantID additionalBlocks now ipam =
     (case tenants ipam tenantID of
        None \<Rightarrow> (Inl (TenantNotFound tenantID), ipam)
      | Some allocation \<Rightarrow>
          (case allocateBlocks R poolIndices tenantID additionalBlocks ipam of
             (Inl e, ipam1) \<Rightarrow> (Inl e, ipam1)
           | (Inr newBlocks, ipam1) \<Rightarrow>
               (let allocation1 = allocation\<lparr>taNetworks := taNetworks allocation @ newBlocks,
                      taBlockCount := length (taNetworks allocation @ newBlocks), taUpdatedAt := now,
                      taServerIPs := taServerIPs allocation @ map getFirstUsableIP newBlocks\<rparr>;
                    ipam2 = store_tenant tenantID allocation1 now ipam1
                in (Inr allocation1, ipam2\<lparr>totalExpansions := totalExpansions ipam2 + 1\<rparr>))))"

definition GetAllocation ::
  "string \<Rightarrow> gotime \<Rightarrow> 'd GlobalIPAM \<Rightarrow> (ipam_error + TenantAllocation) \<times> 'd GlobalIPAM" where
  "GetAllocation tenantID now ipam =
     (let (res, c) = Get (ipam_cache ipam) tenantID now; ipam1 = ipam\<lparr>ipam_cache := c\<rparr>
      in case res of
           (Some (GObj allocation), True) \<Rightarrow> (Inr allocation, ipam1)
         | _ \<Rightarrow>
             (case tenants ipam1 tenantID of
                None \<Rightarrow> (Inl (TenantNotFound tenantID), ipam1)
              | Some allocation \<Rightarrow> (Inr allocation, cache_store tenantID allocation now ipam1)))"

definition GetNetworkList ::
  "string \<Rightarrow> gotime \<Rightarrow> 'd GlobalIPAM \<Rightarrow> (ipam_error + IPNet list) \<times> 'd GlobalIPAM" where
  "GetNetworkList tenantID now ipam =
     (case GetAllocation tenantID now ipam of
        (Inl e, ipam1) \<Rightarrow> (Inl e, ipam1)
      | (Inr allocation, ipam1) \<Rightarrow> (Inr (taNetworks allocation), ipam1))"

definition ReleaseTenant ::
  "'d IPAMRepository option \<Rightarrow> string \<Rightarrow> 'd GlobalIPAM \<Rightarrow> (ipam_error + unit) \<times> 'd GlobalIPAM" where
  "ReleaseTenant R tenantID ipam =
     (case tenants ipam tenantID of
        None \<Rightarrow> (Inl (TenantNotFound tenantID), ipam)
      | Some allocation \<Rightarrow>
          (let ipam1 = (case R of
                   None \<Rightarrow> ipam
                 | Some r \<Rightarrow> ipam\<lparr>db := snd (repo_ReleaseBlocks r tenantID (db ipam))\<rparr>);
               ipam2 = release_all R (map IPNet_String (taNetworks allocation)) ipam1
           in (Inr (), ipam2\<lparr>tenants := (tenants ipam2)(tenantID := None),
                             ipam_cache := Delete (ipam_cache ipam2) tenantID,
                             totalTenants := totalTenants ipam2 - 1\<rparr>)))"

text \<open>The loop of \<open>RestoreAllocation\<close>: an error leaves the blocks before it marked.\<close>

fun restore_loop ::
  "string \<Rightarrow> string list \<Rightarrow> IPNet list \<Rightarrow> IP list \<Rightarrow> 'd GlobalIPAM \<Rightarrow>
   (ipam_error + IPNet list \<times> IP list) \<times> 'd GlobalIPAM" where
  "restore_loop tenantID [] parsed servers ipam = (Inr (parsed, servers), ipam)"
| "restore_loop tenantID (cidr # cidrs) parsed servers ipam =
     (case ParseCIDR cidr of
        None \<Rightarrow> (Inl (InvalidCIDR cidr), ipam)
      | Some (_, ipnet) \<Rightarrow>
          (case blocks ipam cidr of
             None \<Rightarrow> (Inl (BlockNotFound cidr), ipam)
           | Some block \<Rightarrow>
               restore_loop tenantID cidrs (parsed @ [ipnet]) (servers @ [getFirstUsableIP ipnet])
                 (ipam\<lparr>blocks := (blocks ipam)(cidr \<mapsto> block\<lparr>bTenantID := tenantID, bAllocated := True\<rparr>),
                   freeBlocks := (freeBlocks ipam)(bPoolIndex block :=
                     map_option (remove_first (\<lambda>free. free = cidr)) (freeBlocks ipam (bPoolIndex block))),
                   allocatedBlocks := allocatedBlocks ipam + 1\<rparr>)))"

definition RestoreAllocation ::
  "string \<Rightarrow> string list \<Rightarrow> gotime \<Rightarrow> gotime \<Rightarrow> 'd GlobalIPAM \<Rightarrow> (ipam_error + unit) \<times> 'd GlobalIPAM" where
  "RestoreAllocation tenantID networks allocatedAt now ipam =
     (case restore_loop tenantID networks [] [] ipam of
        (Inl e, ipam1) \<Rightarrow> (Inl e, ipam1)
      | (Inr (parsedNetworks, serverIPs), ipam1) \<Rightarrow>
          (let allocation = \<lparr>taTenantID = tenantID, taNetworks = parsedNetworks,
                 taAllocatedAt = allocatedAt, taUpdatedAt = now,
                 taBlockCount = length parsedNetworks, taServerIPs = serverIPs\<rparr>;
               ipam2 = store_tenant tenantID allocation now ipam1
           in (Inr (), ipam2\<lparr>totalTenants := totalTenants ipam2 + 1\<rparr>)))"

section \<open>Statistics\<close>

record PoolStatistics =
  psPoolIndex :: int
  psCIDR :: string
  psFreeBlocks :: nat

record IPAMStatistics =
  stTotalPools :: nat
  stTotalBlocks :: int
  stAllocatedBlocks :: int
  stFreeBlocks :: int
  stTotalTenants :: int
  stTotalExpansions :: int
  stPoolStats :: "PoolStatistics list"

definition GetStatistics :: "'d GlobalIPAM \<Rightarrow> IPAMStatistics" where
  "GetStatistics ipam =
     \<lparr>stTotalPools = length (pools ipam), stTotalBlocks = totalBlocks ipam,
      stAllocatedBlocks = allocatedBlocks ipam,
      stFreeBlocks = totalBlocks ipam - allocatedBlocks ipam,
      stTotalTenants = totalTenants ipam, stTotalExpansions = totalExpansions ipam,
      stPoolStats = map (\<lambda>pool. \<lparr>psPoolIndex = pdIndex pool, psCIDR = pdCIDR pool,
        psFreeBlocks = (case getFreeBlockQueue (pdIndex pool) ipam of None \<Rightarrow> 0 | Some q \<Rightarrow> length q)\<rparr>)
        (pools ipam)\<rparr>"

definition ipam_Close :: "'d GlobalIPAM \<Rightarrow> 'd GlobalIPAM" where
  "ipam_Close ipam = ipam\<lparr>ipam_cache := Close (ipam_cache ipam)\<rparr>"

section \<open>The server address\<close>

text \<open>
  The server address of a block is the address after the network address, inside the block.
\<close>

theorem server_address:
  assumes "net27 n"
  shows "bval (getFirstUsableIP n) = bval (nIP n) + 1 \<and> IPNet_Contains n (getFirstUsableIP n)"
proof -
  obtain a b c d where ip: "nIP n = [a, b, c, d]" using assms list4_cases by (metis net27_def)
  have v: "v4net 27 n" using assms net27_iff by blast
  have "32 dvd bval (nIP n)" using v4net_dvd [OF v] by simp
  moreover have "bval (nIP n) = 32 * (524288 * unat a + 2048 * unat b + 8 * unat c) + unat d"
    by (simp add: ip)
  ultimately have "32 dvd unat d" by (simp add: dvd_add_right_iff)
  then obtain k where "unat d = 32 * k" by (auto simp: dvd_def)
  then have "unat d + unat (1 :: byte) < 2 ^ LENGTH(8)" using unat_byte_lt [of d] by simp
  then have d: "unat (d + 1) = unat d + 1" by (simp only: unat_add_lem) simp
  then have "d + 1 \<noteq> 0" by auto
  then have g: "getFirstUsableIP n = [a, b, c, d + 1]" "bval [a, b, c, d + 1] = bval (nIP n) + 1"
    using d by (simp_all add: getFirstUsableIP_def ip To4_def)
  have "length [a, b, c, d + 1] = 4" by simp
  then have "IPNet_Contains n [a, b, c, d + 1]"
    by (rule iffD2 [OF v4net_Contains [OF v]]) (simp only: g(2), simp)
  then show ?thesis using g by simp
qed

theorem server_address_witness:
  "IPNet_Contains \<lparr>nIP = [10, 0, 0, 32], nMask = mask27\<rparr> (getFirstUsableIP \<lparr>nIP = [10, 0, 0, 32], nMask = mask27\<rparr>)"
proof -
  have "net27 \<lparr>nIP = [10, 0, 0, 32], nMask = mask27\<rparr>" by code_simp
  from server_address [OF this] show ?thesis by blast
qed

end
