(* ===== verification/Ipam_Blocks.thy ===== *)
theory Ipam_Blocks
  imports Ipam
begin

text \<open>
  The block store of the address manager: its invariant, taking and returning a block, and the
  loop of \<open>allocateBlocks\<close> relative to the state it started in.
\<close>

section \<open>Invariants\<close>

definition queue :: "'d GlobalIPAM \<Rightarrow> int \<Rightarrow> string list" where
  "queue st p = (case freeBlocks st p of None \<Rightarrow> [] | Some q \<Rightarrow> q)"

definition free_in :: "'d GlobalIPAM \<Rightarrow> int \<Rightarrow> string set" where
  "free_in st p = {c. \<exists>b. blocks st c = Some b \<and> \<not> bAllocated b \<and> bPoolIndex b = p}"

definition free :: "'d GlobalIPAM \<Rightarrow> string set" where
  "free st = {c. \<exists>b. blocks st c = Some b \<and> \<not> bAllocated b}"

definition held :: "'d GlobalIPAM \<Rightarrow> string set" where
  "held st = {c. \<exists>b. blocks st c = Some b \<and> bAllocated b}"

definition owned :: "'d GlobalIPAM \<Rightarrow> string \<Rightarrow> IPNet set" where
  "owned st t = {n. \<exists>c b. blocks st c = Some b \<and> bAllocated b \<and> bTenantID b = t \<and> n = bNetwork b}"

text \<open>
  The block store: a block is stored under its own /27 name, a free block has no tenant, a pool's
  queue holds exactly its free blocks, each once, and the counter counts the held blocks.
\<close>

definition block_ok :: "'d GlobalIPAM \<Rightarrow> string \<Rightarrow> Block27 \<Rightarrow> bool" where
  "block_ok st c b \<longleftrightarrow> c = IPNet_String (bNetwork b) \<and> net27 (bNetwork b) \<and>
     (\<not> bAllocated b \<longrightarrow> bTenantID b = []) \<and> freeBlocks st (bPoolIndex b) \<noteq> None"

definition block_inv :: "'d GlobalIPAM \<Rightarrow> bool" where
  "block_inv st \<longleftrightarrow> finite (dom (blocks st)) \<and>
     (\<forall>c b. blocks st c = Some b \<longrightarrow> block_ok st c b) \<and>
     (\<forall>p. distinct (queue st p) \<and> set (queue st p) = free_in st p) \<and>
     allocatedBlocks st = int (card (held st))"

text \<open>What an operation on blocks leaves alone.\<close>

definition frame :: "'d GlobalIPAM \<Rightarrow> 'd GlobalIPAM" where
  "frame st = st\<lparr>blocks := Map.empty, freeBlocks := Map.empty, allocatedBlocks := 0\<rparr>"

section \<open>Taking and returning a block\<close>

definition take_block :: "string \<Rightarrow> string \<Rightarrow> int \<Rightarrow> string list \<Rightarrow> Block27 \<Rightarrow> 'd GlobalIPAM \<Rightarrow> 'd GlobalIPAM" where
  "take_block t c p q b st = st\<lparr>freeBlocks := (freeBlocks st)(p \<mapsto> q),
     blocks := (blocks st)(c \<mapsto> b\<lparr>bTenantID := t, bAllocated := True\<rparr>),
     allocatedBlocks := allocatedBlocks st + 1\<rparr>"

definition return_block :: "string \<Rightarrow> Block27 \<Rightarrow> string list \<Rightarrow> 'd GlobalIPAM \<Rightarrow> 'd GlobalIPAM" where
  "return_block c b q st = st\<lparr>freeBlocks := (freeBlocks st)(bPoolIndex b \<mapsto> q @ [c]),
     blocks := (blocks st)(c \<mapsto> b\<lparr>bTenantID := [], bAllocated := False\<rparr>),
     allocatedBlocks := allocatedBlocks st - 1\<rparr>"

lemma block_invD:
  assumes "block_inv st"
  shows "finite (dom (blocks st))"
    and "blocks st c = Some b \<Longrightarrow> block_ok st c b"
    and "distinct (queue st p)" and "set (queue st p) = free_in st p"
    and "allocatedBlocks st = int (card (held st))"
  using assms by (simp_all add: block_inv_def)

lemma held_finite: "block_inv st \<Longrightarrow> finite (held st)"
  by (rule finite_subset [OF _ block_invD(1)]) (auto simp: held_def)

lemma free_finite: "block_inv st \<Longrightarrow> finite (free st)"
  by (rule finite_subset [OF _ block_invD(1)]) (auto simp: free_def)

lemma queue_tail:
  assumes "block_inv st" and "freeBlocks st p = Some (q @ [c])"
  obtains b where "blocks st c = Some b" "\<not> bAllocated b" "bPoolIndex b = p" "c \<notin> set q"
proof -
  have "c \<in> set (queue st p)" using assms(2) by (simp add: queue_def)
  then have "c \<in> free_in st p" using block_invD(4) [OF assms(1)] by simp
  moreover have "c \<notin> set q" using block_invD(3) [OF assms(1), of p] assms(2) by (simp add: queue_def)
  ultimately show thesis using that by (auto simp: free_in_def)
qed

lemma take_block_inv:
  assumes "block_inv st" and "freeBlocks st p = Some q'" and "blocks st c = Some b"
    and "\<not> bAllocated b" and "bPoolIndex b = p" and "distinct q" and "set q = set q' - {c}"
  shows "block_inv (take_block t c p q b st)"
proof -
  let ?st = "take_block t c p q b st"
  have ok: "block_ok st c' b'" if "blocks st c' = Some b'" for c' b'
    by (rule block_invD(2) [OF assms(1) that])
  have "block_ok ?st c' b'" if "blocks ?st c' = Some b'" for c' b'
    using that ok [of c' b'] ok [OF assms(3)]
    by (auto simp: take_block_def block_ok_def split: if_splits)
  moreover have "distinct (queue ?st p') \<and> set (queue ?st p') = free_in ?st p'" for p'
  proof (cases "p' = p")
    case True
    have "set q = free_in st p - {c}"
      using block_invD(4) [OF assms(1), of p] assms(2,7) by (simp add: queue_def)
    moreover have "free_in ?st p = free_in st p - {c}"
      by (auto simp: free_in_def take_block_def split: if_splits)
    ultimately show ?thesis using True assms(6) by (simp add: queue_def take_block_def)
  next
    case False
    have "free_in ?st p' = free_in st p'"
      using False assms(3,5) by (auto simp: free_in_def take_block_def split: if_splits)
    then show ?thesis
      using False block_invD(3,4) [OF assms(1), of p'] by (simp add: queue_def take_block_def)
  qed
  moreover have "held ?st = insert c (held st)" "c \<notin> held st"
    using assms(3,4) by (auto simp: held_def take_block_def)
  then have "allocatedBlocks ?st = int (card (held ?st))"
    using block_invD(5) [OF assms(1)] held_finite [OF assms(1)] by (simp add: take_block_def)
  moreover have "finite (dom (blocks ?st))" using block_invD(1) [OF assms(1)] by (simp add: take_block_def)
  ultimately show ?thesis unfolding block_inv_def by blast
qed

lemma return_block_inv:
  assumes "block_inv st" and "blocks st c = Some b" and "bAllocated b"
    and "freeBlocks st (bPoolIndex b) = Some q"
  shows "block_inv (return_block c b q st)"
proof -
  let ?st = "return_block c b q st"
  have ok: "block_ok st c' b'" if "blocks st c' = Some b'" for c' b'
    by (rule block_invD(2) [OF assms(1) that])
  have "block_ok ?st c' b'" if "blocks ?st c' = Some b'" for c' b'
    using that ok [of c' b'] ok [OF assms(2)]
    by (auto simp: return_block_def block_ok_def split: if_splits)
  moreover have "distinct (queue ?st p') \<and> set (queue ?st p') = free_in ?st p'" for p'
  proof (cases "p' = bPoolIndex b")
    case True
    have "set q = free_in st p'" "distinct q"
      using block_invD(3,4) [OF assms(1), of p'] assms(4) True by (simp_all add: queue_def)
    moreover have "free_in ?st p' = insert c (free_in st p')" "c \<notin> free_in st p'"
      using True assms(2,3) by (auto simp: free_in_def return_block_def split: if_splits)
    ultimately show ?thesis using True by (auto simp: queue_def return_block_def)
  next
    case False
    have "free_in ?st p' = free_in st p'"
      using False assms(2,3) by (auto simp: free_in_def return_block_def split: if_splits)
    then show ?thesis
      using False block_invD(3,4) [OF assms(1), of p'] by (simp add: queue_def return_block_def)
  qed
  moreover have "held ?st = held st - {c}" "c \<in> held st"
    using assms(2,3) by (auto simp: held_def return_block_def)
  then have "allocatedBlocks ?st = int (card (held ?st))"
    using block_invD(5) [OF assms(1)] card_Suc_Diff1 [OF held_finite [OF assms(1)], of c]
    by (simp add: return_block_def)
  moreover have "finite (dom (blocks ?st))" using block_invD(1) [OF assms(1)] by (simp add: return_block_def)
  ultimately show ?thesis unfolding block_inv_def by blast
qed

lemma releaseBlock_return:
  assumes "block_inv st" and "blocks st c = Some b"
  obtains q where "freeBlocks st (bPoolIndex b) = Some q"
    "releaseBlock None c st = (Inr (), return_block c b q st)"
proof -
  have "freeBlocks st (bPoolIndex b) \<noteq> None"
    using block_invD(2) [OF assms] by (simp add: block_ok_def)
  then obtain q where "freeBlocks st (bPoolIndex b) = Some q" by auto
  then show thesis
    using assms(2) that by (simp add: releaseBlock_def return_block_def enqueue_def getFreeBlockQueue_def)
qed

definition freed :: "Block27 \<Rightarrow> Block27" where
  "freed b = b\<lparr>bTenantID := [], bAllocated := False\<rparr>"

definition given :: "string \<Rightarrow> Block27 \<Rightarrow> Block27" where
  "given t b = b\<lparr>bTenantID := t, bAllocated := True\<rparr>"

text \<open>The map with \<open>f\<close> applied to the blocks named in \<open>cs\<close>.\<close>

definition upd_blocks :: "(Block27 \<Rightarrow> Block27) \<Rightarrow> string list \<Rightarrow> (string \<Rightarrow> Block27 option) \<Rightarrow> string \<Rightarrow> Block27 option" where
  "upd_blocks f cs m = (\<lambda>c. if c \<in> set cs then map_option f (m c) else m c)"

lemma release_all_spec:
  assumes "block_inv st" and "distinct cs" and "set cs \<subseteq> held st"
  shows "block_inv (release_all None cs st) \<and>
    blocks (release_all None cs st) = upd_blocks freed cs (blocks st) \<and>
    frame (release_all None cs st) = frame st \<and>
    dom (freeBlocks (release_all None cs st)) = dom (freeBlocks st)"
  using assms
proof (induction cs arbitrary: st)
  case Nil
  then show ?case by (simp add: release_all_def upd_blocks_def)
next
  case (Cons c cs)
  obtain b where b: "blocks st c = Some b" "bAllocated b" using Cons.prems(3) by (auto simp: held_def)
  obtain q where q: "freeBlocks st (bPoolIndex b) = Some q"
    "releaseBlock None c st = (Inr (), return_block c b q st)"
    by (rule releaseBlock_return [OF Cons.prems(1) b(1)])
  let ?st = "return_block c b q st"
  have rest: "release_all None (c # cs) st = release_all None cs ?st"
    using q by (simp add: release_all_def)
  have "block_inv ?st" by (rule return_block_inv [OF Cons.prems(1) b q(1)])
  moreover have "set cs \<subseteq> held ?st"
    using Cons.prems(2,3) by (auto simp: held_def return_block_def)
  moreover have "upd_blocks freed cs (blocks ?st) = upd_blocks freed (c # cs) (blocks st)"
    using Cons.prems(2) b(1) by (auto simp: upd_blocks_def return_block_def freed_def)
  moreover have "frame ?st = frame st" by (simp add: frame_def return_block_def)
  moreover have "dom (freeBlocks ?st) = dom (freeBlocks st)" using q(1) by (auto simp: return_block_def)
  ultimately show ?case using Cons.IH [of ?st] Cons.prems(2) unfolding rest by simp
qed

section \<open>The allocation loop\<close>

text \<open>
  The state inside the loop, relative to the state \<open>st0\<close> at its start: the blocks named in \<open>al\<close>
  were free and are now the tenant's, nothing else has changed.
\<close>

definition loop_inv :: "string \<Rightarrow> 'd GlobalIPAM \<Rightarrow> IPNet list \<Rightarrow> string list \<Rightarrow> 'd GlobalIPAM \<Rightarrow> bool" where
  "loop_inv t st0 ns al st \<longleftrightarrow> block_inv st \<and> distinct al \<and> set al \<subseteq> free st0 \<and>
     ns = map (\<lambda>c. bNetwork (the (blocks st0 c))) al \<and>
     blocks st = upd_blocks (given t) al (blocks st0) \<and> frame st = frame st0 \<and>
     dom (freeBlocks st) = dom (freeBlocks st0)"

lemma loop_inv_init: "block_inv st \<Longrightarrow> loop_inv t st [] [] st"
  by (simp add: loop_inv_def upd_blocks_def)

lemma loop_inv_give:
  assumes "loop_inv t st0 ns al st" and "freeBlocks st p = Some q'" and "blocks st c = Some b"
    and "\<not> bAllocated b" and "bPoolIndex b = p" and "distinct q" and "set q = set q' - {c}"
  shows "loop_inv t st0 (ns @ [bNetwork b]) (al @ [c]) (take_block t c p q b st)"
proof -
  have inv: "block_inv st" and al: "distinct al" "set al \<subseteq> free st0"
    and bl: "blocks st = upd_blocks (given t) al (blocks st0)"
    using assms(1) by (simp_all add: loop_inv_def)
  have notin: "c \<notin> set al"
    using assms(3,4) bl by (auto simp: upd_blocks_def given_def)
  then have b0: "blocks st0 c = Some b" using assms(3) bl by (simp add: upd_blocks_def)
  have "block_inv (take_block t c p q b st)"
    by (rule take_block_inv [OF inv assms(2-7)])
  moreover have "blocks (take_block t c p q b st) = upd_blocks (given t) (al @ [c]) (blocks st0)"
    using bl b0 notin by (auto simp: take_block_def upd_blocks_def given_def fun_eq_iff)
  moreover have "dom (freeBlocks (take_block t c p q b st)) = dom (freeBlocks st)"
    using assms(2) by (auto simp: take_block_def)
  moreover have "frame (take_block t c p q b st) = frame st" by (simp add: frame_def take_block_def)
  moreover have "c \<in> free st0" using b0 assms(4) by (simp add: free_def)
  ultimately show ?thesis
    using assms(1) al notin b0 unfolding loop_inv_def by simp
qed

lemma loop_inv_take:
  assumes "loop_inv t st0 ns al st" and "freeBlocks st p = Some (q @ [c])"
  obtains b where "mark t c (ns, al, st\<lparr>freeBlocks := (freeBlocks st)(p \<mapsto> q)\<rparr>) =
      (ns @ [bNetwork b], al @ [c], take_block t c p q b st)"
    "loop_inv t st0 (ns @ [bNetwork b]) (al @ [c]) (take_block t c p q b st)"
proof -
  have inv: "block_inv st" using assms(1) by (simp add: loop_inv_def)
  obtain b where b: "blocks st c = Some b" "\<not> bAllocated b" "bPoolIndex b = p" "c \<notin> set q"
    by (rule queue_tail [OF inv assms(2)])
  have "distinct q" using block_invD(3) [OF inv, of p] assms(2) by (simp add: queue_def)
  moreover have "set q = set (q @ [c]) - {c}" using b(4) by auto
  ultimately have "loop_inv t st0 (ns @ [bNetwork b]) (al @ [c]) (take_block t c p q b st)"
    by (rule loop_inv_give [OF assms b(1-3)])
  moreover have "mark t c (ns, al, st\<lparr>freeBlocks := (freeBlocks st)(p \<mapsto> q)\<rparr>) =
      (ns @ [bNetwork b], al @ [c], take_block t c p q b st)"
    using b(1) by (simp add: mark_def take_block_def)
  ultimately show thesis using that by blast
qed

lemma loop_inv_free: "loop_inv t st0 ns al st \<Longrightarrow> free st = free st0 - set al"
  by (auto simp: loop_inv_def free_def upd_blocks_def given_def split: if_splits)

lemma loop_inv_release:
  assumes "loop_inv t st0 ns al st" and "block_inv st0"
  shows "block_inv (release_all None al st) \<and> blocks (release_all None al st) = blocks st0 \<and>
    frame (release_all None al st) = frame st0 \<and>
    dom (freeBlocks (release_all None al st)) = dom (freeBlocks st0)"
proof -
  have l: "block_inv st" "distinct al" "set al \<subseteq> free st0"
    "blocks st = upd_blocks (given t) al (blocks st0)" "frame st = frame st0"
    "dom (freeBlocks st) = dom (freeBlocks st0)"
    using assms(1) by (simp_all add: loop_inv_def)
  have "set al \<subseteq> held st" using l(3) unfolding l(4) held_def
    by (auto simp: l(4) upd_blocks_def given_def free_def)
  note r = release_all_spec [OF l(1,2) this]
  have "upd_blocks freed al (upd_blocks (given t) al (blocks st0)) c = blocks st0 c" for c
  proof (cases "c \<in> set al")
    case True
    then obtain b where b: "blocks st0 c = Some b" "\<not> bAllocated b" using l(3) by (auto simp: free_def)
    then have "bTenantID b = []" using block_invD(2) [OF assms(2) b(1)] by (simp add: block_ok_def)
    then have "freed (given t b) = b" using b(2) by (simp add: freed_def given_def)
    then show ?thesis using True b(1) by (simp add: upd_blocks_def)
  qed (simp add: upd_blocks_def)
  then show ?thesis using r l(4-6) by (simp add: fun_eq_iff)
qed

end
