(* ===== verification/Ipam_Tenants.thy ===== *)
theory Ipam_Tenants
  imports Ipam_Blocks
begin

text \<open>
  The tenants of the address manager in the single-core mode: the outcome of the allocation loop,
  the invariant of allocations, blocks and cache, and that \<open>AllocateTenant\<close>, \<open>ExpandTenant\<close> and
  \<open>ReleaseTenant\<close> keep it.
\<close>

declare allocate_loop.simps [simp del]

lemma popFreeBlock_None:
  "popFreeBlock None p st = (case freeBlocks st p of
      None \<Rightarrow> (Inl (PoolNotFound p), st)
    | Some q \<Rightarrow> if q = [] then (Inl (PoolEmpty p), st)
        else (Inr (last q), st\<lparr>freeBlocks := (freeBlocks st)(p \<mapsto> butlast q)\<rparr>))"
  by (simp add: popFreeBlock_def getFreeBlockQueue_def)

lemma in_remove_at: "i < length xs \<Longrightarrow> x \<in> set xs \<Longrightarrow> x \<noteq> xs ! i \<Longrightarrow> x \<in> set (remove_at i xs)"
  using nth_drop_split [of i xs] by (metis Un_iff remove_at_def set_ConsD set_append)

definition alloc_post ::
  "string \<Rightarrow> 'd GlobalIPAM \<Rightarrow> int \<Rightarrow> (ipam_error + IPNet list) \<times> 'd GlobalIPAM \<Rightarrow> bool" where
  "alloc_post t st0 n = (\<lambda>(r, st). case r of
     Inr ns \<Rightarrow> (\<exists>al. loop_inv t st0 ns al st) \<and> int (length ns) = n
   | Inl e \<Rightarrow> e = NoFreeBlocks (card (free st0)) n \<and> int (card (free st0)) < n \<and> block_inv st \<and>
       blocks st = blocks st0 \<and> frame st = frame st0 \<and> dom (freeBlocks st) = dom (freeBlocks st0))"

lemma free_none:
  assumes "block_inv st" and "\<And>p. queue st p = []"
  shows "free st = {}"
proof -
  have "free_in st p = {}" for p using block_invD(4) [OF assms(1), of p] assms(2) by simp
  then show ?thesis by (auto simp: free_def free_in_def)
qed

lemma allocate_loop_post:
  assumes "loop_inv t st0 ns al st" and "block_inv st0" and "int (length ns) \<le> n"
    and "\<And>p. p \<notin> set ps \<Longrightarrow> queue st p = []"
  shows "alloc_post t st0 n (allocate_loop None t n ps i ns al st)"
  using assms
proof (induction "loop_measure ps st" arbitrary: ns al st ps i rule: less_induct)
  case less
  note step = allocate_loop.simps [of None t n ps i ns al st]
  have inv: "block_inv st" and len: "length ns = length al" and al: "distinct al" "set al \<subseteq> free st0"
    using less.prems(1) by (simp_all add: loop_inv_def)
  consider (enough) "n \<le> int (length ns)" | (none) "\<not> n \<le> int (length ns)" "ps = []"
    | (go) "\<not> n \<le> int (length ns)" "ps \<noteq> []" by blast
  then show ?case
  proof cases
    case enough
    then have "allocate_loop None t n ps i ns al st = (Inr ns, st)" by (subst step) simp
    with enough less.prems(1,3) show ?thesis by (auto simp: alloc_post_def)
  next
    case none
    have "free st = {}" by (rule free_none [OF inv]) (use less.prems(4) none in simp)
    then have "free st0 = set al" using loop_inv_free [OF less.prems(1)] al(2) by blast
    then have "card (free st0) = length ns" using al(1) len by (simp add: distinct_card)
    moreover have "allocate_loop None t n ps i ns al st =
        (Inl (NoFreeBlocks (length ns) n), release_all None al st)"
      using none by (subst step) simp
    ultimately show ?thesis
      using none loop_inv_release [OF less.prems(1,2)] by (simp add: alloc_post_def)
  next
    case go
    let ?j = "i mod length ps"
    let ?p = "ps ! ?j"
    have j: "?j < length ps" using go by simp
    show ?thesis
    proof (cases "queue st ?p = []")
      case True
      have call: "allocate_loop None t n ps i ns al st =
          allocate_loop None t n (remove_at ?j ps) i ns al st"
        using go True by (subst step) (auto simp: popFreeBlock_None queue_def Let_def split: option.splits)
      have "queue st p = []" if "p \<notin> set (remove_at ?j ps)" for p
        using less.prems(4) [of p] in_remove_at [OF j, of p] that True by (cases "p = ?p") auto
      then show ?thesis unfolding call
        by (rule less.hyps [OF loop_drop [OF go(2) refl] less.prems(1-3)])
    next
      case False
      then obtain q where "freeBlocks st ?p = Some q" "q \<noteq> []" by (auto simp: queue_def split: option.splits)
      then obtain q c where q: "freeBlocks st ?p = Some (q @ [c])" by (metis append_butlast_last_id)
      obtain b where b: "mark t c (ns, al, st\<lparr>freeBlocks := (freeBlocks st)(?p \<mapsto> q)\<rparr>) =
          (ns @ [bNetwork b], al @ [c], take_block t c ?p q b st)"
        "loop_inv t st0 (ns @ [bNetwork b]) (al @ [c]) (take_block t c ?p q b st)"
        by (rule loop_inv_take [OF less.prems(1) q])
      have call: "allocate_loop None t n ps i ns al st =
          allocate_loop None t n ps (Suc i) (ns @ [bNetwork b]) (al @ [c]) (take_block t c ?p q b st)"
        using go q b(1) by (subst step) (simp add: popFreeBlock_None Let_def)
      have "loop_measure ps (take_block t c ?p q b st) < loop_measure ps st"
        using j q by (intro loop_pop) (simp_all add: take_block_def)
      moreover have "queue (take_block t c ?p q b st) p = []" if "p \<notin> set ps" for p
        using less.prems(4) [OF that] that nth_mem [OF j] by (auto simp: queue_def take_block_def)
      ultimately show ?thesis unfolding call
        using less.prems(2) go(1) b(2) by (intro less.hyps) simp_all
    qed
  qed
qed

lemma allocateBlocks_post:
  assumes "block_inv st" and "0 \<le> n" and "set ps = dom (freeBlocks st)"
  shows "alloc_post t st n (allocateBlocks None ps t n st)"
  unfolding allocateBlocks_def using assms
  by (auto intro!: allocate_loop_post loop_inv_init simp: queue_def domIff split: option.split)

section \<open>Tenants\<close>

definition cached :: "(string \<Rightarrow> TenantAllocation option) \<Rightarrow> string \<Rightarrow> TenantAllocation gval option" where
  "cached m t = map_option GObj (m t)"

definition tenant_ok :: "'d GlobalIPAM \<Rightarrow> string \<Rightarrow> TenantAllocation \<Rightarrow> bool" where
  "tenant_ok st t al \<longleftrightarrow> taTenantID al = t \<and> distinct (taNetworks al) \<and>
     set (taNetworks al) = owned st t \<and> taBlockCount al = length (taNetworks al) \<and>
     taServerIPs al = map getFirstUsableIP (taNetworks al)"

definition ipam_inv :: "'d GlobalIPAM \<Rightarrow> bool" where
  "ipam_inv st \<longleftrightarrow> block_inv st \<and>
     (\<forall>t al. tenants st t = Some al \<longrightarrow> tenant_ok st t al) \<and>
     (\<forall>t. tenants st t = None \<longrightarrow> owned st t = {}) \<and>
     finite (dom (tenants st)) \<and> totalTenants st = int (card (dom (tenants st))) \<and>
     totalBlocks st = int (card (dom (blocks st))) \<and>
     lru.coherent (cached (tenants st)) (ipam_cache st)"

lemma dom_upd_blocks [simp]: "dom (upd_blocks f cs m) = dom m"
  by (auto simp: upd_blocks_def split: if_splits)

lemma owned_given:
  assumes "loop_inv t st0 ns al st"
  shows "owned st u = owned st0 u \<union> (if u = t then set ns else {})"
proof -
  have l: "set al \<subseteq> free st0" "ns = map (\<lambda>c. bNetwork (the (blocks st0 c))) al"
    "blocks st = upd_blocks (given t) al (blocks st0)"
    using assms by (simp_all add: loop_inv_def)
  have al: "\<exists>b. blocks st0 c = Some b \<and> \<not> bAllocated b" if "c \<in> set al" for c
    using l(1) that by (auto simp: free_def)
  have look: "blocks st c = Some b \<longleftrightarrow> c \<notin> set al \<and> blocks st0 c = Some b \<or>
      c \<in> set al \<and> (\<exists>b0. blocks st0 c = Some b0 \<and> b = given t b0)" for c b
    unfolding l(3) upd_blocks_def by auto
  show ?thesis (is "?l = ?r")
  proof (rule set_eqI)
    fix n
    have "n \<in> ?l \<longleftrightarrow> (\<exists>c b. blocks st c = Some b \<and> bAllocated b \<and> bTenantID b = u \<and> n = bNetwork b)"
      by (simp add: owned_def)
    also have "\<dots> \<longleftrightarrow> (\<exists>c b. c \<notin> set al \<and> blocks st0 c = Some b \<and> bAllocated b \<and> bTenantID b = u \<and> n = bNetwork b) \<or>
        (\<exists>c b. c \<in> set al \<and> blocks st0 c = Some b \<and> u = t \<and> n = bNetwork b)"
      unfolding look
    proof (intro iffI, goal_cases)
      case 2
      then show ?case
      proof
        assume "\<exists>c b. c \<in> set al \<and> blocks st0 c = Some b \<and> u = t \<and> n = bNetwork b"
        then obtain c b where "c \<in> set al" "blocks st0 c = Some b" "u = t" "n = bNetwork b" by blast
        then show ?case by (intro exI [of _ c] exI [of _ "given t b"]) (simp add: given_def)
      qed blast
    qed (auto simp: given_def)
    also have "(\<exists>c b. c \<notin> set al \<and> blocks st0 c = Some b \<and> bAllocated b \<and> bTenantID b = u \<and> n = bNetwork b) \<longleftrightarrow>
        n \<in> owned st0 u"
      using al unfolding owned_def by fastforce
    also have "(\<exists>c b. c \<in> set al \<and> blocks st0 c = Some b \<and> u = t \<and> n = bNetwork b) \<longleftrightarrow>
        n \<in> (if u = t then set ns else {})"
      using al unfolding l(2) by force
    finally show "n \<in> ?l \<longleftrightarrow> n \<in> ?r" by simp
  qed
qed

lemma given_fresh:
  assumes "loop_inv t st0 ns al st" and "block_inv st0"
  shows "distinct ns" and "set ns \<inter> owned st0 u = {}"
proof -
  have l: "distinct al" "set al \<subseteq> free st0" "ns = map (\<lambda>c. bNetwork (the (blocks st0 c))) al"
    using assms(1) by (simp_all add: loop_inv_def)
  have nm: "\<exists>b. blocks st0 c = Some b \<and> \<not> bAllocated b \<and> IPNet_String (bNetwork b) = c" if c: "c \<in> set al" for c
  proof -
    obtain b where "blocks st0 c = Some b" "\<not> bAllocated b"
      using subsetD [OF l(2) c] by (auto simp: free_def)
    then show ?thesis using block_invD(2) [OF assms(2)] by (auto simp: block_ok_def)
  qed
  have "IPNet_String (bNetwork (the (blocks st0 c))) = c" if "c \<in> set al" for c
    using nm [OF that] by auto
  then have "map IPNet_String ns = al" unfolding l(3) by (simp add: comp_def map_idI)
  then show "distinct ns" using l(1) distinct_map by metis
  show "set ns \<inter> owned st0 u = {}"
  proof (rule ccontr)
    assume "set ns \<inter> owned st0 u \<noteq> {}"
    then obtain c b c' b' where "c \<in> set al" "blocks st0 c = Some b" "\<not> bAllocated b"
      "blocks st0 c' = Some b'" "bAllocated b'" "bNetwork b = bNetwork b'"
      using nm unfolding l(3) owned_def by force
    moreover from this have "c = c'"
      using block_invD(2) [OF assms(2)] unfolding block_ok_def by metis
    ultimately show False by simp
  qed
qed

lemma frame_fields:
  assumes "frame st = frame st'"
  shows "tenants st = tenants st'" "ipam_cache st = ipam_cache st'" "totalTenants st = totalTenants st'"
    "pools st = pools st'" "totalBlocks st = totalBlocks st'" "totalExpansions st = totalExpansions st'"
    "pending st = pending st'" "db st = db st'"
  using assms by (cases st, cases st', simp add: frame_def)+

lemma ipam_invD:
  assumes "ipam_inv st"
  shows "block_inv st" and "tenants st t = Some al \<Longrightarrow> tenant_ok st t al"
    and "tenants st t = None \<Longrightarrow> owned st t = {}"
    and "finite (dom (tenants st))" and "totalTenants st = int (card (dom (tenants st)))"
    and "lru.coherent (cached (tenants st)) (ipam_cache st)"
    and "totalBlocks st = int (card (dom (blocks st)))"
  using assms unfolding ipam_inv_def by simp_all

lemma block_inv_frame [simp]:
  "block_inv (st\<lparr>tenants := m\<rparr>) = block_inv st" "block_inv (st\<lparr>ipam_cache := c\<rparr>) = block_inv st"
  "block_inv (st\<lparr>totalTenants := k\<rparr>) = block_inv st" "block_inv (st\<lparr>totalExpansions := k\<rparr>) = block_inv st"
  by (simp_all add: block_inv_def block_ok_def queue_def free_in_def held_def)

lemma owned_frame [simp]:
  "owned (st\<lparr>tenants := m\<rparr>) = owned st" "owned (st\<lparr>ipam_cache := c\<rparr>) = owned st"
  "owned (st\<lparr>totalTenants := k\<rparr>) = owned st" "owned (st\<lparr>totalExpansions := k\<rparr>) = owned st"
  by (simp_all add: owned_def fun_eq_iff)

lemma owned_same: "blocks st = blocks st' \<Longrightarrow> owned st = owned st'"
  by (simp add: owned_def fun_eq_iff)

lemma tenant_ok_frame:
  "owned st t = owned st' t \<Longrightarrow> tenant_ok st t al = tenant_ok st' t al"
  by (simp add: tenant_ok_def)

lemma cached_upd: "cached (m(t \<mapsto> al)) = (cached m)(t \<mapsto> GObj al)" "cached (m(t := None)) = (cached m)(t := None)"
  by (auto simp: cached_def fun_eq_iff)

lemma coherent_store:
  assumes "lru.coherent (cached m) c"
  shows "lru.coherent (cached (m(t \<mapsto> al))) (Set c t (GObj al) now)"
  unfolding cached_upd Set_def by (rule lru.coherent_set [OF assms])

text \<open>A failed operation on blocks leaves a state with the same blocks, tenants and cache.\<close>

lemma ipam_inv_same:
  assumes "ipam_inv st0" and "block_inv st" and "blocks st = blocks st0" and "frame st = frame st0"
  shows "ipam_inv st"
proof -
  note f = frame_fields [OF assms(4)] and o = owned_same [OF assms(3)]
  show ?thesis
    unfolding ipam_inv_def f o assms(3) using ipam_invD [OF assms(1)] assms(2)
    by (auto simp: tenant_ok_frame [of st _ st0] o)
qed

text \<open>
  The tenant \<open>t\<close> has been given the blocks \<open>ns\<close> and is stored with its new allocation.
\<close>

lemma ipam_inv_store:
  assumes "ipam_inv st0" and "loop_inv t st0 ns cs st"
    and "taTenantID al = t" "taNetworks al = old @ ns" "taBlockCount al = length (old @ ns)"
      "taServerIPs al = map getFirstUsableIP (old @ ns)"
    and "distinct old" and "set old = owned st0 t"
    and "k = totalTenants st + (if tenants st0 t = None then 1 else 0)"
  shows "ipam_inv ((store_tenant t al now st)\<lparr>totalTenants := k\<rparr>)"
proof -
  let ?st = "(store_tenant t al now st)\<lparr>totalTenants := k\<rparr>"
  have inv: "block_inv st" and fr: "frame st = frame st0" using assms(2) by (simp_all add: loop_inv_def)
  note f = frame_fields [OF fr] and i = ipam_invD [OF assms(1)]
  have o: "owned ?st u = owned st0 u \<union> (if u = t then set ns else {})" for u
    using owned_given [OF assms(2)] by (simp add: store_tenant_def cache_store_def)
  have t: "tenants ?st = (tenants st0)(t \<mapsto> al)" by (simp add: store_tenant_def cache_store_def f)
  have "tenant_ok ?st u al'" if "tenants ?st u = Some al'" for u al'
  proof (cases "u = t")
    case True
    then show ?thesis using that assms(3-8) given_fresh [OF assms(2) i(1)] o [of u]
      by (auto simp: t tenant_ok_def)
  next
    case False
    then show ?thesis using that i(2) [of u al'] o [of u] by (simp add: t tenant_ok_def)
  qed
  moreover have "owned ?st u = {}" if "tenants ?st u = None" for u
    using that i(3) [of u] o [of u] by (auto simp: t split: if_splits)
  moreover have "totalTenants ?st = int (card (dom (tenants ?st)))"
    unfolding t using i(4,5) assms(9) by (auto simp: f card_insert_if domIff insert_absorb)
  moreover have "lru.coherent (cached (tenants ?st)) (ipam_cache ?st)"
    unfolding t using coherent_store [OF i(6)] by (simp add: store_tenant_def cache_store_def f)
  moreover have "block_inv ?st" using inv by (simp add: store_tenant_def cache_store_def)
  moreover have "finite (dom (tenants ?st))" using i(4) by (simp add: t)
  moreover have "totalBlocks ?st = int (card (dom (blocks ?st)))"
    using i(7) assms(2) by (simp add: store_tenant_def cache_store_def f loop_inv_def)
  ultimately show ?thesis unfolding ipam_inv_def by blast
qed

lemma totalTenants_store [simp]: "totalTenants (store_tenant t al now st) = totalTenants st"
  by (simp add: store_tenant_def cache_store_def)

lemma AllocateTenant_inv:
  assumes "ipam_inv st" and "set ps = dom (freeBlocks st)"
  shows "ipam_inv (snd (AllocateTenant None ps t n now st))"
proof (cases "tenants st t")
  case None
  let ?n = "if n < 1 then 1 else n"
  obtain r st1 where a: "allocateBlocks None ps t ?n st = (r, st1)" by force
  have post: "alloc_post t st ?n (r, st1)"
    using allocateBlocks_post [OF ipam_invD(1) [OF assms(1)] _ assms(2), of ?n t] a by simp
  show ?thesis
  proof (cases r)
    case (Inl e)
    then have "ipam_inv st1" using post by (auto simp: alloc_post_def intro: ipam_inv_same [OF assms(1)])
    then show ?thesis using None a Inl by (simp add: AllocateTenant_def del: if_split)
  next
    case (Inr ns)
    obtain cs where l: "loop_inv t st ns cs st1" using post Inr by (auto simp: alloc_post_def)
    have "owned st t = {}" using ipam_invD(3) [OF assms(1) None] .
    then show ?thesis using None a Inr ipam_inv_store [OF assms(1) l, of _ "[]"]
      by (simp add: AllocateTenant_def Let_def del: if_split)
  qed
qed (simp add: AllocateTenant_def assms(1))

lemma ExpandTenant_inv:
  assumes "ipam_inv st" and "set ps = dom (freeBlocks st)"
  shows "ipam_inv (snd (ExpandTenant None ps t n now st))"
proof (cases "tenants st t")
  case (Some al)
  note ok = ipam_invD(2) [OF assms(1) Some]
  show ?thesis
  proof (cases "0 \<le> n")
    case True
    obtain r st1 where a: "allocateBlocks None ps t n st = (r, st1)" by force
    have post: "alloc_post t st n (r, st1)"
      using allocateBlocks_post [OF ipam_invD(1) [OF assms(1)] True assms(2), of t] a by simp
    show ?thesis
    proof (cases r)
      case (Inl e)
      then have "ipam_inv st1" using post by (auto simp: alloc_post_def intro: ipam_inv_same [OF assms(1)])
      then show ?thesis using Some a Inl by (simp add: ExpandTenant_def)
    next
      case (Inr ns)
      obtain cs where l: "loop_inv t st ns cs st1" using post Inr by (auto simp: alloc_post_def)
      let ?al = "al\<lparr>taNetworks := taNetworks al @ ns, taBlockCount := length (taNetworks al @ ns),
        taUpdatedAt := now, taServerIPs := taServerIPs al @ map getFirstUsableIP ns\<rparr>"
      have "ipam_inv ((store_tenant t ?al now st1)\<lparr>totalTenants := totalTenants st1\<rparr>)"
        by (rule ipam_inv_store [OF assms(1) l, of _ "taNetworks al"])
          (use ok Some in \<open>simp_all add: tenant_ok_def\<close>)
      then have "ipam_inv (store_tenant t ?al now st1)"
        by (simp add: store_tenant_def cache_store_def)
      moreover have "ipam_inv (s\<lparr>totalExpansions := k\<rparr>) = ipam_inv s" for s :: "'a GlobalIPAM" and k
        by (simp add: ipam_inv_def tenant_ok_def)
      ultimately show ?thesis using Some a Inr by (simp add: ExpandTenant_def Let_def)
    qed
  qed (simp add: ExpandTenant_def allocateBlocks_def Some assms(1))
qed (simp add: ExpandTenant_def assms(1))

lemma block_by_name:
  assumes "block_inv st" and "n \<in> owned st t"
  obtains b where "blocks st (IPNet_String n) = Some b" "bAllocated b" "bTenantID b = t" "bNetwork b = n"
proof -
  obtain c b where b: "blocks st c = Some b" "bAllocated b" "bTenantID b = t" "n = bNetwork b"
    using assms(2) by (auto simp: owned_def)
  then have "c = IPNet_String n" using block_invD(2) [OF assms(1) b(1)] by (simp add: block_ok_def)
  with b that show thesis by simp
qed

lemma owned_net27: "block_inv st \<Longrightarrow> n \<in> owned st t \<Longrightarrow> net27 n"
  using block_invD(2) by (fastforce simp: owned_def block_ok_def)

lemma owned_freed:
  assumes "block_inv st" and "blocks st' = upd_blocks freed (map IPNet_String ns) (blocks st)"
    and "set ns = owned st t"
  shows "owned st' u = (if u = t then {} else owned st u)"
proof -
  have look: "blocks st' c = Some b \<and> bAllocated b \<longleftrightarrow>
      c \<notin> IPNet_String ` owned st t \<and> blocks st c = Some b \<and> bAllocated b" for c b
    unfolding assms(2) upd_blocks_def using assms(3) by (auto simp: freed_def)
  have mine: "c \<in> IPNet_String ` owned st t \<longleftrightarrow> bTenantID b = t"
    if "blocks st c = Some b" "bAllocated b" for c b
  proof
    assume "c \<in> IPNet_String ` owned st t"
    then obtain n where n: "n \<in> owned st t" "c = IPNet_String n" by blast
    obtain b' where "blocks st (IPNet_String n) = Some b'" "bTenantID b' = t"
      by (rule block_by_name [OF assms(1) n(1)])
    with n(2) that(1) show "bTenantID b = t" by simp
  next
    assume "bTenantID b = t"
    then have "bNetwork b \<in> owned st t" using that by (auto simp: owned_def)
    moreover have "c = IPNet_String (bNetwork b)"
      using block_invD(2) [OF assms(1) that(1)] by (simp add: block_ok_def)
    ultimately show "c \<in> IPNet_String ` owned st t" by blast
  qed
  have "owned st' u = {n. \<exists>c b. (blocks st' c = Some b \<and> bAllocated b) \<and> bTenantID b = u \<and> n = bNetwork b}"
    by (auto simp: owned_def)
  also have "\<dots> = {n. \<exists>c b. blocks st c = Some b \<and> bAllocated b \<and> bTenantID b \<noteq> t \<and> bTenantID b = u \<and> n = bNetwork b}"
    unfolding look using mine by blast
  also have "\<dots> = (if u = t then {} else owned st u)" by (auto simp: owned_def)
  finally show ?thesis .
qed

lemma release_names:
  assumes "ipam_inv st" and "tenants st t = Some al"
  shows "distinct (map IPNet_String (taNetworks al))" and "set (map IPNet_String (taNetworks al)) \<subseteq> held st"
proof -
  note b = ipam_invD(1) [OF assms(1)] and ok = ipam_invD(2) [OF assms]
  have "inj_on IPNet_String (set (taNetworks al))"
    using ok owned_net27 [OF b] by (auto simp: inj_on_def tenant_ok_def IPNet_String_27_inj)
  then show "distinct (map IPNet_String (taNetworks al))"
    using ok by (simp add: distinct_map tenant_ok_def)
  show "set (map IPNet_String (taNetworks al)) \<subseteq> held st"
  proof
    fix c assume "c \<in> set (map IPNet_String (taNetworks al))"
    then obtain n where n: "n \<in> owned st t" "c = IPNet_String n" using ok by (auto simp: tenant_ok_def)
    obtain b' where "blocks st (IPNet_String n) = Some b'" "bAllocated b'"
      by (rule block_by_name [OF b n(1)])
    with n(2) show "c \<in> held st" by (simp add: held_def)
  qed
qed

lemma ReleaseTenant_effect:
  assumes "ipam_inv st" and "tenants st t = Some al"
  obtains st' where "ReleaseTenant None t st = (Inr (), st')" "ipam_inv st'"
    "tenants st' = (tenants st)(t := None)"
    "blocks st' = upd_blocks freed (map IPNet_String (taNetworks al)) (blocks st)"
proof -
  let ?cs = "map IPNet_String (taNetworks al)"
  let ?r = "release_all None ?cs st"
  let ?st = "?r\<lparr>tenants := (tenants ?r)(t := None), ipam_cache := Delete (ipam_cache ?r) t,
    totalTenants := totalTenants ?r - 1\<rparr>"
  note i = ipam_invD [OF assms(1)]
  have r: "block_inv ?r" "blocks ?r = upd_blocks freed ?cs (blocks st)" "frame ?r = frame st"
    using release_all_spec [OF i(1) release_names [OF assms]] by simp_all
  note f = frame_fields [OF r(3)]
  have "set (taNetworks al) = owned st t" using i(2) [OF assms(2)] by (simp add: tenant_ok_def)
  then have o: "owned ?r u = (if u = t then {} else owned st u)" for u
    by (rule owned_freed [OF i(1) r(2)])
  have "ipam_inv ?st"
    unfolding ipam_inv_def
  proof (intro conjI allI impI)
    show "block_inv ?st" using r(1) by simp
    show "tenant_ok ?st u al'" if "tenants ?st u = Some al'" for u al'
      using that i(2) [of u al'] o [of u] by (auto simp: f tenant_ok_def split: if_splits)
    show "owned ?st u = {}" if "tenants ?st u = None" for u
      using that i(3) [of u] o [of u] by (auto simp: f split: if_splits)
    show "finite (dom (tenants ?st))" using i(4) by (simp add: f)
    show "totalTenants ?st = int (card (dom (tenants ?st)))"
      using i(4,5) card_Suc_Diff1 [OF i(4), of t] assms(2) by (simp add: f domIff)
    show "totalBlocks ?st = int (card (dom (blocks ?st)))" using i(7) by (simp add: f r(2))
    show "lru.coherent (cached (tenants ?st)) (ipam_cache ?st)"
      using lru.coherent_delete [OF i(6)] by (simp add: f cached_upd)
  qed
  then show thesis
    using that [of ?st] assms(2) r(2) by (simp add: ReleaseTenant_def Let_def f)
qed

end
