(* ===== verification/Ipam_Pools.thy ===== *)
theory Ipam_Pools
  imports Ipam_Tenants
begin

text \<open>
  Reading and restoring allocations, and cutting pools into blocks: the addresses
  \<open>splitIntoBlocks27\<close> visits as numbers, and the store after it.
\<close>

unbundle bit_operations_syntax

section \<open>Reading an allocation\<close>

lemma GetAllocation_effect:
  assumes "ipam_inv st"
  shows "fst (GetAllocation t now st) =
      (case tenants st t of None \<Rightarrow> Inl (TenantNotFound t) | Some al \<Rightarrow> Inr al)"
    and "ipam_inv (snd (GetAllocation t now st))"
    and "\<exists>c. snd (GetAllocation t now st) = st\<lparr>ipam_cache := c\<rparr>"
proof -
  note co = ipam_invD(6) [OF assms]
  obtain x ok c where g: "Get (ipam_cache st) t now = ((x, ok), c)" by (metis prod_cases3 surj_pair)
  have c: "lru.coherent (cached (tenants st)) c"
    using lru.coherent_get [OF co, of t now] g by simp
  have inv: "ipam_inv (st\<lparr>ipam_cache := c'\<rparr>)" if "lru.coherent (cached (tenants st)) c'" for c'
    using ipam_invD [OF assms] that by (simp add: ipam_inv_def tenant_ok_def)
  have same: "lru.coherent (cached (tenants st)) (Set c t (GObj al) now)" if "tenants st t = Some al" for al
    unfolding Set_def by (rule lru.coherent_set_same [OF c]) (simp add: cached_def that)
  consider (hit) al where "x = Some (GObj al)" "ok" "tenants st t = Some al" | (miss) "ok = False" "x = None"
  proof (cases ok)
    case True
    obtain v where "x = Some v" "cached (tenants st) t = Some v"
      by (rule lru.coherent_hit [OF co]) (use g True in simp)
    then show thesis using hit True by (auto simp: cached_def)
  next
    case False
    have "x = None" using lru.get_miss [OF lru.coherent_invar [OF co], of t now x c] g False by simp
    then show thesis using miss False by simp
  qed
  then have "fst (GetAllocation t now st) =
      (case tenants st t of None \<Rightarrow> Inl (TenantNotFound t) | Some al \<Rightarrow> Inr al) \<and>
    ipam_inv (snd (GetAllocation t now st)) \<and> (\<exists>c. snd (GetAllocation t now st) = st\<lparr>ipam_cache := c\<rparr>)"
  proof cases
    case (hit al)
    then show ?thesis using inv [OF c] by (auto simp: GetAllocation_def g)
  next
    case miss
    then show ?thesis using inv [OF c] inv [OF same]
      by (auto simp: GetAllocation_def g cache_store_def split: option.split)
  qed
  then show "fst (GetAllocation t now st) =
      (case tenants st t of None \<Rightarrow> Inl (TenantNotFound t) | Some al \<Rightarrow> Inr al)"
    and "ipam_inv (snd (GetAllocation t now st))"
    and "\<exists>c. snd (GetAllocation t now st) = st\<lparr>ipam_cache := c\<rparr>" by blast+
qed

section \<open>Restoring an allocation\<close>

lemma take_block_alt: "take_block t c p q b st = st\<lparr>
    blocks := (blocks st)(c \<mapsto> b\<lparr>bTenantID := t, bAllocated := True\<rparr>),
    freeBlocks := (freeBlocks st)(p \<mapsto> q), allocatedBlocks := allocatedBlocks st + 1\<rparr>"
  by (simp add: take_block_def)

lemma restore_loop_spec:
  assumes "loop_inv t st0 ns al st" and "block_inv st0" and "distinct cs" and "set cs \<subseteq> free st0 - set al"
  shows "\<exists>st' ns'. restore_loop t cs ns (map getFirstUsableIP ns) st =
      (Inr (ns', map getFirstUsableIP ns'), st') \<and> loop_inv t st0 ns' (al @ cs) st'"
  using assms
proof (induction cs arbitrary: ns al st)
  case Nil
  then show ?case by simp
next
  case (Cons c cs)
  have inv: "block_inv st" and bl: "blocks st = upd_blocks (given t) al (blocks st0)"
    using Cons.prems(1) by (simp_all add: loop_inv_def)
  have "c \<in> free st0" "c \<notin> set al" using Cons.prems(4) by auto
  then obtain b where b: "blocks st c = Some b" "\<not> bAllocated b"
    unfolding bl by (auto simp: free_def upd_blocks_def)
  have ok: "c = IPNet_String (bNetwork b)" "net27 (bNetwork b)" "freeBlocks st (bPoolIndex b) \<noteq> None"
    using block_invD(2) [OF inv b(1)] by (auto simp: block_ok_def)
  then obtain q where q: "freeBlocks st (bPoolIndex b) = Some q" by blast
  have p: "ParseCIDR c = Some (v4InV6Prefix @ nIP (bNetwork b), bNetwork b)"
    unfolding ok(1) by (rule ParseCIDR_27 [OF ok(2)])
  let ?q = "remove_first (\<lambda>free. free = c) q"
  let ?st = "take_block t c (bPoolIndex b) ?q b st"
  have dq: "distinct q" using block_invD(3) [OF inv, of "bPoolIndex b"] q by (simp add: queue_def)
  then have "loop_inv t st0 (ns @ [bNetwork b]) (al @ [c]) ?st"
    by (intro loop_inv_give [OF Cons.prems(1) q b refl]) (simp_all add: remove_first_eq_remove1)
  moreover have "set cs \<subseteq> free st0 - set (al @ [c])" using Cons.prems(3,4) by auto
  ultimately have "\<exists>st' ns'. restore_loop t cs (ns @ [bNetwork b])
      (map getFirstUsableIP (ns @ [bNetwork b])) ?st = (Inr (ns', map getFirstUsableIP ns'), st') \<and>
      loop_inv t st0 ns' ((al @ [c]) @ cs) st'"
    using Cons.prems(2,3) by (intro Cons.IH) simp_all
  moreover have "restore_loop t (c # cs) ns (map getFirstUsableIP ns) st =
      restore_loop t cs (ns @ [bNetwork b]) (map getFirstUsableIP (ns @ [bNetwork b])) ?st"
    using p b(1) q by (simp add: take_block_alt)
  ultimately show ?case by simp
qed

lemma RestoreAllocation_effect:
  assumes "ipam_inv st" and "tenants st t = None" and "distinct cs" and "set cs \<subseteq> free st"
  obtains st' where "RestoreAllocation t cs at now st = (Inr (), st')" "ipam_inv st'"
    "blocks st' = upd_blocks (given t) cs (blocks st)" "pending st' = pending st"
    "dom (freeBlocks st') = dom (freeBlocks st)"
proof -
  note b = ipam_invD(1) [OF assms(1)]
  obtain st1 ns where r: "restore_loop t cs [] [] st = (Inr (ns, map getFirstUsableIP ns), st1)"
    and l: "loop_inv t st ns cs st1"
    using restore_loop_spec [OF loop_inv_init [OF b] b assms(3), of t] assms(4) by auto
  let ?al = "\<lparr>taTenantID = t, taNetworks = ns, taAllocatedAt = at, taUpdatedAt = now,
     taBlockCount = length ns, taServerIPs = map getFirstUsableIP ns\<rparr>"
  let ?st = "(store_tenant t ?al now st1)\<lparr>totalTenants := totalTenants st1 + 1\<rparr>"
  have "owned st t = {}" using ipam_invD(3) [OF assms(1,2)] .
  then have "ipam_inv ?st" by (intro ipam_inv_store [OF assms(1) l, of _ "[]"]) (simp_all add: assms(2))
  moreover have "blocks ?st = upd_blocks (given t) cs (blocks st)" "dom (freeBlocks ?st) = dom (freeBlocks st)"
    "frame st1 = frame st"
    using l by (simp_all add: loop_inv_def store_tenant_def cache_store_def)
  moreover have "pending ?st = pending st"
    using frame_fields(7) [OF \<open>frame st1 = frame st\<close>] by (simp add: store_tenant_def cache_store_def)
  ultimately show thesis using that [of ?st] r by (simp add: RestoreAllocation_def)
qed

section \<open>Splitting a pool\<close>

lemma increment_rev_length [simp]: "length (increment_rev n bs) = length bs"
  by (induction n bs rule: increment_rev.induct) (simp_all add: Let_def)

lemma bval_increment_rev:
  "0 \<le> n \<Longrightarrow> bval (rev (increment_rev n bs)) = (bval (rev bs) + nat n) mod 256 ^ length bs"
proof (induction n bs rule: increment_rev.induct)
  case (2 n b bs)
  let ?v = "uint b + n" and ?B = "bval (rev bs)" and ?K = "256 ^ length bs :: nat"
  show ?case
  proof (cases "0 < n")
    case False
    then have "n = 0" using 2 by simp
    then show ?thesis using bval_bound [of "rev (b # bs)"] by (simp add: mod_less)
  next
    case True
    have v: "0 \<le> ?v" using 2 by simp
    have "?v AND 0xFF = ?v mod 256"
      using take_bit_eq_mask [of 8 ?v] by (simp add: take_bit_eq_mod mask_eq_exp_minus_1)
    then have b: "unat (word_of_int (?v AND 0xFF) :: byte) = nat ?v mod 256"
      using v by (simp add: unsigned_of_int take_bit_eq_mod nat_mod_distrib)
    have "drop_bit 8 ?v = ?v div 256" by (simp add: drop_bit_eq_div)
    then have IH: "bval (rev (increment_rev (drop_bit 8 ?v) bs)) = (?B + nat ?v div 256) mod ?K"
      using 2 True v by (simp add: nat_div_distrib pos_imp_zdiv_nonneg_iff)
    have nv: "nat ?v = unat b + nat n" using 2 by (simp add: nat_add_distrib)
    have "bval (rev (increment_rev n (b # bs))) = (?B + nat ?v div 256) mod ?K * 256 + nat ?v mod 256"
      using True IH b by (simp add: bval_append Let_def)
    also have "\<dots> = (?B * 256 + nat ?v) mod (256 * ?K)"
      unfolding mod_mult2_eq by (simp add: mult.commute)
    finally show ?thesis using nv by (simp add: bval_append add.assoc)
  qed
qed simp

definition next27 :: "IP \<Rightarrow> IP" where "next27 ip = incrementIPBy ip 32"

lemma next27_iter:
  assumes "length ip = 4"
  shows "length ((next27 ^^ i) ip) = 4 \<and> bval ((next27 ^^ i) ip) = (bval ip + 32 * i) mod 2 ^ 32"
proof (induction i)
  case 0
  then show ?case using assms bval_bound [of ip] by simp
next
  case (Suc i)
  let ?x = "(next27 ^^ i) ip"
  have "bval (next27 ?x) = (bval ?x + 32) mod 256 ^ length ?x"
    using bval_increment_rev [of 32 "rev ?x"] by (simp add: next27_def incrementIPBy_def)
  moreover have "length (next27 ?x) = length ?x" by (simp add: next27_def incrementIPBy_def)
  ultimately show ?case using Suc by (simp add: mod_add_left_eq add.assoc add.commute [of 32])
qed

definition net_bits :: "IPNet \<Rightarrow> nat" where "net_bits net = fst (Mask_Size (nMask net))"

definition block_at :: "IPNet \<Rightarrow> nat \<Rightarrow> IPNet" where
  "block_at net i = \<lparr>nIP = (next27 ^^ i) (nIP net), nMask = CIDRMask 27 32\<rparr>"

text \<open>The /27 networks of a pool, in the order \<open>splitIntoBlocks27\<close> visits them.\<close>

definition pool_nets :: "IPNet \<Rightarrow> IPNet list" where
  "pool_nets net = (if 27 < net_bits net then [] else map (block_at net) [0..<2 ^ (27 - net_bits net)])"

lemma v4net_prefix: "v4net n net \<Longrightarrow> net_bits net = n"
  using Mask_Size_CIDRMask [of n 32] by (simp add: v4net_def net_bits_def)

lemma v4net_top:
  assumes "v4net n net"
  shows "bval (nIP net) + 2 ^ (32 - n) \<le> 2 ^ 32"
proof -
  obtain q where q: "bval (nIP net) = 2 ^ (32 - n) * q" using v4net_dvd [OF assms] by (auto simp: dvd_def)
  have "n \<le> 32" using assms by (simp add: v4net_def)
  then have K: "(2 :: nat) ^ 32 = 2 ^ (32 - n) * 2 ^ n" by (simp flip: power_add)
  have "bval (nIP net) < 2 ^ 32" using bval_bound [of "nIP net"] assms by (simp add: v4net_def)
  then have "q < 2 ^ n" unfolding q K by simp
  then have "2 ^ (32 - n) * Suc q \<le> (2 :: nat) ^ (32 - n) * 2 ^ n" by (intro mult_le_mono2) simp
  then show ?thesis unfolding q K by simp
qed

lemma block_at_val:
  assumes "v4net n net" and "n \<le> 27" and "i < 2 ^ (27 - n)"
  shows "bval (nIP (block_at net i)) = bval (nIP net) + 32 * i" "length (nIP (block_at net i)) = 4"
    "bval (nIP net) + 32 * i < bval (nIP net) + 2 ^ (32 - n)"
proof -
  have l: "length (nIP net) = 4" using assms(1) by (simp add: v4net_def)
  have "(2 :: nat) ^ (32 - n) = 32 * 2 ^ (27 - n)"
  proof -
    have "32 - n = 5 + (27 - n)" using assms(2) by simp
    then show ?thesis by (simp only: power_add) simp
  qed
  with assms(3) show lt: "bval (nIP net) + 32 * i < bval (nIP net) + 2 ^ (32 - n)" by simp
  with v4net_top [OF assms(1)] have "bval (nIP net) + 32 * i < 2 ^ 32" by simp
  then show "bval (nIP (block_at net i)) = bval (nIP net) + 32 * i"
    using next27_iter [OF l, of i] by (simp add: block_at_def)
  show "length (nIP (block_at net i)) = 4" using next27_iter [OF l, of i] by (simp add: block_at_def)
qed

lemma block_at_net27:
  assumes "v4net n net" and "n \<le> 27" and "i < 2 ^ (27 - n)"
  shows "net27 (block_at net i)" and "IPNet_Contains net (nIP (block_at net i))"
proof -
  note v = block_at_val [OF assms]
  have "(2 :: nat) ^ 5 dvd 2 ^ (32 - n)" by (rule le_imp_power_dvd) (use assms(2) in simp)
  then have "32 dvd bval (nIP net)" using v4net_dvd [OF assms(1)] by (auto intro: dvd_trans)
  then have "(2 :: nat) ^ (32 - 27) dvd bval (nIP (block_at net i))" unfolding v(1) by simp
  then show "net27 (block_at net i)"
    unfolding net27_iff using aligned_v4net [of "nIP (block_at net i)" 27] v(2) by (simp add: block_at_def)
  show "IPNet_Contains net (nIP (block_at net i))"
    unfolding v4net_Contains [OF assms(1) v(2)] v(1) using v(3) by simp
qed

lemma pool_nets_props:
  assumes "v4net n net"
  shows "distinct (pool_nets net)" and "m \<in> set (pool_nets net) \<Longrightarrow> net27 m \<and> IPNet_Contains net (nIP m)"
    and "n \<le> 27 \<Longrightarrow> length (pool_nets net) = 2 ^ (27 - n)"
proof -
  show "length (pool_nets net) = 2 ^ (27 - n)" if "n \<le> 27"
    using that by (simp add: pool_nets_def v4net_prefix [OF assms])
  show "net27 m \<and> IPNet_Contains net (nIP m)" if "m \<in> set (pool_nets net)"
    using that block_at_net27 [OF assms] by (auto simp: pool_nets_def v4net_prefix [OF assms] split: if_splits)
  show "distinct (pool_nets net)"
  proof (cases "n \<le> 27")
    case True
    have "inj_on (block_at net) {0..<2 ^ (27 - n)}"
    proof (rule inj_onI)
      fix i j
      assume "i \<in> {0..<2 ^ (27 - n)}" "j \<in> {0..<2 ^ (27 - n)}" and e: "block_at net i = block_at net j"
      then have lt: "i < 2 ^ (27 - n)" "j < 2 ^ (27 - n)" by simp_all
      have "bval (nIP (block_at net i)) = bval (nIP (block_at net j))" by (simp only: e)
      then show "i = j"
        unfolding block_at_val(1) [OF assms True lt(1)] block_at_val(1) [OF assms True lt(2)] by simp
    qed
    then show ?thesis
      using True by (simp add: pool_nets_def distinct_map v4net_prefix [OF assms])
  qed (simp add: pool_nets_def v4net_prefix [OF assms])
qed

lemma split_loop_fold:
  assumes "v4net n net" and "n \<le> 27" and "j + Suc k = 2 ^ (27 - n)"
  shows "split_loop R net p (Suc k) cnt (nIP (block_at net j)) st =
    (cnt + Suc k, fold (\<lambda>m. split_block R p (nIP m)) (map (block_at net) [j..<2 ^ (27 - n)]) st)"
  using assms(3)
proof (induction k arbitrary: j cnt st)
  case 0
  then have "2 ^ (27 - n) = Suc j" by simp
  then show ?case by (simp add: Let_def)
next
  case (Suc k)
  have j: "Suc j < 2 ^ (27 - n)" using Suc.prems by simp
  have nx: "incrementIPBy (nIP (block_at net j)) 32 = nIP (block_at net (Suc j))"
    by (simp add: block_at_def next27_def)
  have "[j..<2 ^ (27 - n)] = j # [Suc j..<2 ^ (27 - n)]" using j by (simp add: upt_conv_Cons)
  moreover have "IPNet_Contains net (nIP (block_at net (Suc j)))"
    by (rule block_at_net27 [OF assms(1,2) j])
  ultimately show ?case using Suc.IH [of "Suc j" "Suc cnt"] Suc.prems
    by (subst split_loop.simps) (simp add: Let_def nx del: split_loop.simps)
qed

definition new_block :: "int \<Rightarrow> IPNet \<Rightarrow> Block27" where
  "new_block p m = \<lparr>bNetwork = m, bTenantID = [], bAllocated = False, bPoolIndex = p\<rparr>"

definition put_block :: "int \<Rightarrow> string list \<Rightarrow> IPNet \<Rightarrow> 'd GlobalIPAM \<Rightarrow> 'd GlobalIPAM" where
  "put_block p q m st = st\<lparr>blocks := (blocks st)(IPNet_String m \<mapsto> new_block p m),
     freeBlocks := (freeBlocks st)(p \<mapsto> q @ [IPNet_String m])\<rparr>"

lemma split_block_new:
  assumes "blocks st (IPNet_String m) = None" and "nMask m = CIDRMask 27 32" and "freeBlocks st p = Some q"
  shows "split_block None p (nIP m) st = put_block p q m st"
proof -
  have m: "m = \<lparr>nIP = nIP m, nMask = CIDRMask 27 32\<rparr>" using assms(2) by simp
  have "split_block None p (nIP m) st = enqueue p (IPNet_String m)
      (st\<lparr>blocks := (blocks st)(IPNet_String m \<mapsto> new_block p m)\<rparr>)"
    using assms(1) m unfolding split_block_def Let_def new_block_def by simp
  then show ?thesis using assms(3) by (simp add: enqueue_def put_block_def)
qed

lemma put_block_inv:
  assumes "block_inv st" and "blocks st (IPNet_String m) = None" and "net27 m" and "freeBlocks st p = Some q"
  shows "block_inv (put_block p q m st)"
proof -
  let ?st = "put_block p q m st" and ?c = "IPNet_String m"
  have "block_ok ?st c b" if "blocks ?st c = Some b" for c b
    using that block_invD(2) [OF assms(1), of c b] assms(3)
    by (auto simp: put_block_def block_ok_def new_block_def split: if_splits)
  moreover have "distinct (queue ?st p') \<and> set (queue ?st p') = free_in ?st p'" for p'
  proof (cases "p' = p")
    case True
    have "set q = free_in st p" "distinct q"
      using block_invD(3,4) [OF assms(1), of p] assms(4) by (simp_all add: queue_def)
    moreover have "?c \<notin> free_in st p" using assms(2) by (simp add: free_in_def)
    moreover have "free_in ?st p = insert ?c (free_in st p)"
      by (auto simp: free_in_def put_block_def new_block_def assms(2))
    ultimately show ?thesis using True by (simp add: queue_def put_block_def)
  next
    case False
    have "free_in ?st p' = free_in st p'"
      using False assms(2) by (auto simp: free_in_def put_block_def new_block_def split: if_splits)
    then show ?thesis
      using False block_invD(3,4) [OF assms(1), of p'] by (simp add: queue_def put_block_def)
  qed
  moreover have "held ?st = held st"
    using assms(2) by (auto simp: held_def put_block_def new_block_def split: if_splits)
  moreover have "allocatedBlocks ?st = allocatedBlocks st" by (simp add: put_block_def)
  moreover have "finite (dom (blocks ?st))" using block_invD(1) [OF assms(1)] by (simp add: put_block_def)
  ultimately show ?thesis using block_invD(5) [OF assms(1)] unfolding block_inv_def by simp
qed

definition fresh_nets :: "'d GlobalIPAM \<Rightarrow> IPNet list \<Rightarrow> bool" where
  "fresh_nets st ms \<longleftrightarrow> distinct ms \<and> list_all net27 ms \<and>
     list_all (\<lambda>m. blocks st (IPNet_String m) = None) ms"

lemma split_fold:
  assumes "block_inv st" and "freeBlocks st p \<noteq> None" and "fresh_nets st ms"
    and "st' = fold (\<lambda>m. split_block None p (nIP m)) ms st"
  shows "block_inv st' \<and> frame st' = frame st \<and> dom (freeBlocks st') = dom (freeBlocks st) \<and>
    (\<forall>c. c \<notin> IPNet_String ` set ms \<longrightarrow> blocks st' c = blocks st c) \<and>
    (\<forall>m\<in>set ms. blocks st' (IPNet_String m) = Some (new_block p m))"
  using assms
proof (induction ms arbitrary: st)
  case Nil
  then show ?case by simp
next
  case (Cons m ms)
  obtain q where q: "freeBlocks st p = Some q" using Cons.prems(2) by blast
  have m: "blocks st (IPNet_String m) = None" "net27 m" "m \<notin> set ms"
    using Cons.prems(3) by (simp_all add: fresh_nets_def)
  let ?st = "put_block p q m st"
  have step: "split_block None p (nIP m) st = ?st"
    using m(2) by (intro split_block_new [OF m(1) _ q]) (simp add: net27_def CIDRMask_27)
  have ne: "IPNet_String m' \<noteq> IPNet_String m" if "m' \<in> set ms" for m'
    using that m(2,3) Cons.prems(3) IPNet_String_27_inj [of m' m] by (auto simp: fresh_nets_def list_all_iff)
  have fresh: "fresh_nets ?st ms"
    using Cons.prems(3) ne by (auto simp: fresh_nets_def list_all_iff put_block_def)
  have known: "freeBlocks ?st p \<noteq> None" by (simp add: put_block_def)
  have run: "st' = fold (\<lambda>m. split_block None p (nIP m)) ms ?st"
    by (simp only: Cons.prems(4) fold_simps step)
  have IH: "block_inv st' \<and> frame st' = frame ?st \<and> dom (freeBlocks st') = dom (freeBlocks ?st) \<and>
    (\<forall>c. c \<notin> IPNet_String ` set ms \<longrightarrow> blocks st' c = blocks ?st c) \<and>
    (\<forall>m\<in>set ms. blocks st' (IPNet_String m) = Some (new_block p m))"
    by (rule Cons.IH [OF put_block_inv [OF Cons.prems(1) m(1,2) q] known fresh run])
  moreover have "frame ?st = frame st" by (simp add: frame_def put_block_def)
  moreover have "dom (freeBlocks ?st) = dom (freeBlocks st)" using q by (auto simp: put_block_def)
  moreover have "blocks st' (IPNet_String m) = Some (new_block p m)"
  proof -
    have "IPNet_String m \<notin> IPNet_String ` set ms"
    proof
      assume "IPNet_String m \<in> IPNet_String ` set ms"
      then obtain m' where "m' \<in> set ms" "IPNet_String m = IPNet_String m'" by auto
      with ne [of m'] show False by simp
    qed
    then have "blocks st' (IPNet_String m) = blocks ?st (IPNet_String m)" using IH by blast
    then show ?thesis by (simp add: put_block_def)
  qed
  moreover have "blocks st' c = blocks st c" if "c \<notin> IPNet_String ` set (m # ms)" for c
  proof -
    have "blocks st' c = blocks ?st c" using IH that by simp
    then show ?thesis using that by (simp add: put_block_def)
  qed
  ultimately show ?case by simp
qed

lemma ensure_idem: "freeBlocks st p \<noteq> None \<Longrightarrow> ensureFreeBlockQueue p st = st"
  by (auto simp: ensureFreeBlockQueue_def getFreeBlockQueue_def)

lemma splitIntoBlocks27_fold:
  assumes "v4net n net \<or> 27 < net_bits net" and "freeBlocks st p \<noteq> None"
  shows "splitIntoBlocks27 R net p st = (length (pool_nets net),
    (fold (\<lambda>m. split_block R p (nIP m)) (pool_nets net) st)
      \<lparr>totalBlocks := totalBlocks (fold (\<lambda>m. split_block R p (nIP m)) (pool_nets net) st) +
         int (length (pool_nets net))\<rparr>)"
proof (cases "27 < net_bits net")
  case True
  then show ?thesis
    by (simp add: splitIntoBlocks27_def ensure_idem [OF assms(2)] pool_nets_def flip: net_bits_def)
next
  case False
  then have v: "v4net n net" and n: "n \<le> 27" "net_bits net = n"
    using assms(1) v4net_prefix by auto
  have "nIP (block_at net 0) = nIP net" by (simp add: block_at_def)
  then have "split_loop R net p (2 ^ (27 - n)) 0 (nIP net) st =
      (2 ^ (27 - n), fold (\<lambda>m. split_block R p (nIP m)) (map (block_at net) [0..<2 ^ (27 - n)]) st)"
    using split_loop_fold [OF v n(1), of 0 "2 ^ (27 - n) - 1" R p 0 st] by simp
  then show ?thesis using False n(2)
    by (simp add: splitIntoBlocks27_def ensure_idem [OF assms(2)] pool_nets_def Let_def flip: net_bits_def)
qed

text \<open>A net that a pool may have, and its blocks are new to the manager.\<close>

definition pool_ok :: "IPNet \<Rightarrow> bool" where
  "pool_ok net \<longleftrightarrow> (\<exists>n. v4net n net) \<or> 27 < net_bits net"

lemma pool_ok_nets:
  assumes "pool_ok net"
  shows "distinct (pool_nets net) \<and> list_all net27 (pool_nets net) \<and>
    (\<forall>m\<in>set (pool_nets net). IPNet_Contains net (nIP m))"
  using assms pool_nets_props unfolding pool_ok_def
  by (auto simp: list_all_iff) (auto simp: pool_nets_def)

lemma split_inv:
  assumes "ipam_inv st" and "freeBlocks st p \<noteq> None" and "pool_ok net"
    and "IPNet_String ` set (pool_nets net) \<inter> dom (blocks st) = {}"
    and "splitIntoBlocks27 None net p st = (k, st')"
  shows "ipam_inv st'" and "dom (blocks st') = dom (blocks st) \<union> IPNet_String ` set (pool_nets net)"
    and "dom (freeBlocks st') = dom (freeBlocks st)" and "pending st' = pending st"
    and "k = length (pool_nets net)"
    and "m \<in> set (pool_nets net) \<Longrightarrow> blocks st' (IPNet_String m) = Some (new_block p m)"
    and "c \<notin> IPNet_String ` set (pool_nets net) \<Longrightarrow> blocks st' c = blocks st c"
proof -
  let ?ms = "pool_nets net"
  let ?f = "fold (\<lambda>m. split_block None p (nIP m)) ?ms st"
  obtain n where n: "v4net n net \<or> 27 < net_bits net" using assms(3) by (auto simp: pool_ok_def)
  have st': "k = length ?ms" "st' = ?f\<lparr>totalBlocks := totalBlocks ?f + int (length ?ms)\<rparr>"
    using splitIntoBlocks27_fold [OF n assms(2), of None] assms(5) by simp_all
  have fresh: "fresh_nets st ?ms"
    using pool_ok_nets [OF assms(3)] assms(4) by (auto simp: fresh_nets_def list_all_iff)
  note i = ipam_invD [OF assms(1)]
  have f: "block_inv ?f" "frame ?f = frame st" "dom (freeBlocks ?f) = dom (freeBlocks st)"
    "\<And>c. c \<notin> IPNet_String ` set ?ms \<Longrightarrow> blocks ?f c = blocks st c"
    "\<And>m. m \<in> set ?ms \<Longrightarrow> blocks ?f (IPNet_String m) = Some (new_block p m)"
    using split_fold [OF i(1) assms(2) fresh refl] by blast+
  note fr = frame_fields [OF f(2)]
  show "k = length ?ms" by (rule st'(1))
  show D: "dom (blocks st') = dom (blocks st) \<union> IPNet_String ` set ?ms"
  proof (rule set_eqI)
    fix c
    show "c \<in> dom (blocks st') \<longleftrightarrow> c \<in> dom (blocks st) \<union> IPNet_String ` set ?ms"
      using f(4) [of c] f(5) by (cases "c \<in> IPNet_String ` set ?ms") (auto simp: st'(2) domIff)
  qed
  show "dom (freeBlocks st') = dom (freeBlocks st)" using f(3) by (simp add: st'(2))
  show "pending st' = pending st" using fr by (simp add: st'(2))
  show "blocks st' (IPNet_String m) = Some (new_block p m)" if "m \<in> set ?ms"
    using f(5) [OF that] by (simp add: st'(2))
  show "blocks st' c = blocks st c" if "c \<notin> IPNet_String ` set ?ms"
    using f(4) [OF that] by (simp add: st'(2))
  have al: "blocks st' c = Some b \<and> bAllocated b \<longleftrightarrow> blocks st c = Some b \<and> bAllocated b" for c b
  proof (cases "c \<in> IPNet_String ` set ?ms")
    case True
    then have "blocks st c = None" using assms(4) by auto
    moreover obtain m where "m \<in> set ?ms" "c = IPNet_String m" using True by blast
    ultimately show ?thesis using f(5) by (auto simp: st'(2) new_block_def)
  next
    case False
    then show ?thesis using f(4) by (simp add: st'(2))
  qed
  have o: "owned st' t = owned st t" for t
    unfolding owned_def using al by blast
  have "block_inv st'" using f(1) by (simp add: st'(2) block_inv_def block_ok_def queue_def free_in_def held_def)
  moreover have "totalBlocks st' = int (card (dom (blocks st')))"
  proof -
    have "inj_on IPNet_String (set ?ms)"
      using fresh IPNet_String_27_inj by (auto simp: inj_on_def fresh_nets_def list_all_iff)
    then have "card (IPNet_String ` set ?ms) = length ?ms"
      using fresh by (simp add: card_image fresh_nets_def distinct_card)
    then have "card (dom (blocks st')) = card (dom (blocks st)) + length ?ms"
      unfolding D using assms(4) block_invD(1) [OF i(1)] by (subst card_Un_disjoint) auto
    then show ?thesis using i(7) fr by (simp add: st'(2))
  qed
  ultimately show "ipam_inv st'"
    unfolding ipam_inv_def using i(2-6) fr by (simp add: st'(2) tenant_ok_def flip: o)
qed

end
