(* ===== verification/Ipam_Runs.thy ===== *)
theory Ipam_Runs
  imports Ipam_Pools
begin

text \<open>
  Sequences of operations of the address manager, with the goroutines of \<open>addPoolAndSplit\<close> at any
  point, and the properties that hold in every state they reach.
\<close>

unbundle bit_operations_syntax

definition names :: "IPNet \<Rightarrow> string set" where
  "names net = IPNet_String ` set (pool_nets net)"

definition pend_inv :: "'d GlobalIPAM \<Rightarrow> bool" where
  "pend_inv st \<longleftrightarrow> (\<forall>(net, p)\<in>set (pending st). pool_ok net \<and> freeBlocks st p \<noteq> None \<and>
       names net \<inter> dom (blocks st) = {}) \<and>
     sorted_wrt (\<lambda>(n, p) (n', p'). names n \<inter> names n' = {}) (pending st)"

definition cidr_net :: "string \<Rightarrow> IPNet" where
  "cidr_net s = snd (the (ParseCIDR s))"

text \<open>No pool contains the base address of another: CIDR networks are nested or disjoint.\<close>

definition pools_apart :: "string list \<Rightarrow> bool" where
  "pools_apart cidrs \<longleftrightarrow> sorted_wrt (\<lambda>a b. \<not> IPNet_Contains (cidr_net a) (nIP (cidr_net b)) \<and>
     \<not> IPNet_Contains (cidr_net b) (nIP (cidr_net a))) cidrs"

inductive ipam_step :: "'d GlobalIPAM \<Rightarrow> 'd GlobalIPAM \<Rightarrow> bool" where
  split: "ipam_step st (run_pending None i st)"
| allocate: "set ps = dom (freeBlocks st) \<Longrightarrow> ipam_step st (snd (AllocateTenant None ps t n now st))"
| expand: "set ps = dom (freeBlocks st) \<Longrightarrow> ipam_step st (snd (ExpandTenant None ps t n now st))"
| release: "ipam_step st (snd (ReleaseTenant None t st))"
| get: "ipam_step st (snd (GetAllocation t now st))"
| restore: "tenants st t = None \<Longrightarrow> distinct cs \<Longrightarrow> set cs \<subseteq> free st \<Longrightarrow>
    ipam_step st (snd (RestoreAllocation t cs at now st))"
| close: "ipam_step st (ipam_Close st)"

inductive ipam_reach :: "string list \<Rightarrow> 'd GlobalIPAM \<Rightarrow> bool" for cidrs where
  init: "NewGlobalIPAM None d cidrs = Inr st \<Longrightarrow> ipam_reach cidrs st"
| step: "ipam_reach cidrs st \<Longrightarrow> ipam_step st st' \<Longrightarrow> ipam_reach cidrs st'"

section \<open>Reachable states\<close>

lemma v4net_nested:
  assumes "v4net n a" and "v4net n' b" and "n \<le> n'" and "length ip = 4"
    and "IPNet_Contains a ip" and "IPNet_Contains b ip"
  shows "IPNet_Contains a (nIP b)"
proof -
  let ?K = "2 ^ (32 - n) :: nat" and ?K' = "2 ^ (32 - n') :: nat" and ?c = "2 ^ (n' - n) :: nat"
  have le: "n' \<le> 32" and l: "length (nIP b) = 4" using assms(2) by (simp_all add: v4net_def)
  have "32 - n = 32 - n' + (n' - n)" using assms(3) le by simp
  then have K: "?K = ?K' * ?c" by (simp only: power_add)
  have net: "a = \<lparr>nIP = nIP a, nMask = CIDRMask n 32\<rparr>" "b = \<lparr>nIP = nIP b, nMask = CIDRMask n' 32\<rparr>"
    using assms(1,2) by (simp_all add: v4net_def)
  have A: "bval (nIP a) div ?K = bval ip div ?K"
    using IPNet_Contains_iff [of "nIP a" ip n] net(1) assms(1,4,5) by (simp add: v4net_def)
  have B: "bval (nIP b) div ?K' = bval ip div ?K'"
    using IPNet_Contains_iff [of "nIP b" ip n'] net(2) assms(2,4,6) by (simp add: v4net_def)
  have "bval (nIP b) div ?K = bval ip div ?K" unfolding K div_mult2_eq B ..
  then show ?thesis
    using IPNet_Contains_iff [of "nIP a" "nIP b" n] net(1) assms(1) l A by (simp add: v4net_def)
qed

lemma names_disjoint:
  assumes "pool_ok a" and "pool_ok b"
    and "\<not> IPNet_Contains a (nIP b)" and "\<not> IPNet_Contains b (nIP a)"
  shows "names a \<inter> names b = {}"
proof (rule ccontr)
  assume "names a \<inter> names b \<noteq> {}"
  then obtain m m' where m: "m \<in> set (pool_nets a)" "m' \<in> set (pool_nets b)" "IPNet_String m = IPNet_String m'"
    by (auto simp: names_def)
  then have "m = m'" "length (nIP m) = 4" "IPNet_Contains a (nIP m)" "IPNet_Contains b (nIP m')"
    using pool_ok_nets [OF assms(1)] pool_ok_nets [OF assms(2)] IPNet_String_27_inj [of m m']
    by (auto simp: list_all_iff net27_def)
  moreover obtain n n' where "v4net n a" "v4net n' b"
    using m assms(1,2) by (auto simp: pool_ok_def pool_nets_def split: if_splits)
  ultimately show False
    using v4net_nested [of n a n' b "nIP m"] v4net_nested [of n' b n a "nIP m"] assms(3,4)
    by (cases "n \<le> n'") auto
qed

text \<open>The state before any goroutine of \<open>addPoolAndSplit\<close> has run.\<close>

definition fresh_state :: "'d GlobalIPAM \<Rightarrow> bool" where
  "fresh_state st \<longleftrightarrow> blocks st = Map.empty \<and> tenants st = Map.empty \<and>
     (\<forall>p. queue st p = []) \<and> ipam_cache st = NewCache 0 ipam_cache_config \<and>
     totalBlocks st = 0 \<and> allocatedBlocks st = 0 \<and> totalTenants st = 0 \<and>
     (\<forall>(net, p)\<in>set (pending st). pool_ok net \<and> freeBlocks st p \<noteq> None)"

lemma addPoolAndSplit_fresh:
  assumes "fresh_state st" and "addPoolAndSplit k cidr st = Inr st'"
  shows "fresh_state st' \<and> pending st' = pending st @ [(cidr_net cidr, k)]"
proof -
  obtain ip net where p: "ParseCIDR cidr = Some (ip, net)" "To4 (nIP net) \<noteq> []"
    and st': "st' = (ensureFreeBlockQueue k (st\<lparr>pools := pools st @
        [\<lparr>pdIndex = k, pdCIDR = cidr, pdIPNet = net, pdPrefix = cidr\<rparr>]\<rparr>))\<lparr>pending := pending st @ [(net, k)]\<rparr>"
    using assms(2) by (auto simp: addPoolAndSplit_def Let_def split: option.splits if_splits)
  have "pool_ok net" using ParseCIDR_v4net [OF p] by (simp add: pool_ok_def net_bits_def)
  then show ?thesis
    using assms(1) p(1) unfolding st'
    by (auto simp: fresh_state_def ensureFreeBlockQueue_def getFreeBlockQueue_def queue_def cidr_net_def
        split: option.splits)
qed

lemma add_pools_fresh:
  "fresh_state st \<Longrightarrow> add_pools k cidrs st = Inr st' \<Longrightarrow>
   fresh_state st' \<and> map fst (pending st') = map fst (pending st) @ map cidr_net cidrs"
proof (induction cidrs arbitrary: k st)
  case (Cons c cidrs)
  obtain st1 where a: "addPoolAndSplit k c st = Inr st1" "add_pools (k + 1) cidrs st1 = Inr st'"
    using Cons.prems(2) by auto
  note f = addPoolAndSplit_fresh [OF Cons.prems(1) a(1)]
  show ?case using Cons.IH [OF conjunct1 [OF f] a(2)] f by simp
qed simp

lemma NewGlobalIPAM_inv:
  assumes "NewGlobalIPAM None d cidrs = Inr st" and "pools_apart cidrs"
  shows "ipam_inv st \<and> pend_inv st"
proof -
  have f: "fresh_state st \<and> map fst (pending st) = map cidr_net cidrs"
    using assms(1) by (auto simp: NewGlobalIPAM_def Let_def fresh_state_def queue_def
        dest!: add_pools_fresh [rotated] split: if_splits)
  then have "block_inv st"
    by (auto simp: fresh_state_def block_inv_def free_in_def held_def)
  moreover have "owned st t = {}" for t using f by (auto simp: fresh_state_def owned_def)
  ultimately have "ipam_inv st"
    using f NewCache_coherent by (auto simp: ipam_inv_def fresh_state_def)
  moreover have "sorted_wrt (\<lambda>(n, p) (n', p'). names n \<inter> names n' = {}) (pending st)"
  proof -
    have "sorted_wrt (\<lambda>a b. \<not> IPNet_Contains a (nIP b) \<and> \<not> IPNet_Contains b (nIP a)) (map fst (pending st))"
      using assms(2) f by (simp add: pools_apart_def sorted_wrt_map)
    moreover have "pool_ok n" if "(n, p) \<in> set (pending st)" for n p
      using f that unfolding fresh_state_def by blast
    then have "names (fst x) \<inter> names (fst y) = {}"
      if "x \<in> set (pending st)" "y \<in> set (pending st)" "\<not> IPNet_Contains (fst x) (nIP (fst y))"
        "\<not> IPNet_Contains (fst y) (nIP (fst x))" for x y
      using that by (intro names_disjoint) (metis prod.collapse)+
    ultimately show ?thesis unfolding sorted_wrt_map case_prod_beta
      by (elim sorted_wrt_mono_rel [rotated]) blast
  qed
  ultimately show ?thesis using f by (auto simp: pend_inv_def fresh_state_def)
qed

lemma run_pending_inv:
  assumes "ipam_inv st" and "pend_inv st"
  shows "ipam_inv (run_pending None i st) \<and> pend_inv (run_pending None i st) \<and>
    dom (freeBlocks (run_pending None i st)) = dom (freeBlocks st)"
proof (cases "i < length (pending st)")
  case False
  then show ?thesis using assms by (simp add: run_pending_def)
next
  case True
  obtain net p where x: "pending st ! i = (net, p)" by force
  let ?R = "\<lambda>(n, p) (n', p'). names n \<inter> names n' = {}"
  let ?A = "take i (pending st)" and ?B = "drop (Suc i) (pending st)"
  have L: "pending st = ?A @ (net, p) # ?B" using nth_drop_split [OF True] x by simp
  have each: "pool_ok n \<and> freeBlocks st q \<noteq> None \<and> names n \<inter> dom (blocks st) = {}"
    if "(n, q) \<in> set (pending st)" for n q
    using assms(2) that unfolding pend_inv_def by blast
  have ok: "pool_ok net" "freeBlocks st p \<noteq> None" "names net \<inter> dom (blocks st) = {}"
    using each [of net p] nth_mem [OF True] by (simp_all add: x)
  have "sorted_wrt ?R (?A @ (net, p) # ?B)" using assms(2) L by (simp add: pend_inv_def)
  then have w: "sorted_wrt ?R (?A @ ?B)" "\<forall>(n, q)\<in>set (?A @ ?B). names n \<inter> names net = {}"
    by (auto simp: sorted_wrt_append)
  let ?st = "st\<lparr>pending := remove_at i (pending st)\<rparr>"
  have rem: "remove_at i (pending st) = ?A @ ?B" by (simp add: remove_at_def)
  obtain k st' where s: "splitIntoBlocks27 None net p ?st = (k, st')" by force
  have "ipam_inv ?st" using assms(1)
    by (simp add: ipam_inv_def block_inv_def block_ok_def queue_def free_in_def held_def tenant_ok_def owned_def)
  note sp = split_inv [OF this _ ok(1) _ s]
  have i': "ipam_inv st'" "dom (blocks st') = dom (blocks st) \<union> names net"
    "dom (freeBlocks st') = dom (freeBlocks st)" "pending st' = ?A @ ?B"
    using sp(1-4) ok(2,3) by (simp_all add: names_def rem)
  have "pend_inv st'"
    unfolding pend_inv_def i'(4)
  proof (intro conjI ballI)
    show "sorted_wrt ?R (?A @ ?B)" by (rule w)
    fix y assume y: "y \<in> set (?A @ ?B)"
    obtain n q where nq: "y = (n, q)" by force
    have "y \<in> set (pending st)" using y L by (metis in_set_conv_decomp Un_iff set_append list.set_intros(2))
    then have "pool_ok n" "freeBlocks st q \<noteq> None" "names n \<inter> dom (blocks st) = {}"
      using each nq by blast+
    moreover have "names n \<inter> names net = {}" using w(2) y nq by blast
    ultimately show "case y of (n, q) \<Rightarrow> pool_ok n \<and> freeBlocks st' q \<noteq> None \<and> names n \<inter> dom (blocks st') = {}"
      using i'(2,3) nq by (auto simp: domIff)
  qed
  then show ?thesis using True x s i'(1,3) by (simp add: run_pending_def)
qed

text \<open>The other operations keep the names of the blocks, the pools and the goroutines that wait.\<close>

definition same_pools :: "'d GlobalIPAM \<Rightarrow> 'd GlobalIPAM \<Rightarrow> bool" where
  "same_pools st st' \<longleftrightarrow> dom (blocks st') = dom (blocks st) \<and>
     dom (freeBlocks st') = dom (freeBlocks st) \<and> pending st' = pending st"

lemma pend_inv_same: "pend_inv st \<Longrightarrow> same_pools st st' \<Longrightarrow> pend_inv st'"
proof -
  assume p: "pend_inv st" and s: "same_pools st st'"
  have "(freeBlocks st' p \<noteq> None) = (freeBlocks st p \<noteq> None)" for p
    using s unfolding same_pools_def by (metis domIff)
  then show "pend_inv st'" using p s unfolding pend_inv_def same_pools_def by simp
qed

lemma same_pools_frame [simp]:
  "same_pools st (st'\<lparr>tenants := m\<rparr>) = same_pools st st'" "same_pools st (st'\<lparr>ipam_cache := c\<rparr>) = same_pools st st'"
  "same_pools st (st'\<lparr>totalTenants := k\<rparr>) = same_pools st st'"
  "same_pools st (st'\<lparr>totalExpansions := k\<rparr>) = same_pools st st'"
  "same_pools st (store_tenant t al now st') = same_pools st st'"
  by (simp_all add: same_pools_def store_tenant_def cache_store_def)

lemma same_pools_refl [simp]: "same_pools st st"
  by (simp add: same_pools_def)

lemma alloc_same:
  assumes "block_inv st" and "set ps = dom (freeBlocks st)" and "allocateBlocks None ps t n st = (r, st')"
  shows "same_pools st st'"
proof (cases "0 \<le> n")
  case True
  have "alloc_post t st n (r, st')" using allocateBlocks_post [OF assms(1) True assms(2)] assms(3) by metis
  then have "dom (blocks st') = dom (blocks st)" "dom (freeBlocks st') = dom (freeBlocks st)"
    "frame st' = frame st"
    by (cases r; clarsimp simp: alloc_post_def loop_inv_def)+
  then show ?thesis using frame_fields(7) [of st' st] by (simp add: same_pools_def)
next
  case False
  then show ?thesis using assms(3) by (simp add: allocateBlocks_def)
qed

lemma AllocateTenant_same:
  assumes "block_inv st" and "set ps = dom (freeBlocks st)"
  shows "same_pools st (snd (AllocateTenant None ps t n now st))"
  using alloc_same [OF assms, of t "if n < 1 then 1 else n"]
  by (auto simp: AllocateTenant_def Let_def split: prod.split sum.split)

lemma ExpandTenant_same:
  assumes "block_inv st" and "set ps = dom (freeBlocks st)"
  shows "same_pools st (snd (ExpandTenant None ps t n now st))"
  using alloc_same [OF assms, of t n]
  by (auto simp: ExpandTenant_def Let_def split: prod.split sum.split option.split)

lemma ReleaseTenant_same:
  assumes "ipam_inv st"
  shows "same_pools st (snd (ReleaseTenant None t st)) \<and> ipam_inv (snd (ReleaseTenant None t st))"
proof (cases "tenants st t")
  case None
  then show ?thesis using assms by (simp add: ReleaseTenant_def)
next
  case (Some al)
  note r = release_all_spec [OF ipam_invD(1) [OF assms] release_names [OF assms Some]]
  then have "same_pools st (release_all None (map IPNet_String (taNetworks al)) st)"
    using frame_fields(7) by (auto simp: same_pools_def)
  then have "same_pools st (snd (ReleaseTenant None t st))"
    using Some by (simp add: ReleaseTenant_def Let_def)
  moreover have "ipam_inv (snd (ReleaseTenant None t st))"
    by (rule ReleaseTenant_effect [OF assms Some]) simp
  ultimately show ?thesis ..
qed

lemma Close_content: "content (Close c) = Map.empty \<or> Close c = c"
  by (auto simp: Close_def content_def Clear_def fun_eq_iff)

lemma ipam_Close_inv:
  assumes "ipam_inv st"
  shows "ipam_inv (ipam_Close st)"
proof -
  have "cache_inv (Close (ipam_cache st))"
    by (rule cache_step_inv [OF cache_step.close]) (rule lru.coherent_invar [OF ipam_invD(6) [OF assms]])
  moreover have "content (Close (ipam_cache st)) \<subseteq>\<^sub>m cached (tenants st)"
    using Close_content [of "ipam_cache st"] ipam_invD(6) [OF assms] by (auto simp: lru.coherent_def)
  ultimately have "lru.coherent (cached (tenants st)) (Close (ipam_cache st))"
    by (simp add: lru.coherent_def)
  then show ?thesis using ipam_invD [OF assms] by (simp add: ipam_inv_def ipam_Close_def tenant_ok_def)
qed

lemma ipam_step_inv:
  assumes "ipam_step st st'" and "ipam_inv st" and "pend_inv st"
  shows "ipam_inv st' \<and> pend_inv st'"
  using assms
proof (cases rule: ipam_step.cases)
  case (split i)
  then show ?thesis using run_pending_inv [OF assms(2,3)] by simp
next
  case (allocate ps t n now)
  then show ?thesis
    using AllocateTenant_inv [OF assms(2)] pend_inv_same [OF assms(3) AllocateTenant_same [OF ipam_invD(1) [OF assms(2)]]]
    by simp
next
  case (expand ps t n now)
  then show ?thesis
    using ExpandTenant_inv [OF assms(2)] pend_inv_same [OF assms(3) ExpandTenant_same [OF ipam_invD(1) [OF assms(2)]]]
    by simp
next
  case (release t)
  then show ?thesis using ReleaseTenant_same [OF assms(2)] pend_inv_same [OF assms(3)] by blast
next
  case (get t now)
  obtain c where "st' = st\<lparr>ipam_cache := c\<rparr>" using GetAllocation_effect(3) [OF assms(2)] get by metis
  then have "pend_inv st'" using pend_inv_same [OF assms(3), of st'] by simp
  then show ?thesis using GetAllocation_effect(2) [OF assms(2), of t now] get by simp
next
  case (restore t cs at now)
  obtain st1 where "RestoreAllocation t cs at now st = (Inr (), st1)" "ipam_inv st1"
    "blocks st1 = upd_blocks (given t) cs (blocks st)" "pending st1 = pending st"
    "dom (freeBlocks st1) = dom (freeBlocks st)"
    by (rule RestoreAllocation_effect [OF assms(2) restore(2,3,4)])
  then show ?thesis using restore(1) pend_inv_same [OF assms(3), of st1] by (simp add: same_pools_def)
next
  case close
  then show ?thesis
    using ipam_Close_inv [OF assms(2)] pend_inv_same [OF assms(3), of st'] by (simp add: ipam_Close_def)
qed

lemma ipam_reach_inv:
  "ipam_reach cidrs st \<Longrightarrow> pools_apart cidrs \<Longrightarrow> ipam_inv st \<and> pend_inv st"
proof (induction rule: ipam_reach.induct)
  case (init d st)
  then show ?case by (intro NewGlobalIPAM_inv)
next
  case (step st st')
  then show ?case using ipam_step_inv [OF step(2)] by blast
qed

section \<open>Outcomes\<close>

lemma given_names:
  assumes "loop_inv t st0 ns al st" and "block_inv st0"
  shows "map IPNet_String ns = al"
proof -
  have l: "set al \<subseteq> free st0" "ns = map (\<lambda>c. bNetwork (the (blocks st0 c))) al"
    using assms(1) by (simp_all add: loop_inv_def)
  have "IPNet_String (bNetwork (the (blocks st0 c))) = c" if c: "c \<in> set al" for c
  proof -
    obtain b where "blocks st0 c = Some b" using subsetD [OF l(1) c] by (auto simp: free_def)
    then show ?thesis using block_invD(2) [OF assms(2)] by (auto simp: block_ok_def)
  qed
  then show ?thesis unfolding l(2) by (simp add: comp_def map_idI)
qed

lemma AllocateTenant_outcome:
  assumes "ipam_inv st" and "set ps = dom (freeBlocks st)" and "tenants st t = None"
  obtains (ok) al st' where "AllocateTenant None ps t n now st = (Inr al, st')"
      "int (length (taNetworks al)) = max 1 n" "max 1 n \<le> int (card (free st))"
      "IPNet_String ` set (taNetworks al) \<subseteq> free st"
      "free st' = free st - IPNet_String ` set (taNetworks al)"
      "tenants st' = (tenants st)(t \<mapsto> al)" "\<And>u. u \<noteq> t \<Longrightarrow> owned st' u = owned st u"
      "blocks st' = upd_blocks (given t) (map IPNet_String (taNetworks al)) (blocks st)"
  | (full) st' where "AllocateTenant None ps t n now st = (Inl (NoFreeBlocks (card (free st)) (max 1 n)), st')"
      "int (card (free st)) < max 1 n" "blocks st' = blocks st" "tenants st' = tenants st"
proof -
  note b = ipam_invD(1) [OF assms(1)]
  have n: "(if n < 1 then 1 else n) = max 1 n" by simp
  obtain r st1 where a: "allocateBlocks None ps t (max 1 n) st = (r, st1)" by force
  have post: "alloc_post t st (max 1 n) (r, st1)"
    using allocateBlocks_post [OF b _ assms(2), of "max 1 n" t] a by simp
  show thesis
  proof (cases r)
    case (Inl e)
    then have "e = NoFreeBlocks (card (free st)) (max 1 n)" "int (card (free st)) < max 1 n"
      "blocks st1 = blocks st" "frame st1 = frame st" using post by (simp_all add: alloc_post_def)
    moreover from this have "tenants st1 = tenants st" by (intro frame_fields(1))
    ultimately show thesis using full [of st1] a Inl assms(3)
      by (simp add: AllocateTenant_def n del: max_less_iff_conj)
  next
    case (Inr ns)
    obtain cs where l: "loop_inv t st ns cs st1" and len: "int (length ns) = max 1 n"
      using post Inr by (auto simp: alloc_post_def)
    note nm = given_names [OF l b]
    have cs: "set cs \<subseteq> free st" "distinct cs" using l by (simp_all add: loop_inv_def)
    let ?al = "\<lparr>taTenantID = t, taNetworks = ns, taAllocatedAt = now, taUpdatedAt = now,
      taBlockCount = length ns, taServerIPs = map getFirstUsableIP ns\<rparr>"
    let ?st = "(store_tenant t ?al now st1)\<lparr>totalTenants := totalTenants st1 + 1\<rparr>"
    have "AllocateTenant None ps t n now st = (Inr ?al, ?st)"
      using a Inr assms(3) by (simp add: AllocateTenant_def n Let_def)
    moreover have "max 1 n \<le> int (card (free st))"
      using card_mono [OF free_finite [OF b] cs(1)] distinct_card [OF cs(2)] len nm by (metis length_map of_nat_mono)
    moreover have "free ?st = free st1" by (simp add: free_def store_tenant_def cache_store_def)
    moreover have "free st1 = free st - set cs" by (rule loop_inv_free [OF l])
    moreover have fr: "frame st1 = frame st" using l by (simp add: loop_inv_def)
    then have "tenants ?st = (tenants st)(t \<mapsto> ?al)"
      using frame_fields(1) [OF fr] by (simp add: store_tenant_def cache_store_def)
    moreover have "owned ?st u = owned st u" if "u \<noteq> t" for u
      using owned_given [OF l, of u] that by (simp add: store_tenant_def cache_store_def)
    moreover have "blocks ?st = upd_blocks (given t) cs (blocks st)"
      using l by (simp add: loop_inv_def store_tenant_def cache_store_def)
    ultimately show thesis using ok [of ?al ?st] cs(1) nm len by (auto simp flip: set_map)
  qed
qed

section \<open>Properties of the single-core manager\<close>






text \<open>
  The statistics are exact: the reported number of free blocks is the number of blocks without
  an owner, and each pool reports its own.
\<close>

theorem statistics_exact:
  assumes "ipam_reach cidrs st" and "pools_apart cidrs"
  shows "stFreeBlocks (GetStatistics st) = int (card (free st)) \<and>
    stAllocatedBlocks (GetStatistics st) = int (card (held st)) \<and>
    stTotalTenants (GetStatistics st) = int (card (dom (tenants st))) \<and>
    list_all (\<lambda>ps. psFreeBlocks ps = card (free_in st (psPoolIndex ps))) (stPoolStats (GetStatistics st))"
proof -
  have inv: "ipam_inv st" using ipam_reach_inv [OF assms] by blast
  note i = ipam_invD [OF inv]
  have "dom (blocks st) = free st \<union> held st" "free st \<inter> held st = {}"
    by (auto simp: free_def held_def)
  then have "card (dom (blocks st)) = card (free st) + card (held st)"
    using card_Un_disjoint [OF free_finite [OF i(1)] held_finite [OF i(1)]] by simp
  moreover have "length (queue st p) = card (free_in st p)" for p
    using block_invD(3,4) [OF i(1), of p] distinct_card by metis
  moreover have "(case freeBlocks st p of None \<Rightarrow> 0 | Some q \<Rightarrow> length q) = length (queue st p)" for p
    by (simp add: queue_def split: option.split)
  ultimately show ?thesis
    using i(5,7) block_invD(5) [OF i(1)]
    by (simp add: GetStatistics_def list_all_iff getFreeBlockQueue_def)
qed

text \<open>
  Cutting a pool is exact: a pool with prefix \<open>n\<close> of at most 27 gives \<open>2 ^ (27 - n)\<close> blocks, and
  afterwards a /27 network is in the store, free and in that pool, exactly when it lies in
  the pool (for blocks that were not there before).
\<close>

theorem split_exact:
  assumes "ipam_inv st" and "freeBlocks st p \<noteq> None" and "v4net n net" and "n \<le> 27"
    and "names net \<inter> dom (blocks st) = {}"
  shows "fst (splitIntoBlocks27 None net p st) = 2 ^ (27 - n) \<and>
    (\<forall>m. net27 m \<and> IPNet_String m \<notin> dom (blocks st) \<longrightarrow>
       blocks (snd (splitIntoBlocks27 None net p st)) (IPNet_String m) =
         (if IPNet_Contains net (nIP m) then Some (new_block p m) else None))"
proof -
  obtain k st' where s: "splitIntoBlocks27 None net p st = (k, st')" by force
  have ok: "pool_ok net" using assms(3) by (auto simp: pool_ok_def)
  note sp = split_inv [OF assms(1,2) ok _ s] and pn = pool_nets_props [OF assms(3)]
  have d: "IPNet_String ` set (pool_nets net) \<inter> dom (blocks st) = {}" using assms(5) by (simp add: names_def)
  have "blocks st' (IPNet_String m) = (if IPNet_Contains net (nIP m) then Some (new_block p m) else None)"
    if m: "net27 m" "IPNet_String m \<notin> dom (blocks st)" for m
  proof (cases "IPNet_Contains net (nIP m)")
    case True
    have v: "v4net 27 m" and l: "length (nIP m) = 4" using m(1) net27_iff by (auto simp: net27_def)
    define i where "i = (bval (nIP m) - bval (nIP net)) div 32"
    have "(2 :: nat) ^ 5 dvd 2 ^ (32 - n)" by (rule le_imp_power_dvd) (use assms(4) in simp)
    then have "32 dvd bval (nIP net)" using v4net_dvd [OF assms(3)] by (auto intro: dvd_trans)
    moreover have "32 dvd bval (nIP m)" using v4net_dvd [OF v] by simp
    moreover have r: "bval (nIP net) \<le> bval (nIP m)" "bval (nIP m) < bval (nIP net) + 2 ^ (32 - n)"
      using True v4net_Contains [OF assms(3) l] by simp_all
    ultimately have iv: "bval (nIP m) = bval (nIP net) + 32 * i"
      by (simp add: i_def dvd_diff_nat)
    have "32 - n = 5 + (27 - n)" using assms(4) by simp
    then have "(2 :: nat) ^ (32 - n) = 32 * 2 ^ (27 - n)" by (simp only: power_add) simp
    then have i: "i < 2 ^ (27 - n)" using r(2) iv by simp
    have "nIP m = nIP (block_at net i)"
      using block_at_val [OF assms(3,4) i] iv l bval_inj by metis
    then have "m = block_at net i" using m(1) by (simp add: net27_def block_at_def CIDRMask_27)
    then have "m \<in> set (pool_nets net)"
      using i assms(4) by (auto simp: pool_nets_def v4net_prefix [OF assms(3)])
    then show ?thesis using True sp(6) d by simp
  next
    case False
    have "IPNet_String m \<notin> IPNet_String ` set (pool_nets net)"
    proof
      assume "IPNet_String m \<in> IPNet_String ` set (pool_nets net)"
      then obtain m' where m': "m' \<in> set (pool_nets net)" "IPNet_String m = IPNet_String m'" by auto
      then have "m = m'" using IPNet_String_27_inj [OF m(1)] pn(2) by blast
      then show False using pn(2) m'(1) False by blast
    qed
    then have "blocks st' (IPNet_String m) = blocks st (IPNet_String m)" using sp(7) d by blast
    then show ?thesis using m(2) False by (auto simp: domIff)
  qed
  then show ?thesis using sp(5) d pn(3) [OF assms(4)] s by simp
qed

section \<open>Overlapping pools\<close>

lemma parse27: "net27 m \<Longrightarrow> cidr_net (IPNet_String m) = m"
  by (simp add: cidr_net_def ParseCIDR_27)

lemma pool_nets_27:
  assumes "net27 m"
  shows "pool_nets m = [m]"
proof -
  have "net_bits m = 27" using assms net27_iff v4net_prefix by blast
  moreover have "block_at m 0 = m" using assms by (simp add: block_at_def net27_def CIDRMask_27)
  ultimately show ?thesis by (simp add: pool_nets_def)
qed

lemma net27_pool_ok: "net27 m \<Longrightarrow> v4net 27 m \<or> 27 < net_bits m"
  by (simp add: net27_iff)

definition overlap :: "IPNet \<Rightarrow> unit GlobalIPAM" where
  "overlap m = run_pending None 0 (run_pending None 0
     (projr (NewGlobalIPAM None () [IPNet_String m, IPNet_String m])))"

lemma overlap_state:
  assumes "net27 m"
  shows "blocks (overlap m) (IPNet_String m) = Some (new_block 1 m)"
    "freeBlocks (overlap m) = [0 \<mapsto> [IPNet_String m], 1 \<mapsto> [IPNet_String m]]"
    "tenants (overlap m) = Map.empty"
proof -
  let ?c = "IPNet_String m"
  have m: "m = \<lparr>nIP = nIP m, nMask = CIDRMask 27 32\<rparr>" "length (nIP m) = 4"
    using assms by (simp_all add: net27_def CIDRMask_27)
  define s0 where "s0 = projr (NewGlobalIPAM None () [?c, ?c])"
  have s0: "blocks s0 = Map.empty" "freeBlocks s0 = [0 \<mapsto> [], 1 \<mapsto> []]" "pending s0 = [(m, 0), (m, 1)]"
    "tenants s0 = Map.empty"
    unfolding s0_def using m(2)
    by (auto simp: NewGlobalIPAM_def addPoolAndSplit_def ParseCIDR_27 [OF assms] Let_def
        ensureFreeBlockQueue_def getFreeBlockQueue_def fun_eq_iff)
  have str: "IPNet_String \<lparr>nIP = nIP m, nMask = CIDRMask 27 32\<rparr> = ?c" using m(1) by simp
  have sp: "splitIntoBlocks27 None m p st = (1, (split_block None p (nIP m) st)
      \<lparr>totalBlocks := totalBlocks (split_block None p (nIP m) st) + 1\<rparr>)"
    if "freeBlocks st p \<noteq> None" for p and st :: "unit GlobalIPAM"
    using splitIntoBlocks27_fold [OF net27_pool_ok [OF assms] that, of None] pool_nets_27 [OF assms] by simp
  have "overlap m = run_pending None 0 (run_pending None 0 s0)" by (simp add: overlap_def s0_def)
  then show "blocks (overlap m) ?c = Some (new_block 1 m)"
    "freeBlocks (overlap m) = [0 \<mapsto> [?c], 1 \<mapsto> [?c]]" "tenants (overlap m) = Map.empty"
    by (auto simp: run_pending_def s0 sp split_block_def Let_def str enqueue_def remove_at_def
        new_block_def m(1) [symmetric] fun_eq_iff)
qed

text \<open>
  Pools that overlap share a block: when a pool is configured twice, its block is put into both
  queues, and two tenants are allocated one and the same network.
\<close>

theorem overlapping_pools_share:
  assumes "net27 m"
  shows "\<exists>a b st1 st2. AllocateTenant None [0, 1] ''a'' 1 now (overlap m) = (Inr a, st1) \<and>
    AllocateTenant None [0, 1] ''b'' 1 now st1 = (Inr b, st2) \<and>
    taNetworks a = [m] \<and> taNetworks b = [m]"
proof -
  let ?c = "IPNet_String m" and ?st = "overlap m"
  note o = overlap_state [OF assms]
  let ?s1 = "take_block ''a'' ?c 0 [] (new_block 1 m) ?st"
  have n: "bNetwork (new_block 1 m) = m" by (simp add: new_block_def)
  have a1: "allocateBlocks None [0, 1] ''a'' 1 ?st = (Inr [m], ?s1)"
    unfolding allocateBlocks_def
    by (simp add: allocate_loop.simps [of None "''a''" 1 "[0, 1]" 0] allocate_loop.simps [of None "''a''" 1 _ "Suc 0"]
        popFreeBlock_None o mark_def take_block_def n)
  have "\<exists>a s2. AllocateTenant None [0, 1] ''a'' 1 now ?st = (Inr a, s2) \<and> taNetworks a = [m] \<and>
      blocks s2 ?c = Some (given ''a'' (new_block 1 m)) \<and> freeBlocks s2 = [0 \<mapsto> [], 1 \<mapsto> [?c]] \<and>
      tenants s2 ''b'' = None"
    using o a1 by (simp add: AllocateTenant_def Let_def store_tenant_def cache_store_def take_block_def given_def fun_upd_twist)
  then obtain a s2 where s2: "AllocateTenant None [0, 1] ''a'' 1 now ?st = (Inr a, s2)" "taNetworks a = [m]"
    "blocks s2 ?c = Some (given ''a'' (new_block 1 m))" "freeBlocks s2 = [0 \<mapsto> [], 1 \<mapsto> [?c]]"
    "tenants s2 ''b'' = None" by blast
  have "\<exists>s3. allocateBlocks None [0, 1] ''b'' 1 s2 = (Inr [m], s3)"
    unfolding allocateBlocks_def
    by (simp add: allocate_loop.simps [of None "''b''" 1 "[0, 1]" 0] allocate_loop.simps [of None "''b''" 1 "[1]" 0]
        allocate_loop.simps [of None "''b''" 1 _ "Suc 0"] popFreeBlock_None s2 mark_def remove_at_def n given_def)
  then obtain s3 where "allocateBlocks None [0, 1] ''b'' 1 s2 = (Inr [m], s3)" by blast
  then have "\<exists>b s4. AllocateTenant None [0, 1] ''b'' 1 now s2 = (Inr b, s4) \<and> taNetworks b = [m]"
    using s2(5) by (simp add: AllocateTenant_def Let_def)
  then show ?thesis using s2(1,2) by blast
qed

section \<open>Concrete runs\<close>

definition demo_cidrs :: "string list" where
  "demo_cidrs = [''10.0.0.0/27'', ''10.1.0.0/27'']"

definition demo_start :: "unit GlobalIPAM" where
  "demo_start = projr (NewGlobalIPAM None () demo_cidrs)"

definition demo :: "unit GlobalIPAM" where
  "demo = run_pending None 0 (run_pending None 0 demo_start)"

lemma demo_new: "NewGlobalIPAM None () demo_cidrs = Inr demo_start"
proof -
  have "\<not> isl (NewGlobalIPAM None () demo_cidrs :: ipam_error + unit GlobalIPAM)" by code_simp
  then show ?thesis by (simp add: demo_start_def)
qed

lemma demo_apart: "pools_apart demo_cidrs"
  by code_simp

lemma demo_start_reach: "ipam_reach demo_cidrs demo_start"
  by (rule ipam_reach.init [OF demo_new])

lemma demo_reach: "ipam_reach demo_cidrs demo"
  unfolding demo_def by (intro ipam_reach.step [OF _ ipam_step.split] demo_start_reach)

lemma demo_queues: "queue demo 0 = [''10.0.0.0/27'']" "queue demo 1 = [''10.1.0.0/27'']"
  "tenants demo ''a'' = None" "tenants demo ''b'' = None"
  by code_simp+

lemma demo_dom: "set [0, 1] = dom (freeBlocks demo)"
proof -
  have p: "ParseCIDR ''10.0.0.0/27'' = Some (v4InV6Prefix @ [10, 0, 0, 0], \<lparr>nIP = [10, 0, 0, 0], nMask = mask27\<rparr>)"
    "ParseCIDR ''10.1.0.0/27'' = Some (v4InV6Prefix @ [10, 1, 0, 0], \<lparr>nIP = [10, 1, 0, 0], nMask = mask27\<rparr>)"
    by code_simp+
  have "dom (freeBlocks demo_start) = {0, 1}"
    by (auto simp: demo_start_def demo_cidrs_def NewGlobalIPAM_def addPoolAndSplit_def p Let_def
        ensureFreeBlockQueue_def getFreeBlockQueue_def)
  moreover have "ipam_inv demo_start \<and> pend_inv demo_start"
    by (rule ipam_reach_inv [OF demo_start_reach demo_apart])
  ultimately show ?thesis
    using run_pending_inv [of demo_start 0] run_pending_inv [of "run_pending None 0 demo_start" 0]
    by (simp add: demo_def)
qed

lemma demo_free: "2 \<le> card (free demo)"
proof -
  have inv: "ipam_inv demo" using ipam_reach_inv [OF demo_reach demo_apart] by blast
  note b = ipam_invD(1) [OF inv]
  have "free_in demo p \<subseteq> free demo" for p by (auto simp: free_in_def free_def)
  then have "{''10.0.0.0/27'', ''10.1.0.0/27''} \<subseteq> free demo"
    using block_invD(4) [OF b, of 0] block_invD(4) [OF b, of 1] by (auto simp: demo_queues)
  from card_mono [OF free_finite [OF b] this] show ?thesis by simp
qed

lemma AllocateTenant_one:
  assumes "ipam_inv st" and "set ps = dom (freeBlocks st)" and "tenants st t = None" and "1 \<le> card (free st)"
  obtains al st' where "AllocateTenant None ps t 1 now st = (Inr al, st')" "length (taNetworks al) = 1"
    "free st' = free st - IPNet_String ` set (taNetworks al)" "tenants st' = (tenants st)(t \<mapsto> al)"
proof (cases rule: AllocateTenant_outcome [OF assms(1-3), of 1 now])
  case (1 al st')
  then show thesis by (intro that [of al st']) simp_all
next
  case (2 st')
  then show thesis using assms(4) by simp
qed






theorem statistics_exact_witness: "stFreeBlocks (GetStatistics demo) \<ge> 2"
  using statistics_exact [OF demo_reach demo_apart] demo_free by simp

theorem split_exact_witness:
  "fst (splitIntoBlocks27 None \<lparr>nIP = [10, 0, 0, 0], nMask = mask27\<rparr> 0 demo_start) = 1"
proof -
  let ?n = "\<lparr>nIP = [10, 0, 0, 0], nMask = mask27\<rparr>"
  have "ipam_inv demo_start" using ipam_reach_inv [OF demo_start_reach demo_apart] by blast
  moreover have "freeBlocks demo_start 0 \<noteq> None" by code_simp
  moreover have "v4net 27 ?n" by code_simp
  moreover have "blocks demo_start ''10.0.0.0/27'' = None" "IPNet_String ?n = ''10.0.0.0/27''" by code_simp+
  then have "names ?n \<inter> dom (blocks demo_start) = {}"
    using pool_nets_27 [of ?n] \<open>v4net 27 ?n\<close> net27_iff by (auto simp: names_def)
  ultimately show ?thesis using split_exact [of demo_start 0 27 ?n] by simp
qed

theorem overlapping_pools_share_witness:
  "\<exists>a b st1 st2. AllocateTenant None [0, 1] ''a'' 1 7 (overlap \<lparr>nIP = [10, 0, 0, 0], nMask = mask27\<rparr>) = (Inr a, st1) \<and>
    AllocateTenant None [0, 1] ''b'' 1 7 st1 = (Inr b, st2) \<and> taNetworks a = taNetworks b"
proof -
  have "net27 \<lparr>nIP = [10, 0, 0, 0], nMask = mask27\<rparr>" by code_simp
  from overlapping_pools_share [OF this, of 7] show ?thesis by fastforce
qed

end
