(* ===== verification/Acl.thy ===== *)
theory Acl
  imports GoNet Cache_Contract
begin

text \<open>
  The access rules of a tenant network: \<open>src/internal/acl/acl.go\<close>, the cache key of
  \<open>src/internal/cache/integration.go\<close> and the repository
  \<open>src/internal/store/postgres/acl_repository.go\<close>.

  The manager keeps each account's rules sorted by priority, an index from protocol and port to
  rules, the subnets that rules are validated against, and a cache of decisions (the model of
  \<open>Cache\<close>). A rule is not changed once it is stored, so the pointers that the rule list and the
  index share are values here. The repository is a record of operations on a database state; it
  is absent for a manager without persistence. The locks make each operation atomic; the pause
  of \<open>CheckAccess\<close> between reading the cache and evaluating the rules is not modelled.

  A slice expression or an array index out of range is the value \<open>Panic\<close> or an error
  \<open>AclPanic\<close>.
\<close>

unbundle bit_operations_syntax

section \<open>Data\<close>

record ACLRule =
  rID :: string
  rAccountID :: string
  rName :: string
  rAction :: string
  rProtocol :: string
  rSourceIPs :: "string list"
  rDestIPs :: "string list"
  rDestPorts :: "int list"
  rPriority :: int
  rDescription :: string
  rCreatedAt :: gotime
  rUpdatedAt :: gotime
  rSourcePeerIDs :: "string list"
  rDestPeerIDs :: "string list"
  rServices :: "string list"
  srcIPsParsed :: "IP list"
  dstIPsParsed :: "IP list"
  portBitmap :: "byte list option"
  hasAnySource :: bool
  hasAnyDest :: bool

record ACLRuleData =
  aID :: string
  aAccountID :: string
  aName :: string
  aAction :: string
  aProtocol :: string
  aSourceIPs :: "string list"
  aDestIPs :: "string list"
  aDestPorts :: "int list"
  aPriority :: int
  aDescription :: string
  aCreatedAt :: gotime
  aUpdatedAt :: gotime
  aSourcePeerIDs :: "string list"
  aDestPeerIDs :: "string list"
  aServices :: "string list"

record ACLCacheResult =
  crAllowed :: bool
  crRuleID :: string
  crCachedAt :: int

datatype acl_error =
    AccountRequired
  | BadAction
  | BadProtocol
  | InvalidSourceIP string
  | InvalidDestIP string
  | NotIPv4 string
  | NotOverlay string
  | OtherTenant string string
  | OutsideSubnet string
  | SaveFailed string
  | RuleNotFound string
  | DeleteFailed string
  | InvalidSubnet string
  | AclPanic

record 'd ACLRepository =
  repo_SaveRule :: "ACLRuleData \<Rightarrow> 'd \<Rightarrow> (string + unit) \<times> 'd"
  repo_ListByAccount :: "string \<Rightarrow> 'd \<Rightarrow> string + ACLRuleData list"
  repo_DeleteRule :: "string \<Rightarrow> 'd \<Rightarrow> (string + unit) \<times> 'd"

type_synonym rule_index = "string \<Rightarrow> (int \<Rightarrow> ACLRule list) option"

record 'd ACLManager =
  rules :: "string \<Rightarrow> ACLRule list option"
  loadedAccounts :: "string \<Rightarrow> bool"
  tenantSubnets :: "(string, IPNet) gomap"
  ruleIndex :: "string \<Rightarrow> rule_index option"
  accessCache :: "ACLCacheResult Cache option"
  acl_db :: 'd

section \<open>PostgreSQL\<close>

record acl_table =
  acl_rows :: "(string, ACLRuleData) gomap"
  acl_up :: bool

definition pg_SaveRule :: "gotime \<Rightarrow> ACLRuleData \<Rightarrow> acl_table \<Rightarrow> (string + unit) \<times> acl_table" where
  "pg_SaveRule now rule d =
     (if \<not> acl_up d then (Inl ''connection refused'', d)
      else let model = rule\<lparr>aCreatedAt := (if IsZero (aCreatedAt rule) then now else aCreatedAt rule),
                            aUpdatedAt := (if IsZero (aUpdatedAt rule) then now else aUpdatedAt rule)\<rparr>
        in (Inr (), d\<lparr>acl_rows := AList.update (aID model) model (acl_rows d)\<rparr>))"

definition pg_GetRule :: "string \<Rightarrow> acl_table \<Rightarrow> string + ACLRuleData" where
  "pg_GetRule ruleID d =
     (if \<not> acl_up d then Inl ''connection refused''
      else case map_of (acl_rows d) ruleID of
        None \<Rightarrow> Inl (''acl rule not found: '' @ ruleID)
      | Some r \<Rightarrow> Inr r)"

text \<open>\<open>ORDER BY priority\<close> leaves the order of equal priorities open: \<open>insort_key\<close> is one of them.\<close>

definition pg_ListByAccount :: "string \<Rightarrow> acl_table \<Rightarrow> string + ACLRuleData list" where
  "pg_ListByAccount accountID d =
     (if \<not> acl_up d then Inl ''connection refused''
      else Inr (sort_key aPriority (filter (\<lambda>r. aAccountID r = accountID) (map snd (acl_rows d)))))"

definition pg_DeleteRule :: "string \<Rightarrow> acl_table \<Rightarrow> (string + unit) \<times> acl_table" where
  "pg_DeleteRule ruleID d =
     (if \<not> acl_up d then (Inl ''connection refused'', d)
      else if map_of (acl_rows d) ruleID = None then (Inl ''acl rule not found'', d)
      else (Inr (), d\<lparr>acl_rows := AList.delete ruleID (acl_rows d)\<rparr>))"

definition NewACLRepository :: "gotime \<Rightarrow> acl_table ACLRepository" where
  "NewACLRepository now = \<lparr>repo_SaveRule = pg_SaveRule now, repo_ListByAccount = pg_ListByAccount,
     repo_DeleteRule = pg_DeleteRule\<rparr>"

section \<open>Creating a manager\<close>

definition NewACLManager :: "nat \<Rightarrow> 'd \<Rightarrow> 'd ACLManager" where
  "NewACLManager bfs d = \<lparr>rules = Map.empty, loadedAccounts = (\<lambda>_. False), tenantSubnets = [],
     ruleIndex = Map.empty, accessCache = Some (NewCacheForType bfs TypeACL), acl_db = d\<rparr>"

definition rules_of :: "'d ACLManager \<Rightarrow> string \<Rightarrow> ACLRule list" where
  "rules_of m accountID = (case rules m accountID of None \<Rightarrow> [] | Some rs \<Rightarrow> rs)"

section \<open>The fast path of a rule\<close>

definition set_port :: "byte list \<Rightarrow> int \<Rightarrow> byte list" where
  "set_port bm port =
     (if 0 \<le> port \<and> port < 65536 then
        (let byteIdx = nat (port div 8); bitIdx = nat (port mod 8)
         in bm[byteIdx := (bm ! byteIdx) OR push_bit bitIdx 1])
      else bm)"

definition optimizeRule :: "ACLRule \<Rightarrow> ACLRule" where
  "optimizeRule rule = rule\<lparr>
     srcIPsParsed := List.map_filter ParseIP (filter (\<lambda>ip. ip \<noteq> ''any'') (rSourceIPs rule)),
     hasAnySource := (''any'' \<in> set (rSourceIPs rule)),
     dstIPsParsed := List.map_filter ParseIP (filter (\<lambda>ip. ip \<noteq> ''any'') (rDestIPs rule)),
     hasAnyDest := (''any'' \<in> set (rDestIPs rule)),
     portBitmap := (if 10 \<le> length (rDestPorts rule)
        then Some (fold (\<lambda>port bm. set_port bm port) (rDestPorts rule) (replicate 8192 0))
        else portBitmap rule)\<rparr>"

text \<open>
  The bitmap check. Go truncates \<open>dstPort / 8\<close> and \<open>dstPort % 8\<close>: for \<open>-8 < dstPort < 0\<close> the byte
  index is 0 and the shift count wraps to a huge number, which gives 0; every other index outside
  the array panics.
\<close>

definition bitmap_has :: "byte list \<Rightarrow> int \<Rightarrow> bool option" where
  "bitmap_has bm dstPort =
     (if - 8 < dstPort \<and> dstPort < 0 then Some False
      else if dstPort < 0 \<or> 65536 \<le> dstPort then None
      else Some ((bm ! nat (dstPort div 8)) AND push_bit (nat (dstPort mod 8)) 1 \<noteq> 0))"

definition ruleMatchesFast :: "ACLRule \<Rightarrow> IP \<Rightarrow> IP \<Rightarrow> int \<Rightarrow> bool option" where
  "ruleMatchesFast rule srcIP dstIP dstPort =
     (if \<not> hasAnySource rule \<and> srcIPsParsed rule \<noteq> [] \<and>
         \<not> list_ex (\<lambda>ruleIP. IP_Equal ruleIP srcIP) (srcIPsParsed rule) then Some False
      else if \<not> hasAnyDest rule \<and> dstIPsParsed rule \<noteq> [] \<and>
         \<not> list_ex (\<lambda>ruleIP. IP_Equal ruleIP dstIP) (dstIPsParsed rule) then Some False
      else if rDestPorts rule \<noteq> [] then
        (case portBitmap rule of
           Some bm \<Rightarrow> bitmap_has bm dstPort
         | None \<Rightarrow> Some (list_ex (\<lambda>rulePort. rulePort = dstPort) (rDestPorts rule)))
      else Some True)"

section \<open>The slow path of a rule\<close>

definition ipMatches :: "string \<Rightarrow> string list \<Rightarrow> bool" where
  "ipMatches ip ruleIPs \<longleftrightarrow> ruleIPs = [] \<or> list_ex (\<lambda>ruleIP. ruleIP = ''any'' \<or> ruleIP = ip) ruleIPs"

definition portMatches :: "int \<Rightarrow> int list \<Rightarrow> bool" where
  "portMatches port rulePorts \<longleftrightarrow> list_ex (\<lambda>rulePort. rulePort = port) rulePorts"

definition ruleMatches :: "ACLRule \<Rightarrow> string \<Rightarrow> string \<Rightarrow> string \<Rightarrow> int \<Rightarrow> bool" where
  "ruleMatches rule protocol srcIP dstIP dstPort =
     (if rProtocol rule \<noteq> ''all'' \<and> rProtocol rule \<noteq> protocol then False
      else if \<not> ipMatches srcIP (rSourceIPs rule) then False
      else if \<not> ipMatches dstIP (rDestIPs rule) then False
      else if (protocol = ''tcp'' \<or> protocol = ''udp'') \<and> rDestPorts rule \<noteq> [] \<and>
         \<not> portMatches dstPort (rDestPorts rule) then False
      else True)"

section \<open>Index and order\<close>

definition add_index :: "int \<Rightarrow> ACLRule \<Rightarrow> (int \<Rightarrow> ACLRule list) \<Rightarrow> int \<Rightarrow> ACLRule list" where
  "add_index port rule pm = pm(port := pm port @ [rule])"

definition indexRule :: "string \<Rightarrow> ACLRule \<Rightarrow> rule_index \<Rightarrow> rule_index" where
  "indexRule protocol rule idx =
     (let pm = (case idx protocol of None \<Rightarrow> (\<lambda>_. []) | Some pm \<Rightarrow> pm)
      in idx(protocol \<mapsto>
           (if protocol = ''tcp'' \<or> protocol = ''udp'' then
              (if rDestPorts rule = [] then add_index 0 rule pm
               else fold (\<lambda>port. add_index port rule) (rDestPorts rule) pm)
            else add_index 0 rule pm)))"

definition index_all :: "ACLRule \<Rightarrow> rule_index \<Rightarrow> rule_index" where
  "index_all rule idx =
     (if rProtocol rule = ''all'' then fold (\<lambda>p. indexRule p rule) [''tcp'', ''udp'', ''icmp''] idx
      else indexRule (rProtocol rule) rule idx)"

definition rebuildIndex :: "string \<Rightarrow> 'd ACLManager \<Rightarrow> 'd ACLManager" where
  "rebuildIndex accountID m =
     m\<lparr>ruleIndex := (ruleIndex m)(accountID \<mapsto> fold index_all (rules_of m accountID) Map.empty)\<rparr>"

text \<open>
  The two loops of \<open>sortRules\<close>. The inner loop compares \<open>rules[i]\<close>, here \<open>x\<close>, with each later rule
  and exchanges them when the later one has the smaller priority; it returns the rule left at \<open>i\<close>
  and the rest of the slice.
\<close>

fun sort_pass :: "ACLRule \<Rightarrow> ACLRule list \<Rightarrow> ACLRule \<times> ACLRule list" where
  "sort_pass x [] = (x, [])"
| "sort_pass x (y # ys) =
     (if rPriority y < rPriority x then (let (m, zs) = sort_pass y ys in (m, x # zs))
      else (let (m, zs) = sort_pass x ys in (m, y # zs)))"

lemma length_sort_pass [simp]: "length (snd (sort_pass x ys)) = length ys"
  by (induction x ys rule: sort_pass.induct) (auto split: prod.split simp: case_prod_beta)

fun sort_slice :: "ACLRule list \<Rightarrow> ACLRule list" where
  "sort_slice [] = []"
| "sort_slice (x # xs) = fst (sort_pass x xs) # sort_slice (snd (sort_pass x xs))"

definition sortRules :: "string \<Rightarrow> 'd ACLManager \<Rightarrow> 'd ACLManager" where
  "sortRules accountID m =
     (case rules m accountID of
        None \<Rightarrow> m
      | Some rs \<Rightarrow> m\<lparr>rules := (rules m)(accountID \<mapsto> sort_slice rs)\<rparr>)"

definition invalidateACLCache :: "'d ACLManager \<Rightarrow> 'd ACLManager" where
  "invalidateACLCache m = m\<lparr>accessCache := map_option Clear (accessCache m)\<rparr>"

section \<open>Loading\<close>

definition from_data :: "ACLRuleData \<Rightarrow> ACLRule" where
  "from_data r = optimizeRule \<lparr>rID = aID r, rAccountID = aAccountID r, rName = aName r,
     rAction = aAction r, rProtocol = aProtocol r, rSourceIPs = aSourceIPs r, rDestIPs = aDestIPs r,
     rDestPorts = aDestPorts r, rPriority = aPriority r, rDescription = aDescription r,
     rCreatedAt = aCreatedAt r, rUpdatedAt = aUpdatedAt r, rSourcePeerIDs = aSourcePeerIDs r,
     rDestPeerIDs = aDestPeerIDs r, rServices = aServices r, srcIPsParsed = [], dstIPsParsed = [],
     portBitmap = None, hasAnySource = False, hasAnyDest = False\<rparr>"

definition to_data :: "ACLRule \<Rightarrow> ACLRuleData" where
  "to_data r = \<lparr>aID = rID r, aAccountID = rAccountID r, aName = rName r, aAction = rAction r,
     aProtocol = rProtocol r, aSourceIPs = rSourceIPs r, aDestIPs = rDestIPs r,
     aDestPorts = rDestPorts r, aPriority = rPriority r, aDescription = rDescription r,
     aCreatedAt = rCreatedAt r, aUpdatedAt = rUpdatedAt r, aSourcePeerIDs = rSourcePeerIDs r,
     aDestPeerIDs = rDestPeerIDs r, aServices = rServices r\<rparr>"

definition loadAccountRulesLocked :: "'d ACLRepository option \<Rightarrow> string \<Rightarrow> 'd ACLManager \<Rightarrow> 'd ACLManager" where
  "loadAccountRulesLocked R accountID m =
     (case R of
        None \<Rightarrow> m
      | Some r \<Rightarrow> (case repo_ListByAccount r accountID (acl_db m) of
          Inl e \<Rightarrow> m
        | Inr rs \<Rightarrow> rebuildIndex accountID (sortRules accountID
            (m\<lparr>rules := (rules m)(accountID \<mapsto> map from_data rs)\<rparr>))))"

text \<open>An account counts as loaded even when the load failed.\<close>

definition ensureRulesLoaded :: "'d ACLRepository option \<Rightarrow> string \<Rightarrow> 'd ACLManager \<Rightarrow> 'd ACLManager" where
  "ensureRulesLoaded R accountID m =
     (if R = None \<or> loadedAccounts m accountID then m
      else (loadAccountRulesLocked R accountID m)
        \<lparr>loadedAccounts := (loadedAccounts m)(accountID := True)\<rparr>)"

section \<open>Validation\<close>

definition possible_owner :: "string list \<Rightarrow> IP \<Rightarrow> string \<Rightarrow> 'd ACLManager \<Rightarrow> string" where
  "possible_owner order ip accountID m =
     (case find (\<lambda>other. other \<noteq> accountID \<and>
              (case map_of (tenantSubnets m) other of None \<Rightarrow> False | Some n \<Rightarrow> IPNet_Contains n ip)) order of
        None \<Rightarrow> [] | Some other \<Rightarrow> other)"

text \<open>\<open>order\<close> is the order in which \<open>range\<close> visits the subnets; \<open>accountID[:8]\<close> panics on a short id.\<close>

definition validateIPBelongsToTenant ::
  "string list \<Rightarrow> string \<Rightarrow> string \<Rightarrow> 'd ACLManager \<Rightarrow> acl_error + unit" where
  "validateIPBelongsToTenant order ip accountID m =
     (case ParseIP ip of
        None \<Rightarrow> Inl (InvalidSourceIP ip)
      | Some parsedIP \<Rightarrow>
          (let ipv4 = To4 parsedIP in
           if ipv4 = [] then Inl (NotIPv4 ip)
           else case map_of (tenantSubnets m) accountID of
             None \<Rightarrow> if hd ipv4 \<noteq> 10 \<and> hd ipv4 \<noteq> 100 then Inl (NotOverlay ip) else Inr ()
           | Some tenantSubnet \<Rightarrow>
               if \<not> IPNet_Contains tenantSubnet parsedIP then
                 (let possibleOwner = possible_owner order parsedIP accountID m in
                  if possibleOwner \<noteq> [] then
                    (if length possibleOwner < 8 \<or> length accountID < 8 then Inl AclPanic
                     else Inl (OtherTenant ip possibleOwner))
                  else if length accountID < 8 then Inl AclPanic
                  else Inl (OutsideSubnet ip))
               else Inr ()))"

fun validate_ips ::
  "(string \<Rightarrow> acl_error) \<Rightarrow> string list \<Rightarrow> string \<Rightarrow> 'd ACLManager \<Rightarrow> string list \<Rightarrow> acl_error + unit" where
  "validate_ips bad order accountID m [] = Inr ()"
| "validate_ips bad order accountID m (ip # ips) =
     (if ip = ''any'' then validate_ips bad order accountID m ips
      else if ParseIP ip = None then Inl (bad ip)
      else res_bind (validateIPBelongsToTenant order ip accountID m)
        (\<lambda>_. validate_ips bad order accountID m ips))"

definition validateRule :: "string list \<Rightarrow> ACLRule \<Rightarrow> 'd ACLManager \<Rightarrow> acl_error + unit" where
  "validateRule order rule m =
     (if rAccountID rule = [] then Inl AccountRequired
      else if rAction rule \<noteq> ''allow'' \<and> rAction rule \<noteq> ''deny'' then Inl BadAction
      else if rProtocol rule \<notin> {''tcp'', ''udp'', ''icmp'', ''all'', ''any''} then Inl BadProtocol
      else res_bind (validate_ips InvalidSourceIP order (rAccountID rule) m (rSourceIPs rule))
        (\<lambda>_. validate_ips InvalidDestIP order (rAccountID rule) m (rDestIPs rule)))"

definition RegisterTenantSubnet :: "string \<Rightarrow> string \<Rightarrow> 'd ACLManager \<Rightarrow> (acl_error + unit) \<times> 'd ACLManager" where
  "RegisterTenantSubnet accountID subnet m =
     (case ParseCIDR subnet of
        None \<Rightarrow> (Inl (InvalidSubnet subnet), m)
      | Some (_, ipNet) \<Rightarrow> (Inr (), m\<lparr>tenantSubnets := AList.update accountID ipNet (tenantSubnets m)\<rparr>))"

definition UnregisterTenantSubnet :: "string \<Rightarrow> 'd ACLManager \<Rightarrow> 'd ACLManager" where
  "UnregisterTenantSubnet accountID m = m\<lparr>tenantSubnets := AList.delete accountID (tenantSubnets m)\<rparr>"

section \<open>Changing the rules\<close>

definition saveRule :: "'d ACLRepository option \<Rightarrow> ACLRule \<Rightarrow> 'd ACLManager \<Rightarrow> (string + unit) \<times> 'd ACLManager" where
  "saveRule R rule m =
     (case R of
        None \<Rightarrow> (Inr (), m)
      | Some r \<Rightarrow> (let (res, d) = repo_SaveRule r (to_data rule) (acl_db m) in (res, m\<lparr>acl_db := d\<rparr>)))"

definition rule_id :: "ACLRule \<Rightarrow> 'd ACLManager \<Rightarrow> string" where
  "rule_id rule m =
     (let accountPrefix = (if 8 < length (rAccountID rule) then take 8 (rAccountID rule) else rAccountID rule)
      in ''acl-'' @ accountPrefix @ ''-'' @ utoa (length (rules_of m (rAccountID rule))))"

text \<open>The part of \<open>AddRule\<close> under the lock, and the whole.\<close>

definition AddRule_locked ::
  "'d ACLRepository option \<Rightarrow> ACLRule \<Rightarrow> gotime \<Rightarrow> 'd ACLManager \<Rightarrow> (acl_error + ACLRule) \<times> 'd ACLManager" where
  "AddRule_locked R rule now m1 =
     (let acc = rAccountID rule;
          rule1 = (if rID rule = [] then rule\<lparr>rID := rule_id rule m1\<rparr> else rule);
          rule2 = rule1\<lparr>rCreatedAt := (if IsZero (rCreatedAt rule1) then now else rCreatedAt rule1),
                        rUpdatedAt := now\<rparr>
      in case saveRule R rule2 m1 of
           (Inl e, m2) \<Rightarrow> (Inl (SaveFailed e), m2)
         | (Inr _, m2) \<Rightarrow>
             (let rule3 = optimizeRule rule2;
                  m3 = m2\<lparr>rules := (rules m2)(acc \<mapsto> rules_of m2 acc @ [rule3])\<rparr>;
                  m4 = rebuildIndex acc (sortRules acc m3)
              in (Inr rule3, invalidateACLCache m4)))"

definition AddRule ::
  "'d ACLRepository option \<Rightarrow> string list \<Rightarrow> ACLRule \<Rightarrow> gotime \<Rightarrow> 'd ACLManager \<Rightarrow>
   (acl_error + ACLRule) \<times> 'd ACLManager" where
  "AddRule R order rule now m =
     (case validateRule order rule m of
        Inl e \<Rightarrow> (Inl e, m)
      | Inr _ \<Rightarrow> AddRule_locked R rule now (ensureRulesLoaded R (rAccountID rule) m))"

definition RemoveRule ::
  "'d ACLRepository option \<Rightarrow> string \<Rightarrow> string \<Rightarrow> 'd ACLManager \<Rightarrow> (acl_error + unit) \<times> 'd ACLManager" where
  "RemoveRule R accountID ruleID m =
     (let m1 = ensureRulesLoaded R accountID m; rs = rules_of m1 accountID in
      if \<not> list_ex (\<lambda>rule. rID rule = ruleID) rs then (Inl (RuleNotFound ruleID), m1)
      else
        let m2 = m1\<lparr>rules := (rules m1)(accountID \<mapsto> remove_first (\<lambda>rule. rID rule = ruleID) rs)\<rparr>;
            (res, m3) = (case R of
                None \<Rightarrow> (Inr (), m2)
              | Some r \<Rightarrow> (let (res, d) = repo_DeleteRule r ruleID (acl_db m2) in (res, m2\<lparr>acl_db := d\<rparr>)))
        in case res of
             Inl e \<Rightarrow> (Inl (DeleteFailed e), m3)
           | Inr _ \<Rightarrow> (Inr (), invalidateACLCache (rebuildIndex accountID m3)))"

definition GetRules :: "'d ACLRepository option \<Rightarrow> string \<Rightarrow> 'd ACLManager \<Rightarrow> ACLRule list \<times> 'd ACLManager" where
  "GetRules R accountID m = (let m1 = ensureRulesLoaded R accountID m in (rules_of m1 accountID, m1))"

definition countTotalRules :: "string list \<Rightarrow> 'd ACLManager \<Rightarrow> nat" where
  "countTotalRules accounts m = fold (\<lambda>a n. n + length (rules_of m a)) accounts 0"

section \<open>Decisions\<close>

datatype decision = Panic | Undecided | Decided bool string

fun first_match :: "(ACLRule \<Rightarrow> bool option) \<Rightarrow> ACLRule list \<Rightarrow> decision" where
  "first_match f [] = Undecided"
| "first_match f (rule # rs) =
     (case f rule of
        None \<Rightarrow> Panic
      | Some True \<Rightarrow> Decided (rAction rule = ''allow'') (rID rule)
      | Some False \<Rightarrow> first_match f rs)"

fun or_else :: "decision \<Rightarrow> decision \<Rightarrow> decision" where
  "or_else Undecided d = d"
| "or_else d _ = d"

definition checkAccessUncached ::
  "'d ACLManager \<Rightarrow> string \<Rightarrow> string \<Rightarrow> string \<Rightarrow> string \<Rightarrow> int \<Rightarrow> decision" where
  "checkAccessUncached m accountID protocol srcIP dstIP dstPort =
     (if rules_of m accountID = [] then Decided True ''default-allow''
      else
        or_else
          (case ruleIndex m accountID of
             None \<Rightarrow> Undecided
           | Some accountIndex \<Rightarrow>
               (case accountIndex protocol of
                  None \<Rightarrow> Undecided
                | Some protoIndex \<Rightarrow>
                    (let src = (case ParseIP srcIP of None \<Rightarrow> [] | Some ip \<Rightarrow> ip);
                         dst = (case ParseIP dstIP of None \<Rightarrow> [] | Some ip \<Rightarrow> ip);
                         fast = (\<lambda>rule. ruleMatchesFast rule src dst dstPort)
                     in or_else (first_match fast (protoIndex dstPort)) (first_match fast (protoIndex 0)))))
          (or_else
            (first_match (\<lambda>rule. Some (ruleMatches rule protocol srcIP dstIP dstPort)) (rules_of m accountID))
            (Decided False ''default-deny'')))"

definition ACLCacheKey :: "string \<Rightarrow> string \<Rightarrow> string \<Rightarrow> string \<Rightarrow> int \<Rightarrow> string" where
  "ACLCacheKey tenantID protocol srcIP dstIP dstPort =
     ''acl:'' @ tenantID @ '':'' @ protocol @ '':'' @ srcIP @ '':'' @ dstIP @ '':'' @ itoa dstPort"

text \<open>The two accesses to the cache of decisions, each under the lock of the cache.\<close>

definition cached_decision :: "string \<Rightarrow> gotime \<Rightarrow> 'd ACLManager \<Rightarrow> ACLCacheResult option \<times> 'd ACLManager" where
  "cached_decision cacheKey now m =
     (case accessCache m of
        None \<Rightarrow> (None, m)
      | Some c \<Rightarrow>
          (let ((v, ok), c1) = Get c cacheKey now; m1 = m\<lparr>accessCache := Some c1\<rparr>
           in case (v, ok) of (Some (GObj result), True) \<Rightarrow> (Some result, m1) | _ \<Rightarrow> (None, m1)))"

definition store_decision :: "string \<Rightarrow> bool \<Rightarrow> string \<Rightarrow> gotime \<Rightarrow> 'd ACLManager \<Rightarrow> 'd ACLManager" where
  "store_decision cacheKey allowed ruleID now m =
     m\<lparr>accessCache := map_option (\<lambda>c. SetWithTTL c cacheKey
       (GObj \<lparr>crAllowed = allowed, crRuleID = ruleID, crCachedAt = Unix now\<rparr>) (5 * minute) now) (accessCache m)\<rparr>"

definition CheckAccess ::
  "'d ACLRepository option \<Rightarrow> string \<Rightarrow> string \<Rightarrow> string \<Rightarrow> string \<Rightarrow> int \<Rightarrow> gotime \<Rightarrow> 'd ACLManager \<Rightarrow>
   decision \<times> 'd ACLManager" where
  "CheckAccess R accountID protocol srcIP dstIP dstPort now m =
     (let cacheKey = ACLCacheKey accountID protocol srcIP dstIP dstPort;
          (hit, m0) = cached_decision cacheKey now m
      in case hit of
           Some result \<Rightarrow> (Decided (crAllowed result) (crRuleID result), m0)
         | None \<Rightarrow>
             (let m2 = ensureRulesLoaded R accountID m0 in
              case checkAccessUncached m2 accountID protocol srcIP dstIP dstPort of
                Decided allowed ruleID \<Rightarrow> (Decided allowed ruleID, store_decision cacheKey allowed ruleID now m2)
              | d \<Rightarrow> (d, m2)))"

end
