(* ===== verification/Acl_Decisions.thy ===== *)
theory Acl_Decisions
  imports Acl "HOL-Library.Multiset"
begin

text \<open>
  What a decision means. \<open>acl_spec\<close> states the decision on a list of rules without index, parsed
  addresses and bitmap. The lemmas on \<open>sort_slice\<close> (the loops of \<open>sortRules\<close>), on the port bitmap
  and on the index lead to \<open>checkAccessUncached_spec\<close>: the optimised evaluation computes \<open>acl_spec\<close>.
\<close>

unbundle bit_operations_syntax

section \<open>Specification\<close>

definition rule_applies :: "string \<Rightarrow> ACLRule \<Rightarrow> bool" where
  "rule_applies protocol r \<longleftrightarrow> rProtocol r = protocol \<or> rProtocol r = ''all''"

definition same_address :: "string \<Rightarrow> string \<Rightarrow> bool" where
  "same_address r ip = (case (ParseIP r, ParseIP ip) of (Some x, Some y) \<Rightarrow> IP_Equal x y | _ \<Rightarrow> False)"

definition addr_matches :: "string \<Rightarrow> string list \<Rightarrow> bool" where
  "addr_matches ip ruleIPs \<longleftrightarrow> ruleIPs = [] \<or> ''any'' \<in> set ruleIPs \<or> list_ex (\<lambda>r. same_address r ip) ruleIPs"

definition packet_matches :: "string \<Rightarrow> string \<Rightarrow> string \<Rightarrow> ACLRule \<Rightarrow> bool" where
  "packet_matches protocol src dst r \<longleftrightarrow> rule_applies protocol r \<and>
     addr_matches src (rSourceIPs r) \<and> addr_matches dst (rDestIPs r)"

definition verdict :: "ACLRule \<Rightarrow> decision" where
  "verdict r = Decided (rAction r = ''allow'') (rID r)"

text \<open>
  The decision for a TCP or UDP packet: without rules everything is allowed; otherwise the first
  matching rule, in the order of priority, among those that name the port decides, then the
  first matching rule among those without ports, and a packet no rule matches is denied.
\<close>

definition acl_spec :: "ACLRule list \<Rightarrow> string \<Rightarrow> string \<Rightarrow> string \<Rightarrow> int \<Rightarrow> decision" where
  "acl_spec rs protocol src dst port =
     (if rs = [] then Decided True ''default-allow''
      else case find (\<lambda>r. packet_matches protocol src dst r \<and> port \<in> set (rDestPorts r)) rs of
        Some r \<Rightarrow> verdict r
      | None \<Rightarrow> (case find (\<lambda>r. packet_matches protocol src dst r \<and> rDestPorts r = []) rs of
          Some r \<Rightarrow> verdict r
        | None \<Rightarrow> Decided False ''default-deny''))"

definition optimized :: "ACLRule \<Rightarrow> bool" where
  "optimized r \<longleftrightarrow> optimizeRule r = r \<and> (portBitmap r \<noteq> None \<longrightarrow> 10 \<le> length (rDestPorts r))"

definition addresses_parse :: "ACLRule \<Rightarrow> bool" where
  "addresses_parse r \<longleftrightarrow>
     list_all (\<lambda>ip. ip = ''any'' \<or> ParseIP ip \<noteq> None) (rSourceIPs r @ rDestIPs r)"

definition by_priority :: "ACLRule list \<Rightarrow> bool" where
  "by_priority rs \<longleftrightarrow> sorted_wrt (\<lambda>a b. rPriority a \<le> rPriority b) rs"

definition build_index :: "ACLRule list \<Rightarrow> rule_index" where
  "build_index rs = fold index_all rs Map.empty"

section \<open>Sorting\<close>

lemma sort_pass_mset: "add_mset (fst (sort_pass x ys)) (mset (snd (sort_pass x ys))) = add_mset x (mset ys)"
  by (induction x ys rule: sort_pass.induct) (auto simp: case_prod_beta add_mset_commute)

lemma sort_pass_le:
  "rPriority (fst (sort_pass x ys)) \<le> rPriority x \<and>
   (\<forall>z\<in>set (snd (sort_pass x ys)). rPriority (fst (sort_pass x ys)) \<le> rPriority z)"
  by (induction x ys rule: sort_pass.induct) (auto simp: case_prod_beta)

lemma sort_slice_mset: "mset (sort_slice rs) = mset rs"
  by (induction rs rule: sort_slice.induct) (simp_all add: sort_pass_mset)

lemma sort_slice_sorted: "by_priority (sort_slice rs)"
proof (induction rs rule: sort_slice.induct)
  case (2 x xs)
  have "set (sort_slice (snd (sort_pass x xs))) = set (snd (sort_pass x xs))"
    by (metis sort_slice_mset set_mset_mset)
  with 2 sort_pass_le [of x xs] show ?case by (auto simp: by_priority_def)
qed (simp add: by_priority_def)

lemma set_sort_slice [simp]: "set (sort_slice rs) = set rs"
  by (metis sort_slice_mset set_mset_mset)

section \<open>The port bitmap\<close>

definition port_bit :: "byte list \<Rightarrow> int \<Rightarrow> bool" where
  "port_bit bm port \<longleftrightarrow> bit (bm ! nat (port div 8)) (nat (port mod 8))"

lemma bitmap_has_bit: "0 \<le> port \<Longrightarrow> port < 65536 \<Longrightarrow> bitmap_has bm port = Some (port_bit bm port)"
  by (simp add: bitmap_has_def port_bit_def bit_iff_and_push_bit_not_eq_0)

lemma port_split: "0 \<le> p \<Longrightarrow> 0 \<le> q \<Longrightarrow> nat (p div 8) = nat (q div 8) \<Longrightarrow> nat (p mod 8) = nat (q mod 8) \<Longrightarrow> p = (q :: int)"
  by (metis eq_nat_nat_iff mult_div_mod_eq pos_imp_zdiv_nonneg_iff pos_mod_sign zero_less_numeral)

lemma port_bit_set_port:
  assumes "0 \<le> q" and "q < 65536" and "length bm = 8192"
  shows "port_bit (set_port bm p) q \<longleftrightarrow> port_bit bm q \<or> p = q"
proof (cases "0 \<le> p \<and> p < 65536")
  case False
  then show ?thesis using assms by (auto simp: set_port_def)
next
  case True
  have i: "nat (p div 8) < 8192" "nat (p mod 8) < 8" "nat (q mod 8) < 8" using True assms by auto
  show ?thesis
  proof (cases "nat (q div 8) = nat (p div 8)")
    case True': True
    have "bit (push_bit (nat (p mod 8)) 1 :: byte) (nat (q mod 8)) \<longleftrightarrow> nat (p mod 8) = nat (q mod 8)"
      using i by (auto simp: bit_exp_iff)
    moreover have "nat (p mod 8) = nat (q mod 8) \<longleftrightarrow> p = q"
      using port_split [of p q] True True' assms(1) by auto
    ultimately show ?thesis
      using True True' i assms(3) by (simp add: port_bit_def set_port_def Let_def bit_or_iff)
  next
    case False
    then show ?thesis using True by (auto simp: port_bit_def set_port_def Let_def)
  qed
qed

lemma length_set_port [simp]: "length (set_port bm p) = length bm"
  by (simp add: set_port_def Let_def)

lemma port_bit_fold:
  assumes "0 \<le> q" and "q < 65536" and "length bm = 8192"
  shows "port_bit (fold (\<lambda>p bm. set_port bm p) ps bm) q \<longleftrightarrow> port_bit bm q \<or> q \<in> set ps"
  using assms(3)
  by (induction ps arbitrary: bm) (auto simp: port_bit_set_port [OF assms(1,2)])

lemma bitmap_ports:
  assumes "0 \<le> q" and "q < 65536"
  shows "bitmap_has (fold (\<lambda>p bm. set_port bm p) ps (replicate 8192 0)) q = Some (q \<in> set ps)"
proof -
  have "nat (q div 8) < 8192" using assms by auto
  then have "\<not> port_bit (replicate 8192 0) q" by (simp add: port_bit_def)
  then show ?thesis using assms by (simp add: bitmap_has_bit port_bit_fold)
qed

section \<open>The two ways to match a rule\<close>

lemma list_ex_eq: "list_ex (\<lambda>x. x = y) xs \<longleftrightarrow> y \<in> set xs"
  by (induction xs) auto

lemma ParseIP_any: "ParseIP ''any'' = None"
  by code_simp

lemma parsed_side:
  assumes "ParseIP ip = Some x" and "list_all (\<lambda>r. r = ''any'' \<or> ParseIP r \<noteq> None) ips"
  shows "(''any'' \<notin> set ips \<and> List.map_filter ParseIP (filter (\<lambda>r. r \<noteq> ''any'') ips) \<noteq> [] \<and>
      \<not> list_ex (\<lambda>y. IP_Equal y x) (List.map_filter ParseIP (filter (\<lambda>r. r \<noteq> ''any'') ips))) \<longleftrightarrow>
    \<not> addr_matches ip ips"
proof (cases "''any'' \<in> set ips")
  case True
  then show ?thesis by (simp add: addr_matches_def)
next
  case False
  then have f: "filter (\<lambda>r. r \<noteq> ''any'') ips = ips" by (auto simp: filter_id_conv)
  have p: "\<forall>r\<in>set ips. \<exists>y. ParseIP r = Some y" using assms(2) False by (auto simp: list_all_iff)
  have "list_ex (\<lambda>y. IP_Equal y x) (List.map_filter ParseIP ips) \<longleftrightarrow> list_ex (\<lambda>r. same_address r ip) ips"
    using p assms(1) by (induction ips) (auto simp: map_filter_simps same_address_def)
  moreover have "List.map_filter ParseIP ips = [] \<longleftrightarrow> ips = []"
    using p by (induction ips) (auto simp: map_filter_simps)
  ultimately show ?thesis using False unfolding f addr_matches_def by blast
qed

lemma optimizedD:
  assumes "optimized r"
  shows "srcIPsParsed r = List.map_filter ParseIP (filter (\<lambda>ip. ip \<noteq> ''any'') (rSourceIPs r))"
    "dstIPsParsed r = List.map_filter ParseIP (filter (\<lambda>ip. ip \<noteq> ''any'') (rDestIPs r))"
    "hasAnySource r \<longleftrightarrow> ''any'' \<in> set (rSourceIPs r)" "hasAnyDest r \<longleftrightarrow> ''any'' \<in> set (rDestIPs r)"
    "portBitmap r = (if 10 \<le> length (rDestPorts r)
        then Some (fold (\<lambda>port bm. set_port bm port) (rDestPorts r) (replicate 8192 0)) else None)"
proof -
  have o: "optimizeRule r = r" and b: "portBitmap r \<noteq> None \<longrightarrow> 10 \<le> length (rDestPorts r)"
    using assms by (simp_all add: optimized_def)
  show "srcIPsParsed r = List.map_filter ParseIP (filter (\<lambda>ip. ip \<noteq> ''any'') (rSourceIPs r))"
    using arg_cong [OF o, of srcIPsParsed] by (simp add: optimizeRule_def)
  show "dstIPsParsed r = List.map_filter ParseIP (filter (\<lambda>ip. ip \<noteq> ''any'') (rDestIPs r))"
    using arg_cong [OF o, of dstIPsParsed] by (simp add: optimizeRule_def)
  show "hasAnySource r \<longleftrightarrow> ''any'' \<in> set (rSourceIPs r)"
    using arg_cong [OF o, of hasAnySource] by (simp add: optimizeRule_def)
  show "hasAnyDest r \<longleftrightarrow> ''any'' \<in> set (rDestIPs r)"
    using arg_cong [OF o, of hasAnyDest] by (simp add: optimizeRule_def)
  show "portBitmap r = (if 10 \<le> length (rDestPorts r)
        then Some (fold (\<lambda>port bm. set_port bm port) (rDestPorts r) (replicate 8192 0)) else None)"
    using arg_cong [OF o, of portBitmap] b by (auto simp: optimizeRule_def split: if_splits)
qed

lemma optimized_optimizeRule: "portBitmap r = None \<Longrightarrow> optimized (optimizeRule r)"
  by (simp add: optimized_def optimizeRule_def)

text \<open>The optimised check and the specification agree on packets whose addresses parse.\<close>

lemma ruleMatchesFast_spec:
  assumes "optimized r" and "addresses_parse r" and "ParseIP src = Some x" and "ParseIP dst = Some y"
    and "0 \<le> port" and "port < 65536"
  shows "ruleMatchesFast r x y port =
    Some (addr_matches src (rSourceIPs r) \<and> addr_matches dst (rDestIPs r) \<and>
      (rDestPorts r = [] \<or> port \<in> set (rDestPorts r)))"
proof -
  note o = optimizedD [OF assms(1)]
  have s: "\<not> hasAnySource r \<and> srcIPsParsed r \<noteq> [] \<and> \<not> list_ex (\<lambda>ip. IP_Equal ip x) (srcIPsParsed r) \<longleftrightarrow>
      \<not> addr_matches src (rSourceIPs r)"
    using parsed_side [OF assms(3), of "rSourceIPs r"] assms(2) unfolding o addresses_parse_def by simp
  have d: "\<not> hasAnyDest r \<and> dstIPsParsed r \<noteq> [] \<and> \<not> list_ex (\<lambda>ip. IP_Equal ip y) (dstIPsParsed r) \<longleftrightarrow>
      \<not> addr_matches dst (rDestIPs r)"
    using parsed_side [OF assms(4), of "rDestIPs r"] assms(2) unfolding o addresses_parse_def by simp
  have p: "(case portBitmap r of Some bm \<Rightarrow> bitmap_has bm port
      | None \<Rightarrow> Some (list_ex (\<lambda>rulePort. rulePort = port) (rDestPorts r))) = Some (port \<in> set (rDestPorts r))"
    unfolding o(5) by (simp add: bitmap_ports [OF assms(5,6)] list_ex_eq)
  show ?thesis unfolding ruleMatchesFast_def s d p by simp
qed

lemma IP_Equal_refl [simp]: "IP_Equal x x"
  by (simp add: IP_Equal_def)

lemma ipMatches_addr: "ParseIP ip = Some x \<Longrightarrow> ipMatches ip ips \<Longrightarrow> addr_matches ip ips"
proof -
  assume "ParseIP ip = Some x" and m: "ipMatches ip ips"
  then have "same_address ip ip" by (simp add: same_address_def)
  with m show ?thesis by (auto simp: ipMatches_def addr_matches_def list_ex_iff)
qed

lemma ruleMatches_spec:
  assumes "ruleMatches r proto src dst port" and "ParseIP src = Some x" and "ParseIP dst = Some y"
    and "proto = ''tcp'' \<or> proto = ''udp''"
  shows "packet_matches proto src dst r \<and> (rDestPorts r = [] \<or> port \<in> set (rDestPorts r))"
  using assms ipMatches_addr [OF assms(2)] ipMatches_addr [OF assms(3)]
  by (auto simp: ruleMatches_def packet_matches_def rule_applies_def portMatches_def list_ex_eq split: if_splits)

section \<open>The index\<close>

definition index_get :: "rule_index \<Rightarrow> string \<Rightarrow> int \<Rightarrow> ACLRule list" where
  "index_get idx proto = (case idx proto of None \<Rightarrow> (\<lambda>_. []) | Some pm \<Rightarrow> pm)"

definition indexed_at :: "string \<Rightarrow> int \<Rightarrow> ACLRule \<Rightarrow> ACLRule list" where
  "indexed_at proto port r =
     (if rule_applies proto r then
        (if rDestPorts r = [] \<or> proto \<notin> {''tcp'', ''udp''} then (if port = 0 then [r] else [])
         else replicate (count_list (rDestPorts r) port) r)
      else [])"

lemma fold_add_index:
  "fold (\<lambda>port. add_index port r) ps pm = (\<lambda>p. pm p @ replicate (count_list ps p) r)"
proof (induction ps arbitrary: pm)
  case (Cons q ps)
  then show ?case by (auto simp: add_index_def fun_eq_iff replicate_app_Cons_same)
qed simp

lemma index_get_indexRule:
  "index_get (indexRule p r idx) proto =
    (if p = proto then (\<lambda>port. index_get idx proto port @
       (if rDestPorts r = [] \<or> proto \<notin> {''tcp'', ''udp''} then (if port = 0 then [r] else [])
        else replicate (count_list (rDestPorts r) port) r))
     else index_get idx proto)"
  by (auto simp: index_get_def indexRule_def fold_add_index add_index_def fun_eq_iff Let_def split: option.split)

lemma index_get_all:
  assumes "proto \<in> {''tcp'', ''udp'', ''icmp''}"
  shows "index_get (index_all r idx) proto = (\<lambda>port. index_get idx proto port @ indexed_at proto port r)"
  using assms
  by (auto simp: index_all_def index_get_indexRule indexed_at_def rule_applies_def fun_eq_iff)

lemma index_get_build:
  assumes "proto \<in> {''tcp'', ''udp'', ''icmp''}"
  shows "index_get (build_index rs) proto port = concat (map (indexed_at proto port) rs)"
proof -
  have "index_get (fold index_all rs idx) proto port = index_get idx proto port @ concat (map (indexed_at proto port) rs)" for idx
    by (induction rs arbitrary: idx) (simp_all add: index_get_all [OF assms])
  from this [of Map.empty] show ?thesis by (simp add: build_index_def index_get_def)
qed


section \<open>The decision\<close>

lemma first_match_append: "first_match f (xs @ ys) = or_else (first_match f xs) (first_match f ys)"
  by (induction xs) (auto split: option.split bool.split)

lemma or_else_assoc: "or_else (or_else a b) c = or_else a (or_else b c)"
  by (cases a) auto

lemma first_match_replicate: "first_match f (replicate (Suc n) r) = first_match f [r]"
  by (induction n) (auto split: option.split bool.split)

lemma first_match_concat:
  "first_match f (concat (map (\<lambda>r. replicate (n r) r) rs)) = first_match f (filter (\<lambda>r. n r \<noteq> 0) rs)"
proof (induction rs)
  case (Cons r rs)
  show ?case
  proof (cases "n r")
    case 0
    with Cons show ?thesis by simp
  next
    case (Suc k)
    have "first_match f (concat (map (\<lambda>r. replicate (n r) r) (r # rs))) =
        or_else (first_match f [r]) (first_match f (filter (\<lambda>r. n r \<noteq> 0) rs))"
      unfolding list.map concat.simps first_match_append Suc first_match_replicate Cons ..
    also have "\<dots> = first_match f ([r] @ filter (\<lambda>r. n r \<noteq> 0) rs)"
      by (rule first_match_append [symmetric])
    also have "[r] @ filter (\<lambda>r. n r \<noteq> 0) rs = filter (\<lambda>r. n r \<noteq> 0) (r # rs)" using Suc by simp
    finally show ?thesis .
  qed
qed simp

lemma first_match_find:
  assumes "\<And>r. r \<in> set rs \<Longrightarrow> f r = Some (P r)"
  shows "first_match f rs = (case find P rs of None \<Rightarrow> Undecided | Some r \<Rightarrow> verdict r)"
  using assms by (induction rs) (auto simp: verdict_def)

lemma find_filter: "find P (filter Q rs) = find (\<lambda>r. Q r \<and> P r) rs"
  by (induction rs) auto

lemma find_cong: "(\<And>r. r \<in> set rs \<Longrightarrow> P r = Q r) \<Longrightarrow> find P rs = find Q rs"
  by (induction rs) auto

lemma count_pos: "0 < count_list xs x \<longleftrightarrow> x \<in> set xs"
  using count_list_0_iff [of xs x] by (cases "count_list xs x") auto

lemma indexed_port:
  assumes "proto \<in> {''tcp'', ''udp''}" and "port \<noteq> 0"
  shows "concat (map (indexed_at proto port) rs) =
    concat (map (\<lambda>r. replicate (if rule_applies proto r then count_list (rDestPorts r) port else 0) r) rs)"
  using assms by (intro arg_cong [where f = concat] map_cong) (auto simp: indexed_at_def)

lemma indexed_zero:
  assumes "proto \<in> {''tcp'', ''udp''}"
  shows "concat (map (indexed_at proto 0) rs) =
    concat (map (\<lambda>r. replicate (if rule_applies proto r
      then (if rDestPorts r = [] then 1 else count_list (rDestPorts r) 0) else 0) r) rs)"
  using assms by (intro arg_cong [where f = concat] map_cong) (auto simp: indexed_at_def)

lemma or_else_verdict [simp]: "or_else (verdict r) d = verdict r"
  by (simp add: verdict_def)

lemma or_else_case:
  "or_else (case find P rs of None \<Rightarrow> Undecided | Some r \<Rightarrow> verdict r) d =
   (case find P rs of None \<Rightarrow> d | Some r \<Rightarrow> verdict r)"
  by (simp add: verdict_def split: option.split)

lemma checkAccessUncached_spec:
  assumes "rules_of m a \<noteq> [] \<Longrightarrow> ruleIndex m a = Some (build_index (rules_of m a))"
    and "list_all (\<lambda>r. optimized r \<and> addresses_parse r) (rules_of m a)"
    and "ParseIP src = Some x" and "ParseIP dst = Some y"
    and "proto \<in> {''tcp'', ''udp''}" and "0 < port" and "port < 65536"
  shows "checkAccessUncached m a proto src dst port = acl_spec (rules_of m a) proto src dst port"
proof (cases "rules_of m a = []")
  case True
  then show ?thesis by (simp add: checkAccessUncached_def acl_spec_def)
next
  case False
  let ?rs = "rules_of m a" and ?fast = "\<lambda>r. ruleMatchesFast r x y port"
  let ?P = "\<lambda>r. addr_matches src (rSourceIPs r) \<and> addr_matches dst (rDestIPs r) \<and>
      (rDestPorts r = [] \<or> port \<in> set (rDestPorts r))"
  have fast: "?fast r = Some (?P r)" if "r \<in> set ?rs" for r
    using assms(2,6,7) that by (intro ruleMatchesFast_spec [OF _ _ assms(3,4)]) (auto simp: list_all_iff)
  have proto: "proto \<in> {''tcp'', ''udp'', ''icmp''}" using assms(5) by blast
  have first: "first_match ?fast (concat (map (\<lambda>r. replicate (n r) r) ?rs)) =
      (case find (\<lambda>r. n r \<noteq> 0 \<and> ?P r) ?rs of None \<Rightarrow> Undecided | Some r \<Rightarrow> verdict r)" for n
    unfolding first_match_concat
    using first_match_find [of "filter (\<lambda>r. n r \<noteq> 0) ?rs" ?fast ?P] by (simp add: fast find_filter)
  define idx where "idx = index_get (build_index ?rs) proto"
  have at: "first_match ?fast (idx port) =
      (case find (\<lambda>r. packet_matches proto src dst r \<and> port \<in> set (rDestPorts r)) ?rs of
         None \<Rightarrow> Undecided | Some r \<Rightarrow> verdict r)"
  proof -
    have "port \<noteq> 0" using assms(6) by simp
    have "first_match ?fast (idx port) = (case find (\<lambda>r. (if rule_applies proto r
        then count_list (rDestPorts r) port else 0) \<noteq> 0 \<and> ?P r) ?rs of None \<Rightarrow> Undecided | Some r \<Rightarrow> verdict r)"
      unfolding idx_def index_get_build [OF proto] indexed_port [OF assms(5) \<open>port \<noteq> 0\<close>] by (rule first)
    also have "find (\<lambda>r. (if rule_applies proto r then count_list (rDestPorts r) port else 0) \<noteq> 0 \<and> ?P r) ?rs =
        find (\<lambda>r. packet_matches proto src dst r \<and> port \<in> set (rDestPorts r)) ?rs"
      by (rule find_cong) (auto simp: packet_matches_def count_pos)
    finally show ?thesis .
  qed
  have zero: "first_match ?fast (idx 0) = (case find (\<lambda>r. packet_matches proto src dst r \<and>
      (rDestPorts r = [] \<or> 0 \<in> set (rDestPorts r) \<and> port \<in> set (rDestPorts r))) ?rs of
         None \<Rightarrow> Undecided | Some r \<Rightarrow> verdict r)"
  proof -
    have "first_match ?fast (idx 0) = (case find (\<lambda>r. (if rule_applies proto r
        then (if rDestPorts r = [] then 1 else count_list (rDestPorts r) 0) else 0) \<noteq> 0 \<and> ?P r) ?rs of
         None \<Rightarrow> Undecided | Some r \<Rightarrow> verdict r)"
      unfolding idx_def index_get_build [OF proto] indexed_zero [OF assms(5)] by (rule first)
    also have "find (\<lambda>r. (if rule_applies proto r
        then (if rDestPorts r = [] then 1 else count_list (rDestPorts r) 0) else 0) \<noteq> 0 \<and> ?P r) ?rs =
        find (\<lambda>r. packet_matches proto src dst r \<and>
          (rDestPorts r = [] \<or> 0 \<in> set (rDestPorts r) \<and> port \<in> set (rDestPorts r))) ?rs"
      by (rule find_cong) (auto simp: packet_matches_def count_pos)
    finally show ?thesis .
  qed
  have slow: "first_match (\<lambda>r. Some (ruleMatches r proto src dst port)) ?rs =
      (case find (\<lambda>r. ruleMatches r proto src dst port) ?rs of None \<Rightarrow> Undecided | Some r \<Rightarrow> verdict r)"
    by (rule first_match_find) simp
  have get: "(case build_index ?rs proto of None \<Rightarrow> Undecided
      | Some pm \<Rightarrow> or_else (first_match ?fast (pm port)) (first_match ?fast (pm 0))) =
      or_else (first_match ?fast (idx port)) (first_match ?fast (idx 0))"
    by (simp add: idx_def index_get_def split: option.split)
  have eq: "checkAccessUncached m a proto src dst port =
      or_else (or_else (first_match ?fast (idx port)) (first_match ?fast (idx 0)))
        (or_else (first_match (\<lambda>r. Some (ruleMatches r proto src dst port)) ?rs) (Decided False ''default-deny''))"
    unfolding get [symmetric] unfolding checkAccessUncached_def assms(1) [OF False] Let_def assms(3,4) option.case
    using False by simp
  let ?S = "\<lambda>r. packet_matches proto src dst r \<and> port \<in> set (rDestPorts r)"
  let ?A = "\<lambda>r. packet_matches proto src dst r \<and> rDestPorts r = []"
  show ?thesis
  proof (cases "find ?S ?rs")
    case (Some r)
    then show ?thesis using False unfolding eq at zero slow or_else_assoc or_else_case
      by (simp add: acl_spec_def)
  next
    case None
    then have S: "\<not> ?S r" if "r \<in> set ?rs" for r using that by (auto simp: find_None_iff)
    have z: "find (\<lambda>r. packet_matches proto src dst r \<and>
        (rDestPorts r = [] \<or> 0 \<in> set (rDestPorts r) \<and> port \<in> set (rDestPorts r))) ?rs = find ?A ?rs"
      by (rule find_cong) (use S in blast)
    show ?thesis
    proof (cases "find ?A ?rs")
      case (Some r)
      then show ?thesis using None False unfolding eq at zero slow or_else_assoc or_else_case z
        by (simp add: acl_spec_def)
    next
      case none: None
      have "\<not> ruleMatches r proto src dst port" if r: "r \<in> set ?rs" for r
      proof
        assume "ruleMatches r proto src dst port"
        then have "packet_matches proto src dst r \<and> (rDestPorts r = [] \<or> port \<in> set (rDestPorts r))"
          by (rule ruleMatches_spec [OF _ assms(3,4)]) (use assms(5) in blast)
        moreover have "\<not> ?A r" using none r by (auto simp: find_None_iff)
        ultimately show False using S [OF r] by blast
      qed
      then have "find (\<lambda>r. ruleMatches r proto src dst port) ?rs = None" by (simp add: find_None_iff)
      then show ?thesis using None none False unfolding eq at zero slow or_else_assoc or_else_case z
        by (simp add: acl_spec_def)
    qed
  qed
qed


section \<open>The optimised check\<close>

text \<open>
  C27. The optimised match of a stored rule, with its parsed addresses and, for ten ports or more, its
  port bitmap, agrees with the specification on every packet whose addresses parse and whose port
  is in range, and it does not panic there.
\<close>

theorem fast_match_equivalence:
  assumes "portBitmap r = None" and "addresses_parse r" and "ParseIP src = Some x" and "ParseIP dst = Some y"
    and "0 \<le> port" and "port < 65536"
  shows "ruleMatchesFast (optimizeRule r) x y port =
    Some (addr_matches src (rSourceIPs r) \<and> addr_matches dst (rDestIPs r) \<and>
      (rDestPorts r = [] \<or> port \<in> set (rDestPorts r)))"
proof -
  have f: "rSourceIPs (optimizeRule r) = rSourceIPs r" "rDestIPs (optimizeRule r) = rDestIPs r"
    "rDestPorts (optimizeRule r) = rDestPorts r" by (simp_all add: optimizeRule_def)
  have "addresses_parse (optimizeRule r)" using assms(2) by (simp add: addresses_parse_def f)
  from ruleMatchesFast_spec [OF optimized_optimizeRule [OF assms(1)] this assms(3-6)] show ?thesis
    unfolding f .
qed

definition many_ports :: ACLRule where
  "many_ports = \<lparr>rID = ''web'', rAccountID = ''tenant-0001'', rName = ''web'', rAction = ''allow'',
     rProtocol = ''tcp'', rSourceIPs = [''10.0.0.2'', ''any''], rDestIPs = [], rDestPorts = [8000, 8001, 8002,
     8003, 8004, 8005, 8006, 8007, 8008, 8009], rPriority = 1, rDescription = [], rCreatedAt = 0,
     rUpdatedAt = 0, rSourcePeerIDs = [], rDestPeerIDs = [], rServices = [],
     srcIPsParsed = [], dstIPsParsed = [], portBitmap = None, hasAnySource = False, hasAnyDest = False\<rparr>"

theorem fast_match_equivalence_witness:
  "\<exists>x y. ParseIP ''10.0.0.2'' = Some x \<and> ParseIP ''10.0.0.9'' = Some y \<and>
     ruleMatchesFast (optimizeRule many_ports) x y 8005 = Some True \<and>
     ruleMatchesFast (optimizeRule many_ports) x y 8010 = Some False"
proof -
  have "ParseIP ''10.0.0.2'' \<noteq> None" "ParseIP ''10.0.0.9'' \<noteq> None" by code_simp+
  then obtain x y where p: "ParseIP ''10.0.0.2'' = Some x" "ParseIP ''10.0.0.9'' = Some y" by blast
  have "portBitmap many_ports = None" "addresses_parse many_ports"
    using p by (simp_all add: many_ports_def addresses_parse_def)
  note eq = fast_match_equivalence [OF this p]
  have "ruleMatchesFast (optimizeRule many_ports) x y 8005 = Some True"
    "ruleMatchesFast (optimizeRule many_ports) x y 8010 = Some False"
    using eq [of 8005] eq [of 8010] by (simp_all add: many_ports_def addr_matches_def)
  with p show ?thesis by blast
qed

end
