(* ===== verification/Acl_Runs.thy ===== *)
theory Acl_Runs
  imports Acl_Decisions
begin

text \<open>
  The access-rule manager as a whole, with the requests of several goroutines interleaved. What happens under one hold of
  the manager's lock or of the cache's lock is one step of \<open>acl_step\<close>: a check of a packet looks into the cache, loads the
  rules, evaluates them and stores the decision in separate steps. \<open>acl_inv\<close> says that each account's rules are sorted,
  optimised and indexed, and that every cached decision is the one the current rules give, but for the accounts that a
  failed deletion or a decision stored late has left in doubt. The cache enters only through the laws of its interpretation \<open>lru\<close>.
\<close>

section \<open>The manager\<close>

text \<open>The rules of an account after the load that every operation starts with.\<close>

definition loaded_rules :: "'d ACLRepository option \<Rightarrow> string \<Rightarrow> 'd ACLManager \<Rightarrow> ACLRule list" where
  "loaded_rules R a m = rules_of (ensureRulesLoaded R a m) a"

text \<open>An address that an account may name in its rules.\<close>

definition confined :: "'d ACLManager \<Rightarrow> string \<Rightarrow> string \<Rightarrow> bool" where
  "confined m a ip \<longleftrightarrow> (\<exists>x. ParseIP ip = Some x \<and> To4 x \<noteq> [] \<and>
     (case map_of (tenantSubnets m) a of
        Some net \<Rightarrow> IPNet_Contains net x
      | None \<Rightarrow> hd (To4 x) = 10 \<or> hd (To4 x) = 100))"

definition plain :: "string \<Rightarrow> bool" where
  "plain s \<longleftrightarrow> CHR '':'' \<notin> set s"

text \<open>What a manager keeps of an account's rules.\<close>

definition rules_inv :: "'d ACLManager \<Rightarrow> string \<Rightarrow> bool" where
  "rules_inv m a \<longleftrightarrow> by_priority (rules_of m a) \<and> list_all optimized (rules_of m a)"

definition index_inv :: "'d ACLManager \<Rightarrow> string \<Rightarrow> bool" where
  "index_inv m a \<longleftrightarrow> (rules_of m a \<noteq> [] \<longrightarrow> ruleIndex m a = Some (build_index (rules_of m a)))"

text \<open>A check of a packet between its evaluation and the storing of its decision.\<close>

record pending_check =
  pcAccount :: string
  pcProtocol :: string
  pcSource :: string
  pcDest :: string
  pcPort :: int
  pcAllowed :: bool
  pcRule :: string

definition answers :: "'d ACLRepository option \<Rightarrow> 'd ACLManager \<Rightarrow> pending_check \<Rightarrow> bool" where
  "answers R m x \<longleftrightarrow> (R = None \<or> loadedAccounts m (pcAccount x)) \<and>
     checkAccessUncached m (pcAccount x) (pcProtocol x) (pcSource x) (pcDest x) (pcPort x) = Decided (pcAllowed x) (pcRule x)"

text \<open>What a cached decision means: it is the decision the current rules give, unless the account is in doubt.\<close>

definition current :: "'d ACLRepository option \<Rightarrow> string set \<Rightarrow> 'd ACLManager \<Rightarrow> string \<Rightarrow> ACLCacheResult gval \<Rightarrow> bool" where
  "current R D m k v \<longleftrightarrow> (\<exists>res. v = GObj res \<and>
     (\<forall>a p s d port. plain a \<and> plain p \<and> plain s \<and> plain d \<and> k = ACLCacheKey a p s d port \<and> a \<notin> D \<longrightarrow>
        answers R m \<lparr>pcAccount = a, pcProtocol = p, pcSource = s, pcDest = d, pcPort = port,
          pcAllowed = crAllowed res, pcRule = crRuleID res\<rparr>))"

definition acl_inv :: "'d ACLRepository option \<Rightarrow> string set \<Rightarrow> pending_check list \<Rightarrow> 'd ACLManager \<Rightarrow> bool" where
  "acl_inv R D P m \<longleftrightarrow> (\<forall>a. rules_inv m a \<and> (a \<notin> D \<longrightarrow> index_inv m a)) \<and>
     (\<forall>x\<in>set P. pcAccount x \<notin> D \<longrightarrow> answers R m x) \<and>
     (\<forall>c. accessCache m = Some c \<longrightarrow> cache_inv c \<and> (\<forall>k v. content c k = Some v \<longrightarrow> current R D m k v))"

text \<open>
  Runs of a manager, with the checks in flight and the accounts in doubt. A successful change of an account's rules
  rebuilds its index and clears the cache, which settles the account, unless a check of the account is in flight: that one
  will store the decision of the old rules. A deletion the repository refuses leaves the rule in the index and in the cache.
\<close>

definition settled :: "pending_check list \<Rightarrow> string \<Rightarrow> string set \<Rightarrow> string set" where
  "settled P a D = (if a \<in> pcAccount ` set P then insert a D else D - {a})"

definition after_remove :: "pending_check list \<Rightarrow> string \<Rightarrow> string set \<Rightarrow> acl_error + unit \<Rightarrow> string set" where
  "after_remove P a D res =
     (case res of Inr _ \<Rightarrow> settled P a D | Inl (DeleteFailed _) \<Rightarrow> insert a D | Inl _ \<Rightarrow> D)"

inductive acl_step ::
  "'d ACLRepository option \<Rightarrow> string set \<times> pending_check list \<times> 'd ACLManager \<Rightarrow> string set \<times> pending_check list \<times> 'd ACLManager \<Rightarrow> bool"
  for R where
  load: "acl_step R (D, P, m) (D, P, ensureRulesLoaded R a m)"
| added: "portBitmap rule = None \<Longrightarrow> AddRule_locked R rule now (ensureRulesLoaded R (rAccountID rule) m) = (Inr r, m') \<Longrightarrow>
    acl_step R (D, P, m) (settled P (rAccountID rule) D, P, m')"
| not_added: "AddRule_locked R rule now (ensureRulesLoaded R (rAccountID rule) m) = (Inl e, m') \<Longrightarrow> acl_step R (D, P, m) (D, P, m')"
| remove: "RemoveRule R a i m = (res, m') \<Longrightarrow> acl_step R (D, P, m) (after_remove P a D res, P, m')"
| cached: "acl_step R (D, P, m) (D, P, snd (cached_decision k now m))"
| evaluate: "R = None \<or> loadedAccounts m (pcAccount x) \<Longrightarrow>
    checkAccessUncached m (pcAccount x) (pcProtocol x) (pcSource x) (pcDest x) (pcPort x) = Decided (pcAllowed x) (pcRule x) \<Longrightarrow>
    acl_step R (D, P, m) (D, x # P, m)"
| store: "x \<in> set P \<Longrightarrow> acl_step R (D, P, m)
    (D, remove1 x P, store_decision (ACLCacheKey (pcAccount x) (pcProtocol x) (pcSource x) (pcDest x) (pcPort x)) (pcAllowed x) (pcRule x) now m)"
| register: "acl_step R (D, P, m) (D, P, snd (RegisterTenantSubnet a subnet m))"
| unregister: "acl_step R (D, P, m) (D, P, UnregisterTenantSubnet a m)"

inductive acl_reach :: "'d ACLRepository option \<Rightarrow> string set \<Rightarrow> pending_check list \<Rightarrow> 'd ACLManager \<Rightarrow> bool" for R where
  init: "acl_reach R {} [] (NewACLManager bfs d)"
| step: "acl_reach R D P m \<Longrightarrow> acl_step R (D, P, m) (D', P', m') \<Longrightarrow> acl_reach R D' P' m'"

lemma ACLCacheKey_inj:
  assumes "plain a" "plain p" "plain s" "plain d" "plain a'" "plain p'" "plain s'" "plain d'"
  shows "ACLCacheKey a p s d port = ACLCacheKey a' p' s' d' port' \<longleftrightarrow>
    a = a' \<and> p = p' \<and> s = s' \<and> d = d' \<and> port = port'"
  using assms by (simp add: ACLCacheKey_def plain_def append_sep_inj itoa_inj)

lemma itoa_no_colon: "count_list (itoa i) (CHR '':'') = 0"
proof -
  have "CHR '':'' \<notin> set (utoa n)" for n using utoa_digits [of n] is_digit_not_punct(3) by blast
  then show ?thesis by (simp add: itoa_def count_list_0_iff)
qed

text \<open>The key of a request without colons is no other request's key.\<close>

lemma ACLCacheKey_plain:
  assumes "plain a" "plain p" "plain s" "plain d"
    and "ACLCacheKey a' p' s' d' port' = ACLCacheKey a p s d port"
  shows "plain a' \<and> plain p' \<and> plain s' \<and> plain d'"
proof -
  have "count_list (ACLCacheKey a' p' s' d' port') (CHR '':'') = count_list (ACLCacheKey a p s d port) (CHR '':'')"
    using assms(5) by simp
  then show ?thesis using assms(1-4) by (simp add: ACLCacheKey_def itoa_no_colon plain_def flip: count_list_0_iff)
qed

lemma rules_of_upd [simp]: "rules_of (m\<lparr>rules := (rules m)(a \<mapsto> rs)\<rparr>) b = (if b = a then rs else rules_of m b)"
  by (simp add: rules_of_def)

lemma rules_of_frame [simp]:
  "rules_of (m\<lparr>accessCache := c\<rparr>) = rules_of m" "rules_of (m\<lparr>ruleIndex := i\<rparr>) = rules_of m"
  "rules_of (m\<lparr>loadedAccounts := l\<rparr>) = rules_of m" "rules_of (m\<lparr>acl_db := d\<rparr>) = rules_of m"
  "rules_of (m\<lparr>tenantSubnets := t\<rparr>) = rules_of m"
  by (simp_all add: rules_of_def fun_eq_iff)

lemma rebuildIndex_frame [simp]:
  "rules (rebuildIndex a m) = rules m" "rules_of (rebuildIndex a m) = rules_of m"
  "loadedAccounts (rebuildIndex a m) = loadedAccounts m" "accessCache (rebuildIndex a m) = accessCache m"
  "acl_db (rebuildIndex a m) = acl_db m"
  "ruleIndex (rebuildIndex a m) = (ruleIndex m)(a \<mapsto> build_index (rules_of m a))"
  by (simp_all add: rebuildIndex_def build_index_def fun_eq_iff)

lemma sortRules_frame [simp]:
  "rules_of (sortRules a m) b = (if b = a then sort_slice (rules_of m a) else rules_of m b)"
  "loadedAccounts (sortRules a m) = loadedAccounts m" "accessCache (sortRules a m) = accessCache m"
  "ruleIndex (sortRules a m) = ruleIndex m" "acl_db (sortRules a m) = acl_db m"
  by (simp_all add: sortRules_def rules_of_def split: option.split)

text \<open>The decision depends on the account's rules and index only.\<close>

lemma checkAccessUncached_cong:
  "rules_of m a = rules_of m' a \<Longrightarrow> ruleIndex m a = ruleIndex m' a \<Longrightarrow>
   checkAccessUncached m a p s d port = checkAccessUncached m' a p s d port"
  by (simp add: checkAccessUncached_def)

lemma account_inv_cong:
  assumes "rules_of m' a = rules_of m a" and "ruleIndex m' a = ruleIndex m a"
  shows "rules_inv m' a = rules_inv m a" "index_inv m' a = index_inv m a"
  using assms by (simp_all add: rules_inv_def index_inv_def)

lemma index_inv_build: "index_inv (rebuildIndex a m) a"
  by (simp add: index_inv_def)

lemma answers_cong:
  assumes "rules_of m' (pcAccount x) = rules_of m (pcAccount x)" and "ruleIndex m' (pcAccount x) = ruleIndex m (pcAccount x)"
    and "R = None \<or> loadedAccounts m (pcAccount x) \<Longrightarrow> R = None \<or> loadedAccounts m' (pcAccount x)" and "answers R m x"
  shows "answers R m' x"
  using assms checkAccessUncached_cong [of m' "pcAccount x" m] by (simp add: answers_def)

lemma from_data_optimized: "optimized (from_data r)"
  unfolding from_data_def by (rule optimized_optimizeRule) simp

lemma ensureRulesLoaded_cases:
  obtains (same) "ensureRulesLoaded R a m = m" "R = None \<or> loadedAccounts m a"
  | (loaded) rs where "R \<noteq> None" "\<not> loadedAccounts m a"
      "ensureRulesLoaded R a m = (rebuildIndex a (sortRules a (m\<lparr>rules := (rules m)(a \<mapsto> map from_data rs)\<rparr>)))
         \<lparr>loadedAccounts := (loadedAccounts m)(a := True)\<rparr>"
  | (failed) "R \<noteq> None" "\<not> loadedAccounts m a"
      "ensureRulesLoaded R a m = m\<lparr>loadedAccounts := (loadedAccounts m)(a := True)\<rparr>"
proof (cases "R = None \<or> loadedAccounts m a")
  case True
  then show ?thesis by (intro same) (auto simp: ensureRulesLoaded_def)
next
  case False
  then obtain r where r: "R = Some r" "\<not> loadedAccounts m a" by auto
  show ?thesis
  proof (cases "repo_ListByAccount r a (acl_db m)")
    case (Inl e)
    then show ?thesis using r by (intro failed) (simp_all add: ensureRulesLoaded_def loadAccountRulesLocked_def)
  next
    case (Inr rs)
    then show ?thesis using r by (intro loaded [of rs]) (simp_all add: ensureRulesLoaded_def loadAccountRulesLocked_def)
  qed
qed

lemma ensure_props:
  shows "accessCache (ensureRulesLoaded R a m) = accessCache m"
    and "R = None \<or> loadedAccounts (ensureRulesLoaded R a m) a"
    and "b \<noteq> a \<Longrightarrow> rules_of (ensureRulesLoaded R a m) b = rules_of m b \<and>
      ruleIndex (ensureRulesLoaded R a m) b = ruleIndex m b \<and>
      loadedAccounts (ensureRulesLoaded R a m) b = loadedAccounts m b"
    and "R = None \<or> loadedAccounts m a \<Longrightarrow> ensureRulesLoaded R a m = m"
  by (cases rule: ensureRulesLoaded_cases [of R a m]; simp)+

lemma ensure_frame:
  assumes "rules_of m' = rules_of m" and "ruleIndex m' = ruleIndex m"
    and "loadedAccounts m' = loadedAccounts m" and "acl_db m' = acl_db m"
  shows "rules_of (ensureRulesLoaded R a m') = rules_of (ensureRulesLoaded R a m)"
    and "ruleIndex (ensureRulesLoaded R a m') = ruleIndex (ensureRulesLoaded R a m)"
  using assms
  by (auto simp: ensureRulesLoaded_def loadAccountRulesLocked_def fun_eq_iff split: option.split sum.split)

lemma ensure_account_inv:
  shows "(\<And>b. rules_inv m b) \<Longrightarrow> rules_inv (ensureRulesLoaded R a m) b"
    and "index_inv m b \<Longrightarrow> index_inv (ensureRulesLoaded R a m) b"
  by (cases rule: ensureRulesLoaded_cases [of R a m];
      auto simp: rules_inv_def index_inv_def sort_slice_sorted list_all_iff from_data_optimized)+

lemma ensure_answers: "answers R m x \<Longrightarrow> answers R (ensureRulesLoaded R a m) x"
proof (cases "pcAccount x = a")
  case True
  assume "answers R m x"
  then have "ensureRulesLoaded R a m = m" using ensure_props(4) [of R m a] True by (simp add: answers_def)
  with \<open>answers R m x\<close> show ?thesis by simp
next
  case False
  assume "answers R m x"
  then show ?thesis by (rule answers_cong [rotated 3]) (use ensure_props(3) [OF False, of R m] in simp_all)
qed

lemma currentI:
  assumes "\<And>a p s d port. plain a \<Longrightarrow> plain p \<Longrightarrow> plain s \<Longrightarrow> plain d \<Longrightarrow> k = ACLCacheKey a p s d port \<Longrightarrow> a \<notin> D \<Longrightarrow>
      answers R m \<lparr>pcAccount = a, pcProtocol = p, pcSource = s, pcDest = d, pcPort = port, pcAllowed = crAllowed res, pcRule = crRuleID res\<rparr>"
  shows "current R D m k (GObj res)"
  unfolding current_def using assms by blast

lemma current_mono:
  assumes "current R D m k v" and "\<And>x. pcAccount x \<notin> D' \<Longrightarrow> answers R m x \<Longrightarrow> answers R m' x" and "D \<subseteq> D'"
  shows "current R D' m' k v"
proof -
  obtain res where v: "v = GObj res"
    and c: "\<And>a p s d port. plain a \<Longrightarrow> plain p \<Longrightarrow> plain s \<Longrightarrow> plain d \<Longrightarrow> k = ACLCacheKey a p s d port \<Longrightarrow> a \<notin> D \<Longrightarrow>
      answers R m \<lparr>pcAccount = a, pcProtocol = p, pcSource = s, pcDest = d, pcPort = port, pcAllowed = crAllowed res, pcRule = crRuleID res\<rparr>"
    using assms(1) unfolding current_def by blast
  show ?thesis unfolding v
  proof (rule currentI)
    fix a p s d port assume k: "plain a" "plain p" "plain s" "plain d" "k = ACLCacheKey a p s d port" "a \<notin> D'"
    then have "a \<notin> D" using assms(3) by blast
    from assms(2) [OF _ c [OF k(1-5) this]] k(6)
    show "answers R m' \<lparr>pcAccount = a, pcProtocol = p, pcSource = s, pcDest = d, pcPort = port, pcAllowed = crAllowed res, pcRule = crRuleID res\<rparr>"
      by simp
  qed
qed

lemma acl_invI:
  assumes "\<And>a. rules_inv m a" and "\<And>a. a \<notin> D \<Longrightarrow> index_inv m a"
    and "\<And>x. x \<in> set P \<Longrightarrow> pcAccount x \<notin> D \<Longrightarrow> answers R m x"
    and "\<And>c. accessCache m = Some c \<Longrightarrow> cache_inv c"
    and "\<And>c k v. accessCache m = Some c \<Longrightarrow> content c k = Some v \<Longrightarrow> current R D m k v"
  shows "acl_inv R D P m"
  using assms unfolding acl_inv_def by blast

lemma acl_invD:
  assumes "acl_inv R D P m"
  shows "rules_inv m a" and "a \<notin> D \<Longrightarrow> index_inv m a" and "x \<in> set P \<Longrightarrow> pcAccount x \<notin> D \<Longrightarrow> answers R m x"
    and "accessCache m = Some c \<Longrightarrow> cache_inv c"
    and "accessCache m = Some c \<Longrightarrow> content c k = Some v \<Longrightarrow> current R D m k v"
  using assms unfolding acl_inv_def by blast+

text \<open>
  A step that leaves the rules, the index and the loading of the accounts not in doubt as they are, and caches nothing new.
\<close>

lemma acl_inv_kept:
  assumes "acl_inv R D P m" and "D \<subseteq> D'" and "set P' \<subseteq> set P" and "\<And>a. rules_inv m' a"
    and "\<And>a. a \<notin> D' \<Longrightarrow> index_inv m a \<Longrightarrow> index_inv m' a"
    and "\<And>x. pcAccount x \<notin> D' \<Longrightarrow> answers R m x \<Longrightarrow> answers R m' x"
    and "\<And>c'. accessCache m' = Some c' \<Longrightarrow> cache_inv c' \<and> (\<exists>c. accessCache m = Some c \<and> content c' \<subseteq>\<^sub>m content c)"
  shows "acl_inv R D' P' m'"
proof (rule acl_invI)
  note i = acl_invD [OF assms(1)]
  show "rules_inv m' a" for a by (rule assms(4))
  show "index_inv m' a" if "a \<notin> D'" for a by (rule assms(5) [OF that i(2)]) (use assms(2) that in blast)
  show "answers R m' x" if "x \<in> set P'" "pcAccount x \<notin> D'" for x
    by (rule assms(6) [OF that(2) i(3)]) (use assms(2,3) that in blast)+
  show "cache_inv c" if "accessCache m' = Some c" for c using assms(7) that by blast
  show "current R D' m' k v" if c: "accessCache m' = Some c" and v: "content c k = Some v" for c k v
  proof (rule current_mono [OF _ assms(6,2)])
    obtain c0 where "accessCache m = Some c0" "content c \<subseteq>\<^sub>m content c0" using assms(7) c by blast
    then show "current R D m k v" using i(5) [of c0 k v] map_leD [of "content c" "content c0" k v] v by simp
  qed
qed

lemma acl_inv_frame:
  assumes "acl_inv R D P m" and "rules_of m' = rules_of m" and "ruleIndex m' = ruleIndex m"
    and "loadedAccounts m' = loadedAccounts m"
    and "\<And>c'. accessCache m' = Some c' \<Longrightarrow> cache_inv c' \<and> (\<exists>c. accessCache m = Some c \<and> content c' \<subseteq>\<^sub>m content c)"
  shows "acl_inv R D P m'"
proof (rule acl_inv_kept [OF assms(1) order_refl order_refl _ _ _ assms(5)])
  show "rules_inv m' a" for a using acl_invD(1) [OF assms(1), of a] account_inv_cong(1) [of m' a m] assms(2,3) by simp
  show "index_inv m' a" if "index_inv m a" for a using that account_inv_cong(2) [of m' a m] assms(2,3) by simp
  show "answers R m' x" if "answers R m x" for x by (rule answers_cong [OF _ _ _ that]) (use assms(2-4) in simp_all)
qed

lemma same_cache:
  assumes "acl_inv R D P m" and "accessCache m' = accessCache m" and "accessCache m' = Some c'"
  shows "cache_inv c' \<and> (\<exists>c. accessCache m = Some c \<and> content c' \<subseteq>\<^sub>m content c)"
  using acl_invD(4) [OF assms(1)] assms(2,3) by (intro conjI exI [of _ c']) simp_all

lemma ensure_inv:
  assumes "acl_inv R D P m"
  shows "acl_inv R D P (ensureRulesLoaded R a m)"
proof (rule acl_inv_kept [OF assms order_refl order_refl])
  show "rules_inv (ensureRulesLoaded R a m) b" for b by (rule ensure_account_inv(1) [OF acl_invD(1) [OF assms]])
qed (simp_all add: ensure_account_inv(2) ensure_answers same_cache [OF assms ensure_props(1)])

text \<open>Clearing the cache after a change of one account's rules.\<close>

lemma acl_inv_cleared:
  assumes "\<And>a. rules_inv m a" and "\<And>a. a \<notin> D \<Longrightarrow> index_inv m a"
    and "\<And>x. x \<in> set P \<Longrightarrow> pcAccount x \<notin> D \<Longrightarrow> answers R m x" and "\<And>c. accessCache m = Some c \<Longrightarrow> cache_inv c"
  shows "acl_inv R D P (invalidateACLCache m)"
proof (rule acl_invI)
  let ?m = "invalidateACLCache m"
  have f: "rules_of ?m = rules_of m" "ruleIndex ?m = ruleIndex m" "loadedAccounts ?m = loadedAccounts m"
    by (simp_all add: invalidateACLCache_def)
  show "rules_inv ?m a" for a using assms(1) [of a] f by (simp add: rules_inv_def)
  show "index_inv ?m a" if "a \<notin> D" for a using assms(2) [OF that] f by (simp add: index_inv_def)
  show "answers R ?m x" if "x \<in> set P" "pcAccount x \<notin> D" for x by (rule answers_cong [OF _ _ _ assms(3) [OF that]]) (use f in simp_all)
  fix c assume "accessCache ?m = Some c"
  then obtain c0 where c: "accessCache m = Some c0" "c = Clear c0" by (auto simp: invalidateACLCache_def)
  show "cache_inv c" using lru.invar_clear assms(4) c by blast
  show "current R D ?m k v" if "content c k = Some v" for k v
    using that lru.content_clear [OF assms(4) [OF c(1)]] c(2) by simp
qed

text \<open>A change of one account's rules that is indexed and clears the cache.\<close>

lemma acl_inv_changed:
  assumes "acl_inv R D P m1" and "rules_of m2 a = rs" and "by_priority rs" and "list_all optimized rs"
    and "\<And>b. b \<noteq> a \<Longrightarrow> rules_of m2 b = rules_of m1 b" and "ruleIndex m2 = ruleIndex m1"
    and "loadedAccounts m2 = loadedAccounts m1" and "accessCache m2 = accessCache m1"
  shows "acl_inv R (settled P a D) P (invalidateACLCache (rebuildIndex a m2))"
proof (rule acl_inv_cleared)
  note i = acl_invD [OF assms(1)]
  let ?m = "rebuildIndex a m2"
  show "rules_inv ?m b" for b using i(1) [of b] assms(2-5) by (cases "b = a") (simp_all add: rules_inv_def)
  show "index_inv ?m b" if "b \<notin> settled P a D" for b
    using i(2) [of b] that assms(5,6) by (cases "b = a") (auto simp: index_inv_build index_inv_def settled_def split: if_splits)
  show "answers R ?m x" if "x \<in> set P" and "pcAccount x \<notin> settled P a D" for x
  proof -
    have "pcAccount x \<noteq> a" "pcAccount x \<notin> D" using that by (auto simp: settled_def split: if_splits)
    then show ?thesis by (intro answers_cong [OF _ _ _ i(3) [OF that(1)]]) (use assms(5-7) in simp_all)
  qed
  show "cache_inv c" if "accessCache ?m = Some c" for c using i(4) assms(8) that by simp
qed

text \<open>The stored rule of a successful addition.\<close>

lemma AddRule_locked_cases:
  obtains (unsaved) e d where "AddRule_locked R rule now m1 = (Inl (SaveFailed e), m1\<lparr>acl_db := d\<rparr>)"
  | (added) r d where
      "portBitmap rule = None \<longrightarrow> optimized r" "rSourceIPs r = rSourceIPs rule" "rDestIPs r = rDestIPs rule" "rAction r = rAction rule"
      "rProtocol r = rProtocol rule" "rDestPorts r = rDestPorts rule" "rPriority r = rPriority rule"
      "rAccountID r = rAccountID rule" "rID r = (if rID rule = [] then rule_id rule m1 else rID rule)"
      "AddRule_locked R rule now m1 = (Inr r, invalidateACLCache (rebuildIndex (rAccountID rule)
         (sortRules (rAccountID rule) (m1\<lparr>rules := (rules m1)(rAccountID rule \<mapsto>
            rules_of m1 (rAccountID rule) @ [r]), acl_db := d\<rparr>))))"
proof -
  let ?a = "rAccountID rule"
  define rule1 where "rule1 = (if rID rule = [] then rule\<lparr>rID := rule_id rule m1\<rparr> else rule)"
  define rule2 where "rule2 = rule1\<lparr>rCreatedAt := (if IsZero (rCreatedAt rule1) then now else rCreatedAt rule1),
    rUpdatedAt := now\<rparr>"
  obtain res m2 where s: "saveRule R rule2 m1 = (res, m2)" by force
  then obtain d where m2: "m2 = m1\<lparr>acl_db := d\<rparr>"
    by (auto simp: saveRule_def split: option.splits prod.splits intro: that [of "acl_db m1"])
  note eq = AddRule_locked_def [of R rule now m1, unfolded Let_def, folded rule1_def, folded rule2_def, unfolded s prod.case]
  show ?thesis
  proof (cases res)
    case (Inl e)
    then show ?thesis using m2 eq by (intro unsaved [of e d]) simp_all
  next
    case r: (Inr u')
    have f: "rules_of m2 ?a = rules_of m1 ?a" "rules m2 = rules m1" by (simp_all add: m2)
    have comm: "m1\<lparr>acl_db := d, rules := x\<rparr> = m1\<lparr>rules := x, acl_db := d\<rparr>" for x by (cases m1) simp
    have fields: "portBitmap rule2 = portBitmap rule" by (simp add: rule2_def rule1_def)
    have res: "AddRule_locked R rule now m1 = (Inr (optimizeRule rule2), invalidateACLCache (rebuildIndex ?a
        (sortRules ?a (m1\<lparr>rules := (rules m1)(?a \<mapsto> rules_of m1 ?a @ [optimizeRule rule2]), acl_db := d\<rparr>))))"
      unfolding eq r sum.case f unfolding m2 comm ..
    show ?thesis
      by (rule added [OF _ _ _ _ _ _ _ _ _ res])
        (simp_all add: optimized_optimizeRule fields, simp_all add: optimizeRule_def rule2_def rule1_def)
  qed
qed

lemma AddRule_cases:
  obtains (invalid) e where "validateRule order rule m = Inl e" "AddRule R order rule now m = (Inl e, m)"
  | (unsaved) e d where "validateRule order rule m = Inr ()"
      "AddRule R order rule now m = (Inl (SaveFailed e), (ensureRulesLoaded R (rAccountID rule) m)\<lparr>acl_db := d\<rparr>)"
  | (added) r m1 d where "validateRule order rule m = Inr ()" "m1 = ensureRulesLoaded R (rAccountID rule) m"
      "rSourceIPs r = rSourceIPs rule" "rDestIPs r = rDestIPs rule"
      "AddRule R order rule now m = (Inr r, invalidateACLCache (rebuildIndex (rAccountID rule)
         (sortRules (rAccountID rule) (m1\<lparr>rules := (rules m1)(rAccountID rule \<mapsto>
            rules_of m1 (rAccountID rule) @ [r]), acl_db := d\<rparr>))))"
proof (cases "validateRule order rule m")
  case (Inl e)
  then show ?thesis by (intro invalid [of e]) (simp_all add: AddRule_def)
next
  case (Inr u)
  let ?m1 = "ensureRulesLoaded R (rAccountID rule) m"
  have eq: "AddRule R order rule now m = AddRule_locked R rule now ?m1" by (simp add: AddRule_def Inr)
  show ?thesis
  proof (cases rule: AddRule_locked_cases [of R rule now ?m1])
    case (unsaved e d)
    then show ?thesis using Inr eq by (intro that(2) [of e d]) simp_all
  next
    case (added r d)
    then show ?thesis using Inr eq by (intro that(3) [of ?m1 r d]) simp_all
  qed
qed

lemma AddRule_locked_inv:
  assumes "acl_inv R D P m"
  shows "AddRule_locked R rule now m = (Inr r, m') \<Longrightarrow> portBitmap rule = None \<Longrightarrow> acl_inv R (settled P (rAccountID rule) D) P m'"
    and "AddRule_locked R rule now m = (Inl e, m') \<Longrightarrow> acl_inv R D P m'"
proof -
  let ?a = "rAccountID rule"
  note i = acl_invD [OF assms]
  show "acl_inv R D P m'" if "AddRule_locked R rule now m = (Inl e, m')"
  proof (cases rule: AddRule_locked_cases [of R rule now m])
    case (unsaved e' d)
    then have "m' = m\<lparr>acl_db := d\<rparr>" using that by simp
    then show ?thesis by (intro acl_inv_frame [OF assms]) (simp_all add: i(4))
  qed (use that in simp)
  assume a: "AddRule_locked R rule now m = (Inr r, m')" "portBitmap rule = None"
  show "acl_inv R (settled P ?a D) P m'"
  proof (cases rule: AddRule_locked_cases [of R rule now m])
    case (added r' d)
    let ?m2 = "sortRules ?a (m\<lparr>rules := (rules m)(?a \<mapsto> rules_of m ?a @ [r]), acl_db := d\<rparr>)"
    have o: "optimized r" "m' = invalidateACLCache (rebuildIndex ?a ?m2)" using added a by simp_all
    show ?thesis unfolding o(2)
      by (rule acl_inv_changed [OF assms, where rs = "sort_slice (rules_of m ?a @ [r])"])
        (use i(1) [of ?a] o(1) in \<open>auto simp: sort_slice_sorted rules_inv_def list_all_iff\<close>)
  qed (use a in simp)
qed

lemma by_priority_remove_first: "by_priority rs \<Longrightarrow> by_priority (remove_first P rs)"
proof (induction rs)
  case (Cons r rs)
  then have "by_priority (remove_first P rs)" by (simp add: by_priority_def)
  with Cons.prems set_remove_first_subset [of P rs] show ?case by (auto simp: by_priority_def)
qed simp

lemma RemoveRule_cases [consumes 1]:
  assumes "m1 = ensureRulesLoaded R a m"
  obtains (missing) "RemoveRule R a i m = (Inl (RuleNotFound i), m1)"
  | (failed) e d where "RemoveRule R a i m = (Inl (DeleteFailed e),
      m1\<lparr>rules := (rules m1)(a \<mapsto> remove_first (\<lambda>rule. rID rule = i) (rules_of m1 a)), acl_db := d\<rparr>)"
  | (removed) d where "RemoveRule R a i m = (Inr (), invalidateACLCache (rebuildIndex a
      (m1\<lparr>rules := (rules m1)(a \<mapsto> remove_first (\<lambda>rule. rID rule = i) (rules_of m1 a)), acl_db := d\<rparr>)))"
proof (cases "list_ex (\<lambda>rule. rID rule = i) (rules_of m1 a)")
  case False
  then show ?thesis using assms by (intro missing) (simp add: RemoveRule_def)
next
  case True
  let ?m2 = "m1\<lparr>rules := (rules m1)(a \<mapsto> remove_first (\<lambda>rule. rID rule = i) (rules_of m1 a))\<rparr>"
  note eq = RemoveRule_def [of R a i m, unfolded Let_def, folded assms]
  show ?thesis
  proof (cases R)
    case None
    have "?m2 = ?m2\<lparr>acl_db := acl_db m1\<rparr>" by simp
    then show ?thesis using eq True None by (intro removed [of "acl_db m1"]) simp
  next
    case (Some r)
    obtain res d where rd: "repo_DeleteRule r i (acl_db m1) = (res, d)" by force
    show ?thesis
    proof (cases res)
      case (Inl e)
      then show ?thesis using eq True Some rd by (intro failed [of e d]) simp
    next
      case (Inr u)
      then show ?thesis using eq True Some rd by (intro removed [of d]) simp
    qed
  qed
qed

lemma rules_inv_remove: "rules_inv m a \<Longrightarrow> by_priority (remove_first P (rules_of m a)) \<and> list_all optimized (remove_first P (rules_of m a))"
  using set_remove_first_subset [of P "rules_of m a"] by (auto simp: rules_inv_def list_all_iff by_priority_remove_first)

lemma RemoveRule_inv:
  assumes "acl_inv R D P m" and "RemoveRule R a i m = (res, m')"
  shows "acl_inv R (after_remove P a D res) P m'"
proof -
  define m1 where "m1 = ensureRulesLoaded R a m"
  have i1: "acl_inv R D P m1" unfolding m1_def by (rule ensure_inv [OF assms(1)])
  note i = acl_invD [OF i1] and rs = rules_inv_remove [OF acl_invD(1) [OF i1, of a]]
  show ?thesis using m1_def
  proof (cases rule: RemoveRule_cases [where i = i])
    case missing
    then show ?thesis using i1 assms(2) by (simp add: after_remove_def)
  next
    case (removed d)
    show ?thesis using removed assms(2) rs by (auto simp: after_remove_def intro!: acl_inv_changed [OF i1 refl])
  next
    case (failed e d)
    then have m: "after_remove P a D res = insert a D"
      "m' = m1\<lparr>rules := (rules m1)(a \<mapsto> remove_first (\<lambda>rule. rID rule = i) (rules_of m1 a)), acl_db := d\<rparr>"
      using assms(2) by (simp_all add: after_remove_def)
    show ?thesis unfolding m(1)
    proof (rule acl_inv_kept [OF i1])
      show "rules_inv m' b" for b using rs i(1) [of b] by (auto simp: m(2) rules_inv_def)
      show "index_inv m' b" if "b \<notin> insert a D" "index_inv m1 b" for b using that by (auto simp: m(2) index_inv_def)
      show "answers R m' x" if "pcAccount x \<notin> insert a D" "answers R m1 x" for x
        by (rule answers_cong [OF _ _ _ that(2)]) (use that(1) in \<open>simp_all add: m(2)\<close>)
    qed (auto simp: m(2) i(4))
  qed
qed

lemma cached_decision_inv:
  assumes "acl_inv R D P m"
  shows "acl_inv R D P (snd (cached_decision k now m))"
    and "rules_of (snd (cached_decision k now m)) = rules_of m" and "ruleIndex (snd (cached_decision k now m)) = ruleIndex m"
    and "loadedAccounts (snd (cached_decision k now m)) = loadedAccounts m" and "acl_db (snd (cached_decision k now m)) = acl_db m"
    and "fst (cached_decision k now m) = Some r \<Longrightarrow> \<exists>c. accessCache m = Some c \<and> content c k = Some (GObj r)"
proof -
  let ?m = "snd (cached_decision k now m)"
  have snd: "?m = m\<lparr>accessCache := map_option (\<lambda>c. snd (Get c k now)) (accessCache m)\<rparr>"
    by (auto simp: cached_decision_def Let_def split: option.split prod.split gval.split bool.split)
  show f: "rules_of ?m = rules_of m" "ruleIndex ?m = ruleIndex m" "loadedAccounts ?m = loadedAccounts m" "acl_db ?m = acl_db m"
    unfolding snd by simp_all
  show "acl_inv R D P ?m"
  proof (rule acl_inv_frame [OF assms f(1-3)])
    fix c' assume "accessCache ?m = Some c'"
    then obtain c where "accessCache m = Some c" "c' = snd (Get c k now)" unfolding snd by auto
    then show "cache_inv c' \<and> (\<exists>c. accessCache m = Some c \<and> content c' \<subseteq>\<^sub>m content c)"
      using acl_invD(4) [OF assms] lru.invar_get lru.content_get by blast
  qed
  assume "fst (cached_decision k now m) = Some r"
  then obtain c c' where c: "accessCache m = Some c" "Get c k now = ((Some (GObj r), True), c')"
    by (auto simp: cached_decision_def Let_def split: option.splits prod.splits gval.splits bool.splits)
  then show "\<exists>c. accessCache m = Some c \<and> content c k = Some (GObj r)"
    using lru.get_hit [OF acl_invD(4) [OF assms c(1)] c(2)] by simp
qed

text \<open>Storing a decision that was the current one when it was made, for an account that is not in doubt.\<close>

lemma store_decision_inv:
  assumes "acl_inv R D P m" and "pcAccount x \<notin> D \<Longrightarrow> answers R m x" and "set P' \<subseteq> set P"
  shows "acl_inv R D P' (store_decision (ACLCacheKey (pcAccount x) (pcProtocol x) (pcSource x) (pcDest x) (pcPort x)) (pcAllowed x) (pcRule x) now m)"
    (is "acl_inv R D P' ?m")
proof (rule acl_invI)
  note inv = acl_invD [OF assms(1)]
  let ?k = "ACLCacheKey (pcAccount x) (pcProtocol x) (pcSource x) (pcDest x) (pcPort x)"
  let ?r = "\<lparr>crAllowed = pcAllowed x, crRuleID = pcRule x, crCachedAt = Unix now\<rparr>"
  have f: "rules_of ?m = rules_of m" "ruleIndex ?m = ruleIndex m" "loadedAccounts ?m = loadedAccounts m" by (simp_all add: store_decision_def)
  have keep: "answers R ?m y" if "answers R m y" for y by (rule answers_cong [OF _ _ _ that]) (use f in simp_all)
  show "rules_inv ?m b" "b \<notin> D \<Longrightarrow> index_inv ?m b" for b using inv(1,2) [of b] f by (simp_all add: rules_inv_def index_inv_def)
  show "answers R ?m y" if "y \<in> set P'" "pcAccount y \<notin> D" for y using keep inv(3) assms(3) that by blast
  fix c assume "accessCache ?m = Some c"
  then obtain c0 where c: "accessCache m = Some c0" "c = SetWithTTL c0 ?k (GObj ?r) (5 * minute) now" by (auto simp: store_decision_def)
  show "cache_inv c" using cache_inv_Set [OF inv(4) [OF c(1)]] c(2) by simp
  show "current R D ?m k v" if v: "content c k = Some v" for k v
  proof -
    have "((content c0)(?k \<mapsto> GObj ?r)) k = Some v"
      by (rule map_leD [OF lru.content_set [OF inv(4) [OF c(1)]]]) (use v c(2) in simp)
    then consider "k = ?k" "v = GObj ?r" | "content c0 k = Some v" by (cases "k = ?k") simp_all
    then show ?thesis
    proof cases
      case 1
      show ?thesis unfolding 1(2)
      proof (rule currentI)
        fix a' p' s' d' port'
        assume k: "plain a'" "plain p'" "plain s'" "plain d'" "k = ACLCacheKey a' p' s' d' port'" "a' \<notin> D"
        have "plain (pcAccount x) \<and> plain (pcProtocol x) \<and> plain (pcSource x) \<and> plain (pcDest x)"
          by (rule ACLCacheKey_plain [OF k(1-4), of _ _ _ _ "pcPort x" port']) (use 1(1) k(5) in simp)
        then have e: "a' = pcAccount x" "p' = pcProtocol x" "s' = pcSource x" "d' = pcDest x" "port' = pcPort x"
          using ACLCacheKey_inj [OF k(1-4), of "pcAccount x" "pcProtocol x" "pcSource x" "pcDest x" port' "pcPort x"] 1(1) k(5) by auto
        have "answers R ?m x" using keep assms(2) k(6) e(1) by blast
        then show "answers R ?m \<lparr>pcAccount = a', pcProtocol = p', pcSource = s', pcDest = d', pcPort = port', pcAllowed = crAllowed ?r, pcRule = crRuleID ?r\<rparr>"
          by (simp add: e answers_def)
      qed
    next
      case 2
      from inv(5) [OF c(1) this] show ?thesis by (rule current_mono) (simp_all add: keep)
    qed
  qed
qed

text \<open>A whole check of a packet with nothing in between: what it answers.\<close>

lemma CheckAccess_answer:
  assumes "acl_inv R D P m" and "a \<notin> D" and "plain a" "plain p" "plain s" "plain d"
  shows "fst (CheckAccess R a p s d port now m) = checkAccessUncached (ensureRulesLoaded R a m) a p s d port"
proof -
  let ?k = "ACLCacheKey a p s d port"
  obtain hit m0 where h: "cached_decision ?k now m = (hit, m0)" by force
  note c = cached_decision_inv [OF assms(1), of ?k now, unfolded h fst_conv snd_conv]
  show ?thesis
  proof (cases hit)
    case (Some r)
    then obtain c0 where "accessCache m = Some c0" "content c0 ?k = Some (GObj r)" using c(6) by blast
    from acl_invD(5) [OF assms(1) this] have "answers R m \<lparr>pcAccount = a, pcProtocol = p, pcSource = s, pcDest = d, pcPort = port,
        pcAllowed = crAllowed r, pcRule = crRuleID r\<rparr>"
      using assms(2-6) unfolding current_def by auto
    then show ?thesis using Some h ensure_props(4) [of R m a] by (simp add: CheckAccess_def answers_def)
  next
    case None
    have "checkAccessUncached (ensureRulesLoaded R a m0) a p s d port = checkAccessUncached (ensureRulesLoaded R a m) a p s d port"
      by (rule checkAccessUncached_cong) (use ensure_frame [OF c(2-5)] in auto)
    then show ?thesis using None h by (simp add: CheckAccess_def Let_def split: decision.split)
  qed
qed

lemma acl_inv_New: "acl_inv R {} [] (NewACLManager bfs d)"
proof (rule acl_invI)
  show "rules_inv (NewACLManager bfs d) a" "index_inv (NewACLManager bfs d) a" for a
    by (simp_all add: rules_inv_def index_inv_def NewACLManager_def rules_of_def by_priority_def)
  show "cache_inv c" if "accessCache (NewACLManager bfs d) = Some c" for c
    using that by (auto simp: NewACLManager_def NewCacheForType_def NewCache_inv)
  show "current R {} (NewACLManager bfs d) k v"
    if "accessCache (NewACLManager bfs d) = Some c" and "content c k = Some v" for c k v
    using that by (auto simp: NewACLManager_def NewCacheForType_def NewCache_content)
qed simp

lemma acl_step_inv: "acl_step R s s' \<Longrightarrow> acl_inv R (fst s) (fst (snd s)) (snd (snd s)) \<Longrightarrow> acl_inv R (fst s') (fst (snd s')) (snd (snd s'))"
proof (induction rule: acl_step.induct)
  case (store x P D m now)
  then show ?case using set_remove1_subset [of x P] by (auto dest: acl_invD(3) intro!: store_decision_inv)
next
  case (evaluate m x D P)
  then show ?case by (simp add: acl_inv_def answers_def)
next
  case (register D P m a subnet)
  then have "acl_inv R D P m" by simp
  then have "acl_inv R D P (snd (RegisterTenantSubnet a subnet m))"
    by (rule acl_inv_frame) (auto simp: RegisterTenantSubnet_def dest: acl_invD(4) [OF \<open>acl_inv R D P m\<close>] split: option.splits prod.splits)
  then show ?case by simp
next
  case (unregister D P m a)
  then have "acl_inv R D P m" by simp
  then have "acl_inv R D P (UnregisterTenantSubnet a m)"
    by (rule acl_inv_frame) (auto simp: UnregisterTenantSubnet_def dest: acl_invD(4) [OF \<open>acl_inv R D P m\<close>])
  then show ?case by simp
next
  case (added rule now m r m' D P)
  then show ?case using AddRule_locked_inv(1) [OF ensure_inv] by simp
next
  case (not_added rule now m e m' D P)
  then show ?case using AddRule_locked_inv(2) [OF ensure_inv] by simp
qed (simp_all add: ensure_inv RemoveRule_inv cached_decision_inv(1))

lemma acl_reach_inv: "acl_reach R D P m \<Longrightarrow> acl_inv R D P m"
  by (induction rule: acl_reach.induct) (auto intro: acl_inv_New dest: acl_step_inv)

lemmas loaded_inv = ensure_inv [OF acl_reach_inv]

lemma decision_spec:
  assumes "acl_reach R D P m" and "a \<notin> D" and "list_all addresses_parse (rules_of (ensureRulesLoaded R a m) a)"
    and "plain a" and "ParseIP src \<noteq> None" and "ParseIP dst \<noteq> None" and "plain src" and "plain dst"
    and "proto \<in> {''tcp'', ''udp''}" and "0 < port" and "port < 65536"
  shows "fst (CheckAccess R a proto src dst port now m) =
      acl_spec (rules_of (ensureRulesLoaded R a m) a) proto src dst port"
proof -
  note acc = acl_invD(1,2) [OF loaded_inv [OF assms(1), of a]]
  obtain x y where ip: "ParseIP src = Some x" "ParseIP dst = Some y" using assms(5,6) by blast
  have "plain proto" using assms(9) by (auto simp: plain_def)
  then have "fst (CheckAccess R a proto src dst port now m) =
      checkAccessUncached (ensureRulesLoaded R a m) a proto src dst port"
    using CheckAccess_answer [OF acl_reach_inv [OF assms(1)]] assms(2,4,7,8) by blast
  also have "\<dots> = acl_spec (rules_of (ensureRulesLoaded R a m) a) proto src dst port"
  proof (rule checkAccessUncached_spec [OF _ _ ip assms(9-11)])
    show "ruleIndex (ensureRulesLoaded R a m) a = Some (build_index (rules_of (ensureRulesLoaded R a m) a))"
      if "rules_of (ensureRulesLoaded R a m) a \<noteq> []"
      using acc(2) [OF assms(2)] that by (simp add: index_inv_def)
    show "list_all (\<lambda>r. optimized r \<and> addresses_parse r) (rules_of (ensureRulesLoaded R a m) a)"
      using acc(1) [of a] assms(3) by (simp add: rules_inv_def list_all_iff)
  qed
  finally show ?thesis .
qed

lemma AddRule_effect_aux:
  assumes "AddRule R order rule now m = (Inr r, m')"
  shows "rules_of m' (rAccountID rule) = sort_slice (rules_of (ensureRulesLoaded R (rAccountID rule) m) (rAccountID rule) @ [r])"
    and "b \<noteq> rAccountID rule \<Longrightarrow> rules_of m' b = rules_of m b"
proof -
  let ?a = "rAccountID rule"
  show "rules_of m' ?a = sort_slice (rules_of (ensureRulesLoaded R ?a m) ?a @ [r])"
    and "b \<noteq> ?a \<Longrightarrow> rules_of m' b = rules_of m b"
    using assms ensure_props(3) [of b ?a R m]
    by (cases rule: AddRule_cases [of order rule m R now]; simp add: invalidateACLCache_def)+
qed

text \<open>
  A rule that \<open>AddRule\<close> accepts joins the account's rules, which stay sorted by priority and
  are otherwise unchanged; no other account's rules change.
\<close>

theorem AddRule_effect:
  assumes "AddRule R order rule now m = (Inr r, m')"
  shows "by_priority (rules_of m' (rAccountID rule)) \<and>
    mset (rules_of m' (rAccountID rule)) =
      add_mset r (mset (loaded_rules R (rAccountID rule) m)) \<and>
    (\<forall>b. b \<noteq> rAccountID rule \<longrightarrow> rules_of m' b = rules_of m b)"
  using AddRule_effect_aux [OF assms] by (simp add: loaded_rules_def sort_slice_sorted sort_slice_mset)

lemma remove_first_split:
  "list_ex P xs \<Longrightarrow> \<exists>pre x post. xs = pre @ x # post \<and> P x \<and> (\<forall>y\<in>set pre. \<not> P y) \<and> remove_first P xs = pre @ post"
proof (induction xs)
  case (Cons x xs)
  show ?case
  proof (cases "P x")
    case True
    then show ?thesis by (intro exI [of _ "[]"] exI [of _ x] exI [of _ xs]) simp
  next
    case False
    then obtain pre y post where "xs = pre @ y # post" "P y" "\<forall>y\<in>set pre. \<not> P y" "remove_first P xs = pre @ post"
      using Cons by auto
    then show ?thesis using False by (intro exI [of _ "x # pre"] exI [of _ y] exI [of _ post]) simp
  qed
qed simp

text \<open>
  A successful \<open>RemoveRule\<close> removes exactly the first rule with the given identifier and keeps
  the order of the others and the rules of other accounts.
\<close>

theorem RemoveRule_effect:
  "fst (RemoveRule R a i m) = Inr () \<Longrightarrow>
     (\<exists>pre r post. loaded_rules R a m = pre @ r # post \<and> rID r = i \<and>
        (\<forall>q\<in>set pre. rID q \<noteq> i) \<and> rules_of (snd (RemoveRule R a i m)) a = pre @ post \<and>
        (\<forall>b. b \<noteq> a \<longrightarrow> rules_of (snd (RemoveRule R a i m)) b = rules_of m b))"
proof -
  assume ok: "fst (RemoveRule R a i m) = Inr ()"
  define m1 where "m1 = ensureRulesLoaded R a m"
  have ex: "list_ex (\<lambda>rule. rID rule = i) (rules_of m1 a)"
    using ok unfolding RemoveRule_def Let_def m1_def [symmetric] by (auto split: if_splits)
  have frame: "rules_of (snd (RemoveRule R a i m)) b =
      (if b = a then remove_first (\<lambda>rule. rID rule = i) (rules_of m1 a) else rules_of m1 b)" for b
    using ok ex unfolding RemoveRule_def Let_def m1_def [symmetric]
    by (auto simp: invalidateACLCache_def split: option.splits sum.splits prod.splits)
  have other: "rules_of m1 b = rules_of m b" if "b \<noteq> a" for b
    using ensure_props(3) [of b a R m] that by (simp add: m1_def)
  from remove_first_split [OF ex] show ?thesis
    unfolding frame loaded_rules_def m1_def [symmetric] using other by simp
qed

text \<open>
  \<open>RemoveRule\<close> reports a missing rule exactly when the account has none with the identifier.
\<close>

theorem RemoveRule_missing:
  "fst (RemoveRule R a i m) = Inl (RuleNotFound i) \<longleftrightarrow>
     (\<forall>r\<in>set (loaded_rules R a m). rID r \<noteq> i)"
  unfolding RemoveRule_def Let_def loaded_rules_def
  by (auto simp: list_ex_iff split: option.splits sum.splits prod.splits)

lemma validate_ips_ok:
  assumes "validate_ips bad order a m ips = Inr u" and "ip \<in> set ips" and "ip \<noteq> ''any''"
  shows "\<exists>x. ParseIP ip = Some x \<and> validateIPBelongsToTenant order ip a m = Inr ()"
  using assms
proof (induction ips)
  case (Cons j ips)
  then show ?case
    by (cases "validateIPBelongsToTenant order j a m") (auto split: if_splits)
qed simp

lemma validateIP_ok:
  assumes "validateIPBelongsToTenant order ip a m = Inr ()" and "ParseIP ip = Some x"
  shows "To4 x \<noteq> [] \<and> (case map_of (tenantSubnets m) a of
      Some net \<Rightarrow> IPNet_Contains net x | None \<Rightarrow> hd (To4 x) = 10 \<or> hd (To4 x) = 100)"
  using assms
  by (auto simp: validateIPBelongsToTenant_def Let_def split: option.splits if_splits)



text \<open>
  A rule that names the port decides before a rule without ports, whatever their priorities:
  an allow rule for the port overrides a deny rule of higher priority for all ports.
\<close>

theorem port_rule_outranks_priority:
  assumes "acl_reach R D P m" and "a \<notin> D" and "loaded_rules R a m = [r1, r2]"
    and "addresses_parse r1" and "addresses_parse r2"
    and "plain a" and "ParseIP src \<noteq> None" and "ParseIP dst \<noteq> None" and "plain src" and "plain dst"
    and "proto \<in> {''tcp'', ''udp''}" and "0 < port" and "port < 65536"
    and "rPriority r1 < rPriority r2"
    and "packet_matches proto src dst r1" and "rDestPorts r1 = []" and "rAction r1 = ''deny''"
    and "packet_matches proto src dst r2" and "port \<in> set (rDestPorts r2)" and "rAction r2 = ''allow''"
  shows "fst (CheckAccess R a proto src dst port now m) = Decided True (rID r2)"
  using decision_spec [OF assms(1,2) _ assms(6-13)] assms
  by (simp add: loaded_rules_def acl_spec_def verdict_def)

text \<open>
  Why an account can be in doubt: a decision stored after the rules have changed is the answer of the next five minutes, whatever the rules say.
\<close>

theorem late_decision_answered:
  assumes "acl_reach R D P m" and "x \<in> set P" and "accessCache m = Some c" and "\<not> closed c" and "now' \<le> now + 5 * minute"
    and "m' = store_decision (ACLCacheKey (pcAccount x) (pcProtocol x) (pcSource x) (pcDest x) (pcPort x)) (pcAllowed x) (pcRule x) now m"
  shows "fst (CheckAccess R (pcAccount x) (pcProtocol x) (pcSource x) (pcDest x) (pcPort x) now' m') = Decided (pcAllowed x) (pcRule x)"
proof -
  let ?k = "ACLCacheKey (pcAccount x) (pcProtocol x) (pcSource x) (pcDest x) (pcPort x)"
  let ?r = "\<lparr>crAllowed = pcAllowed x, crRuleID = pcRule x, crCachedAt = Unix now\<rparr>"
  have "fst (Get (SetWithTTL c ?k (GObj ?r) (5 * minute) now) ?k now') = (Some (GObj ?r), True)"
    using Get_SetWithTTL [OF acl_invD(4) [OF acl_reach_inv [OF assms(1)] assms(3)] _ assms(4), of ?k "GObj ?r" "5 * minute" now now'] assms(5)
    by (auto simp: ACLCacheKey_def)
  then obtain c' where "Get (SetWithTTL c ?k (GObj ?r) (5 * minute) now) ?k now' = ((Some (GObj ?r), True), c')" by (metis prod.collapse)
  then show ?thesis using assms(3,6) by (simp add: CheckAccess_def cached_decision_def store_decision_def)
qed

text \<open>A manager without a repository and two rules of one account.\<close>

definition acl_demo_rule :: "string \<Rightarrow> string \<Rightarrow> int list \<Rightarrow> int \<Rightarrow> ACLRule" where
  "acl_demo_rule i act ports prio = \<lparr>rID = i, rAccountID = ''tenant-0001'', rName = ''demo'', rAction = act,
     rProtocol = ''all'', rSourceIPs = [''10.0.0.2''], rDestIPs = [''any''], rDestPorts = ports, rPriority = prio,
     rDescription = [], rCreatedAt = 0, rUpdatedAt = 0, rSourcePeerIDs = [], rDestPeerIDs = [], rServices = [],
     srcIPsParsed = [], dstIPsParsed = [], portBitmap = None, hasAnySource = False, hasAnyDest = False\<rparr>"

definition acl_demo_stored :: "string \<Rightarrow> string \<Rightarrow> int list \<Rightarrow> int \<Rightarrow> ACLRule" where
  "acl_demo_stored i act ports prio = optimizeRule ((acl_demo_rule i act ports prio)\<lparr>rCreatedAt := 5, rUpdatedAt := 5\<rparr>)"

definition acl_demo_new :: "unit ACLManager" where
  "acl_demo_new = snd (RegisterTenantSubnet ''tenant-0001'' ''10.0.0.0/27'' (NewACLManager 0 ()))"

definition acl_demo_one :: "unit ACLManager" where
  "acl_demo_one = snd (AddRule None [] (acl_demo_rule ''r1'' ''deny'' [] 1) 5 acl_demo_new)"

definition acl_demo_two :: "unit ACLManager" where
  "acl_demo_two = snd (AddRule None [] (acl_demo_rule ''r2'' ''allow'' [80] 2) 5 acl_demo_one)"

lemma acl_demo_subnets:
  "tenantSubnets acl_demo_new = [(''tenant-0001'', snd (the (ParseCIDR ''10.0.0.0/27'')))]"
  "rules_of acl_demo_new a = []"
proof -
  have "ParseCIDR ''10.0.0.0/27'' \<noteq> None" by code_simp
  then obtain x n where p: "ParseCIDR ''10.0.0.0/27'' = Some (x, n)" by auto
  show "tenantSubnets acl_demo_new = [(''tenant-0001'', snd (the (ParseCIDR ''10.0.0.0/27'')))]"
    "rules_of acl_demo_new a = []"
    by (simp_all add: acl_demo_new_def RegisterTenantSubnet_def p NewACLManager_def rules_of_def)
qed

lemma AddRule_subnets: "tenantSubnets (snd (AddRule None order rule now m)) = tenantSubnets m"
  by (auto simp: AddRule_def AddRule_locked_def saveRule_def Let_def invalidateACLCache_def rebuildIndex_def sortRules_def
      ensureRulesLoaded_def split: sum.split option.split)

lemma acl_demo_valid:
  assumes "tenantSubnets m = [(''tenant-0001'', snd (the (ParseCIDR ''10.0.0.0/27'')))]"
    and "act = ''allow'' \<or> act = ''deny''"
  shows "validateRule [] (acl_demo_rule i act ports prio) (m :: unit ACLManager) = Inr ()"
proof -
  have ip: "ParseIP ''10.0.0.2'' \<noteq> None" "To4 (the (ParseIP ''10.0.0.2'')) \<noteq> []"
    "IPNet_Contains (snd (the (ParseCIDR ''10.0.0.0/27''))) (the (ParseIP ''10.0.0.2''))" by code_simp+
  then obtain x where x: "ParseIP ''10.0.0.2'' = Some x" by blast
  show ?thesis using assms ip
    by (auto simp: validateRule_def acl_demo_rule_def validateIPBelongsToTenant_def Let_def x)
qed

lemma acl_demo_add:
  assumes "validateRule [] (acl_demo_rule i act ports prio) m = Inr ()" and "i \<noteq> []"
  shows "fst (AddRule None [] (acl_demo_rule i act ports prio) 5 m) = Inr (acl_demo_stored i act ports prio)"
    "rules_of (snd (AddRule None [] (acl_demo_rule i act ports prio) 5 m)) ''tenant-0001'' =
     sort_slice (rules_of m ''tenant-0001'' @ [acl_demo_stored i act ports prio])"
proof -
  show r: "fst (AddRule None [] (acl_demo_rule i act ports prio) 5 m) = Inr (acl_demo_stored i act ports prio)"
    using assms by (simp add: AddRule_def AddRule_locked_def ensureRulesLoaded_def saveRule_def Let_def acl_demo_stored_def) (simp add: acl_demo_rule_def IsZero_def)
  have a: "rAccountID (acl_demo_rule i act ports prio) = ''tenant-0001''" by (simp add: acl_demo_rule_def)
  from AddRule_effect_aux(1) [of None "[]" "acl_demo_rule i act ports prio" 5 m "acl_demo_stored i act ports prio"] r
  show "rules_of (snd (AddRule None [] (acl_demo_rule i act ports prio) 5 m)) ''tenant-0001'' =
     sort_slice (rules_of m ''tenant-0001'' @ [acl_demo_stored i act ports prio])"
    unfolding a by (metis ensureRulesLoaded_def prod.collapse)
qed

lemma acl_demo_locked: "AddRule None [] (acl_demo_rule i act ports prio) 5 m = AddRule_locked None (acl_demo_rule i act ports prio) 5 m"
  if "validateRule [] (acl_demo_rule i act ports prio) m = Inr ()"
  using that by (simp add: AddRule_def ensureRulesLoaded_def)

lemma acl_demo_valid_rules: "validateRule [] (acl_demo_rule ''r1'' ''deny'' [] 1) acl_demo_new = Inr ()"
  "validateRule [] (acl_demo_rule ''r2'' ''allow'' [80] 2) acl_demo_one = Inr ()"
  by (rule acl_demo_valid; simp add: acl_demo_subnets acl_demo_one_def AddRule_subnets)+

lemma acl_demo_reach: "acl_reach None {} [] acl_demo_one" "acl_reach None {} [] acl_demo_two"
proof -
  have s: "settled [] a {} = {}" for a by (simp add: settled_def)
  have step: "acl_reach None {} [] (snd (AddRule None [] (acl_demo_rule i act ports prio) 5 m))"
    if "acl_reach None {} [] m" "validateRule [] (acl_demo_rule i act ports prio) m = Inr ()" "i \<noteq> []" for i act ports prio m
    using acl_step.added [of "acl_demo_rule i act ports prio" None 5 m _ _ "{}" "[]", unfolded s] acl_demo_add(1) [OF that(2,3)] acl_reach.step [OF that(1)]
    unfolding acl_demo_locked [OF that(2)] by (simp add: acl_demo_rule_def ensureRulesLoaded_def) (metis prod.collapse)
  have "acl_reach None {} [] acl_demo_new"
    unfolding acl_demo_new_def by (rule acl_reach.step [OF acl_reach.init acl_step.register])
  then show 1: "acl_reach None {} [] acl_demo_one"
    unfolding acl_demo_one_def by (rule step [OF _ acl_demo_valid_rules(1)]) simp
  show "acl_reach None {} [] acl_demo_two"
    unfolding acl_demo_two_def by (rule step [OF 1 acl_demo_valid_rules(2)]) simp
qed

lemma acl_demo_rules:
  "rules_of acl_demo_one ''tenant-0001'' = [acl_demo_stored ''r1'' ''deny'' [] 1]"
  "rules_of acl_demo_two ''tenant-0001'' = [acl_demo_stored ''r1'' ''deny'' [] 1, acl_demo_stored ''r2'' ''allow'' [80] 2]"
proof -
  have v1: "validateRule [] (acl_demo_rule ''r1'' ''deny'' [] 1) acl_demo_new = Inr ()"
    by (rule acl_demo_valid) (simp_all add: acl_demo_subnets)
  show 1: "rules_of acl_demo_one ''tenant-0001'' = [acl_demo_stored ''r1'' ''deny'' [] 1]"
    unfolding acl_demo_one_def by (subst acl_demo_add(2) [OF v1]) (simp_all add: acl_demo_subnets)
  have v2: "validateRule [] (acl_demo_rule ''r2'' ''allow'' [80] 2) acl_demo_one = Inr ()"
    by (rule acl_demo_valid) (simp_all add: acl_demo_subnets acl_demo_one_def AddRule_subnets)
  show "rules_of acl_demo_two ''tenant-0001'' = [acl_demo_stored ''r1'' ''deny'' [] 1, acl_demo_stored ''r2'' ''allow'' [80] 2]"
    unfolding acl_demo_two_def
    by (subst acl_demo_add(2) [OF v2]) (simp_all add: 1 acl_demo_stored_def optimizeRule_def acl_demo_rule_def)
qed

lemma acl_demo_fields: "rID (acl_demo_stored i act ps p) = i" "rAction (acl_demo_stored i act ps p) = act"
  "rDestPorts (acl_demo_stored i act ps p) = ps" "rPriority (acl_demo_stored i act ps p) = p"
  "addresses_parse (acl_demo_stored i act ps p)" "packet_matches ''tcp'' ''10.0.0.2'' ''10.0.0.9'' (acl_demo_stored i act ps p)"
proof -
  have "ParseIP ''10.0.0.2'' \<noteq> None" "same_address ''10.0.0.2'' ''10.0.0.2''" by code_simp+
  then show "rID (acl_demo_stored i act ps p) = i" "rAction (acl_demo_stored i act ps p) = act"
  "rDestPorts (acl_demo_stored i act ps p) = ps" "rPriority (acl_demo_stored i act ps p) = p"
  "addresses_parse (acl_demo_stored i act ps p)" "packet_matches ''tcp'' ''10.0.0.2'' ''10.0.0.9'' (acl_demo_stored i act ps p)"
    by (simp_all add: acl_demo_stored_def optimizeRule_def acl_demo_rule_def addresses_parse_def packet_matches_def
        rule_applies_def addr_matches_def)
qed

lemma ensure_None: "ensureRulesLoaded None a m = m"
  by (simp add: ensureRulesLoaded_def)


theorem port_rule_outranks_priority_witness:
  "rPriority (acl_demo_stored ''r1'' ''deny'' [] 1) < rPriority (acl_demo_stored ''r2'' ''allow'' [80] 2) \<and>
   fst (CheckAccess None ''tenant-0001'' ''tcp'' ''10.0.0.2'' ''10.0.0.9'' 80 7 acl_demo_two) = Decided True ''r2''"
proof -
  have p: "ParseIP ''10.0.0.2'' \<noteq> None" "ParseIP ''10.0.0.9'' \<noteq> None" by code_simp+
  show ?thesis
    using port_rule_outranks_priority [of None "{}" "[]" acl_demo_two "''tenant-0001''" "acl_demo_stored ''r1'' ''deny'' [] 1"
        "acl_demo_stored ''r2'' ''allow'' [80] 2" "''10.0.0.2''" "''10.0.0.9''" "''tcp''" 80 7] p
    by (simp add: loaded_rules_def acl_demo_reach ensure_None acl_demo_rules acl_demo_fields plain_def)
qed

lemma acl_demo_added: "AddRule None [] (acl_demo_rule ''r1'' ''deny'' [] 1) 5 acl_demo_new = (Inr (acl_demo_stored ''r1'' ''deny'' [] 1), acl_demo_one)"
proof -
  have "validateRule [] (acl_demo_rule ''r1'' ''deny'' [] 1) acl_demo_new = Inr ()"
    by (rule acl_demo_valid) (simp_all add: acl_demo_subnets)
  from acl_demo_add(1) [OF this] show ?thesis unfolding acl_demo_one_def by (simp add: prod_eq_iff)
qed

theorem AddRule_effect_witness:
  "mset (rules_of acl_demo_one ''tenant-0001'') = {#acl_demo_stored ''r1'' ''deny'' [] 1#}"
  using AddRule_effect [OF acl_demo_added] by (simp add: loaded_rules_def acl_demo_rule_def ensure_None acl_demo_subnets)


theorem RemoveRule_effect_witness:
  "rules_of (snd (RemoveRule None ''tenant-0001'' ''r1'' acl_demo_one)) ''tenant-0001'' = []"
proof -
  have "fst (RemoveRule None ''tenant-0001'' ''r1'' acl_demo_one) = Inr ()"
    by (simp add: RemoveRule_def ensure_None acl_demo_rules acl_demo_fields)
  from RemoveRule_effect [OF this] show ?thesis
    by (auto simp: loaded_rules_def ensure_None acl_demo_rules Cons_eq_append_conv)
qed

theorem RemoveRule_missing_witness:
  "fst (RemoveRule None ''tenant-0001'' ''r9'' acl_demo_one) = Inl (RuleNotFound ''r9'')"
  unfolding RemoveRule_missing by (simp add: loaded_rules_def ensure_None acl_demo_rules acl_demo_fields)

end
