(* ===== verification/OAuth_Store.thy ===== *)
theory OAuth_Store
  imports GoStrings
begin

text \<open>
  The data of the authorization server, \<open>src/internal/oauth2/types.go\<close>, and its in-memory store,
  \<open>src/internal/oauth2/secure_store.go\<close>.

  The store shares each request object between its maps, and the server changes the object through
  the pointer it gets back, so requests live in explicit heaps (\<open>dev_heap\<close> and \<open>auth_heap\<close>) and the
  maps hold addresses. The mutex makes every operation one step. The loops over the expiration
  buckets visit them in the order of the list; no two buckets hold the same code.
\<close>

section \<open>Data\<close>

datatype AuthorizationStatus = StatusPending | StatusAuthorized | StatusDenied | StatusExpired | StatusConsumed

fun status_String :: "AuthorizationStatus \<Rightarrow> string" where
  "status_String StatusPending = ''pending''"
| "status_String StatusAuthorized = ''authorized''"
| "status_String StatusDenied = ''denied''"
| "status_String StatusExpired = ''expired''"
| "status_String StatusConsumed = ''consumed''"

record DeviceRequest =
  dDeviceCode :: string
  dUserCode :: string
  dStatus :: AuthorizationStatus
  dClientID :: string
  dDeviceID :: string
  dUserID :: string
  dEmail :: string
  dName :: string
  dTenantID :: string
  dTier :: string
  dAccessToken :: string
  dCreatedAt :: gotime
  dExpiresAt :: gotime
  dLastPolledAt :: gotime

record AuthorizationRequest =
  qClientID :: string
  qRedirectURI :: string
  qState :: string
  qScope :: string
  qCodeChallenge :: string
  qCodeChallengeMethod :: string
  qDeviceID :: string
  qAuthorizationCode :: string
  qUserID :: string
  qEmail :: string
  qName :: string
  qTenantID :: string
  qTier :: string
  qCreatedAt :: gotime
  qExpiresAt :: gotime

record DeviceAuthorizationResponse =
  rDeviceCode :: string
  rUserCode :: string
  rVerificationURI :: string
  rVerificationURIComplete :: string
  rExpiresIn :: int
  rInterval :: int

record TokenResponse =
  tAccessToken :: string
  tTokenType :: string
  tExpiresIn :: int

record OAuthConfig =
  Issuer :: string
  DeviceCodeLength :: int
  UserCodeLength :: int
  DeviceCodeLifetime :: duration
  MinPollInterval :: duration
  AccessTokenLifetime :: duration

definition DefaultConfig :: OAuthConfig where
  "DefaultConfig = \<lparr>Issuer = ''https://console.wantastic.app'', DeviceCodeLength = 40, UserCodeLength = 8,
     DeviceCodeLifetime = 10 * minute, MinPollInterval = 5 * second, AccessTokenLifetime = 24 * hour\<rparr>"

definition DevConfig :: OAuthConfig where
  "DevConfig = DefaultConfig\<lparr>Issuer := ''https://wantastic.local'', DeviceCodeLifetime := 30 * minute\<rparr>"

definition IsDevMode :: "string \<Rightarrow> bool" where
  "IsDevMode issuer \<longleftrightarrow> issuer = ''https://wantastic.local'' \<or> issuer = ''http://wantastic.local'' \<or>
     issuer = ''http://localhost'' \<or> issuer = ''http://127.0.0.1''"

definition dev_IsExpired :: "DeviceRequest \<Rightarrow> gotime \<Rightarrow> bool" where
  "dev_IsExpired r now \<longleftrightarrow> After now (dExpiresAt r)"

definition auth_IsExpired :: "AuthorizationRequest \<Rightarrow> gotime \<Rightarrow> bool" where
  "auth_IsExpired r now \<longleftrightarrow> After now (qExpiresAt r)"

text \<open>\<open>time.Since\<close>: a difference that does not fit a \<open>Duration\<close> is saturated.\<close>

definition Since :: "gotime \<Rightarrow> gotime \<Rightarrow> duration" where
  "Since now t = max (- (2 ^ 63)) (min (2 ^ 63 - 1) (now - t))"

definition CanPoll :: "DeviceRequest \<Rightarrow> duration \<Rightarrow> gotime \<Rightarrow> bool" where
  "CanPoll r interval now \<longleftrightarrow> interval \<le> Since now (dLastPolledAt r)"

datatype oauth_error =
    ErrNotFound
  | ErrExpired
  | ErrAuthorizationPending
  | ErrSlowDown
  | ErrExpiredToken
  | ErrAccessDenied
  | ErrInvalidGrant
  | ErrInvalidClient
  | ErrInvalidRequest
  | ErrText string

section \<open>The store\<close>

record SecureMemoryStore =
  dev_heap :: "addr \<Rightarrow> DeviceRequest"
  auth_heap :: "addr \<Rightarrow> AuthorizationRequest"
  next_dev :: addr
  next_auth :: addr
  byDevice :: "(string, addr) gomap"
  byUser :: "(string, addr) gomap"
  byAuthCode :: "(string, addr) gomap"
  deviceExpirations :: "(int, string list) gomap"
  authExpirations :: "(int, string list) gomap"

definition NewSecureMemoryStore :: "(addr \<Rightarrow> DeviceRequest) \<Rightarrow> (addr \<Rightarrow> AuthorizationRequest) \<Rightarrow> SecureMemoryStore" where
  "NewSecureMemoryStore dh ah = \<lparr>dev_heap = dh, auth_heap = ah, next_dev = 0, next_auth = 0,
     byDevice = [], byUser = [], byAuthCode = [], deviceExpirations = [], authExpirations = []\<rparr>"

definition sanitizeDeviceRequest :: "DeviceRequest \<Rightarrow> DeviceRequest" where
  "sanitizeDeviceRequest req = req\<lparr>dDeviceCode := [], dUserCode := [], dAccessToken := [], dDeviceID := [],
     dUserID := [], dEmail := [], dName := []\<rparr>"

definition sanitizeAuthRequest :: "AuthorizationRequest \<Rightarrow> AuthorizationRequest" where
  "sanitizeAuthRequest req = req\<lparr>qAuthorizationCode := [], qCodeChallenge := [], qDeviceID := [],
     qUserID := [], qEmail := [], qName := [], qState := []\<rparr>"

text \<open>The expiration trackers: a bucket is the set of codes that expire in one second.\<close>

definition track :: "string \<Rightarrow> gotime \<Rightarrow> (int, string list) gomap \<Rightarrow> (int, string list) gomap" where
  "track cd expiresAt m =
     (let bucket = Unix expiresAt;
          codes = (case map_of m bucket of None \<Rightarrow> [] | Some cs \<Rightarrow> cs)
      in AList.update bucket (List.insert cd codes) m)"

definition untrack :: "string \<Rightarrow> gotime \<Rightarrow> (int, string list) gomap \<Rightarrow> (int, string list) gomap" where
  "untrack cd expiresAt m =
     (let bucket = Unix expiresAt in
      case map_of m bucket of
        None \<Rightarrow> m
      | Some codes \<Rightarrow>
          (let codes1 = filter (\<lambda>c. c \<noteq> cd) codes
           in if codes1 = [] then AList.delete bucket m else AList.update bucket codes1 m))"

definition trackDeviceExpiration :: "string \<Rightarrow> gotime \<Rightarrow> SecureMemoryStore \<Rightarrow> SecureMemoryStore" where
  "trackDeviceExpiration cd t s = s\<lparr>deviceExpirations := track cd t (deviceExpirations s)\<rparr>"

definition trackAuthExpiration :: "string \<Rightarrow> gotime \<Rightarrow> SecureMemoryStore \<Rightarrow> SecureMemoryStore" where
  "trackAuthExpiration cd t s = s\<lparr>authExpirations := track cd t (authExpirations s)\<rparr>"

definition untrackDeviceExpiration :: "string \<Rightarrow> gotime \<Rightarrow> SecureMemoryStore \<Rightarrow> SecureMemoryStore" where
  "untrackDeviceExpiration cd t s = s\<lparr>deviceExpirations := untrack cd t (deviceExpirations s)\<rparr>"

definition untrackAuthExpiration :: "string \<Rightarrow> gotime \<Rightarrow> SecureMemoryStore \<Rightarrow> SecureMemoryStore" where
  "untrackAuthExpiration cd t s = s\<lparr>authExpirations := untrack cd t (authExpirations s)\<rparr>"

text \<open>Writing through a pointer.\<close>

definition set_dev :: "addr \<Rightarrow> DeviceRequest \<Rightarrow> SecureMemoryStore \<Rightarrow> SecureMemoryStore" where
  "set_dev p r s = s\<lparr>dev_heap := (dev_heap s)(p := r)\<rparr>"

definition set_auth :: "addr \<Rightarrow> AuthorizationRequest \<Rightarrow> SecureMemoryStore \<Rightarrow> SecureMemoryStore" where
  "set_auth p r s = s\<lparr>auth_heap := (auth_heap s)(p := r)\<rparr>"

text \<open>\<open>Create\<close> receives a pointer to a new object: it is allocated here.\<close>

definition Create :: "DeviceRequest \<Rightarrow> SecureMemoryStore \<Rightarrow> SecureMemoryStore" where
  "Create req s =
     (let p = next_dev s;
          s1 = (set_dev p req s)\<lparr>next_dev := Suc p,
                 byDevice := AList.update (dDeviceCode req) p (byDevice s),
                 byUser := AList.update (dUserCode req) p (byUser s)\<rparr>
      in trackDeviceExpiration (dDeviceCode req) (dExpiresAt req) s1)"

definition GetByDeviceCode :: "string \<Rightarrow> gotime \<Rightarrow> SecureMemoryStore \<Rightarrow> oauth_error + addr" where
  "GetByDeviceCode deviceCode now s =
     (case map_of (byDevice s) deviceCode of
        None \<Rightarrow> Inl ErrNotFound
      | Some p \<Rightarrow> if After now (dExpiresAt (dev_heap s p)) then Inl ErrExpired else Inr p)"

definition GetByUserCode :: "string \<Rightarrow> gotime \<Rightarrow> SecureMemoryStore \<Rightarrow> oauth_error + addr" where
  "GetByUserCode userCode now s =
     (case map_of (byUser s) userCode of
        None \<Rightarrow> Inl ErrNotFound
      | Some p \<Rightarrow> if After now (dExpiresAt (dev_heap s p)) then Inl ErrExpired else Inr p)"

definition Update :: "addr \<Rightarrow> SecureMemoryStore \<Rightarrow> (oauth_error + unit) \<times> SecureMemoryStore" where
  "Update p s =
     (let req = dev_heap s p in
      case map_of (byDevice s) (dDeviceCode req) of
        None \<Rightarrow> (Inl ErrNotFound, s)
      | Some oldReq \<Rightarrow>
          (let s1 = untrackDeviceExpiration (dDeviceCode req) (dExpiresAt (dev_heap s oldReq)) s;
               s2 = s1\<lparr>byDevice := AList.update (dDeviceCode req) p (byDevice s1),
                       byUser := AList.update (dUserCode req) p (byUser s1)\<rparr>
           in (Inr (), trackDeviceExpiration (dDeviceCode req) (dExpiresAt req) s2)))"

text \<open>
  \<open>Delete\<close> empties the object before it reads the user code from it, so the key that is deleted
  from \<open>byUser\<close> is the empty string.
\<close>

definition Delete_dev :: "string \<Rightarrow> SecureMemoryStore \<Rightarrow> SecureMemoryStore" where
  "Delete_dev deviceCode s =
     (case map_of (byDevice s) deviceCode of
        None \<Rightarrow> s
      | Some p \<Rightarrow>
          (let req = sanitizeDeviceRequest (dev_heap s p);
               s1 = untrackDeviceExpiration deviceCode (dExpiresAt req) (set_dev p req s)
           in s1\<lparr>byDevice := AList.delete deviceCode (byDevice s1),
                 byUser := AList.delete (dUserCode req) (byUser s1)\<rparr>))"

definition CreateAuthorization :: "AuthorizationRequest \<Rightarrow> SecureMemoryStore \<Rightarrow> SecureMemoryStore" where
  "CreateAuthorization req s =
     (let p = next_auth s;
          s1 = (set_auth p req s)\<lparr>next_auth := Suc p,
                 byAuthCode := AList.update (qAuthorizationCode req) p (byAuthCode s)\<rparr>
      in trackAuthExpiration (qAuthorizationCode req) (qExpiresAt req) s1)"

definition GetAuthorizationByCode :: "string \<Rightarrow> gotime \<Rightarrow> SecureMemoryStore \<Rightarrow> oauth_error + addr" where
  "GetAuthorizationByCode cd now s =
     (case map_of (byAuthCode s) cd of
        None \<Rightarrow> Inl ErrNotFound
      | Some p \<Rightarrow> if After now (qExpiresAt (auth_heap s p)) then Inl ErrExpired else Inr p)"

definition UpdateAuthorization :: "addr \<Rightarrow> SecureMemoryStore \<Rightarrow> (oauth_error + unit) \<times> SecureMemoryStore" where
  "UpdateAuthorization p s =
     (let req = auth_heap s p in
      case map_of (byAuthCode s) (qAuthorizationCode req) of
        None \<Rightarrow> (Inl ErrNotFound, s)
      | Some oldReq \<Rightarrow>
          (let s1 = untrackAuthExpiration (qAuthorizationCode req) (qExpiresAt (auth_heap s oldReq)) s;
               s2 = s1\<lparr>byAuthCode := AList.update (qAuthorizationCode req) p (byAuthCode s1)\<rparr>
           in (Inr (), trackAuthExpiration (qAuthorizationCode req) (qExpiresAt req) s2)))"

definition DeleteAuthorization :: "string \<Rightarrow> SecureMemoryStore \<Rightarrow> SecureMemoryStore" where
  "DeleteAuthorization cd s =
     (case map_of (byAuthCode s) cd of
        None \<Rightarrow> s
      | Some p \<Rightarrow>
          (let req = sanitizeAuthRequest (auth_heap s p);
               s1 = untrackAuthExpiration cd (qExpiresAt req) (set_auth p req s)
           in s1\<lparr>byAuthCode := AList.delete cd (byAuthCode s1)\<rparr>))"

section \<open>Expiry\<close>

definition expire_device :: "string \<Rightarrow> SecureMemoryStore \<Rightarrow> SecureMemoryStore" where
  "expire_device cd s =
     (case map_of (byDevice s) cd of
        None \<Rightarrow> s
      | Some p \<Rightarrow>
          (let req = sanitizeDeviceRequest (dev_heap s p); s1 = set_dev p req s
           in s1\<lparr>byUser := AList.delete (dUserCode req) (byUser s1),
                 byDevice := AList.delete cd (byDevice s1)\<rparr>))"

definition expire_auth :: "string \<Rightarrow> SecureMemoryStore \<Rightarrow> SecureMemoryStore" where
  "expire_auth cd s =
     (case map_of (byAuthCode s) cd of
        None \<Rightarrow> s
      | Some p \<Rightarrow>
          (set_auth p (sanitizeAuthRequest (auth_heap s p)) s)
            \<lparr>byAuthCode := AList.delete cd (byAuthCode s)\<rparr>)"

definition device_bucket :: "int \<Rightarrow> int \<times> string list \<Rightarrow> SecureMemoryStore \<Rightarrow> SecureMemoryStore" where
  "device_bucket now = (\<lambda>(bucket, codes) s.
     if bucket > now then s
     else (fold expire_device codes s)\<lparr>deviceExpirations :=
            AList.delete bucket (deviceExpirations (fold expire_device codes s))\<rparr>)"

definition auth_bucket :: "int \<Rightarrow> int \<times> string list \<Rightarrow> SecureMemoryStore \<Rightarrow> SecureMemoryStore" where
  "auth_bucket now = (\<lambda>(bucket, codes) s.
     if bucket > now then s
     else (fold expire_auth codes s)\<lparr>authExpirations :=
            AList.delete bucket (authExpirations (fold expire_auth codes s))\<rparr>)"

definition cleanupExpired :: "gotime \<Rightarrow> SecureMemoryStore \<Rightarrow> SecureMemoryStore" where
  "cleanupExpired t s =
     (let now = Unix t; s1 = fold (device_bucket now) (deviceExpirations s) s
      in fold (auth_bucket now) (authExpirations s1) s1)"

text \<open>\<open>Close\<close> empties every object the maps reach.\<close>

definition store_Close :: "SecureMemoryStore \<Rightarrow> SecureMemoryStore" where
  "store_Close s =
     (let s1 = (fold (\<lambda>(_, p) s. set_dev p (sanitizeDeviceRequest (dev_heap s p)) s) (byDevice s) s)\<lparr>byDevice := []\<rparr>;
          s2 = (fold (\<lambda>(_, p) s. set_dev p (sanitizeDeviceRequest (dev_heap s p)) s) (byUser s1) s1)\<lparr>byUser := []\<rparr>
      in (fold (\<lambda>(_, p) s. set_auth p (sanitizeAuthRequest (auth_heap s p)) s) (byAuthCode s2) s2)\<lparr>byAuthCode := []\<rparr>)"

end
