(* ===== verification/Encoding.thy ===== *)
theory Encoding
  imports GoStrings
begin

text \<open>
  The encoders of Go's \<open>encoding/base64\<close> (\<open>RawURLEncoding\<close>) and \<open>encoding/base32\<close> (\<open>StdEncoding\<close>) and the hash
  \<open>crypto/sha256\<close> that \<open>src/internal/oauth2\<close> calls. The lemmas give the lengths, the alphabets and that
  base64 is injective.
\<close>

unbundle bit_operations_syntax

section \<open>Bytes of a string\<close>

definition bytes_of :: "string \<Rightarrow> byte list" where
  "bytes_of s = map (\<lambda>c. of_nat (code c)) s"

section \<open>Base64\<close>

definition b64_alphabet :: string where
  "b64_alphabet = ''ABCDEFGHIJKLMNOPQRSTUVWXYZabcdefghijklmnopqrstuvwxyz0123456789-_''"

fun b64_groups :: "byte list \<Rightarrow> int list" where
  "b64_groups (a # b # c # bs) =
     (let v = uint a * 65536 + uint b * 256 + uint c
      in (v div 262144) mod 64 # (v div 4096) mod 64 # (v div 64) mod 64 # v mod 64 # b64_groups bs)"
| "b64_groups [a, b] =
     (let v = uint a * 65536 + uint b * 256
      in [(v div 262144) mod 64, (v div 4096) mod 64, (v div 64) mod 64])"
| "b64_groups [a] = (let v = uint a * 65536 in [(v div 262144) mod 64, (v div 4096) mod 64])"
| "b64_groups [] = []"

definition RawURLEncoding :: "byte list \<Rightarrow> string" where
  "RawURLEncoding bs = map (\<lambda>i. b64_alphabet ! nat i) (b64_groups bs)"

section \<open>Base32\<close>

definition b32_alphabet :: string where
  "b32_alphabet = ''ABCDEFGHIJKLMNOPQRSTUVWXYZ234567''"

text \<open>The eight digits of a group of five bytes, the last group filled up with zeros.\<close>

definition b32_digits :: "byte list \<Rightarrow> string" where
  "b32_digits bs =
     (let v = foldl (\<lambda>v b. v * 256 + uint b) 0 (take 5 (bs @ replicate 5 0))
      in map (\<lambda>i. b32_alphabet ! nat ((v div 32 ^ (7 - i)) mod 32)) [0..<8])"

text \<open>The number of digits that carry bits of a last group of \<open>n\<close> bytes.\<close>

definition b32_used :: "nat \<Rightarrow> nat" where
  "b32_used n = (n * 8 + 4) div 5"

function Base32_Std :: "byte list \<Rightarrow> string" where
  "Base32_Std bs =
     (if bs = [] then []
      else if length bs < 5 then take (b32_used (length bs)) (b32_digits bs) @ replicate (8 - b32_used (length bs)) (CHR ''='')
      else b32_digits (take 5 bs) @ Base32_Std (drop 5 bs))"
  by auto
termination by (relation "measure length") auto

declare Base32_Std.simps [simp del]

section \<open>SHA-256\<close>

type_synonym w32 = "32 word"

definition sha_k :: "w32 list" where
  "sha_k = [1116352408, 1899447441, 3049323471, 3921009573, 961987163, 1508970993, 2453635748, 2870763221,
     3624381080, 310598401, 607225278, 1426881987, 1925078388, 2162078206, 2614888103, 3248222580,
     3835390401, 4022224774, 264347078, 604807628, 770255983, 1249150122, 1555081692, 1996064986,
     2554220882, 2821834349, 2952996808, 3210313671, 3336571891, 3584528711, 113926993, 338241895,
     666307205, 773529912, 1294757372, 1396182291, 1695183700, 1986661051, 2177026350, 2456956037,
     2730485921, 2820302411, 3259730800, 3345764771, 3516065817, 3600352804, 4094571909, 275423344,
     430227734, 506948616, 659060556, 883997877, 958139571, 1322822218, 1537002063, 1747873779,
     1955562222, 2024104815, 2227730452, 2361852424, 2428436474, 2756734187, 3204031479, 3329325298]"

definition sha_init :: "w32 list" where
  "sha_init = [1779033703, 3144134277, 1013904242, 2773480762, 1359893119, 2600822924, 528734635, 1541459225]"

definition be32 :: "byte list \<Rightarrow> w32" where
  "be32 bs = foldl (\<lambda>v b. v * 256 + ucast b) 0 bs"

definition bytes_be32 :: "w32 \<Rightarrow> byte list" where
  "bytes_be32 w = [ucast (drop_bit 24 w), ucast (drop_bit 16 w), ucast (drop_bit 8 w), ucast w]"

text \<open>The padding: a one bit, zeros up to 56 modulo 64, the length in bits on eight bytes.\<close>

definition sha_pad :: "byte list \<Rightarrow> byte list" where
  "sha_pad bs =
     (let n = length bs; z = (119 - n mod 64) mod 64
      in bs @ 0x80 # replicate z 0 @ map (\<lambda>i. of_int ((int n * 8) div 256 ^ (7 - i))) [0..<8])"

text \<open>The message schedule, newest word first.\<close>

definition sha_extend :: "w32 list \<Rightarrow> w32 list" where
  "sha_extend ws =
     (let a = ws ! 14; b = ws ! 1;
          s0 = word_rotr 7 a XOR word_rotr 18 a XOR drop_bit 3 a;
          s1 = word_rotr 17 b XOR word_rotr 19 b XOR drop_bit 10 b
      in (ws ! 15 + s0 + ws ! 6 + s1) # ws)"

definition sha_schedule :: "byte list \<Rightarrow> w32 list" where
  "sha_schedule blk =
     rev ((sha_extend ^^ 48) (rev (map (\<lambda>i. be32 (take 4 (drop (4 * i) blk))) [0..<16])))"

fun sha_round :: "w32 \<times> w32 \<Rightarrow> w32 list \<Rightarrow> w32 list" where
  "sha_round (k, w) [a, b, c, d, e, f, g, h] =
     (let s1 = word_rotr 6 e XOR word_rotr 11 e XOR word_rotr 25 e;
          ch = (e AND f) XOR (NOT e AND g);
          t1 = h + s1 + ch + k + w;
          s0 = word_rotr 2 a XOR word_rotr 13 a XOR word_rotr 22 a;
          maj = (a AND b) XOR (a AND c) XOR (b AND c)
      in [t1 + s0 + maj, a, b, c, d + t1, e, f, g])"
| "sha_round kw st = st"

definition sha_block :: "byte list \<Rightarrow> w32 list \<Rightarrow> w32 list" where
  "sha_block blk st = map2 (+) st (fold sha_round (zip sha_k (sha_schedule blk)) st)"

function sha_blocks :: "byte list \<Rightarrow> w32 list \<Rightarrow> w32 list" where
  "sha_blocks bs st = (if bs = [] then st else sha_blocks (drop 64 bs) (sha_block (take 64 bs) st))"
  by auto
termination by (relation "measure (length \<circ> fst)") auto

declare sha_blocks.simps [simp del]

definition Sum256 :: "byte list \<Rightarrow> byte list" where
  "Sum256 bs = concat (map bytes_be32 (sha_blocks (sha_pad bs) sha_init))"

section \<open>Lengths and alphabets\<close>

lemma length_b64_groups: "length (b64_groups bs) = (4 * length bs + 2) div 3"
  by (induction bs rule: b64_groups.induct) (simp_all add: Let_def)

lemma length_RawURLEncoding: "length (RawURLEncoding bs) = (4 * length bs + 2) div 3"
  by (simp add: RawURLEncoding_def length_b64_groups)

lemma b64_groups_range: "\<forall>i\<in>set (b64_groups bs). 0 \<le> i \<and> i < 64"
  by (induction bs rule: b64_groups.induct) (simp_all add: Let_def)

lemma uint_byte: "0 \<le> uint (b :: byte)" "uint b < 256"
  using uint_range_size [of b] by (simp_all add: word_size)

lemma uint_byte_eq: "uint a = uint b \<longleftrightarrow> a = (b :: byte)"
  by (simp add: word_uint_eq_iff)

lemma digits_of:
  fixes v :: int
  assumes "0 \<le> v" and "v < 16777216"
  shows "v = (v div 262144) mod 64 * 262144 + (v div 4096) mod 64 * 4096 + (v div 64) mod 64 * 64 + v mod 64"
proof -
  have 1: "v div 4096 = v div 64 div 64" "v div 262144 = v div 4096 div 64"
    using zdiv_zmult2_eq [of 64 v 64] zdiv_zmult2_eq [of 64 v 4096] by simp_all
  have "v div 262144 mod 64 = v div 262144" using assms by (intro mod_pos_pos_trivial) auto
  then show ?thesis
    using div_mult_mod_eq [of v 64] div_mult_mod_eq [of "v div 64" 64] div_mult_mod_eq [of "v div 4096" 64] 1
    by linarith
qed

lemma split3:
  fixes a b c a' b' c' :: byte
  assumes "uint a * 65536 + uint b * 256 + uint c = uint a' * 65536 + uint b' * 256 + uint c'"
  shows "a = a' \<and> b = b' \<and> c = c'"
proof -
  note r = uint_byte [of a] uint_byte [of b] uint_byte [of c] uint_byte [of a'] uint_byte [of b'] uint_byte [of c']
  have "uint a = uint a'" using assms r by linarith
  moreover from this have "uint b = uint b'" using assms r by linarith
  moreover from calculation have "uint c = uint c'" using assms by linarith
  ultimately have "uint a = uint a'" "uint b = uint b'" "uint c = uint c'" by blast+
  then show ?thesis by (simp add: uint_byte_eq)
qed

lemma group3_inj:
  fixes a b c a' b' c' :: byte
  defines "v \<equiv> uint a * 65536 + uint b * 256 + uint c" and "v' \<equiv> uint a' * 65536 + uint b' * 256 + uint c'"
  assumes "(v div 262144) mod 64 = (v' div 262144) mod 64" "(v div 4096) mod 64 = (v' div 4096) mod 64"
    "(v div 64) mod 64 = (v' div 64) mod 64" "v mod 64 = v' mod 64"
  shows "a = a' \<and> b = b' \<and> c = c'"
proof -
  have "0 \<le> v" "v < 16777216" "0 \<le> v'" "v' < 16777216"
    unfolding v_def v'_def
    using uint_byte [of a] uint_byte [of b] uint_byte [of c] uint_byte [of a'] uint_byte [of b'] uint_byte [of c'] by linarith+
  then have "v = v'" using digits_of [of v] digits_of [of v'] assms(3-6) by metis
  then show ?thesis unfolding v_def v'_def by (rule split3)
qed

lemma mod64_0: "(x * 65536 + y * 256) mod 64 = (0 :: int)"
proof -
  have "x * 65536 + y * 256 = 64 * (x * 1024 + y * 4)" by simp
  then show ?thesis by (metis mod_mult_self1_is_0)
qed

lemma mod64_0': "(x * 65536) mod 64 = (0 :: int)" "(x * 65536) div 64 mod 64 = (0 :: int)"
proof -
  have "x * 65536 = 64 * (64 * (x * 16))" by simp
  then show "(x * 65536) mod 64 = (0 :: int)" "(x * 65536) div 64 mod 64 = (0 :: int)"
    by (metis mod_mult_self1_is_0, metis mod_mult_self1_is_0 nonzero_mult_div_cancel_left zero_neq_numeral)
qed

lemma b64_groups_inj: "b64_groups xs = b64_groups ys \<Longrightarrow> xs = ys"
proof (induction xs arbitrary: ys rule: b64_groups.induct)
  case (1 a b c bs)
  then show ?case
  proof (cases ys rule: b64_groups.cases)
    case (1 a' b' c' bs')
    have "b64_groups bs = b64_groups bs'" using "1.prems" 1 by (simp add: Let_def)
    from "1.IH" [OF _ this] have "bs = bs'" by simp
    moreover have "a = a' \<and> b = b' \<and> c = c'"
      by (rule group3_inj) (use "1.prems" 1 in \<open>simp_all add: Let_def\<close>)
    ultimately show ?thesis using 1 by simp
  next
    case (2 a' b')
    then show ?thesis using "1.prems" length_b64_groups [of "a # b # c # bs"] length_b64_groups [of ys] by simp
  next
    case (3 a')
    then show ?thesis using "1.prems" length_b64_groups [of "a # b # c # bs"] length_b64_groups [of ys] by simp
  next
    case 4
    then show ?thesis using "1.prems" by (simp add: Let_def)
  qed
next
  case (2 a b)
  then have l: "length (b64_groups ys) = 3" by (simp add: Let_def flip: 2)
  then have "length ys = 2" unfolding length_b64_groups by presburger
  then obtain a' b' where ys: "ys = [a', b']" by (auto simp: length_Suc_conv numeral_2_eq_2)
  have "a = a' \<and> b = b' \<and> (0 :: byte) = 0"
    by (rule group3_inj) (use "2.prems" ys mod64_0 in \<open>simp_all add: Let_def\<close>)
  then show ?case using ys by simp
next
  case (3 a)
  then have l: "length (b64_groups ys) = 2" by (simp add: Let_def flip: 3)
  then have "length ys = 1" unfolding length_b64_groups by presburger
  then obtain a' where ys: "ys = [a']" by (auto simp: length_Suc_conv)
  have "a = a' \<and> (0 :: byte) = 0 \<and> (0 :: byte) = 0"
    by (rule group3_inj) (use "3.prems" ys mod64_0' in \<open>simp_all add: Let_def\<close>)
  then show ?case using ys by simp
next
  case 4
  then have "length (b64_groups ys) = 0" by simp
  then have "length ys = 0" unfolding length_b64_groups by presburger
  then show ?case by simp
qed

lemma distinct_b64: "distinct b64_alphabet" "length b64_alphabet = 64"
proof -
  have "map code b64_alphabet = [65..<91] @ [97..<123] @ [48..<58] @ [45, 95]"
    by (simp add: b64_alphabet_def code_def upt_rec)
  then have "distinct (map code b64_alphabet)" by auto
  then show "distinct b64_alphabet" unfolding distinct_map by blast
  show "length b64_alphabet = 64" by (simp add: b64_alphabet_def)
qed

lemma RawURLEncoding_inj: "RawURLEncoding xs = RawURLEncoding ys \<longleftrightarrow> xs = ys"
proof
  assume eq: "RawURLEncoding xs = RawURLEncoding ys"
  have "inj_on (\<lambda>i. b64_alphabet ! nat i) {i. 0 \<le> i \<and> i < 64}"
    using nth_eq_iff_index_eq [OF distinct_b64(1)] by (auto simp: inj_on_def distinct_b64(2))
  moreover have "set (b64_groups xs) \<union> set (b64_groups ys) \<subseteq> {i. 0 \<le> i \<and> i < 64}"
    using b64_groups_range [of xs] b64_groups_range [of ys] by blast
  ultimately have "inj_on (\<lambda>i. b64_alphabet ! nat i) (set (b64_groups xs) \<union> set (b64_groups ys))"
    by (rule inj_on_subset)
  from map_inj_on [OF eq [unfolded RawURLEncoding_def] this] have "b64_groups xs = b64_groups ys" .
  then show "xs = ys" by (rule b64_groups_inj)
qed simp

lemma length_b32_digits [simp]: "length (b32_digits bs) = 8"
  by (simp add: b32_digits_def Let_def)

lemma b32_digits_alphabet: "set (b32_digits bs) \<subseteq> set b32_alphabet"
proof -
  have "length b32_alphabet = 32" by code_simp
  then show ?thesis by (auto simp: b32_digits_def Let_def intro!: nth_mem)
qed

lemma b32_used_le: "n < 5 \<Longrightarrow> b32_used n \<le> 8"
  by (simp add: b32_used_def)

text \<open>The digits that carry bits are a prefix of the encoding, in the alphabet.\<close>

lemma Base32_Std_prefix:
  assumes "n \<le> (8 * length bs + 4) div 5"
  shows "n \<le> length (Base32_Std bs) \<and> set (take n (Base32_Std bs)) \<subseteq> set b32_alphabet"
  using assms
proof (induction bs arbitrary: n rule: Base32_Std.induct)
  case (1 bs)
  show ?case
  proof (cases "length bs < 5")
    case True
    then show ?thesis using 1(2) b32_used_le [OF True] b32_digits_alphabet [of bs]
      by (subst (1 2) Base32_Std.simps) (auto simp: b32_used_def mult.commute dest!: in_set_takeD)
  next
    case False
    then have ne: "bs \<noteq> []" by auto
    have "n - 8 \<le> (8 * length (drop 5 bs) + 4) div 5" using 1(2) False by simp
    from "1.IH" [OF ne False this] have ih: "n - 8 \<le> length (Base32_Std (drop 5 bs))"
      "set (take (n - 8) (Base32_Std (drop 5 bs))) \<subseteq> set b32_alphabet" by blast+
    have eq: "Base32_Std bs = b32_digits (take 5 bs) @ Base32_Std (drop 5 bs)"
      using False ne by (subst Base32_Std.simps) simp
    show ?thesis unfolding eq using ih b32_digits_alphabet [of "take 5 bs"]
      by (auto dest!: in_set_takeD [of _ n])
  qed
qed

lemma length_sha_round: "length st = 8 \<Longrightarrow> length (sha_round kw st) = 8"
  by (induction kw st rule: sha_round.induct) (simp_all add: Let_def)

lemma length_sha_fold: "length st = 8 \<Longrightarrow> length (fold sha_round kws st) = 8"
  by (induction kws arbitrary: st) (simp_all add: length_sha_round)

lemma length_sha_blocks: "length st = 8 \<Longrightarrow> length (sha_blocks bs st) = 8"
proof (induction bs st rule: sha_blocks.induct)
  case (1 bs st)
  then show ?case by (subst sha_blocks.simps) (simp add: sha_block_def length_sha_fold)
qed

lemma length_Sum256 [simp]: "length (Sum256 bs) = 32"
proof -
  have "length (sha_blocks (sha_pad bs) sha_init) = 8" by (rule length_sha_blocks) (simp add: sha_init_def)
  moreover have "length (concat (map bytes_be32 ws)) = 4 * length ws" for ws
    by (induction ws) (simp_all add: bytes_be32_def)
  ultimately show ?thesis by (simp add: Sum256_def)
qed

end
