(* ===== verification/OAuth.thy ===== *)
theory OAuth
  imports OAuth_Store Encoding
begin

text \<open>
  The authorization server: the device flow of \<open>src/internal/oauth2/server.go\<close>, the authorization
  code flow with PKCE of \<open>src/internal/oauth2/pkce.go\<close> and the code generators of
  \<open>src/internal/oauth2/codegen.go\<close>, over the in-memory store.

  Arguments of the operations stand for what the server gets from outside: \<open>rnd n\<close> is the result of
  \<open>rand.Read\<close> on \<open>n\<close> bytes (\<open>None\<close> when it fails), \<open>clk i\<close> the \<open>i\<close>-th reading of the clock, \<open>uuid\<close> the new
  identifier, \<open>sign\<close> the JWT library's signing of the claims, \<open>parse_url\<close> the result of \<open>url.Parse\<close>. A
  slice out of range is the error \<open>ErrText ''panic''\<close>.

  \<open>PollDeviceToken\<close> and \<open>ExchangeAuthorizationCode\<close> are composed of the parts between which other requests
  can run: the check of a poll and its locked section; the check of an exchange, the making of the
  token and the deletion of the code.
\<close>

section \<open>Codes\<close>

type_synonym random = "nat \<Rightarrow> byte list option"

definition generateDeviceCode :: "int \<Rightarrow> random \<Rightarrow> oauth_error + string" where
  "generateDeviceCode len rnd =
     (let len1 = (if len < 20 then 40 else len);
          byteLen = go_div (len1 * 3) 4;
          byteLen1 = (if byteLen < 16 then 16 else byteLen)
      in case rnd (nat byteLen1) of
           None \<Rightarrow> Inl (ErrText ''rand'')
         | Some bs \<Rightarrow> Inr (RawURLEncoding bs))"

definition hyphenate :: "string \<Rightarrow> string" where
  "hyphenate cd =
     (let mid = length cd div 2
      in if 0 < mid \<and> 4 \<le> length cd then take mid cd @ ''-'' @ drop mid cd else cd)"

definition generateUserCode :: "int \<Rightarrow> random \<Rightarrow> oauth_error + string" where
  "generateUserCode len rnd =
     (let len1 = (if len < 4 then 8 else len);
          byteLen = go_div (len1 * 5 + 7) 8
      in case rnd (nat byteLen) of
           None \<Rightarrow> Inl (ErrText ''rand'')
         | Some bs \<Rightarrow>
             (let encoded = Base32_Std bs in
              if length encoded < nat len1 then Inl (ErrText ''panic'')
              else Inr (hyphenate (ReplaceAll (ToUpper (take (nat len1) encoded)) ''='' []))))"

definition generateSecureAuthorizationCode :: "random \<Rightarrow> oauth_error + string" where
  "generateSecureAuthorizationCode rnd =
     (case rnd 32 of
        None \<Rightarrow> Inl (ErrText ''rand'')
      | Some bs \<Rightarrow> Inr (''auth_'' @ RawURLEncoding bs))"

section \<open>Access tokens\<close>

record AccessTokenClaims =
  cID :: string
  cIssuer :: string
  cSubject :: string
  cAudience :: "string list"
  cIssuedAt :: gotime
  cNotBefore :: gotime
  cExpiresAt :: gotime
  cDeviceID :: string
  cUserID :: string
  cEmail :: string
  cName :: string
  cTenantID :: string
  cTier :: string

type_synonym signer = "AccessTokenClaims \<Rightarrow> string + string"

definition token_response :: "OAuthConfig \<Rightarrow> string \<Rightarrow> TokenResponse" where
  "token_response cfg tok = \<lparr>tAccessToken = tok, tTokenType = ''Bearer'',
     tExpiresIn = go_div (AccessTokenLifetime cfg) second\<rparr>"

definition device_claims :: "OAuthConfig \<Rightarrow> string \<Rightarrow> gotime \<Rightarrow> DeviceRequest \<Rightarrow> AccessTokenClaims" where
  "device_claims cfg uuid now req = \<lparr>cID = uuid, cIssuer = Issuer cfg, cSubject = dUserID req,
     cAudience = [''wantastic-api''], cIssuedAt = now, cNotBefore = now,
     cExpiresAt = now + AccessTokenLifetime cfg, cDeviceID = dDeviceID req, cUserID = dUserID req,
     cEmail = dEmail req, cName = dName req, cTenantID = dTenantID req, cTier = dTier req\<rparr>"

definition generateAccessToken ::
  "OAuthConfig \<Rightarrow> signer \<Rightarrow> string \<Rightarrow> gotime \<Rightarrow> DeviceRequest \<Rightarrow> oauth_error + TokenResponse" where
  "generateAccessToken cfg sign uuid now req =
     (case sign (device_claims cfg uuid now req) of
        Inl e \<Rightarrow> Inl (ErrText e)
      | Inr tok \<Rightarrow> Inr (token_response cfg tok))"

definition auth_claims :: "OAuthConfig \<Rightarrow> string \<Rightarrow> gotime \<Rightarrow> AuthorizationRequest \<Rightarrow> AccessTokenClaims" where
  "auth_claims cfg uuid now req = \<lparr>cID = uuid, cIssuer = Issuer cfg, cSubject = qUserID req,
     cAudience = [''wantastic-api''], cIssuedAt = now, cNotBefore = now,
     cExpiresAt = now + AccessTokenLifetime cfg, cDeviceID = qDeviceID req, cUserID = qUserID req,
     cEmail = qEmail req, cName = qName req, cTenantID = qTenantID req, cTier = qTier req\<rparr>"

definition generateAccessTokenFromAuth ::
  "OAuthConfig \<Rightarrow> signer \<Rightarrow> string \<Rightarrow> gotime \<Rightarrow> AuthorizationRequest \<Rightarrow> oauth_error + TokenResponse" where
  "generateAccessTokenFromAuth cfg sign uuid now req =
     (case sign (auth_claims cfg uuid now req) of
        Inl e \<Rightarrow> Inl (ErrText e)
      | Inr tok \<Rightarrow> Inr (token_response cfg tok))"

section \<open>The device flow\<close>

definition StartDeviceFlow ::
  "OAuthConfig \<Rightarrow> random \<Rightarrow> random \<Rightarrow> string \<Rightarrow> string \<Rightarrow> gotime \<Rightarrow> SecureMemoryStore \<Rightarrow>
   (oauth_error + DeviceAuthorizationResponse) \<times> SecureMemoryStore" where
  "StartDeviceFlow cfg rnd1 rnd2 clientID deviceID now s =
     (let clientID1 = (if clientID = [] then ''wantastic-device-client'' else clientID) in
      case generateDeviceCode (DeviceCodeLength cfg) rnd1 of
        Inl e \<Rightarrow> (Inl e, s)
      | Inr deviceCode \<Rightarrow>
          (case generateUserCode (UserCodeLength cfg) rnd2 of
             Inl e \<Rightarrow> (Inl e, s)
           | Inr userCode \<Rightarrow>
               (let req = \<lparr>dDeviceCode = deviceCode, dUserCode = userCode, dStatus = StatusPending,
                      dClientID = clientID1, dDeviceID = deviceID, dUserID = [], dEmail = [], dName = [],
                      dTenantID = [], dTier = [], dAccessToken = [], dCreatedAt = now,
                      dExpiresAt = now + DeviceCodeLifetime cfg, dLastPolledAt = 0\<rparr>;
                    verificationURI = Issuer cfg @ ''/activate''
                in (Inr \<lparr>rDeviceCode = deviceCode, rUserCode = userCode, rVerificationURI = verificationURI,
                          rVerificationURIComplete = verificationURI @ ''?user_code='' @ userCode,
                          rExpiresIn = go_div (DeviceCodeLifetime cfg) second,
                          rInterval = go_div (MinPollInterval cfg) second\<rparr>,
                    Create req s))))"

text \<open>A poll up to the point where it takes the lock; \<open>Inr ()\<close> means that it goes on.\<close>

definition poll_check ::
  "OAuthConfig \<Rightarrow> (nat \<Rightarrow> gotime) \<Rightarrow> string \<Rightarrow> SecureMemoryStore \<Rightarrow> (oauth_error + unit) \<times> SecureMemoryStore" where
  "poll_check cfg clk deviceCode s =
     (if deviceCode = [] then (Inl (ErrText ''device code is required''), s)
      else case GetByDeviceCode deviceCode (clk 0) s of
        Inl e \<Rightarrow> (Inl ErrExpiredToken, s)
      | Inr p \<Rightarrow>
          (let req = dev_heap s p in
           if dev_IsExpired req (clk 1) then
             (Inl ErrExpiredToken, snd (Update p (set_dev p (req\<lparr>dStatus := StatusExpired\<rparr>) s)))
           else if \<not> CanPoll req (MinPollInterval cfg) (clk 2) then (Inl ErrSlowDown, s)
           else
             (let s1 = snd (Update p (set_dev p (req\<lparr>dLastPolledAt := clk 3\<rparr>) s)) in
              case dStatus req of
                StatusPending \<Rightarrow> (Inl ErrAuthorizationPending, s1)
              | StatusAuthorized \<Rightarrow> (Inr (), s1)
              | StatusDenied \<Rightarrow> (Inl ErrAccessDenied, s1)
              | StatusExpired \<Rightarrow> (Inl ErrExpiredToken, s1)
              | StatusConsumed \<Rightarrow> (Inl ErrExpiredToken, s1))))"

text \<open>The section under \<open>pollMu\<close>.\<close>

definition poll_issue ::
  "OAuthConfig \<Rightarrow> signer \<Rightarrow> string \<Rightarrow> (nat \<Rightarrow> gotime) \<Rightarrow> string \<Rightarrow> SecureMemoryStore \<Rightarrow>
   (oauth_error + TokenResponse) \<times> SecureMemoryStore" where
  "poll_issue cfg sign uuid clk deviceCode s =
     (case GetByDeviceCode deviceCode (clk 4) s of
        Inl e \<Rightarrow> (Inl ErrExpiredToken, s)
      | Inr p \<Rightarrow>
          (let req = dev_heap s p in
           if dStatus req = StatusConsumed then (Inl ErrExpiredToken, s)
           else if dStatus req \<noteq> StatusAuthorized then (Inl ErrAuthorizationPending, s)
           else case generateAccessToken cfg sign uuid (clk 5) req of
             Inl e \<Rightarrow> (Inl e, s)
           | Inr token \<Rightarrow>
               (Inr token, snd (Update p (set_dev p
                  (req\<lparr>dStatus := StatusConsumed, dAccessToken := tAccessToken token\<rparr>) s)))))"

definition PollDeviceToken ::
  "OAuthConfig \<Rightarrow> signer \<Rightarrow> string \<Rightarrow> (nat \<Rightarrow> gotime) \<Rightarrow> string \<Rightarrow> SecureMemoryStore \<Rightarrow>
   (oauth_error + TokenResponse) \<times> SecureMemoryStore" where
  "PollDeviceToken cfg sign uuid clk deviceCode s =
     (case poll_check cfg clk deviceCode s of
        (Inl e, s1) \<Rightarrow> (Inl e, s1)
      | (Inr _, s1) \<Rightarrow> poll_issue cfg sign uuid clk deviceCode s1)"

definition AuthorizeDevice ::
  "(nat \<Rightarrow> gotime) \<Rightarrow> string \<Rightarrow> string \<Rightarrow> string \<Rightarrow> string \<Rightarrow> string \<Rightarrow> string \<Rightarrow> SecureMemoryStore \<Rightarrow>
   (oauth_error + unit) \<times> SecureMemoryStore" where
  "AuthorizeDevice clk userCode userID email name tenantID tier s =
     (case GetByUserCode userCode (clk 0) s of
        Inl e \<Rightarrow> (Inl e, s)
      | Inr p \<Rightarrow>
          (let req = dev_heap s p in
           if dStatus req \<noteq> StatusPending then
             (Inl (ErrText (''request is not pending (status: '' @ status_String (dStatus req) @ '')'')), s)
           else if dev_IsExpired req (clk 1) then
             (Inl (ErrText ''request has expired''), snd (Update p (set_dev p (req\<lparr>dStatus := StatusExpired\<rparr>) s)))
           else Update p (set_dev p (req\<lparr>dUserID := userID, dEmail := email, dName := name,
                  dTenantID := tenantID, dTier := tier, dStatus := StatusAuthorized\<rparr>) s)))"

definition DenyDevice :: "(nat \<Rightarrow> gotime) \<Rightarrow> string \<Rightarrow> SecureMemoryStore \<Rightarrow> (oauth_error + unit) \<times> SecureMemoryStore" where
  "DenyDevice clk userCode s =
     (case GetByUserCode userCode (clk 0) s of
        Inl e \<Rightarrow> (Inl e, s)
      | Inr p \<Rightarrow>
          (let req = dev_heap s p in
           if dStatus req \<noteq> StatusPending then
             (Inl (ErrText (''request is not pending (status: '' @ status_String (dStatus req) @ '')'')), s)
           else Update p (set_dev p (req\<lparr>dStatus := StatusDenied\<rparr>) s)))"

definition GetPendingRequest :: "(nat \<Rightarrow> gotime) \<Rightarrow> string \<Rightarrow> SecureMemoryStore \<Rightarrow> oauth_error + addr" where
  "GetPendingRequest clk userCode s =
     (case GetByUserCode userCode (clk 0) s of
        Inl e \<Rightarrow> Inl e
      | Inr p \<Rightarrow>
          if dStatus (dev_heap s p) \<noteq> StatusPending \<or> dev_IsExpired (dev_heap s p) (clk 1)
          then Inl (ErrText ''request is no longer pending'') else Inr p)"

section \<open>Clients, redirects and scopes\<close>

record ClientRegistration =
  cl_ClientID :: string
  cl_RedirectURIs :: "string list"
  cl_AllowedScopes :: "string list"

definition registeredClients :: "(string, ClientRegistration) gomap" where
  "registeredClients =
     [(''wantastic-agent-client'', \<lparr>cl_ClientID = ''wantastic-agent-client'',
        cl_RedirectURIs = [''http://localhost:58250/callback'', ''https://localhost/callback''],
        cl_AllowedScopes = [''org:create_api_key'', ''user:profile'', ''device:register'']\<rparr>),
      (''wantastic-device-client'', \<lparr>cl_ClientID = ''wantastic-device-client'',
        cl_RedirectURIs = [''http://localhost:58250/callback''],
        cl_AllowedScopes = [''org:create_api_key'', ''user:profile'', ''device:register'']\<rparr>),
      (''wantastic_cipher_v_1_0_0'', \<lparr>cl_ClientID = ''wantastic_cipher_v_1_0_0'',
        cl_RedirectURIs = [''http://localhost:58250/callback'', ''https://localhost/callback''],
        cl_AllowedScopes = [''org:create_api_key'', ''user:profile'', ''device:register'']\<rparr>)]"

record URL =
  uScheme :: string
  uHostname :: string
  uPath :: string

definition isLoopback :: "string \<Rightarrow> bool" where
  "isLoopback h \<longleftrightarrow> h = ''localhost'' \<or> h = ''127.0.0.1''"

definition isRedirectURIAllowed :: "(string \<Rightarrow> URL option) \<Rightarrow> string \<Rightarrow> string list \<Rightarrow> bool" where
  "isRedirectURIAllowed parse_url redirectURI allowedURIs =
     (if redirectURI \<in> set allowedURIs then True
      else case parse_url redirectURI of
        None \<Rightarrow> False
      | Some parsed \<Rightarrow>
          isLoopback (uHostname parsed) \<and>
          list_ex (\<lambda>allowed. case parse_url allowed of
              None \<Rightarrow> False
            | Some a \<Rightarrow> isLoopback (uHostname a) \<and> uPath a = uPath parsed \<and> uScheme a = uScheme parsed) allowedURIs)"

fun check_scopes :: "string list \<Rightarrow> string list \<Rightarrow> oauth_error + string list" where
  "check_scopes allowed [] = Inr []"
| "check_scopes allowed (scope # scopes) =
     (let sc = TrimSpace scope in
      if sc = [] then check_scopes allowed scopes
      else if sc \<notin> set allowed then Inl (ErrText (''invalid_scope: '' @ sc @ '' is not allowed''))
      else res_bind (check_scopes allowed scopes) (\<lambda>rest. Inr (sc # rest)))"

definition validateScope :: "string \<Rightarrow> string list \<Rightarrow> oauth_error + string" where
  "validateScope requestedScope allowedScopes =
     (if requestedScope = [] then Inr []
      else res_bind (check_scopes allowedScopes (Split requestedScope (CHR '' '')))
        (\<lambda>validated. Inr (Join validated '' '')))"

section \<open>Proof keys\<close>

definition GenerateCodeChallenge :: "string \<Rightarrow> string \<times> string" where
  "GenerateCodeChallenge verifier = (RawURLEncoding (Sum256 (bytes_of verifier)), ''S256'')"

definition ValidateCodeChallenge :: "string \<Rightarrow> string \<Rightarrow> bool" where
  "ValidateCodeChallenge verifier challenge =
     (if verifier = [] \<or> challenge = [] then False
      else RawURLEncoding (Sum256 (bytes_of verifier)) = challenge)"

definition generateRandomString :: "nat \<Rightarrow> random \<Rightarrow> string \<Rightarrow> oauth_error + string" where
  "generateRandomString len rnd uuid =
     (case rnd len of
        None \<Rightarrow> (let u = ReplaceAll uuid ''-'' []
                  in if length u < len then Inl (ErrText ''panic'') else Inr (take len u))
      | Some bs \<Rightarrow> (let e = RawURLEncoding bs
                   in if length e < len then Inl (ErrText ''panic'') else Inr (take len e)))"

definition GeneratePKCE :: "random \<Rightarrow> string \<Rightarrow> oauth_error + (string \<times> string \<times> string)" where
  "GeneratePKCE rnd uuid =
     res_bind (generateRandomString 64 rnd uuid)
       (\<lambda>verifier. let (challenge, method) = GenerateCodeChallenge verifier in Inr (verifier, challenge, method))"

section \<open>The authorization code flow\<close>

definition StartAuthorizationFlow ::
  "OAuthConfig \<Rightarrow> (string \<Rightarrow> URL option) \<Rightarrow> random \<Rightarrow> string \<Rightarrow> string \<Rightarrow> string \<Rightarrow> string \<Rightarrow> string \<Rightarrow> string \<Rightarrow> string \<Rightarrow>
   gotime \<Rightarrow> SecureMemoryStore \<Rightarrow> (oauth_error + AuthorizationRequest) \<times> SecureMemoryStore" where
  "StartAuthorizationFlow cfg parse_url rnd clientID redirectURI state scope codeChallenge codeChallengeMethod deviceID now s =
     (if clientID = [] then (Inl (ErrText ''client_id is required''), s)
      else if redirectURI = [] then (Inl (ErrText ''redirect_uri is required''), s)
      else if length state < 16 then (Inl (ErrText ''state parameter must be at least 16 characters''), s)
      else case map_of registeredClients clientID of
        None \<Rightarrow> (Inl (ErrText ''invalid client_id''), s)
      | Some client \<Rightarrow>
          if \<not> isRedirectURIAllowed parse_url redirectURI (cl_RedirectURIs client) then
            (Inl (ErrText ''redirect_uri not registered for this client''), s)
          else if codeChallenge = [] then (Inl (ErrText ''code_challenge is required (PKCE is mandatory)''), s)
          else if codeChallengeMethod \<noteq> ''S256'' then
            (Inl (ErrText (''code_challenge_method '' @ codeChallengeMethod @ '' is not supported, use S256'')), s)
          else if length codeChallenge \<noteq> 43 then
            (Inl (ErrText ''invalid code_challenge length (expected 43 for S256)''), s)
          else case validateScope scope (cl_AllowedScopes client) of
            Inl e \<Rightarrow> (Inl e, s)
          | Inr validatedScope \<Rightarrow>
              (case generateSecureAuthorizationCode rnd of
                 Inl e \<Rightarrow> (Inl e, s)
               | Inr authCode \<Rightarrow>
                   (let req = \<lparr>qClientID = clientID, qRedirectURI = redirectURI, qState = state,
                          qScope = validatedScope, qCodeChallenge = codeChallenge,
                          qCodeChallengeMethod = codeChallengeMethod, qDeviceID = deviceID,
                          qAuthorizationCode = authCode, qUserID = [], qEmail = [], qName = [],
                          qTenantID = [], qTier = [], qCreatedAt = now,
                          qExpiresAt = now + DeviceCodeLifetime cfg\<rparr>
                    in (Inr req, CreateAuthorization req s))))"

text \<open>An exchange up to the making of the token: the request it accepted.\<close>

definition exchange_check ::
  "(nat \<Rightarrow> gotime) \<Rightarrow> string \<Rightarrow> string \<Rightarrow> string \<Rightarrow> string \<Rightarrow> SecureMemoryStore \<Rightarrow>
   (oauth_error + addr) \<times> SecureMemoryStore" where
  "exchange_check clk cd codeVerifier redirectURI clientID s =
     (if cd = [] then (Inl ErrInvalidRequest, s)
      else if codeVerifier = [] then (Inl (ErrText ''code_verifier is required''), s)
      else case GetAuthorizationByCode cd (clk 0) s of
        Inl e \<Rightarrow> (Inl ErrInvalidGrant, s)
      | Inr p \<Rightarrow>
          (let authReq = auth_heap s p in
           if auth_IsExpired authReq (clk 1) then (Inl ErrExpiredToken, DeleteAuthorization cd s)
           else if qRedirectURI authReq \<noteq> redirectURI then (Inl (ErrText ''redirect_uri mismatch''), s)
           else if qClientID authReq \<noteq> clientID then (Inl ErrInvalidClient, s)
           else if \<not> ValidateCodeChallenge codeVerifier (qCodeChallenge authReq) then
             (Inl (ErrText ''invalid code_verifier''), s)
           else if qUserID authReq = [] then (Inl (ErrText ''authorization pending''), s)
           else (Inr p, s)))"

definition exchange_token ::
  "OAuthConfig \<Rightarrow> signer \<Rightarrow> string \<Rightarrow> (nat \<Rightarrow> gotime) \<Rightarrow> addr \<Rightarrow> SecureMemoryStore \<Rightarrow> oauth_error + TokenResponse" where
  "exchange_token cfg sign uuid clk p s = generateAccessTokenFromAuth cfg sign uuid (clk 2) (auth_heap s p)"

definition ExchangeAuthorizationCode ::
  "OAuthConfig \<Rightarrow> signer \<Rightarrow> string \<Rightarrow> (nat \<Rightarrow> gotime) \<Rightarrow> string \<Rightarrow> string \<Rightarrow> string \<Rightarrow> string \<Rightarrow> SecureMemoryStore \<Rightarrow>
   (oauth_error + TokenResponse) \<times> SecureMemoryStore" where
  "ExchangeAuthorizationCode cfg sign uuid clk cd codeVerifier redirectURI clientID s =
     (case exchange_check clk cd codeVerifier redirectURI clientID s of
        (Inl e, s1) \<Rightarrow> (Inl e, s1)
      | (Inr p, s1) \<Rightarrow>
          (case exchange_token cfg sign uuid clk p s1 of
             Inl e \<Rightarrow> (Inl e, s1)
           | Inr token \<Rightarrow> (Inr token, DeleteAuthorization cd s1)))"

definition AuthorizeAuthorizationCode ::
  "(nat \<Rightarrow> gotime) \<Rightarrow> string \<Rightarrow> string \<Rightarrow> string \<Rightarrow> string \<Rightarrow> string \<Rightarrow> string \<Rightarrow> SecureMemoryStore \<Rightarrow>
   (oauth_error + unit) \<times> SecureMemoryStore" where
  "AuthorizeAuthorizationCode clk cd userID email name tenantID tier s =
     (if cd = [] then (Inl (ErrText ''authorization code is required''), s)
      else case GetAuthorizationByCode cd (clk 0) s of
        Inl e \<Rightarrow> (Inl (ErrText ''invalid authorization code''), s)
      | Inr p \<Rightarrow>
          (let authReq = auth_heap s p in
           if auth_IsExpired authReq (clk 1) then (Inl ErrExpiredToken, s)
           else UpdateAuthorization p (set_auth p (authReq\<lparr>qUserID := userID, qEmail := email, qName := name,
                  qTenantID := tenantID, qTier := tier\<rparr>) s)))"

definition DenyAuthorizationCode :: "string \<Rightarrow> SecureMemoryStore \<Rightarrow> (oauth_error + unit) \<times> SecureMemoryStore" where
  "DenyAuthorizationCode cd s =
     (if cd = [] then (Inl (ErrText ''authorization code is required''), s)
      else (Inr (), DeleteAuthorization cd s))"

definition GetAuthorizationRequest :: "(nat \<Rightarrow> gotime) \<Rightarrow> string \<Rightarrow> SecureMemoryStore \<Rightarrow> oauth_error + addr" where
  "GetAuthorizationRequest clk cd s =
     (if cd = [] then Inl (ErrText ''authorization code is required'') else GetAuthorizationByCode cd (clk 0) s)"

section \<open>The authorization URL\<close>

definition hex_digit :: "nat \<Rightarrow> char" where
  "hex_digit d = ''0123456789ABCDEF'' ! d"

definition unreserved :: "char \<Rightarrow> bool" where
  "unreserved c \<longleftrightarrow> is_digit c \<or> (65 \<le> code c \<and> code c \<le> 90) \<or> (97 \<le> code c \<and> code c \<le> 122) \<or>
     c \<in> {CHR ''-'', CHR ''_'', CHR ''.'', CHR ''~''}"

text \<open>\<open>url.QueryEscape\<close>, and \<open>url.Values.Encode\<close> on keys that come in sorted order.\<close>

definition QueryEscape :: "string \<Rightarrow> string" where
  "QueryEscape s = concat (map (\<lambda>c. if c = CHR '' '' then ''+'' else if unreserved c then [c]
     else [CHR ''%'', hex_digit (code c div 16), hex_digit (code c mod 16)]) s)"

definition encode_query :: "(string \<times> string) list \<Rightarrow> string" where
  "encode_query kvs = Join (map (\<lambda>(k, v). QueryEscape k @ ''='' @ QueryEscape v) kvs) ''&''"

definition BuildAuthorizationURL ::
  "OAuthConfig \<Rightarrow> string \<Rightarrow> string \<Rightarrow> string \<Rightarrow> string \<Rightarrow> string \<Rightarrow> string \<Rightarrow> string \<Rightarrow> string" where
  "BuildAuthorizationURL cfg clientID redirectURI state scope codeChallenge codeChallengeMethod deviceID =
     Issuer cfg @ ''/oauth/authorize?'' @ encode_query
       ([(''client_id'', clientID), (''code_challenge'', codeChallenge), (''code_challenge_method'', codeChallengeMethod)] @
        (if deviceID \<noteq> [] then [(''device_id'', deviceID)] else []) @
        [(''redirect_uri'', redirectURI), (''response_type'', ''code''), (''scope'', scope), (''state'', state)])"

end
