(* ===== verification/OAuth_Devices.thy ===== *)
theory OAuth_Devices
  imports OAuth
begin

text \<open>
  The device requests of the authorization server: what a request in the store has to do with the
  events so far (\<open>request_ok\<close>, \<open>dev_ok\<close>), and that every operation of the device flow keeps it.
  \<open>device_authentic\<close> is the property of the event trace that the flow guarantees.
\<close>

section \<open>Runs\<close>

text \<open>What happened, newest first.\<close>

datatype oevent =
    DeviceStarted string string string
  | DeviceApproved string string string string string string
  | DeviceToken string TokenResponse
  | CodeStarted string string string string string
  | CodeApproved string string string string string string
  | CodeToken string string string string TokenResponse

text \<open>\<open>rand.Read\<close> fills the whole slice or fails.\<close>

definition random_ok :: "random \<Rightarrow> bool" where
  "random_ok rnd \<longleftrightarrow> (\<forall>n bs. rnd n = Some bs \<longrightarrow> length bs = n)"

section \<open>Device requests\<close>

text \<open>The claims of a token name the user and the device.\<close>

definition claims_for :: "AccessTokenClaims \<Rightarrow> string \<Rightarrow> string \<Rightarrow> string \<Rightarrow> string \<Rightarrow> string \<Rightarrow> string \<Rightarrow> bool" where
  "claims_for c u em nm t ti did \<longleftrightarrow> cSubject c = u \<and> cUserID c = u \<and> cEmail c = em \<and> cName c = nm \<and>
     cTenantID c = t \<and> cTier c = ti \<and> cDeviceID c = did"

fun device_authentic :: "signer \<Rightarrow> oevent list \<Rightarrow> bool" where
  "device_authentic sign [] = True"
| "device_authentic sign (e # tr) = ((\<forall>dc tok. e = DeviceToken dc tok \<longrightarrow>
     (\<forall>tok'. DeviceToken dc tok' \<notin> set tr) \<and>
     (\<exists>uc did u em nm t ti c. DeviceStarted dc uc did \<in> set tr \<and> DeviceApproved uc u em nm t ti \<in> set tr \<and>
        claims_for c u em nm t ti did \<and> sign c = Inr (tAccessToken tok))) \<and> device_authentic sign tr)"

definition approved :: "oevent list \<Rightarrow> DeviceRequest \<Rightarrow> bool" where
  "approved tr r \<longleftrightarrow>
     DeviceApproved (dUserCode r) (dUserID r) (dEmail r) (dName r) (dTenantID r) (dTier r) \<in> set tr"

definition issued :: "oevent list \<Rightarrow> string \<Rightarrow> bool" where
  "issued tr dc \<longleftrightarrow> (\<exists>tok. DeviceToken dc tok \<in> set tr)"

text \<open>What holds of a stored request.\<close>

definition request_ok :: "oevent list \<Rightarrow> string \<Rightarrow> DeviceRequest \<Rightarrow> bool" where
  "request_ok tr dc r \<longleftrightarrow> dDeviceCode r = dc \<and> dc \<noteq> [] \<and> DeviceStarted dc (dUserCode r) (dDeviceID r) \<in> set tr \<and>
     (dStatus r = StatusAuthorized \<longrightarrow> approved tr r) \<and> (issued tr dc \<longrightarrow> dStatus r = StatusConsumed \<or> dStatus r = StatusExpired)"

definition dev_ok :: "oevent list \<Rightarrow> SecureMemoryStore \<Rightarrow> bool" where
  "dev_ok tr s \<longleftrightarrow>
     (\<forall>dc p. map_of (byDevice s) dc = Some p \<longrightarrow> p < next_dev s \<and> request_ok tr dc (dev_heap s p)) \<and>
     (\<forall>uc p. map_of (byUser s) uc = Some p \<longrightarrow> p < next_dev s \<and> (dDeviceCode (dev_heap s p) = [] \<or>
        map_of (byDevice s) (dDeviceCode (dev_heap s p)) = Some p \<and> dUserCode (dev_heap s p) = uc))"

lemma dev_okI:
  assumes "\<And>dc p. map_of (byDevice s) dc = Some p \<Longrightarrow> p < next_dev s \<and> request_ok tr dc (dev_heap s p)"
    and "\<And>uc p. map_of (byUser s) uc = Some p \<Longrightarrow> p < next_dev s \<and> (dDeviceCode (dev_heap s p) = [] \<or>
        map_of (byDevice s) (dDeviceCode (dev_heap s p)) = Some p \<and> dUserCode (dev_heap s p) = uc)"
  shows "dev_ok tr s"
  using assms unfolding dev_ok_def by blast

lemma dev_okD:
  assumes "dev_ok tr s"
  shows "map_of (byDevice s) dc = Some p \<Longrightarrow> p < next_dev s \<and> request_ok tr dc (dev_heap s p)"
    and "map_of (byUser s) uc = Some p \<Longrightarrow> p < next_dev s \<and> (dDeviceCode (dev_heap s p) = [] \<or>
        map_of (byDevice s) (dDeviceCode (dev_heap s p)) = Some p \<and> dUserCode (dev_heap s p) = uc)"
  using assms unfolding dev_ok_def by blast+

lemma dev_ok_no_empty: "dev_ok tr s \<Longrightarrow> map_of (byDevice s) [] = None"
  using dev_okD(1) [of tr s "[]"] by (cases "map_of (byDevice s) []") (auto simp: request_ok_def)

text \<open>The device part of a store, and that events of the other flow do not matter.\<close>

definition dev_part :: "SecureMemoryStore \<Rightarrow> (addr \<Rightarrow> DeviceRequest) \<times> addr \<times> (string, addr) gomap \<times> (string, addr) gomap" where
  "dev_part s = (dev_heap s, next_dev s, byDevice s, byUser s)"

lemma dev_ok_part: "dev_part s' = dev_part s \<Longrightarrow> dev_ok tr s' = dev_ok tr s"
  by (simp add: dev_part_def dev_ok_def)

lemma request_ok_mono:
  assumes "request_ok tr dc r" and "set tr \<subseteq> set tr'" and "issued tr' dc \<Longrightarrow> issued tr dc"
  shows "request_ok tr' dc r"
  using assms unfolding request_ok_def approved_def by blast

lemma dev_ok_mono:
  assumes "dev_ok tr s" and "\<And>dc tok. e \<noteq> DeviceToken dc tok"
  shows "dev_ok (e # tr) s"
proof (rule dev_okI)
  fix dc p assume "map_of (byDevice s) dc = Some p"
  with dev_okD(1) [OF assms(1)] have "p < next_dev s" "request_ok tr dc (dev_heap s p)" by blast+
  moreover have "issued (e # tr) dc \<Longrightarrow> issued tr dc"
    using assms(2) by (auto simp: issued_def)
  ultimately show "p < next_dev s \<and> request_ok (e # tr) dc (dev_heap s p)"
    using request_ok_mono [of tr dc "dev_heap s p" "e # tr"] by auto
qed (rule dev_okD(2) [OF assms(1)])

lemma Update_frame:
  "dev_heap (snd (Update p s)) = dev_heap s" "next_dev (snd (Update p s)) = next_dev s"
  "map_of (byDevice (snd (Update p s))) =
     (if map_of (byDevice s) (dDeviceCode (dev_heap s p)) = None then map_of (byDevice s)
      else (map_of (byDevice s))(dDeviceCode (dev_heap s p) \<mapsto> p))"
  "map_of (byUser (snd (Update p s))) =
     (if map_of (byDevice s) (dDeviceCode (dev_heap s p)) = None then map_of (byUser s)
      else (map_of (byUser s))(dUserCode (dev_heap s p) \<mapsto> p))"
  by (simp_all add: Update_def Let_def trackDeviceExpiration_def untrackDeviceExpiration_def update_conv' split: option.split)

lemma set_dev_frame [simp]:
  "dev_heap (set_dev p r s) = (dev_heap s)(p := r)" "next_dev (set_dev p r s) = next_dev s"
  "byDevice (set_dev p r s) = byDevice s" "byUser (set_dev p r s) = byUser s"
  by (simp_all add: set_dev_def)

text \<open>A change of a stored request that keeps its codes.\<close>

lemma dev_ok_modify:
  assumes ok: "dev_ok tr s" and p: "map_of (byDevice s) dc = Some p"
    and r: "request_ok tr dc r" and codes: "dUserCode r = dUserCode (dev_heap s p)"
  shows "dev_ok tr (snd (Update p (set_dev p r s)))"
proof (rule dev_okI)
  let ?s = "snd (Update p (set_dev p r s))"
  have dcr: "dDeviceCode r = dc" and dcp: "dDeviceCode (dev_heap s p) = dc"
    using r dev_okD(1) [OF ok p] by (simp_all add: request_ok_def)
  have D: "map_of (byDevice ?s) = map_of (byDevice s)" using p by (simp add: Update_frame dcr fun_eq_iff)
  have U: "map_of (byUser ?s) = (map_of (byUser s))(dUserCode r \<mapsto> p)" using p by (simp add: Update_frame dcr)
  have H: "dev_heap ?s = (dev_heap s)(p := r)" "next_dev ?s = next_dev s" by (simp_all add: Update_frame)
  show "q < next_dev ?s \<and> request_ok tr dc' (dev_heap ?s q)" if "map_of (byDevice ?s) dc' = Some q" for dc' q
  proof (cases "q = p")
    case True
    then have "dc' = dc" using dev_okD(1) [OF ok] that dcp unfolding D request_ok_def by blast
    then show ?thesis using True r dev_okD(1) [OF ok p] by (simp add: H)
  next
    case False
    then show ?thesis using dev_okD(1) [OF ok] that unfolding D by (simp add: H)
  qed
  show "q < next_dev ?s \<and> (dDeviceCode (dev_heap ?s q) = [] \<or>
        map_of (byDevice ?s) (dDeviceCode (dev_heap ?s q)) = Some q \<and> dUserCode (dev_heap ?s q) = uc)"
    if "map_of (byUser ?s) uc = Some q" for uc q
  proof (cases "q = p")
    case True
    then have "uc = dUserCode r"
      using that dev_okD(2) [OF ok, of uc p] dcp dev_okD(1) [OF ok p] codes
      unfolding U by (auto simp: request_ok_def split: if_splits)
    then show ?thesis using True p dev_okD(1) [OF ok p] by (simp add: H D dcr)
  next
    case False
    then have "map_of (byUser s) uc = Some q" using that unfolding U by (auto split: if_splits)
    then show ?thesis using dev_okD(2) [OF ok, of uc q] False unfolding D H by simp
  qed
qed

text \<open>A write to an object that the store has emptied.\<close>

lemma dev_ok_dead:
  assumes ok: "dev_ok tr s" and u: "map_of (byUser s) uc = Some p" and dead: "dDeviceCode (dev_heap s p) = []"
    and r: "dDeviceCode r = []"
  shows "fst (Update p (set_dev p r s)) = Inl ErrNotFound" and "dev_ok tr (snd (Update p (set_dev p r s)))"
proof -
  note none = dev_ok_no_empty [OF ok]
  show "fst (Update p (set_dev p r s)) = Inl ErrNotFound" by (simp add: Update_def r none)
  have s: "snd (Update p (set_dev p r s)) = set_dev p r s" by (simp add: Update_def r none)
  show "dev_ok tr (snd (Update p (set_dev p r s)))" unfolding s
  proof (rule dev_okI)
    show "q < next_dev (set_dev p r s) \<and> request_ok tr dc (dev_heap (set_dev p r s) q)"
      if "map_of (byDevice (set_dev p r s)) dc = Some q" for dc q
      using dev_okD(1) [OF ok, of dc q] that dead by (cases "q = p") (auto simp: request_ok_def)
    show "q < next_dev (set_dev p r s) \<and> (dDeviceCode (dev_heap (set_dev p r s) q) = [] \<or>
        map_of (byDevice (set_dev p r s)) (dDeviceCode (dev_heap (set_dev p r s) q)) = Some q \<and>
        dUserCode (dev_heap (set_dev p r s) q) = uc')"
      if "map_of (byUser (set_dev p r s)) uc' = Some q" for uc' q
      using dev_okD(2) [OF ok, of uc' q] that r by (cases "q = p") auto
  qed
qed

text \<open>Emptying and removing a request.\<close>

lemma dev_ok_removed:
  assumes ok: "dev_ok tr s" and p: "map_of (byDevice s) dc = Some p"
    and s': "dev_heap s' = (dev_heap s)(p := sanitizeDeviceRequest (dev_heap s p))" "next_dev s' = next_dev s"
      "map_of (byDevice s') = (map_of (byDevice s))(dc := None)" "map_of (byUser s') = (map_of (byUser s))([] := None)"
  shows "dev_ok tr s'"
proof (rule dev_okI)
  have dcp: "dDeviceCode (dev_heap s p) = dc" using dev_okD(1) [OF ok p] by (simp add: request_ok_def)
  show "q < next_dev s' \<and> request_ok tr dc' (dev_heap s' q)" if "map_of (byDevice s') dc' = Some q" for dc' q
  proof -
    have q: "map_of (byDevice s) dc' = Some q" "dc' \<noteq> dc" using that by (auto simp: s' split: if_splits)
    then have "q \<noteq> p" using dev_okD(1) [OF ok q(1)] dcp by (auto simp: request_ok_def)
    then show ?thesis using dev_okD(1) [OF ok q(1)] by (simp add: s')
  qed
  show "q < next_dev s' \<and> (dDeviceCode (dev_heap s' q) = [] \<or>
        map_of (byDevice s') (dDeviceCode (dev_heap s' q)) = Some q \<and> dUserCode (dev_heap s' q) = uc)"
    if "map_of (byUser s') uc = Some q" for uc q
  proof -
    have u: "map_of (byUser s) uc = Some q" using that by (auto simp: s' split: if_splits)
    show ?thesis
    proof (cases "q = p")
      case True
      then show ?thesis using dev_okD(2) [OF ok u] by (simp add: s' sanitizeDeviceRequest_def)
    next
      case False
      then have "dDeviceCode (dev_heap s q) \<noteq> dc \<or> map_of (byDevice s) dc \<noteq> Some q" using p by auto
      then show ?thesis using dev_okD(2) [OF ok u] False by (auto simp: s')
    qed
  qed
qed

lemma expire_device_ok: "dev_ok tr s \<Longrightarrow> dev_ok tr (expire_device cd s)"
proof (cases "map_of (byDevice s) cd")
  case (Some p)
  assume "dev_ok tr s"
  from dev_ok_removed [OF this Some] show ?thesis
    by (rule meta_mp) (simp_all add: expire_device_def Some Let_def sanitizeDeviceRequest_def delete_conv')
qed (simp add: expire_device_def)

lemma Delete_dev_ok: "dev_ok tr s \<Longrightarrow> dev_ok tr (Delete_dev cd s)"
proof (cases "map_of (byDevice s) cd")
  case (Some p)
  assume "dev_ok tr s"
  from dev_ok_removed [OF this Some] show ?thesis
    by (rule meta_mp) (simp_all add: Delete_dev_def Some Let_def sanitizeDeviceRequest_def untrackDeviceExpiration_def delete_conv')
qed (simp add: Delete_dev_def)

lemma fold_expire_ok: "dev_ok tr s \<Longrightarrow> dev_ok tr (fold expire_device cds s)"
  by (induction cds arbitrary: s) (simp_all add: expire_device_ok)

lemma device_bucket_ok:
  assumes "dev_ok tr s"
  shows "dev_ok tr (device_bucket now b s)"
proof (cases "fst b > now")
  case True
  then show ?thesis using assms by (simp add: device_bucket_def case_prod_beta)
next
  case False
  let ?x = "fold expire_device (snd b) s"
  have "dev_part (?x\<lparr>deviceExpirations := d\<rparr>) = dev_part ?x" for d by (simp add: dev_part_def)
  from dev_ok_part [OF this] show ?thesis
    using False fold_expire_ok [OF assms] by (simp add: device_bucket_def case_prod_beta)
qed

text \<open>What the other flow leaves alone.\<close>

lemma set_auth_part [simp]: "dev_part (set_auth p r s) = dev_part s"
  by (simp add: set_auth_def dev_part_def)

lemma DeleteAuthorization_part [simp]: "dev_part (DeleteAuthorization cd s) = dev_part s"
  by (auto simp: DeleteAuthorization_def Let_def untrackAuthExpiration_def set_auth_def dev_part_def split: option.split)

lemma UpdateAuthorization_part [simp]: "dev_part (snd (UpdateAuthorization p s)) = dev_part s"
  by (auto simp: UpdateAuthorization_def Let_def untrackAuthExpiration_def trackAuthExpiration_def dev_part_def split: option.split)

lemma CreateAuthorization_part [simp]: "dev_part (CreateAuthorization r s) = dev_part s"
  by (auto simp: CreateAuthorization_def Let_def trackAuthExpiration_def set_auth_def dev_part_def)

lemma expire_auth_part: "dev_part (expire_auth cd s) = dev_part s"
  by (auto simp: expire_auth_def set_auth_def dev_part_def split: option.split)

lemma fold_expire_auth_part: "dev_part (fold expire_auth cds s) = dev_part s"
  by (induction cds arbitrary: s) (simp_all add: expire_auth_part)

lemma auth_bucket_part: "dev_part (auth_bucket now b s) = dev_part s"
proof -
  have "dev_part (x\<lparr>authExpirations := d\<rparr>) = dev_part x" for x d by (simp add: dev_part_def)
  then show ?thesis by (simp add: auth_bucket_def fold_expire_auth_part split: prod.split)
qed

lemma fold_auth_bucket_part: "dev_part (fold (auth_bucket now) bs s) = dev_part s"
  by (induction bs arbitrary: s) (simp_all add: auth_bucket_part)

lemma cleanupExpired_ok:
  assumes "dev_ok tr s"
  shows "dev_ok tr (cleanupExpired now s)"
proof -
  have "dev_ok tr (fold (device_bucket n) bs x)" if "dev_ok tr x" for n bs x
    using that by (induction bs arbitrary: x) (simp_all add: device_bucket_ok)
  from this [OF assms] show ?thesis
    unfolding cleanupExpired_def Let_def by (subst dev_ok_part [OF fold_auth_bucket_part])
qed

lemma StartAuthorizationFlow_part:
  "dev_part (snd (StartAuthorizationFlow cfg pu rnd cl red st sc ch me did now s)) = dev_part s"
  by (auto simp: StartAuthorizationFlow_def Let_def split: option.split sum.split)

lemma AuthorizeAuthorizationCode_part:
  "dev_part (snd (AuthorizeAuthorizationCode clk cd u em nm t ti s)) = dev_part s"
  by (auto simp: AuthorizeAuthorizationCode_def Let_def split: sum.split)

lemma exchange_check_part: "dev_part (snd (exchange_check clk cd ver red cl s)) = dev_part s"
  by (auto simp: exchange_check_def Let_def split: sum.split)

lemma ExchangeAuthorizationCode_part:
  "dev_part (snd (ExchangeAuthorizationCode cfg sign uuid clk cd ver red cl s)) = dev_part s"
  using exchange_check_part [of clk cd ver red cl s]
  by (auto simp: ExchangeAuthorizationCode_def split: prod.split sum.split)

text \<open>The codes of a new request.\<close>

lemma go_div_pos: "0 \<le> a \<Longrightarrow> 0 < b \<Longrightarrow> go_div a b = a div b"
  by (cases "a = 0") (simp_all add: go_div_def sgn_if)

lemma generateDeviceCode_length:
  assumes "random_ok rnd" and "generateDeviceCode len rnd = Inr cd"
  shows "22 \<le> length cd"
proof -
  define n where "n = (let len1 = (if len < 20 then 40 else len); b = go_div (len1 * 3) 4 in if b < 16 then 16 else b)"
  obtain bs where bs: "rnd (nat n) = Some bs" "cd = RawURLEncoding bs"
    using assms(2) unfolding generateDeviceCode_def Let_def n_def by (auto split: option.splits)
  have "16 \<le> n" by (simp add: n_def Let_def)
  moreover have "length bs = nat n" using assms(1) bs(1) by (auto simp: random_ok_def)
  ultimately have "16 \<le> length bs" by simp
  then show ?thesis unfolding bs(2) length_RawURLEncoding by linarith
qed

lemma StartDeviceFlow_cases:
  assumes "StartDeviceFlow cfg rnd1 rnd2 cl did now s = (Inr r, s')"
  obtains req where "s' = Create req s" "dDeviceCode req = rDeviceCode r" "dUserCode req = rUserCode r"
    "dDeviceID req = did" "dStatus req = StatusPending" "dExpiresAt req = now + DeviceCodeLifetime cfg"
    "dLastPolledAt req = 0" "generateDeviceCode (DeviceCodeLength cfg) rnd1 = Inr (rDeviceCode r)"
    "generateUserCode (UserCodeLength cfg) rnd2 = Inr (rUserCode r)"
proof -
  obtain dc where dc: "generateDeviceCode (DeviceCodeLength cfg) rnd1 = Inr dc"
    using assms by (cases "generateDeviceCode (DeviceCodeLength cfg) rnd1") (simp_all add: StartDeviceFlow_def)
  obtain uc where uc: "generateUserCode (UserCodeLength cfg) rnd2 = Inr uc"
    using assms dc by (cases "generateUserCode (UserCodeLength cfg) rnd2") (simp_all add: StartDeviceFlow_def)
  let ?req = "\<lparr>dDeviceCode = dc, dUserCode = uc, dStatus = StatusPending,
      dClientID = (if cl = [] then ''wantastic-device-client'' else cl), dDeviceID = did, dUserID = [],
      dEmail = [], dName = [], dTenantID = [], dTier = [], dAccessToken = [], dCreatedAt = now,
      dExpiresAt = now + DeviceCodeLifetime cfg, dLastPolledAt = 0\<rparr>"
  have "s' = Create ?req s" "rDeviceCode r = dc" "rUserCode r = uc"
    using assms by (auto simp: StartDeviceFlow_def dc uc Let_def)
  then show ?thesis using dc uc by (intro that [of ?req]) simp_all
qed

lemma Create_frame:
  "dev_heap (Create req s) = (dev_heap s)(next_dev s := req)" "next_dev (Create req s) = Suc (next_dev s)"
  "map_of (byDevice (Create req s)) = (map_of (byDevice s))(dDeviceCode req \<mapsto> next_dev s)"
  "map_of (byUser (Create req s)) = (map_of (byUser s))(dUserCode req \<mapsto> next_dev s)"
  by (simp_all add: Create_def Let_def trackDeviceExpiration_def update_conv')

lemma Create_ok:
  assumes ok: "dev_ok tr s" and fresh: "map_of (byDevice s) (dDeviceCode req) = None"
    and r: "request_ok tr (dDeviceCode req) req"
  shows "dev_ok tr (Create req s)"
proof (rule dev_okI)
  let ?s = "Create req s"
  show "q < next_dev ?s \<and> request_ok tr dc (dev_heap ?s q)" if "map_of (byDevice ?s) dc = Some q" for dc q
    using that dev_okD(1) [OF ok, of dc q] r by (auto simp: Create_frame split: if_splits)
  show "q < next_dev ?s \<and> (dDeviceCode (dev_heap ?s q) = [] \<or>
        map_of (byDevice ?s) (dDeviceCode (dev_heap ?s q)) = Some q \<and> dUserCode (dev_heap ?s q) = uc)"
    if "map_of (byUser ?s) uc = Some q" for uc q
  proof (cases "uc = dUserCode req")
    case True
    then show ?thesis using that by (simp add: Create_frame)
  next
    case False
    then have u: "map_of (byUser s) uc = Some q" using that by (simp add: Create_frame)
    then show ?thesis using dev_okD(2) [OF ok u] fresh by (auto simp: Create_frame)
  qed
qed

lemma GetByUserCode_Inr: "GetByUserCode uc now s = Inr p \<Longrightarrow> map_of (byUser s) uc = Some p"
  by (auto simp: GetByUserCode_def split: option.splits if_splits)

lemma GetByDeviceCode_Inr: "GetByDeviceCode dc now s = Inr p \<Longrightarrow> map_of (byDevice s) dc = Some p"
  by (auto simp: GetByDeviceCode_def split: option.splits if_splits)

lemma authentic_started:
  "device_authentic sign tr \<Longrightarrow> issued tr dc \<Longrightarrow> \<exists>uc did. DeviceStarted dc uc did \<in> set tr"
proof (induction tr)
  case (Cons e tr)
  show ?case
  proof (cases "issued tr dc")
    case True
    then show ?thesis using Cons by auto
  next
    case False
    then obtain tok where "e = DeviceToken dc tok" using Cons.prems(2) by (auto simp: issued_def)
    then show ?thesis using Cons.prems(1) by auto
  qed
qed (simp add: issued_def)

text \<open>A request that is found by its user code is stored, or it has been emptied.\<close>

lemma user_pointer:
  assumes "dev_ok tr s" and "map_of (byUser s) uc = Some p"
  obtains (alive) dc where "map_of (byDevice s) dc = Some p" "request_ok tr dc (dev_heap s p)" "dUserCode (dev_heap s p) = uc"
  | (dead) "dDeviceCode (dev_heap s p) = []"
proof (cases "dDeviceCode (dev_heap s p) = []")
  case True
  then show ?thesis by (rule dead)
next
  case False
  then have m: "map_of (byDevice s) (dDeviceCode (dev_heap s p)) = Some p" "dUserCode (dev_heap s p) = uc"
    using dev_okD(2) [OF assms] by auto
  show ?thesis by (rule alive [OF m(1) _ m(2)]) (use dev_okD(1) [OF assms(1) m(1)] in blast)
qed

text \<open>A change of status of a pending request through its user code.\<close>

lemma user_modify:
  assumes ok: "dev_ok tr s" and u: "map_of (byUser s) uc = Some p" and pending: "dStatus (dev_heap s p) = StatusPending"
    and r: "dDeviceCode r = dDeviceCode (dev_heap s p)" "dUserCode r = dUserCode (dev_heap s p)"
      "dDeviceID r = dDeviceID (dev_heap s p)" "dStatus r \<noteq> StatusPending" "dStatus r = StatusAuthorized \<Longrightarrow> dUserCode r = uc \<Longrightarrow> approved tr r"
  shows "dev_ok tr (snd (Update p (set_dev p r s)))"
proof (cases rule: user_pointer [OF ok u])
  case (1 dc)
  have "request_ok tr dc r"
    using 1(2,3) r pending by (auto simp: request_ok_def)
  from dev_ok_modify [OF ok 1(1) this r(2)] show ?thesis .
next
  case dead: 2
  then show ?thesis using dev_ok_dead(2) [OF ok u dead] r(1) by simp
qed

lemma AuthorizeDevice_ok:
  assumes ok: "dev_ok tr s" and run: "AuthorizeDevice clk uc u em nm t ti s = (res, s')"
  shows "(\<exists>x. res = Inr x) \<Longrightarrow> dev_ok (DeviceApproved uc u em nm t ti # tr) s'" (is "_ \<Longrightarrow> ?inr")
    and "(\<exists>e. res = Inl e) \<Longrightarrow> dev_ok tr s'" (is "_ \<Longrightarrow> ?inl")
proof -
  let ?tr = "DeviceApproved uc u em nm t ti # tr"
  have okt: "dev_ok ?tr s" by (rule dev_ok_mono [OF ok]) simp
  show ?inr if res: "\<exists>x. res = Inr x"
  proof -
    obtain p where g: "GetByUserCode uc (clk 0) s = Inr p"
      using run res by (cases "GetByUserCode uc (clk 0) s") (auto simp: AuthorizeDevice_def)
    note us = GetByUserCode_Inr [OF g]
    have pend: "dStatus (dev_heap s p) = StatusPending" and s': "s' = snd (Update p (set_dev p ((dev_heap s p)
        \<lparr>dUserID := u, dEmail := em, dName := nm, dTenantID := t, dTier := ti, dStatus := StatusAuthorized\<rparr>) s))"
      using run res by (auto simp: AuthorizeDevice_def g Let_def split: if_splits dest: arg_cong [of _ _ snd])
    show ?thesis unfolding s'
      by (rule user_modify [OF okt us pend]) (simp_all add: approved_def)
  qed
  show ?inl if res: "\<exists>e. res = Inl e"
  proof (cases "GetByUserCode uc (clk 0) s")
    case (Inl e)
    then show ?thesis using run ok by (auto simp: AuthorizeDevice_def)
  next
    case (Inr p)
    note us = GetByUserCode_Inr [OF Inr]
    let ?r = "(dev_heap s p)\<lparr>dUserID := u, dEmail := em, dName := nm, dTenantID := t, dTier := ti, dStatus := StatusAuthorized\<rparr>"
    consider "s' = s" | "dStatus (dev_heap s p) = StatusPending"
        "s' = snd (Update p (set_dev p ((dev_heap s p)\<lparr>dStatus := StatusExpired\<rparr>) s))"
      | "(res, s') = Update p (set_dev p ?r s)"
      using run by (auto simp: AuthorizeDevice_def Inr Let_def split: if_splits)
    then show ?thesis
    proof cases
      case 2
      show ?thesis unfolding 2(2) by (rule user_modify [OF ok us 2(1)]) simp_all
    next
      case 3
      show ?thesis
      proof (cases rule: user_pointer [OF ok us])
        case (1 dc)
        then have "fst (Update p (set_dev p ?r s)) = Inr ()"
          by (simp add: Update_def request_ok_def Let_def)
        then show ?thesis using 3 res by (metis fst_conv Inl_Inr_False)
      next
        case dead: 2
        then have "dDeviceCode ?r = []" by simp
        from dev_ok_dead(2) [OF ok us dead this] show ?thesis using 3 by (metis snd_conv)
      qed
    qed (use ok in simp)
  qed
qed

lemma DenyDevice_ok:
  assumes ok: "dev_ok tr s"
  shows "dev_ok tr (snd (DenyDevice clk uc s))"
proof (cases "GetByUserCode uc (clk 0) s")
  case (Inr p)
  note us = GetByUserCode_Inr [OF Inr]
  show ?thesis
  proof (cases "dStatus (dev_heap s p) = StatusPending")
    case True
    have "dev_ok tr (snd (Update p (set_dev p ((dev_heap s p)\<lparr>dStatus := StatusDenied\<rparr>) s)))"
      by (rule user_modify [OF ok us True]) simp_all
    then show ?thesis by (simp add: DenyDevice_def Inr Let_def True)
  next
    case False
    then show ?thesis using ok by (simp add: DenyDevice_def Inr Let_def)
  qed
qed (use ok in \<open>simp add: DenyDevice_def\<close>)

lemma poll_check_ok:
  assumes ok: "dev_ok tr s"
  shows "dev_ok tr (snd (poll_check cfg clk dc s))"
proof (cases "dc = [] \<or> (\<exists>e. GetByDeviceCode dc (clk 0) s = Inl e)")
  case True
  then show ?thesis using ok by (auto simp: poll_check_def)
next
  case False
  then obtain p where g: "GetByDeviceCode dc (clk 0) s = Inr p" by (cases "GetByDeviceCode dc (clk 0) s") auto
  note p = GetByDeviceCode_Inr [OF g]
  have r: "request_ok tr dc (dev_heap s p)" using dev_okD(1) [OF ok p] by blast
  let ?r = "dev_heap s p"
  have e: "dev_ok tr (snd (Update p (set_dev p (?r\<lparr>dStatus := StatusExpired\<rparr>) s)))"
    by (rule dev_ok_modify [OF ok p]) (use r in \<open>auto simp: request_ok_def approved_def\<close>)
  have l: "dev_ok tr (snd (Update p (set_dev p (?r\<lparr>dLastPolledAt := clk 3\<rparr>) s)))"
    by (rule dev_ok_modify [OF ok p]) (use r in \<open>auto simp: request_ok_def approved_def\<close>)
  show ?thesis using ok e l False g
    by (auto simp: poll_check_def Let_def split: AuthorizationStatus.split)
qed

lemma poll_issue_cases:
  assumes "poll_issue cfg sign uuid clk dc s = (res, s')"
  obtains (refused) e where "res = Inl e" "s' = s"
  | (issued) p tok c where "map_of (byDevice s) dc = Some p" "dStatus (dev_heap s p) = StatusAuthorized"
      "c = device_claims cfg uuid (clk 5) (dev_heap s p)" "sign c = Inr (tAccessToken tok)" "res = Inr tok"
      "\<not> After (clk 4) (dExpiresAt (dev_heap s p))"
      "s' = snd (Update p (set_dev p ((dev_heap s p)\<lparr>dStatus := StatusConsumed, dAccessToken := tAccessToken tok\<rparr>) s))"
proof (cases "GetByDeviceCode dc (clk 4) s")
  case (Inl e)
  then show ?thesis using assms by (intro refused) (auto simp: poll_issue_def)
next
  case (Inr p)
  have m: "map_of (byDevice s) dc = Some p" "\<not> After (clk 4) (dExpiresAt (dev_heap s p))"
    using Inr by (auto simp: GetByDeviceCode_def split: option.splits if_splits)
  show ?thesis
  proof (cases "dStatus (dev_heap s p) = StatusAuthorized")
    case False
    then show ?thesis using assms Inr by (cases "dStatus (dev_heap s p)") (auto simp: poll_issue_def Let_def intro: refused)
  next
    case True
    show ?thesis
    proof (cases "sign (device_claims cfg uuid (clk 5) (dev_heap s p))")
      case Inl': (Inl e)
      then show ?thesis using assms Inr True by (intro refused) (auto simp: poll_issue_def Let_def generateAccessToken_def)
    next
      case Inr': (Inr tok)
      show ?thesis
        by (rule issued [of p _ "token_response cfg tok"])
          (use assms Inr Inr' True m in \<open>auto simp: poll_issue_def Let_def generateAccessToken_def token_response_def\<close>)
    qed
  qed
qed

lemma poll_issue_ok:
  assumes ok: "dev_ok tr s" and auth: "device_authentic sign tr"
    and run: "poll_issue cfg sign uuid clk dc s = (Inr tok, s')"
  shows "dev_ok (DeviceToken dc tok # tr) s' \<and> device_authentic sign (DeviceToken dc tok # tr)"
proof (cases rule: poll_issue_cases [OF run])
  case (2 p tok' c)
  have r: "request_ok tr dc (dev_heap s p)" using dev_okD(1) [OF ok 2(1)] by blast
  then have n: "\<not> issued tr dc" and ap: "approved tr (dev_heap s p)" using 2(2) by (auto simp: request_ok_def)
  have tok: "tok' = tok" using 2(5) by simp
  have cl: "claims_for c (dUserID (dev_heap s p)) (dEmail (dev_heap s p)) (dName (dev_heap s p))
      (dTenantID (dev_heap s p)) (dTier (dev_heap s p)) (dDeviceID (dev_heap s p))"
    by (simp add: 2(3) claims_for_def device_claims_def)
  have a: "device_authentic sign (DeviceToken dc tok # tr)"
  proof -
    have "DeviceStarted dc (dUserCode (dev_heap s p)) (dDeviceID (dev_heap s p)) \<in> set tr"
      using r by (simp add: request_ok_def)
    then have "\<exists>uc did u em nm t ti c. DeviceStarted dc uc did \<in> set tr \<and> DeviceApproved uc u em nm t ti \<in> set tr \<and>
        claims_for c u em nm t ti did \<and> sign c = Inr (tAccessToken tok)"
      using ap cl 2(4) unfolding tok approved_def by blast
    then show ?thesis using auth n by (simp add: issued_def)
  qed
  let ?r = "(dev_heap s p)\<lparr>dStatus := StatusConsumed, dAccessToken := tAccessToken tok\<rparr>"
  have d: "dev_ok tr (snd (Update p (set_dev p ?r s)))"
    by (rule dev_ok_modify [OF ok 2(1)]) (use r in \<open>auto simp: request_ok_def\<close>)
  let ?s = "snd (Update p (set_dev p ?r s))"
  have "dev_ok (DeviceToken dc tok # tr) ?s"
  proof (rule dev_okI)
    fix dc' q assume q: "map_of (byDevice ?s) dc' = Some q"
    have i: "q < next_dev ?s" "request_ok tr dc' (dev_heap ?s q)" using dev_okD(1) [OF d q] by blast+
    show "q < next_dev ?s \<and> request_ok (DeviceToken dc tok # tr) dc' (dev_heap ?s q)"
    proof (cases "dc' = dc")
      case False
      then have "issued (DeviceToken dc tok # tr) dc' \<Longrightarrow> issued tr dc'" by (auto simp: issued_def)
      then show ?thesis using i request_ok_mono [OF i(2), of "DeviceToken dc tok # tr"] by auto
    next
      case True
      have "q = p" using q True 2(1) r by (simp add: Update_frame request_ok_def)
      then show ?thesis using i True by (simp add: request_ok_def Update_frame)
    qed
  qed (rule dev_okD(2) [OF d])
  then show ?thesis using a 2(7) unfolding tok by simp
qed simp

end
