(* ===== verification/OAuth_Codes.thy ===== *)
theory OAuth_Codes
  imports OAuth_Devices
begin

text \<open>
  The authorization codes of the server: \<open>code_ok\<close> relates a stored request to the events so far,
  \<open>code_authentic\<close> is what the authorization code flow guarantees of the event trace.
\<close>

section \<open>Authorization codes\<close>

definition redeemed :: "oevent list \<Rightarrow> string \<Rightarrow> bool" where
  "redeemed tr cd \<longleftrightarrow> (\<exists>ver red cl tok. CodeToken cd ver red cl tok \<in> set tr)"

fun code_authentic :: "signer \<Rightarrow> oevent list \<Rightarrow> bool" where
  "code_authentic sign [] = True"
| "code_authentic sign (e # tr) = ((\<forall>cd ver red cl tok. e = CodeToken cd ver red cl tok \<longrightarrow> \<not> redeemed tr cd \<and>
     (\<exists>ch did u em nm t ti c. CodeStarted cd cl red ch did \<in> set tr \<and> ValidateCodeChallenge ver ch \<and>
        CodeApproved cd u em nm t ti \<in> set tr \<and> claims_for c u em nm t ti did \<and>
        sign c = Inr (tAccessToken tok))) \<and> code_authentic sign tr)"

definition code_ok :: "oevent list \<Rightarrow> string \<Rightarrow> AuthorizationRequest \<Rightarrow> bool" where
  "code_ok tr cd r \<longleftrightarrow> qAuthorizationCode r = cd \<and>
     CodeStarted cd (qClientID r) (qRedirectURI r) (qCodeChallenge r) (qDeviceID r) \<in> set tr \<and>
     (qUserID r \<noteq> [] \<longrightarrow> CodeApproved cd (qUserID r) (qEmail r) (qName r) (qTenantID r) (qTier r) \<in> set tr) \<and>
     \<not> redeemed tr cd"

definition auth_ok :: "oevent list \<Rightarrow> SecureMemoryStore \<Rightarrow> bool" where
  "auth_ok tr s \<longleftrightarrow>
     (\<forall>cd p. map_of (byAuthCode s) cd = Some p \<longrightarrow> p < next_auth s \<and> code_ok tr cd (auth_heap s p))"

definition auth_part :: "SecureMemoryStore \<Rightarrow> (addr \<Rightarrow> AuthorizationRequest) \<times> addr \<times> (string, addr) gomap" where
  "auth_part s = (auth_heap s, next_auth s, byAuthCode s)"

lemma auth_ok_part: "auth_part s' = auth_part s \<Longrightarrow> auth_ok tr s' = auth_ok tr s"
  by (simp add: auth_part_def auth_ok_def)

lemma auth_okI:
  assumes "\<And>cd p. map_of (byAuthCode s) cd = Some p \<Longrightarrow> p < next_auth s \<and> code_ok tr cd (auth_heap s p)"
  shows "auth_ok tr s"
  using assms by (simp add: auth_ok_def)

lemma auth_okD:
  assumes "auth_ok tr s" and "map_of (byAuthCode s) cd = Some p"
  shows "p < next_auth s" and "code_ok tr cd (auth_heap s p)"
  using assms by (simp_all add: auth_ok_def)

lemma code_ok_mono:
  assumes "code_ok tr cd r" and "\<And>ver red cl tok. e \<noteq> CodeToken cd ver red cl tok"
  shows "code_ok (e # tr) cd r"
  using assms by (auto simp: code_ok_def redeemed_def)

lemma auth_ok_mono:
  assumes "auth_ok tr s" and "\<And>cd ver red cl tok. e \<noteq> CodeToken cd ver red cl tok"
  shows "auth_ok (e # tr) s"
  by (rule auth_okI) (use auth_okD [OF assms(1)] code_ok_mono [OF _ assms(2)] in auto)

lemma set_auth_frame [simp]:
  "auth_heap (set_auth p r s) = (auth_heap s)(p := r)" "next_auth (set_auth p r s) = next_auth s"
  "byAuthCode (set_auth p r s) = byAuthCode s"
  by (simp_all add: set_auth_def)

lemma auth_ok_modify:
  assumes ok: "auth_ok tr s" and p: "map_of (byAuthCode s) cd = Some p" and r: "code_ok tr cd r"
  shows "auth_ok tr (snd (UpdateAuthorization p (set_auth p r s)))"
proof (rule auth_okI)
  let ?s = "snd (UpdateAuthorization p (set_auth p r s))"
  have cdr: "qAuthorizationCode r = cd" and cdp: "qAuthorizationCode (auth_heap s p) = cd"
    using r auth_okD(2) [OF ok p] by (simp_all add: code_ok_def)
  have f: "auth_heap ?s = (auth_heap s)(p := r)" "next_auth ?s = next_auth s"
    "map_of (byAuthCode ?s) = map_of (byAuthCode s)"
    using p cdr by (auto simp: UpdateAuthorization_def Let_def trackAuthExpiration_def untrackAuthExpiration_def
        update_conv' fun_eq_iff)
  fix cd' q assume "map_of (byAuthCode ?s) cd' = Some q"
  then have q: "map_of (byAuthCode s) cd' = Some q" by (simp add: f)
  show "q < next_auth ?s \<and> code_ok tr cd' (auth_heap ?s q)"
  proof (cases "q = p")
    case True
    then have "cd' = cd" using auth_okD(2) [OF ok q] cdp by (simp add: code_ok_def)
    then show ?thesis using True r auth_okD(1) [OF ok p] by (simp add: f)
  next
    case False
    then show ?thesis using auth_okD [OF ok q] by (simp add: f)
  qed
qed

lemma auth_ok_removed:
  assumes ok: "auth_ok tr s" and p: "map_of (byAuthCode s) cd = Some p"
    and s': "auth_heap s' = (auth_heap s)(p := r)" "next_auth s' = next_auth s"
      "map_of (byAuthCode s') = (map_of (byAuthCode s))(cd := None)"
  shows "auth_ok tr s'"
proof (rule auth_okI)
  fix cd' q assume "map_of (byAuthCode s') cd' = Some q"
  then have q: "map_of (byAuthCode s) cd' = Some q" "cd' \<noteq> cd" by (auto simp: s' split: if_splits)
  have "q \<noteq> p" using auth_okD(2) [OF ok q(1)] auth_okD(2) [OF ok p] q(2) by (auto simp: code_ok_def)
  then show "q < next_auth s' \<and> code_ok tr cd' (auth_heap s' q)" using auth_okD [OF ok q(1)] by (simp add: s')
qed

lemma DeleteAuthorization_none: "map_of (byAuthCode (DeleteAuthorization cd s)) cd = None"
  by (auto simp: DeleteAuthorization_def Let_def untrackAuthExpiration_def delete_conv' split: option.split)

lemma DeleteAuthorization_ok: "auth_ok tr s \<Longrightarrow> auth_ok tr (DeleteAuthorization cd s)"
proof (cases "map_of (byAuthCode s) cd")
  case (Some p)
  assume "auth_ok tr s"
  from auth_ok_removed [OF this Some] show ?thesis
    by (rule meta_mp) (simp_all add: DeleteAuthorization_def Some Let_def untrackAuthExpiration_def delete_conv')
qed (simp add: DeleteAuthorization_def)

lemma expire_auth_ok: "auth_ok tr s \<Longrightarrow> auth_ok tr (expire_auth cd s)"
proof (cases "map_of (byAuthCode s) cd")
  case (Some p)
  assume "auth_ok tr s"
  from auth_ok_removed [OF this Some] show ?thesis
    by (rule meta_mp) (simp_all add: expire_auth_def Some delete_conv')
qed (simp add: expire_auth_def)

lemma fold_expire_auth_ok: "auth_ok tr s \<Longrightarrow> auth_ok tr (fold expire_auth cds s)"
  by (induction cds arbitrary: s) (simp_all add: expire_auth_ok)

lemma auth_bucket_ok:
  assumes "auth_ok tr s"
  shows "auth_ok tr (auth_bucket now b s)"
proof (cases "fst b > now")
  case True
  then show ?thesis using assms by (simp add: auth_bucket_def case_prod_beta)
next
  case False
  let ?x = "fold expire_auth (snd b) s"
  have "auth_part (?x\<lparr>authExpirations := d\<rparr>) = auth_part ?x" for d by (simp add: auth_part_def)
  from auth_ok_part [OF this] show ?thesis
    using False fold_expire_auth_ok [OF assms] by (simp add: auth_bucket_def case_prod_beta)
qed

text \<open>What the device flow leaves alone.\<close>

lemma set_dev_auth [simp]: "auth_part (set_dev p r s) = auth_part s"
  by (simp add: set_dev_def auth_part_def)

lemma Update_auth [simp]: "auth_part (snd (Update p s)) = auth_part s"
  by (auto simp: Update_def Let_def trackDeviceExpiration_def untrackDeviceExpiration_def auth_part_def split: option.split)

lemma Create_auth [simp]: "auth_part (Create r s) = auth_part s"
  by (simp add: Create_def Let_def trackDeviceExpiration_def set_dev_def auth_part_def)

lemma Delete_dev_auth [simp]: "auth_part (Delete_dev cd s) = auth_part s"
  by (auto simp: Delete_dev_def Let_def untrackDeviceExpiration_def set_dev_def auth_part_def split: option.split)

lemma fold_expire_device_auth: "auth_part (fold expire_device cds s) = auth_part s"
proof (induction cds arbitrary: s)
  case (Cons cd cds)
  have "auth_part (expire_device cd s) = auth_part s"
    by (auto simp: expire_device_def Let_def set_dev_def auth_part_def split: option.split)
  then show ?case using Cons by simp
qed simp

lemma device_bucket_auth: "auth_part (device_bucket now b s) = auth_part s"
proof -
  have "auth_part (x\<lparr>deviceExpirations := d\<rparr>) = auth_part x" for x d by (simp add: auth_part_def)
  then show ?thesis by (simp add: device_bucket_def fold_expire_device_auth split: prod.split)
qed

lemma cleanup_auth_ok:
  assumes "auth_ok tr s"
  shows "auth_ok tr (cleanupExpired now s)"
proof -
  have d: "auth_part (fold (device_bucket n) bs x) = auth_part x" for n bs x
    by (induction bs arbitrary: x) (simp_all add: device_bucket_auth)
  have a: "auth_ok tr (fold (auth_bucket n) bs x)" if "auth_ok tr x" for n bs x
    using that by (induction bs arbitrary: x) (simp_all add: auth_bucket_ok)
  show ?thesis unfolding cleanupExpired_def Let_def
    by (rule a) (simp only: auth_ok_part [OF d] assms)
qed

lemma StartDeviceFlow_auth: "auth_part (snd (StartDeviceFlow cfg r1 r2 cl did now s)) = auth_part s"
  by (auto simp: StartDeviceFlow_def Let_def split: sum.split)

lemma AuthorizeDevice_auth: "auth_part (snd (AuthorizeDevice clk uc u em nm t ti s)) = auth_part s"
  by (auto simp: AuthorizeDevice_def Let_def split: sum.split)

lemma DenyDevice_auth: "auth_part (snd (DenyDevice clk uc s)) = auth_part s"
  by (auto simp: DenyDevice_def Let_def split: sum.split)

lemma poll_check_auth: "auth_part (snd (poll_check cfg clk dc s)) = auth_part s"
  by (auto simp: poll_check_def Let_def split: sum.split AuthorizationStatus.split)

lemma poll_issue_auth: "auth_part (snd (poll_issue cfg sign uuid clk dc s)) = auth_part s"
  by (auto simp: poll_issue_def Let_def split: sum.split)

text \<open>The operations of the flow.\<close>

lemma code_authentic_started:
  "code_authentic sign tr \<Longrightarrow> redeemed tr cd \<Longrightarrow> \<exists>a b c d. CodeStarted cd a b c d \<in> set tr"
proof (induction tr)
  case (Cons e tr)
  show ?case
  proof (cases "redeemed tr cd")
    case True
    then show ?thesis using Cons by auto
  next
    case False
    then obtain ver red cl tok where "e = CodeToken cd ver red cl tok" using Cons.prems(2) by (auto simp: redeemed_def)
    then show ?thesis using Cons.prems(1) by auto
  qed
qed (simp add: redeemed_def)

lemma StartAuthorizationFlow_cases:
  assumes "StartAuthorizationFlow cfg pu rnd cl red st sc ch me did now s = (Inr r, s')"
  shows "s' = CreateAuthorization r s \<and> qClientID r = cl \<and> qRedirectURI r = red \<and> qCodeChallenge r = ch \<and>
    qDeviceID r = did \<and> qUserID r = [] \<and> qExpiresAt r = now + DeviceCodeLifetime cfg \<and> qState r = st \<and> 16 \<le> length st \<and>
    length ch = 43 \<and> me = ''S256'' \<and>
    (\<exists>client. map_of registeredClients cl = Some client \<and> isRedirectURIAllowed pu red (cl_RedirectURIs client) \<and>
       validateScope sc (cl_AllowedScopes client) = Inr (qScope r)) \<and>
    generateSecureAuthorizationCode rnd = Inr (qAuthorizationCode r)"
  using assms unfolding StartAuthorizationFlow_def Let_def
  by (auto split: if_splits option.splits sum.splits)

lemma StartAuthorizationFlow_ok:
  assumes ok: "auth_ok tr s" and auth: "code_authentic sign tr"
    and run: "StartAuthorizationFlow cfg pu rnd cl red st sc ch me did now s = (Inr r, s')"
    and fresh: "\<And>a b c d. CodeStarted (qAuthorizationCode r) a b c d \<notin> set tr"
  shows "auth_ok (CodeStarted (qAuthorizationCode r) cl red ch did # tr) s'"
proof (rule auth_okI)
  let ?cd = "qAuthorizationCode r" and ?tr = "CodeStarted (qAuthorizationCode r) cl red ch did # tr"
  note c = StartAuthorizationFlow_cases [OF run]
  have f: "auth_heap s' = (auth_heap s)(next_auth s := r)" "next_auth s' = Suc (next_auth s)"
    "map_of (byAuthCode s') = (map_of (byAuthCode s))(?cd \<mapsto> next_auth s)"
    using c by (simp_all add: CreateAuthorization_def Let_def trackAuthExpiration_def update_conv')
  have "\<not> redeemed tr ?cd" using code_authentic_started [OF auth, of ?cd] fresh by blast
  then have "\<not> redeemed ?tr ?cd" by (simp add: redeemed_def)
  then have new: "code_ok ?tr ?cd r" using c by (simp add: code_ok_def)
  fix cd p assume "map_of (byAuthCode s') cd = Some p"
  then consider "cd = ?cd" "p = next_auth s" | "map_of (byAuthCode s) cd = Some p"
    unfolding f(3) by (cases "cd = ?cd") simp_all
  then show "p < next_auth s' \<and> code_ok ?tr cd (auth_heap s' p)"
  proof cases
    case 1
    then show ?thesis using new by (simp add: f)
  next
    case 2
    then show ?thesis using auth_okD [OF ok 2] code_ok_mono [of tr cd "auth_heap s p" "CodeStarted ?cd cl red ch did"]
      by (auto simp: f)
  qed
qed

lemma GetAuthorizationByCode_Inr:
  "GetAuthorizationByCode cd now s = Inr p \<Longrightarrow> map_of (byAuthCode s) cd = Some p"
  by (auto simp: GetAuthorizationByCode_def split: option.splits if_splits)

lemma AuthorizeAuthorizationCode_ok:
  assumes ok: "auth_ok tr s" and run: "AuthorizeAuthorizationCode clk cd u em nm t ti s = (res, s')"
  shows "(\<exists>x. res = Inr x) \<Longrightarrow> auth_ok (CodeApproved cd u em nm t ti # tr) s'"
    and "(\<exists>e. res = Inl e) \<Longrightarrow> auth_ok tr s'"
proof -
  let ?tr = "CodeApproved cd u em nm t ti # tr"
  have okt: "auth_ok ?tr s" by (rule auth_ok_mono [OF ok]) simp
  have alt: "(s' = s \<and> (\<exists>e. res = Inl e)) \<or> (res = Inr () \<and> auth_ok ?tr s')"
  proof (cases "cd = [] \<or> (\<exists>e. GetAuthorizationByCode cd (clk 0) s = Inl e)")
    case True
    then show ?thesis using run by (auto simp: AuthorizeAuthorizationCode_def split: if_splits)
  next
    case False
    then obtain p where g: "GetAuthorizationByCode cd (clk 0) s = Inr p"
      by (cases "GetAuthorizationByCode cd (clk 0) s") auto
    note p = GetAuthorizationByCode_Inr [OF g]
    let ?r = "(auth_heap s p)\<lparr>qUserID := u, qEmail := em, qName := nm, qTenantID := t, qTier := ti\<rparr>"
    have "code_ok ?tr cd ?r" using auth_okD(2) [OF okt p] by (simp add: code_ok_def)
    note m = auth_ok_modify [OF okt p this]
    have "qAuthorizationCode (auth_heap s p) = cd" using auth_okD(2) [OF ok p] by (simp add: code_ok_def)
    then have "fst (UpdateAuthorization p (set_auth p ?r s)) = Inr ()"
      using p by (simp add: UpdateAuthorization_def Let_def)
    then show ?thesis using run False g m
      by (auto simp: AuthorizeAuthorizationCode_def Let_def prod_eq_iff split: if_splits)
  qed
  show "auth_ok ?tr s'" if "\<exists>x. res = Inr x" using alt that by auto
  show "auth_ok tr s'" if "\<exists>e. res = Inl e" using alt that ok by auto
qed

lemma exchange_check_cases:
  assumes "exchange_check clk cd ver red cl s = (res, s')"
  obtains (refused) e where "res = Inl e" "s' = s \<or> s' = DeleteAuthorization cd s"
  | (accepted) p where "res = Inr p" "s' = s" "map_of (byAuthCode s) cd = Some p" "cd \<noteq> []"
      "qRedirectURI (auth_heap s p) = red" "qClientID (auth_heap s p) = cl"
      "ValidateCodeChallenge ver (qCodeChallenge (auth_heap s p))" "qUserID (auth_heap s p) \<noteq> []"
proof (cases "res")
  case (Inl e)
  then show ?thesis using assms
    by (intro refused) (auto simp: exchange_check_def Let_def split: if_splits sum.splits)
next
  case (Inr p)
  then show ?thesis using assms
    by (intro accepted [of p])
      (auto simp: exchange_check_def Let_def dest: GetAuthorizationByCode_Inr split: if_splits sum.splits)
qed

lemma Exchange_ok:
  assumes ok: "auth_ok tr s" and auth: "code_authentic sign tr"
    and run: "ExchangeAuthorizationCode cfg sign uuid clk cd ver red cl s = (res, s')"
  shows "res = Inr tok \<Longrightarrow> auth_ok (CodeToken cd ver red cl tok # tr) s' \<and> code_authentic sign (CodeToken cd ver red cl tok # tr)"
    and "res = Inl e \<Longrightarrow> auth_ok tr s'"
proof -
  obtain r1 s1 where e: "exchange_check clk cd ver red cl s = (r1, s1)" by force
  show "auth_ok tr s'" if "res = Inl e"
  proof (cases rule: exchange_check_cases [OF e])
    case (1 e')
    then show ?thesis using run e ok DeleteAuthorization_ok by (auto simp: ExchangeAuthorizationCode_def)
  next
    case (2 p)
    then show ?thesis using run e ok that by (auto simp: ExchangeAuthorizationCode_def split: sum.splits)
  qed
  assume res: "res = Inr tok"
  show "auth_ok (CodeToken cd ver red cl tok # tr) s' \<and> code_authentic sign (CodeToken cd ver red cl tok # tr)"
  proof (cases rule: exchange_check_cases [OF e])
    case (1 e')
    then show ?thesis using run e res by (auto simp: ExchangeAuthorizationCode_def)
  next
    case (2 p)
    let ?r = "auth_heap s p" let ?c = "auth_claims cfg uuid (clk 2) ?r"
    have k: "code_ok tr cd ?r" by (rule auth_okD(2) [OF ok 2(3)])
    have s': "s' = DeleteAuthorization cd s" and sg: "sign ?c = Inr (tAccessToken tok)"
      using run e 2 res
      by (auto simp: ExchangeAuthorizationCode_def exchange_token_def generateAccessTokenFromAuth_def
          token_response_def split: sum.splits)
    have cl: "claims_for ?c (qUserID ?r) (qEmail ?r) (qName ?r) (qTenantID ?r) (qTier ?r) (qDeviceID ?r)"
      by (simp add: claims_for_def auth_claims_def)
    have "\<exists>ch did u em nm t ti c. CodeStarted cd cl red ch did \<in> set tr \<and> ValidateCodeChallenge ver ch \<and>
        CodeApproved cd u em nm t ti \<in> set tr \<and> claims_for c u em nm t ti did \<and> sign c = Inr (tAccessToken tok)"
      using k cl sg 2(5-8) unfolding code_ok_def by blast
    then have a: "code_authentic sign (CodeToken cd ver red cl tok # tr)"
      using auth k by (simp add: code_ok_def)
    have "auth_ok (CodeToken cd ver red cl tok # tr) s'"
    proof (rule auth_okI)
      fix cd' q assume q: "map_of (byAuthCode s') cd' = Some q"
      then have "cd' \<noteq> cd" using DeleteAuthorization_none [of cd s] unfolding s' by auto
      then have ne: "CodeToken cd ver red cl tok \<noteq> CodeToken cd' a b c d" for a b c d by simp
      have d: "auth_ok tr s'" unfolding s' by (rule DeleteAuthorization_ok [OF ok])
      show "q < next_auth s' \<and> code_ok (CodeToken cd ver red cl tok # tr) cd' (auth_heap s' q)"
        using auth_okD(1) [OF d q] code_ok_mono [OF auth_okD(2) [OF d q] ne] by blast
    qed
    with a show ?thesis by blast
  qed
qed

end
