(* ===== verification/OAuth_Runs.thy ===== *)
theory OAuth_Runs
  imports OAuth_Codes
begin

text \<open>
  The runs of the authorization server. \<open>oauth_run\<close> interleaves the operations of both flows, the two
  parts of a poll separately, with clean-ups, and records the events. New codes are assumed
  to be new: they come from 128 random bits or more.
\<close>

section \<open>Runs\<close>

inductive oauth_run ::
  "OAuthConfig \<Rightarrow> signer \<Rightarrow> (string \<Rightarrow> URL option) \<Rightarrow> oevent list \<Rightarrow> SecureMemoryStore \<Rightarrow> bool"
  for cfg sign parse_url where
  init: "oauth_run cfg sign parse_url [] (NewSecureMemoryStore dh ah)"
| start: "oauth_run cfg sign parse_url tr s \<Longrightarrow> random_ok rnd1 \<Longrightarrow>
    StartDeviceFlow cfg rnd1 rnd2 cl did now s = (Inr r, s') \<Longrightarrow>
    (\<And>uc d. DeviceStarted (rDeviceCode r) uc d \<notin> set tr) \<Longrightarrow>
    oauth_run cfg sign parse_url (DeviceStarted (rDeviceCode r) (rUserCode r) did # tr) s'"
| approve: "oauth_run cfg sign parse_url tr s \<Longrightarrow>
    AuthorizeDevice clk uc u em nm t ti s = (Inr x, s') \<Longrightarrow>
    oauth_run cfg sign parse_url (DeviceApproved uc u em nm t ti # tr) s'"
| approve_error: "oauth_run cfg sign parse_url tr s \<Longrightarrow>
    AuthorizeDevice clk uc u em nm t ti s = (Inl e, s') \<Longrightarrow> oauth_run cfg sign parse_url tr s'"
| deny: "oauth_run cfg sign parse_url tr s \<Longrightarrow> oauth_run cfg sign parse_url tr (snd (DenyDevice clk uc s))"
| poll: "oauth_run cfg sign parse_url tr s \<Longrightarrow> oauth_run cfg sign parse_url tr (snd (poll_check cfg clk dc s))"
| issue: "oauth_run cfg sign parse_url tr s \<Longrightarrow> poll_issue cfg sign uuid clk dc s = (Inr tok, s') \<Longrightarrow>
    oauth_run cfg sign parse_url (DeviceToken dc tok # tr) s'"
| issue_error: "oauth_run cfg sign parse_url tr s \<Longrightarrow> poll_issue cfg sign uuid clk dc s = (Inl e, s') \<Longrightarrow>
    oauth_run cfg sign parse_url tr s'"
| delete: "oauth_run cfg sign parse_url tr s \<Longrightarrow> oauth_run cfg sign parse_url tr (Delete_dev dc s)"
| cleanup: "oauth_run cfg sign parse_url tr s \<Longrightarrow> oauth_run cfg sign parse_url tr (cleanupExpired now s)"
| code_start: "oauth_run cfg sign parse_url tr s \<Longrightarrow>
    StartAuthorizationFlow cfg parse_url rnd cl red st sc ch me did now s = (Inr r, s') \<Longrightarrow>
    (\<And>a b c d. CodeStarted (qAuthorizationCode r) a b c d \<notin> set tr) \<Longrightarrow>
    oauth_run cfg sign parse_url (CodeStarted (qAuthorizationCode r) cl red ch did # tr) s'"
| code_approve: "oauth_run cfg sign parse_url tr s \<Longrightarrow>
    AuthorizeAuthorizationCode clk cd u em nm t ti s = (Inr x, s') \<Longrightarrow>
    oauth_run cfg sign parse_url (CodeApproved cd u em nm t ti # tr) s'"
| code_approve_error: "oauth_run cfg sign parse_url tr s \<Longrightarrow>
    AuthorizeAuthorizationCode clk cd u em nm t ti s = (Inl e, s') \<Longrightarrow> oauth_run cfg sign parse_url tr s'"
| code_deny: "oauth_run cfg sign parse_url tr s \<Longrightarrow>
    oauth_run cfg sign parse_url tr (snd (DenyAuthorizationCode cd s))"
| exchange: "oauth_run cfg sign parse_url tr s \<Longrightarrow>
    ExchangeAuthorizationCode cfg sign uuid clk cd ver red cl s = (Inr tok, s') \<Longrightarrow>
    oauth_run cfg sign parse_url (CodeToken cd ver red cl tok # tr) s'"
| exchange_error: "oauth_run cfg sign parse_url tr s \<Longrightarrow>
    ExchangeAuthorizationCode cfg sign uuid clk cd ver red cl s = (Inl e, s') \<Longrightarrow>
    oauth_run cfg sign parse_url tr s'"

section \<open>Every run\<close>

lemma authentic_Cons:
  "(\<And>dc tok. e \<noteq> DeviceToken dc tok) \<Longrightarrow> device_authentic sign (e # tr) = device_authentic sign tr"
  "(\<And>cd ver red cl tok. e \<noteq> CodeToken cd ver red cl tok) \<Longrightarrow> code_authentic sign (e # tr) = code_authentic sign tr"
  by auto

definition oauth_inv :: "signer \<Rightarrow> oevent list \<Rightarrow> SecureMemoryStore \<Rightarrow> bool" where
  "oauth_inv sign tr s \<longleftrightarrow> dev_ok tr s \<and> device_authentic sign tr \<and> auth_ok tr s \<and> code_authentic sign tr"

lemma oauth_inv_device:
  assumes "oauth_inv sign tr s" and "dev_ok tr s'" and "auth_part s' = auth_part s"
  shows "oauth_inv sign tr s'"
  using assms auth_ok_part [OF assms(3), of tr] by (simp add: oauth_inv_def)

lemma oauth_inv_code:
  assumes "oauth_inv sign tr s" and "auth_ok tr s'" and "dev_part s' = dev_part s"
  shows "oauth_inv sign tr s'"
  using assms dev_ok_part [OF assms(3), of tr] by (simp add: oauth_inv_def)

lemma oauth_inv_event:
  assumes "oauth_inv sign tr s" and "\<And>dc tok. e \<noteq> DeviceToken dc tok"
    and "\<And>cd ver red cl tok. e \<noteq> CodeToken cd ver red cl tok"
  shows "oauth_inv sign (e # tr) s"
  using assms(1) dev_ok_mono [of tr s e, OF _ assms(2)] auth_ok_mono [of tr s e, OF _ assms(3)]
  unfolding oauth_inv_def authentic_Cons(1) [OF assms(2)] authentic_Cons(2) [OF assms(3)] by blast

lemma start_inv:
  assumes inv: "oauth_inv sign tr s" and rnd: "random_ok rnd1"
    and run: "StartDeviceFlow cfg rnd1 rnd2 cl did now s = (Inr r, s')"
    and fresh: "\<And>uc d. DeviceStarted (rDeviceCode r) uc d \<notin> set tr"
  shows "oauth_inv sign (DeviceStarted (rDeviceCode r) (rUserCode r) did # tr) s'"
proof (cases rule: StartDeviceFlow_cases [OF run])
  case (1 req)
  let ?e = "DeviceStarted (rDeviceCode r) (rUserCode r) did"
  have i: "oauth_inv sign (?e # tr) s" by (rule oauth_inv_event [OF inv]) simp_all
  have ne: "rDeviceCode r \<noteq> []" using generateDeviceCode_length [OF rnd 1(8)] by auto
  have none: "map_of (byDevice s) (rDeviceCode r) = None"
  proof (rule ccontr)
    assume "map_of (byDevice s) (rDeviceCode r) \<noteq> None"
    then obtain p where "map_of (byDevice s) (rDeviceCode r) = Some p" by blast
    moreover have "dev_ok tr s" using inv by (simp add: oauth_inv_def)
    ultimately have "request_ok tr (rDeviceCode r) (dev_heap s p)" using dev_okD(1) by blast
    then show False using fresh by (simp add: request_ok_def)
  qed
  have "\<not> issued tr (rDeviceCode r)"
    using authentic_started [of sign tr "rDeviceCode r"] fresh inv unfolding oauth_inv_def by blast
  then have "request_ok (?e # tr) (dDeviceCode req) req"
    using 1 ne by (simp add: request_ok_def issued_def)
  then have "dev_ok (?e # tr) (Create req s)"
    using Create_ok [of "?e # tr" s req] i none 1(2) by (simp add: oauth_inv_def)
  then show ?thesis using oauth_inv_device [OF i] 1(1) by simp
qed

lemma oauth_run_inv: "oauth_run cfg sign pu tr s \<Longrightarrow> oauth_inv sign tr s"
proof (induction rule: oauth_run.induct)
  case (init dh ah)
  show ?case by (simp add: oauth_inv_def dev_ok_def auth_ok_def NewSecureMemoryStore_def)
next
  case (start tr s rnd1 rnd2 cl did now r s')
  show ?case by (rule start_inv [OF start(5,2,3,4)])
next
  case (approve tr s clk uc u em nm t ti x s')
  have "auth_part s' = auth_part s" using AuthorizeDevice_auth [of clk uc u em nm t ti s] approve(2) by simp
  moreover have "oauth_inv sign (DeviceApproved uc u em nm t ti # tr) s" by (rule oauth_inv_event [OF approve(3)]) simp_all
  moreover have "dev_ok (DeviceApproved uc u em nm t ti # tr) s'"
    using AuthorizeDevice_ok(1) [OF _ approve(2)] approve(3) by (auto simp: oauth_inv_def)
  ultimately show ?case using oauth_inv_device by blast
next
  case (approve_error tr s clk uc u em nm t ti e s')
  have "auth_part s' = auth_part s" using AuthorizeDevice_auth [of clk uc u em nm t ti s] approve_error(2) by simp
  moreover have "dev_ok tr s'"
    using AuthorizeDevice_ok(2) [OF _ approve_error(2)] approve_error(3) by (auto simp: oauth_inv_def)
  ultimately show ?case using oauth_inv_device [OF approve_error(3)] by blast
next
  case (deny tr s clk uc)
  then show ?case using oauth_inv_device [OF deny(2) _ DenyDevice_auth] DenyDevice_ok by (simp add: oauth_inv_def)
next
  case (poll tr s clk dc)
  then show ?case using oauth_inv_device [OF poll(2) _ poll_check_auth] poll_check_ok by (simp add: oauth_inv_def)
next
  case (issue tr s uuid clk dc tok s')
  have "auth_part s' = auth_part s" using poll_issue_auth [of cfg sign uuid clk dc s] issue(2) by simp
  then have a: "auth_ok tr s'" using issue(3) auth_ok_part [of s' s tr] by (simp add: oauth_inv_def)
  have "auth_ok (DeviceToken dc tok # tr) s'" by (rule auth_ok_mono [OF a]) simp
  then show ?case using poll_issue_ok [OF _ _ issue(2)] issue(3) by (simp add: oauth_inv_def)
next
  case (issue_error tr s uuid clk dc e s')
  have "s' = s" by (cases rule: poll_issue_cases [OF issue_error(2)]) simp_all
  then show ?case using issue_error(3) by simp
next
  case (delete tr s dc)
  then show ?case using oauth_inv_device [OF delete(2)] Delete_dev_ok by (simp add: oauth_inv_def)
next
  case (cleanup tr s now)
  then show ?case using cleanupExpired_ok [of tr s now] cleanup_auth_ok [of tr s now] by (simp add: oauth_inv_def)
next
  case (code_start tr s rnd cl red st sc ch me did now r s')
  let ?e = "CodeStarted (qAuthorizationCode r) cl red ch did"
  have "dev_part s' = dev_part s"
    using StartAuthorizationFlow_part [of cfg pu rnd cl red st sc ch me did now s] code_start(2) by simp
  moreover have "oauth_inv sign (?e # tr) s" by (rule oauth_inv_event [OF code_start(4)]) simp_all
  moreover have "auth_ok (?e # tr) s'"
    using StartAuthorizationFlow_ok [of tr s sign, OF _ _ code_start(2,3)] code_start(4) by (simp add: oauth_inv_def)
  ultimately show ?case using oauth_inv_code by blast
next
  case (code_approve tr s clk cd u em nm t ti x s')
  have "dev_part s' = dev_part s" using AuthorizeAuthorizationCode_part [of clk cd u em nm t ti s] code_approve(2) by simp
  moreover have "oauth_inv sign (CodeApproved cd u em nm t ti # tr) s" by (rule oauth_inv_event [OF code_approve(3)]) simp_all
  moreover have "auth_ok (CodeApproved cd u em nm t ti # tr) s'"
    using AuthorizeAuthorizationCode_ok(1) [OF _ code_approve(2)] code_approve(3) by (auto simp: oauth_inv_def)
  ultimately show ?case using oauth_inv_code by blast
next
  case (code_approve_error tr s clk cd u em nm t ti e s')
  have "dev_part s' = dev_part s" using AuthorizeAuthorizationCode_part [of clk cd u em nm t ti s] code_approve_error(2) by simp
  moreover have "auth_ok tr s'"
    using AuthorizeAuthorizationCode_ok(2) [OF _ code_approve_error(2)] code_approve_error(3) by (auto simp: oauth_inv_def)
  ultimately show ?case using oauth_inv_code [OF code_approve_error(3)] by blast
next
  case (code_deny tr s cd)
  have "auth_ok tr (snd (DenyAuthorizationCode cd s))"
    using code_deny(2) DeleteAuthorization_ok by (simp add: DenyAuthorizationCode_def oauth_inv_def)
  moreover have "dev_part (snd (DenyAuthorizationCode cd s)) = dev_part s" by (simp add: DenyAuthorizationCode_def)
  ultimately show ?case by (rule oauth_inv_code [OF code_deny(2)])
next
  case (exchange tr s uuid clk cd ver red cl tok s')
  have "dev_part s' = dev_part s" using ExchangeAuthorizationCode_part [of cfg sign uuid clk cd ver red cl s] exchange(2) by simp
  then have d: "dev_ok tr s'" using exchange(3) dev_ok_part [of s' s tr] by (simp add: oauth_inv_def)
  have "dev_ok (CodeToken cd ver red cl tok # tr) s'" by (rule dev_ok_mono [OF d]) simp
  then show ?case using Exchange_ok(1) [OF _ _ exchange(2)] exchange(3) by (simp add: oauth_inv_def)
next
  case (exchange_error tr s uuid clk cd ver red cl e s')
  have "dev_part s' = dev_part s" using ExchangeAuthorizationCode_part [of cfg sign uuid clk cd ver red cl s] exchange_error(2) by simp
  moreover have "auth_ok tr s'" using Exchange_ok(2) [OF _ _ exchange_error(2)] exchange_error(3) by (simp add: oauth_inv_def)
  ultimately show ?case using oauth_inv_code [OF exchange_error(3)] by blast
qed

lemma device_authentic_split:
  "device_authentic sign (tr2 @ tr1) \<Longrightarrow> device_authentic sign tr1"
  by (induction tr2) auto

lemma code_authentic_split:
  "code_authentic sign (tr2 @ tr1) \<Longrightarrow> code_authentic sign tr1"
  by (induction tr2) auto



section \<open>A flow that is followed completes\<close>

text \<open>The signing never fails, and the clock stays before a deadline.\<close>

definition signs :: "signer \<Rightarrow> bool" where
  "signs sign \<longleftrightarrow> (\<forall>c. \<exists>tk. sign c = Inr tk)"

definition in_time :: "(nat \<Rightarrow> gotime) \<Rightarrow> gotime \<Rightarrow> bool" where
  "in_time clk t \<longleftrightarrow> (\<forall>i. clk i \<le> t)"

lemma device_flow:
  assumes start: "StartDeviceFlow cfg rnd1 rnd2 cl did now s = (Inr r, s1)" and rnd: "random_ok rnd1"
    and clk1: "in_time clk1 (now + DeviceCodeLifetime cfg)" and clk2: "in_time clk2 (now + DeviceCodeLifetime cfg)"
    and poll: "MinPollInterval cfg \<le> clk2 2" "MinPollInterval cfg < 2 ^ 63"
    and sign: "signs sign"
  shows "\<exists>s2 s3 tok. AuthorizeDevice clk1 (rUserCode r) u em nm t ti s1 = (Inr (), s2) \<and>
    poll_check cfg clk2 (rDeviceCode r) s2 = (Inr (), s3) \<and>
    fst (poll_issue cfg sign uuid clk2 (rDeviceCode r) s3) = Inr tok"
proof (cases rule: StartDeviceFlow_cases [OF start])
  case (1 req)
  let ?p = "next_dev s" and ?dc = "rDeviceCode r" and ?uc = "rUserCode r"
  have ne: "?dc \<noteq> []" using generateDeviceCode_length [OF rnd 1(8)] by auto
  have f1: "dev_heap s1 ?p = req" "map_of (byDevice s1) ?dc = Some ?p" "map_of (byUser s1) ?uc = Some ?p"
    using 1(1-3) by (simp_all add: Create_frame)
  have late: "\<not> After (clk1 i) (dExpiresAt req)" "\<not> After (clk2 i) (dExpiresAt req)" for i
    using clk1 clk2 1(6) by (simp_all add: in_time_def After_def not_less)
  define req2 where "req2 = req\<lparr>dUserID := u, dEmail := em, dName := nm, dTenantID := t, dTier := ti, dStatus := StatusAuthorized\<rparr>"
  define s2 where "s2 = snd (Update ?p (set_dev ?p req2 s1))"
  have f: "dDeviceCode req2 = ?dc" "dUserCode req2 = ?uc" "dExpiresAt req2 = dExpiresAt req" "dLastPolledAt req2 = 0"
      "dStatus req2 = StatusAuthorized"
    using 1 by (simp_all add: req2_def)
  have a: "AuthorizeDevice clk1 ?uc u em nm t ti s1 = (Inr (), s2)"
  proof -
    have "fst (Update ?p (set_dev ?p req2 s1)) = Inr ()" using f1(2) f(1) by (simp add: Update_def Let_def)
    then have "Update ?p (set_dev ?p req2 s1) = (Inr (), s2)" by (simp add: s2_def prod_eq_iff)
    then show ?thesis
      using 1(5) f1 late by (simp add: AuthorizeDevice_def GetByUserCode_def dev_IsExpired_def Let_def req2_def)
  qed
  have f2: "dev_heap s2 ?p = req2" "map_of (byDevice s2) ?dc = Some ?p"
    using f1(2) f(1) by (simp_all add: s2_def Update_frame)
  define s3 where "s3 = snd (Update ?p (set_dev ?p (req2\<lparr>dLastPolledAt := clk2 3\<rparr>) s2))"
  have c: "poll_check cfg clk2 ?dc s2 = (Inr (), s3)"
    using f2 late f poll ne
    by (simp add: poll_check_def GetByDeviceCode_def dev_IsExpired_def CanPoll_def Since_def Let_def s3_def)
  have f3: "dev_heap s3 ?p = req2\<lparr>dLastPolledAt := clk2 3\<rparr>" "map_of (byDevice s3) ?dc = Some ?p"
    using f2(2) f(1) by (simp_all add: s3_def Update_frame)
  obtain tk where "sign (device_claims cfg uuid (clk2 5) (dev_heap s3 ?p)) = Inr tk" using sign unfolding signs_def by blast
  then have "fst (poll_issue cfg sign uuid clk2 ?dc s3) = Inr (token_response cfg tk)"
    using f3 late f by (simp add: poll_issue_def GetByDeviceCode_def Let_def generateAccessToken_def)
  then show ?thesis using a c by blast
qed

text \<open>
  C28. The device flow completes: after a start, an approval within the lifetime of the code succeeds and the next
  poll in time returns a token. The clock readings are before the expiry and the signing does not fail.
\<close>

theorem device_flow_completes:
  assumes "StartDeviceFlow cfg rnd1 rnd2 cl did now s = (Inr r, s1)" and "random_ok rnd1"
    and "in_time clk1 (now + DeviceCodeLifetime cfg)" and "in_time clk2 (now + DeviceCodeLifetime cfg)"
    and "MinPollInterval cfg \<le> clk2 2" and "MinPollInterval cfg < 2 ^ 63" and "signs sign"
  shows "\<exists>s2 tok. AuthorizeDevice clk1 (rUserCode r) u em nm t ti s1 = (Inr (), s2) \<and>
    fst (PollDeviceToken cfg sign uuid clk2 (rDeviceCode r) s2) = Inr tok"
proof -
  from device_flow [OF assms, where u = u and em = em and nm = nm and t = t and ti = ti and uuid = uuid]
  obtain s2 s3 tok where "AuthorizeDevice clk1 (rUserCode r) u em nm t ti s1 = (Inr (), s2)"
    "poll_check cfg clk2 (rDeviceCode r) s2 = (Inr (), s3)"
    "fst (poll_issue cfg sign uuid clk2 (rDeviceCode r) s3) = Inr tok" by blast
  then show ?thesis by (simp add: PollDeviceToken_def)
qed

lemma code_flow:
  assumes start: "StartAuthorizationFlow cfg pu rnd cl red st sc ch me did now s = (Inr r, s1)"
    and clk1: "in_time clk1 (now + DeviceCodeLifetime cfg)" and clk2: "in_time clk2 (now + DeviceCodeLifetime cfg)"
    and ver: "ValidateCodeChallenge ver ch" and u: "u \<noteq> []" and sign: "signs sign"
  shows "\<exists>s2 tok. AuthorizeAuthorizationCode clk1 (qAuthorizationCode r) u em nm t ti s1 = (Inr (), s2) \<and>
    fst (ExchangeAuthorizationCode cfg sign uuid clk2 (qAuthorizationCode r) ver red cl s2) = Inr tok"
proof -
  let ?p = "next_auth s" and ?cd = "qAuthorizationCode r"
  note c = StartAuthorizationFlow_cases [OF start]
  have ne: "?cd \<noteq> []" using c by (auto simp: generateSecureAuthorizationCode_def split: option.splits)
  have f1: "auth_heap s1 ?p = r" "map_of (byAuthCode s1) ?cd = Some ?p"
    using c by (simp_all add: CreateAuthorization_def Let_def trackAuthExpiration_def update_conv')
  have late: "\<not> After (clk1 i) (qExpiresAt r)" "\<not> After (clk2 i) (qExpiresAt r)" for i
    using clk1 clk2 c by (simp_all add: in_time_def After_def not_less)
  define r2 where "r2 = r\<lparr>qUserID := u, qEmail := em, qName := nm, qTenantID := t, qTier := ti\<rparr>"
  have f: "qAuthorizationCode r2 = ?cd" "qExpiresAt r2 = qExpiresAt r" "qRedirectURI r2 = red" "qClientID r2 = cl"
    "qCodeChallenge r2 = ch" "qUserID r2 = u" using c by (simp_all add: r2_def)
  define s2 where "s2 = snd (UpdateAuthorization ?p (set_auth ?p r2 s1))"
  have up: "UpdateAuthorization ?p (set_auth ?p r2 s1) = (Inr (), s2)"
    using f1(2) f(1) by (simp add: s2_def UpdateAuthorization_def Let_def)
  have a: "AuthorizeAuthorizationCode clk1 ?cd u em nm t ti s1 = (Inr (), s2)"
    using f1 late ne up by (simp add: AuthorizeAuthorizationCode_def GetAuthorizationByCode_def auth_IsExpired_def Let_def r2_def)
  have f2: "auth_heap s2 ?p = r2" "map_of (byAuthCode s2) ?cd = Some ?p"
    using f1(2) f(1) by (simp_all add: s2_def UpdateAuthorization_def Let_def trackAuthExpiration_def
        untrackAuthExpiration_def update_conv')
  have "ver \<noteq> []" using ver by (auto simp: ValidateCodeChallenge_def)
  then have e: "exchange_check clk2 ?cd ver red cl s2 = (Inr ?p, s2)"
    using f2 f late ne ver u by (simp add: exchange_check_def GetAuthorizationByCode_def auth_IsExpired_def Let_def)
  obtain tk where "sign (auth_claims cfg uuid (clk2 2) r2) = Inr tk" using sign unfolding signs_def by blast
  then have "fst (ExchangeAuthorizationCode cfg sign uuid clk2 ?cd ver red cl s2) = Inr (token_response cfg tk)"
    using f2(1) by (simp add: ExchangeAuthorizationCode_def e exchange_token_def generateAccessTokenFromAuth_def)
  then show ?thesis using a by blast
qed

text \<open>
  C29. The authorization code flow completes: after a start, the approval within the lifetime succeeds and the
  exchange with a matching verifier returns a token.
\<close>

theorem code_flow_completes:
  assumes "StartAuthorizationFlow cfg pu rnd cl red st sc ch me did now s = (Inr r, s1)"
    and "in_time clk1 (now + DeviceCodeLifetime cfg)" and "in_time clk2 (now + DeviceCodeLifetime cfg)"
    and "ValidateCodeChallenge ver ch" and "u \<noteq> []" and "signs sign"
  shows "\<exists>s2 tok. AuthorizeAuthorizationCode clk1 (qAuthorizationCode r) u em nm t ti s1 = (Inr (), s2) \<and>
    fst (ExchangeAuthorizationCode cfg sign uuid clk2 (qAuthorizationCode r) ver red cl s2) = Inr tok"
  by (rule code_flow [OF assms])

text \<open>
  An exchange is not one atomic step: a second exchange that has passed its check before the first one
  finishes gets a token too, with the tenant and tier of the request and, since the first exchange has emptied the
  request, no user.
\<close>

theorem exchange_not_atomic:
  assumes "exchange_check clk cd ver red cl s = (Inr p, s)" and "signs sign"
  shows "\<exists>tok1 tok2 c s1. ExchangeAuthorizationCode cfg sign uuid clk cd ver red cl s = (Inr tok1, s1) \<and>
    exchange_token cfg sign uuid2 clk2 p s1 = Inr tok2 \<and> sign c = Inr (tAccessToken tok2) \<and>
    cTenantID c = qTenantID (auth_heap s p) \<and> cTier c = qTier (auth_heap s p)"
proof (cases rule: exchange_check_cases [OF assms(1)])
  case (2 q)
  then have p: "map_of (byAuthCode s) cd = Some p" by simp
  let ?s1 = "DeleteAuthorization cd s"
  obtain tk where tk: "sign (auth_claims cfg uuid (clk 2) (auth_heap s p)) = Inr tk" using assms(2) unfolding signs_def by blast
  let ?c = "auth_claims cfg uuid2 (clk2 2) (auth_heap ?s1 p)"
  obtain tk2 where tk2: "sign ?c = Inr tk2" using assms(2) unfolding signs_def by blast
  have h: "auth_heap ?s1 p = sanitizeAuthRequest (auth_heap s p)"
    by (simp add: DeleteAuthorization_def p Let_def untrackAuthExpiration_def)
  have "ExchangeAuthorizationCode cfg sign uuid clk cd ver red cl s = (Inr (token_response cfg tk), ?s1)"
    using assms(1) tk by (simp add: ExchangeAuthorizationCode_def exchange_token_def generateAccessTokenFromAuth_def)
  moreover have "exchange_token cfg sign uuid2 clk2 p ?s1 = Inr (token_response cfg tk2)"
    using tk2 by (simp add: exchange_token_def generateAccessTokenFromAuth_def)
  moreover have "sign ?c = Inr (tAccessToken (token_response cfg tk2))" using tk2 by (simp add: token_response_def)
  moreover have "cTenantID ?c = qTenantID (auth_heap s p)" "cTier ?c = qTier (auth_heap s p)"
    by (simp_all add: auth_claims_def h sanitizeAuthRequest_def)
  ultimately show ?thesis by blast
qed simp

section \<open>Proof keys\<close>

text \<open>
  A generated proof key has a verifier of 64 characters and a challenge of 43, the length a start accepts, and
  the challenge validates exactly the verifiers with the same SHA-256 hash.
\<close>

theorem pkce_roundtrip:
  assumes "random_ok rnd" and "rnd 64 = Some bs"
  shows "\<exists>v ch. GeneratePKCE rnd uuid = Inr (v, ch, ''S256'') \<and> length v = 64 \<and> length ch = 43 \<and>
    (\<forall>w. ValidateCodeChallenge w ch \<longleftrightarrow> w \<noteq> [] \<and> Sum256 (bytes_of w) = Sum256 (bytes_of v))"
proof -
  have "length bs = 64" using assms by (auto simp: random_ok_def)
  then have l: "length (RawURLEncoding bs) = 86" by (simp add: length_RawURLEncoding)
  let ?v = "take 64 (RawURLEncoding bs)" let ?ch = "RawURLEncoding (Sum256 (bytes_of ?v))"
  have "GeneratePKCE rnd uuid = Inr (?v, ?ch, ''S256'')"
    using l assms(2) by (simp add: GeneratePKCE_def generateRandomString_def GenerateCodeChallenge_def Let_def)
  moreover have "length ?ch = 43" by (simp add: length_RawURLEncoding)
  moreover from this have "?ch \<noteq> []" by (metis length_0_conv zero_neq_numeral)
  moreover have "length ?v = 64" using l by simp
  moreover from calculation have "\<forall>w. ValidateCodeChallenge w ?ch \<longleftrightarrow> w \<noteq> [] \<and> Sum256 (bytes_of w) = Sum256 (bytes_of ?v)"
    by (simp add: ValidateCodeChallenge_def RawURLEncoding_inj)
  ultimately show ?thesis by blast
qed

section \<open>What a started authorization satisfies\<close>

lemma check_scopes_allowed: "check_scopes allowed scs = Inr vs \<Longrightarrow> set vs \<subseteq> set allowed"
proof (induction scs arbitrary: vs)
  case (Cons sc scs)
  then show ?case by (auto simp: Let_def split: if_splits)
qed simp

definition redirect_ok :: "(string \<Rightarrow> URL option) \<Rightarrow> string list \<Rightarrow> string \<Rightarrow> bool" where
  "redirect_ok pu uris red \<longleftrightarrow> red \<in> set uris \<or>
     (\<exists>x a y. pu red = Some x \<and> isLoopback (uHostname x) \<and> a \<in> set uris \<and> pu a = Some y \<and> isLoopback (uHostname y) \<and>
        uPath y = uPath x \<and> uScheme y = uScheme x)"

text \<open>
  C30. A started authorization names a registered client, a redirect URI that is registered or is a loopback address
  with a registered path and scheme, scopes the client may ask for, a state of 16 characters or more, and an S256
  challenge.
\<close>

theorem authorization_checked:
  assumes "StartAuthorizationFlow cfg pu rnd cl red st sc ch me did now s = (Inr r, s')"
  shows "\<exists>client vs. map_of registeredClients cl = Some client \<and> redirect_ok pu (cl_RedirectURIs client) red \<and>
    qScope r = Join vs '' '' \<and> set vs \<subseteq> set (cl_AllowedScopes client) \<and> length ch = 43 \<and> me = ''S256'' \<and> 16 \<le> length st"
proof -
  note c = StartAuthorizationFlow_cases [OF assms]
  then obtain client where cl: "map_of registeredClients cl = Some client"
    "isRedirectURIAllowed pu red (cl_RedirectURIs client)" "validateScope sc (cl_AllowedScopes client) = Inr (qScope r)" by blast
  have red: "redirect_ok pu (cl_RedirectURIs client) red"
    using cl(2) by (auto simp: isRedirectURIAllowed_def redirect_ok_def list_ex_iff split: if_splits option.splits)
  have "\<exists>vs. qScope r = Join vs '' '' \<and> set vs \<subseteq> set (cl_AllowedScopes client)"
  proof (cases "sc = []")
    case True
    then show ?thesis using cl(3) by (intro exI [of _ "[]"]) (simp add: validateScope_def)
  next
    case False
    then obtain vs where "check_scopes (cl_AllowedScopes client) (Split sc (CHR '' '')) = Inr vs" "Join vs '' '' = qScope r"
      using cl(3) by (auto simp: validateScope_def)
    then show ?thesis using check_scopes_allowed by (intro exI [of _ vs]) simp
  qed
  then show ?thesis using c cl(1) red by blast
qed

section \<open>User codes stay\<close>

lemma expire_device_user: "uc \<noteq> [] \<Longrightarrow> map_of (byUser (expire_device cd s)) uc = map_of (byUser s) uc"
  by (auto simp: expire_device_def Let_def sanitizeDeviceRequest_def delete_conv' split: option.split)

lemma fold_expire_user: "uc \<noteq> [] \<Longrightarrow> map_of (byUser (fold expire_device cds s)) uc = map_of (byUser s) uc"
  by (induction cds arbitrary: s) (simp_all add: expire_device_user)

text \<open>
  Neither the clean-up of expired requests nor a deletion removes a user code from the store.
\<close>

theorem user_codes_never_removed:
  assumes "uc \<noteq> []"
  shows "map_of (byUser (cleanupExpired now s)) uc = map_of (byUser s) uc \<and>
    map_of (byUser (Delete_dev dc s)) uc = map_of (byUser s) uc"
proof -
  have b: "map_of (byUser (device_bucket n b x)) uc = map_of (byUser x) uc" for n b x
    using assms by (simp add: device_bucket_def fold_expire_user split: prod.split)
  have "map_of (byUser (fold (device_bucket n) bs x)) uc = map_of (byUser x) uc" for n bs x
    by (induction bs arbitrary: x) (simp_all add: b)
  moreover have "byUser (fold (auth_bucket n) bs x) = byUser x" for n bs x
    using fold_auth_bucket_part [of n bs x] by (simp add: dev_part_def)
  ultimately have "map_of (byUser (cleanupExpired now s)) uc = map_of (byUser s) uc"
    by (simp add: cleanupExpired_def Let_def)
  moreover have "map_of (byUser (Delete_dev dc s)) uc = map_of (byUser s) uc"
    using assms by (auto simp: Delete_dev_def Let_def sanitizeDeviceRequest_def untrackDeviceExpiration_def
        delete_conv' split: option.split)
  ultimately show ?thesis by blast
qed

section \<open>Examples\<close>

definition oauth_demo_random :: random where
  "oauth_demo_random n = Some (replicate n 7)"

definition oauth_demo_sign :: signer where
  "oauth_demo_sign c = Inr (cUserID c)"

definition oauth_demo_clock :: "nat \<Rightarrow> gotime" where
  "oauth_demo_clock i = 100 * second"

definition oauth_demo_device :: DeviceRequest where
  "oauth_demo_device = \<lparr>dDeviceCode = [], dUserCode = [], dStatus = StatusPending, dClientID = [], dDeviceID = [],
     dUserID = [], dEmail = [], dName = [], dTenantID = [], dTier = [], dAccessToken = [], dCreatedAt = 0,
     dExpiresAt = 0, dLastPolledAt = 0\<rparr>"

definition oauth_demo_auth :: AuthorizationRequest where
  "oauth_demo_auth = \<lparr>qClientID = [], qRedirectURI = [], qState = [], qScope = [], qCodeChallenge = [],
     qCodeChallengeMethod = [], qDeviceID = [], qAuthorizationCode = [], qUserID = [], qEmail = [], qName = [],
     qTenantID = [], qTier = [], qCreatedAt = 0, qExpiresAt = 0\<rparr>"

definition oauth_demo_store :: SecureMemoryStore where
  "oauth_demo_store = NewSecureMemoryStore (\<lambda>_. oauth_demo_device) (\<lambda>_. oauth_demo_auth)"

lemma oauth_demo_env: "random_ok oauth_demo_random" "signs oauth_demo_sign" "in_time oauth_demo_clock (0 + DeviceCodeLifetime DefaultConfig)"
  "MinPollInterval DefaultConfig \<le> oauth_demo_clock 2" "MinPollInterval DefaultConfig < 2 ^ 63"
  by (auto simp: random_ok_def oauth_demo_random_def signs_def oauth_demo_sign_def in_time_def oauth_demo_clock_def DefaultConfig_def
      minute_def second_def)

lemma oauth_demo_device_start:
  "\<exists>r s1. StartDeviceFlow DefaultConfig oauth_demo_random oauth_demo_random [] ''agent'' 0 oauth_demo_store = (Inr r, s1)"
proof -
  have "8 \<le> length (Base32_Std (replicate 5 7))" using Base32_Std_prefix [of 8 "replicate 5 7"] by simp
  then show ?thesis
    by (simp add: StartDeviceFlow_def DefaultConfig_def generateDeviceCode_def generateUserCode_def oauth_demo_random_def
        go_div_def Let_def)
qed

lemma oauth_demo_device_run:
  "\<exists>dc tok uc s. oauth_run DefaultConfig oauth_demo_sign (\<lambda>_. None)
     ([] @ DeviceToken dc tok # [DeviceApproved uc ''u1'' ''u1@x.org'' ''Ann'' ''t1'' ''pro'', DeviceStarted dc uc ''agent'']) s"
proof -
  obtain r s1 where start: "StartDeviceFlow DefaultConfig oauth_demo_random oauth_demo_random [] ''agent'' 0 oauth_demo_store = (Inr r, s1)"
    using oauth_demo_device_start by blast
  from device_flow [OF start oauth_demo_env(1,3,3,4,5,2)] obtain s2 s3 tok where
    a: "AuthorizeDevice oauth_demo_clock (rUserCode r) ''u1'' ''u1@x.org'' ''Ann'' ''t1'' ''pro'' s1 = (Inr (), s2)"
    and c: "poll_check DefaultConfig oauth_demo_clock (rDeviceCode r) s2 = (Inr (), s3)"
    and i: "fst (poll_issue DefaultConfig oauth_demo_sign ''id'' oauth_demo_clock (rDeviceCode r) s3) = Inr tok" by blast
  have "oauth_run DefaultConfig oauth_demo_sign (\<lambda>_. None) [] oauth_demo_store" unfolding oauth_demo_store_def by (rule oauth_run.init)
  then have "oauth_run DefaultConfig oauth_demo_sign (\<lambda>_. None) [DeviceStarted (rDeviceCode r) (rUserCode r) ''agent''] s1"
    by (rule oauth_run.start [OF _ oauth_demo_env(1) start]) simp
  from oauth_run.approve [OF this a]
  have "oauth_run DefaultConfig oauth_demo_sign (\<lambda>_. None) [DeviceApproved (rUserCode r) ''u1'' ''u1@x.org'' ''Ann'' ''t1'' ''pro'',
      DeviceStarted (rDeviceCode r) (rUserCode r) ''agent''] s2" .
  from oauth_run.poll [OF this, of oauth_demo_clock "rDeviceCode r"] c
  have run: "oauth_run DefaultConfig oauth_demo_sign (\<lambda>_. None) [DeviceApproved (rUserCode r) ''u1'' ''u1@x.org'' ''Ann'' ''t1'' ''pro'',
      DeviceStarted (rDeviceCode r) (rUserCode r) ''agent''] s3" by simp
  obtain s4 where "poll_issue DefaultConfig oauth_demo_sign ''id'' oauth_demo_clock (rDeviceCode r) s3 = (Inr tok, s4)"
    using i by (metis prod.collapse)
  from oauth_run.issue [OF run this] show ?thesis by auto
qed


theorem device_flow_completes_witness:
  "\<exists>r s1 s2 tok. StartDeviceFlow DefaultConfig oauth_demo_random oauth_demo_random [] ''agent'' 0 oauth_demo_store = (Inr r, s1) \<and>
     AuthorizeDevice oauth_demo_clock (rUserCode r) ''u1'' ''u1@x.org'' ''Ann'' ''t1'' ''pro'' s1 = (Inr (), s2) \<and>
     fst (PollDeviceToken DefaultConfig oauth_demo_sign ''id'' oauth_demo_clock (rDeviceCode r) s2) = Inr tok"
proof -
  obtain r s1 where start: "StartDeviceFlow DefaultConfig oauth_demo_random oauth_demo_random [] ''agent'' 0 oauth_demo_store = (Inr r, s1)"
    using oauth_demo_device_start by blast
  from device_flow_completes [OF start oauth_demo_env(1,3,3,4,5,2)] start show ?thesis by blast
qed

definition oauth_demo_verifier :: string where
  "oauth_demo_verifier = ''dBjftJeZ4CVP-mB92K27uhbUJU1p1r_wW1gFWFOEjXk''"

lemma oauth_demo_challenge:
  "length (fst (GenerateCodeChallenge oauth_demo_verifier)) = 43"
  "ValidateCodeChallenge oauth_demo_verifier (fst (GenerateCodeChallenge oauth_demo_verifier))"
proof -
  show l: "length (fst (GenerateCodeChallenge oauth_demo_verifier)) = 43"
    by (simp add: GenerateCodeChallenge_def length_RawURLEncoding)
  then have "fst (GenerateCodeChallenge oauth_demo_verifier) \<noteq> []" by (metis length_0_conv zero_neq_numeral)
  then show "ValidateCodeChallenge oauth_demo_verifier (fst (GenerateCodeChallenge oauth_demo_verifier))"
    by (simp add: ValidateCodeChallenge_def GenerateCodeChallenge_def oauth_demo_verifier_def)
qed

definition oauth_demo_code_start :: "(oauth_error + AuthorizationRequest) \<times> SecureMemoryStore" where
  "oauth_demo_code_start = StartAuthorizationFlow DefaultConfig (\<lambda>_. None) oauth_demo_random ''wantastic-agent-client''
     ''https://localhost/callback'' ''0123456789abcdef'' [] (fst (GenerateCodeChallenge oauth_demo_verifier)) ''S256'' ''agent'' 0 oauth_demo_store"

lemma oauth_demo_code_started: "\<exists>r s1. oauth_demo_code_start = (Inr r, s1)"
proof -
  have "fst (GenerateCodeChallenge oauth_demo_verifier) \<noteq> []" using oauth_demo_challenge(1) by (metis length_0_conv zero_neq_numeral)
  then show ?thesis
    by (simp add: oauth_demo_code_start_def StartAuthorizationFlow_def registeredClients_def isRedirectURIAllowed_def
        oauth_demo_challenge(1) validateScope_def generateSecureAuthorizationCode_def oauth_demo_random_def Let_def)
qed

theorem code_flow_completes_witness:
  "\<exists>r s1 s2 tok. oauth_demo_code_start = (Inr r, s1) \<and>
     AuthorizeAuthorizationCode oauth_demo_clock (qAuthorizationCode r) ''u1'' ''u1@x.org'' ''Ann'' ''t1'' ''pro'' s1 = (Inr (), s2) \<and>
     fst (ExchangeAuthorizationCode DefaultConfig oauth_demo_sign ''id'' oauth_demo_clock (qAuthorizationCode r) oauth_demo_verifier
       ''https://localhost/callback'' ''wantastic-agent-client'' s2) = Inr tok"
proof -
  obtain r s1 where start: "oauth_demo_code_start = (Inr r, s1)" using oauth_demo_code_started by blast
  from code_flow_completes [OF start [unfolded oauth_demo_code_start_def] oauth_demo_env(3,3) oauth_demo_challenge(2) _ oauth_demo_env(2),
      of "''u1''" "''u1@x.org''" "''Ann''" "''t1''" "''pro''" "''id''"] start
  show ?thesis by auto
qed

lemma oauth_demo_code_run:
  "\<exists>cd tok s. oauth_run DefaultConfig oauth_demo_sign (\<lambda>_. None)
     ([] @ CodeToken cd oauth_demo_verifier ''https://localhost/callback'' ''wantastic-agent-client'' tok #
      [CodeApproved cd ''u1'' ''u1@x.org'' ''Ann'' ''t1'' ''pro'',
       CodeStarted cd ''wantastic-agent-client'' ''https://localhost/callback'' (fst (GenerateCodeChallenge oauth_demo_verifier)) ''agent'']) s"
proof -
  obtain r s1 where start: "oauth_demo_code_start = (Inr r, s1)" using oauth_demo_code_started by blast
  let ?cd = "qAuthorizationCode r"
  have u: "''u1'' \<noteq> []" by simp
  from code_flow [OF start [unfolded oauth_demo_code_start_def] oauth_demo_env(3,3) oauth_demo_challenge(2) u oauth_demo_env(2)] obtain s2 tok where
    a: "AuthorizeAuthorizationCode oauth_demo_clock ?cd ''u1'' ''u1@x.org'' ''Ann'' ''t1'' ''pro'' s1 = (Inr (), s2)"
    and e: "fst (ExchangeAuthorizationCode DefaultConfig oauth_demo_sign ''id'' oauth_demo_clock ?cd oauth_demo_verifier
       ''https://localhost/callback'' ''wantastic-agent-client'' s2) = Inr tok" by blast
  have "oauth_run DefaultConfig oauth_demo_sign (\<lambda>_. None) [] oauth_demo_store" unfolding oauth_demo_store_def by (rule oauth_run.init)
  from oauth_run.code_start [OF this start [unfolded oauth_demo_code_start_def]]
  have "oauth_run DefaultConfig oauth_demo_sign (\<lambda>_. None) [CodeStarted ?cd ''wantastic-agent-client'' ''https://localhost/callback''
      (fst (GenerateCodeChallenge oauth_demo_verifier)) ''agent''] s1" by simp
  note run = oauth_run.code_approve [OF this a]
  obtain s3 where "ExchangeAuthorizationCode DefaultConfig oauth_demo_sign ''id'' oauth_demo_clock ?cd oauth_demo_verifier
       ''https://localhost/callback'' ''wantastic-agent-client'' s2 = (Inr tok, s3)" using e by (metis prod.collapse)
  from oauth_run.exchange [OF run this] show ?thesis by auto
qed


definition oauth_demo_granted :: SecureMemoryStore where
  "oauth_demo_granted = CreateAuthorization (oauth_demo_auth\<lparr>qAuthorizationCode := ''auth_x'', qCodeChallenge := fst (GenerateCodeChallenge oauth_demo_verifier),
     qUserID := ''u1'', qTenantID := ''t1'', qExpiresAt := 1000 * second\<rparr>) oauth_demo_store"

lemma oauth_demo_granted_check:
  "exchange_check oauth_demo_clock ''auth_x'' oauth_demo_verifier [] [] oauth_demo_granted = (Inr 0, oauth_demo_granted)"
proof -
  have "oauth_demo_verifier \<noteq> []" by (simp add: oauth_demo_verifier_def)
  then show ?thesis
    using oauth_demo_challenge(2)
    by (simp add: exchange_check_def oauth_demo_granted_def CreateAuthorization_def trackAuthExpiration_def set_auth_def
        oauth_demo_store_def NewSecureMemoryStore_def GetAuthorizationByCode_def auth_IsExpired_def After_def oauth_demo_clock_def
        second_def oauth_demo_auth_def Let_def)
qed

theorem exchange_not_atomic_witness:
  "\<exists>tok1 tok2 c s1. ExchangeAuthorizationCode DefaultConfig oauth_demo_sign ''a'' oauth_demo_clock ''auth_x'' oauth_demo_verifier [] [] oauth_demo_granted = (Inr tok1, s1) \<and>
     exchange_token DefaultConfig oauth_demo_sign ''b'' oauth_demo_clock 0 s1 = Inr tok2 \<and> cTenantID c = ''t1'' \<and> oauth_demo_sign c = Inr (tAccessToken tok2)"
proof -
  have "qTenantID (auth_heap oauth_demo_granted 0) = ''t1''"
    by (simp add: oauth_demo_granted_def CreateAuthorization_def trackAuthExpiration_def set_auth_def oauth_demo_store_def
        NewSecureMemoryStore_def oauth_demo_auth_def Let_def)
  then show ?thesis
    using exchange_not_atomic [OF oauth_demo_granted_check oauth_demo_env(2), of DefaultConfig "''a''" "''b''" oauth_demo_clock] by auto
qed

theorem pkce_roundtrip_witness:
  "\<exists>v ch. GeneratePKCE oauth_demo_random [] = Inr (v, ch, ''S256'') \<and> ValidateCodeChallenge v ch"
proof -
  have "oauth_demo_random 64 = Some (replicate 64 7)" by (simp add: oauth_demo_random_def)
  from pkce_roundtrip [OF oauth_demo_env(1) this, of "[]"] obtain v ch where
    *: "GeneratePKCE oauth_demo_random [] = Inr (v, ch, ''S256'')" "length v = 64"
    "\<forall>w. ValidateCodeChallenge w ch \<longleftrightarrow> w \<noteq> [] \<and> Sum256 (bytes_of w) = Sum256 (bytes_of v)" by blast
  have "v \<noteq> []" using *(2) by auto
  with * show ?thesis by blast
qed

theorem authorization_checked_witness:
  "\<exists>r s1 vs. oauth_demo_code_start = (Inr r, s1) \<and> qScope r = Join vs '' '' \<and>
     set vs \<subseteq> {''org:create_api_key'', ''user:profile'', ''device:register''}"
proof -
  obtain r s1 where start: "oauth_demo_code_start = (Inr r, s1)" using oauth_demo_code_started by blast
  from authorization_checked [OF start [unfolded oauth_demo_code_start_def]] start show ?thesis
    by (auto simp: registeredClients_def)
qed

definition oauth_demo_two_users :: SecureMemoryStore where
  "oauth_demo_two_users = Create (oauth_demo_device\<lparr>dDeviceCode := ''dc'', dUserCode := ''ABCD-EFGH'', dExpiresAt := 1\<rparr>) oauth_demo_store"

theorem user_codes_never_removed_witness:
  "map_of (byDevice (cleanupExpired (100 * second) oauth_demo_two_users)) ''dc'' = None \<and>
   map_of (byUser (cleanupExpired (100 * second) oauth_demo_two_users)) ''ABCD-EFGH'' = Some 0"
proof -
  have "map_of (byUser oauth_demo_two_users) ''ABCD-EFGH'' = Some 0"
    by (simp add: oauth_demo_two_users_def Create_frame oauth_demo_store_def NewSecureMemoryStore_def)
  then show ?thesis
    using user_codes_never_removed [of "''ABCD-EFGH''" "100 * second" oauth_demo_two_users "''dc''"]
    by (simp add: cleanupExpired_def oauth_demo_two_users_def Create_def trackDeviceExpiration_def track_def set_dev_def
        oauth_demo_store_def NewSecureMemoryStore_def device_bucket_def expire_device_def Unix_def second_def oauth_demo_device_def
        sanitizeDeviceRequest_def Let_def)
qed

section \<open>The format of user codes\<close>

lemma ReplaceAll_none: "c \<notin> set s \<Longrightarrow> ReplaceAll s [c] new = s"
proof -
  assume "c \<notin> set s"
  then have "replace_from 0 s [c] new = s"
    by (induction s) (auto simp: HasPrefix_def)
  then show ?thesis by (simp add: ReplaceAll_def)
qed

lemma b32_chars: "\<forall>c\<in>set b32_alphabet. upper_char c = c \<and> c \<noteq> CHR ''=''"
  by code_simp

text \<open>
  A user code of \<open>len\<close> characters is made of base32 characters with a hyphen in the middle; generating it
  from the random bytes never fails.
\<close>

theorem user_code_format:
  assumes "random_ok rnd" and "4 \<le> len" and "rnd (nat (go_div (len * 5 + 7) 8)) = Some bs"
  shows "\<exists>x y. generateUserCode len rnd = Inr (x @ ''-'' @ y) \<and> set x \<subseteq> set b32_alphabet \<and> set y \<subseteq> set b32_alphabet \<and>
    length x = nat len div 2 \<and> length x + length y = nat len"
proof -
  let ?n = "nat len" and ?e = "Base32_Std bs"
  have d: "go_div (len * 5 + 7) 8 = (len * 5 + 7) div 8" using assms(2) by (intro go_div_pos) simp_all
  then have l: "length bs = nat ((len * 5 + 7) div 8)" using assms(1,3) by (simp add: random_ok_def)
  have "?n \<le> (8 * length bs + 4) div 5" unfolding l using assms(2) by linarith
  note p = Base32_Std_prefix [OF this]
  let ?t = "take ?n ?e"
  have up: "ToUpper ?t = ?t" unfolding ToUpper_def by (rule map_idI) (use p b32_chars in blast)
  have "CHR ''='' \<notin> set ?t" using p b32_chars by blast
  then have r: "ReplaceAll (ToUpper ?t) ''='' [] = ?t" unfolding up by (rule ReplaceAll_none)
  have lt: "length ?t = ?n" using p by simp
  let ?m = "?n div 2"
  have "generateUserCode len rnd = Inr (take ?m ?t @ ''-'' @ drop ?m ?t)"
    using assms(2,3) p lt by (simp add: generateUserCode_def Let_def r hyphenate_def del: take_take)
  moreover have "set (take ?m ?t) \<subseteq> set b32_alphabet" "set (drop ?m ?t) \<subseteq> set b32_alphabet"
    using p set_take_subset [of ?m ?t] set_drop_subset [of ?m ?t] by blast+
  moreover have "length (take ?m ?t) = ?m" "length (drop ?m ?t) = ?n - ?m" using lt by simp_all
  moreover have "length (take ?m ?t) + length (drop ?m ?t) = ?n" using lt by simp
  ultimately show ?thesis by blast
qed

theorem user_code_format_witness:
  "\<exists>x y. generateUserCode 8 oauth_demo_random = Inr (x @ ''-'' @ y) \<and> length x = 4 \<and> length y = 4"
proof -
  have "oauth_demo_random (nat (go_div (8 * 5 + 7) 8)) = Some (replicate 5 7)" by (simp add: oauth_demo_random_def go_div_def)
  from user_code_format [OF oauth_demo_env(1) _ this] show ?thesis by fastforce
qed

end
