(* ===== verification/Lz4.thy ===== *)
theory Lz4
  imports Prelude
begin

text \<open>
  The LZ4 block codec of \<open>src/internal/wusp/interface.go\<close> (\<open>lz4State\<close>). The output buffer of \<open>compress\<close>
  is the list of the bytes written so far: \<open>compress_bound\<close> shows that the preallocated buffer is always
  long enough. The reading cursor of \<open>decompress\<close> is the list of the bytes left and its output the
  list of the bytes written; a match only copies bytes that are already written. A slice \<open>nil\<close> with
  an error is \<open>Inl\<close>.

  The main results: \<open>decompress\<close> inverts \<open>compress\<close>, and whatever \<open>decompress\<close> accepts has the announced size.
\<close>

unbundle bit_operations_syntax

section \<open>Little-endian numbers\<close>

definition put16 :: "16 word \<Rightarrow> byte list" where
  "put16 w = [ucast w, ucast (drop_bit 8 w)]"

definition get16 :: "byte list \<Rightarrow> 16 word" where
  "get16 bs = ucast (bs ! 0) OR push_bit 8 (ucast (bs ! 1))"

section \<open>Compression\<close>

definition lz4hash4 :: "byte list \<Rightarrow> 32 word" where
  "lz4hash4 b =
     (let v = ucast (b ! 0) OR push_bit 8 (ucast (b ! 1)) OR push_bit 16 (ucast (b ! 2)) OR push_bit 24 (ucast (b ! 3))
      in drop_bit 20 (v * 2654435761))"

text \<open>The bytes that continue a length of 15 or more.\<close>

function overflow_bytes :: "nat \<Rightarrow> byte list" where
  "overflow_bytes rem = (if 255 \<le> rem then 255 # overflow_bytes (rem - 255) else [of_nat rem])"
  by auto
termination by (relation "measure id") auto

declare overflow_bytes.simps [simp del]

text \<open>The new token byte and the bytes emitted.\<close>

definition lz4WriteLen :: "byte \<Rightarrow> bool \<Rightarrow> nat \<Rightarrow> byte \<times> byte list" where
  "lz4WriteLen tok isHigh len =
     (let nibble = (if 15 \<le> len then 15 else of_nat len :: byte);
          extra = (if 15 \<le> len then overflow_bytes (len - 15) else [])
      in (if isHigh then (tok AND 0x0F) OR push_bit 4 nibble else (tok AND 0xF0) OR nibble, extra))"

text \<open>The loop that extends a match from \<open>ml\<close> bytes.\<close>

function match_len :: "byte list \<Rightarrow> nat \<Rightarrow> nat \<Rightarrow> nat \<Rightarrow> nat \<Rightarrow> nat" where
  "match_len src ip ref maxML ml =
     (if ml < maxML \<and> src ! (ip + ml) = src ! (ref + ml) then match_len src ip ref maxML (Suc ml) else ml)"
  by auto
termination by (relation "measure (\<lambda>(src, ip, ref, maxML, ml). maxML - ml)") auto

declare match_len.simps [simp del]

text \<open>One sequence: token, literals, offset, match length.\<close>

definition lz4_sequence :: "byte list \<Rightarrow> nat \<Rightarrow> nat \<Rightarrow> byte list" where
  "lz4_sequence lits offset ml =
     (let (tok1, litx) = lz4WriteLen 0 True (length lits);
          (tok2, mlx) = lz4WriteLen tok1 False (ml - 4)
      in tok2 # litx @ lits @ put16 (of_nat offset) @ mlx)"

definition lz4_last :: "byte list \<Rightarrow> byte list" where
  "lz4_last lits = (let (tok, litx) = lz4WriteLen 0 True (length lits) in tok # litx @ lits)"

definition hash_at :: "byte list \<Rightarrow> nat \<Rightarrow> 32 word" where
  "hash_at src ip = lz4hash4 (drop ip src)"

lemma match_len_ge: "ml \<le> match_len src ip ref maxML ml"
proof (induction src ip ref maxML ml rule: match_len.induct)
  case (1 src ip ref maxML ml)
  then show ?case by (subst match_len.simps) (auto intro: Suc_leD)
qed

text \<open>
  The main loop; \<open>tab\<close> holds positions plus one, in the code as an \<open>int32\<close>, so the loop is that of the code for
  inputs shorter than 2 GiB (a frame of the program is far shorter). It returns the start of the pending literals and the bytes written.
\<close>

function compress_loop :: "byte list \<Rightarrow> (32 word \<Rightarrow> nat) \<Rightarrow> nat \<Rightarrow> nat \<Rightarrow> byte list \<Rightarrow> nat \<times> byte list" where
  "compress_loop src tab ip anchor out =
     (if ip + 9 \<le> length src then
        (let h = hash_at src ip; entry = tab h; ref = entry - 1; tab1 = tab(h := Suc ip) in
         if 0 < entry \<and> ref < ip \<and> ip - ref \<le> 65535 \<and> take 4 (drop ref src) = take 4 (drop ip src) then
           (let ml = match_len src ip ref (min (length src - ip) (65535 + 4)) 4;
                out1 = out @ lz4_sequence (take (ip - anchor) (drop anchor src)) (ip - ref) ml;
                ip1 = ip + ml
            in compress_loop src (if ip1 + 9 \<le> length src then tab1(hash_at src ip1 := Suc ip1) else tab1) ip1 ip1 out1)
         else compress_loop src tab1 (Suc ip) anchor out)
      else (anchor, out))"
  by pat_completeness auto
termination
proof (relation "measure (\<lambda>(src, tab, ip, anchor, out). length src - ip)", goal_cases)
  case (2 src tab ip anchor out h entry ref tab1 ml out1 ip1)
  have "4 \<le> ml" unfolding 2 by (rule match_len_ge)
  then have "length src - ip1 < length src - ip" using 2(1) unfolding \<open>ip1 = ip + ml\<close> by linarith
  then show ?case by simp
qed auto

declare compress_loop.simps [simp del]

definition compress :: "byte list \<Rightarrow> byte list option" where
  "compress src =
     (if length src < 10 then None
      else let (anchor, out) = compress_loop src (\<lambda>_. 0) 0 0 [];
               out1 = out @ lz4_last (drop anchor src)
           in if length src \<le> length out1 then None else Some out1)"

section \<open>Decompression\<close>

datatype lz4_error = errTruncated | ZeroOffset | SizeMismatch

text \<open>The loop that reads the bytes continuing a length.\<close>

fun read_extra :: "byte list \<Rightarrow> (nat \<times> byte list) option" where
  "read_extra [] = None"
| "read_extra (extra # src) =
     (if extra < 255 then Some (unat extra, src)
      else case read_extra src of None \<Rightarrow> None | Some (n, rest) \<Rightarrow> Some (unat extra + n, rest))"

definition read_len :: "nat \<Rightarrow> byte list \<Rightarrow> (nat \<times> byte list) option" where
  "read_len nibble src =
     (if nibble = 15 then case read_extra src of None \<Rightarrow> None | Some (n, rest) \<Rightarrow> Some (15 + n, rest)
      else Some (nibble, src))"

fun copy_match :: "nat \<Rightarrow> nat \<Rightarrow> byte list \<Rightarrow> byte list" where
  "copy_match offset 0 dst = dst"
| "copy_match offset (Suc n) dst = copy_match offset n (dst @ [dst ! (length dst - offset)])"

lemma read_extra_length: "read_extra src = Some (n, rest) \<Longrightarrow> length rest < length src"
  by (induction src arbitrary: n rest) (auto split: if_splits option.splits)

lemma read_len_length: "read_len k src = Some (n, rest) \<Longrightarrow> length rest \<le> length src"
  using read_extra_length by (auto simp: read_len_def split: if_splits option.splits dest: less_imp_le)

function decompress_loop :: "nat \<Rightarrow> byte list \<Rightarrow> byte list \<Rightarrow> lz4_error + byte list" where
  "decompress_loop rawSize [] dst = Inr dst"
| "decompress_loop rawSize (tok # src) dst =
     (case read_len (unat (drop_bit 4 tok)) src of
        None \<Rightarrow> Inl errTruncated
      | Some (litLen, src1) \<Rightarrow>
          if length src1 < litLen \<or> rawSize < length dst + litLen then Inl errTruncated
          else
            (let dst1 = dst @ take litLen src1; src2 = drop litLen src1 in
             if src2 = [] then Inr dst1
             else if length src2 < 2 then Inl errTruncated
             else
               (let offset = unat (get16 src2); src3 = drop 2 src2 in
                if offset = 0 then Inl ZeroOffset
                else case read_len (unat (tok AND 0x0F)) src3 of
                    None \<Rightarrow> Inl errTruncated
                  | Some (n, src4) \<Rightarrow>
                      (let ml = n + 4 in
                       if length dst1 < offset \<or> rawSize < length dst1 + ml then Inl errTruncated
                       else decompress_loop rawSize src4 (copy_match offset ml dst1)))))"
  by pat_completeness auto
termination
proof (relation "measure (\<lambda>(r, src, dst). length src)", goal_cases)
  case (2 rawSize tok src dst x litLen src1 dst1 src2 offset src3 y n src4)
  then have "read_len (unat (drop_bit 4 tok)) src = Some (litLen, src1)"
    "read_len (unat (tok AND 0x0F)) src3 = Some (n, src4)" by simp_all
  then have "length src1 \<le> length src" "length src4 \<le> length src3" by (simp_all add: read_len_length)
  moreover have "length src3 \<le> length src1" using 2 by simp
  ultimately show ?case by simp
qed auto

definition decompress :: "byte list \<Rightarrow> nat \<Rightarrow> lz4_error + byte list" where
  "decompress src rawSize =
     res_bind (decompress_loop rawSize src [])
       (\<lambda>dst. if length dst \<noteq> rawSize then Inl SizeMismatch else Inr dst)"

section \<open>Lengths and tokens\<close>

lemma read_extra_overflow: "read_extra (overflow_bytes n @ rest) = Some (n, rest)"
proof (induction n rule: overflow_bytes.induct)
  case (1 n)
  show ?case
  proof (cases "255 \<le> n")
    case True
    then show ?thesis using 1 by (subst overflow_bytes.simps) simp
  next
    case False
    then have "unat (of_nat n :: byte) = n" by (simp add: unat_of_nat)
    moreover from this False have "(of_nat n :: byte) < 255" by (simp add: word_less_nat_alt)
    ultimately show ?thesis using False by (subst overflow_bytes.simps) simp
  qed
qed

definition nibble :: "nat \<Rightarrow> nat" where
  "nibble n = (if 15 \<le> n then 15 else n)"

definition extra :: "nat \<Rightarrow> byte list" where
  "extra n = (if 15 \<le> n then overflow_bytes (n - 15) else [])"

lemma read_len_nibble: "read_len (nibble n) (extra n @ rest) = Some (n, rest)"
  by (simp add: read_len_def nibble_def extra_def read_extra_overflow)

lemma token_table:
  "list_all (\<lambda>k. list_all (\<lambda>l. let t = ((0 AND 0x0F) OR push_bit 4 (of_nat k)) AND 0xF0 OR (of_nat l :: byte)
     in unat (drop_bit 4 t) = k \<and> unat (t AND 0x0F) = l) [0..<16]) [0..<16]"
  by code_simp

lemma last_token_table:
  "list_all (\<lambda>k. unat (drop_bit 4 ((0 AND 0x0F) OR push_bit 4 (of_nat k) :: byte)) = k) [0..<16]"
  by code_simp

lemma nibble_range: "nibble n \<in> set [0..<16]"
  by (auto simp: nibble_def)

lemma lz4WriteLen_eq:
  "lz4WriteLen tok isHigh n = (if isHigh then (tok AND 0x0F) OR push_bit 4 (of_nat (nibble n))
     else (tok AND 0xF0) OR of_nat (nibble n), extra n)"
  by (simp add: lz4WriteLen_def nibble_def extra_def Let_def)

lemma sequence_parts:
  obtains tok where "lz4_sequence lits offset ml =
      tok # extra (length lits) @ lits @ put16 (of_nat offset) @ extra (ml - 4)"
    "unat (drop_bit 4 tok) = nibble (length lits)" "unat (tok AND 0x0F) = nibble (ml - 4)"
proof -
  let ?t = "((0 AND 0x0F) OR push_bit 4 (of_nat (nibble (length lits)))) AND 0xF0 OR (of_nat (nibble (ml - 4)) :: byte)"
  have "unat (drop_bit 4 ?t) = nibble (length lits) \<and> unat (?t AND 0x0F) = nibble (ml - 4)"
    using token_table nibble_range [of "length lits"] nibble_range [of "ml - 4"]
    unfolding list_all_iff Let_def by blast
  moreover have "lz4_sequence lits offset ml = ?t # extra (length lits) @ lits @ put16 (of_nat offset) @ extra (ml - 4)"
    by (simp add: lz4_sequence_def lz4WriteLen_eq)
  ultimately show ?thesis using that by blast
qed

lemma last_parts:
  obtains tok where "lz4_last lits = tok # extra (length lits) @ lits" "unat (drop_bit 4 tok) = nibble (length lits)"
proof -
  let ?t = "(0 AND 0x0F) OR push_bit 4 (of_nat (nibble (length lits))) :: byte"
  have "unat (drop_bit 4 ?t) = nibble (length lits)"
    using last_token_table nibble_range [of "length lits"] unfolding list_all_iff by blast
  moreover have "lz4_last lits = ?t # extra (length lits) @ lits"
    by (simp add: lz4_last_def lz4WriteLen_eq)
  ultimately show ?thesis using that by blast
qed

section \<open>Matches\<close>

lemma match_len_spec:
  assumes "ml \<le> maxML" and "\<forall>j<ml. src ! (ip + j) = src ! (ref + j)"
  shows "match_len src ip ref maxML ml \<le> maxML \<and>
    (\<forall>j<match_len src ip ref maxML ml. src ! (ip + j) = src ! (ref + j))"
  using assms
proof (induction src ip ref maxML ml rule: match_len.induct)
  case (1 src ip ref maxML ml)
  show ?case
  proof (cases "ml < maxML \<and> src ! (ip + ml) = src ! (ref + ml)")
    case True
    then have "\<forall>j<Suc ml. src ! (ip + j) = src ! (ref + j)" using 1(3) less_Suc_eq by auto
    with 1(1) True have "match_len src ip ref maxML (Suc ml) \<le> maxML \<and>
        (\<forall>j<match_len src ip ref maxML (Suc ml). src ! (ip + j) = src ! (ref + j))" by simp
    then show ?thesis using True by (subst (1 2) match_len.simps) simp
  next
    case False
    then have "match_len src ip ref maxML ml = ml" by (subst match_len.simps) auto
    then show ?thesis using 1(2,3) by simp
  qed
qed

lemma copy_match_take:
  assumes "1 \<le> off" and "off \<le> ip" and "ip + n \<le> length src"
    and "\<forall>j<n. src ! (ip + j) = src ! (ip - off + j)"
  shows "copy_match off n (take ip src) = take (ip + n) src"
  using assms(2-4)
proof (induction n arbitrary: ip)
  case (Suc n)
  have "take ip src ! (ip - off) = src ! ip" using Suc.prems assms(1) by (auto dest: spec [of _ 0])
  then have t: "take ip src @ [take ip src ! (length (take ip src) - off)] = take (Suc ip) src"
    using Suc.prems by (simp add: take_Suc_conv_app_nth min_absorb2)
  have "\<forall>j<n. src ! (Suc ip + j) = src ! (Suc ip - off + j)"
  proof (intro allI impI)
    fix j assume "j < n"
    then have "src ! (ip + Suc j) = src ! (ip - off + Suc j)" using Suc.prems(3) by blast
    then show "src ! (Suc ip + j) = src ! (Suc ip - off + j)" using Suc.prems(1) by (simp add: Suc_diff_le)
  qed
  with Suc.IH [of "Suc ip"] Suc.prems show ?case using t by simp
qed simp

lemma get16_put16: "get16 (put16 w @ rest) = w"
proof -
  have "ucast (ucast w :: byte) OR push_bit 8 (ucast (ucast (drop_bit 8 w) :: byte)) = (w :: 16 word)"
    by (rule bit_word_eqI) (auto simp: bit_simps)
  then show ?thesis by (simp add: get16_def put16_def)
qed

section \<open>Decoding what was encoded\<close>

lemma decode_sequence:
  assumes "1 \<le> off" and "off \<le> 65535" and "off \<le> length dst + length lits" and "4 \<le> ml"
    and "length dst + length lits + ml \<le> raw"
  shows "decompress_loop raw (lz4_sequence lits off ml @ rest) dst =
    decompress_loop raw rest (copy_match off ml (dst @ lits))"
proof -
  obtain tok where seq: "lz4_sequence lits off ml = tok # extra (length lits) @ lits @ put16 (of_nat off) @ extra (ml - 4)"
    and hi: "unat (drop_bit 4 tok) = nibble (length lits)" and lo: "unat (tok AND 0x0F) = nibble (ml - 4)"
    by (rule sequence_parts [of lits off ml])
  define r1 where "r1 = put16 (of_nat off) @ extra (ml - 4) @ rest"
  have r1: "r1 \<noteq> []" "\<not> length r1 < 2" "drop 2 r1 = extra (ml - 4) @ rest" by (simp_all add: r1_def put16_def)
  have o: "unat (get16 r1) = off" using assms(2) by (simp add: r1_def get16_put16 unat_of_nat)
  have l1: "read_len (nibble (length lits)) (extra (length lits) @ lits @ r1) = Some (length lits, lits @ r1)"
    by (rule read_len_nibble)
  have l2: "read_len (nibble (ml - 4)) (extra (ml - 4) @ rest) = Some (ml - 4, rest)" by (rule read_len_nibble)
  have e: "lz4_sequence lits off ml @ rest = tok # (extra (length lits) @ lits @ r1)" by (simp add: seq r1_def)
  have n: "ml - 4 + 4 = ml" using assms(4) by simp
  show ?thesis unfolding e decompress_loop.simps hi l1 using assms r1 o lo l2 n by simp
qed

lemma decode_last:
  assumes "length dst + length lits \<le> raw"
  shows "decompress_loop raw (lz4_last lits) dst = Inr (dst @ lits)"
proof -
  obtain tok where e: "lz4_last lits = tok # extra (length lits) @ lits" "unat (drop_bit 4 tok) = nibble (length lits)"
    by (rule last_parts [of lits])
  have "read_len (nibble (length lits)) (extra (length lits) @ lits) = Some (length lits, lits)"
    by (rule read_len_nibble)
  then show ?thesis unfolding e decompress_loop.simps e(2) using assms by simp
qed

section \<open>The main loop\<close>

text \<open>The bytes written so far decode to the source up to the pending literals.\<close>

definition decodes_to :: "byte list \<Rightarrow> nat \<Rightarrow> byte list \<Rightarrow> bool" where
  "decodes_to src anchor out \<longleftrightarrow> anchor \<le> length src \<and> length out \<le> anchor + anchor div 255 \<and>
     (\<forall>rest. decompress_loop (length src) (out @ rest) [] = decompress_loop (length src) rest (take anchor src))"

lemma length_overflow: "length (overflow_bytes n) = n div 255 + 1"
proof (induction n rule: overflow_bytes.induct)
  case (1 n)
  then show ?case by (subst overflow_bytes.simps) (auto simp: le_div_geq)
qed

lemma length_extra: "length (extra n) \<le> 1 + n div 255" "n < 15 \<Longrightarrow> length (extra n) = 0"
  "15 \<le> n \<Longrightarrow> length (extra n) \<le> 1 + (n - 15) div 255"
  by (auto simp: extra_def length_overflow div_le_mono)

lemma length_sequence:
  assumes "4 \<le> ml"
  shows "length (lz4_sequence lits off ml) \<le> length lits + ml + length lits div 255"
proof -
  obtain tok where seq: "lz4_sequence lits off ml = tok # extra (length lits) @ lits @ put16 (of_nat off) @ extra (ml - 4)"
    by (rule sequence_parts [of lits off ml])
  have "4 + length (extra (ml - 4)) \<le> ml"
  proof (cases "ml < 19")
    case True
    then show ?thesis using assms length_extra(2) [of "ml - 4"] by simp
  next
    case False
    then have "length (extra (ml - 4)) \<le> 1 + (ml - 19) div 255" using length_extra(3) [of "ml - 4"] by simp
    also have "\<dots> \<le> 1 + (ml - 19)" by simp
    finally show ?thesis using False by simp
  qed
  then show ?thesis using length_extra(1) [of "length lits"] by (simp add: seq put16_def)
qed

lemma same_four:
  assumes "take 4 (drop ref src) = take 4 (drop ip src)" and "ref < ip" and "ip + 9 \<le> length src"
  shows "\<forall>j<4. src ! (ip + j) = src ! (ref + j)"
proof (intro allI impI)
  fix j :: nat assume j: "j < 4"
  have "take 4 (drop ref src) ! j = take 4 (drop ip src) ! j" using assms(1) by simp
  then show "src ! (ip + j) = src ! (ref + j)" using j assms(2,3) by simp
qed

lemma decodes_step:
  assumes inv: "decodes_to src anchor out" and a: "anchor \<le> ip" and ip: "ip + 9 \<le> length src" and ref: "ref < ip" "ip - ref \<le> 65535"
    and four: "take 4 (drop ref src) = take 4 (drop ip src)"
    and ml: "ml = match_len src ip ref (min (length src - ip) (65535 + 4)) 4"
  shows "decodes_to src (ip + ml) (out @ lz4_sequence (take (ip - anchor) (drop anchor src)) (ip - ref) ml)"
proof -
  have m: "ml \<le> min (length src - ip) (65535 + 4)" "\<forall>j<ml. src ! (ip + j) = src ! (ref + j)"
  proof -
    have "4 \<le> min (length src - ip) (65535 + 4)" using ip by simp
    from match_len_spec [OF this same_four [OF four ref(1) ip]]
    show "ml \<le> min (length src - ip) (65535 + 4)" "\<forall>j<ml. src ! (ip + j) = src ! (ref + j)"
      unfolding ml by blast+
  qed
  have m4: "4 \<le> ml" unfolding ml by (rule match_len_ge)
  let ?lits = "take (ip - anchor) (drop anchor src)"
  have l: "length ?lits = ip - anchor" using ip by simp
  have t: "take anchor src @ ?lits = take ip src" using a by (metis le_add_diff_inverse take_add)
  have "ml \<le> length src - ip" using m(1) by simp
  then have fin: "ip + ml \<le> length src" using ip by linarith
  have seq: "decompress_loop (length src) (lz4_sequence ?lits (ip - ref) ml @ rest) (take anchor src) =
      decompress_loop (length src) rest (take (ip + ml) src)" for rest
  proof -
    have "decompress_loop (length src) (lz4_sequence ?lits (ip - ref) ml @ rest) (take anchor src) =
        decompress_loop (length src) rest (copy_match (ip - ref) ml (take anchor src @ ?lits))"
      by (rule decode_sequence) (use ref a ip m4 fin l in auto)
    also have "copy_match (ip - ref) ml (take anchor src @ ?lits) = take (ip + ml) src"
      unfolding t by (rule copy_match_take) (use ref m(2) fin in auto)
    finally show ?thesis .
  qed
  have "length (out @ lz4_sequence ?lits (ip - ref) ml) \<le> anchor + anchor div 255 + (ip - anchor + ml + (ip - anchor) div 255)"
    using inv length_sequence [OF m4, of ?lits "ip - ref"] unfolding decodes_to_def l length_append by linarith
  also have "\<dots> \<le> ip + ml + (ip + ml) div 255"
    using a div_le_mono [of "anchor + (ip - anchor)" "ip + ml" 255] div_add1_eq [of anchor "ip - anchor" 255] by linarith
  finally show ?thesis using inv fin seq by (simp add: decodes_to_def)
qed

lemma compress_loop_decodes:
  assumes "decodes_to src anchor out" and "anchor \<le> ip"
  shows "decodes_to src (fst (compress_loop src tab ip anchor out)) (snd (compress_loop src tab ip anchor out))"
  using assms
proof (induction src tab ip anchor out rule: compress_loop.induct)
  case (1 src tab ip anchor out)
  let ?ref = "tab (hash_at src ip) - 1"
  let ?match = "0 < tab (hash_at src ip) \<and> ?ref < ip \<and> ip - ?ref \<le> 65535 \<and> take 4 (drop ?ref src) = take 4 (drop ip src)"
  consider (stop) "\<not> ip + 9 \<le> length src" | (match) "ip + 9 \<le> length src" ?match | (lit) "ip + 9 \<le> length src" "\<not> ?match" by blast
  then show ?case
  proof cases
    case stop
    then have "compress_loop src tab ip anchor out = (anchor, out)" by (subst compress_loop.simps) simp
    then show ?thesis using 1(3) by simp
  next
    case match
    let ?ml = "match_len src ip ?ref (min (length src - ip) (65535 + 4)) 4"
    let ?out = "out @ lz4_sequence (take (ip - anchor) (drop anchor src)) (ip - ?ref) ?ml"
    let ?tab = "if ip + ?ml + 9 \<le> length src
      then (tab(hash_at src ip := Suc ip))(hash_at src (ip + ?ml) := Suc (ip + ?ml)) else tab(hash_at src ip := Suc ip)"
    have eq: "compress_loop src tab ip anchor out = compress_loop src ?tab (ip + ?ml) (ip + ?ml) ?out"
      by (subst compress_loop.simps) (simp only: Let_def if_P [OF match(1)] if_P [OF match(2)])
    have d: "decodes_to src (ip + ?ml) ?out"
      by (rule decodes_step [OF 1(3,4) match(1) _ _ _ refl]) (use match(2) in blast)+
    show ?thesis unfolding eq
      by (rule "1.IH"(1) [OF match(1) refl refl refl refl match(2) refl refl refl d order_refl])
  next
    case lit
    have eq: "compress_loop src tab ip anchor out = compress_loop src (tab(hash_at src ip := Suc ip)) (Suc ip) anchor out"
      by (subst compress_loop.simps) (simp only: Let_def if_P [OF lit(1)] if_not_P [OF lit(2)])
    show ?thesis unfolding eq
      by (rule "1.IH"(2) [OF lit(1) refl refl refl refl lit(2) 1(3)]) (use 1(4) in simp)
  qed
qed

lemma compress_stream:
  assumes "compress_loop src (\<lambda>_. 0) 0 0 [] = (anchor, out)"
  shows "decompress_loop (length src) (out @ lz4_last (drop anchor src)) [] = Inr src"
    and "length (out @ lz4_last (drop anchor src)) \<le> length src + length src div 255 + 16"
proof -
  have "decodes_to src 0 []" by (simp add: decodes_to_def)
  from compress_loop_decodes [OF this, of 0 "\<lambda>_. 0"] have d: "decodes_to src anchor out" using assms by simp
  then have "decompress_loop (length src) (out @ lz4_last (drop anchor src)) [] =
      decompress_loop (length src) (lz4_last (drop anchor src)) (take anchor src)"
    by (simp add: decodes_to_def)
  also have "\<dots> = Inr (take anchor src @ drop anchor src)" by (rule decode_last) simp
  finally show "decompress_loop (length src) (out @ lz4_last (drop anchor src)) [] = Inr src" by simp
  let ?l = "drop anchor src"
  obtain tok where e: "lz4_last ?l = tok # extra (length ?l) @ ?l" by (rule last_parts [of ?l])
  have a: "anchor + length ?l = length src" "length out \<le> anchor + anchor div 255"
    using d by (simp_all add: decodes_to_def)
  have "length (lz4_last ?l) \<le> 2 + length ?l div 255 + length ?l"
    using length_extra(1) [of "length ?l"] unfolding e by simp
  moreover have "anchor div 255 + length ?l div 255 \<le> length src div 255"
    using div_add1_eq [of anchor "length ?l" 255] a(1) by simp
  ultimately show "length (out @ lz4_last ?l) \<le> length src + length src div 255 + 16"
    using a unfolding length_append by linarith
qed

lemma decompress_compress:
  assumes "compress src = Some out"
  shows "decompress out (length src) = Inr src" and "length out < length src"
proof -
  obtain anchor o1 where l: "compress_loop src (\<lambda>_. 0) 0 0 [] = (anchor, o1)" by force
  then have "out = o1 @ lz4_last (drop anchor src)" and len: "length out < length src"
    using assms by (auto simp: compress_def Let_def split: if_splits)
  then show "decompress out (length src) = Inr src" using compress_stream(1) [OF l] by (simp add: decompress_def)
  show "length out < length src" by (rule len)
qed

text \<open>
  For every source, what \<open>compress\<close> writes fits the buffer it preallocates, so no write is out of range; and
  if it returns a block, decompression restores the source from it and the block is shorter than the source.
\<close>

theorem lz4_roundtrip:
  "(case compress_loop src (\<lambda>_. 0) 0 0 [] of (anchor, out) \<Rightarrow>
      length (out @ lz4_last (drop anchor src)) \<le> length src + length src div 255 + 16) \<and>
   (compress src = Some out \<longrightarrow> decompress out (length src) = Inr src \<and> length out < length src)"
  using compress_stream(2) [of src] decompress_compress [of src out] by (auto split: prod.split)

lemma match_len_all:
  assumes "\<forall>j<maxML. src ! (ip + j) = src ! (ref + j)" and "ml \<le> maxML"
  shows "match_len src ip ref maxML ml = maxML"
  using assms
proof (induction src ip ref maxML ml rule: match_len.induct)
  case (1 src ip ref maxML ml)
  show ?case
  proof (cases "ml = maxML")
    case True
    then show ?thesis by (subst match_len.simps) simp
  next
    case False
    then have m: "ml < maxML" "src ! (ip + ml) = src ! (ref + ml)" using 1(2,3) by auto
    then have "match_len src ip ref maxML (Suc ml) = maxML" using 1(1,2) by simp
    then show ?thesis using m by (subst match_len.simps) simp
  qed
qed

definition lz4_demo :: "byte list" where
  "lz4_demo = replicate 20 7"

lemma lz4_demo_loop: "compress_loop lz4_demo (\<lambda>_. 0) 0 0 [] = (20, lz4_sequence [7] 1 19)"
proof -
  have h: "hash_at lz4_demo 1 = hash_at lz4_demo 0" by (simp add: hash_at_def lz4hash4_def lz4_demo_def)
  have ml: "match_len lz4_demo 1 0 19 4 = 19" by (rule match_len_all) (simp_all add: lz4_demo_def)
  have "compress_loop lz4_demo (\<lambda>_. 0) 0 0 [] = compress_loop lz4_demo ((\<lambda>_. 0)(hash_at lz4_demo 0 := 1)) 1 0 []"
    by (subst compress_loop.simps) (simp add: Let_def lz4_demo_def)
  also have "\<dots> = (20, lz4_sequence [7] 1 19)"
    using ml h by (subst compress_loop.simps) (simp add: Let_def lz4_demo_def, simp add: compress_loop.simps [of _ _ 20])
  finally show ?thesis .
qed

theorem lz4_roundtrip_witness:
  "\<exists>out. compress lz4_demo = Some out \<and> decompress out 20 = Inr lz4_demo"
proof -
  have "length (lz4_sequence [7] 1 19 @ lz4_last []) < 20"
    by (simp add: lz4_sequence_def lz4_last_def lz4WriteLen_def put16_def overflow_bytes.simps)
  moreover have "length lz4_demo = 20" by (simp add: lz4_demo_def)
  ultimately obtain out where o: "compress lz4_demo = Some out"
    by (simp add: compress_def lz4_demo_loop)
  from lz4_roundtrip [of lz4_demo out] show ?thesis using o by (simp add: lz4_demo_def)
qed

end
