(* ===== verification/Wire.thy ===== *)
theory Wire
  imports GoStrings Lz4
begin

text \<open>
  The primitives of the binary codec: variable-length and little-endian numbers of \<open>encoding/binary\<close>,
  and the write and read buffers \<open>wbuf\<close> and \<open>rbuf\<close> of \<open>src/internal/wusp/interface.go\<close>. A writer returns the
  bytes it appends; a reader takes the bytes left and returns the value and the bytes left after it.
  A slice expression or an allocation out of range is the error \<open>WirePanic\<close>.
\<close>

unbundle bit_operations_syntax

datatype wire_error =
    UnexpectedEOF
  | UvarintOverflow
  | BadMagic
  | BadVersion
  | TruncatedFrame
  | UnknownTag
  | Lz4Error lz4_error
  | WirePanic

type_synonym 'a reader = "byte list \<Rightarrow> wire_error + ('a \<times> byte list)"

section \<open>Numbers\<close>

text \<open>\<open>binary.PutUvarint\<close> and \<open>binary.Uvarint\<close>.\<close>

lemma drop_bit_7_less: "\<not> v < (0x80 :: 64 word) \<Longrightarrow> unat (drop_bit 7 v) < unat v"
proof -
  assume "\<not> v < 0x80"
  then have "128 \<le> unat v" by (simp add: word_less_nat_alt)
  moreover have "unat (drop_bit 7 v) = unat v div 128"
    by (simp add: drop_bit_eq_div unat_div_distrib)
  ultimately show ?thesis by simp
qed

function writeUvarint :: "64 word \<Rightarrow> byte list" where
  "writeUvarint v = (if v < 0x80 then [ucast v] else (ucast v OR 0x80) # writeUvarint (drop_bit 7 v))"
  by auto
termination by (relation "measure unat") (auto simp: drop_bit_7_less)

declare writeUvarint.simps [simp del]

fun uvarint_loop :: "nat \<Rightarrow> 64 word \<Rightarrow> nat \<Rightarrow> (64 word) reader" where
  "uvarint_loop i x s [] = Inl UnexpectedEOF"
| "uvarint_loop i x s (b # bs) =
     (if i = 10 then Inl UvarintOverflow
      else if b < 0x80 then
        (if i = 9 \<and> 1 < b then Inl UvarintOverflow else Inr (x OR push_bit s (ucast b), bs))
      else uvarint_loop (Suc i) (x OR push_bit s (ucast (b AND 0x7F))) (s + 7) bs)"

definition readUvarint :: "(64 word) reader" where
  "readUvarint r = uvarint_loop 0 0 0 r"

definition writeZigzag :: "64 word \<Rightarrow> byte list" where
  "writeZigzag v = writeUvarint (push_bit 1 v XOR signed_drop_bit 63 v)"

definition readZigzag :: "(64 word) reader" where
  "readZigzag r = res_bind (readUvarint r) (\<lambda>(u, r1). Inr (drop_bit 1 u XOR - (u AND 1), r1))"

definition put32 :: "32 word \<Rightarrow> byte list" where
  "put32 w = [ucast w, ucast (drop_bit 8 w), ucast (drop_bit 16 w), ucast (drop_bit 24 w)]"

definition get32 :: "byte list \<Rightarrow> 32 word" where
  "get32 bs = ucast (bs ! 0) OR push_bit 8 (ucast (bs ! 1)) OR push_bit 16 (ucast (bs ! 2)) OR push_bit 24 (ucast (bs ! 3))"

definition put64 :: "64 word \<Rightarrow> byte list" where
  "put64 w = map (\<lambda>i. ucast (drop_bit (8 * i) w)) [0..<8]"

definition get64 :: "byte list \<Rightarrow> 64 word" where
  "get64 bs = foldr (\<lambda>i v. push_bit (8 * i) (ucast (bs ! i)) OR v) [0..<8] 0"

section \<open>Bytes\<close>

definition readByte :: "byte reader" where
  "readByte r = (case r of [] \<Rightarrow> Inl UnexpectedEOF | b # bs \<Rightarrow> Inr (b, bs))"

definition readN :: "int \<Rightarrow> (byte list) reader" where
  "readN n r =
     (if int (length r) < n then Inl UnexpectedEOF
      else if n < 0 then Inl WirePanic
      else Inr (take (nat n) r, drop (nat n) r))"

definition writeBlob :: "byte list \<Rightarrow> byte list" where
  "writeBlob bs = writeUvarint (of_nat (length bs)) @ bs"

definition readBlob :: "(byte list) reader" where
  "readBlob r = res_bind (readUvarint r) (\<lambda>(n, r1). readN (sint n) r1)"

definition byte_of :: "char \<Rightarrow> byte" where "byte_of c = of_nat (code c)"
definition char_of_byte :: "byte \<Rightarrow> char" where "char_of_byte b = char_of (unat b)"

definition writeStr :: "string \<Rightarrow> byte list" where
  "writeStr s = writeUvarint (of_nat (length s)) @ map byte_of s"

definition readStr :: "string reader" where
  "readStr r = res_bind (readBlob r) (\<lambda>(bs, r1). Inr (map char_of_byte bs, r1))"

text \<open>\<open>make\<close> of a slice panics when its size is beyond the address space (2^48 bytes).\<close>

definition makeslice :: "nat \<Rightarrow> nat \<Rightarrow> wire_error + unit" where
  "makeslice elem n = (if 2 ^ 48 < elem * n then Inl WirePanic else Inr ())"

section \<open>Lemmas\<close>

named_theorems wire_roundtrip

lemma unat_ucast_small:
  fixes v :: "'a::len word"
  assumes "unat v < 2 ^ LENGTH('b::len)"
  shows "unat (ucast v :: 'b word) = unat v"
  using assms by (subst unsigned_ucast_eq) (rule take_bit_nat_eq_self)

lemma uvarint_bits: "push_bit s (ucast ((ucast v OR 0x80 :: byte) AND 0x7F)) OR push_bit (s + 7) (drop_bit 7 v) = push_bit s (v :: 64 word)"
proof (rule bit_word_eqI)
  fix n assume n: "n < LENGTH(64)"
  have "(0x7F :: byte) = mask 7" by (simp add: mask_eq_exp_minus_1)
  then have m: "bit (0x7F :: byte) k \<longleftrightarrow> k < 7" for k
    using bit_mask_iff [of 7 k, where 'a = byte] by auto
  have e: "bit (0x80 :: byte) k \<longleftrightarrow> k = 7" for k
    using bit_exp_iff [of 7 k, where 'a = byte] by auto
  have c: "bit (ucast ((ucast v OR 0x80 :: byte) AND 0x7F) :: 64 word) k \<longleftrightarrow> k < 7 \<and> bit v k" for k
    unfolding bit_ucast_iff bit_and_iff bit_or_iff m e by auto
  show "bit (push_bit s (ucast ((ucast v OR 0x80 :: byte) AND 0x7F)) OR push_bit (s + 7) (drop_bit 7 v)) n = bit (push_bit s v) n"
  proof (cases "s + 7 \<le> n")
    case True
    then have "7 + (n - (s + 7)) = n - s" "\<not> n - s < 7" "s \<le> n" by simp_all
    then show ?thesis using True n unfolding bit_push_bit_iff bit_or_iff bit_drop_bit_eq comp_def c by simp
  next
    case False
    then have "s \<le> n \<Longrightarrow> n - s < 7" by simp
    then show ?thesis using False n unfolding bit_push_bit_iff bit_or_iff bit_drop_bit_eq comp_def c by blast
  qed
qed

lemma uvarint_loop_write:
  assumes "unat v < 2 ^ (64 - 7 * i)" and "i \<le> 9"
  shows "uvarint_loop i x (7 * i) (writeUvarint v @ rest) = Inr (x OR push_bit (7 * i) v, rest)"
  using assms
proof (induction v arbitrary: i x rule: writeUvarint.induct)
  case (1 v)
  show ?case
  proof (cases "v < 0x80")
    case True
    have small: "unat v < 128" using True by (simp add: word_less_nat_alt)
    have u: "unat (ucast v :: byte) = unat v" by (rule unat_ucast_small) (use small in simp)
    have c: "ucast (ucast v :: byte) = v" by (rule word_unat_eq_iff [THEN iffD2], subst unat_ucast_small) (use u small in simp_all)
    have "\<not> (i = 9 \<and> 1 < (ucast v :: byte))" using "1.prems" u by (auto simp: word_less_nat_alt)
    then show ?thesis using True c u small "1.prems"(2)
      by (subst writeUvarint.simps) (simp add: word_less_nat_alt)
  next
    case False
    have big: "128 \<le> unat v" using False by (simp add: word_less_nat_alt)
    have i8: "i \<le> 8"
    proof (rule ccontr)
      assume "\<not> i \<le> 8"
      then have "i = 9" using "1.prems"(2) by simp
      then show False using "1.prems"(1) big by simp
    qed
    have d: "unat (drop_bit 7 v) = unat v div 128" by (simp add: drop_bit_eq_div unat_div_distrib)
    have "64 - 7 * i = 7 + (64 - 7 * Suc i)" using i8 by simp
    then have "2 ^ (64 - 7 * i) = (2 ^ 7 * 2 ^ (64 - 7 * Suc i) :: nat)" by (simp only: power_add)
    then have "unat v < 2 ^ (64 - 7 * Suc i) * 128" using "1.prems"(1) by (simp only: mult.commute) simp
    then have "unat (drop_bit 7 v) < 2 ^ (64 - 7 * Suc i)" unfolding d by (rule less_mult_imp_div_less)
    from "1.IH" [OF False this] i8
    have ih: "uvarint_loop (Suc i) y (7 * i + 7) (writeUvarint (drop_bit 7 v) @ rest) =
        Inr (y OR push_bit (7 * i + 7) (drop_bit 7 v), rest)" for y by (simp add: add.commute)
    have nb: "\<not> (ucast v OR 0x80 :: byte) < 0x80"
    proof -
      have "(0x80 :: byte) \<le> ucast v OR 0x80" by (rule le_word_or1)
      then show ?thesis by (simp add: not_less)
    qed
    let ?b = "ucast v OR 0x80 :: byte"
    have "writeUvarint v @ rest = ?b # writeUvarint (drop_bit 7 v) @ rest"
      using False by (subst writeUvarint.simps) (simp only: if_False append.simps)
    moreover have "uvarint_loop i x (7 * i) (?b # bs) =
        uvarint_loop (Suc i) (x OR push_bit (7 * i) (ucast (?b AND 0x7F))) (7 * i + 7) bs" for bs
      using i8 nb by (simp only: uvarint_loop.simps) simp
    ultimately show ?thesis
      using uvarint_bits [of "7 * i" v] by (simp only: ih or.assoc)
  qed
qed

lemma readUvarint_write [wire_roundtrip]: "readUvarint (writeUvarint v @ rest) = Inr (v, rest)"
  using uvarint_loop_write [of v 0 0 rest] unsigned_less [of v] by (simp add: readUvarint_def)

lemma zigzag_bits: "drop_bit 1 (push_bit 1 v XOR signed_drop_bit 63 v) XOR - ((push_bit 1 v XOR signed_drop_bit 63 v) AND 1) = (v :: 64 word)"
proof -
  have one: "(w :: 64 word) AND 1 = (if bit w 0 then 1 else 0)" for w
    by (simp add: and_one_eq mod_2_eq_odd bit_0)
  have sgn: "bit (signed_drop_bit 63 v) n \<longleftrightarrow> n < 64 \<and> bit v 63" for n
    using bit_imp_le_length [of v "63 + n"] by (cases n) (auto simp: bit_signed_drop_bit_iff)
  define u where "u = push_bit 1 v XOR signed_drop_bit 63 v"
  have u: "bit u n \<longleftrightarrow> n < 64 \<and> (0 < n \<and> bit v (n - 1)) \<noteq> bit v 63" for n
    unfolding u_def bit_xor_iff sgn bit_push_bit_iff by (auto simp: Suc_le_eq)
  have m: "bit (- (u AND 1)) n \<longleftrightarrow> n < 64 \<and> bit v 63" for n
    by (auto simp: one u bit_minus_1_iff)
  have "drop_bit 1 u XOR - (u AND 1) = v"
  proof (rule bit_word_eqI)
    fix n assume n: "n < LENGTH(64)"
    show "bit (drop_bit 1 u XOR - (u AND 1)) n = bit v n"
      unfolding bit_xor_iff bit_drop_bit_eq comp_def m u
      using n by (cases "n = 63") auto
  qed
  then show ?thesis by (simp only: u_def)
qed

lemma readZigzag_write [wire_roundtrip]: "readZigzag (writeZigzag v @ rest) = Inr (v, rest)"
  by (simp only: readZigzag_def writeZigzag_def readUvarint_write res_bind.simps prod.case zigzag_bits)

lemma get32_put32 [wire_roundtrip]: "get32 (put32 w @ rest) = w"
proof -
  have "ucast (ucast w :: byte) OR push_bit 8 (ucast (ucast (drop_bit 8 w) :: byte)) OR
      push_bit 16 (ucast (ucast (drop_bit 16 w) :: byte)) OR push_bit 24 (ucast (ucast (drop_bit 24 w) :: byte)) = (w :: 32 word)"
  proof (rule bit_word_eqI)
    fix n assume "n < LENGTH(32)"
    then consider "n < 8" | "8 \<le> n" "n < 16" | "16 \<le> n" "n < 24" | "24 \<le> n" "n < 32" by fastforce
    then show "bit (ucast (ucast w :: byte) OR push_bit 8 (ucast (ucast (drop_bit 8 w) :: byte)) OR
      push_bit 16 (ucast (ucast (drop_bit 16 w) :: byte)) OR push_bit 24 (ucast (ucast (drop_bit 24 w) :: byte)) :: 32 word) n = bit w n"
      by cases (auto simp: bit_simps)
  qed
  then show ?thesis by (simp add: get32_def put32_def)
qed

lemma length_put32 [simp]: "length (put32 w) = 4"
  by (simp add: put32_def)

lemma length_put64 [simp]: "length (put64 w) = 8"
  by (simp add: put64_def)

lemma bit_foldr_bytes:
  "bit (foldr (\<lambda>i v. push_bit (8 * i) (ucast (f i :: byte)) OR v) is (0 :: 64 word)) n \<longleftrightarrow>
    (\<exists>i\<in>set is. 8 * i \<le> n \<and> n < 64 \<and> bit (f i) (n - 8 * i))"
  by (induction "is") (auto simp: bit_or_iff bit_push_bit_iff bit_ucast_iff)

lemma get64_put64 [wire_roundtrip]: "get64 (put64 w @ rest) = w"
proof (rule bit_word_eqI)
  fix n assume n: "n < LENGTH(64)"
  have b: "(put64 w @ rest) ! i = ucast (drop_bit (8 * i) w)" if "i < 8" for i
    using that by (simp add: put64_def nth_append)
  have "bit (get64 (put64 w @ rest)) n \<longleftrightarrow> (\<exists>i\<in>set [0..<8]. 8 * i \<le> n \<and> n - 8 * i < 8 \<and> bit w n)"
    unfolding get64_def bit_foldr_bytes using n
    by (intro bex_cong refl) (auto simp: b bit_ucast_iff bit_drop_bit_eq)
  also have "\<dots> \<longleftrightarrow> bit w n"
  proof -
    have "n div 8 \<in> set [0..<8] \<and> 8 * (n div 8) \<le> n \<and> n - 8 * (n div 8) < 8" using n by auto
    then show ?thesis by blast
  qed
  finally show "bit (get64 (put64 w @ rest)) n \<longleftrightarrow> bit w n" .
qed

lemma sint_of_length: "n < 2 ^ 63 \<Longrightarrow> sint (of_nat n :: 64 word) = int n"
  by (simp add: signed_of_nat signed_take_bit_int_eq_self)

lemma readN_append [wire_roundtrip]: "int (length bs) = n \<Longrightarrow> readN n (bs @ rest) = Inr (bs, rest)"
  by (auto simp: readN_def)

lemma readBlob_write [wire_roundtrip]: "length bs < 2 ^ 63 \<Longrightarrow> readBlob (writeBlob bs @ rest) = Inr (bs, rest)"
  by (simp add: readBlob_def writeBlob_def readUvarint_write sint_of_length readN_append)

lemma char_of_byte_of [simp]: "char_of_byte (byte_of c) = c"
  by (simp add: char_of_byte_def byte_of_def unat_of_nat)

lemma readStr_write [wire_roundtrip]: "length s < 2 ^ 63 \<Longrightarrow> readStr (writeStr s @ rest) = Inr (s, rest)"
  using readBlob_write [of "map byte_of s" rest]
  by (simp add: readStr_def writeStr_def writeBlob_def comp_def)

lemma readByte_Cons [wire_roundtrip]: "readByte (b # rest) = Inr (b, rest)"
  by (simp add: readByte_def)

section \<open>Readers consume their input\<close>

text \<open>Every reader leaves a suffix of what it was given; a varint or a byte takes at least one.\<close>

lemma uvarint_loop_suffix: "uvarint_loop i x s r = Inr (v, r1) \<Longrightarrow> length r1 < length r"
  by (induction i x s r rule: uvarint_loop.induct) (auto split: if_splits)

lemma readUvarint_length: "readUvarint r = Inr (v, r1) \<Longrightarrow> length r1 < length r"
  by (simp add: readUvarint_def uvarint_loop_suffix)

lemma readByte_length: "readByte r = Inr (b, r1) \<Longrightarrow> length r1 < length r"
  by (auto simp: readByte_def split: list.splits)

lemma readN_length: "readN n r = Inr (b, r1) \<Longrightarrow> length r1 \<le> length r \<and> int (length b) = n"
  by (auto simp: readN_def split: if_splits)

lemma readZigzag_length: "readZigzag r = Inr (v, r1) \<Longrightarrow> length r1 < length r"
  by (auto simp: readZigzag_def dest: readUvarint_length)

lemma readBlob_length: "readBlob r = Inr (v, r1) \<Longrightarrow> length r1 < length r"
  by (auto simp: readBlob_def dest!: readUvarint_length readN_length)

lemma readStr_length: "readStr r = Inr (v, r1) \<Longrightarrow> length r1 < length r"
  by (auto simp: readStr_def dest: readBlob_length)

lemmas reader_lengths = readUvarint_length readByte_length readN_length readZigzag_length readBlob_length readStr_length

end
