(* ===== verification/Message.thy ===== *)
theory Message
  imports Wire "HOL-Library.List_Lexorder" "HOL-Library.Char_ord"
begin

text \<open>
  The parameter messages of \<open>src/internal/wusp/interface.go\<close>: values, fields and messages, the path
  registry, the \<open>Encoder\<close> and the \<open>Decoder\<close>. The struct \<open>Value\<close> has the fields of the source (a float is
  its 64 bits); \<open>globalRegistry\<close> is an argument of the operations that read it. The pools of buffers
  and of compressor states only recycle memory: a fresh buffer stands for them. Memory exhaustion
  below the limit of the address space and the depth of the stack are not modelled.
\<close>

unbundle bit_operations_syntax

section \<open>Values\<close>

type_synonym TypeTag = byte

definition TagNull :: TypeTag where "TagNull = 0x00"
definition TagFalse :: TypeTag where "TagFalse = 0x01"
definition TagTrue :: TypeTag where "TagTrue = 0x02"
definition TagUint :: TypeTag where "TagUint = 0x03"
definition TagInt :: TypeTag where "TagInt = 0x04"
definition TagFloat :: TypeTag where "TagFloat = 0x05"
definition TagString :: TypeTag where "TagString = 0x06"
definition TagBytes :: TypeTag where "TagBytes = 0x07"
definition TagTime :: TypeTag where "TagTime = 0x08"
definition TagIP4 :: TypeTag where "TagIP4 = 0x09"
definition TagIP6 :: TypeTag where "TagIP6 = 0x0A"
definition TagIP4Pfx :: TypeTag where "TagIP4Pfx = 0x0B"
definition TagIP6Pfx :: TypeTag where "TagIP6Pfx = 0x0C"
definition TagMAC :: TypeTag where "TagMAC = 0x0D"
definition TagList :: TypeTag where "TagList = 0x0E"

lemmas tag_defs = TagNull_def TagFalse_def TagTrue_def TagUint_def TagInt_def TagFloat_def TagString_def
  TagBytes_def TagTime_def TagIP4_def TagIP6_def TagIP4Pfx_def TagIP6Pfx_def TagMAC_def TagList_def

datatype Value = Value (Tag: TypeTag) (ival: "64 word") (fval: "64 word") (blob: "byte list") (vlist: "Value list")

definition Null :: Value where "Null = Value TagNull 0 0 [] []"
definition BoolV :: "bool \<Rightarrow> Value" where "BoolV v = Value (if v then TagTrue else TagFalse) 0 0 [] []"
definition Uint :: "64 word \<Rightarrow> Value" where "Uint v = Value TagUint v 0 [] []"
definition IntV :: "64 word \<Rightarrow> Value" where "IntV v = Value TagInt v 0 [] []"
definition Float :: "64 word \<Rightarrow> Value" where "Float v = Value TagFloat 0 v [] []"
definition StringV :: "string \<Rightarrow> Value" where "StringV v = Value TagString 0 0 (map byte_of v) []"
definition Bytes :: "byte list \<Rightarrow> Value" where "Bytes v = Value TagBytes 0 0 v []"
definition ListV :: "Value list \<Rightarrow> Value" where "ListV items = Value TagList 0 0 [] items"

definition blob_value :: "TypeTag \<Rightarrow> byte list \<Rightarrow> Value" where "blob_value t b = Value t 0 0 b []"
definition int_value :: "TypeTag \<Rightarrow> 64 word \<Rightarrow> Value" where "int_value t n = Value t n 0 [] []"

lemmas value_defs = Null_def BoolV_def Uint_def IntV_def Float_def StringV_def Bytes_def ListV_def blob_value_def int_value_def

section \<open>Time\<close>

text \<open>\<open>Time.UnixNano\<close> and \<open>time.Unix(0, ns)\<close>.\<close>

definition epoch :: gotime where "epoch = 62135596800 * second"
definition UnixNano :: "gotime \<Rightarrow> 64 word" where "UnixNano t = word_of_int (t - epoch)"
definition time_of_nano :: "64 word \<Rightarrow> gotime" where "time_of_nano ns = sint ns + epoch"

section \<open>Fields and messages\<close>

record Field =
  field_id :: "16 word"
  Path :: string
  Val :: Value

record Message =
  DeviceID :: string
  Timestamp :: gotime
  Fields :: "Field list"

definition NewMessage :: Message where
  "NewMessage = \<lparr> DeviceID = '''', Timestamp = 0, Fields = [] \<rparr>"

definition ResetID :: "Field \<Rightarrow> Field" where
  "ResetID f = f\<lparr> field_id := 0 \<rparr>"

definition ResetAllFieldIDs :: "Message \<Rightarrow> Message" where
  "ResetAllFieldIDs m = m\<lparr> Fields := map ResetID (Fields m) \<rparr>"

section \<open>The path registry\<close>

record registry =
  pathToID :: "string \<rightharpoonup> 16 word"
  idToPath :: "string list"
  fp :: "16 word"

definition fnv32a :: "byte list \<Rightarrow> 32 word" where
  "fnv32a bs = fold (\<lambda>b h. (h XOR ucast b) * 16777619) bs 2166136261"

definition buildRegistry :: "string list \<Rightarrow> registry" where
  "buildRegistry params =
     (let sorted = sort params in
      \<lparr> pathToID = fold (\<lambda>(i, p) m. m(p \<mapsto> of_nat (i + 1))) (enumerate 0 sorted) Map.empty,
        idToPath = sorted,
        fp = ucast (fnv32a (map byte_of (concat sorted))) \<rparr>)"

definition IDFor :: "registry \<Rightarrow> string \<Rightarrow> 16 word \<times> bool" where
  "IDFor r path = (case pathToID r path of None \<Rightarrow> (0, False) | Some i \<Rightarrow> (i, True))"

definition PathForID :: "registry \<Rightarrow> 16 word \<Rightarrow> string option" where
  "PathForID r i =
     (if i = 0 \<or> length (idToPath r) < unat i then None else Some (idToPath r ! (unat i - 1)))"

definition Message_Set :: "registry \<Rightarrow> Message \<Rightarrow> string \<Rightarrow> Value \<Rightarrow> Message" where
  "Message_Set reg m path v =
     (if \<exists>f\<in>set (Fields m). Path f = path
      then m\<lparr> Fields := update_first (\<lambda>f. Path f = path) (\<lambda>f. f\<lparr> Val := v \<rparr>) (Fields m) \<rparr>
      else m\<lparr> Fields := Fields m @ [\<lparr> field_id = fst (IDFor reg path), Path = path, Val = v \<rparr>] \<rparr>)"

definition Message_Get :: "Message \<Rightarrow> string \<Rightarrow> Value \<times> bool" where
  "Message_Get m path = (case find (\<lambda>f. Path f = path) (Fields m) of None \<Rightarrow> (Null, False) | Some f \<Rightarrow> (Val f, True))"

section \<open>The encoder\<close>

record EncodeOptions =
  Compress :: bool
  IncludeDeviceID :: bool
  IncludeTimestamp :: bool

text \<open>\<open>v.blob[:n]\<close>; the constructors and the decoder make blobs of that very size.\<close>

definition prefix_of :: "nat \<Rightarrow> byte list \<Rightarrow> wire_error + byte list" where
  "prefix_of n b = (if length b < n then Inl WirePanic else Inr (take n b))"

fun encodeValue :: "Value \<Rightarrow> wire_error + byte list" and encodeItems :: "Value list \<Rightarrow> wire_error + byte list" where
  "encodeValue (Value t i f b l) =
     res_bind
       (if t = TagNull \<or> t = TagFalse \<or> t = TagTrue then Inr []
        else if t = TagUint then Inr (writeUvarint i)
        else if t = TagInt then Inr (writeZigzag i)
        else if t = TagFloat then Inr (put64 f)
        else if t = TagString \<or> t = TagBytes then Inr (writeBlob b)
        else if t = TagTime then Inr (writeZigzag i)
        else if t = TagIP4 then prefix_of 4 b
        else if t = TagIP6 then prefix_of 16 b
        else if t = TagIP4Pfx then prefix_of 5 b
        else if t = TagIP6Pfx then prefix_of 17 b
        else if t = TagMAC then prefix_of 6 b
        else if t = TagList then
          res_bind (encodeItems l) (\<lambda>bs. Inr (writeUvarint (of_nat (length l)) @ bs))
        else Inr [])
       (\<lambda>bs. Inr (t # bs))"
| "encodeItems [] = Inr []"
| "encodeItems (v # vs) = res_bind (encodeValue v) (\<lambda>b. res_bind (encodeItems vs) (\<lambda>bs. Inr (b @ bs)))"

definition encodeField :: "Field \<Rightarrow> wire_error + byte list" where
  "encodeField f =
     res_bind (encodeValue (Val f)) (\<lambda>v.
       Inr (writeUvarint (ucast (field_id f)) @ (if field_id f = 0 then writeStr (Path f) else []) @ v))"

fun encodeFields :: "Field list \<Rightarrow> wire_error + byte list" where
  "encodeFields [] = Inr []"
| "encodeFields (f # fs) = res_bind (encodeField f) (\<lambda>b. res_bind (encodeFields fs) (\<lambda>bs. Inr (b @ bs)))"

definition flagLZ4 :: byte where "flagLZ4 = 1"
definition flagDeviceID :: byte where "flagDeviceID = 2"
definition flagTS :: byte where "flagTS = 4"

definition with_device :: "EncodeOptions \<Rightarrow> Message \<Rightarrow> bool" where
  "with_device opts msg \<longleftrightarrow> IncludeDeviceID opts \<and> DeviceID msg \<noteq> ''''"

definition with_ts :: "EncodeOptions \<Rightarrow> Message \<Rightarrow> bool" where
  "with_ts opts msg \<longleftrightarrow> IncludeTimestamp opts \<and> \<not> IsZero (Timestamp msg)"

definition frame_header :: "registry \<Rightarrow> byte \<Rightarrow> byte list" where
  "frame_header reg flags = [0x57, 0x55, 0x01] @ put16 (fp reg) @ [flags, 0, 0]"

definition encode_payload :: "EncodeOptions \<Rightarrow> Message \<Rightarrow> wire_error + byte list" where
  "encode_payload opts msg =
     res_bind (encodeFields (Fields msg)) (\<lambda>fs.
       Inr ((if with_device opts msg then writeStr (DeviceID msg) else [])
            @ (if with_ts opts msg then writeZigzag (UnixNano (Timestamp msg)) else [])
            @ writeUvarint (of_nat (length (Fields msg))) @ fs))"

definition Encode :: "registry \<Rightarrow> EncodeOptions \<Rightarrow> Message \<Rightarrow> wire_error + byte list" where
  "Encode reg opts msg =
     res_bind (encode_payload opts msg) (\<lambda>payload.
       let flags = (if with_device opts msg then flagDeviceID else 0) OR (if with_ts opts msg then flagTS else 0)
       in case (if Compress opts then compress payload else None) of
            Some cs \<Rightarrow>
              Inr (frame_header reg (flags OR flagLZ4) @ put32 (of_nat (length payload)) @ cs)
          | None \<Rightarrow> Inr (frame_header reg flags @ payload))"

section \<open>The decoder\<close>

lemma res_bind_cong [fundef_cong]:
  "r = r' \<Longrightarrow> (\<And>x. r' = Inr x \<Longrightarrow> f x = g x) \<Longrightarrow> res_bind r f = res_bind r' g"
  by (cases r') auto

function decodeValue :: "Value reader" and decodeItems :: "nat \<Rightarrow> (Value list) reader" where
  "decodeValue r =
     res_bind (readByte r) (\<lambda>(t, r1).
       if t = TagNull then Inr (Null, r1)
       else if t = TagFalse then Inr (BoolV False, r1)
       else if t = TagTrue then Inr (BoolV True, r1)
       else if t = TagUint then res_bind (readUvarint r1) (\<lambda>(n, r2). Inr (Uint n, r2))
       else if t = TagInt then res_bind (readZigzag r1) (\<lambda>(n, r2). Inr (IntV n, r2))
       else if t = TagFloat then res_bind (readN 8 r1) (\<lambda>(b, r2). Inr (Float (get64 b), r2))
       else if t = TagString \<or> t = TagBytes then res_bind (readBlob r1) (\<lambda>(b, r2). Inr (blob_value t b, r2))
       else if t = TagTime then res_bind (readZigzag r1) (\<lambda>(n, r2). Inr (int_value t n, r2))
       else if t = TagIP4 then res_bind (readN 4 r1) (\<lambda>(b, r2). Inr (blob_value t b, r2))
       else if t = TagIP6 then res_bind (readN 16 r1) (\<lambda>(b, r2). Inr (blob_value t b, r2))
       else if t = TagIP4Pfx then res_bind (readN 5 r1) (\<lambda>(b, r2). Inr (blob_value t b, r2))
       else if t = TagIP6Pfx then res_bind (readN 17 r1) (\<lambda>(b, r2). Inr (blob_value t b, r2))
       else if t = TagMAC then res_bind (readN 6 r1) (\<lambda>(b, r2). Inr (blob_value t b, r2))
       else if t = TagList then
         res_bind (readUvarint r1) (\<lambda>(cnt, r2). res_bind (makeslice 72 (unat cnt)) (\<lambda>_.
           res_bind (decodeItems (unat cnt) r2) (\<lambda>(items, r3). Inr (ListV items, r3))))
       else Inl UnknownTag)"
| "decodeItems 0 r = Inr ([], r)"
| "decodeItems (Suc n) r =
     res_bind (decodeValue r) (\<lambda>(v, r1). res_bind (decodeItems n r1) (\<lambda>(vs, r2). Inr (v # vs, r2)))"
  by pat_completeness auto

text \<open>A value that is decoded takes at least one byte, so the loop over the items of a list ends.\<close>

lemma decode_shrinks:
  "decodeValue_decodeItems_dom (Inl r) \<Longrightarrow> decodeValue r = Inr (v, r1) \<Longrightarrow> length r1 < length r"
  "decodeValue_decodeItems_dom (Inr (n, r)) \<Longrightarrow> decodeItems n r = Inr (vs, r1) \<Longrightarrow> length r1 \<le> length r"
proof (induction r and n r arbitrary: v r1 and vs r1 rule: decodeValue_decodeItems.pinduct)
  case (1 r)
  obtain t b where b: "readByte r = Inr (t, b)" using 1 by (auto simp: decodeValue.psimps)
  then have s: "length b < length r" by (rule readByte_length)
  show ?case
  proof (cases "t = TagList")
    case True
    then have "t \<noteq> TagNull" "t \<noteq> TagFalse" "t \<noteq> TagTrue" "t \<noteq> TagUint" "t \<noteq> TagInt" "t \<noteq> TagFloat"
      "\<not> (t = TagString \<or> t = TagBytes)" "t \<noteq> TagTime" "t \<noteq> TagIP4" "t \<noteq> TagIP6" "t \<noteq> TagIP4Pfx" "t \<noteq> TagIP6Pfx" "t \<noteq> TagMAC"
      by (simp_all add: tag_defs)
    note c = this True
    then obtain cnt r2 vs where u: "readUvarint b = Inr (cnt, r2)" "makeslice 72 (unat cnt) = Inr ()"
        "decodeItems (unat cnt) r2 = Inr (vs, r1)"
      using 1(1,3) b by (auto simp: decodeValue.psimps)
    have "length r1 \<le> length r2" using 1(2) [OF b refl c u(1) refl u(2) u(3)] .
    then show ?thesis using s readUvarint_length [OF u(1)] by simp
  next
    case False
    then show ?thesis using 1(1,3) b s
      by (auto simp: decodeValue.psimps split: if_splits dest!: reader_lengths)
  qed
next
  case (2 r)
  then show ?case by (simp add: decodeItems.psimps)
next
  case (3 n r)
  then show ?case by (fastforce simp: decodeItems.psimps)
qed

lemma decode_dom: "All decodeValue_decodeItems_dom"
  by (relation "inv_image (less_than <*lex*> less_than) (\<lambda>x. case x of Inl r \<Rightarrow> (length r, 0) | Inr (n, r) \<Rightarrow> (length r, 1 :: nat))")
     (auto dest: decode_shrinks dest!: reader_lengths)

termination decodeValue
  by (rule decode_dom)

lemmas decode_less = decode_shrinks [OF decode_dom [THEN spec]]

declare decodeValue.simps [simp del]

record DecodeOptions =
  SkipUnknownFields :: bool

definition decodeField :: "registry \<Rightarrow> bool \<Rightarrow> (Field option) reader" where
  "decodeField reg skipUnknown r =
     res_bind (readUvarint r) (\<lambda>(rawID, r1).
       let fid = ucast rawID :: 16 word in
       if fid = 0 then
         res_bind (readStr r1) (\<lambda>(path, r2). res_bind (decodeValue r2) (\<lambda>(v, r3).
           Inr (Some \<lparr> field_id = fid, Path = path, Val = v \<rparr>, r3)))
       else
         (case PathForID reg fid of
            Some path \<Rightarrow> res_bind (decodeValue r1) (\<lambda>(v, r2).
              Inr (Some \<lparr> field_id = fid, Path = path, Val = v \<rparr>, r2))
          | None \<Rightarrow> res_bind (decodeValue r1) (\<lambda>(v, r2).
              Inr (if skipUnknown then None else Some \<lparr> field_id = fid, Path = '''', Val = v \<rparr>, r2))))"

fun decodeFields :: "registry \<Rightarrow> bool \<Rightarrow> nat \<Rightarrow> (Field list) reader" where
  "decodeFields reg skip 0 r = Inr ([], r)"
| "decodeFields reg skip (Suc n) r =
     res_bind (decodeField reg skip r) (\<lambda>(f, r1). res_bind (decodeFields reg skip n r1) (\<lambda>(fs, r2).
       Inr ((case f of None \<Rightarrow> fs | Some x \<Rightarrow> x # fs), r2)))"

definition of_lz4 :: "lz4_error \<Rightarrow> wire_error" where
  "of_lz4 e = (if e = errTruncated then TruncatedFrame else Lz4Error e)"

definition inflate :: "byte list \<Rightarrow> wire_error + byte list" where
  "inflate payload =
     (if length payload < 4 then Inl TruncatedFrame
      else case decompress (drop 4 payload) (unat (get32 payload)) of
             Inl e \<Rightarrow> Inl (of_lz4 e)
           | Inr raw \<Rightarrow> Inr raw)"

definition decode_payload :: "registry \<Rightarrow> DecodeOptions \<Rightarrow> byte \<Rightarrow> byte list \<Rightarrow> wire_error + Message" where
  "decode_payload reg opts flags r =
     res_bind (if flags AND flagDeviceID \<noteq> 0 then readStr r else Inr ('''', r)) (\<lambda>(dev, r1).
     res_bind (if flags AND flagTS \<noteq> 0 then res_bind (readZigzag r1) (\<lambda>(ns, r2). Inr (time_of_nano ns, r2)) else Inr (0, r1)) (\<lambda>(ts, r2).
     res_bind (readUvarint r2) (\<lambda>(count, r3).
     res_bind (makeslice 96 (unat count)) (\<lambda>_.
     res_bind (decodeFields reg (SkipUnknownFields opts) (unat count) r3) (\<lambda>(fs, _).
       Inr \<lparr> DeviceID = dev, Timestamp = ts, Fields = fs \<rparr>)))))"

definition Decode :: "registry \<Rightarrow> DecodeOptions \<Rightarrow> byte list \<Rightarrow> wire_error + Message" where
  "Decode reg opts data =
     (if length data < 8 then Inl TruncatedFrame
      else if data ! 0 \<noteq> 0x57 \<or> data ! 1 \<noteq> 0x55 then Inl BadMagic
      else if data ! 2 \<noteq> 0x01 then Inl BadVersion
      else
        let flags = data ! 5; payload = drop 8 data in
        res_bind (if flags AND flagLZ4 \<noteq> 0 then inflate payload else Inr payload) (\<lambda>raw.
          decode_payload reg opts flags raw))"

section \<open>Well-formed values and messages\<close>

text \<open>
  The values the constructors and the decoder make: the tag is one of the source's, the unused fields
  are zero, an address has its size, and slices are not longer than memory.
\<close>

fun wf_value :: "Value \<Rightarrow> bool" and wf_values :: "Value list \<Rightarrow> bool" where
  "wf_value (Value t i f b l) \<longleftrightarrow>
     (if t \<in> {TagNull, TagFalse, TagTrue} then i = 0 \<and> f = 0 \<and> b = [] \<and> l = []
      else if t \<in> {TagUint, TagInt, TagTime} then f = 0 \<and> b = [] \<and> l = []
      else if t = TagFloat then i = 0 \<and> b = [] \<and> l = []
      else if t \<in> {TagString, TagBytes} then i = 0 \<and> f = 0 \<and> l = [] \<and> length b < 2 ^ 63
      else if t = TagIP4 then i = 0 \<and> f = 0 \<and> l = [] \<and> length b = 4
      else if t = TagIP6 then i = 0 \<and> f = 0 \<and> l = [] \<and> length b = 16
      else if t = TagIP4Pfx then i = 0 \<and> f = 0 \<and> l = [] \<and> length b = 5
      else if t = TagIP6Pfx then i = 0 \<and> f = 0 \<and> l = [] \<and> length b = 17
      else if t = TagMAC then i = 0 \<and> f = 0 \<and> l = [] \<and> length b = 6
      else t = TagList \<and> i = 0 \<and> f = 0 \<and> b = [] \<and> 72 * length l \<le> 2 ^ 48 \<and> wf_values l)"
| "wf_values [] \<longleftrightarrow> True"
| "wf_values (v # vs) \<longleftrightarrow> wf_value v \<and> wf_values vs"

section \<open>Round trips\<close>

lemma unat_of_length: "n < 2 ^ 64 \<Longrightarrow> unat (of_nat n :: 64 word) = n"
  by (simp add: unat_of_nat)

lemma value_roundtrip:
  "wf_value v \<Longrightarrow> \<exists>bs. encodeValue v = Inr bs \<and> (\<forall>rest. decodeValue (bs @ rest) = Inr (v, rest))"
  "wf_values vs \<Longrightarrow> \<exists>bs. encodeItems vs = Inr bs \<and> (\<forall>rest. decodeItems (length vs) (bs @ rest) = Inr (vs, rest))"
proof (induction v and vs rule: encodeValue_encodeItems.induct)
  case (1 t i f b l)
  show ?case
  proof (cases "t = TagList")
    case True
    then have l: "wf_values l" "72 * length l \<le> 2 ^ 48" "i = 0" "f = 0" "b = []"
      using "1.prems" by (simp_all add: tag_defs)
    obtain bs where bs: "encodeItems l = Inr bs" "\<And>rest. decodeItems (length l) (bs @ rest) = Inr (l, rest)"
      using "1.IH" l(1) True by (auto simp: tag_defs)
    have n: "unat (of_nat (length l) :: 64 word) = length l" using l(2) by (intro unat_of_length) simp
    show ?thesis using True bs l n
      by (simp add: decodeValue.simps wire_roundtrip tag_defs makeslice_def value_defs)
  next
    case False
    have "t = TagNull \<or> t = TagFalse \<or> t = TagTrue \<or> t = TagUint \<or> t = TagInt \<or> t = TagFloat \<or> t = TagString \<or> t = TagBytes \<or>
        t = TagTime \<or> t = TagIP4 \<or> t = TagIP6 \<or> t = TagIP4Pfx \<or> t = TagIP6Pfx \<or> t = TagMAC"
      using "1.prems" False by (simp only: wf_value.simps insert_iff empty_iff split: if_splits) blast+
    then show ?thesis using "1.prems" [unfolded wf_value.simps]
      by (elim disjE)
         (simp_all add: decodeValue.simps [of "_ # _"] wire_roundtrip tag_defs value_defs prefix_of_def get64_put64 [where rest = "[]", simplified])
  qed
next
  case 2
  then show ?case by simp
next
  case (3 v vs)
  then obtain b bs where "encodeValue v = Inr b" "\<And>rest. decodeValue (b @ rest) = Inr (v, rest)"
      "encodeItems vs = Inr bs" "\<And>rest. decodeItems (length vs) (bs @ rest) = Inr (vs, rest)" by auto
  then show ?case by simp
qed

text \<open>What a decoder with its own registry makes of a field.\<close>

definition as_read :: "registry \<Rightarrow> bool \<Rightarrow> Field \<Rightarrow> Field option" where
  "as_read reg skip f =
     (if field_id f = 0 then Some f
      else case PathForID reg (field_id f) of
             Some path \<Rightarrow> Some (f\<lparr> Path := path \<rparr>)
           | None \<Rightarrow> (if skip then None else Some (f\<lparr> Path := [] \<rparr>)))"

definition read_fields :: "registry \<Rightarrow> bool \<Rightarrow> Field list \<Rightarrow> Field list" where
  "read_fields reg skip fs = List.map_filter (as_read reg skip) fs"

lemma read_fields_simps [simp]:
  "read_fields reg skip [] = []"
  "read_fields reg skip (f # fs) = (case as_read reg skip f of None \<Rightarrow> read_fields reg skip fs | Some x \<Rightarrow> x # read_fields reg skip fs)"
  by (simp_all add: read_fields_def map_filter_simps split: option.split)

definition sendable :: "Field \<Rightarrow> bool" where
  "sendable f \<longleftrightarrow> wf_value (Val f) \<and> length (Path f) < 2 ^ 63"

lemma field_roundtrip:
  assumes "sendable f"
  shows "\<exists>bs. encodeField f = Inr bs \<and> (\<forall>rest. decodeField reg skip (bs @ rest) = Inr (as_read reg skip f, rest))"
proof -
  obtain v where v: "encodeValue (Val f) = Inr v" "\<And>rest. decodeValue (v @ rest) = Inr (Val f, rest)"
    using value_roundtrip(1) assms by (auto simp: sendable_def)
  have u: "ucast (ucast (field_id f) :: 64 word) = field_id f"
    by (rule bit_word_eqI) (auto simp: bit_ucast_iff)
  show ?thesis using assms v u
    by (cases f) (auto simp: sendable_def encodeField_def decodeField_def wire_roundtrip as_read_def split: option.split)
qed

lemma fields_roundtrip:
  assumes "\<forall>f\<in>set fs. sendable f"
  shows "\<exists>bs. encodeFields fs = Inr bs \<and>
    (\<forall>rest. decodeFields reg skip (length fs) (bs @ rest) = Inr (read_fields reg skip fs, rest))"
  using assms
proof (induction fs)
  case Nil
  then show ?case by simp
next
  case (Cons f fs)
  obtain b where "encodeField f = Inr b" "\<And>rest. decodeField reg skip (b @ rest) = Inr (as_read reg skip f, rest)"
    using field_roundtrip [of f reg skip] Cons.prems by auto
  with Cons show ?case by (auto split: option.split)
qed

lemma time_roundtrip:
  "- (2 ^ 63) \<le> t - epoch \<Longrightarrow> t - epoch < 2 ^ 63 \<Longrightarrow> time_of_nano (UnixNano t) = t"
  unfolding time_of_nano_def UnixNano_def signed_of_int by (simp add: signed_take_bit_int_eq_self)

lemma inflate_compress:
  assumes "compress payload = Some cs" and "length payload < 2 ^ 32"
  shows "inflate (put32 (of_nat (length payload)) @ cs) = Inr payload"
proof -
  have "unat (of_nat (length payload) :: 32 word) = length payload" using assms(2) by (simp add: unat_of_nat)
  then show ?thesis using assms(1) decompress_compress [of payload cs]
    by (simp add: inflate_def get32_put32)
qed

text \<open>What a frame carries of a message under the encoder's options.\<close>

definition sent :: "EncodeOptions \<Rightarrow> Message \<Rightarrow> Message" where
  "sent opts m = m\<lparr> DeviceID := (if with_device opts m then DeviceID m else ''''),
     Timestamp := (if with_ts opts m then Timestamp m else 0) \<rparr>"

lemma flags_table:
  "(a OR b) AND flagLZ4 = 0" "(a OR b OR flagLZ4) AND flagLZ4 \<noteq> 0"
  "((a OR b) AND flagDeviceID \<noteq> 0) = (a \<noteq> 0)" "((a OR b OR flagLZ4) AND flagDeviceID \<noteq> 0) = (a \<noteq> 0)"
  "((a OR b) AND flagTS \<noteq> 0) = (b \<noteq> 0)" "((a OR b OR flagLZ4) AND flagTS \<noteq> 0) = (b \<noteq> 0)"
  if "a \<in> {0, flagDeviceID}" "b \<in> {0, flagTS}"
  using that by (auto simp: flagLZ4_def flagDeviceID_def flagTS_def)

lemma frame_header_nth:
  "length (frame_header reg flags) = 8" "(frame_header reg flags @ p) ! 0 = 0x57" "(frame_header reg flags @ p) ! 1 = 0x55"
  "(frame_header reg flags @ p) ! 2 = 0x01" "(frame_header reg flags @ p) ! 5 = flags" "drop 8 (frame_header reg flags @ p) = p"
  by (simp_all add: frame_header_def put16_def)

lemma Decode_frame:
  "Decode reg opts (frame_header reg' flags @ p) =
     res_bind (if flags AND flagLZ4 \<noteq> 0 then inflate p else Inr p) (decode_payload reg opts flags)"
  unfolding Decode_def Let_def frame_header_nth by (simp add: frame_header_nth(1))


definition wf_message :: "Message \<Rightarrow> bool" where
  "wf_message m \<longleftrightarrow> length (DeviceID m) < 2 ^ 63 \<and> 96 * length (Fields m) \<le> 2 ^ 48 \<and>
     (\<forall>f\<in>set (Fields m). sendable f)"

definition time_ok :: "EncodeOptions \<Rightarrow> Message \<Rightarrow> bool" where
  "time_ok opts m \<longleftrightarrow> (with_ts opts m \<longrightarrow> - (2 ^ 63) \<le> Timestamp m - epoch \<and> Timestamp m - epoch < 2 ^ 63)"

lemma payload_roundtrip:
  assumes "wf_message m" and "time_ok opts m"
    and "(flags AND flagDeviceID \<noteq> 0) = with_device opts m" and "(flags AND flagTS \<noteq> 0) = with_ts opts m"
  shows "\<exists>p. encode_payload opts m = Inr p \<and>
    decode_payload reg dopts flags p = Inr ((sent opts m)\<lparr> Fields := read_fields reg (SkipUnknownFields dopts) (Fields m) \<rparr>)"
proof -
  let ?skip = "SkipUnknownFields dopts"
  obtain fs where fs: "encodeFields (Fields m) = Inr fs"
      "\<And>rest. decodeFields reg ?skip (length (Fields m)) (fs @ rest) = Inr (read_fields reg ?skip (Fields m), rest)"
    using fields_roundtrip [of "Fields m" reg ?skip] assms(1) by (auto simp: wf_message_def)
  have n: "unat (of_nat (length (Fields m)) :: 64 word) = length (Fields m)"
    using assms(1) by (intro unat_of_length) (simp add: wf_message_def)
  have t: "with_ts opts m \<Longrightarrow> time_of_nano (UnixNano (Timestamp m)) = Timestamp m"
    using assms(2) by (auto simp: time_ok_def intro: time_roundtrip)
  have fs': "decodeFields reg ?skip (length (Fields m)) fs = Inr (read_fields reg ?skip (Fields m), [])"
    using fs(2) [of "[]"] by simp
  show ?thesis
    using assms fs(1) fs' n t
    by (cases m) (auto simp: encode_payload_def decode_payload_def wire_roundtrip wf_message_def makeslice_def sent_def)
qed

lemma Encode_Decode:
  assumes "wf_message m" and "time_ok opts m"
  shows "\<exists>p data. encode_payload opts m = Inr p \<and> Encode reg opts m = Inr data \<and>
    ((Compress opts \<longrightarrow> length p < 2 ^ 32) \<longrightarrow>
      Decode reg' dopts data = Inr ((sent opts m)\<lparr> Fields := read_fields reg' (SkipUnknownFields dopts) (Fields m) \<rparr>))"
proof -
  define a where "a = (if with_device opts m then flagDeviceID else 0)"
  define b where "b = (if with_ts opts m then flagTS else 0)"
  have ab: "a \<in> {0, flagDeviceID}" "b \<in> {0, flagTS}" "(a \<noteq> 0) = with_device opts m" "(b \<noteq> 0) = with_ts opts m"
    by (simp_all add: a_def b_def flagDeviceID_def flagTS_def)
  note fl = flags_table [OF ab(1,2)]
  let ?r = "Inr ((sent opts m)\<lparr> Fields := read_fields reg' (SkipUnknownFields dopts) (Fields m) \<rparr>)"
  obtain p where p: "encode_payload opts m = Inr p" "decode_payload reg' dopts (a OR b) p = ?r"
    using payload_roundtrip [OF assms, of "a OR b" reg' dopts] fl ab by auto
  obtain q where q: "encode_payload opts m = Inr q" "decode_payload reg' dopts (a OR b OR flagLZ4) q = ?r"
    using payload_roundtrip [OF assms, of "a OR b OR flagLZ4" reg' dopts] fl ab by (auto simp: or.assoc)
  have "q = p" using p(1) q(1) by simp
  note q = q(2) [unfolded this]
  show ?thesis
  proof (cases "if Compress opts then compress p else None")
    case None
    then have "Encode reg opts m = Inr (frame_header reg (a OR b) @ p)"
      using p(1) by (simp add: Encode_def Let_def a_def b_def)
    then show ?thesis using p fl by (auto simp: Decode_frame)
  next
    case (Some cs)
    then have c: "Compress opts" "compress p = Some cs" by (auto split: if_splits)
    then have "Encode reg opts m = Inr (frame_header reg (a OR b OR flagLZ4) @ put32 (of_nat (length p)) @ cs)"
      using p(1) by (simp add: Encode_def Let_def a_def b_def or.assoc)
    then show ?thesis using p(1) q fl c(1) inflate_compress [OF c(2)] by (auto simp: Decode_frame or.assoc)
  qed
qed

end
