(* ===== verification/Codec.thy ===== *)
theory Codec
  imports Message "HOL-Library.Finite_Map"
begin

text \<open>
  The buffers of the control transport, \<open>uspTransportBuffer\<close> and \<open>uspTransportReader\<close> of
  \<open>src/internal/wusp/usp_transport.go\<close>, and the contract their pairs of methods share: what a writer
  appends, its reader takes back and leaves the rest. The contract is the locale \<open>codec\<close>; inside it
  the counted lists of such items are shown to be one more pair, and every pair of methods is an
  interpretation of it. A metadata map is a finite map.
\<close>

unbundle bit_operations_syntax

section \<open>Errors and flags\<close>

datatype usp_error =
    TMalformed string
  | TUnsupported string
  | TMethodRequired
  | TValidation string string
  | TUnexpectedEOF
  | TLz4 lz4_error
  | TMessage wire_error
  | TMissing string
  | TPanic

type_synonym 'a treader = "byte list \<Rightarrow> usp_error + ('a \<times> byte list)"

text \<open>\<open>flags |= 1 << k\<close> under a condition, and the test \<open>flags&(1<<k) != 0\<close>.\<close>

definition flag :: "nat \<Rightarrow> bool \<Rightarrow> byte" where
  "flag k b = (if b then push_bit k 1 else 0)"

definition has_flag :: "nat \<Rightarrow> byte \<Rightarrow> bool" where
  "has_flag k flags \<longleftrightarrow> flags AND push_bit k 1 \<noteq> 0"

section \<open>Writers\<close>

definition writeString :: "string \<Rightarrow> byte list" where
  "writeString v = writeUvarint (of_nat (length v)) @ map byte_of v"

definition writeBytes :: "byte list \<Rightarrow> byte list" where
  "writeBytes v = writeUvarint (of_nat (length v)) @ v"

text \<open>The loop every list is written with: its length and the items.\<close>

definition write_counted :: "('a \<Rightarrow> byte list) \<Rightarrow> 'a list \<Rightarrow> byte list" where
  "write_counted w vs = writeUvarint (of_nat (length vs)) @ concat (map w vs)"

definition writeStringList :: "string list \<Rightarrow> byte list" where
  "writeStringList = write_counted writeString"

definition writeUint64List :: "64 word list \<Rightarrow> byte list" where
  "writeUint64List = write_counted writeUvarint"

definition writePathSelector :: "64 word \<Rightarrow> 64 word list \<Rightarrow> byte list" where
  "writePathSelector pc instances = writeUvarint pc @ writeUint64List instances"

definition writePathSelectors :: "64 word list \<Rightarrow> 64 word list list \<Rightarrow> byte list" where
  "writePathSelectors pathCodes pathInstances =
     writeUvarint (of_nat (length pathCodes)) @
     concat (map (\<lambda>(i, pc). writeUvarint pc @ writeUint64List (if i < length pathInstances then pathInstances ! i else []))
       (enumerate 0 pathCodes))"

definition writeBool :: "bool \<Rightarrow> byte list" where
  "writeBool v = (if v then writeUvarint 1 else writeUvarint 0)"

definition sorted_keys :: "(string, string) fmap \<Rightarrow> string list" where
  "sorted_keys m = sorted_list_of_fset (fmdom m)"

definition write_entry :: "string \<times> string \<Rightarrow> byte list" where
  "write_entry e = writeString (fst e) @ writeString (snd e)"

text \<open>The branch of the source for a single entry writes what the general one writes.\<close>

definition writeMetadata :: "(string, string) fmap \<Rightarrow> byte list" where
  "writeMetadata metadata =
     (if metadata = fmempty then writeUvarint 0
      else write_counted write_entry (map (\<lambda>k. (k, the (fmlookup metadata k))) (sorted_keys metadata)))"

section \<open>Readers\<close>

definition tUvarint :: "(64 word) treader" where
  "tUvarint r = (case readUvarint r of Inl _ \<Rightarrow> Inl (TMalformed ''bad varint'') | Inr x \<Rightarrow> Inr x)"

definition tBytes :: "(byte list) treader" where
  "tBytes r = res_bind (tUvarint r) (\<lambda>(n, r1).
     if length r1 < unat n then Inl (TMalformed ''short blob'') else Inr (take (unat n) r1, drop (unat n) r1))"

definition tString :: "string treader" where
  "tString r = res_bind (tBytes r) (\<lambda>(bs, r1). Inr (map char_of_byte bs, r1))"

definition tmake :: "nat \<Rightarrow> 64 word \<Rightarrow> usp_error + unit" where
  "tmake elem count = (case makeslice elem (unat count) of Inl _ \<Rightarrow> Inl TPanic | Inr _ \<Rightarrow> Inr ())"

fun read_many :: "'a treader \<Rightarrow> nat \<Rightarrow> ('a list) treader" where
  "read_many rd 0 r = Inr ([], r)"
| "read_many rd (Suc n) r = res_bind (rd r) (\<lambda>(x, r1). res_bind (read_many rd n r1) (\<lambda>(xs, r2). Inr (x # xs, r2)))"

text \<open>The loop every list is read with: a slice of the announced capacity, then the items.\<close>

definition read_counted :: "nat \<Rightarrow> 'a treader \<Rightarrow> ('a list) treader" where
  "read_counted elem rd r =
     res_bind (tUvarint r) (\<lambda>(count, r1). res_bind (tmake elem count) (\<lambda>_. read_many rd (unat count) r1))"

definition readStringList :: "(string list) treader" where
  "readStringList = read_counted 16 tString"

definition readUint64List :: "(64 word list) treader" where
  "readUint64List = read_counted 8 tUvarint"

definition readPathSelector :: "(64 word \<times> 64 word list) treader" where
  "readPathSelector r = res_bind (tUvarint r) (\<lambda>(pc, r1). res_bind (readUint64List r1) (\<lambda>(ins, r2). Inr ((pc, ins), r2)))"

definition readPathSelectors :: "(64 word list \<times> 64 word list list) treader" where
  "readPathSelectors r = res_bind (tUvarint r) (\<lambda>(count, r1).
     res_bind (tmake 8 count) (\<lambda>_. res_bind (tmake 24 count) (\<lambda>_.
       res_bind (read_many readPathSelector (unat count) r1) (\<lambda>(ps, r2). Inr ((map fst ps, map snd ps), r2)))))"

definition readBool :: "bool treader" where
  "readBool r = res_bind (tUvarint r) (\<lambda>(v, r1). Inr (v \<noteq> 0, r1))"

definition readInt64AsUvarint :: "(64 word) treader" where
  "readInt64AsUvarint r = res_bind (tUvarint r) (\<lambda>(v, r1). if mask 63 < v then Inl TUnexpectedEOF else Inr (v, r1))"

definition read_entry :: "(string \<times> string) treader" where
  "read_entry r = res_bind (tString r) (\<lambda>(k, r1). res_bind (tString r1) (\<lambda>(v, r2). Inr ((k, v), r2)))"

definition readMetadata :: "((string, string) fmap) treader" where
  "readMetadata r = res_bind (tUvarint r) (\<lambda>(count, r1).
     if count = 0 then Inr (fmempty, r1)
     else res_bind (read_many read_entry (unat count) r1) (\<lambda>(es, r2). Inr (fold (\<lambda>(k, v) m. fmupd k v m) es fmempty, r2)))"

definition remainingAllZero :: "byte list \<Rightarrow> bool" where
  "remainingAllZero r \<longleftrightarrow> list_all (\<lambda>b. b = 0) r"

section \<open>The contract\<close>

locale codec =
  fixes wr :: "'a \<Rightarrow> byte list" and rd :: "'a treader" and ok :: "'a \<Rightarrow> bool"
  assumes read_write: "ok x \<Longrightarrow> rd (wr x @ rest) = Inr (x, rest)"
begin

lemma read_write_many:
  "\<forall>x\<in>set xs. ok x \<Longrightarrow> read_many rd (length xs) (concat (map wr xs) @ rest) = Inr (xs, rest)"
proof (induction xs)
  case Nil
  then show ?case by simp
next
  case (Cons x xs)
  then show ?case using read_write [of x "concat (map wr xs) @ rest"] by simp
qed

end

lemma tUvarint_write [wire_roundtrip]: "tUvarint (writeUvarint v @ rest) = Inr (v, rest)"
  by (simp add: tUvarint_def readUvarint_write)

definition fits_in :: "nat \<Rightarrow> nat \<Rightarrow> bool" where
  "fits_in elem n \<longleftrightarrow> elem * n \<le> 2 ^ 48 \<and> n < 2 ^ 63"

lemma fits_in_unat: "fits_in elem n \<Longrightarrow> unat (of_nat n :: 64 word) = n"
  by (rule unat_of_length) (simp add: fits_in_def)

lemma tmake_ok: "fits_in elem n \<Longrightarrow> tmake elem (of_nat n) = Inr ()"
  using fits_in_unat [of elem n] by (simp add: tmake_def makeslice_def fits_in_def)

context codec
begin

lemma read_write_counted:
  assumes "\<forall>x\<in>set xs. ok x" and "fits_in elem (length xs)"
  shows "read_counted elem rd (write_counted wr xs @ rest) = Inr (xs, rest)"
  using assms(2) read_write_many [OF assms(1), of rest]
  by (simp add: read_counted_def write_counted_def tUvarint_write tmake_ok fits_in_unat)

end

section \<open>Interpretations\<close>

definition short :: "'a list \<Rightarrow> bool" where
  "short xs \<longleftrightarrow> length xs < 2 ^ 63"

interpretation uvarint: codec writeUvarint tUvarint "\<lambda>_. True"
  by unfold_locales (rule tUvarint_write)

interpretation bytes: codec writeBytes tBytes short
proof unfold_locales
  fix x rest :: "byte list"
  assume "short x"
  then have "unat (of_nat (length x) :: 64 word) = length x" by (intro unat_of_length) (simp add: short_def)
  then show "tBytes (writeBytes x @ rest) = Inr (x, rest)" by (simp add: tBytes_def writeBytes_def tUvarint_write)
qed

interpretation str: codec writeString tString short
proof unfold_locales
  fix x :: string and rest assume "short x"
  then have "tBytes (writeBytes (map byte_of x) @ rest) = Inr (map byte_of x, rest)"
    by (intro bytes.read_write) (simp add: short_def)
  then show "tString (writeString x @ rest) = Inr (x, rest)"
    by (simp add: tString_def writeString_def writeBytes_def comp_def)
qed

definition ok_strings :: "string list \<Rightarrow> bool" where
  "ok_strings xs \<longleftrightarrow> (\<forall>x\<in>set xs. short x) \<and> fits_in 16 (length xs)"

interpretation strs: codec writeStringList readStringList ok_strings
  by unfold_locales (auto simp: ok_strings_def writeStringList_def readStringList_def intro!: str.read_write_counted)

definition ok_words :: "64 word list \<Rightarrow> bool" where
  "ok_words xs \<longleftrightarrow> fits_in 8 (length xs)"

interpretation words: codec writeUint64List readUint64List ok_words
  by unfold_locales (auto simp: ok_words_def writeUint64List_def readUint64List_def intro!: uvarint.read_write_counted)

interpretation selector: codec "\<lambda>(c, ins). writePathSelector c ins" readPathSelector "\<lambda>(c, ins). ok_words ins"
  by unfold_locales (auto simp: writePathSelector_def readPathSelector_def tUvarint_write words.read_write)

interpretation boolean: codec writeBool readBool "\<lambda>_. True"
  by unfold_locales (auto simp: writeBool_def readBool_def tUvarint_write)

interpretation entry: codec write_entry read_entry "\<lambda>e. short (fst e) \<and> short (snd e)"
  by unfold_locales (auto simp: write_entry_def read_entry_def str.read_write)

text \<open>The two lists of selectors travel as one list of pairs.\<close>

definition ok_selectors :: "64 word list \<Rightarrow> 64 word list list \<Rightarrow> bool" where
  "ok_selectors cs is \<longleftrightarrow> length is = length cs \<and> (\<forall>i\<in>set is. ok_words i) \<and> fits_in 24 (length cs)"

lemma enumerate_selectors:
  "length is = length cs \<Longrightarrow>
    map (\<lambda>(i, c). writeUvarint c @ writeUint64List (if i < length is then is ! i else [])) (enumerate 0 cs) =
    map (\<lambda>(c, i). writePathSelector c i) (zip cs is)"
  by (rule nth_equalityI) (simp_all add: nth_enumerate_eq writePathSelector_def)

lemma readPathSelectors_write [wire_roundtrip]:
  assumes "ok_selectors cs is"
  shows "readPathSelectors (writePathSelectors cs is @ rest) = Inr ((cs, is), rest)"
proof -
  have l: "length is = length cs" and f: "fits_in 24 (length cs)" "fits_in 8 (length cs)"
    using assms by (auto simp: ok_selectors_def fits_in_def)
  have "\<forall>x\<in>set (zip cs is). (\<lambda>(c, i). ok_words i) x"
    using assms by (auto simp: ok_selectors_def dest: set_zip_rightD)
  from selector.read_write_many [OF this, of rest] l
  have "read_many readPathSelector (length cs) (concat (map (\<lambda>(c, i). writePathSelector c i) (zip cs is)) @ rest) = Inr (zip cs is, rest)"
    by simp
  then show ?thesis using l f
    by (simp add: readPathSelectors_def writePathSelectors_def enumerate_selectors [OF l, simplified l] tUvarint_write tmake_ok fits_in_unat [OF f(1)])
qed

section \<open>Metadata\<close>

definition ok_metadata :: "(string, string) fmap \<Rightarrow> bool" where
  "ok_metadata m \<longleftrightarrow> (\<forall>k\<in>set (sorted_keys m). short k \<and> short (the (fmlookup m k))) \<and> short (sorted_keys m)"

lemma fmlookup_fold:
  "distinct ks \<Longrightarrow> fmlookup (fold (\<lambda>(k, v) m. fmupd k v m) (map (\<lambda>k. (k, f k)) ks) m0) k =
     (if k \<in> set ks then Some (f k) else fmlookup m0 k)"
  by (induction ks arbitrary: m0) auto

interpretation meta: codec writeMetadata readMetadata ok_metadata
proof unfold_locales
  fix m rest assume ok: "ok_metadata m"
  let ?ks = "sorted_keys m"
  let ?es = "map (\<lambda>k. (k, the (fmlookup m k))) ?ks"
  show "readMetadata (writeMetadata m @ rest) = Inr (m, rest)"
  proof (cases "m = fmempty")
    case True
    then show ?thesis by (simp add: writeMetadata_def readMetadata_def tUvarint_write)
  next
    case False
    have "set ?ks = fset (fmdom m)" by (simp add: sorted_keys_def)
    then have ne: "?ks \<noteq> []" using False by (metis empty_set fmrestrict_fset_dom fmrestrict_fset_null bot_fset.rep_eq fset_inject)
    have n: "unat (of_nat (length ?ks) :: 64 word) = length ?ks"
      using ok by (intro unat_of_length) (simp add: ok_metadata_def short_def)
    then have nz: "(of_nat (length ?ks) :: 64 word) \<noteq> 0" using ne by (metis length_0_conv unat_0)
    have "\<forall>e\<in>set ?es. short (fst e) \<and> short (snd e)" using ok by (auto simp: ok_metadata_def)
    from entry.read_write_many [OF this, of rest]
    have rd: "read_many read_entry (length ?ks) (concat (map write_entry ?es) @ rest) = Inr (?es, rest)" by simp
    have "fold (\<lambda>(k, v) m. fmupd k v m) ?es fmempty = m"
    proof (rule fmap_ext)
      fix k
      have "set ?ks = fset (fmdom m)" "distinct ?ks" by (simp_all add: sorted_keys_def sorted_list_of_fset.rep_eq)
      then have "fmlookup (fold (\<lambda>(k, v) m. fmupd k v m) ?es fmempty) k = (if k |\<in>| fmdom m then Some (the (fmlookup m k)) else None)"
        using fmlookup_fold [of ?ks "\<lambda>k. the (fmlookup m k)" fmempty k] by simp
      also have "\<dots> = fmlookup m k"
        by (cases "fmlookup m k") (auto simp: fmlookup_dom_iff)
      finally show "fmlookup (fold (\<lambda>(k, v) m. fmupd k v m) ?es fmempty) k = fmlookup m k" .
    qed
    with rd n nz False show ?thesis
      by (simp add: writeMetadata_def readMetadata_def write_counted_def tUvarint_write del: map_map)
  qed
qed

lemmas codec_roundtrip [wire_roundtrip] = bytes.read_write str.read_write strs.read_write words.read_write
  boolean.read_write meta.read_write

section \<open>Flags\<close>

lemma has_flag_bit: "k < 8 \<Longrightarrow> has_flag k w \<longleftrightarrow> bit w k"
  by (simp add: has_flag_def bit_iff_and_push_bit_not_eq_0)

lemma bit_flag: "j < 8 \<Longrightarrow> bit (flag j b) k \<longleftrightarrow> b \<and> j = k"
  by (auto simp: flag_def bit_exp_iff)

end
