(* ===== verification/Stream_Frames.thy ===== *)
theory Stream_Frames
  imports Codec
begin

text \<open>
  The frames of a transfer stream, \<open>src/internal/wusp/usp_stream.go\<close>: session and request numbers, sequence
  numbers and offsets, optional strings and metadata, and a chunk of data that is compressed when a
  sample of it looks compressible. The fixed part of a frame is 45 bytes, but the decoder only requires
  37: a shorter frame is a panic (\<open>TPanic\<close>) of the slice expressions that read it.
\<close>

unbundle bit_operations_syntax

section \<open>The code\<close>

type_synonym USPAgentMethod = byte
type_synonym USPTransferStreamPhase = byte

definition USPAgentMethodUpload :: USPAgentMethod where "USPAgentMethodUpload = 10"
definition USPAgentMethodDownload :: USPAgentMethod where "USPAgentMethodDownload = 11"

definition USPTransferStreamOpen :: USPTransferStreamPhase where "USPTransferStreamOpen = 1"
definition USPTransferStreamChunk :: USPTransferStreamPhase where "USPTransferStreamChunk = 2"
definition USPTransferStreamAck :: USPTransferStreamPhase where "USPTransferStreamAck = 3"
definition USPTransferStreamComplete :: USPTransferStreamPhase where "USPTransferStreamComplete = 4"
definition USPTransferStreamAbort :: USPTransferStreamPhase where "USPTransferStreamAbort = 5"

definition uspTransferStreamVersion :: byte where "uspTransferStreamVersion = 1"
definition uspTransferStreamMagic :: byte where "uspTransferStreamMagic = 0x53"

lemmas stream_consts = USPAgentMethodUpload_def USPAgentMethodDownload_def USPTransferStreamOpen_def USPTransferStreamChunk_def
  USPTransferStreamAck_def USPTransferStreamComplete_def USPTransferStreamAbort_def uspTransferStreamVersion_def uspTransferStreamMagic_def

record USPTransferStreamFrame =
  sSessionID :: "64 word"
  sRequestID :: "64 word"
  sMethod :: USPAgentMethod
  sPhase :: USPTransferStreamPhase
  sSequence :: "32 word"
  sAckSequence :: "32 word"
  sOffset :: "64 word"
  sTotalSize :: "64 word"
  sPath :: string
  sFilename :: string
  sContentType :: string
  sMetadata :: "(string, string) fmap"
  sData :: "byte list"
  sFinal :: bool

definition validateUSPTransferStreamFrame :: "USPTransferStreamFrame \<Rightarrow> usp_error + unit" where
  "validateUSPTransferStreamFrame f =
     (if sMethod f \<noteq> USPAgentMethodUpload \<and> sMethod f \<noteq> USPAgentMethodDownload then Inl (TUnsupported ''stream method'')
      else if sPhase f \<notin> {USPTransferStreamOpen, USPTransferStreamChunk, USPTransferStreamAck, USPTransferStreamComplete, USPTransferStreamAbort}
        then Inl (TUnsupported ''stream phase'')
      else if sPhase f = USPTransferStreamChunk \<and> length (sData f) = 0
        then Inl (TValidation '''' ''stream chunk frame missing payload'')
      else Inr ())"

definition OnesCount64 :: "64 word \<Rightarrow> nat" where
  "OnesCount64 w = length (filter (bit w) [0..<64])"

text \<open>The sample loop: the set of the bytes seen, the repetitions and the last byte.\<close>

fun sample_loop :: "64 word list \<Rightarrow> nat \<Rightarrow> byte option \<Rightarrow> byte list \<Rightarrow> 64 word list \<times> nat" where
  "sample_loop seen repeats prev [] = (seen, repeats)"
| "sample_loop seen repeats prev (b # bs) =
     (let k = unat (drop_bit 6 b) in
      sample_loop (seen[k := seen ! k OR push_bit (unat (b AND 63)) 1]) (if prev = Some b then Suc repeats else repeats) (Some b) bs)"

definition likelyCompressibleUSPTransferChunk :: "byte list \<Rightarrow> bool" where
  "likelyCompressibleUSPTransferChunk bs =
     (let sampleSize = min (length bs) 256 in
      if sampleSize < 64 then False
      else let (seen, repeats) = sample_loop [0, 0, 0, 0] 0 None (take sampleSize bs) in
           if sampleSize div 16 \<le> repeats then True
           else sum_list (map OnesCount64 seen) \<le> sampleSize div 2)"

definition compressUSPTransferChunk :: "byte list \<Rightarrow> byte list option" where
  "compressUSPTransferChunk bs =
     (if length bs < 256 \<or> \<not> likelyCompressibleUSPTransferChunk bs then None
      else case compress bs of
             None \<Rightarrow> None
           | Some c \<Rightarrow> (if length c = 0 \<or> length bs \<le> length c then None else Some c))"

definition decompressUSPTransferChunk :: "byte list \<Rightarrow> int \<Rightarrow> usp_error + byte list" where
  "decompressUSPTransferChunk bs rawSize =
     (if rawSize < 0 \<or> 2 ^ 48 < rawSize then Inl TPanic
      else case decompress bs (nat rawSize) of Inl e \<Rightarrow> Inl (TLz4 e) | Inr raw \<Rightarrow> Inr raw)"

definition stream_flags :: "USPTransferStreamFrame \<Rightarrow> bool \<Rightarrow> byte list \<Rightarrow> byte" where
  "stream_flags f compressed payload =
     flag 0 (sFinal f) OR flag 1 (TrimSpace (sPath f) \<noteq> '''') OR flag 2 (TrimSpace (sFilename f) \<noteq> '''')
     OR flag 3 (TrimSpace (sContentType f) \<noteq> '''') OR flag 4 (sMetadata f \<noteq> fmempty) OR flag 5 compressed
     OR flag 6 (0 < length payload)"

definition EncodeUSPTransferStreamFrame :: "USPTransferStreamFrame \<Rightarrow> usp_error + byte list" where
  "EncodeUSPTransferStreamFrame f =
     res_bind (validateUSPTransferStreamFrame f) (\<lambda>_.
       let cmp = compressUSPTransferChunk (sData f);
           payload = (case cmp of None \<Rightarrow> sData f | Some c \<Rightarrow> c);
           flags = stream_flags f (cmp \<noteq> None) payload
       in Inr ([uspTransferStreamMagic, uspTransferStreamVersion, sPhase f, sMethod f, flags]
            @ put64 (sSessionID f) @ put64 (sRequestID f) @ put32 (sSequence f) @ put32 (sAckSequence f)
            @ put64 (sOffset f) @ put64 (sTotalSize f)
            @ (if has_flag 1 flags then writeString (sPath f) else [])
            @ (if has_flag 2 flags then writeString (sFilename f) else [])
            @ (if has_flag 3 flags then writeString (sContentType f) else [])
            @ (if has_flag 4 flags then writeMetadata (sMetadata f) else [])
            @ (if has_flag 6 flags
               then (if has_flag 5 flags then writeUvarint (of_nat (length (sData f))) else []) @ writeBytes payload
               else [])))"

text \<open>The optional parts are read only when their flag is set.\<close>

definition when_flag :: "bool \<Rightarrow> 'a \<Rightarrow> 'a treader \<Rightarrow> 'a treader" where
  "when_flag b d rd r = (if b then rd r else Inr (d, r))"

definition read_chunk :: "byte \<Rightarrow> (byte list) treader" where
  "read_chunk flags r =
     (if \<not> has_flag 6 flags then Inr ([], r)
      else res_bind (when_flag (has_flag 5 flags) 0 tUvarint r) (\<lambda>(rawSize, r1).
           res_bind (tBytes r1) (\<lambda>(bs, r2).
             if has_flag 5 flags then res_bind (decompressUSPTransferChunk bs (sint rawSize)) (\<lambda>raw. Inr (raw, r2))
             else Inr (bs, r2))))"

definition slice_of :: "nat \<Rightarrow> nat \<Rightarrow> byte list \<Rightarrow> byte list" where
  "slice_of i n bs = take n (drop i bs)"

definition DecodeUSPTransferStreamFrame :: "byte list \<Rightarrow> usp_error + USPTransferStreamFrame" where
  "DecodeUSPTransferStreamFrame bs =
     (if length bs < 37 then Inl (TMalformed ''transfer stream payload too short'')
      else if bs ! 0 \<noteq> uspTransferStreamMagic then Inl (TUnsupported ''transfer stream magic'')
      else if bs ! 1 \<noteq> uspTransferStreamVersion then Inl (TUnsupported ''transfer stream version'')
      else if length bs < 45 then Inl TPanic
      else
        let flags = bs ! 4; d = drop 5 bs in
        res_bind (when_flag (has_flag 1 flags) '''' tString (drop 40 d)) (\<lambda>(path, r1).
        res_bind (when_flag (has_flag 2 flags) '''' tString r1) (\<lambda>(filename, r2).
        res_bind (when_flag (has_flag 3 flags) '''' tString r2) (\<lambda>(contentType, r3).
        res_bind (when_flag (has_flag 4 flags) fmempty readMetadata r3) (\<lambda>(metadata, r4).
        res_bind (read_chunk flags r4) (\<lambda>(chunk, r5).
          if r5 \<noteq> [] \<and> \<not> remainingAllZero r5 then Inl (TMalformed ''trailing transfer stream data'')
          else
            let f = \<lparr> sSessionID = get64 (slice_of 0 8 d), sRequestID = get64 (slice_of 8 8 d), sMethod = bs ! 3, sPhase = bs ! 2,
                      sSequence = get32 (slice_of 16 4 d), sAckSequence = get32 (slice_of 20 4 d), sOffset = get64 (slice_of 24 8 d),
                      sTotalSize = get64 (slice_of 32 8 d), sPath = path, sFilename = filename, sContentType = contentType,
                      sMetadata = metadata, sData = chunk, sFinal = has_flag 0 flags \<rparr>
            in res_bind (validateUSPTransferStreamFrame f) (\<lambda>_. Inr f)))))))"

section \<open>Round trip\<close>

text \<open>A string of white space only is not sent.\<close>

definition unblank :: "string \<Rightarrow> string" where
  "unblank s = (if TrimSpace s = '''' then '''' else s)"

definition received :: "USPTransferStreamFrame \<Rightarrow> USPTransferStreamFrame" where
  "received f = f\<lparr> sPath := unblank (sPath f), sFilename := unblank (sFilename f), sContentType := unblank (sContentType f) \<rparr>"

definition ok_frame :: "USPTransferStreamFrame \<Rightarrow> bool" where
  "ok_frame f \<longleftrightarrow> short (sPath f) \<and> short (sFilename f) \<and> short (sContentType f) \<and> ok_metadata (sMetadata f) \<and> length (sData f) \<le> 2 ^ 48"

lemma stream_flag_bits:
  "has_flag 0 (stream_flags f c p) = sFinal f" "has_flag 1 (stream_flags f c p) = (TrimSpace (sPath f) \<noteq> '''')"
  "has_flag 2 (stream_flags f c p) = (TrimSpace (sFilename f) \<noteq> '''')" "has_flag 3 (stream_flags f c p) = (TrimSpace (sContentType f) \<noteq> '''')"
  "has_flag 4 (stream_flags f c p) = (sMetadata f \<noteq> fmempty)" "has_flag 5 (stream_flags f c p) = c"
  "has_flag 6 (stream_flags f c p) = (0 < length p)"
  by (simp_all add: has_flag_bit stream_flags_def bit_or_iff bit_flag)

lemma stream_header:
  assumes "d = put64 a @ put64 b @ put32 c @ put32 e @ put64 g @ put64 h @ rest"
  shows "get64 (slice_of 0 8 d) = a" "get64 (slice_of 8 8 d) = b" "get32 (slice_of 16 4 d) = c" "get32 (slice_of 20 4 d) = e"
    "get64 (slice_of 24 8 d) = g" "get64 (slice_of 32 8 d) = h" "drop 40 d = rest" "40 \<le> length d"
  using assms get64_put64 [of _ "[]"] get32_put32 [of _ "[]"] by (simp_all add: slice_of_def)

lemma when_flag_string [wire_roundtrip]:
  "short s \<Longrightarrow> when_flag (TrimSpace s \<noteq> '''') '''' tString ((if TrimSpace s \<noteq> '''' then writeString s else []) @ rest) = Inr (unblank s, rest)"
  by (simp add: when_flag_def unblank_def str.read_write)

lemma when_flag_metadata [wire_roundtrip]:
  "ok_metadata m \<Longrightarrow> when_flag (m \<noteq> fmempty) fmempty readMetadata ((if m \<noteq> fmempty then writeMetadata m else []) @ rest) = Inr (m, rest)"
  by (simp add: when_flag_def meta.read_write)

lemma compressed_chunk:
  assumes "compressUSPTransferChunk bs = Some c"
  shows "decompress c (length bs) = Inr bs" "c \<noteq> []" "length c < length bs"
  using assms decompress_compress [of bs c] by (auto simp: compressUSPTransferChunk_def split: if_splits option.splits)

lemma read_chunk_write:
  assumes "length bs \<le> 2 ^ 48" and "cmp = compressUSPTransferChunk bs" and "payload = (case cmp of None \<Rightarrow> bs | Some c \<Rightarrow> c)"
    and "has_flag 5 flags = (cmp \<noteq> None)" and "has_flag 6 flags = (0 < length payload)"
  shows "read_chunk flags ((if has_flag 6 flags
       then (if has_flag 5 flags then writeUvarint (of_nat (length bs)) else []) @ writeBytes payload else []) @ rest) = Inr (bs, rest)"
proof (cases cmp)
  case None
  then show ?thesis using assms
    by (auto simp: read_chunk_def when_flag_def bytes.read_write short_def)
next
  case (Some c)
  then have c: "decompress c (length bs) = Inr bs" "c \<noteq> []" "length c < length bs" using compressed_chunk assms(2) by metis+
  have "sint (of_nat (length bs) :: 64 word) = int (length bs)" using assms(1) by (intro sint_of_length) simp
  moreover have "has_flag 5 flags" "has_flag 6 flags" "payload = c" using assms(3-5) Some c(2) by simp_all
  ultimately show ?thesis using assms(1) c
    by (simp add: read_chunk_def when_flag_def tUvarint_write bytes.read_write short_def decompressUSPTransferChunk_def)
qed

lemma validate_received: "validateUSPTransferStreamFrame (received f) = validateUSPTransferStreamFrame f"
  by (simp add: validateUSPTransferStreamFrame_def received_def)

text \<open>
  C14. A valid frame is encoded, and decoding returns the frame with every number, its metadata and its data,
  compressed or not, also when the datagram is padded with zeros; only strings of white space are dropped.
\<close>

theorem stream_roundtrip:
  assumes "validateUSPTransferStreamFrame f = Inr ()" and "ok_frame f"
  shows "\<exists>bs. EncodeUSPTransferStreamFrame f = Inr bs \<and>
    (\<forall>n. DecodeUSPTransferStreamFrame (bs @ replicate n 0) = Inr (received f))"
proof -
  define cmp where "cmp = compressUSPTransferChunk (sData f)"
  define payload where "payload = (case cmp of None \<Rightarrow> sData f | Some c \<Rightarrow> c)"
  define flags where "flags = stream_flags f (cmp \<noteq> None) payload"
  note fb = stream_flag_bits [of f "cmp \<noteq> None" payload, folded flags_def]
  define d where "d = put64 (sSessionID f) @ put64 (sRequestID f) @ put32 (sSequence f) @ put32 (sAckSequence f)
            @ put64 (sOffset f) @ put64 (sTotalSize f)"
  define body where "body = (if has_flag 1 flags then writeString (sPath f) else [])
            @ (if has_flag 2 flags then writeString (sFilename f) else [])
            @ (if has_flag 3 flags then writeString (sContentType f) else [])
            @ (if has_flag 4 flags then writeMetadata (sMetadata f) else [])
            @ (if has_flag 6 flags
               then (if has_flag 5 flags then writeUvarint (of_nat (length (sData f))) else []) @ writeBytes payload
               else [])"
  let ?h = "[uspTransferStreamMagic, uspTransferStreamVersion, sPhase f, sMethod f, flags]"
  have e: "EncodeUSPTransferStreamFrame f = Inr (?h @ d @ body)"
    using assms(1) by (simp add: EncodeUSPTransferStreamFrame_def Let_def cmp_def payload_def flags_def d_def body_def)
  have chunk: "read_chunk flags ((if has_flag 6 flags
       then (if has_flag 5 flags then writeUvarint (of_nat (length (sData f))) else []) @ writeBytes payload else []) @ rest) = Inr (sData f, rest)" for rest
    using assms(2) fb by (intro read_chunk_write [OF _ cmp_def payload_def]) (simp_all add: ok_frame_def)
  have "DecodeUSPTransferStreamFrame ((?h @ d @ body) @ replicate n 0) = Inr (received f)" for n
  proof -
    let ?d = "d @ body @ replicate n 0"
    note sh = stream_header [of ?d "sSessionID f" "sRequestID f" "sSequence f" "sAckSequence f" "sOffset f" "sTotalSize f" "body @ replicate n 0"]
    have dd: "?d = put64 (sSessionID f) @ put64 (sRequestID f) @ put32 (sSequence f) @ put32 (sAckSequence f)
        @ put64 (sOffset f) @ put64 (sTotalSize f) @ body @ replicate n 0" by (simp add: d_def)
    note sh = sh [OF dd]
    have ld: "length d = 40" by (simp add: d_def)
    have z: "remainingAllZero (replicate n 0)" by (simp add: remainingAllZero_def list_all_iff)
    have ok: "short (sPath f)" "short (sFilename f)" "short (sContentType f)" "ok_metadata (sMetadata f)" using assms(2) by (simp_all add: ok_frame_def)
    have nth: "((?h @ d @ body) @ replicate n 0) ! 0 = uspTransferStreamMagic" "((?h @ d @ body) @ replicate n 0) ! 1 = uspTransferStreamVersion"
      "((?h @ d @ body) @ replicate n 0) ! 2 = sPhase f" "((?h @ d @ body) @ replicate n 0) ! 3 = sMethod f"
      "((?h @ d @ body) @ replicate n 0) ! 4 = flags" "drop 5 ((?h @ d @ body) @ replicate n 0) = ?d"
      "\<not> length ((?h @ d @ body) @ replicate n 0) < 37" "\<not> length ((?h @ d @ body) @ replicate n 0) < 45"
      by (simp_all add: d_def)
    have rec: "\<lparr> sSessionID = sSessionID f, sRequestID = sRequestID f, sMethod = sMethod f, sPhase = sPhase f,
                      sSequence = sSequence f, sAckSequence = sAckSequence f, sOffset = sOffset f,
                      sTotalSize = sTotalSize f, sPath = unblank (sPath f), sFilename = unblank (sFilename f), sContentType = unblank (sContentType f),
                      sMetadata = sMetadata f, sData = sData f, sFinal = sFinal f \<rparr> = received f"
      by (cases f) (simp add: received_def)
    show ?thesis
      unfolding DecodeUSPTransferStreamFrame_def nth Let_def sh
      unfolding body_def append_assoc fb(1-5) when_flag_string [OF ok(1)] when_flag_string [OF ok(2)] when_flag_string [OF ok(3)]
        when_flag_metadata [OF ok(4)] res_bind.simps prod.case chunk rec
      using assms(1) z ld by (simp add: validate_received)
  qed
  with e show ?thesis by blast
qed

text \<open>
  The decoder tests for 37 bytes where the fixed part of a frame has 45: a datagram of a length in between
  with the right magic and version reaches a slice expression out of range.
\<close>

lemma stream_short_frame_panics:
  assumes "37 \<le> length bs" and "length bs < 45" and "bs ! 0 = uspTransferStreamMagic" and "bs ! 1 = uspTransferStreamVersion"
  shows "DecodeUSPTransferStreamFrame bs = Inl TPanic"
  using assms by (simp add: DecodeUSPTransferStreamFrame_def)

section \<open>Witnesses\<close>

definition stream_demo :: USPTransferStreamFrame where
  "stream_demo = \<lparr> sSessionID = 5, sRequestID = 6, sMethod = USPAgentMethodUpload, sPhase = USPTransferStreamChunk, sSequence = 1,
     sAckSequence = 0, sOffset = 0, sTotalSize = 3, sPath = ''Device.'', sFilename = '' '', sContentType = '''', sMetadata = fmempty,
     sData = [1, 2, 3], sFinal = True \<rparr>"

theorem stream_roundtrip_witness:
  "\<exists>bs. EncodeUSPTransferStreamFrame stream_demo = Inr bs \<and> DecodeUSPTransferStreamFrame (bs @ [0, 0]) = Inr (received stream_demo)"
proof -
  have "validateUSPTransferStreamFrame stream_demo = Inr ()" by (simp add: validateUSPTransferStreamFrame_def stream_demo_def stream_consts)
  moreover have "ok_frame stream_demo" by (simp add: ok_frame_def stream_demo_def short_def ok_metadata_def sorted_keys_def sorted_list_of_fset.rep_eq)
  ultimately obtain bs where "EncodeUSPTransferStreamFrame stream_demo = Inr bs"
      "\<And>n. DecodeUSPTransferStreamFrame (bs @ replicate n 0) = Inr (received stream_demo)"
    using stream_roundtrip by blast
  from this(1) this(2) [of 2] show ?thesis by (auto simp: numeral_2_eq_2)
qed

end
