(* ===== verification/Message_Registry.thy ===== *)
theory Message_Registry
  imports Message
begin

text \<open>
  The path registry and the messages built with \<open>Set\<close>: an identifier of the registry leads back to its path,
  a message built on a registry keeps paths unique and identifiers resolvable, and the frames made
  from it are read back by every decoder that shares the registry. A decoder with another
  registry reads the fields under whatever paths its own registry gives to the identifiers.
\<close>

section \<open>The registry\<close>

lemma fold_map_other:
  "q \<notin> set ps \<Longrightarrow> fold (\<lambda>(i, p) m. m(p \<mapsto> f i)) (enumerate k ps) m0 q = m0 q"
  by (induction ps arbitrary: k m0) auto

lemma fold_map_nth:
  "distinct ps \<Longrightarrow> j < length ps \<Longrightarrow> fold (\<lambda>(i, p) m. m(p \<mapsto> f i)) (enumerate k ps) m0 (ps ! j) = Some (f (k + j))"
proof (induction ps arbitrary: k m0 j)
  case Nil
  then show ?case by simp
next
  case (Cons p ps)
  show ?case
  proof (cases j)
    case 0
    then show ?thesis using Cons.prems fold_map_other [of p ps f "Suc k" "m0(p \<mapsto> f k)"]
      by (simp del: fun_upd_apply) simp
  next
    case (Suc i)
    then show ?thesis using Cons.IH [of i "Suc k" "m0(p \<mapsto> f k)"] Cons.prems by simp
  qed
qed

lemma IDFor_absent: "path \<notin> set params \<Longrightarrow> IDFor (buildRegistry params) path = (0, False)"
  using fold_map_other [of path "sort params" "\<lambda>i. of_nat (i + 1) :: 16 word" 0 Map.empty]
  by (simp add: IDFor_def buildRegistry_def Let_def)

lemma IDFor_present:
  assumes "distinct params" and "length params < 2 ^ 16" and "path \<in> set params"
  obtains i where "IDFor (buildRegistry params) path = (i, True)" "i \<noteq> 0" "PathForID (buildRegistry params) i = Some path"
proof -
  let ?s = "sort params"
  obtain j where j: "j < length ?s" "?s ! j = path" using assms(3) by (metis in_set_conv_nth set_sort)
  let ?i = "of_nat (j + 1) :: 16 word"
  have u: "unat ?i = j + 1" using j(1) assms(2) by (simp add: unat_of_nat del: of_nat_add of_nat_Suc)
  have nz: "?i \<noteq> 0" using u by (metis unat_0 add_is_0 one_neq_zero)
  have d: "distinct ?s" using assms(1) by simp
  have "pathToID (buildRegistry params) path = Some ?i"
    using fold_map_nth [OF d j(1), of "\<lambda>i. of_nat (i + 1) :: 16 word" 0 Map.empty] j(2)
    by (simp add: buildRegistry_def Let_def)
  moreover have "PathForID (buildRegistry params) ?i = Some path"
    using nz u j by (simp add: PathForID_def buildRegistry_def Let_def del: of_nat_add of_nat_Suc)
  ultimately show ?thesis using nz that by (simp add: IDFor_def del: of_nat_add of_nat_Suc)
qed

section \<open>Messages built with Set\<close>

definition paths_of :: "Message \<Rightarrow> string list" where
  "paths_of m = map Path (Fields m)"

definition resolvable :: "registry \<Rightarrow> Message \<Rightarrow> bool" where
  "resolvable reg m \<longleftrightarrow> (\<forall>f\<in>set (Fields m). field_id f \<noteq> 0 \<longrightarrow> PathForID reg (field_id f) = Some (Path f))"

definition set_all :: "registry \<Rightarrow> (string \<times> Value) list \<Rightarrow> Message \<Rightarrow> Message" where
  "set_all reg ops m = foldl (\<lambda>m (p, v). Message_Set reg m p v) m ops"

lemma set_all_simps [simp]:
  "set_all reg [] m = m" "set_all reg ((p, v) # ops) m = set_all reg ops (Message_Set reg m p v)"
  by (simp_all add: set_all_def)

lemma find_update_first:
  assumes "\<And>f. Path (g f) = Path f"
  shows "find (\<lambda>f. Path f = q) (update_first (\<lambda>f. Path f = p) g fs) =
    (if q = p then map_option g (find (\<lambda>f. Path f = p) fs) else find (\<lambda>f. Path f = q) fs)"
  using assms by (induction fs) auto

lemma Get_Set: "Message_Get (Message_Set reg m p v) q = (if q = p then (v, True) else Message_Get m q)"
proof (cases "\<exists>f\<in>set (Fields m). Path f = p")
  case True
  then obtain f where f: "find (\<lambda>f. Path f = p) (Fields m) = Some f"
    by (metis (mono_tags, lifting) find_None_iff not_None_eq)
  then show ?thesis using True find_update_first [of "\<lambda>f. f\<lparr> Val := v \<rparr>" q p "Fields m"]
    by (simp add: Message_Get_def Message_Set_def)
next
  case False
  have a: "find (\<lambda>f. Path f = q) (fs @ [g]) = (case find (\<lambda>f. Path f = q) fs of None \<Rightarrow> if Path g = q then Some g else None | Some f \<Rightarrow> Some f)" for fs g q
    by (induction fs) auto
  have "find (\<lambda>f. Path f = p) (Fields m) = None" using False by (auto simp: find_None_iff)
  then show ?thesis using False by (auto simp: Message_Get_def Message_Set_def a split: option.split)
qed

lemma paths_of_Set: "paths_of (Message_Set reg m p v) = (if p \<in> set (paths_of m) then paths_of m else paths_of m @ [p])"
proof -
  have "map Path (update_first (\<lambda>f. Path f = p) (\<lambda>f. f\<lparr> Val := v \<rparr>) fs) = map Path fs" for fs :: "Field list"
    by (induction fs) auto
  then show ?thesis by (auto simp: paths_of_def Message_Set_def)
qed

lemma update_first_Val:
  "f \<in> set (update_first P (\<lambda>f. f\<lparr> Val := v \<rparr>) fs) \<Longrightarrow> f \<in> set fs \<or> (\<exists>g\<in>set fs. f = g\<lparr> Val := v \<rparr>)"
  by (induction fs) (auto split: if_splits)

lemma Set_fields:
  "f \<in> set (Fields (Message_Set reg m p v)) \<Longrightarrow> f \<in> set (Fields m) \<or> (\<exists>g\<in>set (Fields m). f = g\<lparr> Val := v \<rparr>) \<or>
     f = \<lparr> field_id = fst (IDFor reg p), Path = p, Val = v \<rparr>"
  by (auto simp: Message_Set_def split: if_splits dest: update_first_Val)

lemma resolvable_Set:
  assumes "resolvable reg m" and "\<And>i. IDFor reg p = (i, True) \<Longrightarrow> PathForID reg i = Some p"
    and "snd (IDFor reg p) \<or> fst (IDFor reg p) = 0"
  shows "resolvable reg (Message_Set reg m p v)"
  unfolding resolvable_def
proof (intro ballI impI)
  fix f assume "f \<in> set (Fields (Message_Set reg m p v))" "field_id f \<noteq> 0"
  then show "PathForID reg (field_id f) = Some (Path f)"
    using Set_fields [of f reg m p v] assms by (cases "IDFor reg p") (auto simp: resolvable_def)
qed

lemma sendable_Set:
  assumes "\<forall>f\<in>set (Fields m). sendable f" and "wf_value v" and "length p < 2 ^ 63"
  shows "\<forall>f\<in>set (Fields (Message_Set reg m p v)). sendable f"
proof
  fix f assume "f \<in> set (Fields (Message_Set reg m p v))"
  then show "sendable f" using Set_fields [of f reg m p v] assms by (auto simp: sendable_def)
qed

lemma length_Set: "length (Fields (Message_Set reg m p v)) \<le> Suc (length (Fields m))"
  by (simp add: Message_Set_def)

lemma header_Set [simp]: "DeviceID (Message_Set reg m p v) = DeviceID m" "Timestamp (Message_Set reg m p v) = Timestamp m"
  by (simp_all add: Message_Set_def)

lemma set_all_invariant:
  assumes "distinct params" and "length params < 2 ^ 16"
    and "\<forall>(p, v)\<in>set ops. wf_value v \<and> length p < 2 ^ 63"
    and "resolvable (buildRegistry params) m" and "\<forall>f\<in>set (Fields m). sendable f" and "distinct (paths_of m)"
  shows "resolvable (buildRegistry params) (set_all (buildRegistry params) ops m) \<and>
    (\<forall>f\<in>set (Fields (set_all (buildRegistry params) ops m)). sendable f) \<and>
    distinct (paths_of (set_all (buildRegistry params) ops m)) \<and>
    length (Fields (set_all (buildRegistry params) ops m)) \<le> length (Fields m) + length ops"
  using assms(3-)
proof (induction ops arbitrary: m)
  case Nil
  then show ?case by simp
next
  case (Cons op ops)
  obtain p v where op: "op = (p, v)" by force
  let ?reg = "buildRegistry params"
  have "resolvable ?reg (Message_Set ?reg m p v)"
  proof (cases "p \<in> set params")
    case True
    then obtain i where "IDFor ?reg p = (i, True)" "PathForID ?reg i = Some p"
      by (rule IDFor_present [OF assms(1,2)])
    then show ?thesis using Cons.prems(2) by (intro resolvable_Set) auto
  next
    case False
    then show ?thesis using Cons.prems(2) by (intro resolvable_Set) (simp_all add: IDFor_absent)
  qed
  moreover have "\<forall>f\<in>set (Fields (Message_Set ?reg m p v)). sendable f"
    using Cons.prems op by (intro sendable_Set) auto
  moreover have "distinct (paths_of (Message_Set ?reg m p v))" using Cons.prems(4) by (simp add: paths_of_Set)
  ultimately show ?case using Cons.IH [of "Message_Set ?reg m p v"] Cons.prems(1) op length_Set [of ?reg m p v] by auto
qed

lemma header_set_all [simp]:
  "DeviceID (set_all reg ops m) = DeviceID m" "Timestamp (set_all reg ops m) = Timestamp m"
  by (induction ops arbitrary: m) auto

lemma read_own_fields:
  assumes "\<forall>f\<in>set fs. field_id f \<noteq> 0 \<longrightarrow> PathForID reg (field_id f) = Some (Path f)"
  shows "read_fields reg skip fs = fs"
  using assms
proof (induction fs)
  case Nil
  then show ?case by simp
next
  case (Cons f fs)
  then have "as_read reg skip f = Some f" by (cases f) (auto simp: as_read_def)
  with Cons show ?case by simp
qed

text \<open>The message a client builds: a device, a time and a sequence of parameters.\<close>

definition build :: "registry \<Rightarrow> string \<Rightarrow> gotime \<Rightarrow> (string \<times> Value) list \<Rightarrow> Message" where
  "build reg dev ts ops = set_all reg ops (NewMessage\<lparr> DeviceID := dev, Timestamp := ts \<rparr>)"

lemma build_header [simp]: "DeviceID (build reg dev ts ops) = dev" "Timestamp (build reg dev ts ops) = ts"
  by (simp_all add: build_def)

lemma build_ok:
  assumes "distinct params" and "length params < 2 ^ 16"
    and "\<forall>(p, v)\<in>set ops. wf_value v \<and> length p < 2 ^ 63" and "96 * length ops \<le> 2 ^ 48" and "length dev < 2 ^ 63"
  shows "wf_message (build (buildRegistry params) dev ts ops)" "resolvable (buildRegistry params) (build (buildRegistry params) dev ts ops)"
    "distinct (paths_of (build (buildRegistry params) dev ts ops))"
proof -
  let ?m = "NewMessage\<lparr> DeviceID := dev, Timestamp := ts \<rparr>"
  have "resolvable (buildRegistry params) ?m" "\<forall>f\<in>set (Fields ?m). sendable f" "distinct (paths_of ?m)"
    by (simp_all add: resolvable_def NewMessage_def paths_of_def)
  note i = set_all_invariant [OF assms(1-3) this]
  then show "resolvable (buildRegistry params) (build (buildRegistry params) dev ts ops)"
    "distinct (paths_of (build (buildRegistry params) dev ts ops))" by (simp_all add: build_def)
  show "wf_message (build (buildRegistry params) dev ts ops)"
    using i assms(4,5) build_header(1) [of "buildRegistry params" dev ts ops]
    unfolding wf_message_def by (simp add: build_def NewMessage_def)
qed

text \<open>
  A message built with \<open>Set\<close> on a registry of distinct paths is encoded without an error under every option,
  and a decoder with the same registry returns the very message (less the device and the time
  when the options leave them out), compressed or not, as long as a compressed payload is shorter than 4 GiB.
\<close>

theorem message_roundtrip:
  assumes "distinct params" and "length params < 2 ^ 16"
    and "\<forall>(p, v)\<in>set ops. wf_value v \<and> length p < 2 ^ 63" and "96 * length ops \<le> 2 ^ 48" and "length dev < 2 ^ 63"
    and "time_ok opts (build (buildRegistry params) dev ts ops)"
  shows "\<exists>p data. encode_payload opts (build (buildRegistry params) dev ts ops) = Inr p \<and>
    Encode (buildRegistry params) opts (build (buildRegistry params) dev ts ops) = Inr data \<and>
    ((Compress opts \<longrightarrow> length p < 2 ^ 32) \<longrightarrow>
      Decode (buildRegistry params) dopts data = Inr (sent opts (build (buildRegistry params) dev ts ops)))"
proof -
  let ?m = "build (buildRegistry params) dev ts ops"
  note b = build_ok [OF assms(1-5), of ts]
  have "read_fields (buildRegistry params) (SkipUnknownFields dopts) (Fields ?m) = Fields ?m"
    using b(2) by (intro read_own_fields) (simp add: resolvable_def)
  then have "(sent opts ?m)\<lparr> Fields := read_fields (buildRegistry params) (SkipUnknownFields dopts) (Fields ?m) \<rparr> = sent opts ?m"
    by (simp add: sent_def)
  with Encode_Decode [OF b(1) assms(6), of "buildRegistry params" "buildRegistry params" dopts] show ?thesis by simp
qed

text \<open>
  A message reads back what was last set at a path, and setting one path changes no other.
\<close>

theorem set_get:
  "Message_Get (Message_Set reg m p v) q = (if q = p then (v, True) else Message_Get m q)"
  by (rule Get_Set)

lemma wf_simple:
  "wf_value Null" "wf_value (BoolV b)" "wf_value (Uint n)" "wf_value (IntV n)" "wf_value (Float n)" "wf_value (int_value TagTime n)"
  "length bs < 2 ^ 63 \<Longrightarrow> wf_value (blob_value TagString bs)" "length bs < 2 ^ 63 \<Longrightarrow> wf_value (blob_value TagBytes bs)"
  "length bs = 4 \<Longrightarrow> wf_value (blob_value TagIP4 bs)" "length bs = 16 \<Longrightarrow> wf_value (blob_value TagIP6 bs)"
  "length bs = 5 \<Longrightarrow> wf_value (blob_value TagIP4Pfx bs)" "length bs = 17 \<Longrightarrow> wf_value (blob_value TagIP6Pfx bs)"
  "length bs = 6 \<Longrightarrow> wf_value (blob_value TagMAC bs)"
  "72 * length vs \<le> 2 ^ 48 \<Longrightarrow> wf_values vs \<Longrightarrow> wf_value (ListV vs)"
  by (simp_all add: value_defs tag_defs)

lemma readBlob_blob: "readBlob r = Inr (b, r1) \<Longrightarrow> length r < 2 ^ 63 \<Longrightarrow> length b < 2 ^ 63"
  by (auto simp: readBlob_def readN_def split: if_splits dest!: readUvarint_length)

lemma decodeItems_count: "decodeItems n r = Inr (vs, r1) \<Longrightarrow> length vs = n"
  by (induction n arbitrary: r vs) auto

lemma decodeValue_wf:
  "decodeValue r = Inr (v, r1) \<Longrightarrow> length r < 2 ^ 63 \<Longrightarrow> wf_value v"
  "decodeItems n r = Inr (vs, r1) \<Longrightarrow> length r < 2 ^ 63 \<Longrightarrow> wf_values vs"
proof (induction r and n r arbitrary: v r1 and vs r1 rule: decodeValue_decodeItems.induct)
  case (1 r)
  obtain t b where b: "readByte r = Inr (t, b)" using 1 by (auto simp: decodeValue.simps)
  then have s: "length b < length r" by (rule readByte_length)
  show ?case
  proof (cases "t = TagList")
    case True
    then have "t \<noteq> TagNull" "t \<noteq> TagFalse" "t \<noteq> TagTrue" "t \<noteq> TagUint" "t \<noteq> TagInt" "t \<noteq> TagFloat"
      "\<not> (t = TagString \<or> t = TagBytes)" "t \<noteq> TagTime" "t \<noteq> TagIP4" "t \<noteq> TagIP6" "t \<noteq> TagIP4Pfx" "t \<noteq> TagIP6Pfx" "t \<noteq> TagMAC"
      by (simp_all add: tag_defs)
    note c = this True
    then obtain cnt r2 vs where u: "readUvarint b = Inr (cnt, r2)" "makeslice 72 (unat cnt) = Inr ()"
        "decodeItems (unat cnt) r2 = Inr (vs, r1)" "v = ListV vs"
      using 1(2) b by (auto simp: decodeValue.simps)
    have "length r2 < 2 ^ 63" using readUvarint_length [OF u(1)] s 1(3) by simp
    then have "wf_values vs" using 1(1) [OF b refl c u(1) refl u(2) u(3)] by simp
    moreover have "72 * length vs \<le> 2 ^ 48"
      using u(2) decodeItems_count [OF u(3)] by (simp add: makeslice_def split: if_splits)
    ultimately show ?thesis unfolding u(4) by (rule wf_simple(14) [rotated])
  next
    case False
    note d = 1(2) [unfolded decodeValue.simps b res_bind.simps prod.case]
    have b63: "length b < 2 ^ 63" using s 1(3) by simp
    have "t = TagNull \<or> t = TagFalse \<or> t = TagTrue \<or> t = TagUint \<or> t = TagInt \<or> t = TagFloat \<or> t = TagString \<or> t = TagBytes \<or>
        t = TagTime \<or> t = TagIP4 \<or> t = TagIP6 \<or> t = TagIP4Pfx \<or> t = TagIP6Pfx \<or> t = TagMAC"
      using d False by (simp only: split: if_splits) blast+
    then show ?thesis using d b63
      by (elim disjE) (auto simp: tag_defs intro!: wf_simple [unfolded tag_defs] dest: readBlob_blob readN_length)
  qed
next
  case (2 r)
  then show ?case by simp
next
  case (3 n r)
  then obtain v r2 us where d: "decodeValue r = Inr (v, r2)" "decodeItems n r2 = Inr (us, r1)" "vs = v # us" by auto
  then have "length r2 < 2 ^ 63" using 3(4) decode_less(1) by fastforce
  then show ?case using d 3 by auto
qed

lemma decodeFields_wf:
  "decodeFields reg skip n r = Inr (fs, r1) \<Longrightarrow> length r < 2 ^ 63 \<Longrightarrow> \<forall>f\<in>set fs. wf_value (Val f)"
proof (induction n arbitrary: r fs)
  case 0
  then show ?case by simp
next
  case (Suc n)
  then obtain f r2 gs where d: "decodeField reg skip r = Inr (f, r2)" "decodeFields reg skip n r2 = Inr (gs, r1)"
      "fs = (case f of None \<Rightarrow> gs | Some x \<Rightarrow> x # gs)" by auto
  have "length r2 < length r \<and> (\<forall>x. f = Some x \<longrightarrow> wf_value (Val x))"
    using d(1) Suc.prems(2)
    by (auto simp: decodeField_def Let_def split: if_splits option.splits
          dest!: reader_lengths dest: decode_less(1) decodeValue_wf(1))
  then show ?case using Suc.IH [OF d(2)] d(3) Suc.prems(2) by (auto split: option.splits)
qed

lemma decompress_size: "decompress src n = Inr raw \<Longrightarrow> length raw = n"
  by (auto simp: decompress_def split: if_splits)

lemma inflate_length: "inflate p = Inr raw \<Longrightarrow> length raw < 2 ^ 63"
proof -
  assume "inflate p = Inr raw"
  then have "length raw = unat (get32 p)"
    by (auto simp: inflate_def split: if_splits sum.splits dest: decompress_size)
  then show ?thesis using unsigned_less [of "get32 p", where 'a = nat] by simp
qed

text \<open>
  C39. Whatever frame a decoder accepts, every value it returns has one of the tags of the source with the
  unused fields zero and an address of its exact size, to any depth of nested lists.
\<close>

theorem decoded_values:
  assumes "Decode reg opts data = Inr m" and "length data < 2 ^ 63"
  shows "\<forall>f\<in>set (Fields m). wf_value (Val f)"
proof -
  let ?flags = "data ! 5"
  obtain raw where raw: "(if ?flags AND flagLZ4 \<noteq> 0 then inflate (drop 8 data) else Inr (drop 8 data)) = Inr raw"
      "decode_payload reg opts ?flags raw = Inr m"
    using assms(1) by (auto simp: Decode_def Let_def split: if_splits)
  have "length raw < 2 ^ 63" using raw(1) assms(2) by (auto split: if_splits dest: inflate_length)
  then obtain r n r1 where "decodeFields reg (SkipUnknownFields opts) n r = Inr (Fields m, r1)" "length r < 2 ^ 63"
    using raw(2) by (fastforce simp: decode_payload_def split: if_splits dest: readStr_length readZigzag_length readUvarint_length)
  then show ?thesis by (rule decodeFields_wf)
qed

section \<open>Registries that differ\<close>

definition plain :: EncodeOptions where
  "plain = \<lparr> Compress = False, IncludeDeviceID = False, IncludeTimestamp = False \<rparr>"

definition keep :: DecodeOptions where
  "keep = \<lparr> SkipUnknownFields = False \<rparr>"

definition old_schema :: registry where "old_schema = buildRegistry [''Device.A'', ''Device.C'']"
definition new_schema :: registry where "new_schema = buildRegistry [''Device.A'', ''Device.B'', ''Device.C'']"

text \<open>
  Identifiers are positions in the sorted list of paths: a release that adds a path in the middle shifts
  the identifiers after it. A message that sets \<open>Device.B\<close> under the new list is read under the old one as
  a message that sets \<open>Device.C\<close>.
\<close>

theorem schema_drift:
  "\<exists>data m. Encode new_schema plain (Message_Set new_schema NewMessage ''Device.B'' (Uint 7)) = Inr data \<and>
     Decode old_schema keep data = Inr m \<and> Message_Get m ''Device.B'' = (Null, False) \<and> Message_Get m ''Device.C'' = (Uint 7, True)"
proof -
  let ?m = "Message_Set new_schema NewMessage ''Device.B'' (Uint 7)"
  have ids: "IDFor new_schema ''Device.B'' = (2, True)" "PathForID old_schema 2 = Some ''Device.C''"
    by code_simp+
  then have m: "?m = \<lparr> DeviceID = '''', Timestamp = 0, Fields = [\<lparr> field_id = 2, Path = ''Device.B'', Val = Uint 7 \<rparr>] \<rparr>"
    by (simp add: Message_Set_def NewMessage_def)
  have "wf_message ?m" "time_ok plain ?m"
    unfolding m by (simp_all add: wf_message_def sendable_def wf_simple time_ok_def with_ts_def plain_def)
  from Encode_Decode [OF this, of new_schema old_schema keep]
  obtain data where "Encode new_schema plain ?m = Inr data"
      "Decode old_schema keep data = Inr ((sent plain ?m)\<lparr> Fields := read_fields old_schema False (Fields ?m) \<rparr>)"
    by (auto simp: plain_def keep_def)
  moreover have "read_fields old_schema False (Fields ?m) = [\<lparr> field_id = 2, Path = ''Device.C'', Val = Uint 7 \<rparr>]"
    unfolding m by (simp add: as_read_def ids)
  ultimately show ?thesis by (intro exI conjI) (assumption, assumption, simp_all add: Message_Get_def)
qed

section \<open>Witnesses\<close>

definition wire_demo :: Message where
  "wire_demo = build new_schema ''gw'' 0 [(''Device.B'', Uint 7), (''Device.X'', BoolV True)]"

theorem message_roundtrip_witness:
  "\<exists>data. Encode new_schema plain wire_demo = Inr data \<and> Decode new_schema keep data = Inr (sent plain wire_demo)"
  using message_roundtrip [of "[''Device.A'', ''Device.B'', ''Device.C'']" "[(''Device.B'', Uint 7), (''Device.X'', BoolV True)]" "''gw''" plain 0 keep]
  by (auto simp: wf_simple time_ok_def with_ts_def plain_def wire_demo_def new_schema_def)

definition frame_demo :: "byte list" where
  "frame_demo = [0x57, 0x55, 0x01, 0, 0, 0, 0, 0, 1, 0, 1, 65, 3, 7]"

theorem decoded_values_witness:
  "\<exists>m. Decode old_schema keep frame_demo = Inr m \<and> Message_Get m ''A'' = (Uint 7, True) \<and> (\<forall>f\<in>set (Fields m). wf_value (Val f))"
proof -
  have c: "char_of (65 :: nat) = CHR ''A''" by code_simp
  have "Decode old_schema keep frame_demo = Inr \<lparr> DeviceID = '''', Timestamp = 0, Fields = [\<lparr> field_id = 0, Path = ''A'', Val = Uint 7 \<rparr>] \<rparr>"
    by (simp add: Decode_def frame_demo_def decode_payload_def readUvarint_def makeslice_def decodeField_def readStr_def readBlob_def
        readN_def decodeValue.simps readByte_def tag_defs char_of_byte_def Let_def c)
  then show ?thesis using decoded_values [of old_schema keep frame_demo] by (simp add: Message_Get_def frame_demo_def)
qed

end
