(* ===== verification/Schema.thy ===== *)
theory Schema
  imports Codec Message_Registry GoNet
begin

text \<open>
  The parameter schema of \<open>src/internal/wusp/models.go\<close> and its fast validation, \<open>src/internal/wusp/methods.go\<close>:
  paths with instance numbers and their canonical form, the index of the parameters, and the checks of a
  value against the type and the limits of its parameter. The engine of \<open>regexp\<close> is the argument \<open>re\<close> (pattern, value).
  A float is its 64 bits, compared by its exact rational value; the texts of the errors leave out the numbers printed in them.
\<close>

unbundle bit_operations_syntax

section \<open>Types of the schema\<close>

type_synonym ParamType = string

definition TypeString :: ParamType where "TypeString = ''string''"
definition TypeInt :: ParamType where "TypeInt = ''int''"
definition TypeUnsignedInt :: ParamType where "TypeUnsignedInt = ''unsignedInt''"
definition TypeLong :: ParamType where "TypeLong = ''long''"
definition TypeUnsignedLong :: ParamType where "TypeUnsignedLong = ''unsignedLong''"
definition TypeBoolean :: ParamType where "TypeBoolean = ''boolean''"
definition TypeDateTime :: ParamType where "TypeDateTime = ''dateTime''"
definition TypeBase64 :: ParamType where "TypeBase64 = ''base64''"
definition TypeHexBinary :: ParamType where "TypeHexBinary = ''hexBinary''"
definition TypeDecimal :: ParamType where "TypeDecimal = ''decimal''"
definition TypeIPv4Address :: ParamType where "TypeIPv4Address = ''IPv4Address''"
definition TypeIPv6Address :: ParamType where "TypeIPv6Address = ''IPv6Address''"
definition TypeIPv4Prefix :: ParamType where "TypeIPv4Prefix = ''IPv4Prefix''"
definition TypeIPv6Prefix :: ParamType where "TypeIPv6Prefix = ''IPv6Prefix''"
definition TypeMACAddress :: ParamType where "TypeMACAddress = ''MACAddress''"
definition TypeStatsCounter :: ParamType where "TypeStatsCounter = ''StatsCounter''"
definition TypeList :: ParamType where "TypeList = ''list''"

lemmas type_defs = TypeString_def TypeInt_def TypeUnsignedInt_def TypeLong_def TypeUnsignedLong_def TypeBoolean_def TypeDateTime_def
  TypeBase64_def TypeHexBinary_def TypeDecimal_def TypeIPv4Address_def TypeIPv6Address_def TypeIPv4Prefix_def TypeIPv6Prefix_def
  TypeMACAddress_def TypeStatsCounter_def TypeList_def

record Limits =
  LMin :: "64 word option"
  LMax :: "64 word option"
  LMinF :: "64 word option"
  LMaxF :: "64 word option"
  MinLength :: int
  MaxLength :: int
  Enums :: "string list"
  Pattern :: string
  MinItems :: int
  MaxItems :: int

record Param =
  pPath :: string
  pType :: ParamType
  pAccess :: string
  pSinceVersion :: string
  pDescription :: string
  pLimits :: Limits

record Object =
  oPath :: string
  oMultiInstance :: bool
  oSinceVersion :: string
  oDescription :: string

definition TagForParamType :: "ParamType \<Rightarrow> TypeTag" where
  "TagForParamType pt =
     (if pt = TypeBoolean then TagFalse
      else if pt = TypeInt \<or> pt = TypeLong then TagInt
      else if pt = TypeUnsignedInt \<or> pt = TypeUnsignedLong \<or> pt = TypeStatsCounter then TagUint
      else if pt = TypeDecimal then TagFloat
      else if pt = TypeBase64 \<or> pt = TypeHexBinary then TagBytes
      else if pt = TypeDateTime then TagTime
      else if pt = TypeIPv4Address then TagIP4
      else if pt = TypeIPv6Address then TagIP6
      else if pt = TypeIPv4Prefix then TagIP4Pfx
      else if pt = TypeIPv6Prefix then TagIP6Pfx
      else if pt = TypeMACAddress then TagMAC
      else if pt = TypeList then TagList
      else TagString)"

section \<open>Paths\<close>

definition isNumericPathSegment :: "string \<Rightarrow> bool" where
  "isNumericPathSegment part \<longleftrightarrow> part \<noteq> '''' \<and> list_all is_digit part"

definition canonical_segment :: "string \<Rightarrow> string" where
  "canonical_segment part =
     (if part = '''' \<or> part = ''{i}'' then part else if isNumericPathSegment part then ''{i}'' else part)"

definition canonicalParamPath :: "string \<Rightarrow> string" where
  "canonicalParamPath path =
     (if path = '''' then '''' else Join (map canonical_segment (Split path (CHR ''.''))) ''.'')"

definition isObjectPath :: "string \<Rightarrow> bool" where
  "isObjectPath path \<longleftrightarrow> HasSuffix (TrimSpace path) ''.''"

section \<open>The index of the parameters\<close>

record safeParamInfo =
  si_param :: Param
  si_index :: nat
  expectedTag :: TypeTag
  enumSet :: "string list"
  expectsBase64String :: bool
  listPathRef :: bool
  listCIDR :: bool

definition safe_info :: "nat \<Rightarrow> Param \<Rightarrow> safeParamInfo" where
  "safe_info i p =
     (let lowerPath = ToLower (pPath p); lowerDesc = ToLower (pDescription p) in
      \<lparr> si_param = p, si_index = i, expectedTag = TagForParamType (pType p), enumSet = Enums (pLimits p),
        expectsBase64String = (pType p = TypeString \<and> Contains lowerDesc ''base64-encoded''),
        listPathRef = (pType p = TypeList \<and> Contains lowerDesc ''pathref''),
        listCIDR = (pType p = TypeList \<and> (Contains lowerPath ''allowedips'' \<or> Contains lowerPath ''prefix'')) \<rparr>)"

definition buildSafeParamIndex :: "Param list \<Rightarrow> string \<rightharpoonup> safeParamInfo" where
  "buildSafeParamIndex params = fold (\<lambda>(i, p) m. m(pPath p \<mapsto> safe_info i p)) (enumerate 0 params) Map.empty"

definition lookupSafeParam :: "(string \<rightharpoonup> safeParamInfo) \<Rightarrow> string \<Rightarrow> safeParamInfo option \<times> string" where
  "lookupSafeParam safeParamIndex path =
     (case safeParamIndex path of
        Some info \<Rightarrow> (Some info, path)
      | None \<Rightarrow> (let canonical = canonicalParamPath path in (safeParamIndex canonical, canonical)))"

definition tagMatchesParamType :: "ParamType \<Rightarrow> TypeTag \<Rightarrow> bool" where
  "tagMatchesParamType pt tag =
     (if pt = TypeBoolean then tag = TagFalse \<or> tag = TagTrue else tag = TagForParamType pt)"

section \<open>Floats\<close>

text \<open>The fields of an IEEE 754 number of 64 bits, its value, and \<open>float64(n)\<close> (round to nearest, ties to even).\<close>

definition float_exp :: "64 word \<Rightarrow> nat" where "float_exp w = unat (drop_bit 52 w AND 2047)"
definition float_frac :: "64 word \<Rightarrow> nat" where "float_frac w = unat (w AND mask 52)"
definition float_finite :: "64 word \<Rightarrow> bool" where "float_finite w \<longleftrightarrow> float_exp w \<noteq> 2047"

definition float_rat :: "64 word \<Rightarrow> rat" where
  "float_rat w =
     (if bit w 63 then -1 else 1) *
     (if float_exp w = 0 then of_nat (float_frac w) / 2 ^ 1074
      else of_nat (2 ^ 52 + float_frac w) * 2 ^ float_exp w / 2 ^ 1075)"

definition bit_length :: "nat \<Rightarrow> nat" where "bit_length n = length (filter (\<lambda>k. 2 ^ k \<le> n) [0..<64])"

definition round_even :: "nat \<Rightarrow> nat \<Rightarrow> nat" where
  "round_even n d =
     (let q = n div d; r = n mod d in
      if 2 * r < d then q else if d < 2 * r then q + 1 else if even q then q else q + 1)"

definition float_of_int64 :: "64 word \<Rightarrow> rat" where
  "float_of_int64 w =
     (let n = nat \<bar>sint w\<bar>; k = bit_length n - 53 in
      (if sint w < 0 then -1 else 1) * of_nat (round_even n (2 ^ k) * 2 ^ k))"

section \<open>Validation of values\<close>

definition below :: "('a \<Rightarrow> bool) \<Rightarrow> 'a option \<Rightarrow> bool" where
  "below p l = (case l of None \<Rightarrow> False | Some x \<Rightarrow> p x)"

definition validateUnsignedLimits :: "string \<Rightarrow> Limits \<Rightarrow> 64 word \<Rightarrow> usp_error + unit" where
  "validateUnsignedLimits path limits v =
     (if below (\<lambda>m. v < m) (LMin limits) then Inl (TValidation path ''value is below minimum'')
      else if below (\<lambda>m. m < v) (LMax limits) then Inl (TValidation path ''value is above maximum'')
      else Inr ())"

definition validateSignedLimits :: "string \<Rightarrow> Limits \<Rightarrow> 64 word \<Rightarrow> usp_error + unit" where
  "validateSignedLimits path limits v =
     (if below (\<lambda>m. sint v < sint m) (LMin limits) then Inl (TValidation path ''value is below minimum'')
      else if below (\<lambda>m. sint m < sint v) (LMax limits) then Inl (TValidation path ''value is above maximum'')
      else Inr ())"

text \<open>A limit that is not a number compares as false; the limits of the schema are finite.\<close>

definition validateDecimalLimits :: "string \<Rightarrow> Limits \<Rightarrow> 64 word \<Rightarrow> usp_error + unit" where
  "validateDecimalLimits path limits v =
     (if \<not> float_finite v then Inl (TValidation path ''decimal value must be finite'')
      else if below (\<lambda>m. float_finite m \<and> float_rat v < float_rat m) (LMinF limits) then Inl (TValidation path ''value is below minimum'')
      else if below (\<lambda>m. float_finite m \<and> float_rat m < float_rat v) (LMaxF limits) then Inl (TValidation path ''value is above maximum'')
      else if below (\<lambda>m. float_rat v < float_of_int64 m) (LMin limits) then Inl (TValidation path ''value is below minimum'')
      else if below (\<lambda>m. float_of_int64 m < float_rat v) (LMax limits) then Inl (TValidation path ''value is above maximum'')
      else Inr ())"

definition validateBinaryLimits :: "string \<Rightarrow> Limits \<Rightarrow> int \<Rightarrow> usp_error + unit" where
  "validateBinaryLimits path limits rawLen =
     (if 0 < MinLength limits \<and> rawLen < MinLength limits then Inl (TValidation path ''raw length is below minimum'')
      else if 0 < MaxLength limits \<and> MaxLength limits < rawLen then Inl (TValidation path ''raw length is above maximum'')
      else Inr ())"

text \<open>What \<open>base64.StdEncoding.DecodeString\<close> accepts: line breaks are skipped, padding is required.\<close>

definition is_b64 :: "char \<Rightarrow> bool" where
  "is_b64 c \<longleftrightarrow> 65 \<le> code c \<and> code c \<le> 90 \<or> 97 \<le> code c \<and> code c \<le> 122 \<or> is_digit c \<or> c = CHR ''+'' \<or> c = CHR ''/''"

definition valid_base64 :: "string \<Rightarrow> bool" where
  "valid_base64 s =
     (let t = filter (\<lambda>c. code c \<noteq> 10 \<and> code c \<noteq> 13) s; body = TrimRight (\<lambda>c. c = CHR ''='') t in
      length t mod 4 = 0 \<and> length t - length body \<le> 2 \<and> list_all is_b64 body)"

definition validateStringValueFast :: "(string \<Rightarrow> string \<Rightarrow> bool) \<Rightarrow> string \<Rightarrow> safeParamInfo \<Rightarrow> string \<Rightarrow> bool \<Rightarrow> usp_error + unit" where
  "validateStringValueFast re path info v checkLength =
     (let limits = pLimits (si_param info) in
      if checkLength \<and> 0 < MinLength limits \<and> int (length v) < MinLength limits then Inl (TValidation path ''length is below minimum'')
      else if checkLength \<and> 0 < MaxLength limits \<and> MaxLength limits < int (length v) then Inl (TValidation path ''length is above maximum'')
      else if enumSet info \<noteq> [] \<and> v \<notin> set (enumSet info) then Inl (TValidation path ''value is not in the allowed enum set'')
      else if Pattern limits \<noteq> '''' \<and> \<not> re (Pattern limits) v then Inl (TValidation path ''value does not match'')
      else if expectsBase64String info \<and> v \<noteq> '''' \<and> \<not> valid_base64 v then Inl (TValidation path ''value is not valid base64'')
      else Inr ())"

definition AsString :: "Value \<Rightarrow> string" where
  "AsString v = map char_of_byte (blob v)"

text \<open>The loop over the items of a list: the total length of the strings and whether all items are strings.\<close>

fun list_items_loop :: "(string \<Rightarrow> string \<Rightarrow> bool) \<Rightarrow> string \<Rightarrow> safeParamInfo \<Rightarrow> nat \<Rightarrow> nat \<Rightarrow> bool \<Rightarrow> Value list \<Rightarrow> usp_error + nat \<times> bool" where
  "list_items_loop re path info i tot allStrings [] = Inr (tot, allStrings)"
| "list_items_loop re path info i tot allStrings (item # items) =
     (if Tag item = TagNull \<or> Tag item = TagList then Inl (TValidation path ''list item has unsupported tag'')
      else if Tag item \<noteq> TagString then
        (if enumSet info \<noteq> [] \<or> Pattern (pLimits (si_param info)) \<noteq> '''' \<or> listPathRef info \<or> listCIDR info
         then Inl (TValidation path ''list item must be a string'')
         else list_items_loop re path info (Suc i) tot False items)
      else
        let s = AsString item in
        res_bind (validateStringValueFast re path info s False) (\<lambda>_.
          if listPathRef info \<and> s = '''' then Inl (TValidation path ''list item must not be empty'')
          else if listCIDR info \<and> s \<noteq> '''' \<and> ParseCIDR s = None then Inl (TValidation path ''list item is not a valid CIDR'')
          else list_items_loop re path info (Suc i) (tot + length s + (if 0 < i then 1 else 0)) allStrings items))"

definition validateListValueFast :: "(string \<Rightarrow> string \<Rightarrow> bool) \<Rightarrow> string \<Rightarrow> safeParamInfo \<Rightarrow> Value list \<Rightarrow> usp_error + unit" where
  "validateListValueFast re path info items =
     (let limits = pLimits (si_param info) in
      if 0 < MinItems limits \<and> int (length items) < MinItems limits then Inl (TValidation path ''list items below minimum'')
      else if 0 < MaxItems limits \<and> MaxItems limits < int (length items) then Inl (TValidation path ''list items above maximum'')
      else res_bind (list_items_loop re path info 0 0 True items) (\<lambda>(tot, allStrings).
        if allStrings \<and> 0 < MinLength limits \<and> int tot < MinLength limits then Inl (TValidation path ''list length is below minimum'')
        else if allStrings \<and> 0 < MaxLength limits \<and> MaxLength limits < int tot then Inl (TValidation path ''list length is above maximum'')
        else Inr ()))"

definition validateValueFast :: "(string \<Rightarrow> string \<Rightarrow> bool) \<Rightarrow> string \<Rightarrow> safeParamInfo \<Rightarrow> Value \<Rightarrow> usp_error + unit" where
  "validateValueFast re path info v =
     (let param = si_param info; pt = pType param; b = blob v in
      if pt = TypeBoolean then Inr ()
      else if pt = TypeUnsignedInt \<or> pt = TypeUnsignedLong \<or> pt = TypeStatsCounter then validateUnsignedLimits path (pLimits param) (ival v)
      else if pt = TypeInt \<or> pt = TypeLong then validateSignedLimits path (pLimits param) (ival v)
      else if pt = TypeDecimal then validateDecimalLimits path (pLimits param) (fval v)
      else if pt = TypeDateTime then Inr ()
      else if pt = TypeBase64 \<or> pt = TypeHexBinary then validateBinaryLimits path (pLimits param) (int (length b))
      else if pt = TypeIPv4Address then (if length b \<noteq> 4 then Inl (TValidation path ''invalid IPv4 value length'') else Inr ())
      else if pt = TypeIPv6Address then (if length b \<noteq> 16 then Inl (TValidation path ''invalid IPv6 value length'') else Inr ())
      else if pt = TypeIPv4Prefix then (if length b \<noteq> 5 \<or> 32 < b ! 4 then Inl (TValidation path ''invalid IPv4 prefix value'') else Inr ())
      else if pt = TypeIPv6Prefix then (if length b \<noteq> 17 \<or> 128 < b ! 16 then Inl (TValidation path ''invalid IPv6 prefix value'') else Inr ())
      else if pt = TypeMACAddress then (if length b \<noteq> 6 then Inl (TValidation path ''invalid MAC value length'') else Inr ())
      else if pt = TypeList then validateListValueFast re path info (vlist v)
      else validateStringValueFast re path info (AsString v) True)"

section \<open>Validation of messages\<close>

text \<open>The schema the process is started with: the registry of field identifiers and the index of the parameters.\<close>

record schema =
  globalRegistry :: registry
  safeParamIndex :: "string \<rightharpoonup> safeParamInfo"

definition NewSchema :: "Param list \<Rightarrow> schema" where
  "NewSchema params = \<lparr> globalRegistry = buildRegistry (map pPath params), safeParamIndex = buildSafeParamIndex params \<rparr>"

definition ValidateFieldFast :: "(string \<Rightarrow> string \<Rightarrow> bool) \<Rightarrow> schema \<Rightarrow> Field \<Rightarrow> usp_error + unit" where
  "ValidateFieldFast re sc f =
     (case lookupSafeParam (safeParamIndex sc) (Path f) of
        (None, _) \<Rightarrow> Inl (TValidation (Path f) ''unknown parameter path'')
      | (Some info, canonicalPath) \<Rightarrow>
          if field_id f \<noteq> 0 \<and> canonicalPath \<noteq> Path f
          then Inl (TValidation (Path f) ''instance paths must be encoded inline (field id must be 0)'')
          else if field_id f \<noteq> 0 \<and> snd (IDFor (globalRegistry sc) canonicalPath) \<and> field_id f \<noteq> fst (IDFor (globalRegistry sc) canonicalPath)
          then Inl (TValidation (Path f) ''field id does not match registry id'')
          else if Tag (Val f) = TagNull then Inr ()
          else if \<not> tagMatchesParamType (pType (si_param info)) (Tag (Val f))
          then Inl (TValidation (Path f) ''tag does not match parameter type'')
          else validateValueFast re (Path f) info (Val f))"

fun validate_fields :: "(string \<Rightarrow> string \<Rightarrow> bool) \<Rightarrow> schema \<Rightarrow> string list \<Rightarrow> Field list \<Rightarrow> usp_error + unit" where
  "validate_fields re sc seen [] = Inr ()"
| "validate_fields re sc seen (f # fs) =
     (if Path f = '''' then Inl (TValidation '''' ''field has empty path'')
      else if Path f \<in> set seen then Inl (TValidation (Path f) ''duplicate field path'')
      else res_bind (ValidateFieldFast re sc f) (\<lambda>_. validate_fields re sc (Path f # seen) fs))"

definition ValidateMessageFast :: "(string \<Rightarrow> string \<Rightarrow> bool) \<Rightarrow> schema \<Rightarrow> Message \<Rightarrow> usp_error + unit" where
  "ValidateMessageFast re sc m = validate_fields re sc [] (Fields m)"

section \<open>Messages on the wire\<close>

definition safe_encoder :: "bool \<Rightarrow> EncodeOptions" where
  "safe_encoder lz4 = \<lparr> Compress = lz4, IncludeDeviceID = True, IncludeTimestamp = True \<rparr>"

definition safeDecoder :: DecodeOptions where
  "safeDecoder = \<lparr> SkipUnknownFields = True \<rparr>"

definition lift_wire :: "wire_error + 'a \<Rightarrow> usp_error + 'a" where
  "lift_wire r = (case r of Inl e \<Rightarrow> Inl (TMessage e) | Inr x \<Rightarrow> Inr x)"

definition encodeMessageValidated :: "schema \<Rightarrow> Message \<Rightarrow> bool \<Rightarrow> usp_error + byte list" where
  "encodeMessageValidated sc m lz4 = lift_wire (Encode (globalRegistry sc) (safe_encoder lz4) m)"

definition EncodeMessage :: "(string \<Rightarrow> string \<Rightarrow> bool) \<Rightarrow> schema \<Rightarrow> Message \<Rightarrow> usp_error + byte list" where
  "EncodeMessage re sc m = res_bind (ValidateMessageFast re sc m) (\<lambda>_. encodeMessageValidated sc m False)"

definition EncodeMessageLZ4 :: "(string \<Rightarrow> string \<Rightarrow> bool) \<Rightarrow> schema \<Rightarrow> Message \<Rightarrow> usp_error + byte list" where
  "EncodeMessageLZ4 re sc m = res_bind (ValidateMessageFast re sc m) (\<lambda>_. encodeMessageValidated sc m True)"

definition DecodeMessage :: "schema \<Rightarrow> byte list \<Rightarrow> usp_error + Message" where
  "DecodeMessage sc bs = lift_wire (Decode (globalRegistry sc) safeDecoder bs)"

section \<open>What validation ensures\<close>

lemma index_dom:
  "buildSafeParamIndex params p = Some info \<Longrightarrow> p \<in> set (map pPath params)"
proof -
  have "fold (\<lambda>(i, p) m. m(pPath p \<mapsto> safe_info i p)) (enumerate k ps) m0 p \<noteq> None \<Longrightarrow> m0 p \<noteq> None \<or> p \<in> set (map pPath ps)" for ps k m0
  proof (induction ps arbitrary: k m0)
    case Nil
    then show ?case by simp
  next
    case (Cons q ps)
    show ?case using Cons.IH [of "Suc k" "m0(pPath q \<mapsto> safe_info k q)"] Cons.prems by (cases "p = pPath q") auto
  qed
  then show "buildSafeParamIndex params p = Some info \<Longrightarrow> p \<in> set (map pPath params)"
    by (fastforce simp: buildSafeParamIndex_def)
qed

lemma validate_fields_ok:
  assumes "validate_fields re sc seen fs = Inr ()"
  shows "(\<forall>f\<in>set fs. Path f \<noteq> '''' \<and> Path f \<notin> set seen \<and> ValidateFieldFast re sc f = Inr ()) \<and> distinct (map Path fs)"
  using assms
proof (induction fs arbitrary: seen)
  case Nil
  then show ?case by simp
next
  case (Cons f fs)
  then show ?case using Cons.IH [of "Path f # seen"] by (auto split: if_splits)
qed

lemma ValidateFieldFast_known:
  assumes "ValidateFieldFast re sc f = Inr ()"
  obtains info canonical where "lookupSafeParam (safeParamIndex sc) (Path f) = (Some info, canonical)"
    "field_id f \<noteq> 0 \<Longrightarrow> canonical = Path f"
    "field_id f \<noteq> 0 \<Longrightarrow> snd (IDFor (globalRegistry sc) (Path f)) \<Longrightarrow> field_id f = fst (IDFor (globalRegistry sc) (Path f))"
    "Tag (Val f) = TagNull \<or> tagMatchesParamType (pType (si_param info)) (Tag (Val f)) \<and> validateValueFast re (Path f) info (Val f) = Inr ()"
proof -
  obtain io c where l: "lookupSafeParam (safeParamIndex sc) (Path f) = (io, c)" by force
  then obtain info where io: "io = Some info" using assms by (cases io) (auto simp: ValidateFieldFast_def)
  show ?thesis using assms l io by (intro that [of info c]) (auto simp: ValidateFieldFast_def split: if_splits)
qed

lemma validated_resolves:
  assumes "distinct (map pPath params)" and "length params < 2 ^ 16"
    and "ValidateFieldFast re (NewSchema params) f = Inr ()" and "field_id f \<noteq> 0"
  shows "PathForID (buildRegistry (map pPath params)) (field_id f) = Some (Path f)"
proof -
  obtain info where l: "lookupSafeParam (safeParamIndex (NewSchema params)) (Path f) = (Some info, Path f)"
    and i: "snd (IDFor (globalRegistry (NewSchema params)) (Path f)) \<Longrightarrow> field_id f = fst (IDFor (globalRegistry (NewSchema params)) (Path f))"
    using assms(3,4) by (metis ValidateFieldFast_known)
  have "safeParamIndex (NewSchema params) (Path f) = Some info"
    using l by (auto simp: lookupSafeParam_def Let_def split: option.splits)
  then have "Path f \<in> set (map pPath params)" by (auto simp: NewSchema_def dest: index_dom)
  with assms(1,2) obtain j where "IDFor (buildRegistry (map pPath params)) (Path f) = (j, True)"
      "PathForID (buildRegistry (map pPath params)) j = Some (Path f)"
    using IDFor_present [of "map pPath params" "Path f"] by auto
  with i show ?thesis by (simp add: NewSchema_def)
qed

section \<open>A validated message survives the wire\<close>

definition within_limits :: "Message \<Rightarrow> bool" where
  "within_limits m \<longleftrightarrow> wf_message m \<and> (IsZero (Timestamp m) \<or> - (2 ^ 63) \<le> Timestamp m - epoch \<and> Timestamp m - epoch < 2 ^ 63)"

lemma sent_safe: "sent (safe_encoder lz4) m = m"
  by (cases m) (simp add: sent_def with_device_def with_ts_def safe_encoder_def IsZero_def)

lemma safe_options [simp]: "Compress (safe_encoder lz4) = lz4" "SkipUnknownFields safeDecoder"
  by (simp_all add: safe_encoder_def safeDecoder_def)

lemma validated_wire:
  assumes "distinct (map pPath params)" and "length params < 2 ^ 16" and "ValidateMessageFast re (NewSchema params) m = Inr ()" and "within_limits m"
  shows "\<exists>p data. encode_payload (safe_encoder lz4) m = Inr p \<and> encodeMessageValidated (NewSchema params) m lz4 = Inr data \<and>
    ((lz4 \<longrightarrow> length p < 2 ^ 32) \<longrightarrow> DecodeMessage (NewSchema params) data = Inr m)"
proof -
  let ?reg = "buildRegistry (map pPath params)"
  have "\<forall>f\<in>set (Fields m). ValidateFieldFast re (NewSchema params) f = Inr ()"
    using validate_fields_ok [of re "NewSchema params" "[]" "Fields m"] assms(3) by (simp add: ValidateMessageFast_def)
  then have "\<forall>f\<in>set (Fields m). field_id f \<noteq> 0 \<longrightarrow> PathForID ?reg (field_id f) = Some (Path f)"
    using validated_resolves [OF assms(1,2)] by blast
  then have r: "read_fields ?reg True (Fields m) = Fields m" by (rule read_own_fields)
  have "wf_message m" "time_ok (safe_encoder lz4) m"
    using assms(4) by (auto simp: within_limits_def time_ok_def with_ts_def)
  from Encode_Decode [OF this, of ?reg ?reg safeDecoder] r
  show ?thesis by (auto simp: encodeMessageValidated_def DecodeMessage_def NewSchema_def lift_wire_def sent_safe)
qed

lemma index_param:
  assumes "buildSafeParamIndex params path = Some info"
  shows "\<exists>i. \<exists>p\<in>set params. pPath p = path \<and> info = safe_info i p"
proof -
  have "fold (\<lambda>(i, p) m. m(pPath p \<mapsto> safe_info i p)) (enumerate k ps) m0 path = Some info \<Longrightarrow>
      m0 path = Some info \<or> (\<exists>i. \<exists>p\<in>set ps. pPath p = path \<and> info = safe_info i p)" for ps k m0
  proof (induction ps arbitrary: k m0)
    case (Cons q ps)
    show ?case using Cons.IH [of "Suc k" "m0(pPath q \<mapsto> safe_info k q)"] Cons.prems by (auto split: if_splits)
  qed simp
  from this [of 0 params Map.empty] show ?thesis using assms by (simp add: buildSafeParamIndex_def)
qed

text \<open>
  What a field is in a schema: its path, or for a field without an identifier the path with the instance numbers
  replaced by \<open>{i}\<close>, is the path of a parameter; the value is null or one that parameter allows; an identifier is that of the path.
\<close>

definition conforms :: "(string \<Rightarrow> string \<Rightarrow> bool) \<Rightarrow> Param list \<Rightarrow> Field \<Rightarrow> bool" where
  "conforms re params f \<longleftrightarrow> Path f \<noteq> '''' \<and>
     (\<exists>i. \<exists>p\<in>set params. (pPath p = Path f \<or> field_id f = 0 \<and> pPath p = canonicalParamPath (Path f)) \<and>
        (Tag (Val f) = TagNull \<or>
         tagMatchesParamType (pType p) (Tag (Val f)) \<and> validateValueFast re (Path f) (safe_info i p) (Val f) = Inr ())) \<and>
     (field_id f = 0 \<or> PathForID (buildRegistry (map pPath params)) (field_id f) = Some (Path f))"

lemma validated_conforms:
  assumes "distinct (map pPath params)" and "length params < 2 ^ 16" and "Path f \<noteq> ''''"
    and "ValidateFieldFast re (NewSchema params) f = Inr ()"
  shows "conforms re params f"
proof -
  have sp: "safeParamIndex (NewSchema params) = buildSafeParamIndex params" by (simp add: NewSchema_def)
  obtain info canonical where l: "lookupSafeParam (buildSafeParamIndex params) (Path f) = (Some info, canonical)"
    and c: "field_id f \<noteq> 0 \<Longrightarrow> canonical = Path f"
    and v: "Tag (Val f) = TagNull \<or> tagMatchesParamType (pType (si_param info)) (Tag (Val f)) \<and> validateValueFast re (Path f) info (Val f) = Inr ()"
    by (rule ValidateFieldFast_known [OF assms(4), unfolded sp]) blast
  have "buildSafeParamIndex params canonical = Some info" "canonical = Path f \<or> canonical = canonicalParamPath (Path f)"
    using l by (auto simp: lookupSafeParam_def Let_def split: option.splits)
  then obtain i p where p: "p \<in> set params" "pPath p = canonical" "info = safe_info i p" using index_param by blast
  then have "si_param info = p" by (simp add: safe_info_def Let_def)
  then show ?thesis
    using p v c assms(3) \<open>canonical = Path f \<or> _\<close> validated_resolves [OF assms(1,2,4)] unfolding conforms_def by metis
qed

lemma validated_conforming:
  assumes "distinct (map pPath params)" and "length params < 2 ^ 16" and "ValidateMessageFast re (NewSchema params) m = Inr ()"
  shows "distinct (paths_of m)" "list_all (conforms re params) (Fields m)"
  using validate_fields_ok [of re "NewSchema params" "[]" "Fields m"] validated_conforms [OF assms(1,2)] assms(3)
  by (simp_all add: ValidateMessageFast_def paths_of_def list_all_iff)

text \<open>
  C12. A message that passes validation has distinct paths, every one of them known to the schema (as it stands, or with its
  instance numbers replaced when the field is sent inline), values their parameters allow and field identifiers that are those of
  the paths; so \<open>EncodeMessage\<close> succeeds and \<open>DecodeMessage\<close> under the same schema returns the very message, with
  device, time, paths and values; \<open>EncodeMessageLZ4\<close> as well while the payload is shorter than 4 GiB. The schema has
  distinct paths and fewer than 65536 of them, and the sizes and the time of the message are within what the format can hold.
\<close>

theorem validated_message_roundtrip:
  assumes "distinct (map pPath params)" and "length params < 2 ^ 16" and "ValidateMessageFast re (NewSchema params) m = Inr ()" and "within_limits m"
  shows "distinct (paths_of m) \<and> list_all (conforms re params) (Fields m) \<and>
    (\<exists>data. EncodeMessage re (NewSchema params) m = Inr data \<and> DecodeMessage (NewSchema params) data = Inr m) \<and>
    (\<exists>p data. encode_payload (safe_encoder True) m = Inr p \<and> EncodeMessageLZ4 re (NewSchema params) m = Inr data \<and>
      (length p < 2 ^ 32 \<longrightarrow> DecodeMessage (NewSchema params) data = Inr m))"
proof -
  have "\<exists>data. EncodeMessage re (NewSchema params) m = Inr data \<and> DecodeMessage (NewSchema params) data = Inr m"
    using validated_wire [OF assms, of False] assms(3) by (auto simp: EncodeMessage_def)
  moreover have "\<exists>p data. encode_payload (safe_encoder True) m = Inr p \<and> EncodeMessageLZ4 re (NewSchema params) m = Inr data \<and>
      (length p < 2 ^ 32 \<longrightarrow> DecodeMessage (NewSchema params) data = Inr m)"
    using validated_wire [OF assms, of True] assms(3) by (auto simp: EncodeMessageLZ4_def)
  ultimately show ?thesis using validated_conforming [OF assms(1-3)] by blast
qed

definition no_limits :: Limits where
  "no_limits = \<lparr> LMin = None, LMax = Some 9, LMinF = None, LMaxF = None, MinLength = 0, MaxLength = 0, Enums = [], Pattern = '''', MinItems = 0, MaxItems = 0 \<rparr>"

definition schema_demo :: "Param list" where
  "schema_demo = [\<lparr> pPath = ''Device.Up'', pType = TypeUnsignedInt, pAccess = ''readOnly'', pSinceVersion = '''', pDescription = '''', pLimits = no_limits \<rparr>]"

definition valid_demo :: Message where
  "valid_demo = \<lparr> DeviceID = ''gw'', Timestamp = 0, Fields = [\<lparr> field_id = 1, Path = ''Device.Up'', Val = Uint 7 \<rparr>] \<rparr>"

lemma schema_demo_lookup: "safeParamIndex (NewSchema schema_demo) ''Device.Up'' = Some (safe_info 0 (hd schema_demo))"
  by (simp add: NewSchema_def schema_demo_def buildSafeParamIndex_def)

lemma schema_demo_id: "IDFor (globalRegistry (NewSchema schema_demo)) ''Device.Up'' = (1, True)"
  by (simp add: NewSchema_def schema_demo_def buildRegistry_def IDFor_def)

theorem validated_message_roundtrip_witness:
  "ValidateMessageFast (\<lambda>_ _. True) (NewSchema schema_demo) valid_demo = Inr () \<and> list_all (conforms (\<lambda>_ _. True) schema_demo) (Fields valid_demo) \<and>
   (\<exists>data. EncodeMessage (\<lambda>_ _. True) (NewSchema schema_demo) valid_demo = Inr data \<and> DecodeMessage (NewSchema schema_demo) data = Inr valid_demo)"
proof -
  have v: "ValidateMessageFast (\<lambda>_ _. True) (NewSchema schema_demo) valid_demo = Inr ()"
    using schema_demo_lookup schema_demo_id
    by (simp add: ValidateMessageFast_def valid_demo_def ValidateFieldFast_def lookupSafeParam_def safe_info_def Let_def
        tagMatchesParamType_def TagForParamType_def validateValueFast_def validateUnsignedLimits_def below_def schema_demo_def no_limits_def
        type_defs tag_defs Uint_def)
  have "distinct (map pPath schema_demo)" "length schema_demo < 2 ^ 16" by (simp_all add: schema_demo_def)
  moreover have "within_limits valid_demo"
    by (simp add: within_limits_def wf_message_def valid_demo_def sendable_def wf_simple IsZero_def)
  ultimately show ?thesis using validated_message_roundtrip [OF _ _ v] v by blast
qed

end
