(* ===== verification/Device_Model.thy ===== *)
theory Device_Model
  imports Schema
begin

text \<open>
  The device model of \<open>src/internal/wusp/models.go\<close>: the index of objects and parameters by normalized path, the
  64-bit code of every path, and the selectors that replace a path on the wire by its code and its
  instance numbers. A collision of two codes, a panic in the source, is \<open>Inl TPanic\<close>. The summary of the imported
  catalogue, which no operation here reads, and the copies of values (\<open>cloneParam\<close>) are left out.
\<close>

section \<open>Strings\<close>

text \<open>\<open>strings.Count(s, sub)\<close> for a non-empty \<open>sub\<close>, \<open>strings.EqualFold\<close> and \<open>strconv.ParseUint(s, 10, 64)\<close>.\<close>

fun count_from :: "nat \<Rightarrow> string \<Rightarrow> string \<Rightarrow> nat" where
  "count_from k [] sub = 0"
| "count_from (Suc k) (c # s) sub = count_from k s sub"
| "count_from 0 (c # s) sub =
     (if HasPrefix (c # s) sub then Suc (count_from (length sub - 1) s sub) else count_from 0 s sub)"

definition Count_sub :: "string \<Rightarrow> string \<Rightarrow> nat" where "Count_sub s sub = count_from 0 s sub"

definition EqualFold :: "string \<Rightarrow> string \<Rightarrow> bool" where "EqualFold s t \<longleftrightarrow> ToLower s = ToLower t"

definition ParseUint :: "string \<Rightarrow> 64 word option" where
  "ParseUint s = (if isNumericPathSegment s \<and> digits_val s < 2 ^ 64 then Some (of_nat (digits_val s)) else None)"

section \<open>The model\<close>

record Device =
  Root :: string
  Objects :: "Object list"
  Params :: "Param list"
  objectIndex :: "string \<rightharpoonup> nat"
  paramIndex :: "string \<rightharpoonup> nat"
  pathCode :: "string \<rightharpoonup> 64 word"
  codePath :: "64 word \<rightharpoonup> string"

record PathSelector =
  Code :: "64 word"
  Instances :: "64 word list"

definition normalizeDeviceLookupPath :: "string \<Rightarrow> string" where
  "normalizeDeviceLookupPath path = ToLower (TrimSpace path)"

definition normalizeCanonicalDeviceLookupPath :: "string \<Rightarrow> string" where
  "normalizeCanonicalDeviceLookupPath path = normalizeDeviceLookupPath (canonicalParamPath path)"

definition EncodePathCode :: "string \<Rightarrow> 64 word" where
  "EncodePathCode path =
     (let p = normalizeCanonicalDeviceLookupPath path in
      if p = '''' then 0 else let c = fnv64a p in if c = 0 then 1 else c)"

definition rootFromPath :: "string \<Rightarrow> string" where
  "rootFromPath path =
     (let p = TrimSpace path in
      if p = '''' \<or> hd (Split p (CHR ''.'')) = '''' then '''' else ToLower (hd (Split p (CHR ''.''))) @ ''.'')"

definition detectDeviceRoot :: "Object list \<Rightarrow> Param list \<Rightarrow> string" where
  "detectDeviceRoot objs ps =
     (case find (\<lambda>r. r \<noteq> '''') (map (rootFromPath \<circ> oPath) objs @ map (rootFromPath \<circ> pPath) ps) of
        Some r \<Rightarrow> r | None \<Rightarrow> ''device.'')"

definition Paths :: "Device \<Rightarrow> string list" where
  "Paths d = sort (map oPath (Objects d) @ map pPath (Params d))"

definition assignPathCode :: "string \<Rightarrow> string \<Rightarrow> Device \<Rightarrow> usp_error + Device" where
  "assignPathCode key path d =
     (if key = '''' then Inr d
      else if pathCode d key \<noteq> None then Inr d
      else let c = EncodePathCode path in
        if c = 0 then Inr d
        else if (case codePath d c of Some existing \<Rightarrow> normalizeDeviceLookupPath existing \<noteq> key | None \<Rightarrow> False) then Inl TPanic
        else Inr (d\<lparr> pathCode := (pathCode d)(key \<mapsto> c), codePath := (codePath d)(c \<mapsto> path) \<rparr>))"

fun assign_codes :: "string list \<Rightarrow> Device \<Rightarrow> usp_error + Device" where
  "assign_codes [] d = Inr d"
| "assign_codes (path # paths) d =
     res_bind (assignPathCode (normalizeDeviceLookupPath path) path d) (assign_codes paths)"

definition buildPathCodes :: "Device \<Rightarrow> usp_error + Device" where
  "buildPathCodes d = assign_codes (Paths d) d"

definition index_of :: "('a \<Rightarrow> string) \<Rightarrow> 'a list \<Rightarrow> string \<rightharpoonup> nat" where
  "index_of key xs = fold (\<lambda>(i, x) m. m(normalizeDeviceLookupPath (key x) \<mapsto> i)) (enumerate 0 xs) Map.empty"

definition NewDevice :: "Object list \<Rightarrow> Param list \<Rightarrow> usp_error + Device" where
  "NewDevice objs ps =
     buildPathCodes \<lparr> Root = detectDeviceRoot objs ps, Objects = objs, Params = ps, objectIndex = index_of oPath objs,
       paramIndex = index_of pPath ps, pathCode = Map.empty, codePath = Map.empty \<rparr>"

definition lookup_index :: "(string \<rightharpoonup> nat) \<Rightarrow> string \<Rightarrow> nat option" where
  "lookup_index m path =
     (case m (normalizeDeviceLookupPath path) of Some i \<Rightarrow> Some i | None \<Rightarrow> m (normalizeCanonicalDeviceLookupPath path))"

definition GetParam :: "Device \<Rightarrow> string \<Rightarrow> Param option" where
  "GetParam d path = map_option ((!) (Params d)) (lookup_index (paramIndex d) path)"

definition GetObject :: "Device \<Rightarrow> string \<Rightarrow> Object option" where
  "GetObject d path = map_option ((!) (Objects d)) (lookup_index (objectIndex d) path)"

definition PathCode :: "Device \<Rightarrow> string \<Rightarrow> 64 word option" where
  "PathCode d path =
     (case pathCode d (normalizeDeviceLookupPath path) of
        Some c \<Rightarrow> Some c | None \<Rightarrow> pathCode d (normalizeCanonicalDeviceLookupPath path))"

definition PathByCode :: "Device \<Rightarrow> 64 word \<Rightarrow> string option" where
  "PathByCode d c = (if c = 0 then None else codePath d c)"

definition GetParamByCode :: "Device \<Rightarrow> 64 word \<Rightarrow> Param option" where
  "GetParamByCode d c = Option.bind (PathByCode d c) (GetParam d)"

definition GetObjectByCode :: "Device \<Rightarrow> 64 word \<Rightarrow> Object option" where
  "GetObjectByCode d c = Option.bind (PathByCode d c) (GetObject d)"

definition CanonicalPath :: "Device \<Rightarrow> string \<Rightarrow> string option" where
  "CanonicalPath d path =
     (if paramIndex d (normalizeDeviceLookupPath path) \<noteq> None then Some path
      else if objectIndex d (normalizeDeviceLookupPath path) \<noteq> None then Some path
      else let canonical = canonicalParamPath (TrimSpace path); key = normalizeDeviceLookupPath canonical in
        if paramIndex d key \<noteq> None then Some canonical
        else if objectIndex d key \<noteq> None then Some canonical
        else None)"

text \<open>The loop over the parts of both paths: the instances collected and whether one is concrete.\<close>

fun instances_loop :: "string list \<Rightarrow> string list \<Rightarrow> (64 word list \<times> bool) option" where
  "instances_loop (c # cs) (p # ps) =
     (if c = ''{i}'' then
        (if p = ''{i}'' then map_option (\<lambda>(is, h). (0 # is, h)) (instances_loop cs ps)
         else if isNumericPathSegment p then
           (case ParseUint p of
              None \<Rightarrow> None
            | Some v \<Rightarrow> (if v = 0 then None else map_option (\<lambda>(is, h). (v # is, True)) (instances_loop cs ps)))
         else None)
      else if EqualFold p c then instances_loop cs ps else None)"
| "instances_loop _ _ = Some ([], False)"

definition selectorInstancesFromPath :: "string \<Rightarrow> string \<Rightarrow> 64 word list option" where
  "selectorInstancesFromPath path canonical =
     (let p = TrimSpace path; c = TrimSpace canonical in
      if p = '''' \<or> c = '''' then None
      else let pathParts = Split p (CHR ''.''); canonicalParts = Split c (CHR ''.'') in
        if length pathParts \<noteq> length canonicalParts then None
        else case instances_loop canonicalParts pathParts of
               None \<Rightarrow> None
             | Some (is, hasConcrete) \<Rightarrow> Some (if hasConcrete then is else []))"

fun fill_instances :: "string list \<Rightarrow> 64 word list \<Rightarrow> string list" where
  "fill_instances [] is = []"
| "fill_instances (p # ps) [] = p # ps"
| "fill_instances (p # ps) (v # is) =
     (if p \<noteq> ''{i}'' then p # fill_instances ps (v # is)
      else (if v \<noteq> 0 then utoa (unat v) else p) # fill_instances ps is)"

definition applySelectorInstances :: "string \<Rightarrow> 64 word list \<Rightarrow> string option" where
  "applySelectorInstances canonical instances =
     (if canonical = '''' then None
      else let tokenCount = Count_sub canonical ''{i}'' in
        if tokenCount = 0 then (if instances = [] then Some canonical else None)
        else if instances = [] then Some canonical
        else if length instances \<noteq> tokenCount then None
        else Some (Join (fill_instances (Split canonical (CHR ''.'')) instances) ''.''))"

definition SelectorForPath :: "Device \<Rightarrow> string \<Rightarrow> PathSelector option" where
  "SelectorForPath d path =
     (case CanonicalPath d path of
        None \<Rightarrow> None
      | Some canonical \<Rightarrow>
          (case PathCode d canonical of
             None \<Rightarrow> None
           | Some c \<Rightarrow>
               if c = 0 then None
               else map_option (\<lambda>is. \<lparr> Code = c, Instances = is \<rparr>) (selectorInstancesFromPath path canonical)))"

definition PathForSelector :: "Device \<Rightarrow> PathSelector \<Rightarrow> string option" where
  "PathForSelector d sel =
     (if Code sel = 0 then None
      else case PathByCode d (Code sel) of
             None \<Rightarrow> None
           | Some canonical \<Rightarrow> applySelectorInstances canonical (Instances sel))"

definition SetParam :: "Param \<Rightarrow> Device \<Rightarrow> usp_error + Device" where
  "SetParam p d =
     (if TrimSpace (pPath p) = '''' then Inr d
      else let key = normalizeDeviceLookupPath (pPath p) in
        case paramIndex d key of
          Some i \<Rightarrow> Inr (d\<lparr> Params := (Params d)[i := p] \<rparr>)
        | None \<Rightarrow>
            res_bind (assignPathCode key (pPath p) (d\<lparr> paramIndex := (paramIndex d)(key \<mapsto> length (Params d)) \<rparr>)) (\<lambda>d'.
              Inr (d'\<lparr> Params := Params d' @ [p] \<rparr>)))"

definition SetObject :: "Object \<Rightarrow> Device \<Rightarrow> usp_error + Device" where
  "SetObject ob d =
     (if TrimSpace (oPath ob) = '''' then Inr d
      else let key = normalizeDeviceLookupPath (oPath ob) in
        case objectIndex d key of
          Some i \<Rightarrow> Inr (d\<lparr> Objects := (Objects d)[i := ob] \<rparr>)
        | None \<Rightarrow>
            res_bind (assignPathCode key (oPath ob) (d\<lparr> objectIndex := (objectIndex d)(key \<mapsto> length (Objects d)) \<rparr>)) (\<lambda>d'.
              Inr (d'\<lparr> Objects := Objects d' @ [ob] \<rparr>)))"

section \<open>Parts of a path\<close>

lemma Join_Split: "Join (Split s c) [c] = s"
proof (induction s)
  case Nil
  then show ?case by simp
next
  case (Cons x s)
  obtain p ps where s: "Split s c = p # ps" by (cases "Split s c") auto
  then show ?case using Cons by (cases ps) (auto simp: Join_Cons)
qed

lemma Split_no_sep: "p \<in> set (Split s c) \<Longrightarrow> c \<notin> set p"
  by (induction s arbitrary: p) (auto split: if_splits list.splits)

lemma code_dot: "code (CHR ''.'') = 46"
  by (simp add: code_def)

lemma lower_dot [simp]: "lower_char (CHR ''.'') = CHR ''.''"
  by (simp add: lower_char_def code_dot)

lemma ToLower_dot: "lower_char x = CHR ''.'' \<longleftrightarrow> x = CHR ''.''"
proof
  assume l: "lower_char x = CHR ''.''"
  show "x = CHR ''.''"
  proof (rule ccontr)
    assume "x \<noteq> CHR ''.''"
    then have "65 \<le> code x" "code x \<le> 90" "char_of (code x + 32) = CHR ''.''" using l by (auto simp: lower_char_def split: if_splits)
    then show False using code_char_of [of "code x + 32"] code_dot by simp
  qed
qed simp

lemma Split_ToLower: "Split (ToLower s) (CHR ''.'') = map ToLower (Split s (CHR ''.''))"
  by (induction s) (auto simp: ToLower_def ToLower_dot split: list.splits)

lemma ToLower_Join: "ToLower (Join ps ''.'') = Join (map ToLower ps) ''.''"
proof (induction ps)
  case Nil
  then show ?case by (simp add: ToLower_def)
next
  case (Cons p ps)
  then show ?case by (cases ps) (auto simp: ToLower_def)
qed

section \<open>Numerals\<close>

lemma digits_val_pos: "s \<noteq> [] \<Longrightarrow> list_all is_digit s \<Longrightarrow> hd s \<noteq> CHR ''0'' \<Longrightarrow> 0 < digits_val s"
proof (induction s rule: rev_induct)
  case Nil
  then show ?case by simp
next
  case (snoc x xs)
  show ?case
  proof (cases "xs = []")
    case True
    then have "is_digit x" "x \<noteq> CHR ''0''" using snoc.prems by auto
    moreover have "code (CHR ''0'') = 48" by (simp add: code_def)
    ultimately have "48 < code x" using code_inj [of x "CHR ''0''"] by (auto simp: is_digit_def)
    then show ?thesis using True by (simp add: digits_val_def)
  next
    case False
    then show ?thesis using snoc by (simp add: digits_val_snoc)
  qed
qed

lemma utoa_digits_val:
  "s \<noteq> [] \<Longrightarrow> list_all is_digit s \<Longrightarrow> hd s \<noteq> CHR ''0'' \<Longrightarrow> utoa (digits_val s) = s"
proof (induction s rule: rev_induct)
  case Nil
  then show ?case by simp
next
  case (snoc x xs)
  have d: "48 \<le> code x" "code x - 48 < 10" using snoc.prems by (auto simp: is_digit_def)
  have c: "digit_char (code x - 48) = x" using d(1) by (simp add: digit_char_def)
  show ?case
  proof (cases "xs = []")
    case True
    then show ?thesis using d c by (subst utoa.simps) (simp add: digits_val_def)
  next
    case False
    then have xs: "0 < digits_val xs" "utoa (digits_val xs) = xs" using snoc by (auto intro: digits_val_pos)
    define n where "n = digits_val xs"
    define k where "k = code x - 48"
    have n: "0 < n" "utoa n = xs" "k < 10" "digit_char k = x" using xs d c by (simp_all add: n_def k_def)
    have "utoa (n * 10 + k) = utoa n @ [digit_char k]" using n(1,3) by (subst utoa.simps) simp
    then show ?thesis using n by (simp add: digits_val_snoc flip: n_def k_def)
  qed
qed

lemma ParseUint_utoa: "ParseUint p = Some v \<Longrightarrow> hd p \<noteq> CHR ''0'' \<Longrightarrow> utoa (unat v) = p"
  by (auto simp: ParseUint_def isNumericPathSegment_def unat_of_nat utoa_digits_val split: if_splits)

section \<open>Schema paths and concrete paths\<close>

definition schema_segment :: "string \<Rightarrow> bool" where
  "schema_segment s \<longleftrightarrow> s = ''{i}'' \<or> CHR ''{'' \<notin> set s \<and> \<not> isNumericPathSegment s"

definition schema_path :: "string \<Rightarrow> bool" where
  "schema_path p \<longleftrightarrow> p \<noteq> '''' \<and> TrimSpace p = p \<and> (\<forall>s\<in>set (Split p (CHR ''.'')). schema_segment s)"

definition concrete_segment :: "string \<Rightarrow> bool" where
  "concrete_segment s \<longleftrightarrow> s = ''{i}'' \<or> CHR ''{'' \<notin> set s \<and> (isNumericPathSegment s \<longrightarrow> hd s \<noteq> CHR ''0'')"

definition concrete_path :: "string \<Rightarrow> bool" where
  "concrete_path p \<longleftrightarrow> (\<forall>c\<in>set (TrimSpace p). \<not> is_space c) \<and> (\<forall>s\<in>set (Split (TrimSpace p) (CHR ''.'')). concrete_segment s)"

lemma TrimSpace_none: "\<forall>c\<in>set s. \<not> is_space c \<Longrightarrow> TrimSpace s = s"
proof -
  have d: "dropWhile is_space s = s" if "\<forall>c\<in>set s. \<not> is_space c" for s using that by (cases s) auto
  assume "\<forall>c\<in>set s. \<not> is_space c"
  then show ?thesis using d [of s] d [of "rev s"] by (simp add: TrimSpace_def TrimLeft_def TrimRight_def)
qed

lemma lower_brace: "lower_char x = CHR ''{'' \<longleftrightarrow> x = CHR ''{''"
proof -
  have b: "code (CHR ''{'') = 123" by (simp add: code_def)
  show ?thesis
  proof
    assume l: "lower_char x = CHR ''{''"
    show "x = CHR ''{''"
    proof (rule ccontr)
      assume "x \<noteq> CHR ''{''"
      then have "65 \<le> code x" "code x \<le> 90" "char_of (code x + 32) = CHR ''{''" using l by (auto simp: lower_char_def split: if_splits)
      then show False using code_char_of [of "code x + 32"] b by simp
    qed
  qed (simp add: lower_char_def b)
qed

lemma brace_ToLower: "CHR ''{'' \<in> set (ToLower s) \<longleftrightarrow> CHR ''{'' \<in> set s"
  unfolding ToLower_def set_map image_iff by (metis lower_brace)

lemma same_token:
  assumes "ToLower r = ToLower c" and "schema_segment r" and "CHR ''{'' \<in> set c \<Longrightarrow> c = ''{i}''"
  shows "r = ''{i}'' \<longleftrightarrow> c = ''{i}''"
proof -
  have "CHR ''{'' \<in> set r \<longleftrightarrow> CHR ''{'' \<in> set c" using assms(1) brace_ToLower by metis
  then show ?thesis using assms(2,3) by (auto simp: schema_segment_def)
qed

lemma instances_loop_fill:
  assumes "length rs = length cs" and "length ps = length cs"
    and "\<forall>i<length cs. ToLower (rs ! i) = ToLower (cs ! i) \<and> (rs ! i = ''{i}'' \<longleftrightarrow> cs ! i = ''{i}'')"
    and "\<forall>p\<in>set ps. concrete_segment p" and "instances_loop cs ps = Some (is, h)"
  shows "length is = length (filter (\<lambda>r. r = ''{i}'') rs) \<and> map ToLower (fill_instances rs is) = map ToLower ps \<and>
    (\<not> h \<longrightarrow> map ToLower rs = map ToLower ps) \<and> (h \<longrightarrow> is \<noteq> [])"
  using assms
proof (induction cs ps arbitrary: rs "is" h rule: instances_loop.induct)
  case (1 c cs p ps)
  obtain r rs' where rs: "rs = r # rs'" using 1(4) by (cases rs) auto
  have rc: "ToLower r = ToLower c" "r = ''{i}'' \<longleftrightarrow> c = ''{i}''" using 1(6) rs by (auto dest: spec [of _ 0])
  have tl: "\<forall>i<length cs. ToLower (rs' ! i) = ToLower (cs ! i) \<and> (rs' ! i = ''{i}'' \<longleftrightarrow> cs ! i = ''{i}'')"
    using 1(6) rs by (auto dest: spec [of _ "Suc _"])
  have len: "length rs' = length cs" "length ps = length cs" "\<forall>p\<in>set ps. concrete_segment p" using 1(4,5,7) rs by auto
  show ?case
  proof (cases "c = ''{i}''")
    case True
    show ?thesis
    proof (cases "p = ''{i}''")
      case p: True
      then obtain js h' where l: "instances_loop cs ps = Some (js, h')" "is = 0 # js" "h = h'" using 1(8) True by auto
      note ih = 1(1) [OF True p len(1,2) tl len(3) l(1)]
      then show ?thesis using rs rc True p l by (auto simp: ToLower_def)
    next
      case p: False
      then obtain v js h' where l: "isNumericPathSegment p" "ParseUint p = Some v" "v \<noteq> 0" "instances_loop cs ps = Some (js, h')" "is = v # js" "h"
        using 1(8) True by (auto split: if_splits option.splits)
      note ih = 1(2) [OF True p l(1,2,3) len(1,2) tl len(3) l(4)]
      have "concrete_segment p" using 1(7) by simp
      then have "hd p \<noteq> CHR ''0''" using p l(1) by (simp add: concrete_segment_def)
      then have "utoa (unat v) = p" using ParseUint_utoa l(2) by blast
      then show ?thesis using rs rc True l ih by auto
    qed
  next
    case False
    then have l: "EqualFold p c" "instances_loop cs ps = Some (is, h)" using 1(8) by (auto split: if_splits)
    note ih = 1(3) [OF False l(1) len(1,2) tl len(3) l(2)]
    have "ToLower p = ToLower r" using l(1) rc(1) by (simp add: EqualFold_def)
    then show ?thesis using rs rc False ih by (cases "is") auto
  qed
qed auto

section \<open>Counting the instances of a schema path\<close>

lemma count_skip: "CHR ''{'' \<notin> set u \<Longrightarrow> count_from 0 (u @ v) ''{i}'' = count_from 0 v ''{i}''"
  by (induction u) (auto simp: HasPrefix_def)

lemma count_token: "count_from 0 (''{i}'' @ v) ''{i}'' = Suc (count_from 0 v ''{i}'')"
  by (simp add: HasPrefix_def eval_nat_numeral)

lemma count_Join:
  "\<forall>s\<in>set ps. schema_segment s \<Longrightarrow> Count_sub (Join ps ''.'') ''{i}'' = length (filter (\<lambda>s. s = ''{i}'') ps)"
proof (induction ps)
  case Nil
  then show ?case by (simp add: Count_sub_def)
next
  case (Cons p ps)
  have seg: "count_from 0 (p @ v) ''{i}'' = (if p = ''{i}'' then 1 else 0) + count_from 0 v ''{i}''" for v
    using Cons.prems count_skip count_token by (auto simp: schema_segment_def)
  have dot: "count_from 0 (''.'' @ v) ''{i}'' = count_from 0 v ''{i}''" for v by (rule count_skip) simp
  show ?case
  proof (cases "ps = []")
    case True
    then show ?thesis using seg [of "[]"] by (simp add: Count_sub_def)
  next
    case False
    then show ?thesis using Cons seg [of "''.'' @ Join ps ''.''"] dot [of "Join ps ''.''"]
      by (simp add: Join_Cons Count_sub_def)
  qed
qed

section \<open>The codes of a device\<close>

text \<open>Every assigned code is that of a registered path with the normalized form it is filed under.\<close>

definition codes_ok :: "string set \<Rightarrow> Device \<Rightarrow> bool" where
  "codes_ok S d \<longleftrightarrow> (\<forall>key c. pathCode d key = Some c \<longrightarrow> c \<noteq> 0 \<and> (\<exists>p\<in>S. codePath d c = Some p \<and> normalizeDeviceLookupPath p = key))"

definition same_index :: "Device \<Rightarrow> Device \<Rightarrow> bool" where
  "same_index d d' \<longleftrightarrow> objectIndex d' = objectIndex d \<and> paramIndex d' = paramIndex d \<and> pathCode d \<subseteq>\<^sub>m pathCode d'"

lemma assignPathCode_ok:
  assumes "assignPathCode (normalizeDeviceLookupPath p) p d = Inr d'" and "codes_ok S d" and "p \<in> S"
  shows "codes_ok S d' \<and> same_index d d' \<and>
    (normalizeDeviceLookupPath p \<noteq> '''' \<and> EncodePathCode p \<noteq> 0 \<longrightarrow> pathCode d' (normalizeDeviceLookupPath p) \<noteq> None)"
proof -
  let ?k = "normalizeDeviceLookupPath p" and ?c = "EncodePathCode p"
  show ?thesis
  proof (cases "?k = '''' \<or> pathCode d ?k \<noteq> None \<or> ?c = 0")
    case True
    then have "d' = d" using assms(1) by (auto simp: assignPathCode_def Let_def split: if_splits)
    then show ?thesis using assms(2) True by (auto simp: same_index_def)
  next
    case False
    then have e: "d' = d\<lparr> pathCode := (pathCode d)(?k \<mapsto> ?c), codePath := (codePath d)(?c \<mapsto> p) \<rparr>"
      and nc: "\<And>x. codePath d ?c = Some x \<Longrightarrow> normalizeDeviceLookupPath x = ?k"
      using assms(1) by (auto simp: assignPathCode_def Let_def split: if_splits option.splits)
    have "codes_ok S d'"
      unfolding codes_ok_def
    proof (intro allI impI)
      fix key c assume k: "pathCode d' key = Some c"
      show "c \<noteq> 0 \<and> (\<exists>q\<in>S. codePath d' c = Some q \<and> normalizeDeviceLookupPath q = key)"
      proof (cases "key = ?k")
        case True
        then show ?thesis using k e False assms(3) by auto
      next
        case ne: False
        then have "pathCode d key = Some c" using k e by simp
        then obtain q where q: "c \<noteq> 0" "q \<in> S" "codePath d c = Some q" "normalizeDeviceLookupPath q = key"
          using assms(2) by (auto simp: codes_ok_def)
        then have "c \<noteq> ?c" using nc ne by auto
        then show ?thesis using q e by auto
      qed
    qed
    then show ?thesis using False e by (auto simp: same_index_def map_le_def)
  qed
qed

lemma assign_codes_ok:
  assumes "assign_codes ps d = Inr d'" and "codes_ok S d" and "set ps \<subseteq> S"
  shows "codes_ok S d' \<and> same_index d d' \<and>
    (\<forall>p\<in>set ps. normalizeDeviceLookupPath p \<noteq> '''' \<and> EncodePathCode p \<noteq> 0 \<longrightarrow> pathCode d' (normalizeDeviceLookupPath p) \<noteq> None)"
  using assms
proof (induction ps arbitrary: d)
  case Nil
  then show ?case by (simp add: same_index_def)
next
  case (Cons p ps)
  obtain d1 where d1: "assignPathCode (normalizeDeviceLookupPath p) p d = Inr d1" "assign_codes ps d1 = Inr d'"
    using Cons.prems(1) by auto
  note a = assignPathCode_ok [OF d1(1) Cons.prems(2)]
  have i: "codes_ok S d1" "same_index d d1" using a Cons.prems(3) by auto
  note ih = Cons.IH [OF d1(2) i(1)]
  have s: "same_index d1 d'" using ih Cons.prems(3) by auto
  have "pathCode d' k \<noteq> None" if "pathCode d1 k \<noteq> None" for k
    using s that by (auto simp: same_index_def dest: map_leD)
  then show ?case using a ih i s Cons.prems(3) by (auto simp: same_index_def intro: map_le_trans)
qed

lemma index_of_dom: "index_of f xs key \<noteq> None \<Longrightarrow> \<exists>x\<in>set xs. normalizeDeviceLookupPath (f x) = key"
proof -
  have "fold (\<lambda>(i, x) m. m(normalizeDeviceLookupPath (f x) \<mapsto> i)) (enumerate k ys) m0 key \<noteq> None \<Longrightarrow>
      m0 key \<noteq> None \<or> (\<exists>x\<in>set ys. normalizeDeviceLookupPath (f x) = key)" for ys k m0
  proof (induction ys arbitrary: k m0)
    case Nil
    then show ?case by simp
  next
    case (Cons y ys)
    show ?case using Cons.IH [of "Suc k" "m0(normalizeDeviceLookupPath (f y) \<mapsto> k)"] Cons.prems
      by (cases "key = normalizeDeviceLookupPath (f y)") auto
  qed
  then show "index_of f xs key \<noteq> None \<Longrightarrow> ?thesis" by (fastforce simp: index_of_def)
qed

lemma canonical_schema: "schema_path p \<Longrightarrow> canonicalParamPath p = p"
proof -
  assume p: "schema_path p"
  then have "map canonical_segment (Split p (CHR ''.'')) = Split p (CHR ''.'')"
    by (intro map_idI) (auto simp: schema_path_def schema_segment_def canonical_segment_def)
  then show ?thesis using p by (simp add: canonicalParamPath_def schema_path_def Join_Split)
qed

lemma schema_path_code: "schema_path p \<Longrightarrow> normalizeDeviceLookupPath p \<noteq> '''' \<and> EncodePathCode p \<noteq> 0"
  by (auto simp: EncodePathCode_def normalizeCanonicalDeviceLookupPath_def canonical_schema normalizeDeviceLookupPath_def
      schema_path_def ToLower_def Let_def)

definition schema_ok :: "Object list \<Rightarrow> Param list \<Rightarrow> bool" where
  "schema_ok objs ps \<longleftrightarrow> (\<forall>ob\<in>set objs. schema_path (oPath ob)) \<and> (\<forall>p\<in>set ps. schema_path (pPath p))"

lemma NewDevice_codes:
  assumes "NewDevice objs ps = Inr d" and "schema_ok objs ps"
  shows "codes_ok {p. schema_path p} d" "\<And>key. paramIndex d key \<noteq> None \<or> objectIndex d key \<noteq> None \<Longrightarrow> pathCode d key \<noteq> None"
proof -
  let ?d0 = "\<lparr> Root = detectDeviceRoot objs ps, Objects = objs, Params = ps, objectIndex = index_of oPath objs,
       paramIndex = index_of pPath ps, pathCode = Map.empty, codePath = Map.empty \<rparr>"
  have a: "assign_codes (Paths ?d0) ?d0 = Inr d" using assms(1) by (simp add: NewDevice_def buildPathCodes_def)
  have "codes_ok {p. schema_path p} ?d0" by (simp add: codes_ok_def)
  moreover have sp: "set (Paths ?d0) \<subseteq> {p. schema_path p}" using assms(2) by (auto simp: Paths_def schema_ok_def)
  ultimately have c: "codes_ok {p. schema_path p} d" "same_index ?d0 d"
    and all: "\<forall>p\<in>set (Paths ?d0). normalizeDeviceLookupPath p \<noteq> '''' \<and> EncodePathCode p \<noteq> 0 \<longrightarrow> pathCode d (normalizeDeviceLookupPath p) \<noteq> None"
    using assign_codes_ok [OF a] by blast+
  have n: "pathCode d (normalizeDeviceLookupPath p) \<noteq> None" if "p \<in> oPath ` set objs \<union> pPath ` set ps" for p
  proof -
    have "p \<in> set (Paths ?d0)" using that by (simp add: Paths_def)
    then show ?thesis using all sp schema_path_code by blast
  qed
  show "codes_ok {p. schema_path p} d" by (rule c)
  fix key assume "paramIndex d key \<noteq> None \<or> objectIndex d key \<noteq> None"
  then have "index_of pPath ps key \<noteq> None \<or> index_of oPath objs key \<noteq> None" using c(2) by (simp add: same_index_def)
  then obtain p where "p \<in> oPath ` set objs \<union> pPath ` set ps" "normalizeDeviceLookupPath p = key"
    using index_of_dom [of pPath ps key] index_of_dom [of oPath objs key] by (metis UnCI image_eqI)
  then show "pathCode d key \<noteq> None" using n by metis
qed

section \<open>Selectors lead back to the path\<close>

lemma selector_parts:
  assumes "schema_path q" and "ToLower q = ToLower c" and "concrete_path path" and "TrimSpace path \<noteq> ''''"
    and "\<forall>s\<in>set (Split c (CHR ''.'')). CHR ''{'' \<in> set s \<longrightarrow> s = ''{i}''" and "TrimSpace c = c"
    and "selectorInstancesFromPath path c = Some is"
  shows "\<exists>p. applySelectorInstances q is = Some p \<and> ToLower p = ToLower (TrimSpace path)"
proof -
  let ?rs = "Split q (CHR ''.'')" and ?cs = "Split c (CHR ''.'')" and ?ps = "Split (TrimSpace path) (CHR ''.'')"
  have c: "c \<noteq> ''''" using assms(1,2) by (auto simp: schema_path_def ToLower_def)
  obtain js h where l: "instances_loop ?cs ?ps = Some (js, h)" "length ?ps = length ?cs" "is = (if h then js else [])"
    using assms(4,6,7) c by (auto simp: selectorInstancesFromPath_def Let_def split: if_splits option.splits)
  have low: "map ToLower ?rs = map ToLower ?cs" using assms(2) Split_ToLower by metis
  then have len: "length ?rs = length ?cs" by (metis length_map)
  have seg: "\<forall>s\<in>set ?rs. schema_segment s" using assms(1) by (simp add: schema_path_def)
  have tok: "\<forall>i<length ?cs. ToLower (?rs ! i) = ToLower (?cs ! i) \<and> (?rs ! i = ''{i}'' \<longleftrightarrow> ?cs ! i = ''{i}'')"
  proof (intro allI impI)
    fix i assume i: "i < length ?cs"
    have e: "ToLower (?rs ! i) = ToLower (?cs ! i)" using low i len by (metis nth_map)
    moreover have "?rs ! i = ''{i}'' \<longleftrightarrow> ?cs ! i = ''{i}''"
      using same_token [OF e] seg assms(5) i len by (metis nth_mem)
    ultimately show "ToLower (?rs ! i) = ToLower (?cs ! i) \<and> (?rs ! i = ''{i}'' \<longleftrightarrow> ?cs ! i = ''{i}'')" ..
  qed
  have conc: "\<forall>p\<in>set ?ps. concrete_segment p" using assms(3) by (simp add: concrete_path_def)
  note f = instances_loop_fill [OF len l(2) tok conc l(1)]
  have cnt: "Count_sub q ''{i}'' = length js" using count_Join [OF seg] f by (simp add: Join_Split)
  have q: "q \<noteq> ''''" using assms(1) by (simp add: schema_path_def)
  have bk: "Join (map ToLower ?ps) ''.'' = ToLower (TrimSpace path)"
    using ToLower_Join [of ?ps] by (simp add: Join_Split)
  show ?thesis
  proof (cases h)
    case True
    then have "is = js" "js \<noteq> []" using l(3) f by auto
    then have "applySelectorInstances q is = Some (Join (fill_instances ?rs js) ''.'')"
      using q cnt by (simp add: applySelectorInstances_def Let_def)
    moreover have "ToLower (Join (fill_instances ?rs js) ''.'') = ToLower (TrimSpace path)"
      using f bk by (simp add: ToLower_Join)
    ultimately show ?thesis by blast
  next
    case False
    then have "applySelectorInstances q is = Some q" using l(3) q by (simp add: applySelectorInstances_def Let_def)
    moreover have "ToLower q = ToLower (TrimSpace path)"
      using f False bk ToLower_Join [of ?rs] by (simp add: Join_Split)
    ultimately show ?thesis by blast
  qed
qed

lemma Split_Join_parts:
  "ps \<noteq> [] \<Longrightarrow> \<forall>p\<in>set ps. CHR ''.'' \<notin> set p \<Longrightarrow> Split (Join ps ''.'') (CHR ''.'') = ps"
proof (induction ps)
  case Nil
  then show ?case by simp
next
  case (Cons p ps)
  have one: "Split p (CHR ''.'') = [p]" if "CHR ''.'' \<notin> set p" for p using that by (induction p) auto
  have two: "Split (p @ ''.'' @ s) (CHR ''.'') = p # Split s (CHR ''.'')" if "CHR ''.'' \<notin> set p" for p s
    using that by (induction p) auto
  show ?case using Cons one two by (cases "ps = []") (auto simp: Join_Cons)
qed

lemma canonical_parts:
  "s \<noteq> '''' \<Longrightarrow> Split (canonicalParamPath s) (CHR ''.'') = map canonical_segment (Split s (CHR ''.''))"
proof -
  assume "s \<noteq> ''''"
  moreover have "\<forall>p\<in>set (map canonical_segment (Split s (CHR ''.''))). CHR ''.'' \<notin> set p"
    using Split_no_sep by (auto simp: canonical_segment_def)
  ultimately show ?thesis by (simp add: canonicalParamPath_def Split_Join_parts)
qed

lemma set_Join: "set (Join ps sep) \<subseteq> set sep \<union> \<Union> (set ` set ps)"
proof (induction ps)
  case Nil
  then show ?case by simp
next
  case (Cons p ps)
  then show ?case by (cases "ps = []") (auto simp: Join_Cons)
qed

lemma set_Split: "p \<in> set (Split s c) \<Longrightarrow> set p \<subseteq> set s"
proof (induction s arbitrary: p)
  case Nil
  then show ?case by simp
next
  case (Cons x s)
  obtain q qs where q: "Split s c = q # qs" by (cases "Split s c") auto
  then show ?case using Cons.IH [of q] Cons.IH [of p] Cons.prems by (cases "x = c") auto
qed

lemma canonical_no_space:
  assumes "\<forall>c\<in>set s. \<not> is_space c"
  shows "\<forall>c\<in>set (canonicalParamPath s). \<not> is_space c"
proof
  fix x assume "x \<in> set (canonicalParamPath s)"
  then have "x \<in> set ''.'' \<union> \<Union> (set ` set (map canonical_segment (Split s (CHR ''.''))))"
    using set_Join by (fastforce simp: canonicalParamPath_def split: if_splits)
  then have "x = CHR ''.'' \<or> x \<in> set ''{i}'' \<or> x \<in> set s"
    using set_Split by (fastforce simp: canonical_segment_def split: if_splits)
  then show "\<not> is_space x" using assms by (auto simp: is_space_def code_def)
qed

text \<open>
  The selector of a path leads back to the path: for a device built from well-formed schema paths, a concrete
  path with a selector is restored from it, instance numbers included, up to the case of its letters and surrounding space.
\<close>

lemma selector_restores:
  assumes "NewDevice objs ps = Inr d" and "schema_ok objs ps" and "concrete_path path" and "SelectorForPath d path = Some sel"
  shows "\<exists>p. PathForSelector d sel = Some p \<and> ToLower p = ToLower (TrimSpace path)"
proof -
  obtain canonical c where can: "CanonicalPath d path = Some canonical" "PathCode d canonical = Some c" "c \<noteq> 0" "Code sel = c"
      "selectorInstancesFromPath path canonical = Some (Instances sel)"
    using assms(4) by (auto simp: SelectorForPath_def split: option.splits if_splits)
  note codes = NewDevice_codes [OF assms(1,2)]
  have "paramIndex d (normalizeDeviceLookupPath canonical) \<noteq> None \<or> objectIndex d (normalizeDeviceLookupPath canonical) \<noteq> None"
    using can(1) by (auto simp: CanonicalPath_def Let_def split: if_splits)
  then have "pathCode d (normalizeDeviceLookupPath canonical) \<noteq> None" by (rule codes(2))
  then have "pathCode d (normalizeDeviceLookupPath canonical) = Some c"
    using can(2) by (auto simp: PathCode_def)
  then obtain q where q: "schema_path q" "codePath d c = Some q" "normalizeDeviceLookupPath q = normalizeDeviceLookupPath canonical"
    using codes(1) by (auto simp: codes_ok_def)
  let ?c = "TrimSpace canonical"
  have tp: "TrimSpace path \<noteq> ''''" using can(5) by (auto simp: selectorInstancesFromPath_def Let_def split: if_splits)
  have nosp: "\<forall>x\<in>set (TrimSpace path). \<not> is_space x" using assms(3) by (simp add: concrete_path_def)
  have "?c = TrimSpace path \<or> ?c = canonicalParamPath (TrimSpace path)"
    using can(1) TrimSpace_none [OF canonical_no_space [OF nosp]]
    by (auto simp: CanonicalPath_def Let_def split: if_splits)
  moreover have "TrimSpace (TrimSpace path) = TrimSpace path" by (rule TrimSpace_none [OF nosp])
  ultimately have cc: "TrimSpace ?c = ?c" "\<forall>s\<in>set (Split ?c (CHR ''.'')). CHR ''{'' \<in> set s \<longrightarrow> s = ''{i}''"
    using TrimSpace_none [OF canonical_no_space [OF nosp]] assms(3) tp
    by (auto simp: canonical_parts concrete_path_def concrete_segment_def canonical_segment_def)
  have "ToLower q = ToLower ?c" using q(1,3) by (simp add: normalizeDeviceLookupPath_def schema_path_def)
  moreover have "selectorInstancesFromPath path ?c = Some (Instances sel)"
    using can(5) cc(1) by (simp add: selectorInstancesFromPath_def)
  ultimately have "\<exists>p. applySelectorInstances q (Instances sel) = Some p \<and> ToLower p = ToLower (TrimSpace path)"
    using selector_parts [OF q(1) _ assms(3) tp cc(2,1)] by blast
  then show ?thesis using can(3,4) q(2) by (simp add: PathForSelector_def PathByCode_def)
qed

definition device_demo :: "Param list" where
  "device_demo = [\<lparr> pPath = ''dev.if.{i}.on'', pType = TypeBoolean, pAccess = ''readWrite'', pSinceVersion = '''', pDescription = '''', pLimits = no_limits \<rparr>]"

lemma demo_strings:
  "normalizeDeviceLookupPath ''dev.if.{i}.on'' = ''dev.if.{i}.on''" "normalizeDeviceLookupPath ''dev.if.3.on'' = ''dev.if.3.on''"
  "canonicalParamPath (TrimSpace ''dev.if.3.on'') = ''dev.if.{i}.on''"
  "selectorInstancesFromPath ''dev.if.3.on'' ''dev.if.{i}.on'' = Some [3]"
  "ToLower (TrimSpace ''dev.if.3.on'') = ''dev.if.3.on''" "concrete_path ''dev.if.3.on''" "schema_path ''dev.if.{i}.on''"
  by (simp_all add: normalizeDeviceLookupPath_def TrimSpace_def TrimLeft_def TrimRight_def ToLower_def lower_char_def is_space_def code_def
      canonicalParamPath_def canonical_segment_def isNumericPathSegment_def is_digit_def selectorInstancesFromPath_def ParseUint_def
      digits_val_def EqualFold_def concrete_path_def concrete_segment_def schema_path_def schema_segment_def)

text \<open>A device with one parameter, and the selector of an instance of it.\<close>

lemma device_demo_selector:
  obtains d where "NewDevice [] device_demo = Inr d" "schema_ok [] device_demo"
    "SelectorForPath d ''dev.if.3.on'' = Some \<lparr> Code = EncodePathCode ''dev.if.{i}.on'', Instances = [3] \<rparr>"
    "EncodePathCode ''dev.if.{i}.on'' \<noteq> 0"
proof -
  let ?c = "EncodePathCode ''dev.if.{i}.on''"
  have c: "?c \<noteq> 0" using schema_path_code demo_strings(7) by blast
  obtain d where d: "NewDevice [] device_demo = Inr d" "paramIndex d = [''dev.if.{i}.on'' \<mapsto> 0]" "objectIndex d = Map.empty"
      "pathCode d = [''dev.if.{i}.on'' \<mapsto> ?c]"
    using c by (simp add: NewDevice_def buildPathCodes_def Paths_def device_demo_def assignPathCode_def demo_strings index_of_def Let_def)
  have "SelectorForPath d ''dev.if.3.on'' = Some \<lparr> Code = ?c, Instances = [3] \<rparr>"
    using c by (simp add: SelectorForPath_def CanonicalPath_def PathCode_def d demo_strings Let_def)
  moreover have "schema_ok [] device_demo" using demo_strings(7) by (simp add: schema_ok_def device_demo_def)
  ultimately show ?thesis using d(1) c that by blast
qed

end
