(* ===== verification/Fragments.thy ===== *)
theory Fragments
  imports Wire "HOL-Library.Multiset"
begin

text \<open>
  The fragments of a control payload, \<open>src/internal/wusp/control_fragments.go\<close>: a payload is compressed
  when that makes it shorter, cut into pieces that fit a datagram, and put together again from
  the pieces in any order. The result of \<open>DecodeUSPControlFragment\<close> is \<open>Inr None\<close> for a datagram that is not
  a fragment (\<open>false, nil\<close> in the source). The slot of a piece that has not arrived is \<open>None\<close> (\<open>nil\<close>).
\<close>

unbundle bit_operations_syntax

section \<open>The code\<close>

record USPControlFragment =
  MessageID :: "64 word"
  Index :: "32 word"
  Count :: "32 word"
  RawSize :: "32 word"
  Compressed :: bool
  Data :: "byte list"

datatype frag_error =
    ValidationError string
  | Malformed string
  | Unsupported byte
  | FragLz4 lz4_error

definition WUSPMaxDatagramPayload :: int where "WUSPMaxDatagramPayload = 1200"
definition uspControlFragmentVersion :: byte where "uspControlFragmentVersion = 1"
definition uspControlFragmentMagic :: byte where "uspControlFragmentMagic = 0x54"
definition uspControlFragmentHeaderSize :: nat where "uspControlFragmentHeaderSize = 23"

lemmas frag_consts = WUSPMaxDatagramPayload_def uspControlFragmentVersion_def uspControlFragmentMagic_def uspControlFragmentHeaderSize_def

definition validateUSPControlFragment :: "USPControlFragment \<Rightarrow> frag_error + unit" where
  "validateUSPControlFragment f =
     (if MessageID f = 0 then Inl (ValidationError ''control fragment message id required'')
      else if Count f = 0 then Inl (ValidationError ''control fragment count required'')
      else if Count f \<le> Index f then Inl (ValidationError ''control fragment index out of range'')
      else if Data f = [] then Inl (ValidationError ''control fragment missing payload'')
      else if Compressed f \<and> RawSize f = 0 then Inl (ValidationError ''compressed control fragment missing raw size'')
      else Inr ())"

definition compressUSPControlPayload :: "byte list \<Rightarrow> byte list option" where
  "compressUSPControlPayload bs =
     (if length bs < 512 then None
      else case compress bs of
             None \<Rightarrow> None
           | Some c \<Rightarrow> (if length c = 0 \<or> length bs \<le> length c then None else Some c))"

definition decompressUSPControlPayload :: "byte list \<Rightarrow> nat \<Rightarrow> frag_error + byte list" where
  "decompressUSPControlPayload bs rawSize =
     (case decompress bs rawSize of Inl e \<Rightarrow> Inl (FragLz4 e) | Inr raw \<Rightarrow> Inr raw)"

definition EncodeUSPControlFragment :: "USPControlFragment \<Rightarrow> frag_error + byte list" where
  "EncodeUSPControlFragment f =
     res_bind (validateUSPControlFragment f) (\<lambda>_.
       let flags = (if Compressed f then 1 else 0) in
       Inr ([uspControlFragmentMagic, uspControlFragmentVersion, flags]
            @ put64 (MessageID f) @ put32 (Index f) @ put32 (Count f) @ put32 (RawSize f) @ Data f))"

definition slice :: "nat \<Rightarrow> nat \<Rightarrow> 'a list \<Rightarrow> 'a list" where
  "slice i j xs = take (j - i) (drop i xs)"

definition DecodeUSPControlFragment :: "byte list \<Rightarrow> frag_error + USPControlFragment option" where
  "DecodeUSPControlFragment bs =
     (if length bs = 0 \<or> bs ! 0 \<noteq> uspControlFragmentMagic then Inr None
      else if length bs < uspControlFragmentHeaderSize then Inl (Malformed ''control fragment payload too short'')
      else if bs ! 1 \<noteq> uspControlFragmentVersion then Inl (Unsupported (bs ! 1))
      else
        let f = \<lparr> MessageID = get64 (slice 3 11 bs), Index = get32 (slice 11 15 bs), Count = get32 (slice 15 19 bs),
                  RawSize = get32 (slice 19 23 bs), Compressed = (bs ! 2 AND 1 \<noteq> 0), Data = drop 23 bs \<rparr>
        in res_bind (validateUSPControlFragment f) (\<lambda>_. Inr (Some f)))"

fun fragment_loop :: "(nat \<Rightarrow> USPControlFragment) \<Rightarrow> nat list \<Rightarrow> frag_error + byte list list" where
  "fragment_loop piece [] = Inr []"
| "fragment_loop piece (i # is) =
     res_bind (EncodeUSPControlFragment (piece i)) (\<lambda>frame. res_bind (fragment_loop piece is) (\<lambda>fs. Inr (frame # fs)))"

definition FragmentUSPControlPayload :: "byte list \<Rightarrow> 64 word \<Rightarrow> int \<Rightarrow> frag_error + byte list list" where
  "FragmentUSPControlPayload payload messageID maxDatagramPayload =
     (if payload = [] then Inl (ValidationError ''control payload missing bytes'')
      else if messageID = 0 then Inl (ValidationError ''control fragment message id required'')
      else
        let maxp = (if maxDatagramPayload < int uspControlFragmentHeaderSize + 1 then WUSPMaxDatagramPayload else maxDatagramPayload);
            fsize = nat maxp - uspControlFragmentHeaderSize;
            comp = compressUSPControlPayload payload;
            wirePayload = (case comp of None \<Rightarrow> payload | Some c \<Rightarrow> c);
            rawSize = (case comp of None \<Rightarrow> 0 | Some _ \<Rightarrow> of_nat (length payload));
            count0 = of_nat ((length wirePayload + fsize - 1) div fsize) :: 32 word;
            cnt = (if count0 = 0 then 1 else count0)
        in fragment_loop (\<lambda>i. \<lparr> MessageID = messageID, Index = of_nat i, Count = cnt, RawSize = rawSize, Compressed = (comp \<noteq> None),
                                 Data = slice (i * fsize) (min (i * fsize + fsize) (length wirePayload)) wirePayload \<rparr>)
             [0..<unat cnt])"

fun assemble_loop :: "USPControlFragment \<Rightarrow> byte list option list \<Rightarrow> USPControlFragment list \<Rightarrow> frag_error + byte list option list" where
  "assemble_loop first ordered [] = Inr ordered"
| "assemble_loop first ordered (f # fs) =
     res_bind (validateUSPControlFragment f) (\<lambda>_.
       if MessageID f \<noteq> MessageID first \<or> Count f \<noteq> Count first \<or> Compressed f \<noteq> Compressed first \<or> RawSize f \<noteq> RawSize first
       then Inl (Malformed ''mixed control fragment assembly'')
       else if ordered ! unat (Index f) \<noteq> None then Inl (Malformed ''duplicate control fragment index'')
       else assemble_loop first (ordered[unat (Index f) := Some (Data f)]) fs)"

fun join_parts :: "byte list option list \<Rightarrow> frag_error + byte list" where
  "join_parts [] = Inr []"
| "join_parts (None # ps) = Inl (Malformed ''missing control fragment index'')"
| "join_parts (Some d # ps) = res_bind (join_parts ps) (\<lambda>bs. Inr (d @ bs))"

definition ReassembleUSPControlFragments :: "USPControlFragment list \<Rightarrow> frag_error + byte list" where
  "ReassembleUSPControlFragments fragments =
     (case fragments of
        [] \<Rightarrow> Inl (ValidationError ''missing control fragments'')
      | first # _ \<Rightarrow>
          res_bind (validateUSPControlFragment first) (\<lambda>_.
          if of_nat (length fragments) \<noteq> Count first then Inl (Malformed ''control fragment count mismatch'')
          else
            res_bind (assemble_loop first (replicate (unat (Count first)) None) fragments) (\<lambda>ordered.
            res_bind (join_parts ordered) (\<lambda>payload.
              if \<not> Compressed first then Inr payload
              else if RawSize first = 0 then Inl (Malformed ''compressed control fragments missing raw size'')
              else decompressUSPControlPayload payload (unat (RawSize first))))))"

section \<open>One fragment\<close>

lemma encoded_parts:
  assumes "bs = m # v # fl # put64 a @ put32 b @ put32 c @ put32 d @ rest"
  shows "get64 (slice 3 11 bs) = a" "get32 (slice 11 15 bs) = b" "get32 (slice 15 19 bs) = c" "get32 (slice 19 23 bs) = d" "drop 23 bs = rest"
  using assms get64_put64 [of a "[]"] get32_put32 [of b "[]"] get32_put32 [of c "[]"] get32_put32 [of d "[]"]
  by (simp_all add: slice_def)

lemma fragment_roundtrip:
  assumes "validateUSPControlFragment f = Inr ()"
  obtains bs where "EncodeUSPControlFragment f = Inr bs" "DecodeUSPControlFragment bs = Inr (Some f)"
    "length bs = 23 + length (Data f)"
proof -
  let ?bs = "uspControlFragmentMagic # uspControlFragmentVersion # (if Compressed f then 1 else 0) #
     put64 (MessageID f) @ put32 (Index f) @ put32 (Count f) @ put32 (RawSize f) @ Data f"
  have e: "EncodeUSPControlFragment f = Inr ?bs" using assms by (simp add: EncodeUSPControlFragment_def Let_def)
  have "DecodeUSPControlFragment ?bs = Inr (Some f)"
    unfolding DecodeUSPControlFragment_def Let_def encoded_parts [OF refl]
    using assms by (cases f) (auto simp: frag_consts)
  then show ?thesis by (intro that [OF e]) simp_all
qed

section \<open>Cutting and joining\<close>

lemma concat_slices:
  "concat (map (\<lambda>i. slice (i * k) (min (i * k + k) (length w)) w) [0..<n]) = take (n * k) w"
proof (induction n)
  case 0
  then show ?case by simp
next
  case (Suc n)
  have "slice (n * k) (min (n * k + k) (length w)) w = take k (drop (n * k) w)"
    by (simp add: slice_def min_def)
  then show ?case using Suc by (simp add: take_add [symmetric] add.commute)
qed

lemma join_Some: "join_parts (map (\<lambda>i. Some (d i)) is) = Inr (concat (map d is))"
  by (induction "is") auto

definition fits :: "USPControlFragment \<Rightarrow> USPControlFragment \<Rightarrow> bool" where
  "fits first f \<longleftrightarrow> validateUSPControlFragment f = Inr () \<and> MessageID f = MessageID first \<and> Count f = Count first \<and>
     Compressed f = Compressed first \<and> RawSize f = RawSize first"

lemma fits_trans: "fits a f \<Longrightarrow> fits a g \<Longrightarrow> fits f g"
  by (simp add: fits_def)

lemma validate_index: "validateUSPControlFragment f = Inr () \<Longrightarrow> unat (Index f) < unat (Count f)"
  by (auto simp: validateUSPControlFragment_def word_less_nat_alt [symmetric] not_le split: if_splits)

lemma assemble_loop_ok:
  assumes "\<forall>f\<in>set fs. fits first f" and "distinct (map Index fs)"
    and "\<forall>f\<in>set fs. ordered ! unat (Index f) = None" and "length ordered = unat (Count first)"
  shows "\<exists>o'. assemble_loop first ordered fs = Inr o' \<and> length o' = length ordered \<and>
    (\<forall>f\<in>set fs. o' ! unat (Index f) = Some (Data f)) \<and>
    (\<forall>i. (\<forall>f\<in>set fs. unat (Index f) \<noteq> i) \<longrightarrow> o' ! i = ordered ! i)"
  using assms
proof (induction fs arbitrary: ordered)
  case Nil
  then show ?case by simp
next
  case (Cons f fs)
  let ?o = "ordered[unat (Index f) := Some (Data f)]"
  have v: "validateUSPControlFragment f = Inr ()" and c: "Count f = Count first" using Cons.prems by (simp_all add: fits_def)
  have idx: "unat (Index f) < length ordered" using validate_index [OF v] c Cons.prems(4) by simp
  have ne: "unat (Index g) \<noteq> unat (Index f)" if "g \<in> set fs" for g
    using Cons.prems(2) that by (metis image_eqI list.set_map distinct.simps(2) list.simps(9) word_unat_eq_iff)
  have "\<forall>g\<in>set fs. ?o ! unat (Index g) = None" using Cons.prems(3) ne by (metis list.set_intros(2) nth_list_update_neq)
  from Cons.IH [OF _ _ this] Cons.prems
  obtain o' where o: "assemble_loop first ?o fs = Inr o'" "length o' = length ?o"
      "\<forall>g\<in>set fs. o' ! unat (Index g) = Some (Data g)" "\<forall>i. (\<forall>g\<in>set fs. unat (Index g) \<noteq> i) \<longrightarrow> o' ! i = ?o ! i"
    by auto
  have "assemble_loop first ordered (f # fs) = Inr o'" using Cons.prems o(1) v by (simp add: fits_def)
  moreover have "o' ! unat (Index f) = Some (Data f)" using o(4) ne idx by simp
  ultimately show ?case using o by auto
qed

lemma fragment_loop_ok:
  assumes "\<forall>i\<in>set is. validateUSPControlFragment (piece i) = Inr ()"
  shows "\<exists>frames. fragment_loop piece is = Inr frames \<and> length frames = length is \<and>
    (\<forall>k<length is. DecodeUSPControlFragment (frames ! k) = Inr (Some (piece (is ! k))) \<and>
       length (frames ! k) = 23 + length (Data (piece (is ! k))))"
  using assms
proof (induction "is")
  case Nil
  then show ?case by simp
next
  case (Cons i "is")
  obtain frames where f: "fragment_loop piece is = Inr frames" "length frames = length is"
      "\<forall>k<length is. DecodeUSPControlFragment (frames ! k) = Inr (Some (piece (is ! k))) \<and>
       length (frames ! k) = 23 + length (Data (piece (is ! k)))"
    using Cons by auto
  obtain b where b: "EncodeUSPControlFragment (piece i) = Inr b" "DecodeUSPControlFragment b = Inr (Some (piece i))"
      "length b = 23 + length (Data (piece i))"
    using Cons.prems by (auto elim: fragment_roundtrip)
  have "\<forall>k<length (i # is). DecodeUSPControlFragment ((b # frames) ! k) = Inr (Some (piece ((i # is) ! k))) \<and>
       length ((b # frames) ! k) = 23 + length (Data (piece ((i # is) ! k)))"
    using f(3) b by (auto simp: less_Suc_eq_0_disj)
  then show ?case using f(1,2) b(1) by (intro exI [of _ "b # frames"]) simp
qed

text \<open>The fragments of one payload, however they are ordered, give it back.\<close>

lemma reassemble_perm:
  assumes "0 < n" and "\<forall>i<n. fits (piece 0) (piece i) \<and> unat (Index (piece i)) = i" and "Count (piece 0) = of_nat n" and "n < 2 ^ 32"
    and "mset fs = mset (map piece [0..<n])"
  shows "ReassembleUSPControlFragments fs =
    (if \<not> Compressed (piece 0) then Inr (concat (map (\<lambda>i. Data (piece i)) [0..<n]))
     else decompressUSPControlPayload (concat (map (\<lambda>i. Data (piece i)) [0..<n])) (unat (RawSize (piece 0))))"
proof -
  have l: "length fs = n" using mset_eq_length [OF assms(5)] by simp
  have s: "set fs = piece ` {0..<n}" using mset_eq_setD [OF assms(5)] by simp
  have c: "unat (Count (piece 0)) = n" using assms(3,4) by (simp add: unat_of_nat)
  obtain f gs where fs: "fs = f # gs" using l assms(1) by (cases fs) auto
  have "f \<in> piece ` {0..<n}" using s fs by auto
  then have f: "fits (piece 0) f" using assms(2) by auto
  have all: "\<forall>g\<in>set fs. fits f g"   proof
    fix g assume "g \<in> set fs"
    then have "fits (piece 0) g" using s assms(2) by auto
    with f show "fits f g" by (rule fits_trans)
  qed
  have "distinct (map Index fs)"
  proof -
    have "mset (map Index fs) = mset (map Index (map piece [0..<n]))" using assms(5) by (metis mset_map)
    moreover have "inj_on (Index \<circ> piece) {0..<n}" using assms(2) by (intro inj_onI) (metis atLeastLessThan_iff comp_apply)
    ultimately show ?thesis using distinct_map by (metis mset_eq_imp_distinct_iff map_map distinct_upt set_upt)
  qed
  note dist = this
  have nones: "\<forall>g\<in>set fs. replicate (unat (Count f)) (None :: byte list option) ! unat (Index g) = None"
  proof
    fix g assume "g \<in> set fs"
    then have "validateUSPControlFragment g = Inr ()" "Count g = Count f" using all by (auto simp: fits_def)
    then show "replicate (unat (Count f)) (None :: byte list option) ! unat (Index g) = None"
      using validate_index [of g] by simp
  qed
  from assemble_loop_ok [OF all dist, of "replicate (unat (Count f)) None"]
  obtain o' where o: "assemble_loop f (replicate (unat (Count f)) None) fs = Inr o'" "length o' = unat (Count f)"
      "\<forall>g\<in>set fs. o' ! unat (Index g) = Some (Data g)"
    using nones by auto
  have cf: "Count f = Count (piece 0)" "Compressed f = Compressed (piece 0)" "RawSize f = RawSize (piece 0)" using f by (auto simp: fits_def)
  have "o' = map (\<lambda>i. Some (Data (piece i))) [0..<n]"
    using o(2,3) cf(1) c s assms(2) by (intro nth_equalityI) auto
  then have j: "join_parts o' = Inr (concat (map (\<lambda>i. Data (piece i)) [0..<n]))" by (simp add: join_Some)
  have v: "validateUSPControlFragment f = Inr ()" using f by (simp add: fits_def)
  have raw: "Compressed f \<Longrightarrow> RawSize f \<noteq> 0" using v by (auto simp: validateUSPControlFragment_def split: if_splits)
  have "of_nat (length fs) = Count f" using l assms(3) cf(1) by simp
  then show ?thesis unfolding ReassembleUSPControlFragments_def fs list.case using v o(1) j raw cf fs by auto
qed

section \<open>Properties\<close>

text \<open>The limit on a datagram that \<open>FragmentUSPControlPayload\<close> uses.\<close>

definition datagram_limit :: "int \<Rightarrow> nat" where
  "datagram_limit maxp = nat (if maxp < 24 then 1200 else maxp)"

lemma compressed_payload:
  assumes "compressUSPControlPayload p = Some c"
  shows "decompressUSPControlPayload c (length p) = Inr p" "c \<noteq> []" "length c < length p"
  using assms decompress_compress [of p c]
  by (auto simp: compressUSPControlPayload_def decompressUSPControlPayload_def split: if_splits option.splits)

lemma payload_pieces:
  assumes "payload \<noteq> []" and "length payload < 2 ^ 32" and "mid \<noteq> 0"
  obtains n piece where "FragmentUSPControlPayload payload mid maxp = fragment_loop piece [0..<n]"
    "0 < n" "n < 2 ^ 32" "\<forall>i<n. fits (piece 0) (piece i) \<and> unat (Index (piece i)) = i \<and> 23 + length (Data (piece i)) \<le> datagram_limit maxp"
    "Count (piece 0) = of_nat n" "MessageID (piece 0) = mid"
    "(if \<not> Compressed (piece 0) then Inr (concat (map (\<lambda>i. Data (piece i)) [0..<n]))
      else decompressUSPControlPayload (concat (map (\<lambda>i. Data (piece i)) [0..<n])) (unat (RawSize (piece 0)))) = Inr payload"
proof -
  define comp where "comp = compressUSPControlPayload payload"
  define k where "k = datagram_limit maxp - 23"
  define w where "w = (case comp of None \<Rightarrow> payload | Some c \<Rightarrow> c)"
  define raw :: "32 word" where "raw = (case comp of None \<Rightarrow> 0 | Some _ \<Rightarrow> of_nat (length payload))"
  define n where "n = (length w + k - 1) div k"
  define piece where "piece = (\<lambda>i. \<lparr> MessageID = mid, Index = of_nat i, Count = of_nat n, RawSize = raw, Compressed = (comp \<noteq> None),
     Data = slice (i * k) (min (i * k + k) (length w)) w \<rparr>)"
  have k: "0 < k" "23 + k = datagram_limit maxp" by (auto simp: k_def datagram_limit_def)
  have w: "w \<noteq> []" "length w \<le> length payload"
    using assms(1) compressed_payload [of payload] by (auto simp: w_def comp_def split: option.split)
  have lo: "i * k < length w" if "i < n" for i
  proof -
    have "Suc i * k \<le> n * k" using that by (intro mult_le_mono1) simp
    also have "n * k \<le> length w + k - 1" unfolding n_def by (rule div_times_less_eq_dividend)
    finally show ?thesis using k(1) by simp
  qed
  have hi: "length w \<le> n * k"
    unfolding n_def using k(1) dividend_less_div_times [OF k(1), of "length w + k - 1"] by simp
  have n0: "0 < n" using hi w(1) by (cases n) auto
  have "n \<le> length w"
  proof -
    have "(n - 1) * 1 \<le> (n - 1) * k" using k(1) by (intro mult_le_mono2) simp
    moreover have "(n - 1) * k < length w" using lo [of "n - 1"] n0 by simp
    ultimately have "n - 1 < length w" by (simp only: mult_1_right)
    then show ?thesis by simp
  qed
  then have n32: "n < 2 ^ 32" using w(2) assms(2) by linarith
  have u: "unat (of_nat i :: 32 word) = i" if "i \<le> n" for i using that n32 by (simp add: unat_of_nat)
  have cnt: "(if (of_nat n :: 32 word) = 0 then 1 else of_nat n) = (of_nat n :: 32 word)" using u [of n] n0 by (metis order_refl unat_0 less_irrefl)
  have "FragmentUSPControlPayload payload mid maxp = fragment_loop piece [0..<n]"
  proof -
    have kk: "nat (if maxp < int uspControlFragmentHeaderSize + 1 then WUSPMaxDatagramPayload else maxp) - uspControlFragmentHeaderSize = k"
      by (simp add: k_def datagram_limit_def frag_consts)
    show ?thesis
      unfolding FragmentUSPControlPayload_def Let_def kk comp_def [symmetric] w_def [symmetric] raw_def [symmetric]
        n_def [symmetric] cnt u [OF order_refl] piece_def
      using assms(1,3) by (simp only: if_False)
  qed
  moreover have "\<forall>i<n. fits (piece 0) (piece i) \<and> unat (Index (piece i)) = i \<and> 23 + length (Data (piece i)) \<le> datagram_limit maxp"
  proof (intro allI impI)
    fix i assume i: "i < n"
    have "slice (i * k) (min (i * k + k) (length w)) w \<noteq> []" using lo [OF i] k(1) by (simp add: slice_def)
    moreover have "comp \<noteq> None \<Longrightarrow> raw \<noteq> 0"
      using assms(1,2) by (auto simp: raw_def word_unat_eq_iff [of _ 0] unat_of_nat)
    moreover have "(of_nat n :: 32 word) \<noteq> 0" using u [of n] n0 by (metis order_refl unat_0 less_irrefl)
    moreover have "\<not> (of_nat n :: 32 word) \<le> of_nat i" using u [of n] u [of i] i by (simp add: word_le_nat_alt)
    ultimately have "fits (piece 0) (piece i)"
      using assms(3) by (auto simp: fits_def piece_def validateUSPControlFragment_def)
    moreover have "length (Data (piece i)) \<le> k" by (simp add: piece_def slice_def)
    ultimately show "fits (piece 0) (piece i) \<and> unat (Index (piece i)) = i \<and> 23 + length (Data (piece i)) \<le> datagram_limit maxp"
      using u [of i] i k(2) by (simp add: piece_def)
  qed
  moreover have "(if \<not> Compressed (piece 0) then Inr (concat (map (\<lambda>i. Data (piece i)) [0..<n]))
      else decompressUSPControlPayload (concat (map (\<lambda>i. Data (piece i)) [0..<n])) (unat (RawSize (piece 0)))) = Inr payload"
  proof -
    have c: "concat (map (\<lambda>i. Data (piece i)) [0..<n]) = w"
      using concat_slices [of k w n] hi by (simp add: piece_def)
    have "(if comp = None then Inr w else decompressUSPControlPayload w (unat raw)) = Inr payload"
      using compressed_payload(1) [of payload] assms(2)
      by (auto simp: w_def raw_def comp_def unat_of_nat split: option.splits)
    then show ?thesis unfolding c by (auto simp: piece_def split: if_splits)
  qed
  moreover have "Count (piece 0) = of_nat n" "MessageID (piece 0) = mid" by (simp_all add: piece_def)
  ultimately show ?thesis using n0 n32 by (intro that [of piece n])
qed

text \<open>The fragments of a payload, with what the receiver sees of them.\<close>

lemma fragments_wire:
  assumes "payload \<noteq> []" and "length payload < 2 ^ 32" and "mid \<noteq> 0"
  obtains frames fragments where "FragmentUSPControlPayload payload mid maxp = Inr frames"
    "\<forall>frame\<in>set frames. length frame \<le> datagram_limit maxp"
    "map DecodeUSPControlFragment frames = map (\<lambda>f. Inr (Some f)) fragments"
    "\<forall>arrived. mset arrived = mset fragments \<longrightarrow> ReassembleUSPControlFragments arrived = Inr payload"
    "fragments \<noteq> []" "length fragments < 2 ^ 32"
    "\<forall>f\<in>set fragments. MessageID f = mid \<and> Count f = of_nat (length fragments)"
proof -
  obtain n piece where p: "FragmentUSPControlPayload payload mid maxp = fragment_loop piece [0..<n]"
    "0 < n" "n < 2 ^ 32" "\<forall>i<n. fits (piece 0) (piece i) \<and> unat (Index (piece i)) = i \<and> 23 + length (Data (piece i)) \<le> datagram_limit maxp"
    "Count (piece 0) = of_nat n" "MessageID (piece 0) = mid"
    "(if \<not> Compressed (piece 0) then Inr (concat (map (\<lambda>i. Data (piece i)) [0..<n]))
      else decompressUSPControlPayload (concat (map (\<lambda>i. Data (piece i)) [0..<n])) (unat (RawSize (piece 0)))) = Inr payload"
    by (rule payload_pieces [OF assms])
  have "\<forall>i\<in>set [0..<n]. validateUSPControlFragment (piece i) = Inr ()" using p(4) by (simp add: fits_def)
  from fragment_loop_ok [OF this] obtain frames where f: "fragment_loop piece [0..<n] = Inr frames" "length frames = n"
    "\<forall>i<n. DecodeUSPControlFragment (frames ! i) = Inr (Some (piece i)) \<and> length (frames ! i) = 23 + length (Data (piece i))"
    by auto
  have "map DecodeUSPControlFragment frames = map (\<lambda>f. Inr (Some f)) (map piece [0..<n])"
    using f(2,3) by (intro nth_equalityI) auto
  moreover have "\<forall>frame\<in>set frames. length frame \<le> datagram_limit maxp"
    using f(2,3) p(4) by (auto simp: in_set_conv_nth)
  moreover have "ReassembleUSPControlFragments arrived = Inr payload" if "mset arrived = mset (map piece [0..<n])" for arrived
    using reassemble_perm [OF p(2) _ p(5,3) that] p(4,7) by simp
  moreover have "\<forall>f\<in>set (map piece [0..<n]). MessageID f = mid \<and> Count f = of_nat (length (map piece [0..<n]))"
  proof -
    have h: "length (map piece [0..<n]) = n" "set (map piece [0..<n]) = piece ` {0..<n}" by simp_all
    have "MessageID (piece i) = mid \<and> Count (piece i) = of_nat n" if "i < n" for i
    proof -
      have "fits (piece 0) (piece i)" using p(4) that by blast
      then have "MessageID (piece i) = MessageID (piece 0)" "Count (piece i) = Count (piece 0)" unfolding fits_def by blast+
      then show ?thesis using p(5,6) by metis
    qed
    then show ?thesis unfolding h by (metis imageE atLeastLessThan_iff)
  qed
  moreover have "map piece [0..<n] \<noteq> []" using p(2) by simp
  moreover have "length (map piece [0..<n]) < 2 ^ 32" using p(3) by (simp only: length_map length_upt diff_zero)
  ultimately show ?thesis using p(1) f(1) by (intro that [of frames "map piece [0..<n]"]) (assumption | simp only: | blast)+
qed

text \<open>
  C13. A payload of less than 4 GiB is cut into datagrams that respect the limit, every datagram decodes to a
  fragment, and the fragments put together in whatever order they arrive give the payload back.
\<close>

theorem fragments_roundtrip:
  assumes "payload \<noteq> []" and "length payload < 2 ^ 32" and "mid \<noteq> 0"
  shows "\<exists>frames fragments. FragmentUSPControlPayload payload mid maxp = Inr frames \<and>
    (\<forall>frame\<in>set frames. length frame \<le> datagram_limit maxp) \<and>
    map DecodeUSPControlFragment frames = map (\<lambda>f. Inr (Some f)) fragments \<and>
    (\<forall>arrived. mset arrived = mset fragments \<longrightarrow> ReassembleUSPControlFragments arrived = Inr payload)"
  by (rule fragments_wire [OF assms]) blast

lemma assemble_loop_Inr:
  assumes "assemble_loop first ordered fs = Inr o'" and "length ordered = unat (Count first)"
  shows "(\<forall>f\<in>set fs. fits first f \<and> ordered ! unat (Index f) = None) \<and> distinct (map Index fs)"
  using assms
proof (induction fs arbitrary: ordered)
  case Nil
  then show ?case by simp
next
  case (Cons f fs)
  let ?o = "ordered[unat (Index f) := Some (Data f)]"
  have f: "fits first f" "ordered ! unat (Index f) = None" "assemble_loop first ?o fs = Inr o'"
    using Cons.prems by (auto simp: fits_def split: if_splits)
  have idx: "unat (Index f) < length ordered"
    using f(1) Cons.prems(2) validate_index [of f] by (simp add: fits_def)
  have ih: "(\<forall>g\<in>set fs. fits first g \<and> ?o ! unat (Index g) = None) \<and> distinct (map Index fs)"
    using Cons.IH [OF f(3)] Cons.prems(2) by simp
  moreover have "Index f \<notin> Index ` set fs"
  proof
    assume "Index f \<in> Index ` set fs"
    then obtain g where "g \<in> set fs" "Index g = Index f" by auto
    then show False using ih idx by auto
  qed
  moreover have "ordered ! unat (Index g) = None" if "g \<in> set fs" for g
    using ih that idx by (metis nth_list_update option.distinct(1))
  ultimately show ?case using f(1,2) by auto
qed

text \<open>
  Two fragments with the same index, or fragments of two messages, are never joined: a payload is
  returned only for a complete set of distinct indices that agree on the message, the count and the compression.
\<close>

theorem reassemble_sound:
  assumes "ReassembleUSPControlFragments fs = Inr payload"
  shows "\<exists>first. fs \<noteq> [] \<and> hd fs = first \<and> (\<forall>f\<in>set fs. fits first f) \<and> distinct (map Index fs) \<and>
    of_nat (length fs) = Count first"
proof (cases fs)
  case Nil
  then show ?thesis using assms by (simp add: ReassembleUSPControlFragments_def)
next
  case (Cons first gs)
  let ?start = "replicate (unat (Count first)) None"
  obtain o' where o: "assemble_loop first ?start fs = Inr o'" "of_nat (length fs) = Count first"
  proof (cases "of_nat (length fs) = Count first")
    case True
    then show ?thesis
      using that assms unfolding ReassembleUSPControlFragments_def Cons list.case by (cases "assemble_loop first ?start (first # gs)") auto
  next
    case False
    then show ?thesis using assms unfolding ReassembleUSPControlFragments_def Cons list.case by simp
  qed
  have "length ?start = unat (Count first)" by simp
  from assemble_loop_Inr [OF o(1) this] o(2) Cons show ?thesis by simp
qed

section \<open>Witnesses\<close>

definition frag_demo :: "byte list" where "frag_demo = [1, 2, 3]"

theorem fragments_roundtrip_witness:
  "\<exists>frames. FragmentUSPControlPayload frag_demo 9 24 = Inr frames \<and> (\<forall>frame\<in>set frames. length frame \<le> 24)"
  using fragments_roundtrip [of frag_demo 9 24] by (auto simp: frag_demo_def datagram_limit_def)

definition frag_piece :: "32 word \<Rightarrow> USPControlFragment" where
  "frag_piece i = \<lparr> MessageID = 9, Index = i, Count = 2, RawSize = 0, Compressed = False, Data = [ucast i] \<rparr>"

theorem reassemble_sound_witness:
  "ReassembleUSPControlFragments [frag_piece 1, frag_piece 0] = Inr [0, 1] \<and>
   distinct (map Index [frag_piece 1, frag_piece 0])"
proof -
  have "ReassembleUSPControlFragments [frag_piece 1, frag_piece 0] = Inr [0, 1]"
    by code_simp
  then show ?thesis using reassemble_sound [of "[frag_piece 1, frag_piece 0]" "[0, 1]"] by auto
qed

end
