(* ===== verification/Transport.thy ===== *)
theory Transport
  imports Stream_Frames Device_Model Fragments
begin

text \<open>
  The control transport, \<open>src/internal/wusp/usp_transport.go\<close>: requests and responses, their validation, the
  compact selectors for paths, both directions of the codec and the estimates of the encoded sizes.
  The schema, the device model and the engine of \<open>regexp\<close> are arguments (\<open>sc\<close>, \<open>d\<close>, \<open>re\<close>). The writes through
  the message pointer of a request (\<open>ResetAllFieldIDs\<close>) act on the message that is encoded.
\<close>

unbundle bit_operations_syntax

section \<open>Methods, requests and responses\<close>

definition USPAgentMethodGet :: USPAgentMethod where "USPAgentMethodGet = 1"
definition USPAgentMethodSet :: USPAgentMethod where "USPAgentMethodSet = 2"
definition USPAgentMethodAdd :: USPAgentMethod where "USPAgentMethodAdd = 3"
definition USPAgentMethodDelete :: USPAgentMethod where "USPAgentMethodDelete = 4"
definition USPAgentMethodGetInstances :: USPAgentMethod where "USPAgentMethodGetInstances = 5"
definition USPAgentMethodOperate :: USPAgentMethod where "USPAgentMethodOperate = 6"
definition USPAgentMethodNotify :: USPAgentMethod where "USPAgentMethodNotify = 7"
definition USPAgentMethodGetSupportedDM :: USPAgentMethod where "USPAgentMethodGetSupportedDM = 8"
definition USPAgentMethodGetSupportedProtocol :: USPAgentMethod where "USPAgentMethodGetSupportedProtocol = 9"

lemmas method_defs = USPAgentMethodGet_def USPAgentMethodSet_def USPAgentMethodAdd_def USPAgentMethodDelete_def
  USPAgentMethodGetInstances_def USPAgentMethodOperate_def USPAgentMethodNotify_def USPAgentMethodGetSupportedDM_def
  USPAgentMethodGetSupportedProtocol_def USPAgentMethodUpload_def USPAgentMethodDownload_def

definition uspTransportVersion :: byte where "uspTransportVersion = 1"
definition uspTransportKindRequest :: byte where "uspTransportKindRequest = 1"
definition uspTransportKindResponse :: byte where "uspTransportKindResponse = 2"

lemmas transport_consts = uspTransportVersion_def uspTransportKindRequest_def uspTransportKindResponse_def

record uspTransportHeader =
  hVersion :: byte
  hKind :: byte
  hMethod :: USPAgentMethod
  hFlags :: byte
  hID :: "64 word"

record USPTransferRequest =
  tPath :: string
  tURI :: string
  tFilename :: string
  tContentType :: string
  tPayload :: "byte list"
  tMetadata :: "(string, string) fmap"

record USPTransferResult =
  trPath :: string
  trURI :: string
  trBytes :: "64 word"
  trMetadata :: "(string, string) fmap"

record BroadbandDataModel =
  bmID :: string
  bmName :: string
  bmModelVersion :: string
  bmFirstVersion :: string
  bmLatestVersion :: string
  bmSource :: string
  bmSourceURL :: string
  bmObjectCount :: "64 word"
  bmParamCount :: "64 word"

record USPSupportedObject =
  soPath :: string
  soMultiInstance :: bool
  soSinceVersion :: string

record USPSupportedParam =
  spPath :: string
  spType :: string
  spAccess :: string
  spSinceVersion :: string

record USPSupportedDataModel =
  RootDataModelVersion :: string
  dmModels :: "BroadbandDataModel list"
  dmObjects :: "USPSupportedObject list"
  dmParams :: "USPSupportedParam list"

record USPProtocolInfo =
  piName :: string
  piVersion :: "64 word"
  piMethods :: "string list"
  piCompression :: "string list"
  piControlTransport :: string
  piTransferTransport :: string
  piMaxControlPayload :: "64 word"
  piRecommendedChunkSize :: "64 word"
  piTunnelOnly :: bool
  piReliableTransfer :: bool

record USPAgentRequest =
  qID :: "64 word"
  qMethod :: USPAgentMethod
  qPaths :: "string list"
  qPathCodes :: "64 word list"
  qPathInstances :: "64 word list list"
  qObjectPath :: string
  qObjectCode :: "64 word"
  qObjectInstances :: "64 word list"
  qMessage :: "Message option"
  qTransfer :: "USPTransferRequest option"
  qMetadata :: "(string, string) fmap"

record USPAgentResponse =
  rID :: "64 word"
  rMethod :: USPAgentMethod
  rPaths :: "string list"
  rPathCodes :: "64 word list"
  rPathInstances :: "64 word list list"
  rObjectPath :: string
  rObjectCode :: "64 word"
  rObjectInstances :: "64 word list"
  rMessage :: "Message option"
  rTransfer :: "USPTransferResult option"
  rMetadata :: "(string, string) fmap"
  rSupportedDataModel :: "USPSupportedDataModel option"
  rProtocol :: "USPProtocolInfo option"
  rError :: string

section \<open>Writers and readers of the parts\<close>

definition writeHeader :: "uspTransportHeader \<Rightarrow> byte list" where
  "writeHeader h = [hVersion h, hKind h, hMethod h, hFlags h] @ put64 (hID h)"

definition readHeader :: "uspTransportHeader treader" where
  "readHeader r =
     (if length r < 12 then Inl (TMalformed ''payload too short'')
      else if r ! 0 \<noteq> uspTransportVersion then Inl (TUnsupported ''version'')
      else Inr (\<lparr> hVersion = r ! 0, hKind = r ! 1, hMethod = r ! 2, hFlags = r ! 3, hID = get64 (slice_of 4 8 r) \<rparr>, drop 12 r))"

definition writeTransferRequest :: "USPTransferRequest \<Rightarrow> byte list" where
  "writeTransferRequest t =
     writeString (tPath t) @ writeString (tURI t) @ writeString (tFilename t) @ writeString (tContentType t)
     @ writeBytes (tPayload t) @ writeMetadata (tMetadata t)"

definition readTransferRequest :: "USPTransferRequest treader" where
  "readTransferRequest r =
     res_bind (tString r) (\<lambda>(path, r1). res_bind (tString r1) (\<lambda>(uri, r2). res_bind (tString r2) (\<lambda>(filename, r3).
     res_bind (tString r3) (\<lambda>(contentType, r4). res_bind (tBytes r4) (\<lambda>(payload, r5). res_bind (readMetadata r5) (\<lambda>(metadata, r6).
       Inr (\<lparr> tPath = path, tURI = uri, tFilename = filename, tContentType = contentType, tPayload = payload, tMetadata = metadata \<rparr>, r6)))))))"

definition writeTransferResult :: "USPTransferResult \<Rightarrow> byte list" where
  "writeTransferResult t = writeString (trPath t) @ writeString (trURI t) @ writeUvarint (trBytes t) @ writeMetadata (trMetadata t)"

definition readTransferResult :: "USPTransferResult treader" where
  "readTransferResult r =
     res_bind (tString r) (\<lambda>(path, r1). res_bind (tString r1) (\<lambda>(uri, r2). res_bind (readInt64AsUvarint r2) (\<lambda>(n, r3).
     res_bind (readMetadata r3) (\<lambda>(metadata, r4). Inr (\<lparr> trPath = path, trURI = uri, trBytes = n, trMetadata = metadata \<rparr>, r4)))))"

definition writeBroadbandDataModel :: "BroadbandDataModel \<Rightarrow> byte list" where
  "writeBroadbandDataModel m =
     writeString (bmID m) @ writeString (bmName m) @ writeString (bmModelVersion m) @ writeString (bmFirstVersion m)
     @ writeString (bmLatestVersion m) @ writeString (bmSource m) @ writeString (bmSourceURL m)
     @ writeUvarint (bmObjectCount m) @ writeUvarint (bmParamCount m)"

definition readBroadbandDataModel :: "BroadbandDataModel treader" where
  "readBroadbandDataModel r =
     res_bind (tString r) (\<lambda>(i, r1). res_bind (tString r1) (\<lambda>(nm, r2). res_bind (tString r2) (\<lambda>(mv, r3).
     res_bind (tString r3) (\<lambda>(fv, r4). res_bind (tString r4) (\<lambda>(lv, r5). res_bind (tString r5) (\<lambda>(so, r6).
     res_bind (tString r6) (\<lambda>(su, r7). res_bind (tUvarint r7) (\<lambda>(oc, r8). res_bind (tUvarint r8) (\<lambda>(pc, r9).
       Inr (\<lparr> bmID = i, bmName = nm, bmModelVersion = mv, bmFirstVersion = fv, bmLatestVersion = lv, bmSource = so,
              bmSourceURL = su, bmObjectCount = oc, bmParamCount = pc \<rparr>, r9))))))))))"

definition write_object :: "USPSupportedObject \<Rightarrow> byte list" where
  "write_object ob = writeString (soPath ob) @ writeBool (soMultiInstance ob) @ writeString (soSinceVersion ob)"

definition read_object :: "USPSupportedObject treader" where
  "read_object r =
     res_bind (tString r) (\<lambda>(path, r1). res_bind (readBool r1) (\<lambda>(multi, r2). res_bind (tString r2) (\<lambda>(since, r3).
       Inr (\<lparr> soPath = path, soMultiInstance = multi, soSinceVersion = since \<rparr>, r3))))"

definition write_param :: "USPSupportedParam \<Rightarrow> byte list" where
  "write_param p = writeString (spPath p) @ writeString (spType p) @ writeString (spAccess p) @ writeString (spSinceVersion p)"

definition read_param :: "USPSupportedParam treader" where
  "read_param r =
     res_bind (tString r) (\<lambda>(path, r1). res_bind (tString r1) (\<lambda>(ty, r2). res_bind (tString r2) (\<lambda>(access, r3).
     res_bind (tString r3) (\<lambda>(since, r4).
       Inr (\<lparr> spPath = path, spType = ty, spAccess = access, spSinceVersion = since \<rparr>, r4)))))"

definition writeSupportedDataModel :: "USPSupportedDataModel \<Rightarrow> byte list" where
  "writeSupportedDataModel m =
     writeString (RootDataModelVersion m) @ write_counted writeBroadbandDataModel (dmModels m)
     @ write_counted write_object (dmObjects m) @ write_counted write_param (dmParams m)"

definition readSupportedDataModel :: "USPSupportedDataModel treader" where
  "readSupportedDataModel r =
     res_bind (tString r) (\<lambda>(v, r1). res_bind (read_counted 128 readBroadbandDataModel r1) (\<lambda>(ms, r2).
     res_bind (read_counted 40 read_object r2) (\<lambda>(os, r3). res_bind (read_counted 64 read_param r3) (\<lambda>(ps, r4).
       Inr (\<lparr> RootDataModelVersion = v, dmModels = ms, dmObjects = os, dmParams = ps \<rparr>, r4)))))"

definition writeProtocolInfo :: "USPProtocolInfo \<Rightarrow> byte list" where
  "writeProtocolInfo i =
     writeString (piName i) @ writeUvarint (piVersion i) @ writeStringList (piMethods i) @ writeStringList (piCompression i)
     @ writeString (piControlTransport i) @ writeString (piTransferTransport i) @ writeUvarint (piMaxControlPayload i)
     @ writeUvarint (piRecommendedChunkSize i) @ writeBool (piTunnelOnly i) @ writeBool (piReliableTransfer i)"

definition readProtocolInfo :: "USPProtocolInfo treader" where
  "readProtocolInfo r =
     res_bind (tString r) (\<lambda>(nm, r1). res_bind (tUvarint r1) (\<lambda>(v, r2). res_bind (readStringList r2) (\<lambda>(ms, r3).
     res_bind (readStringList r3) (\<lambda>(cs, r4). res_bind (tString r4) (\<lambda>(ct, r5). res_bind (tString r5) (\<lambda>(tt, r6).
     res_bind (tUvarint r6) (\<lambda>(mc, r7). res_bind (tUvarint r7) (\<lambda>(rc, r8). res_bind (readBool r8) (\<lambda>(tun, r9).
     res_bind (readBool r9) (\<lambda>(rel, r10).
       Inr (\<lparr> piName = nm, piVersion = v, piMethods = ms, piCompression = cs, piControlTransport = ct, piTransferTransport = tt,
              piMaxControlPayload = mc, piRecommendedChunkSize = rc, piTunnelOnly = tun, piReliableTransfer = rel \<rparr>, r10)))))))))))"

section \<open>Validation\<close>

definition validateTransferRequest :: "schema \<Rightarrow> USPTransferRequest \<Rightarrow> usp_error + unit" where
  "validateTransferRequest sc t =
     (if TrimSpace (tPath t) = '''' then Inl (TValidation '''' ''transfer path is required'')
      else if \<not> isObjectPath (tPath t) \<and> fst (lookupSafeParam (safeParamIndex sc) (tPath t)) = None
        then Inl (TValidation (tPath t) ''unknown transfer path'')
      else Inr ())"

text \<open>The checks of the selectors that requests and responses share.\<close>

definition check_selectors :: "string \<Rightarrow> string list \<Rightarrow> 64 word list \<Rightarrow> 64 word list list \<Rightarrow> string \<Rightarrow> 64 word \<Rightarrow> 64 word list \<Rightarrow> usp_error + unit" where
  "check_selectors what paths codes instances objectPath objectCode objectInstances =
     (if \<exists>p\<in>set paths. TrimSpace p = '''' then Inl (TValidation '''' (what @ '' contains empty path''))
      else if \<exists>c\<in>set codes. c = 0 then Inl (TValidation '''' (what @ '' contains zero path code''))
      else if 0 < length instances \<and> length instances \<noteq> length codes
        then Inl (TValidation '''' (what @ '' path selector metadata length mismatch''))
      else if TrimSpace objectPath \<noteq> '''' \<and> \<not> isObjectPath objectPath
        then Inl (TValidation objectPath (what @ '' object path must end with a dot''))
      else if objectCode = 0 \<and> 0 < length objectInstances
        then Inl (TValidation '''' (what @ '' object selector instances without object code''))
      else Inr ())"

definition check_method :: "USPAgentRequest \<Rightarrow> usp_error + unit" where
  "check_method q =
     (if qMethod q = USPAgentMethodSet then
        (if (case qMessage q of None \<Rightarrow> True | Some m \<Rightarrow> Fields m = []) then Inl (TValidation '''' ''set request missing fields'') else Inr ())
      else if qMethod q = USPAgentMethodAdd then
        (if TrimSpace (qObjectPath q) = '''' \<and> qObjectCode q = 0 then Inl (TValidation '''' ''add request missing object path'') else Inr ())
      else if qMethod q = USPAgentMethodDelete then
        (if qPaths q = [] \<and> qPathCodes q = [] then Inl (TValidation '''' ''delete request missing paths'') else Inr ())
      else if qMethod q = USPAgentMethodOperate \<or> qMethod q = USPAgentMethodNotify then
        (if TrimSpace (qObjectPath q) = '''' \<and> qObjectCode q = 0 then Inl (TValidation '''' ''request missing object path'') else Inr ())
      else if qMethod q = USPAgentMethodUpload \<or> qMethod q = USPAgentMethodDownload then
        (if qTransfer q = None then Inl (TValidation '''' ''transfer request missing transfer block'') else Inr ())
      else Inr ())"

definition validateUSPAgentRequest :: "(string \<Rightarrow> string \<Rightarrow> bool) \<Rightarrow> schema \<Rightarrow> USPAgentRequest \<Rightarrow> usp_error + unit" where
  "validateUSPAgentRequest re sc q =
     (if qMethod q = 0 then Inl TMethodRequired
      else
        res_bind (check_selectors ''request'' (qPaths q) (qPathCodes q) (qPathInstances q) (qObjectPath q) (qObjectCode q) (qObjectInstances q)) (\<lambda>_.
        if qObjectCode q = 0 \<and> qPathCodes q = [] \<and> qPaths q = [] \<and> (qMethod q = USPAgentMethodDelete \<or> qMethod q = USPAgentMethodGetInstances)
        then Inl (TValidation '''' ''request missing path selector'')
        else
          res_bind (case qMessage q of None \<Rightarrow> Inr () | Some m \<Rightarrow> ValidateMessageFast re sc m) (\<lambda>_.
          res_bind (case qTransfer q of None \<Rightarrow> Inr () | Some t \<Rightarrow> validateTransferRequest sc t) (\<lambda>_.
            check_method q))))"

definition validateUSPAgentResponse :: "USPAgentResponse \<Rightarrow> usp_error + unit" where
  "validateUSPAgentResponse p =
     (if rMethod p = 0 then Inl TMethodRequired
      else check_selectors ''response'' (rPaths p) (rPathCodes p) (rPathInstances p) (rObjectPath p) (rObjectCode p) (rObjectInstances p))"

section \<open>Estimated sizes\<close>

function estimateUvarintSize :: "64 word \<Rightarrow> nat" where
  "estimateUvarintSize v = (if v < 0x80 then 1 else Suc (estimateUvarintSize (drop_bit 7 v)))"
  by auto
termination by (relation "measure unat") (auto simp: drop_bit_7_less)

declare estimateUvarintSize.simps [simp del]

definition estimateStringSize :: "string \<Rightarrow> nat" where
  "estimateStringSize v = estimateUvarintSize (of_nat (length v)) + length v"

definition estimateBlobSize :: "byte list \<Rightarrow> nat" where
  "estimateBlobSize v = estimateUvarintSize (of_nat (length v)) + length v"

fun estimateValueEncodedSize :: "Value \<Rightarrow> nat" and estimateItemsSize :: "Value list \<Rightarrow> nat" where
  "estimateValueEncodedSize (Value t i f b l) =
     (if t = TagNull \<or> t = TagFalse \<or> t = TagTrue then 1
      else if t = TagUint then 1 + estimateUvarintSize i
      else if t = TagInt \<or> t = TagTime then 1 + estimateUvarintSize (push_bit 1 i XOR signed_drop_bit 63 i)
      else if t = TagFloat then 1 + 8
      else if t = TagString \<or> t = TagBytes then 1 + estimateBlobSize b
      else if t = TagIP4 then 1 + 4
      else if t = TagIP6 then 1 + 16
      else if t = TagIP4Pfx then 1 + 5
      else if t = TagIP6Pfx then 1 + 17
      else if t = TagMAC then 1 + 6
      else if t = TagList then 1 + estimateUvarintSize (of_nat (length l)) + estimateItemsSize l
      else 1)"
| "estimateItemsSize [] = 0"
| "estimateItemsSize (v # vs) = estimateValueEncodedSize v + estimateItemsSize vs"

definition estimateStringListSize :: "string list \<Rightarrow> nat" where
  "estimateStringListSize vs = estimateUvarintSize (of_nat (length vs)) + sum_list (map estimateStringSize vs)"

definition estimateUint64ListSize :: "64 word list \<Rightarrow> nat" where
  "estimateUint64ListSize vs = estimateUvarintSize (of_nat (length vs)) + sum_list (map estimateUvarintSize vs)"

definition estimatePathSelectorsSize :: "64 word list \<Rightarrow> 64 word list list \<Rightarrow> nat" where
  "estimatePathSelectorsSize pathCodes pathInstances =
     (if pathCodes = [] then 0
      else estimateUvarintSize (of_nat (length pathCodes)) +
        sum_list (map (\<lambda>(i, c). estimateUvarintSize c +
          (if i < length pathInstances then estimateUint64ListSize (pathInstances ! i) else estimateUvarintSize 0)) (enumerate 0 pathCodes)))"

definition estimatePathSelectorSize :: "64 word \<Rightarrow> 64 word list \<Rightarrow> nat" where
  "estimatePathSelectorSize c instances =
     (if c = 0 \<and> instances = [] then 0 else estimateUvarintSize c + estimateUint64ListSize instances)"

definition estimateMetadataSize :: "(string, string) fmap \<Rightarrow> nat" where
  "estimateMetadataSize m =
     estimateUvarintSize (of_nat (length (sorted_keys m))) +
     sum_list (map (\<lambda>k. estimateStringSize k + estimateStringSize (the (fmlookup m k))) (sorted_keys m))"

definition estimateTransferRequestSize :: "USPTransferRequest \<Rightarrow> nat" where
  "estimateTransferRequestSize t =
     estimateStringSize (tPath t) + estimateStringSize (tURI t) + estimateStringSize (tFilename t) + estimateStringSize (tContentType t)
     + estimateBlobSize (tPayload t) + estimateMetadataSize (tMetadata t)"

definition estimateTransferResultSize :: "USPTransferResult \<Rightarrow> nat" where
  "estimateTransferResultSize t =
     estimateStringSize (trPath t) + estimateStringSize (trURI t) + estimateUvarintSize (trBytes t) + estimateMetadataSize (trMetadata t)"

definition estimateBroadbandDataModelSize :: "BroadbandDataModel \<Rightarrow> nat" where
  "estimateBroadbandDataModelSize m =
     estimateStringSize (bmID m) + estimateStringSize (bmName m) + estimateStringSize (bmModelVersion m) + estimateStringSize (bmFirstVersion m)
     + estimateStringSize (bmLatestVersion m) + estimateStringSize (bmSource m) + estimateStringSize (bmSourceURL m)
     + estimateUvarintSize (bmObjectCount m) + estimateUvarintSize (bmParamCount m)"

definition estimateSupportedDataModelSize :: "USPSupportedDataModel \<Rightarrow> nat" where
  "estimateSupportedDataModelSize m =
     estimateStringSize (RootDataModelVersion m) + estimateUvarintSize (of_nat (length (dmModels m)))
     + sum_list (map estimateBroadbandDataModelSize (dmModels m))
     + estimateUvarintSize (of_nat (length (dmObjects m)))
     + sum_list (map (\<lambda>ob. estimateStringSize (soPath ob) + 1 + estimateStringSize (soSinceVersion ob)) (dmObjects m))
     + estimateUvarintSize (of_nat (length (dmParams m)))
     + sum_list (map (\<lambda>p. estimateStringSize (spPath p) + estimateStringSize (spType p) + estimateStringSize (spAccess p)
         + estimateStringSize (spSinceVersion p)) (dmParams m))"

definition estimateProtocolInfoSize :: "USPProtocolInfo \<Rightarrow> nat" where
  "estimateProtocolInfoSize i =
     estimateStringSize (piName i) + estimateUvarintSize (piVersion i) + estimateStringListSize (piMethods i) + estimateStringListSize (piCompression i)
     + estimateStringSize (piControlTransport i) + estimateStringSize (piTransferTransport i) + estimateUvarintSize (piMaxControlPayload i)
     + estimateUvarintSize (piRecommendedChunkSize i) + 2"

definition estimateUSPAgentRequestSize :: "USPAgentRequest \<Rightarrow> byte list \<Rightarrow> nat" where
  "estimateUSPAgentRequestSize q nestedFrame =
     12 + estimateStringListSize (qPaths q)
     + (if qObjectPath q \<noteq> '''' then estimateStringSize (qObjectPath q) else 0)
     + (if qPathCodes q \<noteq> [] then estimatePathSelectorsSize (qPathCodes q) (qPathInstances q) else 0)
     + (if qObjectCode q \<noteq> 0 then estimatePathSelectorSize (qObjectCode q) (qObjectInstances q) else 0)
     + (if 0 < length nestedFrame then estimateBlobSize nestedFrame else 0)
     + (case qTransfer q of None \<Rightarrow> 0 | Some t \<Rightarrow> estimateTransferRequestSize t)
     + estimateMetadataSize (qMetadata q)"

definition estimateUSPAgentResponseSize :: "USPAgentResponse \<Rightarrow> byte list \<Rightarrow> nat" where
  "estimateUSPAgentResponseSize p nestedFrame =
     12 + estimateStringSize (rError p)
     + (if rPaths p \<noteq> [] then estimateStringListSize (rPaths p) else 0)
     + (if rObjectPath p \<noteq> '''' then estimateStringSize (rObjectPath p) else 0)
     + (if 0 < length nestedFrame then estimateBlobSize nestedFrame else 0)
     + (case rTransfer p of None \<Rightarrow> 0 | Some t \<Rightarrow> estimateTransferResultSize t)
     + estimateMetadataSize (rMetadata p)
     + estimatePathSelectorsSize (rPathCodes p) (rPathInstances p) + estimatePathSelectorSize (rObjectCode p) (rObjectInstances p)
     + (case rSupportedDataModel p of None \<Rightarrow> 0 | Some m \<Rightarrow> estimateSupportedDataModelSize m)
     + (case rProtocol p of None \<Rightarrow> 0 | Some i \<Rightarrow> estimateProtocolInfoSize i)"

fun should_compress_loop :: "nat \<Rightarrow> Field list \<Rightarrow> bool" where
  "should_compress_loop sz [] = False"
| "should_compress_loop sz (f # fs) =
     (let sz' = sz + length (Path f) + estimateValueEncodedSize (Val f) + 3 in if 512 < sz' then True else should_compress_loop sz' fs)"

definition shouldCompressNestedMessage :: "Message \<Rightarrow> bool" where
  "shouldCompressNestedMessage m = (8 \<le> length (Fields m) \<or> should_compress_loop (length (DeviceID m) + 16) (Fields m))"

definition encodeNestedValidatedMessage :: "schema \<Rightarrow> Message \<Rightarrow> usp_error + byte list" where
  "encodeNestedValidatedMessage sc m = encodeMessageValidated sc m (shouldCompressNestedMessage m)"

section \<open>Selectors\<close>

fun resolve_all :: "Device \<Rightarrow> string list \<Rightarrow> (64 word \<times> 64 word list) list option" where
  "resolve_all d [] = Some []"
| "resolve_all d (p # ps) =
     (case SelectorForPath d p of
        None \<Rightarrow> None
      | Some sel \<Rightarrow> (if Code sel = 0 then None else map_option ((#) (Code sel, Instances sel)) (resolve_all d ps)))"

definition strictResolvedPathSelectors :: "Device \<Rightarrow> string list \<Rightarrow> (64 word list \<times> 64 word list list) option" where
  "strictResolvedPathSelectors d paths =
     (if paths = [] then None else map_option (\<lambda>ss. (map fst ss, map snd ss)) (resolve_all d paths))"

definition strictResolvedObjectCode :: "Device \<Rightarrow> string \<Rightarrow> (64 word \<times> 64 word list) option" where
  "strictResolvedObjectCode d path =
     (case SelectorForPath d path of
        None \<Rightarrow> None
      | Some sel \<Rightarrow> (if Code sel = 0 then None else Some (Code sel, Instances sel)))"

definition compact_paths :: "Device \<Rightarrow> string list \<Rightarrow> 64 word list \<Rightarrow> 64 word list list \<Rightarrow> string list \<times> 64 word list \<times> 64 word list list" where
  "compact_paths d paths codes instances =
     (if codes = [] \<and> paths \<noteq> [] then
        (case strictResolvedPathSelectors d paths of Some (cs, is) \<Rightarrow> ([], cs, is) | None \<Rightarrow> (paths, codes, instances))
      else (paths, codes, instances))"

definition compact_object :: "Device \<Rightarrow> string \<Rightarrow> 64 word \<Rightarrow> 64 word list \<Rightarrow> string \<times> 64 word \<times> 64 word list" where
  "compact_object d path c instances =
     (if c = 0 \<and> TrimSpace path \<noteq> '''' then
        (case strictResolvedObjectCode d path of Some (oc, is) \<Rightarrow> ('''', oc, is) | None \<Rightarrow> (path, c, instances))
      else (path, c, instances))"

definition compactRequestSelectors :: "Device \<Rightarrow> USPAgentRequest \<Rightarrow> USPAgentRequest" where
  "compactRequestSelectors d q =
     (let (ps, cs, is) = compact_paths d (qPaths q) (qPathCodes q) (qPathInstances q);
          (op, oc, oi) = compact_object d (qObjectPath q) (qObjectCode q) (qObjectInstances q)
      in q\<lparr> qPaths := ps, qPathCodes := cs, qPathInstances := is, qObjectPath := op, qObjectCode := oc, qObjectInstances := oi \<rparr>)"

definition compactResponseSelectors :: "Device \<Rightarrow> USPAgentResponse \<Rightarrow> USPAgentResponse" where
  "compactResponseSelectors d p =
     (let (ps, cs, is) = compact_paths d (rPaths p) (rPathCodes p) (rPathInstances p);
          (op, oc, oi) = compact_object d (rObjectPath p) (rObjectCode p) (rObjectInstances p)
      in p\<lparr> rPaths := ps, rPathCodes := cs, rPathInstances := is, rObjectPath := op, rObjectCode := oc, rObjectInstances := oi \<rparr>)"

definition resolve_paths :: "Device \<Rightarrow> string list \<Rightarrow> 64 word list \<Rightarrow> 64 word list list \<Rightarrow> string list" where
  "resolve_paths d paths codes instances =
     (if paths = [] \<and> codes \<noteq> [] then
        List.map_filter (\<lambda>(i, c). PathForSelector d \<lparr> Code = c, Instances = (if i < length instances then instances ! i else []) \<rparr>) (enumerate 0 codes)
      else paths)"

definition resolve_object :: "Device \<Rightarrow> string \<Rightarrow> 64 word \<Rightarrow> 64 word list \<Rightarrow> string" where
  "resolve_object d path c instances =
     (if path = '''' \<and> c \<noteq> 0 then
        (case PathForSelector d \<lparr> Code = c, Instances = instances \<rparr> of Some p \<Rightarrow> p | None \<Rightarrow> path)
      else path)"

definition resolveFastRequestPaths :: "Device \<Rightarrow> USPAgentRequest \<Rightarrow> USPAgentRequest" where
  "resolveFastRequestPaths d q =
     q\<lparr> qPaths := resolve_paths d (qPaths q) (qPathCodes q) (qPathInstances q),
        qObjectPath := resolve_object d (qObjectPath q) (qObjectCode q) (qObjectInstances q) \<rparr>"

definition resolveFastResponsePaths :: "Device \<Rightarrow> USPAgentResponse \<Rightarrow> USPAgentResponse" where
  "resolveFastResponsePaths d p =
     p\<lparr> rPaths := resolve_paths d (rPaths p) (rPathCodes p) (rPathInstances p),
        rObjectPath := resolve_object d (rObjectPath p) (rObjectCode p) (rObjectInstances p) \<rparr>"

section \<open>Requests\<close>

definition request_flags :: "USPAgentRequest \<Rightarrow> byte" where
  "request_flags q =
     flag 0 (qMessage q \<noteq> None) OR flag 1 (qTransfer q \<noteq> None) OR flag 2 (TrimSpace (qObjectPath q) \<noteq> '''')
     OR flag 3 (qMetadata q \<noteq> fmempty) OR flag 4 (qPathCodes q \<noteq> []) OR flag 5 (qObjectCode q \<noteq> 0)"

text \<open>The bytes of a request whose nested message frame is \<open>nested\<close>.\<close>

definition request_bytes :: "USPAgentRequest \<Rightarrow> byte list \<Rightarrow> byte list" where
  "request_bytes q nested =
     (let flags = request_flags q in
      writeHeader \<lparr> hVersion = uspTransportVersion, hKind = uspTransportKindRequest, hMethod = qMethod q, hFlags = flags, hID = qID q \<rparr>
      @ writeStringList (qPaths q)
      @ (if has_flag 2 flags then writeString (qObjectPath q) else [])
      @ (if has_flag 4 flags then writePathSelectors (qPathCodes q) (qPathInstances q) else [])
      @ (if has_flag 5 flags then writePathSelector (qObjectCode q) (qObjectInstances q) else [])
      @ (if 0 < length nested then writeBytes nested else [])
      @ (case qTransfer q of None \<Rightarrow> [] | Some t \<Rightarrow> writeTransferRequest t)
      @ (if has_flag 3 flags then writeMetadata (qMetadata q) else []))"

definition EncodeUSPAgentRequest :: "(string \<Rightarrow> string \<Rightarrow> bool) \<Rightarrow> schema \<Rightarrow> Device \<Rightarrow> USPAgentRequest \<Rightarrow> usp_error + byte list" where
  "EncodeUSPAgentRequest re sc d req =
     (let q = compactRequestSelectors d req in
      res_bind (validateUSPAgentRequest re sc q) (\<lambda>_.
        let q' = q\<lparr> qMessage := map_option ResetAllFieldIDs (qMessage q) \<rparr> in
        res_bind (case qMessage q' of None \<Rightarrow> Inr [] | Some m \<Rightarrow> encodeNestedValidatedMessage sc m) (\<lambda>nested.
          Inr (request_bytes q' nested))))"

definition read_nested :: "schema \<Rightarrow> bool \<Rightarrow> (Message option) treader" where
  "read_nested sc b r =
     (if b then res_bind (tBytes r) (\<lambda>(frame, r1). res_bind (DecodeMessage sc frame) (\<lambda>m. Inr (Some m, r1))) else Inr (None, r))"

definition read_opt :: "bool \<Rightarrow> 'a treader \<Rightarrow> ('a option) treader" where
  "read_opt b rd r = (if b then res_bind (rd r) (\<lambda>(x, r1). Inr (Some x, r1)) else Inr (None, r))"

definition DecodeUSPAgentRequest :: "(string \<Rightarrow> string \<Rightarrow> bool) \<Rightarrow> schema \<Rightarrow> Device \<Rightarrow> byte list \<Rightarrow> usp_error + USPAgentRequest" where
  "DecodeUSPAgentRequest re sc d bs =
     res_bind (readHeader bs) (\<lambda>(h, r0).
     if hKind h \<noteq> uspTransportKindRequest then Inl (TMalformed ''unexpected request kind'')
     else let flags = hFlags h in
     res_bind (readStringList r0) (\<lambda>(paths, r1).
     res_bind (when_flag (has_flag 2 flags) '''' tString r1) (\<lambda>(objectPath, r2).
     res_bind (when_flag (has_flag 4 flags) ([], []) readPathSelectors r2) (\<lambda>((codes, instances), r3).
     res_bind (when_flag (has_flag 5 flags) (0, []) readPathSelector r3) (\<lambda>((objectCode, objectInstances), r4).
     res_bind (read_nested sc (has_flag 0 flags) r4) (\<lambda>(msg, r5).
     res_bind (read_opt (has_flag 1 flags) readTransferRequest r5) (\<lambda>(transfer, r6).
     res_bind (when_flag (has_flag 3 flags) fmempty readMetadata r6) (\<lambda>(metadata, r7).
     if r7 \<noteq> [] \<and> \<not> remainingAllZero r7 then Inl (TMalformed ''trailing request data'')
     else
       let q = resolveFastRequestPaths d \<lparr> qID = hID h, qMethod = hMethod h, qPaths = paths, qPathCodes = codes, qPathInstances = instances,
                 qObjectPath = objectPath, qObjectCode = objectCode, qObjectInstances = objectInstances, qMessage = msg,
                 qTransfer = transfer, qMetadata = metadata \<rparr>
       in res_bind (validateUSPAgentRequest re sc q) (\<lambda>_. Inr q)))))))))"

section \<open>Responses\<close>

definition response_flags :: "USPAgentResponse \<Rightarrow> byte" where
  "response_flags p =
     flag 0 (rMessage p \<noteq> None) OR flag 1 (rTransfer p \<noteq> None) OR flag 2 (rPaths p \<noteq> []) OR flag 3 (TrimSpace (rObjectPath p) \<noteq> '''')
     OR flag 4 (rMetadata p \<noteq> fmempty) OR flag 5 (rSupportedDataModel p \<noteq> None) OR flag 6 (rProtocol p \<noteq> None)
     OR flag 7 (rPathCodes p \<noteq> [] \<or> rObjectCode p \<noteq> 0 \<or> rObjectInstances p \<noteq> [])"

definition response_bytes :: "USPAgentResponse \<Rightarrow> byte list \<Rightarrow> byte list" where
  "response_bytes p nested =
     (let flags = response_flags p in
      writeHeader \<lparr> hVersion = uspTransportVersion, hKind = uspTransportKindResponse, hMethod = rMethod p, hFlags = flags, hID = rID p \<rparr>
      @ writeString (rError p)
      @ (if has_flag 2 flags then writeStringList (rPaths p) else [])
      @ (if has_flag 3 flags then writeString (rObjectPath p) else [])
      @ (if 0 < length nested then writeBytes nested else [])
      @ (case rTransfer p of None \<Rightarrow> [] | Some t \<Rightarrow> writeTransferResult t)
      @ (if has_flag 4 flags then writeMetadata (rMetadata p) else [])
      @ (if has_flag 7 flags then writePathSelectors (rPathCodes p) (rPathInstances p) @ writePathSelector (rObjectCode p) (rObjectInstances p) else [])
      @ (case rSupportedDataModel p of None \<Rightarrow> [] | Some m \<Rightarrow> writeSupportedDataModel m)
      @ (case rProtocol p of None \<Rightarrow> [] | Some i \<Rightarrow> writeProtocolInfo i))"

definition EncodeUSPAgentResponse :: "schema \<Rightarrow> Device \<Rightarrow> USPAgentResponse \<Rightarrow> usp_error + byte list" where
  "EncodeUSPAgentResponse sc d resp =
     (let p = compactResponseSelectors d resp in
      res_bind (validateUSPAgentResponse p) (\<lambda>_.
        res_bind (case rMessage p of None \<Rightarrow> Inr [] | Some m \<Rightarrow> encodeNestedValidatedMessage sc m) (\<lambda>nested.
          Inr (response_bytes p nested))))"

definition DecodeUSPAgentResponse :: "schema \<Rightarrow> Device \<Rightarrow> byte list \<Rightarrow> usp_error + USPAgentResponse" where
  "DecodeUSPAgentResponse sc d bs =
     res_bind (readHeader bs) (\<lambda>(h, r0).
     if hKind h \<noteq> uspTransportKindResponse then Inl (TMalformed ''unexpected response kind'')
     else let flags = hFlags h in
     res_bind (tString r0) (\<lambda>(err, r1).
     res_bind (when_flag (has_flag 2 flags) [] readStringList r1) (\<lambda>(paths, r2).
     res_bind (when_flag (has_flag 3 flags) '''' tString r2) (\<lambda>(objectPath, r3).
     res_bind (read_nested sc (has_flag 0 flags) r3) (\<lambda>(msg, r4).
     res_bind (read_opt (has_flag 1 flags) readTransferResult r4) (\<lambda>(transfer, r5).
     res_bind (when_flag (has_flag 4 flags) fmempty readMetadata r5) (\<lambda>(metadata, r6).
     res_bind (when_flag (has_flag 7 flags) ([], []) readPathSelectors r6) (\<lambda>((codes, instances), r7).
     res_bind (when_flag (has_flag 7 flags) (0, []) readPathSelector r7) (\<lambda>((objectCode, objectInstances), r8).
     res_bind (read_opt (has_flag 5 flags) readSupportedDataModel r8) (\<lambda>(dm, r9).
     res_bind (read_opt (has_flag 6 flags) readProtocolInfo r9) (\<lambda>(proto, r10).
     if r10 \<noteq> [] \<and> \<not> remainingAllZero r10 then Inl (TMalformed ''trailing response data'')
     else
       let p = resolveFastResponsePaths d \<lparr> rID = hID h, rMethod = hMethod h, rPaths = paths, rPathCodes = codes, rPathInstances = instances,
                 rObjectPath = objectPath, rObjectCode = objectCode, rObjectInstances = objectInstances, rMessage = msg,
                 rTransfer = transfer, rMetadata = metadata, rSupportedDataModel = dm, rProtocol = proto, rError = err \<rparr>
       in res_bind (validateUSPAgentResponse p) (\<lambda>_. Inr p))))))))))))"

section \<open>Metadata of a request\<close>

definition MetadataKeyResponseMaxControlPayload :: string where
  "MetadataKeyResponseMaxControlPayload = ''wusp.response_max_control_payload''"

text \<open>\<open>strconv.Atoi\<close>: an optional sign, digits, and the range of a 64-bit integer.\<close>

definition CloneMetadata :: "(string, string) fmap \<Rightarrow> (string, string) fmap" where
  "CloneMetadata m = fold (\<lambda>key out. fmupd key (the (fmlookup m key)) out) (sorted_keys m) fmempty"

definition WithResponseMaxControlPayload :: "(string, string) fmap \<Rightarrow> int \<Rightarrow> (string, string) fmap" where
  "WithResponseMaxControlPayload metadata maxPayload =
     (let out = CloneMetadata metadata in
      if maxPayload \<le> 0 then out else fmupd MetadataKeyResponseMaxControlPayload (itoa maxPayload) out)"

definition RequestedResponseMaxControlPayload :: "(string, string) fmap \<Rightarrow> int \<Rightarrow> int" where
  "RequestedResponseMaxControlPayload metadata fallback0 =
     (let fallback = (if fallback0 \<le> 0 then WUSPMaxDatagramPayload else fallback0) in
      if metadata = fmempty then fallback
      else
        let v = TrimSpace (case fmlookup metadata MetadataKeyResponseMaxControlPayload of None \<Rightarrow> '''' | Some s \<Rightarrow> s) in
        if v = '''' then fallback
        else case Atoi v of
               None \<Rightarrow> fallback
             | Some n \<Rightarrow> (if n < int uspControlFragmentHeaderSize + 1 then fallback
                         else if WUSPMaxDatagramPayload < n then WUSPMaxDatagramPayload else n))"

end
