(* ===== verification/Transport_Parts.thy ===== *)
theory Transport_Parts
  imports Transport
begin

text \<open>
  The parts of requests and responses are pairs of the contract \<open>codec\<close>, and the estimated sizes of
  \<open>src/internal/wusp/usp_transport.go\<close> are those of the bytes written.
\<close>

unbundle bit_operations_syntax

section \<open>The parts\<close>

lemmas part_rw = str.read_write bytes.read_write meta.read_write tUvarint_write boolean.read_write strs.read_write

definition ok_transfer :: "USPTransferRequest \<Rightarrow> bool" where
  "ok_transfer t \<longleftrightarrow> short (tPath t) \<and> short (tURI t) \<and> short (tFilename t) \<and> short (tContentType t) \<and> short (tPayload t) \<and> ok_metadata (tMetadata t)"

interpretation transfer: codec writeTransferRequest readTransferRequest ok_transfer
  by unfold_locales (simp add: ok_transfer_def writeTransferRequest_def readTransferRequest_def part_rw)

definition ok_result :: "USPTransferResult \<Rightarrow> bool" where
  "ok_result t \<longleftrightarrow> short (trPath t) \<and> short (trURI t) \<and> trBytes t \<le> mask 63 \<and> ok_metadata (trMetadata t)"

interpretation result: codec writeTransferResult readTransferResult ok_result
  by unfold_locales (simp add: ok_result_def writeTransferResult_def readTransferResult_def readInt64AsUvarint_def part_rw linorder_not_less [symmetric])

definition ok_model :: "BroadbandDataModel \<Rightarrow> bool" where
  "ok_model m \<longleftrightarrow> short (bmID m) \<and> short (bmName m) \<and> short (bmModelVersion m) \<and> short (bmFirstVersion m) \<and> short (bmLatestVersion m)
     \<and> short (bmSource m) \<and> short (bmSourceURL m)"

interpretation model: codec writeBroadbandDataModel readBroadbandDataModel ok_model
  by unfold_locales (simp add: ok_model_def writeBroadbandDataModel_def readBroadbandDataModel_def part_rw)

interpretation obj: codec write_object read_object "\<lambda>ob. short (soPath ob) \<and> short (soSinceVersion ob)"
  by unfold_locales (simp add: write_object_def read_object_def part_rw)

interpretation param: codec write_param read_param "\<lambda>p. short (spPath p) \<and> short (spType p) \<and> short (spAccess p) \<and> short (spSinceVersion p)"
  by unfold_locales (simp add: write_param_def read_param_def part_rw)

definition ok_datamodel :: "USPSupportedDataModel \<Rightarrow> bool" where
  "ok_datamodel m \<longleftrightarrow> short (RootDataModelVersion m)
     \<and> (\<forall>x\<in>set (dmModels m). ok_model x) \<and> fits_in 128 (length (dmModels m))
     \<and> (\<forall>x\<in>set (dmObjects m). short (soPath x) \<and> short (soSinceVersion x)) \<and> fits_in 40 (length (dmObjects m))
     \<and> (\<forall>x\<in>set (dmParams m). short (spPath x) \<and> short (spType x) \<and> short (spAccess x) \<and> short (spSinceVersion x)) \<and> fits_in 64 (length (dmParams m))"

interpretation datamodel: codec writeSupportedDataModel readSupportedDataModel ok_datamodel
  by unfold_locales (simp add: ok_datamodel_def writeSupportedDataModel_def readSupportedDataModel_def part_rw
      model.read_write_counted obj.read_write_counted param.read_write_counted)

definition ok_protocol :: "USPProtocolInfo \<Rightarrow> bool" where
  "ok_protocol i \<longleftrightarrow> short (piName i) \<and> ok_strings (piMethods i) \<and> ok_strings (piCompression i) \<and> short (piControlTransport i) \<and> short (piTransferTransport i)"

interpretation protocol: codec writeProtocolInfo readProtocolInfo ok_protocol
  by unfold_locales (simp add: ok_protocol_def writeProtocolInfo_def readProtocolInfo_def part_rw)

section \<open>Sizes\<close>

named_theorems sizes

lemma length_writeUvarint [sizes]: "length (writeUvarint v) = estimateUvarintSize v"
  by (induction v rule: estimateUvarintSize.induct) (simp add: writeUvarint.simps estimateUvarintSize.simps)

lemma length_writeString [sizes]: "length (writeString s) = estimateStringSize s"
  by (simp add: writeString_def estimateStringSize_def sizes)

lemma length_writeBytes [sizes]: "length (writeBytes b) = estimateBlobSize b"
  by (simp add: writeBytes_def estimateBlobSize_def sizes)

lemma length_write_counted [sizes]:
  "length (write_counted w xs) = estimateUvarintSize (of_nat (length xs)) + sum_list (map (\<lambda>x. length (w x)) xs)"
  by (simp add: write_counted_def sizes length_concat comp_def)

lemma length_writeStringList [sizes]: "length (writeStringList xs) = estimateStringListSize xs"
  by (simp add: writeStringList_def estimateStringListSize_def sizes)

lemma length_writeUint64List [sizes]: "length (writeUint64List xs) = estimateUint64ListSize xs"
  by (simp add: writeUint64List_def estimateUint64ListSize_def sizes)

lemma estimate_empty_list: "estimateUint64ListSize [] = estimateUvarintSize 0" "estimateUvarintSize 0 = 1" "estimateUvarintSize 1 = 1"
  by (simp_all add: estimateUint64ListSize_def estimateUvarintSize.simps)

lemma length_writePathSelectors [sizes]:
  "length (writePathSelectors cs is) = (if cs = [] then 1 else estimatePathSelectorsSize cs is)"
  by (auto simp: writePathSelectors_def estimatePathSelectorsSize_def sizes length_concat comp_def estimate_empty_list if_distrib
      intro!: arg_cong [where f = sum_list])

lemma length_writePathSelector [sizes]: "length (writePathSelector c is) = estimateUvarintSize c + estimateUint64ListSize is"
  by (simp add: writePathSelector_def sizes)

lemma length_writeMetadata [sizes]: "length (writeMetadata m) = estimateMetadataSize m"
  by (auto simp: writeMetadata_def estimateMetadataSize_def write_entry_def sizes comp_def sorted_keys_def estimate_empty_list sorted_list_of_fset.rep_eq)

lemma length_writeBool [sizes]: "length (writeBool b) = 1"
  by (simp add: writeBool_def sizes estimate_empty_list)

lemma length_parts [sizes]:
  "length (writeTransferRequest t) = estimateTransferRequestSize t"
  "length (writeTransferResult r) = estimateTransferResultSize r"
  "length (writeBroadbandDataModel m) = estimateBroadbandDataModelSize m"
  "length (write_object ob) = estimateStringSize (soPath ob) + 1 + estimateStringSize (soSinceVersion ob)"
  "length (write_param p) = estimateStringSize (spPath p) + estimateStringSize (spType p) + estimateStringSize (spAccess p) + estimateStringSize (spSinceVersion p)"
  "length (writeProtocolInfo i) = estimateProtocolInfoSize i"
  by (simp_all add: writeTransferRequest_def estimateTransferRequestSize_def writeTransferResult_def estimateTransferResultSize_def
      writeBroadbandDataModel_def estimateBroadbandDataModelSize_def write_object_def write_param_def writeProtocolInfo_def
      estimateProtocolInfoSize_def sizes)

lemma length_writeSupportedDataModel [sizes]: "length (writeSupportedDataModel m) = estimateSupportedDataModelSize m"
  by (simp add: writeSupportedDataModel_def estimateSupportedDataModelSize_def sizes)

lemma length_body:
  assumes "res_bind x (\<lambda>bs. Inr (t # bs)) = Inr out"
  obtains bs where "x = Inr bs" "length out = Suc (length bs)"
  using assms by (cases x) auto

lemma length_encodeValue:
  "encodeValue v = Inr bs \<Longrightarrow> length bs = estimateValueEncodedSize v"
  "encodeItems vs = Inr ibs \<Longrightarrow> length ibs = estimateItemsSize vs"
proof (induction v and vs arbitrary: bs and ibs rule: encodeValue_encodeItems.induct)
  case (1 t i f b l)
  from 1(2) [unfolded encodeValue.simps] obtain body where b: "length bs = Suc (length body)" and
    e: "(if t = TagNull \<or> t = TagFalse \<or> t = TagTrue then Inr []
        else if t = TagUint then Inr (writeUvarint i)
        else if t = TagInt then Inr (writeZigzag i)
        else if t = TagFloat then Inr (put64 f)
        else if t = TagString \<or> t = TagBytes then Inr (writeBlob b)
        else if t = TagTime then Inr (writeZigzag i)
        else if t = TagIP4 then prefix_of 4 b
        else if t = TagIP6 then prefix_of 16 b
        else if t = TagIP4Pfx then prefix_of 5 b
        else if t = TagIP6Pfx then prefix_of 17 b
        else if t = TagMAC then prefix_of 6 b
        else if t = TagList then
          res_bind (encodeItems l) (\<lambda>bs. Inr (writeUvarint (of_nat (length l)) @ bs))
        else Inr []) = Inr body"
    by (rule length_body)
  note parts = writeZigzag_def writeBlob_def estimateBlobSize_def prefix_of_def sizes
  consider "t \<in> {TagNull, TagFalse, TagTrue, TagUint, TagInt, TagFloat, TagString, TagBytes, TagTime}"
    | "t \<in> {TagIP4, TagIP6, TagIP4Pfx, TagIP6Pfx, TagMAC}" | "t = TagList" | "t \<notin> {TagNull, TagFalse, TagTrue, TagUint, TagInt, TagFloat, TagString,
        TagBytes, TagTime, TagIP4, TagIP6, TagIP4Pfx, TagIP6Pfx, TagMAC, TagList}" by blast
  then show ?case
  proof cases
    case 1
    then show ?thesis using e by (elim insertE emptyE) (auto simp: b tag_defs parts)
  next
    case 2
    then show ?thesis using e by (elim insertE emptyE) (auto simp: b tag_defs parts split: if_split_asm)
  next
    case 3
    then show ?thesis using e 1(1) by (cases "encodeItems l") (auto simp: b tag_defs parts)
  next
    case 4
    then show ?thesis using e by (simp add: b)
  qed
qed auto

section \<open>Flags\<close>

lemma request_flag_bits:
  "has_flag 0 (request_flags q) = (qMessage q \<noteq> None)" "has_flag 1 (request_flags q) = (qTransfer q \<noteq> None)"
  "has_flag 2 (request_flags q) = (TrimSpace (qObjectPath q) \<noteq> '''')" "has_flag 3 (request_flags q) = (qMetadata q \<noteq> fmempty)"
  "has_flag 4 (request_flags q) = (qPathCodes q \<noteq> [])" "has_flag 5 (request_flags q) = (qObjectCode q \<noteq> 0)"
  by (simp_all add: has_flag_bit request_flags_def bit_or_iff bit_flag)

lemma response_flag_bits:
  "has_flag 0 (response_flags p) = (rMessage p \<noteq> None)" "has_flag 1 (response_flags p) = (rTransfer p \<noteq> None)"
  "has_flag 2 (response_flags p) = (rPaths p \<noteq> [])" "has_flag 3 (response_flags p) = (TrimSpace (rObjectPath p) \<noteq> '''')"
  "has_flag 4 (response_flags p) = (rMetadata p \<noteq> fmempty)" "has_flag 5 (response_flags p) = (rSupportedDataModel p \<noteq> None)"
  "has_flag 6 (response_flags p) = (rProtocol p \<noteq> None)"
  "has_flag 7 (response_flags p) = (rPathCodes p \<noteq> [] \<or> rObjectCode p \<noteq> 0 \<or> rObjectInstances p \<noteq> [])"
  by (simp_all add: has_flag_bit response_flags_def bit_or_iff bit_flag)

lemma length_writeHeader [sizes]: "length (writeHeader h) = 12"
  by (simp add: writeHeader_def)

lemma TrimSpace_empty [simp]: "TrimSpace '''' = ''''"
  by (simp add: TrimSpace_def TrimLeft_def TrimRight_def)

lemma request_estimate: "length (request_bytes q nested) \<le> estimateUSPAgentRequestSize q nested"
proof -
  have "(if has_flag 2 (request_flags q) then estimateStringSize (qObjectPath q) else 0) \<le> (if qObjectPath q \<noteq> '''' then estimateStringSize (qObjectPath q) else 0)"
    by (auto simp: request_flag_bits)
  then show ?thesis unfolding request_bytes_def estimateUSPAgentRequestSize_def Let_def length_append
    by (simp add: sizes request_flag_bits estimatePathSelectorSize_def split: option.split)
qed

lemma response_estimate: "length (response_bytes p nested) \<le> estimateUSPAgentResponseSize p nested + 2"
proof -
  note fb = response_flag_bits [of p]
  have "length (if has_flag 2 (response_flags p) then writeStringList (rPaths p) else []) = (if rPaths p \<noteq> [] then estimateStringListSize (rPaths p) else 0)"
    and "length (if has_flag 3 (response_flags p) then writeString (rObjectPath p) else []) \<le> (if rObjectPath p \<noteq> '''' then estimateStringSize (rObjectPath p) else 0)"
    and "length (if 0 < length nested then writeBytes nested else []) = (if 0 < length nested then estimateBlobSize nested else 0)"
    and "length (case rTransfer p of None \<Rightarrow> [] | Some t \<Rightarrow> writeTransferResult t) = (case rTransfer p of None \<Rightarrow> 0 | Some t \<Rightarrow> estimateTransferResultSize t)"
    and "length (if has_flag 4 (response_flags p) then writeMetadata (rMetadata p) else []) \<le> estimateMetadataSize (rMetadata p)"
    and "length (if has_flag 7 (response_flags p) then writePathSelectors (rPathCodes p) (rPathInstances p) @ writePathSelector (rObjectCode p) (rObjectInstances p) else [])
      \<le> estimatePathSelectorsSize (rPathCodes p) (rPathInstances p) + estimatePathSelectorSize (rObjectCode p) (rObjectInstances p) + 2"
    and "length (case rSupportedDataModel p of None \<Rightarrow> [] | Some m \<Rightarrow> writeSupportedDataModel m) = (case rSupportedDataModel p of None \<Rightarrow> 0 | Some m \<Rightarrow> estimateSupportedDataModelSize m)"
    and "length (case rProtocol p of None \<Rightarrow> [] | Some i \<Rightarrow> writeProtocolInfo i) = (case rProtocol p of None \<Rightarrow> 0 | Some i \<Rightarrow> estimateProtocolInfoSize i)"
    by (auto simp: fb sizes estimatePathSelectorSize_def estimate_empty_list split: option.split)
  then show ?thesis unfolding response_bytes_def estimateUSPAgentResponseSize_def Let_def length_append length_writeHeader length_writeString
    by linarith
qed

text \<open>
  The buffers are made large enough: a request never has more bytes than estimated, a response at most two more,
  and the size of a value counted for the choice of compression is the number of bytes it is encoded with.
\<close>

theorem estimates_cover:
  "length (request_bytes q nested) \<le> estimateUSPAgentRequestSize q nested \<and>
   length (response_bytes p nested) \<le> estimateUSPAgentResponseSize p nested + 2 \<and>
   (encodeValue v = Inr bs \<longrightarrow> length bs = estimateValueEncodedSize v)"
  using request_estimate response_estimate length_encodeValue(1) by blast

definition encoded_demo :: "byte list" where
  "encoded_demo = [TagUint, 0xAC, 0x02]"

theorem estimates_cover_witness:
  "length (encoded_demo) = 3 \<and> encodeValue (Uint 300) = Inr encoded_demo \<and> estimateValueEncodedSize (Uint 300) = 3"
proof -
  have e: "encodeValue (Uint 300) = Inr encoded_demo"
    by (simp add: encoded_demo_def Uint_def tag_defs writeUvarint.simps)
  then have "length encoded_demo = estimateValueEncodedSize (Uint 300)" using estimates_cover [of undefined "[]" undefined "Uint 300" encoded_demo] by simp
  then show ?thesis using e by (simp add: encoded_demo_def)
qed

end
