(* ===== verification/Transport_Roundtrip.thy ===== *)
theory Transport_Roundtrip
  imports Transport_Parts
begin

text \<open>
  What the control transport promises: a request or response that is sent is the one that is received, with its paths
  restored from the compact selectors and its nested message as the receiver's registry reads it.
\<close>

section \<open>Paths and selectors\<close>

text \<open>A path as it is received: the path itself, or the trimmed path in the letters of the schema.\<close>

definition same_path :: "string \<Rightarrow> string \<Rightarrow> bool" where
  "same_path r p \<longleftrightarrow> r = p \<or> ToLower r = ToLower (TrimSpace p) \<and> concrete_path p \<and> TrimSpace p \<noteq> ''''"

lemma space_lower: "is_space (lower_char c) \<longleftrightarrow> is_space c"
proof (cases "65 \<le> code c \<and> code c \<le> 90")
  case True
  then have "code (char_of (code c + 32)) = code c + 32" using code_char_of [of "code c + 32"] by simp
  then show ?thesis using True by (auto simp: lower_char_def is_space_def)
qed (auto simp: lower_char_def)

lemma same_path_trim:
  assumes "same_path r p" and "TrimSpace p \<noteq> ''''"
  shows "TrimSpace r \<noteq> ''''" "isObjectPath r = isObjectPath p"
proof -
  have o: "HasSuffix s ''.'' \<longleftrightarrow> s \<noteq> [] \<and> last s = CHR ''.''" for s
    by (cases s rule: rev_cases) (auto simp: HasSuffix_def)
  have "TrimSpace r \<noteq> '''' \<and> isObjectPath r = isObjectPath p"
  proof (cases "r = p")
    case False
    then have l: "ToLower r = ToLower (TrimSpace p)" and c: "concrete_path p" using assms by (auto simp: same_path_def)
    have "\<forall>x\<in>set (ToLower (TrimSpace p)). \<not> is_space x" using c by (simp add: concrete_path_def ToLower_def space_lower)
    then have "\<forall>x\<in>set (ToLower r). \<not> is_space x" using l by simp
    then have "\<forall>x\<in>set r. \<not> is_space x" by (simp add: ToLower_def space_lower)
    then have t: "TrimSpace r = r" by (rule TrimSpace_none)
    have ne: "r \<noteq> []" using l assms(2) by (auto simp: ToLower_def)
    have "lower_char (last r) = lower_char (last (TrimSpace p))"
      using l ne assms(2) by (metis ToLower_def last_map)
    then have "last r = CHR ''.'' \<longleftrightarrow> last (TrimSpace p) = CHR ''.''" using ToLower_dot by metis
    then show ?thesis using ne t assms(2) by (simp add: isObjectPath_def o)
  qed (use assms(2) in simp)
  then show "TrimSpace r \<noteq> ''''" "isObjectPath r = isObjectPath p" by simp_all
qed

lemma zip_selectors:
  "length is = length cs \<Longrightarrow> map (\<lambda>(i, c). (c, if i < length is then is ! i else [])) (enumerate 0 cs) = zip cs is"
  by (rule nth_equalityI) (simp_all add: nth_enumerate_eq)

lemma resolve_paths_zip:
  assumes "length is = length cs" and "cs \<noteq> []"
  shows "resolve_paths d [] cs is = List.map_filter (\<lambda>(c, i). PathForSelector d \<lparr> Code = c, Instances = i \<rparr>) (zip cs is)"
proof -
  have m: "List.map_filter f (map h xs) = List.map_filter (\<lambda>x. f (h x)) xs"
    for f :: "64 word \<times> 64 word list \<Rightarrow> string option" and h and xs :: "(nat \<times> 64 word) list"
    by (induction xs) (auto simp: map_filter_simps split: option.split)
  show ?thesis using assms(2) unfolding zip_selectors [OF assms(1), symmetric] m
    by (simp add: resolve_paths_def case_prod_unfold)
qed

text \<open>What the length of a path bounds.\<close>

lemma length_Split: "length (Split s c) \<le> Suc (length s)"
  by (induction s) (auto split: list.split)

lemma length_TrimSpace: "length (TrimSpace s) \<le> length s"
  using length_dropWhile_le [of is_space s] length_dropWhile_le [of is_space "rev (dropWhile is_space s)"]
  by (simp add: TrimSpace_def TrimLeft_def TrimRight_def)

lemma length_instances_loop: "instances_loop cs ps = Some (is, h) \<Longrightarrow> length is \<le> length ps"
proof (induction cs arbitrary: ps "is" h)
  case Nil
  then show ?case by simp
next
  case (Cons c cs)
  show ?case
  proof (cases ps)
    case (Cons p qs)
    then obtain js g where "instances_loop cs qs = Some (js, g)" "length is \<le> Suc (length js)"
      using Cons.prems by (auto split: if_splits option.splits)
    with Cons.IH [of qs js g] Cons show ?thesis by simp
  qed (use Cons.prems in simp)
qed

lemma length_selector:
  assumes "SelectorForPath d p = Some sel"
  shows "length (Instances sel) \<le> Suc (length p)"
proof -
  obtain canonical where "selectorInstancesFromPath p canonical = Some (Instances sel)"
    using assms by (auto simp: SelectorForPath_def split: option.splits if_splits)
  then have "length (Instances sel) \<le> length (Split (TrimSpace p) (CHR ''.''))"
    by (auto simp: selectorInstancesFromPath_def Let_def split: if_splits option.splits dest: length_instances_loop)
  then show ?thesis using length_Split [of "TrimSpace p"] length_TrimSpace [of p] by (meson Suc_le_mono le_trans)
qed


lemma resolve_all_paths:
  assumes "resolve_all d ps = Some ss" and "NewDevice objs params = Inr d" and "schema_ok objs params"
    and "\<forall>p\<in>set ps. concrete_path p"
  shows "list_all2 same_path (List.map_filter (\<lambda>(c, i). PathForSelector d \<lparr> Code = c, Instances = i \<rparr>) ss) ps \<and>
    length ss = length ps \<and> (\<forall>(c, i)\<in>set ss. c \<noteq> 0 \<and> (\<exists>p\<in>set ps. length i \<le> Suc (length p))) \<and> (\<forall>p\<in>set ps. TrimSpace p \<noteq> '''')"
  using assms(1,4)
proof (induction ps arbitrary: ss)
  case (Cons p ps)
  obtain sel ss' where s: "SelectorForPath d p = Some sel" "Code sel \<noteq> 0" "resolve_all d ps = Some ss'" "ss = (Code sel, Instances sel) # ss'"
    using Cons.prems(1) by (auto split: option.splits if_splits)
  have c: "concrete_path p" using Cons.prems(2) by simp
  obtain r where r: "PathForSelector d sel = Some r" "ToLower r = ToLower (TrimSpace p)"
    using selector_restores [OF assms(2,3) c s(1)] by blast
  have t: "TrimSpace p \<noteq> ''''"
    using s(1) by (auto simp: SelectorForPath_def selectorInstancesFromPath_def Let_def split: option.splits if_splits)
  then have "same_path r p" using r(2) c by (simp add: same_path_def)
  moreover have "PathForSelector d \<lparr> Code = Code sel, Instances = Instances sel \<rparr> = Some r" using r(1) by (cases sel) simp
  ultimately show ?case
    using Cons.IH [OF s(3)] Cons.prems(2) s(2,4) t length_selector [OF s(1)] by (auto simp: map_filter_simps)
qed (simp add: map_filter_simps)


text \<open>What is sent for the paths, and what is received for it.\<close>

definition short_path :: "string \<Rightarrow> bool" where
  "short_path p \<longleftrightarrow> length p \<le> 2 ^ 40"

lemma short_path_short: "short_path p \<Longrightarrow> short p"
  by (simp add: short_path_def short_def)

lemma instances_ok: "short_path p \<Longrightarrow> length i \<le> Suc (length p) \<Longrightarrow> ok_words i"
  by (simp add: short_path_def ok_words_def fits_in_def)

lemma compact_paths_resolved:
  assumes "compact_paths d ps [] [] = (ps', cs, is)" and "NewDevice objs params = Inr d" and "schema_ok objs params"
    and "\<forall>p\<in>set ps. concrete_path p \<and> short_path p" and "fits_in 24 (length ps)"
  shows "list_all2 same_path (resolve_paths d ps' cs is) ps" "ok_strings ps'" "ok_selectors cs is"
    "cs = [] \<Longrightarrow> ps' = ps" "cs \<noteq> [] \<Longrightarrow> ps' = [] \<and> (\<forall>p\<in>set ps. TrimSpace p \<noteq> '''')" "\<forall>c\<in>set cs. c \<noteq> 0"
proof -
  have "list_all2 same_path (resolve_paths d ps' cs is) ps \<and> ok_strings ps' \<and> ok_selectors cs is \<and>
    (cs = [] \<longrightarrow> ps' = ps) \<and> (cs \<noteq> [] \<longrightarrow> ps' = [] \<and> (\<forall>p\<in>set ps. TrimSpace p \<noteq> '''')) \<and> (\<forall>c\<in>set cs. c \<noteq> 0)"
  proof (cases "ps = [] \<or> resolve_all d ps = None")
    case True
    then have "ps' = ps" "cs = []" "is = []"
      using assms(1) by (auto simp: compact_paths_def strictResolvedPathSelectors_def split: if_splits)
    moreover have "list_all2 same_path ps ps" by (simp add: list_all2_same same_path_def)
    ultimately show ?thesis using assms(4,5)
      by (auto simp: resolve_paths_def ok_strings_def ok_selectors_def short_path_short fits_in_def)
  next
    case False
    then obtain ss where ss: "resolve_all d ps = Some ss" and e: "ps' = []" "cs = map fst ss" "is = map snd ss"
      using assms(1) by (auto simp: compact_paths_def strictResolvedPathSelectors_def)
    note r = resolve_all_paths [OF ss assms(2,3)]
    have ne: "cs \<noteq> []" "length is = length cs" "zip cs is = ss" using False e assms(4) r by (auto simp: zip_map_fst_snd)
    have "resolve_paths d ps' cs is = List.map_filter (\<lambda>(c, i). PathForSelector d \<lparr> Code = c, Instances = i \<rparr>) ss"
      using resolve_paths_zip [OF ne(2,1)] e(1) ne(3) by simp
    moreover have "\<forall>i\<in>set is. ok_words i"
      using r assms(4) e(3) by (fastforce intro: instances_ok)
    ultimately show ?thesis using r assms(4,5) e ne by (auto simp: ok_strings_def ok_selectors_def fits_in_def)
  qed
  then show "list_all2 same_path (resolve_paths d ps' cs is) ps" "ok_strings ps'" "ok_selectors cs is"
    "cs = [] \<Longrightarrow> ps' = ps" "cs \<noteq> [] \<Longrightarrow> ps' = [] \<and> (\<forall>p\<in>set ps. TrimSpace p \<noteq> '''')" "\<forall>c\<in>set cs. c \<noteq> 0" by simp_all
qed

lemma compact_object_resolved:
  assumes "compact_object d p 0 [] = (p', c, is)" and "NewDevice objs params = Inr d" and "schema_ok objs params"
    and "concrete_path p \<and> short_path p"
  shows "same_path (resolve_object d (unblank p') c is) (unblank p)" "short p'" "ok_words is"
    "c = 0 \<Longrightarrow> p' = p \<and> is = []" "c \<noteq> 0 \<Longrightarrow> p' = '''' \<and> TrimSpace p \<noteq> ''''"
proof -
  have "same_path (resolve_object d (unblank p') c is) (unblank p) \<and> short p' \<and> ok_words is \<and>
    (c = 0 \<longrightarrow> p' = p \<and> is = []) \<and> (c \<noteq> 0 \<longrightarrow> p' = '''' \<and> TrimSpace p \<noteq> '''')"
  proof (cases "c = 0")
    case True
    then have "p' = p \<and> is = []"
      using assms(1) by (auto simp: compact_object_def strictResolvedObjectCode_def split: if_splits option.splits)
    then show ?thesis using True assms(4)
      by (auto simp: resolve_object_def same_path_def short_path_short ok_words_def fits_in_def)
  next
    case False
    then obtain sel where s: "SelectorForPath d p = Some sel" "c = Code sel" "is = Instances sel" "p' = ''''" "TrimSpace p \<noteq> ''''"
      using assms(1) by (auto simp: compact_object_def strictResolvedObjectCode_def split: if_splits option.splits)
    obtain r where r: "PathForSelector d sel = Some r" "ToLower r = ToLower (TrimSpace p)"
      using selector_restores [OF assms(2,3) _ s(1)] assms(4) by blast
    moreover have "PathForSelector d \<lparr> Code = c, Instances = is \<rparr> = Some r" using r(1) s by (cases sel) simp
    ultimately show ?thesis using False s assms(4) length_selector [OF s(1)]
      by (auto simp: resolve_object_def unblank_def same_path_def short_def intro: instances_ok)
  qed
  then show "same_path (resolve_object d (unblank p') c is) (unblank p)" "short p'" "ok_words is"
    "c = 0 \<Longrightarrow> p' = p \<and> is = []" "c \<noteq> 0 \<Longrightarrow> p' = '''' \<and> TrimSpace p \<noteq> ''''" by simp_all
qed


section \<open>Requests on the wire\<close>

lemma readHeader_write:
  "readHeader (writeHeader \<lparr> hVersion = uspTransportVersion, hKind = k, hMethod = m, hFlags = f, hID = i \<rparr> @ rest) =
     Inr (\<lparr> hVersion = uspTransportVersion, hKind = k, hMethod = m, hFlags = f, hID = i \<rparr>, rest)"
  using get64_put64 [of i "[]"] by (simp add: readHeader_def writeHeader_def slice_of_def)

text \<open>The frame of a nested message and the message it is read as.\<close>

definition nested_as :: "schema \<Rightarrow> Message option \<Rightarrow> byte list \<Rightarrow> Message option \<Rightarrow> bool" where
  "nested_as sc m nested m' \<longleftrightarrow>
     (case m of None \<Rightarrow> nested = [] \<and> m' = None
      | Some _ \<Rightarrow> nested \<noteq> [] \<and> short nested \<and> (\<exists>x. m' = Some x \<and> DecodeMessage sc nested = Inr x))"

lemma read_nested_write:
  assumes "nested_as sc m nested m'"
  shows "read_nested sc (m \<noteq> None) ((if 0 < length nested then writeBytes nested else []) @ rest) = Inr (m', rest)"
  using assms by (cases m) (auto simp: nested_as_def read_nested_def bytes.read_write)

lemma padding_ok [simp]: "remainingAllZero (replicate n 0)"
  by (simp add: remainingAllZero_def list_all_iff)

definition ok_request :: "USPAgentRequest \<Rightarrow> bool" where
  "ok_request q \<longleftrightarrow> ok_strings (qPaths q) \<and> short (qObjectPath q) \<and> ok_selectors (qPathCodes q) (qPathInstances q) \<and> ok_words (qObjectInstances q)
     \<and> (qObjectCode q = 0 \<longrightarrow> qObjectInstances q = []) \<and> (\<forall>t. qTransfer q = Some t \<longrightarrow> ok_transfer t) \<and> ok_metadata (qMetadata q)"

lemma request_decoded:
  assumes "ok_request q" and "nested_as sc (qMessage q) nested m'"
  shows "DecodeUSPAgentRequest re sc d (request_bytes q nested @ replicate n 0) =
    (let q' = resolveFastRequestPaths d (q\<lparr> qObjectPath := unblank (qObjectPath q), qMessage := m' \<rparr>)
     in res_bind (validateUSPAgentRequest re sc q') (\<lambda>_. Inr q'))"
proof -
  note ok = assms(1) [unfolded ok_request_def]
  define f where "f = request_flags q"
  note fb = request_flag_bits [of q, folded f_def]
  define w1 where "w1 = writeStringList (qPaths q)"
  define w2 where "w2 = (if has_flag 2 f then writeString (qObjectPath q) else [])"
  define w3 where "w3 = (if has_flag 4 f then writePathSelectors (qPathCodes q) (qPathInstances q) else [])"
  define w4 where "w4 = (if has_flag 5 f then writePathSelector (qObjectCode q) (qObjectInstances q) else [])"
  define w5 where "w5 = (if 0 < length nested then writeBytes nested else [])"
  define w6 where "w6 = (case qTransfer q of None \<Rightarrow> [] | Some t \<Rightarrow> writeTransferRequest t)"
  define w7 where "w7 = (if has_flag 3 f then writeMetadata (qMetadata q) else [])"
  have b: "request_bytes q nested = writeHeader \<lparr> hVersion = uspTransportVersion, hKind = uspTransportKindRequest, hMethod = qMethod q, hFlags = f, hID = qID q \<rparr>
      @ w1 @ w2 @ w3 @ w4 @ w5 @ w6 @ w7"
    by (simp add: request_bytes_def Let_def f_def w1_def w2_def w3_def w4_def w5_def w6_def w7_def)
  have "readStringList (w1 @ rest) = Inr (qPaths q, rest)"
    and "when_flag (has_flag 2 f) '''' tString (w2 @ rest) = Inr (unblank (qObjectPath q), rest)"
    and "when_flag (has_flag 4 f) ([], []) readPathSelectors (w3 @ rest) = Inr ((qPathCodes q, qPathInstances q), rest)"
    and "when_flag (has_flag 5 f) (0, []) readPathSelector (w4 @ rest) = Inr ((qObjectCode q, qObjectInstances q), rest)"
    and "read_nested sc (has_flag 0 f) (w5 @ rest) = Inr (m', rest)"
    and "read_opt (has_flag 1 f) readTransferRequest (w6 @ rest) = Inr (qTransfer q, rest)"
    and "when_flag (has_flag 3 f) fmempty readMetadata (w7 @ rest) = Inr (qMetadata q, rest)" for rest
    using ok selector.read_write [of "(qObjectCode q, qObjectInstances q)" rest] read_nested_write [OF assms(2)]
    unfolding fb w1_def w2_def w3_def w4_def w5_def w6_def w7_def
    by (auto simp: strs.read_write when_flag_def unblank_def str.read_write readPathSelectors_write ok_selectors_def meta.read_write transfer.read_write
        read_opt_def split: option.split)
  then show ?thesis using assms
    unfolding DecodeUSPAgentRequest_def b append_assoc readHeader_write
    by (cases q) (simp add: Let_def)
qed


section \<open>Nested messages\<close>

definition small_message :: "Message \<Rightarrow> bool" where
  "small_message m \<longleftrightarrow> (case encode_payload (safe_encoder True) m of Inl _ \<Rightarrow> False | Inr p \<Rightarrow> length p < 2 ^ 32)"

lemma payload_same: "encode_payload (safe_encoder lz4) m = encode_payload (safe_encoder True) m"
  by (simp add: encode_payload_def with_device_def with_ts_def safe_encoder_def)

lemma Encode_length:
  assumes "Encode reg opts m = Inr data" and "encode_payload opts m = Inr p"
  shows "data \<noteq> []" "length data \<le> length p + 12"
proof -
  have f: "length (frame_header reg fl) = 8" for fl by (rule frame_header_nth(1))
  have "data \<noteq> [] \<and> length data \<le> length p + 12"
  proof (cases "if Compress opts then compress p else None")
    case None
    then have "\<exists>fl. data = frame_header reg fl @ p" using assms by (auto simp: Encode_def Let_def)
    then show ?thesis using f by (fastforce simp: frame_header_def)
  next
    case (Some cs)
    then have "compress p = Some cs" by (auto split: if_splits)
    then have "length cs < length p" by (rule decompress_compress(2))
    moreover have "\<exists>fl. data = frame_header reg fl @ put32 (of_nat (length p)) @ cs" using Some assms by (auto simp: Encode_def Let_def)
    ultimately show ?thesis using f by (fastforce simp: frame_header_def)
  qed
  then show "data \<noteq> []" "length data \<le> length p + 12" by simp_all
qed

lemma nested_wire:
  assumes "within_limits m" and "small_message m"
  shows "\<exists>nested. encodeNestedValidatedMessage sc m = Inr nested \<and>
    nested_as sc' (Some m) nested (Some (m\<lparr> Fields := read_fields (globalRegistry sc') True (Fields m) \<rparr>))"
proof -
  let ?o = "safe_encoder (shouldCompressNestedMessage m)"
  have "wf_message m" "time_ok ?o m" using assms(1) by (auto simp: within_limits_def time_ok_def with_ts_def)
  from Encode_Decode [OF this, of "globalRegistry sc" "globalRegistry sc'" safeDecoder]
  obtain p data where d: "encode_payload ?o m = Inr p" "Encode (globalRegistry sc) ?o m = Inr data"
      "length p < 2 ^ 32 \<Longrightarrow> Decode (globalRegistry sc') safeDecoder data = Inr (m\<lparr> Fields := read_fields (globalRegistry sc') True (Fields m) \<rparr>)"
    by (auto simp: sent_safe)
  moreover have "length p < 2 ^ 32" using assms(2) d(1) payload_same [of "shouldCompressNestedMessage m" m] by (simp add: small_message_def)
  moreover have "data \<noteq> []" "length data \<le> length p + 12" using Encode_length [OF d(2,1)] by simp_all
  ultimately show ?thesis
    by (auto simp: encodeNestedValidatedMessage_def encodeMessageValidated_def lift_wire_def nested_as_def DecodeMessage_def short_def)
qed

lemma validate_reset:
  assumes "ValidateMessageFast re sc m = Inr ()" and "safeParamIndex sc' = safeParamIndex sc"
  shows "ValidateMessageFast re sc' (ResetAllFieldIDs m) = Inr ()"
proof -
  have f: "ValidateFieldFast re sc' (ResetID f) = Inr ()" if "ValidateFieldFast re sc f = Inr ()" for f
    using that assms(2) by (auto simp: ValidateFieldFast_def ResetID_def split: option.splits prod.splits if_splits)
  have "validate_fields re sc' seen (map ResetID fs) = Inr ()" if "validate_fields re sc seen fs = Inr ()" for seen fs
    using that
  proof (induction fs arbitrary: seen)
    case (Cons x fs)
    then show ?case using f [of x] by (auto simp: ResetID_def split: if_splits)
  qed simp
  then show ?thesis using assms(1) by (simp add: ValidateMessageFast_def ResetAllFieldIDs_def)
qed

lemma reset_limits: "within_limits m \<Longrightarrow> within_limits (ResetAllFieldIDs m)"
  by (auto simp: within_limits_def wf_message_def ResetAllFieldIDs_def ResetID_def sendable_def)

lemma read_reset: "read_fields reg skip (Fields (ResetAllFieldIDs m)) = Fields (ResetAllFieldIDs m)"
  by (rule read_own_fields) (auto simp: ResetAllFieldIDs_def ResetID_def)


section \<open>Requests\<close>

definition sendable_request :: "USPAgentRequest \<Rightarrow> bool" where
  "sendable_request q \<longleftrightarrow>
     qPathCodes q = [] \<and> qPathInstances q = [] \<and> qObjectCode q = 0 \<and> qObjectInstances q = []
     \<and> (\<forall>p\<in>set (qPaths q). concrete_path p \<and> short_path p) \<and> fits_in 24 (length (qPaths q))
     \<and> concrete_path (qObjectPath q) \<and> short_path (qObjectPath q) \<and> (TrimSpace (qObjectPath q) = '''' \<or> isObjectPath (qObjectPath q))
     \<and> (case qMessage q of None \<Rightarrow> True | Some m \<Rightarrow> within_limits m \<and> small_message (ResetAllFieldIDs m))
     \<and> (case qTransfer q of None \<Rightarrow> True | Some t \<Rightarrow> ok_transfer t) \<and> ok_metadata (qMetadata q)"

text \<open>What the agent receives of a request: everything, with the paths as restored and the field identifiers cleared.\<close>

definition same_request :: "USPAgentRequest \<Rightarrow> USPAgentRequest \<Rightarrow> bool" where
  "same_request q q' \<longleftrightarrow>
     qID q' = qID q \<and> qMethod q' = qMethod q \<and> list_all2 same_path (qPaths q') (qPaths q)
     \<and> same_path (qObjectPath q') (unblank (qObjectPath q)) \<and> qMessage q' = map_option ResetAllFieldIDs (qMessage q)
     \<and> qTransfer q' = qTransfer q \<and> qMetadata q' = qMetadata q"

lemma check_selectors_resolved:
  assumes v: "check_selectors w ps' cs is op' oc oi = Inr ()"
    and p: "list_all2 same_path ps2 ps" "cs = [] \<Longrightarrow> ps' = ps" "cs \<noteq> [] \<Longrightarrow> \<forall>p\<in>set ps. TrimSpace p \<noteq> ''''"
    and ob: "same_path op2 (unblank op)" "TrimSpace op = '''' \<or> isObjectPath op"
  shows "check_selectors w ps2 cs is op2 oc oi = Inr ()"
proof -
  have "\<forall>p\<in>set ps. TrimSpace p \<noteq> ''''" using p v by (cases "cs = []") (auto simp: check_selectors_def split: if_splits)
  moreover have "\<exists>q\<in>set ps. same_path x q" if "x \<in> set ps2" for x
    using p(1) that by (metis list_all2_conv_all_nth in_set_conv_nth)
  ultimately have "\<forall>p\<in>set ps2. TrimSpace p \<noteq> ''''" using same_path_trim(1) by metis
  moreover have "TrimSpace op2 \<noteq> '''' \<Longrightarrow> isObjectPath op2"
    using ob same_path_trim(2) [OF ob(1)] by (auto simp: unblank_def same_path_def split: if_splits)
  ultimately show ?thesis using v by (auto simp: check_selectors_def split: if_splits)
qed

lemma check_method_arrived:
  assumes "qMethod q' = qMethod q" "qObjectCode q' = qObjectCode q" "qPathCodes q' = qPathCodes q"
    "qTransfer q' = qTransfer q" "qMessage q' = map_option ResetAllFieldIDs (qMessage q)"
    "qObjectCode q = 0 \<Longrightarrow> TrimSpace (qObjectPath q') = TrimSpace (qObjectPath q)" "qPathCodes q = [] \<Longrightarrow> qPaths q' = qPaths q"
  shows "check_method q' = check_method q"
proof -
  have m: "(case qMessage q' of None \<Rightarrow> True | Some m \<Rightarrow> Fields m = []) = (case qMessage q of None \<Rightarrow> True | Some m \<Rightarrow> Fields m = [])"
    using assms(5) by (simp add: ResetAllFieldIDs_def split: option.split)
  have o: "(TrimSpace (qObjectPath q') = '''' \<and> qObjectCode q' = 0) = (TrimSpace (qObjectPath q) = '''' \<and> qObjectCode q = 0)"
    and d: "(qPaths q' = [] \<and> qPathCodes q' = []) = (qPaths q = [] \<and> qPathCodes q = [])" using assms by auto
  show ?thesis unfolding check_method_def m o d assms(1,4) ..
qed

text \<open>What encoding and decoding make of the selectors of a request.\<close>

lemma request_resolved:
  assumes dev: "NewDevice objs params = Inr d" "schema_ok objs params" and req: "sendable_request req"
    and idx: "safeParamIndex sc' = safeParamIndex sc"
    and valid: "validateUSPAgentRequest re sc (compactRequestSelectors d req) = Inr ()"
  defines "q \<equiv> (compactRequestSelectors d req)\<lparr> qMessage := map_option ResetAllFieldIDs (qMessage req) \<rparr>"
  defines "q' \<equiv> resolveFastRequestPaths d (q\<lparr> qObjectPath := unblank (qObjectPath q) \<rparr>)"
  shows "ok_request q" "same_request req q'" "validateUSPAgentRequest re sc' q' = Inr ()"
proof -
  note rq = req [unfolded sendable_request_def]
  obtain ps cs is' where cp: "compact_paths d (qPaths req) [] [] = (ps, cs, is')" by (metis prod_cases3)
  obtain ob oc oi where co: "compact_object d (qObjectPath req) 0 [] = (ob, oc, oi)" by (metis prod_cases3)
  have "\<forall>p\<in>set (qPaths req). concrete_path p \<and> short_path p" "fits_in 24 (length (qPaths req))"
    and "concrete_path (qObjectPath req) \<and> short_path (qObjectPath req)" using rq by simp_all
  note P = compact_paths_resolved [OF cp dev this(1,2)] and O = compact_object_resolved [OF co dev this(3)]
  have c: "compactRequestSelectors d req = req\<lparr> qPaths := ps, qPathCodes := cs, qPathInstances := is', qObjectPath := ob, qObjectCode := oc, qObjectInstances := oi \<rparr>"
    using rq cp co by (simp add: compactRequestSelectors_def)
  have q: "q = req\<lparr> qPaths := ps, qPathCodes := cs, qPathInstances := is', qObjectPath := ob, qObjectCode := oc, qObjectInstances := oi,
      qMessage := map_option ResetAllFieldIDs (qMessage req) \<rparr>" by (simp add: q_def c)
  have q': "q' = q\<lparr> qPaths := resolve_paths d ps cs is', qObjectPath := resolve_object d (unblank ob) oc oi \<rparr>"
    by (simp add: q'_def q resolveFastRequestPaths_def)
  show "ok_request q" using rq P O by (auto simp: ok_request_def q split: option.splits)
  show "same_request req q'" using rq P(1) O(1) by (simp add: same_request_def q' q)
  have sel: "check_selectors ''request'' ps cs is' ob oc oi = Inr ()" and "qMethod req \<noteq> 0"
    and some: "\<not> (oc = 0 \<and> cs = [] \<and> ps = [] \<and> (qMethod req = USPAgentMethodDelete \<or> qMethod req = USPAgentMethodGetInstances))"
    and msg: "(case qMessage req of None \<Rightarrow> Inr () | Some m \<Rightarrow> ValidateMessageFast re sc m) = Inr ()"
    and tr: "(case qTransfer req of None \<Rightarrow> Inr () | Some t \<Rightarrow> validateTransferRequest sc t) = Inr ()"
    and cm: "check_method (compactRequestSelectors d req) = Inr ()"
    using valid unfolding validateUSPAgentRequest_def c by (auto split: if_splits)
  have "check_selectors ''request'' (resolve_paths d ps cs is') cs is' (resolve_object d (unblank ob) oc oi) oc oi = Inr ()"
    by (rule check_selectors_resolved [OF sel P(1,4) _ O(1)]) (use P(5) rq in auto)
  moreover have "(case qMessage q' of None \<Rightarrow> Inr () | Some m \<Rightarrow> ValidateMessageFast re sc' m) = Inr ()"
    using msg validate_reset [OF _ idx, of re] by (auto simp: q' q split: option.splits)
  moreover have "(case qTransfer q' of None \<Rightarrow> Inr () | Some t \<Rightarrow> validateTransferRequest sc' t) = Inr ()"
    using tr idx by (cases "qTransfer req") (auto simp: q' q validateTransferRequest_def split: if_splits)
  moreover have "check_method q' = check_method (compactRequestSelectors d req)"
    by (rule check_method_arrived) (use O(4) in \<open>auto simp: q' q c resolve_paths_def resolve_object_def unblank_def\<close>)
  ultimately show "validateUSPAgentRequest re sc' q' = Inr ()"
    using \<open>qMethod req \<noteq> 0\<close> some cm unfolding validateUSPAgentRequest_def by (auto simp: q' q resolve_paths_def)
qed


text \<open>A request on the wire and back.\<close>

lemma request_wire:
  assumes "NewDevice objs params = Inr d" and "schema_ok objs params" and "safeParamIndex sc' = safeParamIndex sc"
    and "sendable_request req" and "validateUSPAgentRequest re sc (compactRequestSelectors d req) = Inr ()"
  shows "\<exists>bs req'. EncodeUSPAgentRequest re sc d req = Inr bs \<and> same_request req req' \<and>
    (\<forall>n. DecodeUSPAgentRequest re sc' d (bs @ replicate n 0) = Inr req')"
proof -
  define q where "q = (compactRequestSelectors d req)\<lparr> qMessage := map_option ResetAllFieldIDs (qMessage req) \<rparr>"
  define req' where "req' = resolveFastRequestPaths d (q\<lparr> qObjectPath := unblank (qObjectPath q) \<rparr>)"
  note r = request_resolved [OF assms(1,2,4,3,5), folded q_def, folded req'_def]
  have c: "qMessage (compactRequestSelectors d req) = qMessage req" by (simp add: compactRequestSelectors_def case_prod_unfold Let_def)
  have "\<exists>nested. (case qMessage q of None \<Rightarrow> Inr [] | Some m \<Rightarrow> encodeNestedValidatedMessage sc m) = Inr nested \<and> nested_as sc' (qMessage q) nested (qMessage q)"
  proof (cases "qMessage req")
    case None
    then show ?thesis by (simp add: q_def nested_as_def)
  next
    case (Some m)
    have s: "within_limits (ResetAllFieldIDs m)" "small_message (ResetAllFieldIDs m)"
      using assms(4) Some reset_limits by (auto simp: sendable_request_def)
    have "(ResetAllFieldIDs m)\<lparr> Fields := Fields (ResetAllFieldIDs m) \<rparr> = ResetAllFieldIDs m" by simp
    then show ?thesis using Some nested_wire [OF s, of sc sc'] by (simp add: q_def read_reset)
  qed
  then obtain nested where n: "(case qMessage q of None \<Rightarrow> Inr [] | Some m \<Rightarrow> encodeNestedValidatedMessage sc m) = Inr nested"
    and a: "nested_as sc' (qMessage q) nested (qMessage q)" by blast
  have "EncodeUSPAgentRequest re sc d req = Inr (request_bytes q nested)"
    using assms(5) n by (simp add: EncodeUSPAgentRequest_def Let_def c q_def)
  moreover have "q\<lparr> qObjectPath := unblank (qObjectPath q), qMessage := qMessage q \<rparr> = q\<lparr> qObjectPath := unblank (qObjectPath q) \<rparr>" by simp
  ultimately show ?thesis
    using r(2,3) request_decoded [OF r(1) a, of re d] by (auto simp: Let_def req'_def)
qed

text \<open>
  C11. A valid request with concrete paths is encoded, and the agent that decodes the datagram, padded with zeros or not,
  gets that request: identifier, method, message, transfer and metadata are the same, and every path, also one sent as a
  compact selector, is restored up to letter case and surrounding space. The registries of both sides may differ, since
  the field identifiers are cleared before sending.
\<close>

theorem request_roundtrip:
  assumes "NewDevice objs params = Inr d" and "schema_ok objs params" and "safeParamIndex sc' = safeParamIndex sc"
    and "sendable_request req" and "validateUSPAgentRequest re sc (compactRequestSelectors d req) = Inr ()"
  shows "\<exists>bs req'. EncodeUSPAgentRequest re sc d req = Inr bs \<and> same_request req req' \<and>
    (\<forall>n. DecodeUSPAgentRequest re sc' d (bs @ replicate n 0) = Inr req')"
  by (rule request_wire [OF assms])


section \<open>Responses\<close>

definition ok_response :: "USPAgentResponse \<Rightarrow> bool" where
  "ok_response p \<longleftrightarrow> short (rError p) \<and> ok_strings (rPaths p) \<and> short (rObjectPath p) \<and> ok_selectors (rPathCodes p) (rPathInstances p)
     \<and> ok_words (rObjectInstances p) \<and> (case rTransfer p of None \<Rightarrow> True | Some t \<Rightarrow> ok_result t) \<and> ok_metadata (rMetadata p)
     \<and> (case rSupportedDataModel p of None \<Rightarrow> True | Some m \<Rightarrow> ok_datamodel m) \<and> (case rProtocol p of None \<Rightarrow> True | Some i \<Rightarrow> ok_protocol i)"

lemma selectors_write:
  assumes "ok_selectors cs is" and "ok_words oi" and "b = (cs \<noteq> [] \<or> oc \<noteq> 0 \<or> oi \<noteq> [])"
  defines "w \<equiv> if b then writePathSelectors cs is @ writePathSelector oc oi else []"
  obtains r where "when_flag b ([], []) readPathSelectors (w @ rest) = Inr ((cs, is), r)" "when_flag b (0, []) readPathSelector r = Inr ((oc, oi), rest)"
proof (cases b)
  case True
  with assms selector.read_write [of "(oc, oi)" rest] show ?thesis
    by (intro that [of "writePathSelector oc oi @ rest"]) (simp_all add: when_flag_def readPathSelectors_write)
next
  case False
  with assms show ?thesis by (intro that [of rest]) (simp_all add: when_flag_def ok_selectors_def)
qed

lemma response_decoded:
  assumes "ok_response p" and "nested_as sc (rMessage p) nested m'"
  shows "DecodeUSPAgentResponse sc d (response_bytes p nested @ replicate n 0) =
    (let p' = resolveFastResponsePaths d (p\<lparr> rObjectPath := unblank (rObjectPath p), rMessage := m' \<rparr>)
     in res_bind (validateUSPAgentResponse p') (\<lambda>_. Inr p'))"
proof -
  note ok = assms(1) [unfolded ok_response_def]
  define f where "f = response_flags p"
  note fb = response_flag_bits [of p, folded f_def]
  define w0 where "w0 = writeString (rError p)"
  define w1 where "w1 = (if has_flag 2 f then writeStringList (rPaths p) else [])"
  define w2 where "w2 = (if has_flag 3 f then writeString (rObjectPath p) else [])"
  define w3 where "w3 = (if 0 < length nested then writeBytes nested else [])"
  define w4 where "w4 = (case rTransfer p of None \<Rightarrow> [] | Some t \<Rightarrow> writeTransferResult t)"
  define w5 where "w5 = (if has_flag 4 f then writeMetadata (rMetadata p) else [])"
  define w6 where "w6 = (if has_flag 7 f then writePathSelectors (rPathCodes p) (rPathInstances p) @ writePathSelector (rObjectCode p) (rObjectInstances p) else [])"
  define w7 where "w7 = (case rSupportedDataModel p of None \<Rightarrow> [] | Some m \<Rightarrow> writeSupportedDataModel m)"
  define w8 where "w8 = (case rProtocol p of None \<Rightarrow> [] | Some i \<Rightarrow> writeProtocolInfo i)"
  have b: "response_bytes p nested = writeHeader \<lparr> hVersion = uspTransportVersion, hKind = uspTransportKindResponse, hMethod = rMethod p, hFlags = f, hID = rID p \<rparr>
      @ w0 @ w1 @ w2 @ w3 @ w4 @ w5 @ w6 @ w7 @ w8"
    by (simp add: response_bytes_def Let_def f_def w0_def w1_def w2_def w3_def w4_def w5_def w6_def w7_def w8_def)
  have rd: "tString (w0 @ rest) = Inr (rError p, rest)"
    "when_flag (has_flag 2 f) [] readStringList (w1 @ rest) = Inr (rPaths p, rest)"
    "when_flag (has_flag 3 f) '''' tString (w2 @ rest) = Inr (unblank (rObjectPath p), rest)"
    "when_flag (has_flag 4 f) fmempty readMetadata (w5 @ rest) = Inr (rMetadata p, rest)" for rest
    using ok unfolding fb w0_def w1_def w2_def w5_def
    by (simp_all add: strs.read_write when_flag_def unblank_def str.read_write meta.read_write)
  have nm: "read_nested sc (has_flag 0 f) (w3 @ rest) = Inr (m', rest)" for rest
    unfolding fb w3_def by (rule read_nested_write [OF assms(2)])
  have op: "read_opt (has_flag 1 f) readTransferResult (w4 @ rest) = Inr (rTransfer p, rest)"
    "read_opt (has_flag 5 f) readSupportedDataModel (w7 @ rest) = Inr (rSupportedDataModel p, rest)"
    "read_opt (has_flag 6 f) readProtocolInfo (w8 @ rest) = Inr (rProtocol p, rest)" for rest
    using ok unfolding fb w4_def w7_def w8_def
    by (auto simp: read_opt_def result.read_write datamodel.read_write protocol.read_write split: option.splits)
  have "ok_selectors (rPathCodes p) (rPathInstances p)" "ok_words (rObjectInstances p)" using ok by simp_all
  then obtain r where "when_flag (has_flag 7 f) ([], []) readPathSelectors (w6 @ w7 @ w8 @ replicate n 0) = Inr ((rPathCodes p, rPathInstances p), r)"
    "when_flag (has_flag 7 f) (0, []) readPathSelector r = Inr ((rObjectCode p, rObjectInstances p), w7 @ w8 @ replicate n 0)"
    unfolding w6_def by (rule selectors_write [OF _ _ fb(8)])
  with rd nm op show ?thesis
    unfolding DecodeUSPAgentResponse_def b append_assoc readHeader_write
    by (cases p) (simp add: Let_def)
qed


definition sendable_response :: "USPAgentResponse \<Rightarrow> bool" where
  "sendable_response p \<longleftrightarrow>
     rPathCodes p = [] \<and> rPathInstances p = [] \<and> rObjectCode p = 0 \<and> rObjectInstances p = []
     \<and> (\<forall>x\<in>set (rPaths p). concrete_path x \<and> short_path x) \<and> fits_in 24 (length (rPaths p))
     \<and> concrete_path (rObjectPath p) \<and> short_path (rObjectPath p) \<and> (TrimSpace (rObjectPath p) = '''' \<or> isObjectPath (rObjectPath p))
     \<and> (case rMessage p of None \<Rightarrow> True | Some m \<Rightarrow> within_limits m \<and> small_message m)
     \<and> (case rTransfer p of None \<Rightarrow> True | Some t \<Rightarrow> ok_result t) \<and> ok_metadata (rMetadata p) \<and> short (rError p)
     \<and> (case rSupportedDataModel p of None \<Rightarrow> True | Some m \<Rightarrow> ok_datamodel m) \<and> (case rProtocol p of None \<Rightarrow> True | Some i \<Rightarrow> ok_protocol i)"

definition same_response :: "registry \<Rightarrow> USPAgentResponse \<Rightarrow> USPAgentResponse \<Rightarrow> bool" where
  "same_response reg p p' \<longleftrightarrow>
     rID p' = rID p \<and> rMethod p' = rMethod p \<and> list_all2 same_path (rPaths p') (rPaths p)
     \<and> same_path (rObjectPath p') (unblank (rObjectPath p))
     \<and> rMessage p' = map_option (\<lambda>m. m\<lparr> Fields := read_fields reg True (Fields m) \<rparr>) (rMessage p)
     \<and> rTransfer p' = rTransfer p \<and> rMetadata p' = rMetadata p
     \<and> rSupportedDataModel p' = rSupportedDataModel p \<and> rProtocol p' = rProtocol p \<and> rError p' = rError p"

lemma response_resolved:
  fixes reg :: registry
  assumes dev: "NewDevice objs params = Inr d" "schema_ok objs params" and resp: "sendable_response resp"
    and valid: "validateUSPAgentResponse (compactResponseSelectors d resp) = Inr ()"
  defines "p \<equiv> compactResponseSelectors d resp"
  defines "p' \<equiv> resolveFastResponsePaths d (p\<lparr> rObjectPath := unblank (rObjectPath p),
      rMessage := map_option (\<lambda>m. m\<lparr> Fields := read_fields reg True (Fields m) \<rparr>) (rMessage p) \<rparr>)"
  shows "ok_response p" "rMessage p = rMessage resp" "same_response reg resp p'" "validateUSPAgentResponse p' = Inr ()"
proof -
  note rp = resp [unfolded sendable_response_def]
  obtain ps cs is' where cp: "compact_paths d (rPaths resp) [] [] = (ps, cs, is')" by (metis prod_cases3)
  obtain ob oc oi where co: "compact_object d (rObjectPath resp) 0 [] = (ob, oc, oi)" by (metis prod_cases3)
  have "\<forall>p\<in>set (rPaths resp). concrete_path p \<and> short_path p" "fits_in 24 (length (rPaths resp))"
    and "concrete_path (rObjectPath resp) \<and> short_path (rObjectPath resp)" using rp by simp_all
  note P = compact_paths_resolved [OF cp dev this(1,2)] and O = compact_object_resolved [OF co dev this(3)]
  have c: "p = resp\<lparr> rPaths := ps, rPathCodes := cs, rPathInstances := is', rObjectPath := ob, rObjectCode := oc, rObjectInstances := oi \<rparr>"
    using rp cp co by (simp add: compactResponseSelectors_def p_def)
  have p': "p' = p\<lparr> rPaths := resolve_paths d ps cs is', rObjectPath := resolve_object d (unblank ob) oc oi,
      rMessage := map_option (\<lambda>m. m\<lparr> Fields := read_fields reg True (Fields m) \<rparr>) (rMessage p) \<rparr>"
    by (simp add: p'_def c resolveFastResponsePaths_def)
  show "ok_response p" using rp P(2,3) O(2,3) by (simp add: ok_response_def c)
  show "rMessage p = rMessage resp" by (simp add: c)
  show "same_response reg resp p'" using P(1) O(1) by (simp add: same_response_def p' c)
  have sel: "check_selectors ''response'' ps cs is' ob oc oi = Inr ()" and "rMethod resp \<noteq> 0"
    using valid unfolding validateUSPAgentResponse_def p_def [symmetric] c by (auto split: if_splits)
  have "check_selectors ''response'' (resolve_paths d ps cs is') cs is' (resolve_object d (unblank ob) oc oi) oc oi = Inr ()"
    by (rule check_selectors_resolved [OF sel P(1,4) _ O(1)]) (use P(5) rp in auto)
  then show "validateUSPAgentResponse p' = Inr ()" using \<open>rMethod resp \<noteq> 0\<close> by (simp add: validateUSPAgentResponse_def p' c)
qed

text \<open>A response on the wire and back.\<close>

lemma response_wire:
  assumes "NewDevice objs params = Inr d" and "schema_ok objs params"
    and "sendable_response resp" and "validateUSPAgentResponse (compactResponseSelectors d resp) = Inr ()"
  shows "\<exists>bs resp'. EncodeUSPAgentResponse sc d resp = Inr bs \<and> same_response (globalRegistry sc') resp resp' \<and>
    (\<forall>m. rMessage resp = Some m \<longrightarrow> resolvable (globalRegistry sc') m \<longrightarrow> rMessage resp' = Some m) \<and>
    (\<forall>n. DecodeUSPAgentResponse sc' d (bs @ replicate n 0) = Inr resp')"
proof -
  define p where "p = compactResponseSelectors d resp"
  define resp' where "resp' = resolveFastResponsePaths d (p\<lparr> rObjectPath := unblank (rObjectPath p),
      rMessage := map_option (\<lambda>m. m\<lparr> Fields := read_fields (globalRegistry sc') True (Fields m) \<rparr>) (rMessage p) \<rparr>)"
  note r = response_resolved(1,2) [OF assms, folded p_def]
    response_resolved(3,4) [OF assms, of "globalRegistry sc'", folded p_def, folded resp'_def]
  have "\<exists>nested. (case rMessage p of None \<Rightarrow> Inr [] | Some m \<Rightarrow> encodeNestedValidatedMessage sc m) = Inr nested \<and>
      nested_as sc' (rMessage p) nested (map_option (\<lambda>m. m\<lparr> Fields := read_fields (globalRegistry sc') True (Fields m) \<rparr>) (rMessage p))"
  proof (cases "rMessage resp")
    case None
    then show ?thesis by (simp add: r(2) nested_as_def)
  next
    case (Some m)
    then have "within_limits m" "small_message m" using assms(3) by (auto simp: sendable_response_def)
    from nested_wire [OF this, of sc sc'] show ?thesis by (simp add: r(2) Some)
  qed
  then obtain nested where n: "(case rMessage p of None \<Rightarrow> Inr [] | Some m \<Rightarrow> encodeNestedValidatedMessage sc m) = Inr nested"
    and a: "nested_as sc' (rMessage p) nested (map_option (\<lambda>m. m\<lparr> Fields := read_fields (globalRegistry sc') True (Fields m) \<rparr>) (rMessage p))" by blast
  have "EncodeUSPAgentResponse sc d resp = Inr (response_bytes p nested)"
    using assms(4) n by (simp add: EncodeUSPAgentResponse_def Let_def p_def)
  moreover have "\<forall>m. rMessage resp = Some m \<longrightarrow> resolvable (globalRegistry sc') m \<longrightarrow> rMessage resp' = Some m"
    using r(3) read_own_fields by (auto simp: same_response_def resolvable_def)
  ultimately show ?thesis
    using r(3,4) response_decoded [OF r(1) a, of d] by (auto simp: Let_def resp'_def)
qed

text \<open>
  C15. A valid response with concrete paths is encoded, and the controller that decodes the datagram, padded with zeros
  or not, gets that response: identifier, method, error, transfer result, metadata, data model and protocol are the same, every
  path is restored up to letter case and surrounding space, and the message is the one sent where the receiver's registry
  gives its identifiers the same paths.
\<close>

theorem response_roundtrip:
  assumes "NewDevice objs params = Inr d" and "schema_ok objs params"
    and "sendable_response resp" and "validateUSPAgentResponse (compactResponseSelectors d resp) = Inr ()"
  shows "\<exists>bs resp'. EncodeUSPAgentResponse sc d resp = Inr bs \<and> same_response (globalRegistry sc') resp resp' \<and>
    (\<forall>m. rMessage resp = Some m \<longrightarrow> resolvable (globalRegistry sc') m \<longrightarrow> rMessage resp' = Some m) \<and>
    (\<forall>n. DecodeUSPAgentResponse sc' d (bs @ replicate n 0) = Inr resp')"
  by (rule response_wire [OF assms])

section \<open>The payload limit of a response\<close>

lemma Clone_same: "CloneMetadata m = m"
proof (rule fmap_ext)
  fix k
  have "fmlookup (fold (\<lambda>key out. fmupd key (the (fmlookup m key)) out) ks m0) k = (if k \<in> set ks then Some (the (fmlookup m k)) else fmlookup m0 k)" for ks m0
    by (induction ks arbitrary: m0) auto
  then show "fmlookup (CloneMetadata m) k = fmlookup m k"
    by (cases "fmlookup m k") (auto simp: CloneMetadata_def sorted_keys_def fmlookup_dom_iff)
qed

text \<open>A limit put into the metadata is the one the agent keeps to, as far as it leaves room for a fragment and fits a datagram.\<close>

lemma payload_limit_kept:
  assumes "0 < n" and "n < 2 ^ 63"
  shows "RequestedResponseMaxControlPayload (WithResponseMaxControlPayload m n) fb =
    (if n < 24 then (if fb \<le> 0 then 1200 else fb) else min n 1200)"
proof -
  have i: "itoa n = utoa (nat n)" using assms by (simp add: itoa_def)
  have sp: "\<forall>c\<in>set (utoa (nat n)). \<not> is_space c" using utoa_digits [of "nat n"] by (auto simp: is_digit_def is_space_def)
  then have t: "TrimSpace (utoa (nat n)) = utoa (nat n)" by (rule TrimSpace_none)
  obtain c cs where u: "utoa (nat n) = c # cs" by (cases "utoa (nat n)") auto
  have "c \<noteq> CHR ''-''" "c \<noteq> CHR ''+''" using utoa_digits [of "nat n"] u by (auto simp: is_digit_def code_def)
  moreover have "list_all is_digit (utoa (nat n))" using utoa_digits [of "nat n"] by (simp add: list_all_iff)
  ultimately have "Atoi (utoa (nat n)) = Some n" using assms digits_val_utoa [of "nat n"] u by (simp add: Atoi_def Let_def)
  then show ?thesis using assms u t i
    by (simp add: RequestedResponseMaxControlPayload_def WithResponseMaxControlPayload_def Clone_same frag_consts Let_def min_def)
qed

section \<open>Examples\<close>

definition request_demo :: USPAgentRequest where
  "request_demo = \<lparr> qID = 7, qMethod = USPAgentMethodGet, qPaths = [''dev.if.3.on''], qPathCodes = [], qPathInstances = [], qObjectPath = '''',
     qObjectCode = 0, qObjectInstances = [], qMessage = None, qTransfer = None, qMetadata = fmempty \<rparr>"

definition response_demo :: USPAgentResponse where
  "response_demo = \<lparr> rID = 7, rMethod = USPAgentMethodGet, rPaths = [''dev.if.3.on''], rPathCodes = [], rPathInstances = [], rObjectPath = '''',
     rObjectCode = 0, rObjectInstances = [], rMessage = None, rTransfer = None, rMetadata = fmempty, rSupportedDataModel = None, rProtocol = None,
     rError = ''busy'' \<rparr>"

lemma demo_sendable: "sendable_request request_demo" "sendable_response response_demo"
  using demo_strings(6) by (simp_all add: sendable_request_def sendable_response_def request_demo_def response_demo_def short_path_def fits_in_def
      concrete_path_def concrete_segment_def isNumericPathSegment_def ok_metadata_def sorted_keys_def short_def sorted_list_of_fset.rep_eq)

theorem request_roundtrip_witness:
  "\<exists>d bs req'. NewDevice [] device_demo = Inr d \<and> EncodeUSPAgentRequest (\<lambda>_ _. True) (NewSchema device_demo) d request_demo = Inr bs \<and>
     same_request request_demo req' \<and> DecodeUSPAgentRequest (\<lambda>_ _. True) (NewSchema device_demo) d bs = Inr req'"
proof -
  obtain d where d: "NewDevice [] device_demo = Inr d" "schema_ok [] device_demo"
    "SelectorForPath d ''dev.if.3.on'' = Some \<lparr> Code = EncodePathCode ''dev.if.{i}.on'', Instances = [3] \<rparr>" "EncodePathCode ''dev.if.{i}.on'' \<noteq> 0"
    by (rule device_demo_selector)
  have "validateUSPAgentRequest (\<lambda>_ _. True) (NewSchema device_demo) (compactRequestSelectors d request_demo) = Inr ()"
    using d(3,4) by (simp add: compactRequestSelectors_def compact_paths_def compact_object_def strictResolvedPathSelectors_def request_demo_def
        validateUSPAgentRequest_def check_selectors_def check_method_def method_defs)
  from request_roundtrip [OF d(1,2) refl demo_sendable(1) this] obtain bs req' where
    "EncodeUSPAgentRequest (\<lambda>_ _. True) (NewSchema device_demo) d request_demo = Inr bs" "same_request request_demo req'"
    "\<And>n. DecodeUSPAgentRequest (\<lambda>_ _. True) (NewSchema device_demo) d (bs @ replicate n 0) = Inr req'" by blast
  with this(3) [of 0] d(1) show ?thesis by auto
qed

theorem response_roundtrip_witness:
  "\<exists>d bs resp'. NewDevice [] device_demo = Inr d \<and> EncodeUSPAgentResponse (NewSchema device_demo) d response_demo = Inr bs \<and>
     same_response (globalRegistry (NewSchema device_demo)) response_demo resp' \<and> DecodeUSPAgentResponse (NewSchema device_demo) d bs = Inr resp'"
proof -
  obtain d where d: "NewDevice [] device_demo = Inr d" "schema_ok [] device_demo"
    "SelectorForPath d ''dev.if.3.on'' = Some \<lparr> Code = EncodePathCode ''dev.if.{i}.on'', Instances = [3] \<rparr>" "EncodePathCode ''dev.if.{i}.on'' \<noteq> 0"
    by (rule device_demo_selector)
  have "validateUSPAgentResponse (compactResponseSelectors d response_demo) = Inr ()"
    using d(3,4) by (simp add: compactResponseSelectors_def compact_paths_def compact_object_def strictResolvedPathSelectors_def response_demo_def
        validateUSPAgentResponse_def check_selectors_def method_defs)
  from response_roundtrip [OF d(1,2) demo_sendable(2) this, of "NewSchema device_demo" "NewSchema device_demo"] obtain bs resp' where
    "EncodeUSPAgentResponse (NewSchema device_demo) d response_demo = Inr bs"
    "same_response (globalRegistry (NewSchema device_demo)) response_demo resp'"
    "\<And>n. DecodeUSPAgentResponse (NewSchema device_demo) d (bs @ replicate n 0) = Inr resp'" by blast
  with this(3) [of 0] d(1) show ?thesis by auto
qed

end
