(* ===== verification/Fill.thy ===== *)
theory Fill
  imports Schema Encoding
begin

text \<open>
  The values a schema is filled with, \<open>src/internal/wusp/methods.go\<close>: the sample value of each parameter type in the
  two profiles, the check of every generated value against the schema, and the messages built from them.
  The patterns of the schema compile (\<open>regexp.MustCompile\<close> when the process starts); matching is the argument \<open>re\<close>.
  The parameters of the schema are the argument \<open>ps\<close> (\<open>AllDeviceParams\<close>).
\<close>

unbundle bit_operations_syntax

section \<open>Constructors of values\<close>

definition TypeAlias :: ParamType where "TypeAlias = ''Alias''"
definition TypePathRef :: ParamType where "TypePathRef = ''PathRef''"

type_synonym FillProfile = string

definition FillProfileRealistic :: FillProfile where "FillProfileRealistic = ''realistic''"
definition FillProfileMaxCompressible :: FillProfile where "FillProfileMaxCompressible = ''max-compressible''"

record FillOptions =
  Profile :: FillProfile
  foDeviceID :: string
  foTimestamp :: gotime
  Overwrite :: bool

text \<open>\<open>copy\<close> of a slice into a fresh array of \<open>n\<close> bytes.\<close>

definition copy_into :: "nat \<Rightarrow> byte list \<Rightarrow> byte list" where
  "copy_into n bs = take n (bs @ replicate n 0)"

definition To16 :: "IP \<Rightarrow> IP" where
  "To16 ip = (if length ip = 4 then v4InV6Prefix @ ip else if length ip = 16 then ip else [])"

definition IP4 :: "IP \<Rightarrow> Value" where
  "IP4 v = (if To4 v = [] then Null else blob_value TagIP4 (copy_into 4 (To4 v)))"

definition IP6 :: "IP \<Rightarrow> Value" where
  "IP6 v = (if To16 v = [] then Null else blob_value TagIP6 (copy_into 16 (To16 v)))"

definition IP4Prefix :: "IPNet \<Rightarrow> Value" where
  "IP4Prefix n = blob_value TagIP4Pfx (copy_into 4 (To4 (nIP n)) @ [of_nat (fst (Mask_Size (nMask n)))])"

definition IP6Prefix :: "IPNet \<Rightarrow> Value" where
  "IP6Prefix n = blob_value TagIP6Pfx (copy_into 16 (To16 (nIP n)) @ [of_nat (fst (Mask_Size (nMask n)))])"

definition MAC :: "byte list \<Rightarrow> Value" where
  "MAC v = blob_value TagMAC (copy_into 6 v)"

text \<open>\<open>IP6(net.ParseIP(s))\<close> and the prefixes of \<open>net.ParseCIDR(s)\<close>; the strings below all parse.\<close>

definition ip6_of :: "string \<Rightarrow> Value" where
  "ip6_of s = IP6 (case ParseIP s of None \<Rightarrow> [] | Some ip \<Rightarrow> ip)"

definition net_of :: "string \<Rightarrow> IPNet" where
  "net_of s = (case ParseCIDR s of None \<Rightarrow> \<lparr> nIP = [], nMask = [] \<rparr> | Some (_, n) \<Rightarrow> n)"

definition std_alphabet :: string where
  "std_alphabet = ''ABCDEFGHIJKLMNOPQRSTUVWXYZabcdefghijklmnopqrstuvwxyz0123456789+/''"

definition StdEncoding :: "byte list \<Rightarrow> string" where
  "StdEncoding bs = map (\<lambda>i. std_alphabet ! nat i) (b64_groups bs) @ replicate ((3 - length bs mod 3) mod 3) (CHR ''='')"

text \<open>The bits of \<open>float64(n)\<close>.\<close>

definition float_bits :: "64 word \<Rightarrow> 64 word" where
  "float_bits w =
     (let n = nat \<bar>sint w\<bar>; k = bit_length n;
          m = (if k \<le> 53 then n * 2 ^ (53 - k) else round_even n (2 ^ (k - 53)));
          (m', k') = (if m = 2 ^ 53 then (2 ^ 52, k + 1) else (m, k))
      in if n = 0 then 0
         else (if sint w < 0 then push_bit 63 1 else 0) OR push_bit 52 (of_nat (1022 + k')) OR of_nat (m' - 2 ^ 52))"

section \<open>Strings and bytes\<close>

definition safeIntMax :: "int \<Rightarrow> int \<Rightarrow> int" where
  "safeIntMax a b = (if b < a then a else b)"

definition safeLongestString :: "string list \<Rightarrow> string" where
  "safeLongestString vs = fold (\<lambda>v longest. if length longest < length v then v else longest) vs ''''"

definition safeRepeatedBytes :: "int \<Rightarrow> byte \<Rightarrow> byte list" where
  "safeRepeatedBytes n v = (if n \<le> 0 then [] else replicate (nat n) v)"

definition sanitize_char :: "char \<Rightarrow> char" where
  "sanitize_char c =
     (if 97 \<le> code c \<and> code c \<le> 122 then c
      else if 65 \<le> code c \<and> code c \<le> 90 then char_of (code c + 32)
      else if 48 \<le> code c \<and> code c \<le> 57 then c
      else CHR ''x'')"

definition safeSanitizeSeed :: "string \<Rightarrow> string" where
  "safeSanitizeSeed seed = map sanitize_char seed"

definition safePatternBytes :: "string \<Rightarrow> nat \<Rightarrow> int \<Rightarrow> byte list" where
  "safePatternBytes seed index n =
     (if n \<le> 0 then []
      else
        let base = (if safeSanitizeSeed seed = [] then map byte_of ''wusp'' else map byte_of (safeSanitizeSeed seed)) in
        map (\<lambda>i. base ! ((i + index) mod length base) XOR of_nat ((i * 31 + index) mod 251)) [0..<nat n])"

text \<open>The loop of \<open>safeFitString\<close>: what is still to be written.\<close>

function fit_loop :: "string \<Rightarrow> nat \<Rightarrow> string" where
  "fit_loop base n = (if base = [] then [] else if n = 0 then [] else if length base \<le> n then base @ fit_loop base (n - length base) else take n base)"
  by auto
termination by (relation "measure snd") auto

declare fit_loop.simps [simp del]

definition safeFitString :: "string \<Rightarrow> int \<Rightarrow> string" where
  "safeFitString seed n =
     (if n \<le> 0 then ''''
      else let base = (if seed = '''' then ''wusp'' else seed) in
        if n \<le> int (length base) then take (nat n) base else fit_loop base (nat n))"

definition safeStringWithinLimits :: "Limits \<Rightarrow> string \<Rightarrow> bool" where
  "safeStringWithinLimits limits v =
     (if 0 < MinLength limits \<and> int (length v) < MinLength limits then False
      else if 0 < MaxLength limits \<and> MaxLength limits < int (length v) then False
      else True)"

definition BroadbandRootDataModelVersion :: string where "BroadbandRootDataModelVersion = ''2.20''"

definition pattern_candidates :: "string list" where
  "pattern_candidates =
     [BroadbandRootDataModelVersion, ''2.20.1'', ''1 Firmware Upgrade Image'', ''2 Web Content'', ''3 Vendor Configuration File'',
      ''4 Vendor Log File'', ''X ABCDEF VendorType'', ''00000000-0000-0000-0000-000000000000'', ''ABCDEF'', ''rwxn'', ''host.example'',
      ''https://example.net/'', ''Device.WUSP.Certificate.1.'', ''Device.IP.Interface.1.'', ''Enabled'', ''Success'', ''1'', ''A'']"

definition safePatternCandidateValid :: "(string \<Rightarrow> bool) \<Rightarrow> Limits \<Rightarrow> string \<Rightarrow> bool" where
  "safePatternCandidateValid m limits v \<longleftrightarrow> safeStringWithinLimits limits v \<and> m v"

definition safePatternAwareString :: "(string \<Rightarrow> string \<Rightarrow> bool) \<Rightarrow> Param \<Rightarrow> string \<Rightarrow> string" where
  "safePatternAwareString re p fallback =
     (let pattern = TrimSpace (Pattern (pLimits p)) in
      if pattern = '''' then fallback
      else if safePatternCandidateValid (re pattern) (pLimits p) fallback then fallback
      else case find (\<lambda>c. safeStringWithinLimits (pLimits p) c \<and> re pattern c) pattern_candidates of
             Some c \<Rightarrow> c
           | None \<Rightarrow> fallback)"

definition safeSampleURL :: "string \<Rightarrow> string" where
  "safeSampleURL path =
     (let h = Trim (ToLower (ReplaceAll (safeSanitizeSeed path) ''.'' ''-'')) ''-''; host = (if h = '''' then ''wantastic'' else h)
      in ''https://'' @ host @ ''.example.net/'' @ safeSanitizeSeed path)"

definition safeSamplePathRef :: "string \<Rightarrow> string" where
  "safeSamplePathRef path =
     (if Contains path ''WireGuard'' then ''Device.WireGuard.Peer.1.''
      else if Contains path ''ManagementServer'' then ''Device.ManagementServer.ManageableDevice.1.''
      else if Contains path ''WUSP.ControllerTrust.Role'' \<or> Contains path ''LocalAgent.ControllerTrust.Role'' then ''Device.WUSP.ControllerTrust.Role.1.''
      else if Contains path ''WUSP.Certificate'' \<or> Contains path ''LocalAgent.Certificate'' then ''Device.WUSP.Certificate.1.''
      else ''Device.IP.Interface.1.'')"

definition safeStringLengthTarget :: "Limits \<Rightarrow> int \<Rightarrow> int" where
  "safeStringLengthTarget limits fallback =
     (let t1 = (if 0 < MaxLength limits then MaxLength limits else fallback);
          t2 = (if 0 < MinLength limits \<and> t1 < MinLength limits then MinLength limits else t1)
      in if t2 < 1 then 1 else t2)"

section \<open>Numbers and binary values\<close>

definition safeMaxUnsignedForParam :: "Param \<Rightarrow> nat \<Rightarrow> 64 word" where
  "safeMaxUnsignedForParam p bits = (case LMax (pLimits p) of Some m \<Rightarrow> m | None \<Rightarrow> (if bits = 32 then mask 32 else mask 64))"

definition safeMaxSignedForParam :: "Param \<Rightarrow> nat \<Rightarrow> 64 word" where
  "safeMaxSignedForParam p bits = (case LMax (pLimits p) of Some m \<Rightarrow> m | None \<Rightarrow> (if bits = 32 then mask 31 else mask 63))"

definition safeMaxDecimalForParam :: "Param \<Rightarrow> 64 word" where
  "safeMaxDecimalForParam p =
     (case LMaxF (pLimits p) of
        Some m \<Rightarrow> m
      | None \<Rightarrow> (case LMax (pLimits p) of Some m \<Rightarrow> float_bits m | None \<Rightarrow> 0x412E847FFFFFDE72))"

definition safeMaxBinaryLengthForParam :: "Param \<Rightarrow> int" where
  "safeMaxBinaryLengthForParam p =
     (let l = ToLower (pPath p); m = MaxLength (pLimits p) in
      if pType p = TypeHexBinary \<and> 0 < m then safeIntMax 1 m
      else if pType p = TypeBase64 \<and> 0 < m then safeIntMax 1 m
      else if Contains l ''privatekey'' \<or> Contains l ''publickey'' \<or> Contains l ''presharedkey'' then 32
      else if Contains l ''.instruction'' then 1024
      else if Contains l ''.value'' then 256
      else 128)"

definition safeMaxBinaryValueForParam :: "Param \<Rightarrow> nat \<Rightarrow> byte list" where
  "safeMaxBinaryValueForParam p index = safePatternBytes (pPath p) index (safeMaxBinaryLengthForParam p)"

section \<open>String values\<close>

definition safeMaxStringValueForParam :: "(string \<Rightarrow> string \<Rightarrow> bool) \<Rightarrow> Param \<Rightarrow> nat \<Rightarrow> string" where
  "safeMaxStringValueForParam re p index =
     (let limits = pLimits p; pat = Pattern limits in
      if Enums limits \<noteq> [] then safeLongestString (Enums limits)
      else if pPath p = ''Device.RootDataModelVersion'' then BroadbandRootDataModelVersion
      else if Contains (ToLower (pDescription p)) ''base64-encoded'' then StdEncoding (safeMaxBinaryValueForParam p index)
      else if pType p = TypeAlias then safeFitString (''alias-'' @ safeSanitizeSeed (pPath p)) (safeStringLengthTarget limits 64)
      else if pType p = TypePathRef \<or> Contains (ToLower (pDescription p)) ''pathref''
        then let sample = safeSamplePathRef (pPath p) in safeFitString sample (safeStringLengthTarget limits (int (length sample)))
      else if HasSuffix (pPath p) ''URL'' then safeFitString (safeSampleURL (pPath p)) (safeStringLengthTarget limits 256)
      else if pat = ''^[0-9A-F]{6}$'' \<or> pat = ''[0-9A-F]{6}'' then ''ABCDEF''
      else if pat = ''[r'' @ [CHR 0x5C] @ ''-][w'' @ [CHR 0x5C] @ ''-][x'' @ [CHR 0x5C] @ ''-][n'' @ [CHR 0x5C] @ ''-]'' then ''rwxn''
      else if Contains pat (''^[a-zA-Z0-9'' @ [CHR 0x5C] @ ''-'' @ [CHR 0x5C] @ ''.]*$'')
        then safeFitString (''host-'' @ safeSanitizeSeed (pPath p)) (safeStringLengthTarget limits 96)
      else safePatternAwareString re p (safeFitString (safeSanitizeSeed (pPath p)) (safeStringLengthTarget limits 96)))"

definition safeMaxCompressibleStringValue :: "(string \<Rightarrow> string \<Rightarrow> bool) \<Rightarrow> Param \<Rightarrow> string" where
  "safeMaxCompressibleStringValue re p =
     (let limits = pLimits p; pat = Pattern limits in
      if Enums limits \<noteq> [] then safeLongestString (Enums limits)
      else if pPath p = ''Device.RootDataModelVersion'' then BroadbandRootDataModelVersion
      else if Contains (ToLower (pDescription p)) ''base64-encoded'' then StdEncoding (safeRepeatedBytes (safeMaxBinaryLengthForParam p) 0x41)
      else if pType p = TypeAlias then replicate (nat (safeStringLengthTarget limits 64)) (CHR ''A'')
      else if pType p = TypePathRef \<or> Contains (ToLower (pDescription p)) ''pathref'' then safeSamplePathRef (pPath p)
      else if HasSuffix (pPath p) ''URL'' then safeFitString ''https://aaaaaaaa.example.net/aaaaaaaa'' (safeStringLengthTarget limits 256)
      else if pat = ''^[0-9A-F]{6}$'' \<or> pat = ''[0-9A-F]{6}'' then ''AAAAAA''
      else if pat = ''[r'' @ [CHR 0x5C] @ ''-][w'' @ [CHR 0x5C] @ ''-][x'' @ [CHR 0x5C] @ ''-][n'' @ [CHR 0x5C] @ ''-]'' then ''rwxn''
      else if Contains pat (''^[a-zA-Z0-9'' @ [CHR 0x5C] @ ''-'' @ [CHR 0x5C] @ ''.]*$'')
        then replicate (nat (safeStringLengthTarget limits 96)) (CHR ''a'')
      else safePatternAwareString re p (replicate (nat (safeStringLengthTarget limits 96)) (CHR ''A'')))"

section \<open>List values\<close>

definition pad3 :: "nat \<Rightarrow> string" where
  "pad3 n = replicate (3 - length (utoa n)) (CHR ''0'') @ utoa n"

definition item_target :: "Limits \<Rightarrow> int \<Rightarrow> int" where
  "item_target limits itemCount =
     (if 0 < MaxLength limits then safeIntMax 1 ((MaxLength limits - safeIntMax 0 (itemCount - 1)) div itemCount) else 32)"

definition safeListItemValue :: "(string \<Rightarrow> string \<Rightarrow> bool) \<Rightarrow> Param \<Rightarrow> nat \<Rightarrow> nat \<Rightarrow> int \<Rightarrow> string" where
  "safeListItemValue re p index itemIndex itemCount =
     (if Contains (ToLower (pPath p)) ''allowedips''
      then [''0.0.0.0/0'', ''::/0'', ''10.0.0.0/8'', ''192.168.0.0/16'', ''2001:db8::/32'', ''fd00::/8''] ! (itemIndex mod 6)
      else if Contains (ToLower (pPath p)) ''prefix''
      then [''203.0.113.0/24'', ''198.51.100.0/24'', ''2001:db8::/48'', ''fd00::/64''] ! (itemIndex mod 4)
      else if Contains (ToLower (pDescription p)) ''pathref'' then safeSamplePathRef (pPath p)
      else safePatternAwareString re p
        (safeFitString (safeSanitizeSeed (pPath p) @ ''-'' @ pad3 (index + itemIndex)) (item_target (pLimits p) itemCount)))"

definition safeCompressibleListItemValue :: "(string \<Rightarrow> string \<Rightarrow> bool) \<Rightarrow> Param \<Rightarrow> int \<Rightarrow> string" where
  "safeCompressibleListItemValue re p itemCount =
     (if Contains (ToLower (pPath p)) ''allowedips'' then ''0.0.0.0/0''
      else if Contains (ToLower (pPath p)) ''prefix'' then ''255.255.255.0/24''
      else if Contains (ToLower (pDescription p)) ''pathref'' then safeSamplePathRef (pPath p)
      else safePatternAwareString re p (replicate (nat (item_target (pLimits p) itemCount)) (CHR ''A'')))"

definition enum_count :: "Limits \<Rightarrow> nat" where
  "enum_count limits =
     (if 0 < MaxItems limits \<and> MaxItems limits < int (length (Enums limits)) then nat (MaxItems limits) else length (Enums limits))"

definition list_count :: "Limits \<Rightarrow> int" where
  "list_count limits =
     (let c = (if MaxItems limits = 0
               then (if 65535 \<le> MaxLength limits then 64 else if 1024 \<le> MaxLength limits then 32 else if 256 \<le> MaxLength limits then 12 else 4)
               else MaxItems limits)
      in if c < 1 then 1 else c)"

definition safeMaxListValueForParam :: "(string \<Rightarrow> string \<Rightarrow> bool) \<Rightarrow> Param \<Rightarrow> nat \<Rightarrow> Value" where
  "safeMaxListValueForParam re p index =
     (let limits = pLimits p in
      if Enums limits \<noteq> [] then ListV (map StringV (take (enum_count limits) (Enums limits)))
      else let count = list_count limits in ListV (map (\<lambda>i. StringV (safeListItemValue re p index i count)) [0..<nat count]))"

definition safeMaxCompressibleListValue :: "(string \<Rightarrow> string \<Rightarrow> bool) \<Rightarrow> Param \<Rightarrow> Value" where
  "safeMaxCompressibleListValue re p =
     (let limits = pLimits p in
      if Enums limits \<noteq> [] then ListV (replicate (enum_count limits) (StringV (safeLongestString (Enums limits))))
      else let count = list_count limits in ListV (replicate (nat count) (StringV (safeCompressibleListItemValue re p count))))"

section \<open>Values of parameters\<close>

definition time_value :: "nat \<Rightarrow> Value" where
  "time_value ns = int_value TagTime (word_of_int (253402300799 * second + int ns))"

definition safeRealisticValue :: "(string \<Rightarrow> string \<Rightarrow> bool) \<Rightarrow> Param \<Rightarrow> nat \<Rightarrow> Value" where
  "safeRealisticValue re p index =
     (let t = pType p in
      if t = TypeBoolean then BoolV True
      else if t = TypeUnsignedInt then Uint (safeMaxUnsignedForParam p 32)
      else if t = TypeUnsignedLong \<or> t = TypeStatsCounter then Uint (safeMaxUnsignedForParam p 64)
      else if t = TypeInt then IntV (safeMaxSignedForParam p 32)
      else if t = TypeLong then IntV (safeMaxSignedForParam p 64)
      else if t = TypeDecimal then Float (safeMaxDecimalForParam p)
      else if t = TypeDateTime then time_value (index mod 1000000000)
      else if t = TypeBase64 \<or> t = TypeHexBinary then Bytes (safeMaxBinaryValueForParam p index)
      else if t = TypeIPv4Address then IP4 (v4InV6Prefix @ [255, 255, 255, of_nat (1 + index mod 253)])
      else if t = TypeIPv6Address then ip6_of (''ffff:ffff:ffff:ffff:ffff:ffff:ffff:'' @ utoa16 (1 + index mod 65534))
      else if t = TypeIPv4Prefix then IP4Prefix (net_of (''203.'' @ utoa (index mod 255) @ ''.'' @ utoa (index * 7 mod 255) @ ''.0/24''))
      else if t = TypeIPv6Prefix then IP6Prefix (net_of (''2001:db8:'' @ utoa16 (index mod 65535) @ '':'' @ utoa16 (index * 11 mod 65535) @ ''::/64''))
      else if t = TypeMACAddress then MAC [0x02, of_nat (index div 65536), of_nat (index div 256), of_nat index, 0xAA, 0xBB]
      else if t = TypeList then safeMaxListValueForParam re p index
      else StringV (safeMaxStringValueForParam re p index))"

definition safeMaxCompressibleValue :: "(string \<Rightarrow> string \<Rightarrow> bool) \<Rightarrow> Param \<Rightarrow> Value" where
  "safeMaxCompressibleValue re p =
     (let t = pType p in
      if t = TypeBoolean then BoolV True
      else if t = TypeUnsignedInt then Uint (safeMaxUnsignedForParam p 32)
      else if t = TypeUnsignedLong \<or> t = TypeStatsCounter then Uint (safeMaxUnsignedForParam p 64)
      else if t = TypeInt then IntV (safeMaxSignedForParam p 32)
      else if t = TypeLong then IntV (safeMaxSignedForParam p 64)
      else if t = TypeDecimal then Float (safeMaxDecimalForParam p)
      else if t = TypeDateTime then time_value 0
      else if t = TypeBase64 then Bytes (safeRepeatedBytes (safeMaxBinaryLengthForParam p) 0x41)
      else if t = TypeHexBinary then Bytes (safeRepeatedBytes (safeMaxBinaryLengthForParam p) 0x42)
      else if t = TypeIPv4Address then IP4 (v4InV6Prefix @ [255, 255, 255, 255])
      else if t = TypeIPv6Address then ip6_of ''ffff:ffff:ffff:ffff:ffff:ffff:ffff:ffff''
      else if t = TypeIPv4Prefix then IP4Prefix (net_of ''255.255.255.0/24'')
      else if t = TypeIPv6Prefix then IP6Prefix (net_of ''ffff:ffff:ffff:ffff::/64'')
      else if t = TypeMACAddress then MAC [0xAA, 0xAA, 0xAA, 0xAA, 0xAA, 0xAA]
      else if t = TypeList then safeMaxCompressibleListValue re p
      else StringV (safeMaxCompressibleStringValue re p))"

definition normalizeFillProfile :: "FillProfile \<Rightarrow> FillProfile" where
  "normalizeFillProfile profile =
     (if profile = '''' \<or> profile = FillProfileRealistic then FillProfileRealistic
      else if profile = FillProfileMaxCompressible then FillProfileMaxCompressible
      else FillProfileRealistic)"

definition safeFilledValueForParam :: "(string \<Rightarrow> string \<Rightarrow> bool) \<Rightarrow> schema \<Rightarrow> Param \<Rightarrow> nat \<Rightarrow> FillProfile \<Rightarrow> Value" where
  "safeFilledValueForParam re sc p index profile =
     (let v = (if profile = FillProfileMaxCompressible then safeMaxCompressibleValue re p else safeRealisticValue re p index) in
      case ValidateFieldFast re sc \<lparr> field_id = 0, Path = pPath p, Val = v \<rparr> of Inl _ \<Rightarrow> Null | Inr _ \<Rightarrow> v)"

definition FilledValueForPath :: "(string \<Rightarrow> string \<Rightarrow> bool) \<Rightarrow> schema \<Rightarrow> string \<Rightarrow> FillProfile \<Rightarrow> usp_error + Value" where
  "FilledValueForPath re sc path profile =
     (case lookupSafeParam (safeParamIndex sc) path of
        (None, _) \<Rightarrow> Inl (TValidation path ''unknown parameter path'')
      | (Some info, _) \<Rightarrow> Inr (safeFilledValueForParam re sc (si_param info) (si_index info) (normalizeFillProfile profile)))"

section \<open>Filled messages\<close>

fun fill_fields :: "(string \<Rightarrow> string \<Rightarrow> bool) \<Rightarrow> schema \<Rightarrow> FillProfile \<Rightarrow> nat \<Rightarrow> Param list \<Rightarrow> usp_error + Field list" where
  "fill_fields re sc profile i [] = Inr []"
| "fill_fields re sc profile i (p # ps) =
     (let (fid, ok) = IDFor (globalRegistry sc) (pPath p) in
      if \<not> ok \<or> fid = 0 then Inl (TMissing (pPath p))
      else res_bind (fill_fields re sc profile (Suc i) ps) (\<lambda>fs.
        Inr (\<lparr> field_id = fid, Path = pPath p, Val = safeFilledValueForParam re sc p i profile \<rparr> # fs)))"

definition BuildFilledMessage :: "(string \<Rightarrow> string \<Rightarrow> bool) \<Rightarrow> schema \<Rightarrow> Param list \<Rightarrow> FillOptions \<Rightarrow> usp_error + Message" where
  "BuildFilledMessage re sc ps opts =
     res_bind (fill_fields re sc (normalizeFillProfile (Profile opts)) 0 ps) (\<lambda>fs.
       let m = \<lparr> DeviceID = foDeviceID opts, Timestamp = foTimestamp opts, Fields = fs \<rparr> in
       res_bind (ValidateMessageFast re sc m) (\<lambda>_. Inr m))"

text \<open>\<open>existing\<close> has the last index of every path of the message; it is not extended by the loop.\<close>

fun fill_missing :: "(string \<Rightarrow> string \<Rightarrow> bool) \<Rightarrow> schema \<Rightarrow> FillProfile \<Rightarrow> bool \<Rightarrow> (string \<rightharpoonup> nat) \<Rightarrow> nat \<Rightarrow> Param list \<Rightarrow> Field list \<Rightarrow> Field list" where
  "fill_missing re sc profile overwrite existing i [] fs = fs"
| "fill_missing re sc profile overwrite existing i (p # ps) fs =
     (let f = \<lparr> field_id = fst (IDFor (globalRegistry sc) (pPath p)), Path = pPath p, Val = safeFilledValueForParam re sc p i profile \<rparr> in
      fill_missing re sc profile overwrite existing (Suc i) ps
        (case existing (pPath p) of
           Some idx \<Rightarrow> (if overwrite then fs[idx := f] else fs)
         | None \<Rightarrow> fs @ [f]))"

definition FillMessageValues :: "(string \<Rightarrow> string \<Rightarrow> bool) \<Rightarrow> schema \<Rightarrow> Param list \<Rightarrow> FillOptions \<Rightarrow> Message \<Rightarrow> Message \<times> (usp_error + unit)" where
  "FillMessageValues re sc ps opts m =
     (let existing = fold (\<lambda>(i, f) e. e(Path f \<mapsto> i)) (enumerate 0 (Fields m)) Map.empty;
          m' = \<lparr> DeviceID = (if foDeviceID opts \<noteq> '''' then foDeviceID opts else DeviceID m),
                 Timestamp = (if \<not> IsZero (foTimestamp opts) then foTimestamp opts else Timestamp m),
                 Fields = fill_missing re sc (normalizeFillProfile (Profile opts)) (Overwrite opts) existing 0 ps (Fields m) \<rparr>
      in (m', ValidateMessageFast re sc m'))"

section \<open>Filled values are valid\<close>

lemma index_present:
  assumes "p \<in> set ps"
  shows "\<exists>info. buildSafeParamIndex ps (pPath p) = Some info"
proof -
  have "m0 q \<noteq> None \<Longrightarrow> fold (\<lambda>(i, p) m. m(pPath p \<mapsto> safe_info i p)) (enumerate k xs) m0 q \<noteq> None" for xs k m0 q
    by (induction xs arbitrary: k m0) auto
  then have "p \<in> set xs \<Longrightarrow> fold (\<lambda>(i, p) m. m(pPath p \<mapsto> safe_info i p)) (enumerate k xs) m0 (pPath p) \<noteq> None" for xs k m0
    by (induction xs arbitrary: k m0) auto
  from this [OF assms] show ?thesis by (auto simp: buildSafeParamIndex_def)
qed

lemma filled_field_valid:
  assumes "safeParamIndex sc (pPath p) = Some info" and "fid = 0 \<or> IDFor (globalRegistry sc) (pPath p) = (fid, True)"
  shows "ValidateFieldFast re sc \<lparr> field_id = fid, Path = pPath p, Val = safeFilledValueForParam re sc p i profile \<rparr> = Inr ()"
proof -
  have l: "lookupSafeParam (safeParamIndex sc) (pPath p) = (Some info, pPath p)" using assms(1) by (simp add: lookupSafeParam_def)
  have "ValidateFieldFast re sc \<lparr> field_id = 0, Path = pPath p, Val = safeFilledValueForParam re sc p i profile \<rparr> = Inr ()"
    by (cases "ValidateFieldFast re sc \<lparr> field_id = 0, Path = pPath p,
        Val = if profile = FillProfileMaxCompressible then safeMaxCompressibleValue re p else safeRealisticValue re p i \<rparr>")
       (auto simp: safeFilledValueForParam_def Let_def l ValidateFieldFast_def Null_def)
  then show ?thesis using assms(2) l by (auto simp: ValidateFieldFast_def)
qed

lemma fill_fields_ok:
  assumes "\<forall>p\<in>set qs. \<exists>fid. IDFor (globalRegistry sc) (pPath p) = (fid, True) \<and> fid \<noteq> 0"
  shows "\<exists>fs. fill_fields re sc profile i qs = Inr fs \<and> map Path fs = map pPath qs \<and>
    (\<forall>f\<in>set fs. \<exists>p\<in>set qs. \<exists>j fid. IDFor (globalRegistry sc) (pPath p) = (fid, True) \<and> fid \<noteq> 0 \<and>
       f = \<lparr> field_id = fid, Path = pPath p, Val = safeFilledValueForParam re sc p j profile \<rparr>)"
  using assms
proof (induction qs arbitrary: i)
  case (Cons p qs)
  obtain fs where "fill_fields re sc profile (Suc i) qs = Inr fs" "map Path fs = map pPath qs"
    "\<forall>f\<in>set fs. \<exists>p\<in>set qs. \<exists>j fid. IDFor (globalRegistry sc) (pPath p) = (fid, True) \<and> fid \<noteq> 0 \<and>
       f = \<lparr> field_id = fid, Path = pPath p, Val = safeFilledValueForParam re sc p j profile \<rparr>"
    using Cons.IH [of "Suc i"] Cons.prems by auto
  then show ?case using Cons.prems by auto
qed simp

lemma validate_fields_all:
  assumes "\<forall>f\<in>set fs. Path f \<noteq> '''' \<and> Path f \<notin> set seen \<and> ValidateFieldFast re sc f = Inr ()" and "distinct (map Path fs)"
  shows "validate_fields re sc seen fs = Inr ()"
  using assms
proof (induction fs arbitrary: seen)
  case (Cons f fs)
  have "validate_fields re sc (Path f # seen) fs = Inr ()" using Cons.prems by (intro Cons.IH) (auto intro: rev_image_eqI)
  then show ?case using Cons.prems by simp
qed simp

definition fillable :: "Param list \<Rightarrow> bool" where
  "fillable ps \<longleftrightarrow> distinct (map pPath ps) \<and> length ps < 2 ^ 16 \<and> (\<forall>p\<in>set ps. pPath p \<noteq> '''')"

lemma filled_valid:
  assumes "fillable ps"
  shows "\<exists>m. BuildFilledMessage re (NewSchema ps) ps opts = Inr m \<and> map Path (Fields m) = map pPath ps \<and>
    ValidateMessageFast re (NewSchema ps) m = Inr () \<and> resolvable (buildRegistry (map pPath ps)) m"
proof -
  let ?sc = "NewSchema ps" and ?reg = "buildRegistry (map pPath ps)"
  have reg: "globalRegistry ?sc = ?reg" by (simp add: NewSchema_def)
  have pres: "\<exists>fid. IDFor ?reg (pPath p) = (fid, True) \<and> fid \<noteq> 0 \<and> PathForID ?reg fid = Some (pPath p)" if "p \<in> set ps" for p
  proof -
    have "distinct (map pPath ps)" "length (map pPath ps) < 2 ^ 16" "pPath p \<in> set (map pPath ps)" using assms that by (auto simp: fillable_def)
    then obtain i where "IDFor ?reg (pPath p) = (i, True)" "i \<noteq> 0" "PathForID ?reg i = Some (pPath p)" by (rule IDFor_present)
    then show ?thesis by blast
  qed
  then have "\<forall>p\<in>set ps. \<exists>fid. IDFor (globalRegistry ?sc) (pPath p) = (fid, True) \<and> fid \<noteq> 0" unfolding reg by blast
  from fill_fields_ok [OF this, of re "normalizeFillProfile (Profile opts)" 0] obtain fs where
    fs: "fill_fields re ?sc (normalizeFillProfile (Profile opts)) 0 ps = Inr fs" "map Path fs = map pPath ps" and
    each: "\<forall>f\<in>set fs. \<exists>p\<in>set ps. \<exists>j fid. IDFor ?reg (pPath p) = (fid, True) \<and> fid \<noteq> 0 \<and>
       f = \<lparr> field_id = fid, Path = pPath p, Val = safeFilledValueForParam re ?sc p j (normalizeFillProfile (Profile opts)) \<rparr>"
    unfolding reg by blast
  have "Path f \<noteq> '''' \<and> ValidateFieldFast re ?sc f = Inr () \<and> PathForID ?reg (field_id f) = Some (Path f)" if m: "f \<in> set fs" for f
  proof -
    obtain p j fid where f: "p \<in> set ps" "IDFor ?reg (pPath p) = (fid, True)"
      "f = \<lparr> field_id = fid, Path = pPath p, Val = safeFilledValueForParam re ?sc p j (normalizeFillProfile (Profile opts)) \<rparr>"
      using bspec [OF each m] by (elim bexE exE conjE)
    obtain info where "safeParamIndex ?sc (pPath p) = Some info" using index_present [OF f(1)] by (auto simp: NewSchema_def)
    then have "ValidateFieldFast re ?sc f = Inr ()" unfolding f(3) by (rule filled_field_valid) (simp add: f(2) reg)
    moreover have "PathForID ?reg fid = Some (pPath p)" using pres [OF f(1)] f(2) by auto
    moreover have "pPath p \<noteq> ''''" using assms f(1) by (simp add: fillable_def)
    ultimately show ?thesis by (simp add: f(3))
  qed
  moreover have "distinct (map Path fs)" using assms fs(2) by (simp add: fillable_def)
  ultimately have "validate_fields re ?sc [] fs = Inr ()" "\<forall>f\<in>set fs. PathForID ?reg (field_id f) = Some (Path f)"
    by (auto intro: validate_fields_all)
  then show ?thesis using fs by (simp add: BuildFilledMessage_def Let_def ValidateMessageFast_def resolvable_def)
qed

text \<open>
  For every schema with distinct non-empty paths and either profile the agent is started with a value for every
  parameter: the message is built, carries exactly the parameters of the schema in its order under their registry
  identifiers, and passes the validation of the schema.
\<close>

theorem filled_message:
  assumes "fillable ps"
  shows "\<exists>m. BuildFilledMessage re (NewSchema ps) ps opts = Inr m \<and> map Path (Fields m) = map pPath ps \<and>
    ValidateMessageFast re (NewSchema ps) m = Inr () \<and> resolvable (buildRegistry (map pPath ps)) m"
  by (rule filled_valid [OF assms])

theorem filled_message_witness:
  "\<exists>m. BuildFilledMessage (\<lambda>_ _. True) (NewSchema schema_demo) schema_demo
      \<lparr> Profile = '''', foDeviceID = ''dev'', foTimestamp = 0, Overwrite = False \<rparr> = Inr m \<and> map Path (Fields m) = [''Device.Up'']"
  using filled_message [of schema_demo "\<lambda>_ _. True" "\<lparr> Profile = '''', foDeviceID = ''dev'', foTimestamp = 0, Overwrite = False \<rparr>"]
  by (auto simp: fillable_def schema_demo_def)

text \<open>Without \<open>Overwrite\<close> the fields of a message stay as they are and the missing parameters follow in the order of the schema.\<close>

lemma existing_index:
  "fold (\<lambda>(i, f) e. e(Path f \<mapsto> i)) (enumerate k fs) e0 q = None \<longleftrightarrow> q \<notin> set (map Path fs) \<and> e0 q = None"
  by (induction fs arbitrary: k e0) auto

lemma fill_missing_appends:
  "\<exists>new. fill_missing re sc profile False existing i ps fs = fs @ new \<and>
     map Path new = filter (\<lambda>p. existing p = None) (map pPath ps)"
proof (induction ps arbitrary: i fs)
  case (Cons p ps)
  show ?case
  proof (cases "existing (pPath p)")
    case None
    let ?f = "\<lparr> field_id = fst (IDFor (globalRegistry sc) (pPath p)), Path = pPath p, Val = safeFilledValueForParam re sc p i profile \<rparr>"
    obtain new where "fill_missing re sc profile False existing (Suc i) ps (fs @ [?f]) = (fs @ [?f]) @ new"
      "map Path new = filter (\<lambda>p. existing p = None) (map pPath ps)" using Cons by blast
    then show ?thesis using None by (intro exI [of _ "?f # new"]) (simp add: Let_def)
  next
    case (Some idx)
    then show ?thesis using Cons [of "Suc i" fs] by (simp add: Let_def)
  qed
qed simp

lemma fill_keeps_fields:
  assumes "\<not> Overwrite opts"
  shows "\<exists>new. Fields (fst (FillMessageValues re sc ps opts m)) = Fields m @ new \<and>
    map Path new = filter (\<lambda>p. p \<notin> set (map Path (Fields m))) (map pPath ps)"
proof -
  let ?e = "fold (\<lambda>(i, f) e. e(Path f \<mapsto> i)) (enumerate 0 (Fields m)) Map.empty"
  have "(\<lambda>p. ?e p = None) = (\<lambda>p. p \<notin> set (map Path (Fields m)))" by (rule ext) (subst existing_index, simp)
  then show ?thesis
    using fill_missing_appends [of re sc "normalizeFillProfile (Profile opts)" ?e 0 ps "Fields m"] assms
    by (simp add: FillMessageValues_def Let_def)
qed

end
