(* ===== verification/Agent.thy ===== *)
theory Agent
  imports Transport Fill
begin

text \<open>
  The agent of a device, \<open>src/internal/wusp/usp_agent.go\<close>, and \<open>HandleRequest\<close> of \<open>usp_transport.go\<close>: the store of
  parameter values and the operations get, set, add, delete, instances, operate, notify, supported model, supported protocol and
  transfers. The store is a finite map from paths to fields; loops over it take the keys in order, where the code takes them in
  any order and sorts what it returns. The handlers, the collector and the setter are interfaces of the caller: functions on a state
  \<open>world\<close> of theirs, kept in the agent. What the process knows of the schema is the record \<open>env\<close>.
  A deep copy (\<open>cloneValue\<close> and so on) rebuilds the value. The texts of errors are the argument \<open>msg\<close> of \<open>HandleRequest\<close>.
\<close>

unbundle bit_operations_syntax

section \<open>State\<close>

datatype agent_error =
    EUsp usp_error
  | EPathNotFound string
  | EPathUnsupported
  | ETransferUnsupported
  | EHandler string

abbreviation invalid :: "string \<Rightarrow> string \<Rightarrow> agent_error" where
  "invalid path reason \<equiv> EUsp (TValidation path reason)"

type_synonym metadata = "(string, string) fmap"
type_synonym store = "(string, Field) fmap"

record 'w DataSetter =
  setter_Set :: "'w \<Rightarrow> string \<Rightarrow> Value \<Rightarrow> 'w \<times> agent_error option"
  setter_Delete :: "'w \<Rightarrow> string list \<Rightarrow> 'w \<times> agent_error option"

record 'w USPAgent =
  fillProfile :: FillProfile
  uploadHandler :: "('w \<Rightarrow> USPTransferRequest \<Rightarrow> 'w \<times> (agent_error + USPTransferResult)) option"
  downloadHandler :: "('w \<Rightarrow> USPTransferRequest \<Rightarrow> 'w \<times> (agent_error + USPTransferResult)) option"
  operateHandler :: "('w \<Rightarrow> string \<Rightarrow> Message option \<Rightarrow> metadata \<Rightarrow> 'w \<times> (agent_error + Message option)) option"
  notifyHandler :: "('w \<Rightarrow> string \<Rightarrow> Message option \<Rightarrow> metadata \<Rightarrow> 'w \<times> agent_error option) option"
  collector :: "('w \<Rightarrow> string list \<Rightarrow> 'w \<times> (agent_error + Message option)) option"
  setter :: "'w DataSetter option"
  avalues :: store
  world :: 'w

record env =
  env_re :: "string \<Rightarrow> string \<Rightarrow> bool"
  env_schema :: schema
  AllDeviceObjects :: "Object list"
  AllDeviceParams :: "Param list"
  runtimeDevice :: Device
  BroadbandDataModels :: "BroadbandDataModel list"

section \<open>Copies\<close>

fun cloneValue :: "Value \<Rightarrow> Value" where
  "cloneValue (Value t i f b l) = Value t i f b (map cloneValue l)"

definition cloneField :: "Field \<Rightarrow> Field" where
  "cloneField f = \<lparr> field_id = field_id f, Path = Path f, Val = cloneValue (Val f) \<rparr>"

definition cloneMessage :: "Message option \<Rightarrow> Message option" where
  "cloneMessage m = map_option (\<lambda>m. \<lparr> DeviceID = DeviceID m, Timestamp = Timestamp m, Fields = map cloneField (Fields m) \<rparr>) m"

definition cloneTransferRequest :: "USPTransferRequest \<Rightarrow> USPTransferRequest" where
  "cloneTransferRequest t = t\<lparr> tMetadata := CloneMetadata (tMetadata t) \<rparr>"

section \<open>The store\<close>

definition keys_of :: "store \<Rightarrow> string list" where
  "keys_of vs = sorted_list_of_fset (fmdom vs)"

definition stored :: "store \<Rightarrow> string \<Rightarrow> Field" where
  "stored vs k = the (fmlookup vs k)"

definition sortedStoredFields :: "store \<Rightarrow> Field list" where
  "sortedStoredFields vs = sort_key Path (map (stored vs) (keys_of vs))"

definition fields_message :: "Field list \<Rightarrow> Message" where
  "fields_message fs = \<lparr> DeviceID = '''', Timestamp = 0, Fields = fs \<rparr>"

definition buildSnapshotMessage :: "store \<Rightarrow> Message" where
  "buildSnapshotMessage vs = fields_message (map cloneField (sortedStoredFields vs))"

definition snapshotValues :: "'w USPAgent \<Rightarrow> store" where
  "snapshotValues a = fold (\<lambda>k vs. fmupd k (cloneField (stored (avalues a) k)) vs) (keys_of (avalues a)) fmempty"

definition snapshotFromStore :: "'w USPAgent \<Rightarrow> Message" where
  "snapshotFromStore a = fields_message (sort_key Path (map (cloneField \<circ> stored (avalues a)) (keys_of (avalues a))))"

definition mergeMessageFields :: "store \<Rightarrow> Message option \<Rightarrow> store" where
  "mergeMessageFields vs m =
     (case m of None \<Rightarrow> vs | Some m \<Rightarrow> fold (\<lambda>f vs. fmupd (Path f) (cloneField f) vs) (Fields m) vs)"

text \<open>The loop of \<open>getStored\<close>: the keys seen and the fields collected.\<close>

fun get_loop :: "store \<Rightarrow> string list \<Rightarrow> Field list \<Rightarrow> string list \<Rightarrow> agent_error + Field list" where
  "get_loop vs seen out [] = Inr out"
| "get_loop vs seen out (p # ps) =
     (let path = TrimSpace p in
      if path = '''' then Inl (invalid '''' ''empty get path'')
      else if isObjectPath path then
        (let new = filter (\<lambda>k. HasPrefix k path \<and> k \<notin> set seen) (keys_of vs) in
         if new = [] then Inl (EPathNotFound path)
         else get_loop vs (new @ seen) (out @ map (cloneField \<circ> stored vs) new) ps)
      else case fmlookup vs path of
             None \<Rightarrow> Inl (EPathNotFound path)
           | Some f \<Rightarrow> (if path \<in> set seen then get_loop vs seen out ps
                        else get_loop vs (path # seen) (out @ [cloneField f]) ps))"

definition getStored :: "'w USPAgent \<Rightarrow> string list \<Rightarrow> agent_error + Message" where
  "getStored a paths =
     (if paths = [] then Inr (snapshotFromStore a)
      else res_bind (get_loop (avalues a) [] [] paths) (\<lambda>fs. Inr (fields_message (sort_key Path fs))))"

text \<open>The loops of \<open>filterValuesForPaths\<close>, which go by the paths of the fields.\<close>

fun fresh_fields :: "string \<Rightarrow> string list \<Rightarrow> Field list \<Rightarrow> Field list" where
  "fresh_fields path seen [] = []"
| "fresh_fields path seen (f # fs) =
     (if HasPrefix (Path f) path \<and> Path f \<notin> set seen then f # fresh_fields path (Path f # seen) fs else fresh_fields path seen fs)"

fun filter_loop :: "store \<Rightarrow> string list \<Rightarrow> Field list \<Rightarrow> string list \<Rightarrow> agent_error + Field list" where
  "filter_loop vs seen out [] = Inr out"
| "filter_loop vs seen out (p # ps) =
     (let path = TrimSpace p in
      if path = '''' then Inl (invalid '''' ''empty get path'')
      else if isObjectPath path then
        (let new = fresh_fields path seen (sortedStoredFields vs) in
         if new = [] then Inl (EPathNotFound path)
         else filter_loop vs (map Path new @ seen) (out @ map cloneField new) ps)
      else case fmlookup vs path of
             None \<Rightarrow> Inl (EPathNotFound path)
           | Some f \<Rightarrow> (if path \<in> set seen then filter_loop vs seen out ps
                        else filter_loop vs (path # seen) (out @ [cloneField f]) ps))"

definition filterValuesForPaths :: "store \<Rightarrow> string list \<Rightarrow> agent_error + Message" where
  "filterValuesForPaths vs paths = res_bind (filter_loop vs [] [] paths) (\<lambda>fs. Inr (fields_message (sort_key Path fs)))"

definition deletePathLocked :: "store \<Rightarrow> string \<Rightarrow> store \<times> bool" where
  "deletePathLocked vs path =
     (if isObjectPath path then
        (let gone = filter (\<lambda>k. HasPrefix k path) (keys_of vs) in (fold fmdrop gone vs, gone \<noteq> []))
      else if fmlookup vs path = None then (vs, False)
      else (fmdrop path vs, True))"

definition hasFieldsWithPrefix :: "store \<Rightarrow> string \<Rightarrow> bool" where
  "hasFieldsWithPrefix vs prefix \<longleftrightarrow> list_ex (\<lambda>k. HasPrefix k prefix) (keys_of vs)"

section \<open>Object paths\<close>

definition splitObjectParts :: "string \<Rightarrow> string list" where
  "splitObjectParts path = Split (TrimSuffix (TrimSpace path) ''.'') (CHR ''.'')"

definition lookupObjectDefinition :: "env \<Rightarrow> string \<Rightarrow> Object option \<times> string" where
  "lookupObjectDefinition e path =
     (let canonical = canonicalParamPath (TrimSpace path) in (find (\<lambda>ob. oPath ob = canonical) (AllDeviceObjects e), canonical))"

fun match_parts :: "string list \<Rightarrow> string list \<Rightarrow> bool" where
  "match_parts (ob # obs) (f # fs) \<longleftrightarrow> (ob = ''{i}'' \<and> isNumericPathSegment f \<or> ob = f) \<and> match_parts obs fs"
| "match_parts _ _ \<longleftrightarrow> True"

definition extractActualObjectPath :: "string \<Rightarrow> string \<Rightarrow> string option" where
  "extractActualObjectPath canonicalObjectPath fieldPath =
     (let objectParts = splitObjectParts canonicalObjectPath; fieldParts = Split (TrimSpace fieldPath) (CHR ''.'') in
      if length fieldParts < length objectParts + 1 then None
      else if match_parts objectParts fieldParts then Some (Join (take (length objectParts) fieldParts) ''.'' @ ''.'')
      else None)"

definition instancePathsForObject :: "store \<Rightarrow> string \<Rightarrow> string list" where
  "instancePathsForObject vs canonical = sort (remdups (List.map_filter (extractActualObjectPath canonical) (keys_of vs)))"

text \<open>\<open>fmt.Sscanf(part, "%d", &value)\<close> for a string of digits: an error when the number exceeds 63 bits.\<close>

fun instance_at :: "string list \<Rightarrow> nat \<Rightarrow> int option" where
  "instance_at [] ordinal = None"
| "instance_at (part # parts) ordinal =
     (if \<not> isNumericPathSegment part then instance_at parts ordinal
      else case ordinal of
             0 \<Rightarrow> (if digits_val part < 2 ^ 63 then Some (int (digits_val part)) else None)
           | Suc n \<Rightarrow> instance_at parts n)"

definition parseObjectInstanceAt :: "string \<Rightarrow> nat \<Rightarrow> int option" where
  "parseObjectInstanceAt objectPath ordinal = instance_at (splitObjectParts objectPath) ordinal"

text \<open>The first loop of \<open>nextObjectInstance\<close>: the values of the instance tokens and the position of the open one.\<close>

fun request_instances :: "string \<Rightarrow> string list \<Rightarrow> string list \<Rightarrow> string list \<Rightarrow> nat option \<Rightarrow> agent_error + (string list \<times> nat option)" where
  "request_instances rp (t # ts) (r # rs) vals unresolved =
     (if t = ''{i}'' then
        (if r = ''{i}'' then
           (if unresolved \<noteq> None then Inl (invalid rp ''only the final instance token may be unresolved'')
            else request_instances rp ts rs (vals @ ['''']) (Some (length vals)))
         else if isNumericPathSegment r then request_instances rp ts rs (vals @ [r]) unresolved
         else Inl (invalid rp ''instance segments must be numeric or {i}''))
      else if t \<noteq> r then Inl (invalid rp ''object path does not match schema'')
      else request_instances rp ts rs vals unresolved)"
| "request_instances rp _ _ vals unresolved = Inr (vals, unresolved)"

text \<open>Whether the instance values of a stored path are the requested ones, the open one apart.\<close>

fun same_parent :: "string list \<Rightarrow> string list \<Rightarrow> string list \<Rightarrow> nat \<Rightarrow> nat \<Rightarrow> bool" where
  "same_parent (t # ts) (p # ps) vals unresolved idx =
     (if t \<noteq> ''{i}'' then same_parent ts ps vals unresolved idx
      else if idx = unresolved then same_parent ts ps vals unresolved (Suc idx)
      else if vals ! idx \<noteq> p then False
      else same_parent ts ps vals unresolved (Suc idx))"
| "same_parent _ _ vals unresolved idx = True"

definition instance_of_key :: "string \<Rightarrow> string list \<Rightarrow> string list \<Rightarrow> nat \<Rightarrow> string \<Rightarrow> int option" where
  "instance_of_key canonical templateParts vals unresolved key =
     (case extractActualObjectPath canonical key of
        None \<Rightarrow> None
      | Some candidate \<Rightarrow>
          (if same_parent templateParts (splitObjectParts candidate) vals unresolved 0
           then parseObjectInstanceAt candidate unresolved else None))"

definition max_instance :: "int list \<Rightarrow> int" where
  "max_instance ns = fold (\<lambda>n m. if m < n then n else m) ns 0"

fun fill_tokens :: "string list \<Rightarrow> string list \<Rightarrow> string list" where
  "fill_tokens [] vals = []"
| "fill_tokens (t # ts) vals = (if t = ''{i}'' then hd vals # fill_tokens ts (tl vals) else t # fill_tokens ts vals)"

definition nextObjectInstance :: "store \<Rightarrow> string \<Rightarrow> string \<Rightarrow> agent_error + (string list \<times> string)" where
  "nextObjectInstance vs requestedPath canonical =
     (let templateParts = splitObjectParts canonical; requestParts = splitObjectParts (TrimSpace requestedPath) in
      if length templateParts \<noteq> length requestParts then Inl (invalid requestedPath ''object path shape does not match schema'')
      else res_bind (request_instances requestedPath templateParts requestParts [] None) (\<lambda>(vals, unresolved).
        case unresolved of
          None \<Rightarrow> Inl (invalid requestedPath ''add requires an unresolved {i} token'')
        | Some u \<Rightarrow>
            let maxInstance = max_instance (List.map_filter (instance_of_key canonical templateParts vals u) (keys_of vs));
                vals' = vals[u := itoa (sint (word_of_int (maxInstance + 1) :: 64 word))]
            in Inr (vals', Join (fill_tokens templateParts vals') ''.'' @ ''.'')))"

text \<open>The loop of \<open>materializePathForInstance\<close> over the parts both paths have.\<close>

fun materialize_parts :: "string list \<Rightarrow> string list \<Rightarrow> string list \<Rightarrow> string list" where
  "materialize_parts (t # ts) (p # ps) vals =
     (if t \<noteq> ''{i}'' \<or> vals = [] then p # materialize_parts ts ps vals else hd vals # materialize_parts ts ps (tl vals))"
| "materialize_parts _ ps vals = ps"

definition materializePathForInstance :: "string \<Rightarrow> string \<Rightarrow> string list \<Rightarrow> string" where
  "materializePathForInstance path canonical vals =
     Join (materialize_parts (Split canonical (CHR ''.'')) (Split path (CHR ''.'')) vals) ''.''"

definition buildObjectFieldsForAdd :: "env \<Rightarrow> string \<Rightarrow> string list \<Rightarrow> store" where
  "buildObjectFieldsForAdd e canonical vals =
     fold (\<lambda>(i, p) fs.
       if HasPrefix (pPath p) canonical then
         (let path = materializePathForInstance (pPath p) canonical vals in
          fmupd path \<lparr> field_id = 0, Path = path, Val = safeFilledValueForParam (env_re e) (env_schema e) p i FillProfileRealistic \<rparr> fs)
       else fs) (enumerate 0 (AllDeviceParams e)) fmempty"

text \<open>The last instance token of a path: what precedes it.\<close>

fun last_token :: "string list \<Rightarrow> string list option" where
  "last_token [] = None"
| "last_token (r # rs) = (if r = ''{i}'' then Some rs else last_token rs)"

definition objectCountParamPath :: "env \<Rightarrow> string \<Rightarrow> string option" where
  "objectCountParamPath e objectPath =
     (case last_token (rev (splitObjectParts objectPath)) of
        None \<Rightarrow> None
      | Some [] \<Rightarrow> None
      | Some (child # before) \<Rightarrow>
          (let countPath = (if before \<noteq> [] then Join (rev before) ''.'' @ ''.'' else '''') @ child @ ''NumberOfEntries'' in
           if fst (lookupSafeParam (safeParamIndex (env_schema e)) countPath) \<noteq> None then Some countPath else None))"

section \<open>Operations\<close>

definition NewUSPAgent :: "FillProfile \<Rightarrow> 'w USPAgent \<Rightarrow> 'w USPAgent" where
  "NewUSPAgent profile opts = opts\<lparr> fillProfile := normalizeFillProfile profile, avalues := fmempty \<rparr>"

definition coalesceFillProfile :: "FillProfile \<Rightarrow> FillProfile \<Rightarrow> FillProfile" where
  "coalesceFillProfile primary fallback =
     (if normalizeFillProfile primary \<noteq> FillProfileRealistic \<or> primary = FillProfileMaxCompressible then normalizeFillProfile primary
      else if primary = '''' then normalizeFillProfile fallback
      else normalizeFillProfile primary)"

definition Bootstrap :: "env \<Rightarrow> FillOptions \<Rightarrow> 'w USPAgent \<Rightarrow> 'w USPAgent \<times> (agent_error + unit)" where
  "Bootstrap e opts a =
     (case BuildFilledMessage (env_re e) (env_schema e) (AllDeviceParams e)
             \<lparr> Profile = coalesceFillProfile (Profile opts) (fillProfile a), foDeviceID = foDeviceID opts, foTimestamp = foTimestamp opts,
               Overwrite = False \<rparr> of
        Inl err \<Rightarrow> (a, Inl (EUsp err))
      | Inr m \<Rightarrow>
          (let vs = (if Overwrite opts then fmempty else avalues a) in
           (a\<lparr> avalues := fold (\<lambda>f vs. fmupd (Path f) (cloneField f) vs) (Fields m) vs \<rparr>, Inr ())))"

text \<open>\<open>Collect\<close> of the configured collector.\<close>

definition collect :: "'w USPAgent \<Rightarrow> string list \<Rightarrow> 'w USPAgent \<times> (agent_error + Message option)" where
  "collect a paths =
     (case collector a of
        None \<Rightarrow> (a, Inr None)
      | Some c \<Rightarrow> (let (w, r) = c (world a) paths in (a\<lparr> world := w \<rparr>, r)))"

definition Snapshot :: "'w USPAgent \<Rightarrow> 'w USPAgent \<times> Message" where
  "Snapshot a =
     (if collector a = None then (a, snapshotFromStore a)
      else let (a', r) = collect a [] in
        (a', buildSnapshotMessage (case r of Inl _ \<Rightarrow> snapshotValues a | Inr m \<Rightarrow> mergeMessageFields (snapshotValues a) m)))"

definition agent_Get :: "'w USPAgent \<Rightarrow> string list \<Rightarrow> 'w USPAgent \<times> (agent_error + Message)" where
  "agent_Get a paths =
     (if collector a = None then (a, getStored a paths)
      else let (a', r) = collect a paths in
        (a', res_bind r (\<lambda>m.
           let vs = mergeMessageFields (snapshotValues a) m in
           if paths = [] then Inr (buildSnapshotMessage vs) else filterValuesForPaths vs paths)))"

text \<open>The loop over the setter: it stops at the first error other than an unsupported path.\<close>

fun setter_loop :: "('w \<Rightarrow> string \<Rightarrow> Value \<Rightarrow> 'w \<times> agent_error option) \<Rightarrow> 'w \<Rightarrow> Field list \<Rightarrow> 'w \<times> agent_error option" where
  "setter_loop s w [] = (w, None)"
| "setter_loop s w (f # fs) =
     (let (w', r) = s w (TrimSpace (Path f)) (cloneValue (Val f)) in
      case r of
        None \<Rightarrow> setter_loop s w' fs
      | Some err \<Rightarrow> (if err = EPathUnsupported then setter_loop s w' fs else (w', Some err)))"

definition store_field :: "env \<Rightarrow> Field \<Rightarrow> store \<Rightarrow> store" where
  "store_field e f vs =
     (let path = TrimSpace (Path f);
          fid = (case IDFor (globalRegistry (env_schema e)) path of (i, ok) \<Rightarrow> if ok then i else field_id f)
      in fmupd path (cloneField \<lparr> field_id = fid, Path = path, Val = Val f \<rparr>) vs)"

definition trim_field :: "Field \<Rightarrow> Field" where
  "trim_field f = f\<lparr> Path := TrimSpace (Path f) \<rparr>"

definition storeFields :: "env \<Rightarrow> Field list \<Rightarrow> bool \<Rightarrow> 'w USPAgent \<Rightarrow> 'w USPAgent \<times> (agent_error + unit)" where
  "storeFields e flds alreadyValidated a =
     (if flds = [] then (a, Inr ())
      else
        let fs = (if alreadyValidated then flds else map trim_field flds) in
        case (if alreadyValidated then Inr () else ValidateMessageFast (env_re e) (env_schema e) (fields_message fs)) of
          Inl err \<Rightarrow> (a, Inl (EUsp err))
        | Inr _ \<Rightarrow>
            (let (w, r) = (case setter a of None \<Rightarrow> (world a, None) | Some s \<Rightarrow> setter_loop (setter_Set s) (world a) fs); a' = a\<lparr> world := w \<rparr> in
             case r of
               Some err \<Rightarrow> (a', Inl err)
             | None \<Rightarrow> (a'\<lparr> avalues := fold (store_field e) fs (avalues a) \<rparr>, Inr ())))"

definition agent_Set :: "env \<Rightarrow> string \<Rightarrow> Value \<Rightarrow> 'w USPAgent \<Rightarrow> 'w USPAgent \<times> (agent_error + unit)" where
  "agent_Set e path v a = storeFields e [\<lparr> field_id = 0, Path = TrimSpace path, Val = v \<rparr>] False a"

definition SetBatch :: "env \<Rightarrow> Field list \<Rightarrow> 'w USPAgent \<Rightarrow> 'w USPAgent \<times> (agent_error + unit)" where
  "SetBatch e flds a = storeFields e flds False a"

fun delete_loop :: "bool \<Rightarrow> store \<Rightarrow> string list \<Rightarrow> store \<times> (agent_error + unit)" where
  "delete_loop handled vs [] = (vs, Inr ())"
| "delete_loop handled vs (p # ps) =
     (let (vs', removed) = deletePathLocked vs p in
      if \<not> removed \<and> \<not> handled then (vs', Inl (EPathNotFound p)) else delete_loop handled vs' ps)"

definition agent_Delete :: "string list \<Rightarrow> 'w USPAgent \<Rightarrow> 'w USPAgent \<times> (agent_error + unit)" where
  "agent_Delete paths a =
     (if paths = [] then (a, Inr ())
      else let normalized = map TrimSpace paths in
        if '''' \<in> set normalized then (a, Inl (invalid '''' ''empty delete path''))
        else
          let (w, r) = (case setter a of None \<Rightarrow> (world a, Some EPathUnsupported) | Some s \<Rightarrow> setter_Delete s (world a) normalized);
              a' = a\<lparr> world := w \<rparr>
          in if r \<noteq> None \<and> r \<noteq> Some EPathUnsupported then (a', Inl (the r))
             else let (vs, res) = delete_loop (r = None) (avalues a) normalized in (a'\<lparr> avalues := vs \<rparr>, res))"

definition refreshEntryCount :: "env \<Rightarrow> string \<Rightarrow> 'w USPAgent \<Rightarrow> 'w USPAgent" where
  "refreshEntryCount e objectPath a =
     (case objectCountParamPath e objectPath of
        None \<Rightarrow> a
      | Some countPath \<Rightarrow>
          (let n = length (instancePathsForObject (avalues a) objectPath) in
           a\<lparr> avalues := fmupd countPath \<lparr> field_id = 0, Path = countPath, Val = Uint (of_nat n) \<rparr> (avalues a) \<rparr>))"

fun initial_loop :: "string \<Rightarrow> string list \<Rightarrow> string \<Rightarrow> store \<Rightarrow> Field list \<Rightarrow> agent_error + store" where
  "initial_loop canonical vals actual flds [] = Inr flds"
| "initial_loop canonical vals actual flds (f # fs) =
     (if TrimSpace (Path f) = '''' then Inl (invalid '''' ''add payload contains empty field path'')
      else let path = materializePathForInstance (canonicalParamPath (TrimSpace (Path f))) canonical vals in
        if \<not> HasPrefix path (TrimSuffix actual ''.'') then Inl (invalid (Path f) ''field does not belong to added object'')
        else initial_loop canonical vals actual (fmupd path \<lparr> field_id = 0, Path = path, Val = cloneValue (Val f) \<rparr> flds) fs)"

definition agent_Add :: "env \<Rightarrow> string \<Rightarrow> Message option \<Rightarrow> 'w USPAgent \<Rightarrow> 'w USPAgent \<times> (agent_error + string list)" where
  "agent_Add e objectPath0 initial a =
     (let objectPath = TrimSpace objectPath0 in
      if objectPath = '''' \<or> \<not> isObjectPath objectPath then (a, Inl (invalid objectPath ''add requires an object path''))
      else case lookupObjectDefinition e objectPath of
        (None, _) \<Rightarrow> (a, Inl (EPathNotFound objectPath))
      | (Some object, canonical) \<Rightarrow>
          if \<not> oMultiInstance object then (a, Inl (invalid objectPath ''object is not multi-instance''))
          else if Count_sub canonical ''{i}'' = 0 then (a, Inl (invalid objectPath ''object path does not expose an instance token''))
          else if 1 < Count_sub objectPath ''{i}'' then (a, Inl (invalid objectPath ''add requires parent instances to be concrete''))
          else case nextObjectInstance (snapshotValues a) objectPath canonical of
            Inl err \<Rightarrow> (a, Inl err)
          | Inr (vals, actual) \<Rightarrow>
              (case initial_loop canonical vals actual (buildObjectFieldsForAdd e canonical vals) (case initial of None \<Rightarrow> [] | Some m \<Rightarrow> Fields m) of
                 Inl err \<Rightarrow> (a, Inl err)
               | Inr flds \<Rightarrow>
                   (let (a', r) = storeFields e (sortedStoredFields flds) False a in
                    case r of
                      Inl err \<Rightarrow> (a', Inl err)
                    | Inr _ \<Rightarrow> (refreshEntryCount e canonical a', Inr [actual]))))"

definition instancePathsForRequest :: "env \<Rightarrow> store \<Rightarrow> string \<Rightarrow> agent_error + string list" where
  "instancePathsForRequest e vs path =
     (case lookupObjectDefinition e path of
        (Some object, canonical) \<Rightarrow>
          if oMultiInstance object then Inr (instancePathsForObject vs canonical)
          else if hasFieldsWithPrefix vs canonical then Inr [canonical]
          else Inl (EPathNotFound path)
      | (None, _) \<Rightarrow>
          if \<not> isObjectPath path then Inl (invalid path ''get-instances requires object paths'')
          else let instances = instancePathsForObject vs (canonicalParamPath path) in
            if instances = [] then Inl (EPathNotFound path) else Inr instances)"

definition collectAllMultiInstanceObjectPaths :: "env \<Rightarrow> string list" where
  "collectAllMultiInstanceObjectPaths e = map oPath (filter oMultiInstance (AllDeviceObjects e))"

fun instances_loop_all :: "env \<Rightarrow> store \<Rightarrow> string list \<Rightarrow> string list \<Rightarrow> agent_error + string list" where
  "instances_loop_all e vs out [] = Inr out"
| "instances_loop_all e vs out (p # ps) =
     (let path = TrimSpace p in
      if path = '''' then Inl (invalid '''' ''empty get-instances path'')
      else res_bind (instancePathsForRequest e vs path) (\<lambda>instances.
        instances_loop_all e vs (out @ remdups (filter (\<lambda>i. i \<notin> set out) instances)) ps))"

definition GetInstances :: "env \<Rightarrow> 'w USPAgent \<Rightarrow> string list \<Rightarrow> 'w USPAgent \<times> (agent_error + string list)" where
  "GetInstances e a paths =
     (let (a', r) = collect a paths in
      (a', res_bind r (\<lambda>m.
         let vs = mergeMessageFields (snapshotValues a) m;
             ps = (if paths = [] then collectAllMultiInstanceObjectPaths e else paths)
         in res_bind (instances_loop_all e vs [] ps) (\<lambda>out. Inr (sort out)))))"

definition Operate :: "string \<Rightarrow> Message option \<Rightarrow> metadata \<Rightarrow> 'w USPAgent \<Rightarrow> 'w USPAgent \<times> (agent_error + Message option)" where
  "Operate commandPath input metadata a =
     (let path = TrimSpace commandPath in
      if path = '''' then (a, Inl (invalid '''' ''operate requires a command path''))
      else case operateHandler a of
        None \<Rightarrow> (a, Inl EPathUnsupported)
      | Some h \<Rightarrow> (let (w, r) = h (world a) path (cloneMessage input) (CloneMetadata metadata) in (a\<lparr> world := w \<rparr>, r)))"

definition Notify :: "string \<Rightarrow> Message option \<Rightarrow> metadata \<Rightarrow> 'w USPAgent \<Rightarrow> 'w USPAgent \<times> (agent_error + unit)" where
  "Notify eventPath payload metadata a =
     (let path = TrimSpace eventPath in
      if path = '''' then (a, Inl (invalid '''' ''notify requires an event path''))
      else case notifyHandler a of
        None \<Rightarrow> (a, Inl EPathUnsupported)
      | Some h \<Rightarrow> (let (w, r) = h (world a) path (cloneMessage payload) (CloneMetadata metadata) in
                   (a\<lparr> world := w \<rparr>, case r of None \<Rightarrow> Inr () | Some err \<Rightarrow> Inl err)))"

definition upload :: "env \<Rightarrow> USPTransferRequest \<Rightarrow> bool \<Rightarrow> 'w USPAgent \<Rightarrow> 'w USPAgent \<times> (agent_error + USPTransferResult)" where
  "upload e req clone a =
     (case validateTransferRequest (env_schema e) req of
        Inl err \<Rightarrow> (a, Inl (EUsp err))
      | Inr _ \<Rightarrow>
          (case uploadHandler a of
             None \<Rightarrow> (a, Inl ETransferUnsupported)
           | Some h \<Rightarrow> (let (w, r) = h (world a) (if clone then cloneTransferRequest req else req) in (a\<lparr> world := w \<rparr>, r))))"

definition download :: "env \<Rightarrow> USPTransferRequest \<Rightarrow> bool \<Rightarrow> 'w USPAgent \<Rightarrow> 'w USPAgent \<times> (agent_error + USPTransferResult)" where
  "download e req clone a =
     (case validateTransferRequest (env_schema e) req of
        Inl err \<Rightarrow> (a, Inl (EUsp err))
      | Inr _ \<Rightarrow>
          (case downloadHandler a of
             None \<Rightarrow> (a, Inl ETransferUnsupported)
           | Some h \<Rightarrow> (let (w, r) = h (world a) (if clone then cloneTransferRequest req else req) in (a\<lparr> world := w \<rparr>, r))))"

definition Upload :: "env \<Rightarrow> USPTransferRequest \<Rightarrow> 'w USPAgent \<Rightarrow> 'w USPAgent \<times> (agent_error + USPTransferResult)" where
  "Upload e req a = upload e req True a"

definition Download :: "env \<Rightarrow> USPTransferRequest \<Rightarrow> 'w USPAgent \<Rightarrow> 'w USPAgent \<times> (agent_error + USPTransferResult)" where
  "Download e req a = download e req True a"

section \<open>Path codes\<close>

fun paths_for_codes :: "Device \<Rightarrow> 64 word list \<Rightarrow> agent_error + string list" where
  "paths_for_codes d [] = Inr []"
| "paths_for_codes d (c # cs) =
     (case PathByCode d c of
        None \<Rightarrow> Inl (EPathNotFound ''unknown path code'')
      | Some p \<Rightarrow> res_bind (paths_for_codes d cs) (\<lambda>ps. Inr (p # ps)))"

definition resolvePathsForCodes :: "env \<Rightarrow> 64 word list \<Rightarrow> agent_error + string list" where
  "resolvePathsForCodes e codes = (if codes = [] then Inr [] else paths_for_codes (runtimeDevice e) codes)"

definition resolveObjectPathForCode :: "env \<Rightarrow> 64 word \<Rightarrow> agent_error + string" where
  "resolveObjectPathForCode e c =
     (if c = 0 then Inl (invalid '''' ''missing object code'')
      else case PathByCode (runtimeDevice e) c of
             None \<Rightarrow> Inl (EPathNotFound ''unknown path code'')
           | Some path \<Rightarrow> (if \<not> isObjectPath path then Inl (invalid path ''path code does not resolve to an object'') else Inr path))"

definition GetByCode :: "env \<Rightarrow> 'w USPAgent \<Rightarrow> 64 word list \<Rightarrow> 'w USPAgent \<times> (agent_error + Message)" where
  "GetByCode e a codes = (case resolvePathsForCodes e codes of Inl err \<Rightarrow> (a, Inl err) | Inr paths \<Rightarrow> agent_Get a paths)"

definition DeleteByCode :: "env \<Rightarrow> 64 word list \<Rightarrow> 'w USPAgent \<Rightarrow> 'w USPAgent \<times> (agent_error + unit)" where
  "DeleteByCode e codes a = (case resolvePathsForCodes e codes of Inl err \<Rightarrow> (a, Inl err) | Inr paths \<Rightarrow> agent_Delete paths a)"

definition AddByCode :: "env \<Rightarrow> 64 word \<Rightarrow> Message option \<Rightarrow> 'w USPAgent \<Rightarrow> 'w USPAgent \<times> (agent_error + string list)" where
  "AddByCode e c initial a = (case resolveObjectPathForCode e c of Inl err \<Rightarrow> (a, Inl err) | Inr path \<Rightarrow> agent_Add e path initial a)"

definition GetInstancesByCode :: "env \<Rightarrow> 'w USPAgent \<Rightarrow> 64 word list \<Rightarrow> 'w USPAgent \<times> (agent_error + string list)" where
  "GetInstancesByCode e a codes = (case resolvePathsForCodes e codes of Inl err \<Rightarrow> (a, Inl err) | Inr paths \<Rightarrow> GetInstances e a paths)"

section \<open>The supported model and protocol\<close>

definition normalizeModelVersion :: "string \<Rightarrow> string" where
  "normalizeModelVersion v = TrimPrefix (TrimPrefix (TrimSpace v) ''v'') ''V''"

definition normalizeSupportedDMFilters :: "string list \<Rightarrow> string list" where
  "normalizeSupportedDMFilters paths =
     sort (remdups (map canonicalParamPath (filter (\<lambda>p. p \<noteq> '''') (map TrimSpace paths))))"

definition supportedPathMatches :: "string list \<Rightarrow> string \<Rightarrow> bool" where
  "supportedPathMatches filters candidate \<longleftrightarrow>
     filters = [] \<or> list_ex (\<lambda>f. candidate = f \<or> HasPrefix candidate f \<or> HasPrefix f candidate) filters"

definition GetSupportedDM :: "env \<Rightarrow> string list \<Rightarrow> USPSupportedDataModel" where
  "GetSupportedDM e paths =
     (let filters = normalizeSupportedDMFilters paths in
      \<lparr> RootDataModelVersion = BroadbandRootDataModelVersion, dmModels = BroadbandDataModels e,
        dmObjects = map (\<lambda>ob. \<lparr> soPath = oPath ob, soMultiInstance = oMultiInstance ob, soSinceVersion = normalizeModelVersion (oSinceVersion ob) \<rparr>)
          (filter (\<lambda>ob. supportedPathMatches filters (oPath ob)) (AllDeviceObjects e)),
        dmParams = map (\<lambda>p. \<lparr> spPath = pPath p, spType = pType p, spAccess = pAccess p, spSinceVersion = normalizeModelVersion (pSinceVersion p) \<rparr>)
          (filter (\<lambda>p. supportedPathMatches filters (pPath p)) (AllDeviceParams e)) \<rparr>)"

definition USPRecommendedChunkSize :: "64 word" where "USPRecommendedChunkSize = 1120"

definition GetSupportedProtocol :: USPProtocolInfo where
  "GetSupportedProtocol =
     \<lparr> piName = ''wantastic-wusp-over-wireguard'', piVersion = 1,
       piMethods = [''Get'', ''Set'', ''Add'', ''Delete'', ''GetInstances'', ''Operate'', ''Notify'', ''GetSupportedDM'', ''GetSupportedProtocol'',
         ''Upload'', ''Download''],
       piCompression = [''nested-message-lz4'', ''stream-chunk-lz4''],
       piControlTransport = ''wireguard-noise-fragmented-datagram'', piTransferTransport = ''wireguard-noise-stream-packets'',
       piMaxControlPayload = word_of_int WUSPMaxDatagramPayload, piRecommendedChunkSize = USPRecommendedChunkSize, piTunnelOnly = True, piReliableTransfer = True \<rparr>"

section \<open>Requests\<close>

definition empty_response :: "USPAgentRequest \<Rightarrow> USPAgentResponse" where
  "empty_response q =
     \<lparr> rID = qID q, rMethod = qMethod q, rPaths = [], rPathCodes = [], rPathInstances = [], rObjectPath = '''', rObjectCode = 0,
       rObjectInstances = [], rMessage = None, rTransfer = None, rMetadata = fmempty, rSupportedDataModel = None, rProtocol = None, rError = '''' \<rparr>"

text \<open>A response that carries a result, or the text of the error.\<close>

definition answer :: "(agent_error \<Rightarrow> string) \<Rightarrow> USPAgentResponse \<Rightarrow> agent_error + 'a \<Rightarrow> ('a \<Rightarrow> USPAgentResponse) \<Rightarrow> USPAgentResponse" where
  "answer msg resp r f = (case r of Inl err \<Rightarrow> resp\<lparr> rError := msg err \<rparr> | Inr x \<Rightarrow> f x)"

definition HandleRequest :: "(agent_error \<Rightarrow> string) \<Rightarrow> env \<Rightarrow> USPAgentRequest \<Rightarrow> 'w USPAgent \<Rightarrow> 'w USPAgent \<times> (usp_error + USPAgentResponse)" where
  "HandleRequest msg e req a =
     (let q = resolveFastRequestPaths (runtimeDevice e) req; resp = empty_response q; m = qMethod q in
      if m = USPAgentMethodGet then
        (let (a', r) = agent_Get a (qPaths q) in (a', Inr (answer msg resp r (\<lambda>x. resp\<lparr> rMessage := Some x \<rparr>))))
      else if m = USPAgentMethodSet then
        (if (case qMessage q of None \<Rightarrow> True | Some x \<Rightarrow> Fields x = []) then (a, Inr (resp\<lparr> rError := ''set request missing fields'' \<rparr>))
         else let (a', r) = storeFields e (Fields (the (qMessage q))) True a in (a', Inr (answer msg resp r (\<lambda>_. resp))))
      else if m = USPAgentMethodAdd then
        (let (a', r) = agent_Add e (qObjectPath q) (qMessage q) a in
         (a', Inr (answer msg resp r (\<lambda>is. resp\<lparr> rObjectPath := qObjectPath q, rPaths := is \<rparr>))))
      else if m = USPAgentMethodDelete then
        (if qPaths q = [] then (a, Inr (resp\<lparr> rError := ''delete request missing paths'' \<rparr>))
         else let (a', r) = agent_Delete (qPaths q) a in (a', Inr (answer msg resp r (\<lambda>_. resp))))
      else if m = USPAgentMethodGetInstances then
        (let (a', r) = GetInstances e a (qPaths q) in (a', Inr (answer msg resp r (\<lambda>is. resp\<lparr> rPaths := is \<rparr>))))
      else if m = USPAgentMethodOperate then
        (let (a', r) = Operate (qObjectPath q) (qMessage q) (qMetadata q) a in
         (a', Inr (answer msg resp r (\<lambda>x. resp\<lparr> rObjectPath := qObjectPath q, rMessage := x \<rparr>))))
      else if m = USPAgentMethodNotify then
        (let (a', r) = Notify (qObjectPath q) (qMessage q) (qMetadata q) a in (a', Inr (answer msg resp r (\<lambda>_. resp\<lparr> rObjectPath := qObjectPath q \<rparr>))))
      else if m = USPAgentMethodGetSupportedDM then (a, Inr (resp\<lparr> rSupportedDataModel := Some (GetSupportedDM e (qPaths q)) \<rparr>))
      else if m = USPAgentMethodGetSupportedProtocol then (a, Inr (resp\<lparr> rProtocol := Some GetSupportedProtocol \<rparr>))
      else if m = USPAgentMethodUpload then
        (case qTransfer q of
           None \<Rightarrow> (a, Inr (resp\<lparr> rError := ''upload request missing transfer'' \<rparr>))
         | Some t \<Rightarrow> (let (a', r) = upload e t False a in (a', Inr (answer msg resp r (\<lambda>x. resp\<lparr> rTransfer := Some x \<rparr>)))))
      else if m = USPAgentMethodDownload then
        (case qTransfer q of
           None \<Rightarrow> (a, Inr (resp\<lparr> rError := ''download request missing transfer'' \<rparr>))
         | Some t \<Rightarrow> (let (a', r) = download e t False a in (a', Inr (answer msg resp r (\<lambda>x. resp\<lparr> rTransfer := Some x \<rparr>)))))
      else (a, Inl (TUnsupported ''method'')))"

text \<open>The part of a message under the requested paths.\<close>

definition wanted :: "string \<Rightarrow> string \<Rightarrow> bool" where
  "wanted requested path \<longleftrightarrow> requested = path \<or> HasSuffix requested ''.'' \<and> HasPrefix path requested"

fun subset_path :: "string \<Rightarrow> string list \<Rightarrow> Field list \<Rightarrow> Field list \<Rightarrow> string list \<times> Field list" where
  "subset_path requested seen out [] = (seen, out)"
| "subset_path requested seen out (f # fs) =
     (if \<not> wanted requested (Path f) \<or> Path f \<in> set seen then subset_path requested seen out fs
      else subset_path requested (Path f # seen) (out @ [cloneField f]) fs)"

fun subset_loop :: "Field list \<Rightarrow> string list \<Rightarrow> Field list \<Rightarrow> string list \<Rightarrow> Field list" where
  "subset_loop fs seen out [] = out"
| "subset_loop fs seen out (p # ps) =
     (if TrimSpace p = '''' then subset_loop fs seen out ps
      else let (seen', out') = subset_path (TrimSpace p) seen out fs in subset_loop fs seen' out' ps)"

definition subsetMessageByPaths :: "Message option \<Rightarrow> string list \<Rightarrow> Message" where
  "subsetMessageByPaths m paths =
     (case m of
        None \<Rightarrow> fields_message []
      | Some m \<Rightarrow>
          m\<lparr> Fields := (if paths = [] then map cloneField (Fields m) else sort_key Path (subset_loop (Fields m) [] [] paths)) \<rparr>)"

end
