(* ===== verification/Agent_Store.thy ===== *)
theory Agent_Store
  imports Agent
begin

text \<open>
  What the store of an agent promises. A stored field is filed under its own path; what get returns are exactly the stored
  fields the requested paths select, in the order of their paths; delete removes exactly those; set is read back by get.
\<close>

section \<open>Copies and keys\<close>

lemma cloneValue_same [simp]: "cloneValue v = v"
  by (induction v rule: cloneValue.induct) (simp add: map_idI)

lemma cloneField_same [simp]: "cloneField f = f"
  by (simp add: cloneField_def)

lemma cloneField_id [simp]: "cloneField = (\<lambda>f. f)"
  by (rule ext) simp

lemma cloneMessage_same [simp]: "cloneMessage m = m"
  by (cases m) (simp_all add: cloneMessage_def)

lemma set_keys_of [simp]: "set (keys_of vs) = fset (fmdom vs)"
  by (simp add: keys_of_def)

lemma keys_of_sorted [simp]: "sorted (keys_of vs)" "distinct (keys_of vs)"
  by (simp_all add: keys_of_def sorted_list_of_fset.rep_eq)

lemma stored_lookup: "k \<in> fset (fmdom vs) \<Longrightarrow> fmlookup vs k = Some (stored vs k)"
  by (auto simp: stored_def fmlookup_dom_iff)

lemma snapshotValues_same [simp]: "snapshotValues a = avalues a"
proof (rule fmap_ext)
  fix k
  have "fmlookup (fold (\<lambda>k vs. fmupd k (g k) vs) ks m0) k = (if k \<in> set ks then Some (g k) else fmlookup m0 k)" for ks m0 and g :: "string \<Rightarrow> Field"
    by (induction ks arbitrary: m0) auto
  then show "fmlookup (snapshotValues a) k = fmlookup (avalues a) k"
    using stored_lookup [of k "avalues a"] by (auto simp: snapshotValues_def fmlookup_dom_iff)
qed

section \<open>The invariant of a store\<close>

definition keyed :: "store \<Rightarrow> bool" where
  "keyed vs \<longleftrightarrow> (\<forall>k f. fmlookup vs k = Some f \<longrightarrow> Path f = k)"

lemma keyed_stored: "keyed vs \<Longrightarrow> k \<in> fset (fmdom vs) \<Longrightarrow> Path (stored vs k) = k"
  using stored_lookup by (auto simp: keyed_def)

lemma map_stored: "keyed vs \<Longrightarrow> set ks \<subseteq> fset (fmdom vs) \<Longrightarrow> map Path (map (stored vs) ks) = ks"
  by (induction ks) (auto simp: keyed_stored)

lemma image_stored: "keyed vs \<Longrightarrow> S \<subseteq> fset (fmdom vs) \<Longrightarrow> Path ` stored vs ` S = S"
proof -
  assume "keyed vs" "S \<subseteq> fset (fmdom vs)"
  then have "\<forall>k\<in>S. Path (stored vs k) = k" using keyed_stored by blast
  then show ?thesis by (auto simp: image_image)
qed

lemma sorted_fields:
  assumes "keyed vs"
  shows "sortedStoredFields vs = map (stored vs) (keys_of vs)" "map Path (sortedStoredFields vs) = keys_of vs"
proof -
  have m: "map Path (map (stored vs) (keys_of vs)) = keys_of vs" using map_stored [OF assms, of "keys_of vs"] by simp
  then have "sorted (map Path (map (stored vs) (keys_of vs)))" by (metis keys_of_sorted(1))
  then show e: "sortedStoredFields vs = map (stored vs) (keys_of vs)" unfolding sortedStoredFields_def by (rule sort_key_id_if_sorted)
  show "map Path (sortedStoredFields vs) = keys_of vs" using m e by simp
qed

section \<open>Selection\<close>

text \<open>The reference: the stored paths a requested path stands for.\<close>

definition selects :: "string \<Rightarrow> string \<Rightarrow> bool" where
  "selects path k = (let p = TrimSpace path in if isObjectPath p then HasPrefix k p else k = p)"

definition selected :: "store \<Rightarrow> string list \<Rightarrow> Field list" where
  "selected vs paths = map (stored vs) (filter (\<lambda>k. \<exists>p\<in>set paths. selects p k) (keys_of vs))"

lemma get_loop_selected:
  assumes "keyed vs" and "get_loop vs seen out paths = Inr fs" and "set seen \<subseteq> fset (fmdom vs)"
    and "set out = stored vs ` set seen" and "distinct (map Path out)"
  shows "set fs = stored vs ` {k \<in> fset (fmdom vs). k \<in> set seen \<or> (\<exists>p\<in>set paths. selects p k)} \<and> distinct (map Path fs)"
  using assms(2-)
proof (induction paths arbitrary: seen out)
  case Nil
  then show ?case by auto
next
  case (Cons p ps)
  let ?p = "TrimSpace p"
  have out: "Path ` set out = set seen" using Cons.prems(2,3) image_stored [OF assms(1)] by simp
  show ?case
  proof (cases "isObjectPath ?p")
    case True
    let ?new = "filter (\<lambda>k. HasPrefix k ?p \<and> k \<notin> set seen) (keys_of vs)"
    have g: "get_loop vs (?new @ seen) (out @ map (stored vs) ?new) ps = Inr fs"
      using Cons.prems(1) True by (auto simp: Let_def comp_def split: if_splits)
    have pn: "map Path (map (stored vs) ?new) = ?new" by (rule map_stored [OF assms(1)]) auto
    then have "distinct (map Path (out @ map (stored vs) ?new))"
      unfolding map_append distinct_append pn using Cons.prems(4) out by auto
    then have ih: "set fs = stored vs ` {k \<in> fset (fmdom vs). k \<in> set (?new @ seen) \<or> (\<exists>p\<in>set ps. selects p k)} \<and> distinct (map Path fs)"
      using Cons.prems(2,3) by (intro Cons.IH [OF g]) auto
    have "{k \<in> fset (fmdom vs). k \<in> set (?new @ seen) \<or> (\<exists>p\<in>set ps. selects p k)} =
        {k \<in> fset (fmdom vs). k \<in> set seen \<or> (\<exists>p\<in>set (p # ps). selects p k)}"
      using True by (auto simp: selects_def Let_def)
    with ih show ?thesis by simp
  next
    case False
    then obtain f where f: "fmlookup vs ?p = Some f" using Cons.prems(1) by (auto simp: Let_def split: if_splits option.splits)
    then have d: "?p \<in> fset (fmdom vs)" "stored vs ?p = f" by (auto simp: stored_def intro: fmdomI)
    have sel: "selects p k = (k = ?p)" for k using False by (simp add: selects_def)
    have set_eq: "{k \<in> fset (fmdom vs). k \<in> set (?p # seen) \<or> (\<exists>p\<in>set ps. selects p k)} =
        {k \<in> fset (fmdom vs). k \<in> set seen \<or> (\<exists>p\<in>set (p # ps). selects p k)}" using sel by auto
    show ?thesis
    proof (cases "?p \<in> set seen")
      case True
      then have g: "get_loop vs seen out ps = Inr fs" using Cons.prems(1) False f by (auto simp: Let_def split: if_splits)
      have "{k \<in> fset (fmdom vs). k \<in> set seen \<or> (\<exists>p\<in>set ps. selects p k)} =
        {k \<in> fset (fmdom vs). k \<in> set seen \<or> (\<exists>p\<in>set (p # ps). selects p k)}" using True sel by auto
      then show ?thesis using Cons.IH [OF g Cons.prems(2-4)] by simp
    next
      case ns: False
      then have g: "get_loop vs (?p # seen) (out @ [f]) ps = Inr fs" using Cons.prems(1) False f by (auto simp: Let_def split: if_splits)
      have "Path f = ?p" using assms(1) f by (simp add: keyed_def)
      then have "distinct (map Path (out @ [f]))" using Cons.prems(4) out ns by auto
      then have "set fs = stored vs ` {k \<in> fset (fmdom vs). k \<in> set (?p # seen) \<or> (\<exists>p\<in>set ps. selects p k)} \<and> distinct (map Path fs)"
        using Cons.prems(2,3) d by (intro Cons.IH [OF g]) auto
      then show ?thesis using set_eq by simp
    qed
  qed
qed

lemma selected_sorted:
  assumes "keyed vs" and "set fs = stored vs ` {k \<in> fset (fmdom vs). \<exists>p\<in>set paths. selects p k}" and "distinct (map Path fs)"
  shows "sort_key Path fs = selected vs paths"
proof (rule sort_key_inj_key_eq)
  let ?ks = "filter (\<lambda>k. \<exists>p\<in>set paths. selects p k) (keys_of vs)"
  have m: "map Path (selected vs paths) = ?ks" unfolding selected_def by (rule map_stored [OF assms(1)]) auto
  have "distinct (selected vs paths)" using m by (metis distinct_map distinct_filter keys_of_sorted(2))
  moreover have "set (selected vs paths) = set fs" by (auto simp: selected_def assms(2))
  ultimately show "mset fs = mset (selected vs paths)" using assms(3) by (metis distinct_map set_eq_iff_mset_eq_distinct)
  show "inj_on Path (set fs)" using assms(3) by (simp add: distinct_map)
  show "sorted (map Path (selected vs paths))" unfolding m by (rule sorted_wrt_filter) simp
qed

lemma selected_all: "keyed vs \<Longrightarrow> sort_key Path (map (stored vs) (keys_of vs)) = map (stored vs) (keys_of vs)"
  using sorted_fields(1) by (simp add: sortedStoredFields_def)

text \<open>What an agent without a collector returns.\<close>

lemma get_selected:
  assumes "keyed (avalues a)" and "getStored a paths = Inr m"
  shows "Fields m = (if paths = [] then map (stored (avalues a)) (keys_of (avalues a)) else selected (avalues a) paths)"
proof (cases "paths = []")
  case True
  then show ?thesis using assms by (auto simp: getStored_def snapshotFromStore_def fields_message_def comp_def selected_all)
next
  case False
  then obtain fs where g: "get_loop (avalues a) [] [] paths = Inr fs" and m: "Fields m = sort_key Path fs"
    using assms(2) by (cases "get_loop (avalues a) [] [] paths") (auto simp: getStored_def fields_message_def)
  have "set fs = stored (avalues a) ` {k \<in> fset (fmdom (avalues a)). \<exists>p\<in>set paths. selects p k} \<and> distinct (map Path fs)"
    using get_loop_selected [OF assms(1) g] by simp
  then show ?thesis using False m selected_sorted [OF assms(1), of fs paths] by simp
qed

lemma selected_fields:
  assumes "keyed vs"
  shows "distinct (map Path (selected vs paths))" "f \<in> set (selected vs paths) \<Longrightarrow> fmlookup vs (Path f) = Some f"
proof -
  have m: "map Path (selected vs paths) = filter (\<lambda>k. \<exists>p\<in>set paths. selects p k) (keys_of vs)"
    unfolding selected_def by (rule map_stored [OF assms]) auto
  show "distinct (map Path (selected vs paths))" unfolding m by simp
  show "f \<in> set (selected vs paths) \<Longrightarrow> fmlookup vs (Path f) = Some f"
    using keyed_stored [OF assms] stored_lookup by (auto simp: selected_def)
qed

section \<open>Deletion\<close>

lemma fmlookup_fold_drop: "fmlookup (fold fmdrop ks vs) k = (if k \<in> set ks then None else fmlookup vs k)"
  by (induction ks arbitrary: vs) auto

lemma deletePathLocked_lookup:
  assumes "deletePathLocked vs p = (vs', removed)" and "TrimSpace p = p"
  shows "fmlookup vs' k = (if selects p k then None else fmlookup vs k)" "removed = (\<exists>k\<in>fset (fmdom vs). selects p k)"
proof -
  have n: "fmlookup vs k = None" if "k \<notin> fset (fmdom vs)" for k using that by (simp add: fmdom_notD)
  show "fmlookup vs' k = (if selects p k then None else fmlookup vs k)"
    using assms n [of k] by (auto simp: deletePathLocked_def selects_def Let_def fmlookup_fold_drop filter_empty_conv split: if_splits)
  show "removed = (\<exists>k\<in>fset (fmdom vs). selects p k)"
    using assms by (auto simp: deletePathLocked_def selects_def Let_def filter_empty_conv fmlookup_dom_iff split: if_splits)
qed

text \<open>
  What a deletion leaves: without the fields some of the paths select. The loop stops at the first path that selects nothing
  that is still stored, unless the setter has taken the paths.
\<close>

definition without :: "string list \<Rightarrow> store \<Rightarrow> string \<Rightarrow> Field option" where
  "without paths vs k = (if \<exists>p\<in>set paths. selects p k then None else fmlookup vs k)"

lemma delete_loop_lookup:
  assumes "delete_loop handled vs paths = (vs', r)" and "\<forall>p\<in>set paths. TrimSpace p = p"
  shows "r = Inr () \<and> fmlookup vs' = without paths vs \<or>
    (\<exists>ps p qs. paths = ps @ p # qs \<and> r = Inl (EPathNotFound p) \<and> \<not> handled \<and> fmlookup vs' = without ps vs \<and>
      (\<forall>k. selects p k \<longrightarrow> without ps vs k = None))"
  using assms
proof (induction paths arbitrary: vs)
  case (Cons p ps)
  obtain v1 removed where d: "deletePathLocked vs p = (v1, removed)" by force
  have t: "TrimSpace p = p" using Cons.prems(2) by simp
  note l = deletePathLocked_lookup(1) [OF d t] and rem = deletePathLocked_lookup(2) [OF d t]
  show ?case
  proof (cases "\<not> removed \<and> \<not> handled")
    case True
    have none: "selects p k \<Longrightarrow> fmlookup vs k = None" for k using True rem by (meson fmdom_notD)
    then have "fmlookup v1 = without [] vs" using l by (auto simp: without_def)
    then show ?thesis using True Cons.prems(1) none by (intro disjI2 exI [of _ "[]"] exI [of _ p] exI [of _ ps]) (auto simp: d without_def)
  next
    case False
    then have "delete_loop handled v1 ps = (vs', r)" using Cons.prems(1) by (auto simp: d)
    then have ih: "r = Inr () \<and> fmlookup vs' = without ps v1 \<or>
      (\<exists>qs q rs. ps = qs @ q # rs \<and> r = Inl (EPathNotFound q) \<and> \<not> handled \<and> fmlookup vs' = without qs v1 \<and>
        (\<forall>k. selects q k \<longrightarrow> without qs v1 k = None))"
      using Cons.IH Cons.prems(2) by simp
    have w: "without qs v1 = without (p # qs) vs" for qs using l by (auto simp: without_def)
    from ih show ?thesis unfolding w by (metis append_Cons)
  qed
qed (simp add: without_def fun_eq_iff)

lemma TrimSpace_twice [simp]: "TrimSpace (TrimSpace s) = TrimSpace s"
  using TrimSpace_ends [of s "hd (TrimSpace s)" "tl (TrimSpace s)"] by (cases "TrimSpace s") (auto intro!: trimmed)

lemma selects_trim [simp]: "selects (TrimSpace p) k = selects p k"
  by (simp add: selects_def)

section \<open>Properties of get and delete\<close>

lemma HasPrefix_iff: "HasPrefix s t \<longleftrightarrow> (\<exists>r. s = t @ r)"
  by (auto simp: HasPrefix_def) (metis append_take_drop_id)

lemma HasPrefix_trans: "HasPrefix k q \<Longrightarrow> HasPrefix q p \<Longrightarrow> HasPrefix k p"
  by (auto simp: HasPrefix_iff)

text \<open>An agent that stores one field.\<close>

definition stored_demo :: Field where
  "stored_demo = \<lparr> field_id = 1, Path = ''dev.if.3.on'', Val = BoolV True \<rparr>"

definition agent_demo :: "unit USPAgent" where
  "agent_demo = \<lparr> fillProfile = '''', uploadHandler = None, downloadHandler = None, operateHandler = None, notifyHandler = None,
     collector = None, setter = None, avalues = fmupd ''dev.if.3.on'' stored_demo fmempty, world = () \<rparr>"

lemma demo_keys [simp]: "keys_of (avalues agent_demo) = [''dev.if.3.on'']"
  by (simp add: keys_of_def agent_demo_def sorted_list_of_fset.rep_eq)

lemma demo_stored [simp]: "fmlookup (avalues agent_demo) ''dev.if.3.on'' = Some stored_demo" "stored (avalues agent_demo) ''dev.if.3.on'' = stored_demo"
  "collector agent_demo = None" "setter agent_demo = None" "keyed (avalues agent_demo)" "Path stored_demo = ''dev.if.3.on''"
  by (auto simp: agent_demo_def stored_def stored_demo_def keyed_def)

lemma demo_trim [simp]: "TrimSpace ''dev.if.'' = ''dev.if.''" "TrimSpace ''dev.'' = ''dev.''"
  by (simp_all add: TrimSpace_def TrimLeft_def TrimRight_def is_space_def code_def)

lemma demo_prefixes [simp]: "isObjectPath ''dev.if.''" "isObjectPath ''dev.''" "HasPrefix ''dev.if.'' ''dev.''"
  "HasPrefix ''dev.if.3.on'' ''dev.if.''"
  by (simp_all add: isObjectPath_def HasSuffix_def HasPrefix_def)

text \<open>
  C17. What an agent without a collector returns for a request are exactly the stored fields the paths select, a parameter
  path itself and an object path everything below it, each once and in the order of the paths; with no path it is the whole store.
\<close>

theorem get_exact:
  assumes "keyed (avalues a)" and "collector a = None" and "agent_Get a paths = (a', Inr m)"
  shows "a' = a \<and> Fields m = (if paths = [] then map (stored (avalues a)) (keys_of (avalues a)) else selected (avalues a) paths) \<and>
    distinct (map Path (Fields m)) \<and> sorted (map Path (Fields m))"
proof -
  have g: "a' = a" "getStored a paths = Inr m" using assms(2,3) by (auto simp: agent_Get_def)
  note f = get_selected [OF assms(1) g(2)]
  have all: "map Path (map (stored (avalues a)) (keys_of (avalues a))) = keys_of (avalues a)" by (rule map_stored [OF assms(1)]) simp
  have sel: "map Path (selected (avalues a) paths) = filter (\<lambda>k. \<exists>p\<in>set paths. selects p k) (keys_of (avalues a))"
    unfolding selected_def by (rule map_stored [OF assms(1)]) auto
  have "map Path (Fields m) = (if paths = [] then keys_of (avalues a) else filter (\<lambda>k. \<exists>p\<in>set paths. selects p k) (keys_of (avalues a)))"
    unfolding f by (auto simp only: all sel split: if_splits)
  then show ?thesis using g(1) f by (auto intro: sorted_wrt_filter)
qed

theorem get_exact_witness:
  "agent_Get agent_demo [''dev.if.''] = (agent_demo, Inr (fields_message [stored_demo])) \<and> selected (avalues agent_demo) [''dev.if.''] = [stored_demo]"
proof -
  have g: "agent_Get agent_demo [''dev.if.''] = (agent_demo, Inr (fields_message [stored_demo]))"
    by (simp add: agent_Get_def getStored_def)
  show ?thesis using g get_exact [OF demo_stored(5,3) g] by (simp add: fields_message_def)
qed

text \<open>
  A second object path below the first makes the request fail: what it selects has been collected already, and the
  code takes that for a path with no fields.
\<close>

theorem get_overlapping_objects_fails:
  assumes "collector a = None" and "isObjectPath (TrimSpace p)" and "isObjectPath (TrimSpace q)" and "HasPrefix (TrimSpace q) (TrimSpace p)"
  shows "\<exists>x. agent_Get a [p, q] = (a, Inl (EPathNotFound x))"
proof -
  let ?p = "TrimSpace p" and ?q = "TrimSpace q"
  let ?new = "filter (\<lambda>k. HasPrefix k ?p) (keys_of (avalues a))"
  have ne: "?p \<noteq> ''''" "?q \<noteq> ''''" using assms(2,3) by (auto simp: isObjectPath_def HasSuffix_def)
  have "HasPrefix k ?p" if "HasPrefix k ?q" for k using HasPrefix_trans that assms(4) by blast
  then have e: "filter (\<lambda>k. HasPrefix k ?q \<and> k \<notin> set ?new) (keys_of (avalues a)) = []" by (auto simp: filter_empty_conv)
  have "get_loop (avalues a) [] [] [p, q] = Inl (EPathNotFound (if ?new = [] then ?p else ?q))"
    using assms(2,3) ne e by (simp add: Let_def)
  then show ?thesis using assms(1) by (simp add: agent_Get_def getStored_def)
qed

theorem get_overlapping_objects_fails_witness: "\<exists>x. agent_Get agent_demo [''dev.'', ''dev.if.''] = (agent_demo, Inl (EPathNotFound x))"
  by (rule get_overlapping_objects_fails) simp_all

lemma without_trim [simp]: "without (map TrimSpace paths) vs = without paths vs"
  by (simp add: without_def fun_eq_iff)

text \<open>
  C18. On an agent without a setter, a deletion that succeeds removes exactly the fields the paths select. One that fails
  either names a blank path and changes nothing, or stops at the first path that selects nothing still stored: then exactly the
  fields the paths before it select are gone and everything else is unchanged.
\<close>

theorem delete_exact:
  assumes "setter a = None" and "agent_Delete paths a = (a', r)"
  shows "a' = a\<lparr> avalues := avalues a' \<rparr> \<and>
    (r = Inr () \<and> fmlookup (avalues a') = without paths (avalues a) \<or>
     r = Inl (invalid '''' ''empty delete path'') \<and> '''' \<in> TrimSpace ` set paths \<and> a' = a \<or>
     (\<exists>ps p qs. paths = ps @ p # qs \<and> r = Inl (EPathNotFound (TrimSpace p)) \<and> fmlookup (avalues a') = without ps (avalues a) \<and>
        (\<forall>k. selects p k \<longrightarrow> without ps (avalues a) k = None)))"
proof (cases "paths = [] \<or> '''' \<in> set (map TrimSpace paths)")
  case True
  then show ?thesis using assms(2) by (auto simp: agent_Delete_def Let_def without_def fun_eq_iff split: if_splits)
next
  case False
  obtain vs' where d: "delete_loop False (avalues a) (map TrimSpace paths) = (vs', r)" "a' = a\<lparr> avalues := vs' \<rparr>"
    using False assms by (auto simp: agent_Delete_def Let_def split: prod.splits)
  have t: "\<forall>p\<in>set (map TrimSpace paths). TrimSpace p = p" by auto
  have split: "\<exists>ps' p' qs'. paths = ps' @ p' # qs' \<and> ps = map TrimSpace ps' \<and> p = TrimSpace p'" if "map TrimSpace paths = ps @ p # qs" for ps p qs
    using that by (force simp: map_eq_append_conv)
  from delete_loop_lookup [OF d(1) t] show ?thesis
  proof
    assume "r = Inr () \<and> fmlookup vs' = without (map TrimSpace paths) (avalues a)"
    then show ?thesis using d(2) by simp
  next
    assume "\<exists>ps p qs. map TrimSpace paths = ps @ p # qs \<and> r = Inl (EPathNotFound p) \<and> \<not> False \<and> fmlookup vs' = without ps (avalues a) \<and>
      (\<forall>k. selects p k \<longrightarrow> without ps (avalues a) k = None)"
    then obtain ps p qs where "map TrimSpace paths = ps @ p # qs" "r = Inl (EPathNotFound p)" "fmlookup vs' = without ps (avalues a)"
      "\<forall>k. selects p k \<longrightarrow> without ps (avalues a) k = None" by blast
    moreover from this(1) split obtain ps' p' qs' where "paths = ps' @ p' # qs'" "ps = map TrimSpace ps'" "p = TrimSpace p'" by metis
    ultimately show ?thesis using d(2) by (intro conjI disjI2 exI [of _ ps'] exI [of _ p'] exI [of _ qs']) auto
  qed
qed

theorem delete_exact_witness:
  "\<exists>a'. agent_Delete [''dev.if.''] agent_demo = (a', Inr ()) \<and> fmlookup (avalues a') ''dev.if.3.on'' = None"
proof -
  obtain a' where d: "agent_Delete [''dev.if.''] agent_demo = (a', Inr ())"
    by (simp add: agent_Delete_def deletePathLocked_def)
  have "selects ''dev.if.'' ''dev.if.3.on''" by (simp add: selects_def)
  then show ?thesis using d delete_exact [OF demo_stored(4) d] by (auto simp: without_def)
qed

end
