(* ===== verification/Agent_Runs.thy ===== *)
theory Agent_Runs
  imports Agent_Store
begin

text \<open>
  The agent over its lifetime: a relation of the states an agent reaches by its operations and by the requests the
  transport has accepted, and the invariant that every stored field is filed under its path and valid for the schema or a count of
  instances, which the agent keeps itself and does not check.
\<close>

section \<open>Trimmed paths\<close>

lemma Join_snoc: "Join (xs @ [p]) sep = (if xs = [] then p else Join xs sep @ sep @ p)"
proof (induction xs)
  case (Cons x xs)
  then show ?case by (cases xs) (simp_all add: Join_Cons)
qed simp

lemma segment_ends:
  assumes "p \<noteq> []"
  shows "canonical_segment p \<noteq> []" "is_space (hd p) \<Longrightarrow> hd (canonical_segment p) = hd p" "is_space (last p) \<Longrightarrow> last (canonical_segment p) = last p"
proof -
  have d: "\<not> is_space c" if "is_digit c" for c using that by (auto simp: is_digit_def is_space_def)
  show "canonical_segment p \<noteq> []" using assms by (simp add: canonical_segment_def)
  show "is_space (hd p) \<Longrightarrow> hd (canonical_segment p) = hd p" "is_space (last p) \<Longrightarrow> last (canonical_segment p) = last p"
    using assms d by (auto simp: canonical_segment_def isNumericPathSegment_def list_all_iff)
qed

lemma Join_ends:
  assumes "Join (p # ps) ''.'' \<noteq> []"
  shows "hd (Join (p # ps) ''.'') = (if p = [] then CHR ''.'' else hd p)"
    "last (Join (p # ps) ''.'') = (if last (p # ps) = [] then CHR ''.'' else last (last (p # ps)))"
proof -
  show "hd (Join (p # ps) ''.'') = (if p = [] then CHR ''.'' else hd p)" using assms by (cases ps) (auto simp: Join_Cons)
  obtain xs q where q: "p # ps = xs @ [q]" by (metis append_butlast_last_id list.discI)
  show "last (Join (p # ps) ''.'') = (if last (p # ps) = [] then CHR ''.'' else last (last (p # ps)))"
    using assms unfolding q Join_snoc by auto
qed

lemma dot_not_space [simp]: "\<not> is_space (CHR ''.'')"
  by (simp add: is_space_def code_def)

lemma canonical_trim:
  assumes "TrimSpace (canonicalParamPath s) = canonicalParamPath s"
  shows "TrimSpace s = s"
proof (cases "s = []")
  case False
  obtain p ps where ps: "Split s (CHR ''.'') = p # ps" by (cases "Split s (CHR ''.'')") simp_all
  have s: "s = Join (p # ps) ''.''" using Join_Split [of s "CHR ''.''"] ps by simp
  have c: "canonicalParamPath s = Join (canonical_segment p # map canonical_segment ps) ''.''" using False ps by (simp add: canonicalParamPath_def)
  have e: "canonical_segment x = [] \<longleftrightarrow> x = []" for x by (auto simp: canonical_segment_def)
  have cne: "canonicalParamPath s \<noteq> []" using False s c e by (cases ps) (auto simp: Join_Cons)
  then have ns: "\<not> is_space (hd (canonicalParamPath s))" "\<not> is_space (last (canonicalParamPath s))"
    using TrimSpace_ends [of "canonicalParamPath s" "hd (canonicalParamPath s)" "tl (canonicalParamPath s)"] assms by simp_all
  have l: "last (canonical_segment p # map canonical_segment ps) = canonical_segment (last (p # ps))" by (simp add: last_map)
  have "\<not> is_space (hd s)"
    using ns(1) False segment_ends(2) [of p] unfolding c Join_ends(1) [OF cne [unfolded c]] by (auto simp: s Join_ends e simp del: Join.simps)
  moreover have "\<not> is_space (last s)"
    using ns(2) False segment_ends(3) [of "last (p # ps)"] unfolding c Join_ends(2) [OF cne [unfolded c]] l by (auto simp: s Join_ends e simp del: Join.simps last.simps)
  ultimately show ?thesis by (intro trimmed) simp
qed (simp add: trimmed)

section \<open>Valid stores\<close>

text \<open>The schema of the process: the index and the registry are those of its parameters, whose paths are distinct schema paths.\<close>

definition env_ok :: "env \<Rightarrow> bool" where
  "env_ok e \<longleftrightarrow> env_schema e = NewSchema (AllDeviceParams e) \<and> fillable (AllDeviceParams e) \<and>
     (\<forall>p\<in>set (AllDeviceParams e). schema_path (pPath p))"

definition valid_field :: "env \<Rightarrow> Field \<Rightarrow> bool" where
  "valid_field e f \<longleftrightarrow> Path f \<noteq> '''' \<and> ValidateFieldFast (env_re e) (env_schema e) f = Inr ()"

text \<open>A count of instances as \<open>refreshEntryCount\<close> writes it: its parameter is known, its value is not checked against the limits.\<close>

definition entry_count :: "env \<Rightarrow> Field \<Rightarrow> bool" where
  "entry_count e f \<longleftrightarrow> (\<exists>objectPath n. objectCountParamPath e objectPath = Some (Path f) \<and> field_id f = 0 \<and> Val f = Uint (of_nat n))"

definition valid_store :: "env \<Rightarrow> store \<Rightarrow> bool" where
  "valid_store e vs \<longleftrightarrow> (\<forall>k f. fmlookup vs k = Some f \<longrightarrow> Path f = k \<and> TrimSpace k = k \<and> (valid_field e f \<or> entry_count e f))"

lemma valid_store_keyed: "valid_store e vs \<Longrightarrow> keyed vs"
  by (auto simp: valid_store_def keyed_def)

lemma valid_store_empty [simp]: "valid_store e fmempty"
  by (simp add: valid_store_def)

lemma valid_store_upd:
  "valid_store e vs \<Longrightarrow> valid_field e f \<or> entry_count e f \<Longrightarrow> Path f = k \<Longrightarrow> TrimSpace k = k \<Longrightarrow> valid_store e (fmupd k f vs)"
  by (auto simp: valid_store_def)

lemma lookup_schema_path:
  assumes "env_ok e" and "lookupSafeParam (safeParamIndex (env_schema e)) path = (Some info, canonical)"
  shows "schema_path canonical" "canonical = path \<or> canonical = canonicalParamPath path"
proof -
  have "safeParamIndex (env_schema e) canonical = Some info" "canonical = path \<or> canonical = canonicalParamPath path"
    using assms(2) by (auto simp: lookupSafeParam_def Let_def split: option.splits)
  moreover from this have "canonical \<in> set (map pPath (AllDeviceParams e))" using assms(1) index_dom by (auto simp: env_ok_def NewSchema_def)
  ultimately show "schema_path canonical" "canonical = path \<or> canonical = canonicalParamPath path" using assms(1) by (auto simp: env_ok_def)
qed

lemma lookup_trimmed:
  assumes "env_ok e" and "lookupSafeParam (safeParamIndex (env_schema e)) path = (Some info, canonical)"
  shows "TrimSpace path = path"
  using lookup_schema_path [OF assms] canonical_trim [of path] by (auto simp: schema_path_def)

lemma valid_field_trimmed:
  assumes "env_ok e" and "valid_field e f"
  shows "TrimSpace (Path f) = Path f"
proof -
  obtain info canonical where "lookupSafeParam (safeParamIndex (env_schema e)) (Path f) = (Some info, canonical)"
    using assms(2) unfolding valid_field_def by (meson ValidateFieldFast_known)
  then show ?thesis using lookup_trimmed assms(1) by blast
qed

lemma index_registered:
  assumes "env_ok e" and "IDFor (globalRegistry (env_schema e)) path = (i, True)"
  shows "\<exists>info. safeParamIndex (env_schema e) path = Some info"
proof -
  have "path \<in> set (map pPath (AllDeviceParams e))"
    using assms IDFor_absent [of path "map pPath (AllDeviceParams e)"] by (auto simp: env_ok_def NewSchema_def)
  then show ?thesis using assms(1) index_present by (auto simp: env_ok_def NewSchema_def)
qed

text \<open>A valid field stays valid under the identifier the registry gives its path.\<close>

lemma valid_field_registered:
  assumes "env_ok e" and "valid_field e f" and "IDFor (globalRegistry (env_schema e)) (Path f) = (i, True)"
  shows "valid_field e (f\<lparr> field_id := i \<rparr>)"
proof -
  obtain info where "safeParamIndex (env_schema e) (Path f) = Some info" using index_registered [OF assms(1,3)] by blast
  then have l: "lookupSafeParam (safeParamIndex (env_schema e)) (Path f) = (Some info, Path f)" by (simp add: lookupSafeParam_def)
  show ?thesis using assms(2,3) l by (auto simp: valid_field_def ValidateFieldFast_def split: if_splits)
qed

lemma store_field_valid:
  assumes "env_ok e" and "valid_store e vs" and "valid_field e f"
  shows "valid_store e (store_field e f vs)"
proof -
  have t: "TrimSpace (Path f) = Path f" by (rule valid_field_trimmed [OF assms(1,3)])
  obtain i ok where i: "IDFor (globalRegistry (env_schema e)) (Path f) = (i, ok)" by force
  have "valid_field e \<lparr> field_id = (if ok then i else field_id f), Path = Path f, Val = Val f \<rparr>"
  proof (cases ok)
    case True
    then have "valid_field e (f\<lparr> field_id := i \<rparr>)" using valid_field_registered [OF assms(1,3)] i by simp
    then show ?thesis using True by (cases f) simp
  next
    case False
    then show ?thesis using assms(3) by (cases f) simp
  qed
  then show ?thesis using assms(2) t i by (auto simp: store_field_def Let_def intro!: valid_store_upd)
qed

lemma store_fields_valid:
  "env_ok e \<Longrightarrow> valid_store e vs \<Longrightarrow> \<forall>f\<in>set fs. valid_field e f \<Longrightarrow> valid_store e (fold (store_field e) fs vs)"
  by (induction fs arbitrary: vs) (auto intro: store_field_valid)

lemma validated_fields:
  "ValidateMessageFast (env_re e) (env_schema e) m = Inr () \<Longrightarrow> \<forall>f\<in>set (Fields m). valid_field e f"
  using validate_fields_ok [of "env_re e" "env_schema e" "[]" "Fields m"] by (auto simp: ValidateMessageFast_def valid_field_def)

lemma storeFields_valid:
  assumes "env_ok e" and "valid_store e (avalues a)" and "storeFields e flds already a = (a', r)"
    and "already \<Longrightarrow> \<forall>f\<in>set flds. valid_field e f"
  shows "valid_store e (avalues a')"
proof -
  let ?fs = "if already then flds else map trim_field flds"
  consider "avalues a' = avalues a" | "avalues a' = fold (store_field e) ?fs (avalues a)"
      "already \<or> ValidateMessageFast (env_re e) (env_schema e) (fields_message ?fs) = Inr ()"
    using assms(3) by (auto simp: storeFields_def Let_def split: if_splits sum.splits prod.splits option.splits)
  then show ?thesis
  proof cases
    case 2
    then have "\<forall>f\<in>set ?fs. valid_field e f" using assms(4) validated_fields [of e "fields_message ?fs"] by (cases already) (auto simp: fields_message_def)
    then show ?thesis using store_fields_valid [OF assms(1,2)] 2(1) by simp
  qed (use assms(2) in simp)
qed


lemma agent_Delete_valid:
  assumes "valid_store e (avalues a)" and "agent_Delete paths a = (a', r)"
  shows "valid_store e (avalues a')"
proof -
  have "fmlookup (avalues a') k = None \<or> fmlookup (avalues a') k = fmlookup (avalues a) k" for k
  proof (cases "avalues a' = avalues a")
    case False
    obtain w rs where s: "(case setter a of None \<Rightarrow> (world a, Some EPathUnsupported) | Some s \<Rightarrow> setter_Delete s (world a) (map TrimSpace paths)) = (w, rs)"
      by force
    obtain vs res where d: "delete_loop (rs = None) (avalues a) (map TrimSpace paths) = (vs, res)" by force
    have "a' = a" if "paths = [] \<or> '''' \<in> set (map TrimSpace paths)"
      using assms(2) that by (auto simp: agent_Delete_def Let_def split: if_splits)
    then have "paths \<noteq> []" "'''' \<notin> set (map TrimSpace paths)" using False by blast+
    then have "(a', r) = (if rs \<noteq> None \<and> rs \<noteq> Some EPathUnsupported then (a\<lparr> world := w \<rparr>, Inl (the rs)) else (a\<lparr> world := w, avalues := vs \<rparr>, res))"
      using assms(2) unfolding agent_Delete_def Let_def s prod.case d by (auto split: if_splits)
    then have "delete_loop (rs = None) (avalues a) (map TrimSpace paths) = (avalues a', r)" using False d by (simp split: if_splits)
    from delete_loop_lookup [OF this] show ?thesis by (auto simp: without_def)
  qed simp
  then have sub: "fmlookup (avalues a) k = Some f" if "fmlookup (avalues a') k = Some f" for k f using that by (metis option.distinct(1))
  show ?thesis using assms(1) unfolding valid_store_def by (blast dest: sub)
qed

lemma count_known:
  assumes "objectCountParamPath e path = Some countPath"
  obtains info canonical where "lookupSafeParam (safeParamIndex (env_schema e)) countPath = (Some info, canonical)" "countPath \<noteq> ''''"
proof -
  have "countPath \<noteq> ''''" "fst (lookupSafeParam (safeParamIndex (env_schema e)) countPath) \<noteq> None"
    using assms by (auto simp: objectCountParamPath_def Let_def split: option.splits list.splits if_splits)
  then show ?thesis using that by (cases "lookupSafeParam (safeParamIndex (env_schema e)) countPath") auto
qed

lemma refresh_valid:
  assumes "env_ok e" and "valid_store e (avalues a)"
  shows "valid_store e (avalues (refreshEntryCount e path a))"
proof (cases "objectCountParamPath e path")
  case (Some countPath)
  obtain info canonical where "lookupSafeParam (safeParamIndex (env_schema e)) countPath = (Some info, canonical)"
    using count_known [OF Some] by blast
  then have "TrimSpace countPath = countPath" by (rule lookup_trimmed [OF assms(1)])
  moreover have "entry_count e \<lparr> field_id = 0, Path = countPath, Val = Uint (of_nat n) \<rparr>" for n
    unfolding entry_count_def using Some by (intro exI [of _ path] exI [of _ n]) simp
  ultimately show ?thesis using Some assms(2) by (auto simp: refreshEntryCount_def Let_def intro!: valid_store_upd)
qed (use assms(2) in \<open>simp add: refreshEntryCount_def\<close>)

text \<open>The count is stored even where the limits of its parameter exclude it.\<close>

theorem count_outside_limits:
  assumes "objectCountParamPath e path = Some countPath"
    and "lookupSafeParam (safeParamIndex (env_schema e)) countPath = (Some info, canonical)"
    and "pType (si_param info) = TypeUnsignedInt" and "LMax (pLimits (si_param info)) = Some m"
    and "m < of_nat (length (instancePathsForObject (avalues a) path))" and "LMin (pLimits (si_param info)) = None"
  shows "\<exists>f. fmlookup (avalues (refreshEntryCount e path a)) countPath = Some f \<and>
    ValidateFieldFast (env_re e) (env_schema e) f = Inl (TValidation countPath ''value is above maximum'')"
  using assms by (simp add: refreshEntryCount_def Let_def ValidateFieldFast_def Uint_def tagMatchesParamType_def TagForParamType_def
      type_defs tag_defs validateValueFast_def validateUnsignedLimits_def below_def)

section \<open>The other operations\<close>

lemma agent_Add_effect:
  assumes "agent_Add e op initial a = (a', r)"
  shows "avalues a' = avalues a \<or> (\<exists>fs a1 r1. storeFields e fs False a = (a1, r1) \<and> (a' = a1 \<or> (\<exists>c. a' = refreshEntryCount e c a1)))"
proof -
  obtain ob canonical where l: "lookupObjectDefinition e (TrimSpace op) = (ob, canonical)" by force
  note d = assms [unfolded agent_Add_def Let_def l prod.case]
  show ?thesis
  proof (cases ob)
    case None
    then show ?thesis using d by (auto split: if_splits)
  next
    case (Some x)
    show ?thesis
    proof (cases "nextObjectInstance (snapshotValues a) (TrimSpace op) canonical")
      case (Inl err)
      then show ?thesis using d Some by (auto split: if_splits)
    next
      case (Inr va)
      obtain vals actual where va: "va = (vals, actual)" by force
      let ?i = "initial_loop canonical vals actual (buildObjectFieldsForAdd e canonical vals) (case initial of None \<Rightarrow> [] | Some m \<Rightarrow> Fields m)"
      show ?thesis
      proof (cases ?i)
        case (Inl err)
        then show ?thesis using d Some Inr va by (auto split: if_splits)
      next
        case i: (Inr flds)
        obtain a1 r1 where s: "storeFields e (sortedStoredFields flds) False a = (a1, r1)" by force
        have "a' = a \<or> a' = a1 \<or> a' = refreshEntryCount e canonical a1"
          using d Some Inr va i s by (cases r1) (auto split: if_splits)
        then show ?thesis using s by blast
      qed
    qed
  qed
qed

lemma agent_Add_valid:
  assumes "env_ok e" and "valid_store e (avalues a)" and "agent_Add e op initial a = (a', r)"
  shows "valid_store e (avalues a')"
  using agent_Add_effect [OF assms(3)]
proof (elim disjE exE conjE)
  fix fs a1 r1 assume s: "storeFields e fs False a = (a1, r1)"
  have v: "valid_store e (avalues a1)" by (rule storeFields_valid [OF assms(1,2) s]) simp
  show "valid_store e (avalues a')" if "a' = a1" using v that by simp
  show "valid_store e (avalues a')" if "a' = refreshEntryCount e c a1" for c using refresh_valid [OF assms(1) v] that by simp
qed (use assms(2) in simp)

lemma fold_upd_valid:
  "valid_store e vs \<Longrightarrow> \<forall>f\<in>set fs. valid_field e f \<and> TrimSpace (Path f) = Path f \<Longrightarrow> valid_store e (fold (\<lambda>f. fmupd (Path f) f) fs vs)"
  by (induction fs arbitrary: vs) (auto intro!: valid_store_upd)

lemma Bootstrap_valid:
  assumes "env_ok e" and "valid_store e (avalues a)" and "Bootstrap e opts a = (a', r)"
  shows "valid_store e (avalues a')"
proof -
  let ?o = "\<lparr> Profile = coalesceFillProfile (Profile opts) (fillProfile a), foDeviceID = foDeviceID opts, foTimestamp = foTimestamp opts, Overwrite = False \<rparr>"
  have env: "fillable (AllDeviceParams e)" "env_schema e = NewSchema (AllDeviceParams e)" using assms(1) by (simp_all add: env_ok_def)
  obtain m where m: "BuildFilledMessage (env_re e) (env_schema e) (AllDeviceParams e) ?o = Inr m"
    "ValidateMessageFast (env_re e) (env_schema e) m = Inr ()"
    using filled_valid [OF env(1), of "env_re e" ?o] env(2) by auto
  have "\<forall>f\<in>set (Fields m). valid_field e f \<and> TrimSpace (Path f) = Path f"
    using validated_fields [OF m(2)] valid_field_trimmed [OF assms(1)] by blast
  then show ?thesis using assms(2,3) m(1) by (auto simp: Bootstrap_def Let_def intro!: fold_upd_valid)
qed

lemma world_only:
  "agent_Get a paths = (a', r) \<Longrightarrow> avalues a' = avalues a"
  "GetInstances e a paths = (a', r') \<Longrightarrow> avalues a' = avalues a"
  "Operate p m md a = (a', s) \<Longrightarrow> avalues a' = avalues a"
  "Notify p m md a = (a', s') \<Longrightarrow> avalues a' = avalues a"
  "upload e t c a = (a', u) \<Longrightarrow> avalues a' = avalues a"
  "download e t c a = (a', u) \<Longrightarrow> avalues a' = avalues a"
  by (auto simp: agent_Get_def GetInstances_def collect_def Operate_def Notify_def upload_def download_def Let_def
      split: if_splits option.splits prod.splits sum.splits)

lemma HandleRequest_values:
  assumes "HandleRequest msg e req a = (a', r)"
  shows "avalues a' = avalues a \<or> (\<exists>m r1. qMessage req = Some m \<and> storeFields e (Fields m) True a = (a', r1)) \<or>
    (\<exists>op m r1. agent_Add e op m a = (a', r1)) \<or> (\<exists>ps r1. agent_Delete ps a = (a', r1))"
proof -
  define q where "q = resolveFastRequestPaths (runtimeDevice e) req"
  have qm: "qMessage q = qMessage req" by (simp add: q_def resolveFastRequestPaths_def)
  note d = assms [unfolded HandleRequest_def Let_def, folded q_def]
  show ?thesis using d unfolding qm
    by (auto dest: world_only split: if_splits prod.splits option.splits)
qed


lemma HandleRequest_valid:
  assumes "env_ok e" and "valid_store e (avalues a)" and "validateUSPAgentRequest (env_re e) (env_schema e) req = Inr ()"
    and "HandleRequest msg e req a = (a', r)"
  shows "valid_store e (avalues a')"
proof -
  have "\<forall>f\<in>set (Fields m). valid_field e f" if "qMessage req = Some m" for m
    using assms(3) that validated_fields [of e m] unfolding validateUSPAgentRequest_def by (auto split: if_splits sum.splits)
  then show ?thesis using HandleRequest_values [OF assms(4)] assms(2) storeFields_valid [OF assms(1,2)] agent_Add_valid [OF assms(1,2)] agent_Delete_valid [OF assms(2)]
    by metis
qed

section \<open>Reachable agents\<close>

text \<open>
  The agents that reach from one another by the operations. The lock is released between the parts of an addition, so that
  the refresh of a count is a step of its own as well: it may come after the operations of others.
\<close>

inductive agent_reach :: "env \<Rightarrow> 'w USPAgent \<Rightarrow> bool" for e where
  start: "agent_reach e (NewUSPAgent profile opts)"
| bootstrap: "agent_reach e a \<Longrightarrow> Bootstrap e opts a = (a', r) \<Longrightarrow> agent_reach e a'"
| set_one: "agent_reach e a \<Longrightarrow> agent_Set e path v a = (a', r) \<Longrightarrow> agent_reach e a'"
| set_many: "agent_reach e a \<Longrightarrow> SetBatch e flds a = (a', r) \<Longrightarrow> agent_reach e a'"
| refresh: "agent_reach e a \<Longrightarrow> agent_reach e (refreshEntryCount e path a)"
| add: "agent_reach e a \<Longrightarrow> agent_Add e path m a = (a', r1) \<Longrightarrow> agent_reach e a'"
| delete: "agent_reach e a \<Longrightarrow> agent_Delete paths a = (a', r) \<Longrightarrow> agent_reach e a'"
| get: "agent_reach e a \<Longrightarrow> agent_Get a paths = (a', r2) \<Longrightarrow> agent_reach e a'"
| request: "agent_reach e a \<Longrightarrow> validateUSPAgentRequest (env_re e) (env_schema e) req = Inr () \<Longrightarrow>
    HandleRequest msg e req a = (a', r3) \<Longrightarrow> agent_reach e a'"

lemma reach_valid:
  assumes "agent_reach e a" and "env_ok e"
  shows "valid_store e (avalues a)"
  using assms(1)
proof induction
  case (start profile opts)
  then show ?case by (simp add: NewUSPAgent_def)
next
  case (bootstrap a opts a' r)
  then show ?case using Bootstrap_valid assms(2) by blast
next
  case (set_one a path v a' r)
  then show ?case using storeFields_valid [OF assms(2), of a _ False a' r] by (simp add: agent_Set_def)
next
  case (set_many a flds a' r)
  then show ?case using storeFields_valid [OF assms(2), of a _ False a' r] by (simp add: SetBatch_def)
next
  case (refresh a path)
  then show ?case using refresh_valid assms(2) by blast
next
  case (add a path m a' r1)
  then show ?case using agent_Add_valid assms(2) by blast
next
  case (delete a paths a' r)
  then show ?case using agent_Delete_valid by blast
next
  case (get a paths a' r2)
  then show ?case using world_only(1) by metis
next
  case (request a req msg a' r3)
  then show ?case using HandleRequest_valid assms(2) by blast
qed

lemma stored_fields_message:
  assumes "valid_store e vs" and "\<forall>f\<in>set fs. fmlookup vs (Path f) = Some f" and "distinct (map Path fs)"
  shows "\<forall>f\<in>set fs. valid_field e f \<or> entry_count e f"
    and "\<forall>f\<in>set fs. valid_field e f \<Longrightarrow> ValidateMessageFast (env_re e) (env_schema e) (fields_message fs) = Inr ()"
proof -
  show "\<forall>f\<in>set fs. valid_field e f \<or> entry_count e f" using assms by (auto simp: valid_store_def)
  assume "\<forall>f\<in>set fs. valid_field e f"
  then show "ValidateMessageFast (env_re e) (env_schema e) (fields_message fs) = Inr ()"
    unfolding ValidateMessageFast_def using assms(3) by (intro validate_fields_all) (auto simp: fields_message_def valid_field_def)
qed


text \<open>A process that knows one parameter, and an agent there that has been set.\<close>

definition env_demo :: env where
  "env_demo = \<lparr> env_re = \<lambda>_ _. True, env_schema = NewSchema device_demo, AllDeviceObjects = [], AllDeviceParams = device_demo,
     runtimeDevice = (case NewDevice [] device_demo of Inr d \<Rightarrow> d | Inl _ \<Rightarrow> undefined), BroadbandDataModels = [] \<rparr>"

lemma env_demo_ok: "env_ok env_demo"
  using demo_strings(7) by (simp add: env_ok_def env_demo_def device_demo_def fillable_def HasSuffix_def)


end
