(* ===== verification/Events.thy ===== *)
theory Events
  imports Transport_Roundtrip
begin

text \<open>
  Events of an agent and subscriptions to them, \<open>src/internal/wusp/usp_events.go\<close>. An event travels as a notify
  request: its type and attributes in the metadata, its parameters as a message of string values. The loop
  over a map of parameters takes the keys in order, where the code takes them in any order. A map without entries
  stands for the nil map. The in-process handler of a subscription, which no function of the file calls, is left out.
\<close>

section \<open>Events\<close>

type_synonym USPEventType = "8 word"

definition USPEventTypeEvent :: USPEventType where "USPEventTypeEvent = 1"
definition USPEventTypeValueChange :: USPEventType where "USPEventTypeValueChange = 2"
definition USPEventTypeObjectCreation :: USPEventType where "USPEventTypeObjectCreation = 3"
definition USPEventTypeObjectDeletion :: USPEventType where "USPEventTypeObjectDeletion = 4"
definition USPEventTypeOperationComplete :: USPEventType where "USPEventTypeOperationComplete = 5"
definition USPEventTypeOnBoardRequest :: USPEventType where "USPEventTypeOnBoardRequest = 6"

lemmas event_type_defs = USPEventTypeEvent_def USPEventTypeValueChange_def USPEventTypeObjectCreation_def USPEventTypeObjectDeletion_def
  USPEventTypeOperationComplete_def USPEventTypeOnBoardRequest_def

record USPEventError =
  eeCode :: "32 word"
  eeMessage :: string

record USPOnBoardInfo =
  OUI :: string
  ProductClass :: string
  SerialNumber :: string
  Manufacturer :: string
  SoftwareVersion :: string
  AgentSupportedProtocolVersions :: string

record USPEvent =
  evType :: USPEventType
  SubscriptionID :: string
  ObjPath :: string
  EventName :: string
  CommandKey :: string
  evParams :: "(string, string) fmap"
  ParamValue :: string
  Err :: "USPEventError option"
  OnBoard :: "USPOnBoardInfo option"

record USPSubscription =
  subID :: string
  Types :: "USPEventType list"
  PathFilter :: "string list"
  EventFilter :: "string list"

definition eventMetaType :: string where "eventMetaType = ''event_type''"
definition eventMetaSubID :: string where "eventMetaSubID = ''subscription_id''"
definition eventMetaName :: string where "eventMetaName = ''event_name''"
definition eventMetaCmdKey :: string where "eventMetaCmdKey = ''command_key''"
definition eventMetaParamValue :: string where "eventMetaParamValue = ''param_value''"
definition eventMetaErrCode :: string where "eventMetaErrCode = ''error_code''"
definition eventMetaErrMsg :: string where "eventMetaErrMsg = ''error_message''"
definition eventMetaOUI :: string where "eventMetaOUI = ''oui''"
definition eventMetaPC :: string where "eventMetaPC = ''product_class''"
definition eventMetaSN :: string where "eventMetaSN = ''serial_number''"
definition eventMetaMfg :: string where "eventMetaMfg = ''manufacturer''"
definition eventMetaSWVer :: string where "eventMetaSWVer = ''software_version''"
definition eventMetaPV :: string where "eventMetaPV = ''protocol_versions''"
definition subMetaAction :: string where "subMetaAction = ''wusp_action''"
definition subMetaID :: string where "subMetaID = ''wusp_sub_id''"
definition subMetaTypes :: string where "subMetaTypes = ''wusp_sub_types''"
definition subMetaPaths :: string where "subMetaPaths = ''wusp_sub_paths''"
definition subMetaEvents :: string where "subMetaEvents = ''wusp_sub_events''"
definition subActionAdd :: string where "subActionAdd = ''subscribe''"
definition subActionRemove :: string where "subActionRemove = ''unsubscribe''"

lemmas meta_defs = eventMetaType_def eventMetaSubID_def eventMetaName_def eventMetaCmdKey_def eventMetaParamValue_def eventMetaErrCode_def
  eventMetaErrMsg_def eventMetaOUI_def eventMetaPC_def eventMetaSN_def eventMetaMfg_def eventMetaSWVer_def eventMetaPV_def
  subMetaAction_def subMetaID_def subMetaTypes_def subMetaPaths_def subMetaEvents_def subActionAdd_def subActionRemove_def

text \<open>Reading a map of strings, where a missing key gives the empty string, and writing an attribute that is not empty.\<close>

definition meta_get :: "(string, string) fmap \<Rightarrow> string \<Rightarrow> string" where
  "meta_get m k = (case fmlookup m k of None \<Rightarrow> '''' | Some v \<Rightarrow> v)"

definition meta_put :: "string \<Rightarrow> string \<Rightarrow> (string, string) fmap \<Rightarrow> (string, string) fmap" where
  "meta_put k v m = (if v \<noteq> '''' then fmupd k v m else m)"

definition eventParamsToMessage :: "(string, string) fmap \<Rightarrow> Message option" where
  "eventParamsToMessage params =
     (if params = fmempty then None
      else Some \<lparr> DeviceID = '''', Timestamp = 0,
             Fields = map (\<lambda>k. \<lparr> field_id = 0, Path = k, Val = StringV (the (fmlookup params k)) \<rparr>) (sorted_keys params) \<rparr>)"

definition eventMessageToParams :: "Message option \<Rightarrow> (string, string) fmap" where
  "eventMessageToParams m =
     (case m of None \<Rightarrow> fmempty | Some m \<Rightarrow> fold (\<lambda>f out. fmupd (Path f) (AsString (Val f)) out) (Fields m) fmempty)"

definition put_onboard :: "USPOnBoardInfo \<Rightarrow> (string, string) fmap \<Rightarrow> (string, string) fmap" where
  "put_onboard ob m =
     meta_put eventMetaPV (AgentSupportedProtocolVersions ob) (meta_put eventMetaSWVer (SoftwareVersion ob)
       (meta_put eventMetaMfg (Manufacturer ob) (meta_put eventMetaSN (SerialNumber ob)
         (meta_put eventMetaPC (ProductClass ob) (meta_put eventMetaOUI (OUI ob) m)))))"

text \<open>The metadata and the message of an event: the switch of \<open>EncodeEventToRequest\<close>.\<close>

definition event_payload :: "USPEvent \<Rightarrow> (string, string) fmap \<times> Message option" where
  "event_payload ev =
     (let meta = meta_put eventMetaSubID (SubscriptionID ev) (fmupd eventMetaType (utoa (unat (evType ev))) fmempty); t = evType ev in
      if t = USPEventTypeEvent then (meta_put eventMetaName (EventName ev) meta, eventParamsToMessage (evParams ev))
      else if t = USPEventTypeValueChange then (fmupd eventMetaParamValue (ParamValue ev) meta, None)
      else if t = USPEventTypeObjectCreation then (meta, eventParamsToMessage (evParams ev))
      else if t = USPEventTypeObjectDeletion then (meta, None)
      else if t = USPEventTypeOperationComplete then
        (let meta' = meta_put eventMetaCmdKey (CommandKey ev) (meta_put eventMetaName (EventName ev) meta) in
         case Err ev of
           Some e \<Rightarrow> (meta_put eventMetaErrMsg (eeMessage e) (fmupd eventMetaErrCode (utoa (unat (eeCode e))) meta'), None)
         | None \<Rightarrow> (meta', eventParamsToMessage (evParams ev)))
      else if t = USPEventTypeOnBoardRequest then
        (case OnBoard ev of Some ob \<Rightarrow> (put_onboard ob meta, None) | None \<Rightarrow> (meta, None))
      else (meta, None))"

definition notify_request :: "64 word \<Rightarrow> string list \<Rightarrow> string \<Rightarrow> Message option \<Rightarrow> (string, string) fmap \<Rightarrow> USPAgentRequest" where
  "notify_request i paths objectPath m meta =
     \<lparr> qID = i, qMethod = USPAgentMethodNotify, qPaths = paths, qPathCodes = [], qPathInstances = [], qObjectPath = objectPath, qObjectCode = 0,
       qObjectInstances = [], qMessage = m, qTransfer = None, qMetadata = meta \<rparr>"

definition EncodeEventToRequest :: "USPEvent \<Rightarrow> 64 word \<Rightarrow> USPAgentRequest" where
  "EncodeEventToRequest ev i =
     (let (meta, m) = event_payload ev; objPath = TrimSpace (ObjPath ev) in
      if isObjectPath objPath then notify_request i [] objPath m meta
      else notify_request i (if objPath \<noteq> '''' then [objPath] else []) '''' m meta)"

text \<open>\<open>strconv.ParseUint(s, 10, 32)\<close> with its error ignored: the largest value when the number is out of range.\<close>

definition ParseUint32 :: "string \<Rightarrow> 32 word" where
  "ParseUint32 s =
     (if \<not> isNumericPathSegment s then 0 else if digits_val s < 2 ^ 32 then of_nat (digits_val s) else 0xFFFFFFFF)"

definition empty_event :: "USPEventType \<Rightarrow> string \<Rightarrow> string \<Rightarrow> USPEvent" where
  "empty_event t sub path =
     \<lparr> evType = t, SubscriptionID = sub, ObjPath = path, EventName = '''', CommandKey = '''', evParams = fmempty, ParamValue = '''', Err = None, OnBoard = None \<rparr>"

definition DecodeEventFromRequest :: "USPAgentRequest \<Rightarrow> usp_error + USPEvent" where
  "DecodeEventFromRequest q =
     (if qMethod q \<noteq> USPAgentMethodNotify then Inl (TMalformed '''')
      else case fmlookup (qMetadata q) eventMetaType of
        None \<Rightarrow> Inl (TMalformed '''')
      | Some typeStr \<Rightarrow>
          (case Atoi typeStr of
             None \<Rightarrow> Inl (TMalformed '''')
           | Some n \<Rightarrow>
               if n < 1 \<or> 6 < n then Inl (TMalformed '''')
               else
                 let md = meta_get (qMetadata q); t = word_of_int n;
                     objPath = (if qObjectPath q = '''' \<and> qPaths q \<noteq> [] then hd (qPaths q) else qObjectPath q);
                     ev = empty_event t (md eventMetaSubID) objPath
                 in Inr
                   (if t = USPEventTypeEvent then ev\<lparr> EventName := md eventMetaName, evParams := eventMessageToParams (qMessage q) \<rparr>
                    else if t = USPEventTypeValueChange then ev\<lparr> ParamValue := md eventMetaParamValue \<rparr>
                    else if t = USPEventTypeObjectCreation then ev\<lparr> evParams := eventMessageToParams (qMessage q) \<rparr>
                    else if t = USPEventTypeObjectDeletion then ev
                    else if t = USPEventTypeOperationComplete then
                      (let ev' = ev\<lparr> EventName := md eventMetaName, CommandKey := md eventMetaCmdKey \<rparr> in
                       case fmlookup (qMetadata q) eventMetaErrCode of
                         Some codeStr \<Rightarrow> ev'\<lparr> Err := Some \<lparr> eeCode = ParseUint32 codeStr, eeMessage = md eventMetaErrMsg \<rparr> \<rparr>
                       | None \<Rightarrow> ev'\<lparr> evParams := eventMessageToParams (qMessage q) \<rparr>)
                    else if t = USPEventTypeOnBoardRequest then
                      ev\<lparr> OnBoard := Some \<lparr> OUI = md eventMetaOUI, ProductClass = md eventMetaPC, SerialNumber = md eventMetaSN,
                            Manufacturer = md eventMetaMfg, SoftwareVersion = md eventMetaSWVer, AgentSupportedProtocolVersions = md eventMetaPV \<rparr> \<rparr>
                    else ev)))"

definition IsEventNotifyRequest :: "USPAgentRequest \<Rightarrow> bool" where
  "IsEventNotifyRequest q \<longleftrightarrow> qMethod q = USPAgentMethodNotify \<and> fmlookup (qMetadata q) eventMetaType \<noteq> None"

section \<open>Subscriptions\<close>

definition IsSubscriptionRequest :: "USPAgentRequest \<Rightarrow> bool" where
  "IsSubscriptionRequest q \<longleftrightarrow>
     qMethod q = USPAgentMethodNotify \<and> TrimSpace (meta_get (qMetadata q) subMetaAction) \<in> {subActionAdd, subActionRemove}"

definition put_list :: "string \<Rightarrow> string list \<Rightarrow> (string, string) fmap \<Rightarrow> (string, string) fmap" where
  "put_list k vs m = (if vs \<noteq> [] then fmupd k (Join vs '','') m else m)"

definition EncodeSubscribeRequest :: "64 word \<Rightarrow> string \<Rightarrow> USPEventType list \<Rightarrow> string list \<Rightarrow> string list \<Rightarrow> USPAgentRequest" where
  "EncodeSubscribeRequest i sid ts pathFilter eventFilter =
     notify_request i [] '''' None
       (put_list subMetaEvents eventFilter (put_list subMetaPaths pathFilter (put_list subMetaTypes (map (\<lambda>t. utoa (unat t)) ts)
         (fmupd subMetaID sid (fmupd subMetaAction subActionAdd fmempty)))))"

definition EncodeUnsubscribeRequest :: "64 word \<Rightarrow> string \<Rightarrow> USPAgentRequest" where
  "EncodeUnsubscribeRequest i sid = notify_request i [] '''' None (fmupd subMetaID sid (fmupd subMetaAction subActionRemove fmempty))"

definition split_list :: "string \<Rightarrow> string list" where
  "split_list s = (if s = '''' then [] else Split s (CHR '',''))"

fun parse_types :: "string list \<Rightarrow> USPEventType list" where
  "parse_types [] = []"
| "parse_types (s # ss) =
     (case Atoi (TrimSpace s) of
        Some n \<Rightarrow> (if 1 \<le> n \<and> n \<le> 6 then word_of_int n # parse_types ss else parse_types ss)
      | None \<Rightarrow> parse_types ss)"

definition DecodeSubscriptionFromRequest :: "USPAgentRequest \<Rightarrow> string \<times> USPSubscription" where
  "DecodeSubscriptionFromRequest q =
     (let md = meta_get (qMetadata q); kept = (\<lambda>k. filter (\<lambda>p. p \<noteq> '''') (map TrimSpace (split_list (md k)))) in
      (TrimSpace (md subMetaAction),
       \<lparr> subID = TrimSpace (md subMetaID), Types = parse_types (split_list (md subMetaTypes)), PathFilter = kept subMetaPaths,
         EventFilter = kept subMetaEvents \<rparr>))"

definition subscriptionMatches :: "USPSubscription \<Rightarrow> USPEvent \<Rightarrow> bool" where
  "subscriptionMatches s ev \<longleftrightarrow>
     (Types s \<noteq> [] \<longrightarrow> list_ex (\<lambda>t. t = evType ev) (Types s)) \<and>
     (PathFilter s \<noteq> [] \<longrightarrow> list_ex (\<lambda>p. HasPrefix (ObjPath ev) p) (PathFilter s)) \<and>
     (evType ev = USPEventTypeEvent \<and> EventFilter s \<noteq> [] \<longrightarrow> list_ex (\<lambda>n. n = EventName ev) (EventFilter s))"

section \<open>Round trips\<close>

lemma ParseUint32_utoa: "ParseUint32 (utoa (unat (w :: 32 word))) = w"
proof -
  have "isNumericPathSegment (utoa (unat w))" using utoa_digits [of "unat w"] utoa_nonempty(1) by (simp add: isNumericPathSegment_def list_all_iff)
  moreover have "unat w < 2 ^ 32" using unsigned_less [of w] by simp
  ultimately show ?thesis by (simp add: ParseUint32_def digits_val_utoa)
qed

lemma AsString_StringV [simp]: "AsString (StringV s) = s"
  by (simp add: AsString_def StringV_def comp_def)

lemma params_roundtrip [simp]: "eventMessageToParams (eventParamsToMessage params) = params"
proof (cases "params = fmempty")
  case False
  have "fmlookup (fold (\<lambda>k out. fmupd k (g k) out) ks m0) k = (if k \<in> set ks then Some (g k) else fmlookup m0 k)"
    for ks m0 k and g :: "string \<Rightarrow> string"
    by (induction ks arbitrary: m0) auto
  then have "fmlookup (eventMessageToParams (eventParamsToMessage params)) k = fmlookup params k" for k
    using False by (auto simp: eventMessageToParams_def eventParamsToMessage_def fold_map comp_def sorted_keys_def fmlookup_dom_iff)
  then show ?thesis by (intro fmap_ext) simp
qed (simp add: eventMessageToParams_def eventParamsToMessage_def)

lemma meta_get_upd [simp]: "meta_get (fmupd k v m) k' = (if k' = k then v else meta_get m k')"
  by (simp add: meta_get_def)

lemma meta_get_empty [simp]: "meta_get fmempty k = ''''"
  by (simp add: meta_get_def)

lemma meta_get_put [simp]: "meta_get (meta_put k v m) k' = (if k' = k \<and> v \<noteq> '''' then v else meta_get m k')"
  by (simp add: meta_put_def)

lemma fmlookup_put [simp]: "fmlookup (meta_put k v m) k' = (if k' = k \<and> v \<noteq> '''' then Some v else fmlookup m k')"
  by (simp add: meta_put_def)

text \<open>Which attributes the type of an event carries.\<close>

definition event_wf :: "USPEvent \<Rightarrow> bool" where
  "event_wf ev \<longleftrightarrow>
     1 \<le> evType ev \<and> evType ev \<le> 6 \<and> TrimSpace (ObjPath ev) = ObjPath ev \<and>
     (EventName ev \<noteq> '''' \<longrightarrow> evType ev \<in> {USPEventTypeEvent, USPEventTypeOperationComplete}) \<and>
     (CommandKey ev \<noteq> '''' \<longrightarrow> evType ev = USPEventTypeOperationComplete) \<and>
     (evParams ev \<noteq> fmempty \<longrightarrow> evType ev \<in> {USPEventTypeEvent, USPEventTypeObjectCreation, USPEventTypeOperationComplete} \<and> Err ev = None) \<and>
     (ParamValue ev \<noteq> '''' \<longrightarrow> evType ev = USPEventTypeValueChange) \<and>
     (Err ev \<noteq> None \<longrightarrow> evType ev = USPEventTypeOperationComplete) \<and>
     (OnBoard ev \<noteq> None \<longleftrightarrow> evType ev = USPEventTypeOnBoardRequest)"

lemma event_types: "1 \<le> t \<Longrightarrow> t \<le> 6 \<Longrightarrow> t = 1 \<or> t = 2 \<or> t = 3 \<or> t = 4 \<or> t = 5 \<or> t = (6 :: USPEventType)"
proof -
  assume "1 \<le> t" "t \<le> 6"
  then have "1 \<le> unat t" "unat t \<le> 6" by (simp_all add: word_le_nat_alt)
  then have "unat t \<in> {1, 2, 3, 4, 5, 6}" by auto
  moreover have "t = of_nat (unat t)" by simp
  ultimately show ?thesis by (elim insertE) auto
qed

lemma encoded_event:
  assumes "TrimSpace (ObjPath ev) = ObjPath ev"
  shows "qMethod (EncodeEventToRequest ev i) = USPAgentMethodNotify" "qMetadata (EncodeEventToRequest ev i) = fst (event_payload ev)"
    "qMessage (EncodeEventToRequest ev i) = snd (event_payload ev)"
    "(if qObjectPath (EncodeEventToRequest ev i) = '''' \<and> qPaths (EncodeEventToRequest ev i) \<noteq> [] then hd (qPaths (EncodeEventToRequest ev i))
      else qObjectPath (EncodeEventToRequest ev i)) = ObjPath ev"
  using assms by (auto simp: EncodeEventToRequest_def notify_request_def Let_def case_prod_unfold)

lemma payload_type: "fmlookup (fst (event_payload ev)) eventMetaType = Some (utoa (unat (evType ev)))"
  by (auto simp: event_payload_def Let_def put_onboard_def meta_defs split: option.splits)

lemma event_decoded:
  assumes "event_wf ev"
  shows "DecodeEventFromRequest (EncodeEventToRequest ev i) = Inr ev"
proof -
  have wf: "1 \<le> evType ev" "evType ev \<le> 6" "TrimSpace (ObjPath ev) = ObjPath ev" using assms by (simp_all add: event_wf_def)
  note e = encoded_event [OF wf(3), of i]
  have n: "1 \<le> unat (evType ev)" "unat (evType ev) \<le> 6" using wf(1,2) by (simp_all add: word_le_nat_alt)
  then have a: "Atoi (utoa (unat (evType ev))) = Some (int (unat (evType ev)))" by (intro Atoi_utoa) simp
  have w: "word_of_int (int (unat (evType ev))) = evType ev" by simp
  have b: "\<not> (int (unat (evType ev)) < 1 \<or> 6 < int (unat (evType ev)))" using n by linarith
  note d = DecodeEventFromRequest_def e(1) e(2) payload_type option.case a e(3) w Let_def e(4) if_not_P [OF b]
  note defs = event_payload_def Let_def event_wf_def event_type_defs empty_event_def meta_defs
  consider "evType ev = 1" | "evType ev = 2" | "evType ev = 3" | "evType ev = 4" | "evType ev = 5" "Err ev = None"
    | x where "evType ev = 5" "Err ev = Some x" | ob where "evType ev = 6" "OnBoard ev = Some ob"
    using event_types [OF wf(1,2)] assms by (cases "Err ev"; cases "OnBoard ev") (auto simp: event_wf_def event_type_defs)
  then show ?thesis
  proof cases
    case 1
    then show ?thesis using assms unfolding d by (cases ev) (simp add: defs)
  next
    case 2
    then show ?thesis using assms unfolding d by (cases ev) (simp add: defs)
  next
    case 3
    then show ?thesis using assms unfolding d by (cases ev) (simp add: defs)
  next
    case 4
    then show ?thesis using assms unfolding d by (cases ev) (simp add: defs)
  next
    case 5
    then show ?thesis using assms unfolding d by (cases ev) (simp add: defs)
  next
    case (6 x)
    then show ?thesis using assms unfolding d by (cases ev; cases x) (simp add: defs ParseUint32_utoa)
  next
    case (7 ob)
    then show ?thesis using assms unfolding d by (cases ev; cases ob) (simp add: defs put_onboard_def)
  qed
qed

text \<open>
  C35. An event that only has the attributes of its type is recognised as an event and decoded to the same event from the
  request it is sent as.
\<close>

theorem event_roundtrip:
  assumes "event_wf ev"
  shows "IsEventNotifyRequest (EncodeEventToRequest ev i) \<and> DecodeEventFromRequest (EncodeEventToRequest ev i) = Inr ev"
proof -
  have "TrimSpace (ObjPath ev) = ObjPath ev" using assms by (simp add: event_wf_def)
  then have "IsEventNotifyRequest (EncodeEventToRequest ev i)" using encoded_event [of ev i] by (simp add: IsEventNotifyRequest_def payload_type)
  then show ?thesis using event_decoded [OF assms] by simp
qed

definition event_demo :: USPEvent where
  "event_demo = (empty_event USPEventTypeOperationComplete ''s1'' ''Device.'')\<lparr> EventName := ''Reboot()'', CommandKey := ''k'',
     Err := Some \<lparr> eeCode = 7002, eeMessage = ''denied'' \<rparr> \<rparr>"

theorem event_roundtrip_witness:
  "event_wf event_demo \<and> DecodeEventFromRequest (EncodeEventToRequest event_demo 1) = Inr event_demo"
proof -
  have "event_wf event_demo"
    by (simp add: event_wf_def event_demo_def empty_event_def event_type_defs TrimSpace_def TrimLeft_def TrimRight_def is_space_def code_def)
  then show ?thesis using event_roundtrip [of event_demo 1] by simp
qed

text \<open>Lists of names without commas.\<close>

definition plain_name :: "string \<Rightarrow> bool" where
  "plain_name s \<longleftrightarrow> s \<noteq> '''' \<and> TrimSpace s = s \<and> CHR '','' \<notin> set s"

lemma Join_nonempty: "ps \<noteq> [] \<Longrightarrow> hd ps \<noteq> '''' \<Longrightarrow> Join ps sep \<noteq> ''''"
  by (cases ps; cases "tl ps") (auto simp: Join_Cons)

lemma names_restored:
  assumes "\<forall>p\<in>set ps. plain_name p"
  shows "split_list (if ps = [] then '''' else Join ps '','') = ps" "filter (\<lambda>p. p \<noteq> '''') (map TrimSpace ps) = ps"
proof -
  show "split_list (if ps = [] then '''' else Join ps '','') = ps"
  proof (cases ps)
    case (Cons p qs)
    then have "Join ps '','' \<noteq> ''''" using assms by (intro Join_nonempty) (auto simp: plain_name_def)
    moreover have "Split (Join ps '','') (CHR '','') = ps" using Cons assms Split_Join_comma [of ps "CHR '',''"] by (auto simp: plain_name_def)
    ultimately show ?thesis using Cons by (simp add: split_list_def del: Join.simps)
  qed (simp add: split_list_def)
  have "map TrimSpace ps = ps" using assms by (intro map_idI) (auto simp: plain_name_def)
  then show "filter (\<lambda>p. p \<noteq> '''') (map TrimSpace ps) = ps" using assms by (auto simp: plain_name_def intro: filter_True)
qed

lemma meta_get_list: "meta_get (put_list k vs m) k' = (if k' = k \<and> vs \<noteq> [] then Join vs '','' else meta_get m k')"
  by (auto simp: put_list_def)

lemma type_name: "1 \<le> t \<Longrightarrow> t \<le> 6 \<Longrightarrow> plain_name (utoa (unat (t :: USPEventType))) \<and> Atoi (TrimSpace (utoa (unat t))) = Some (int (unat t))"
proof -
  assume "1 \<le> t" "t \<le> 6"
  then have n: "1 \<le> unat t" "unat t \<le> 6" by (simp_all add: word_le_nat_alt)
  have d: "is_digit c" if "c \<in> set (utoa (unat t))" for c using that utoa_digits by blast
  have sp: "\<not> is_space c" if "is_digit c" for c using that by (auto simp: is_digit_def is_space_def)
  have "TrimSpace (utoa (unat t)) = utoa (unat t)"
    using d sp utoa_nonempty(1) [of "unat t"] by (intro trimmed) simp
  moreover have "CHR '','' \<notin> set (utoa (unat t))" using d by (force simp: is_digit_def code_def)
  moreover have "Atoi (utoa (unat t)) = Some (int (unat t))" using n by (intro Atoi_utoa) simp
  ultimately show ?thesis using utoa_nonempty(1) by (simp add: plain_name_def)
qed

lemma types_restored: "\<forall>t\<in>set ts. 1 \<le> t \<and> t \<le> 6 \<Longrightarrow> parse_types (map (\<lambda>t. utoa (unat t)) ts) = ts"
proof (induction ts)
  case (Cons t ts)
  then have t: "1 \<le> t" "t \<le> 6" by simp_all
  then have "1 \<le> unat t" "unat t \<le> 6" by (simp_all add: word_le_nat_alt)
  then have "1 \<le> int (unat t) \<and> int (unat t) \<le> 6" by linarith
  moreover have "(word_of_int (int (unat t)) :: USPEventType) = t" by simp
  ultimately show ?case using Cons type_name [OF t] by (simp del: of_nat_unat)
qed simp

text \<open>
  A subscription is read back from the request it is sent as, when its names contain no comma and no surrounding space.
\<close>

theorem subscription_roundtrip:
  assumes "TrimSpace sid = sid" and "\<forall>t\<in>set ts. 1 \<le> t \<and> t \<le> 6" and "\<forall>p\<in>set paths. plain_name p" and "\<forall>n\<in>set events. plain_name n"
  shows "IsSubscriptionRequest (EncodeSubscribeRequest i sid ts paths events) \<and>
    DecodeSubscriptionFromRequest (EncodeSubscribeRequest i sid ts paths events) =
      (subActionAdd, \<lparr> subID = sid, Types = ts, PathFilter = paths, EventFilter = events \<rparr>)"
proof -
  let ?tn = "map (\<lambda>t. utoa (unat t)) ts"
  have tn: "\<forall>p\<in>set ?tn. plain_name p" using assms(2) type_name by auto
  have act: "TrimSpace subActionAdd = subActionAdd" by (simp add: subActionAdd_def TrimSpace_def TrimLeft_def TrimRight_def is_space_def code_def)
  note n = names_restored [OF assms(3)] names_restored [OF assms(4)]
  have t: "parse_types (split_list (if ?tn = [] then '''' else Join ?tn '','')) = ts" unfolding names_restored(1) [OF tn] by (rule types_restored [OF assms(2)])
  show ?thesis using assms(1) act n t
    by (auto simp: IsSubscriptionRequest_def DecodeSubscriptionFromRequest_def EncodeSubscribeRequest_def notify_request_def Let_def meta_get_list meta_defs
        split: if_splits)
qed

definition subscription_demo :: USPAgentRequest where
  "subscription_demo = EncodeSubscribeRequest 4 ''dash'' [USPEventTypeValueChange] [''Device.WiFi.''] []"

theorem subscription_roundtrip_witness:
  "DecodeSubscriptionFromRequest subscription_demo =
     (''subscribe'', \<lparr> subID = ''dash'', Types = [2], PathFilter = [''Device.WiFi.''], EventFilter = [] \<rparr>)"
  unfolding subscription_demo_def
  by (subst conjunct2 [OF subscription_roundtrip])
    (simp_all add: event_type_defs subActionAdd_def plain_name_def TrimSpace_def TrimLeft_def TrimRight_def is_space_def code_def)

section \<open>Requests that cannot be sent\<close>

lemma notify_not_encodable:
  assumes "qMethod q = USPAgentMethodNotify" and "TrimSpace (qObjectPath q) = ''''" and "qObjectCode q = 0"
  shows "\<exists>err. EncodeUSPAgentRequest re sc d q = Inl err"
proof -
  let ?q = "compactRequestSelectors d q"
  have c: "qMethod ?q = USPAgentMethodNotify" "TrimSpace (qObjectPath ?q) = ''''" "qObjectCode ?q = 0"
    using assms by (simp_all add: compactRequestSelectors_def compact_object_def case_prod_unfold Let_def)
  have m: "\<exists>err. check_method ?q = Inl err" using c by (simp add: check_method_def method_defs)
  have "\<exists>err. validateUSPAgentRequest re sc ?q = Inl err"
  proof (rule ccontr)
    assume "\<nexists>err. validateUSPAgentRequest re sc ?q = Inl err"
    then obtain u where "validateUSPAgentRequest re sc ?q = Inr u" by (cases "validateUSPAgentRequest re sc ?q") auto
    then show False using m unfolding validateUSPAgentRequest_def by (auto split: if_splits sum.splits)
  qed
  then show ?thesis by (auto simp: EncodeUSPAgentRequest_def Let_def)
qed

text \<open>
  An event of a parameter, or of no path, cannot be sent: the codec of requests refuses a notification without an
  object path, so no value change of a parameter ever reaches the controller through it.
\<close>

theorem parameter_events_unsendable:
  assumes "\<not> isObjectPath (TrimSpace (ObjPath ev))"
  shows "\<exists>err. EncodeUSPAgentRequest re sc d (EncodeEventToRequest ev i) = Inl err"
proof (rule notify_not_encodable)
  show "qMethod (EncodeEventToRequest ev i) = USPAgentMethodNotify" "TrimSpace (qObjectPath (EncodeEventToRequest ev i)) = ''''"
    "qObjectCode (EncodeEventToRequest ev i) = 0"
    using assms by (simp_all add: EncodeEventToRequest_def notify_request_def Let_def case_prod_unfold TrimSpace_def TrimLeft_def TrimRight_def)
qed

theorem parameter_events_unsendable_witness:
  "\<exists>d err. NewDevice [] device_demo = Inr d \<and> EncodeUSPAgentRequest (\<lambda>_ _. True) (NewSchema device_demo) d
     (EncodeEventToRequest (empty_event USPEventTypeValueChange ''s1'' ''dev.if.3.on'') 1) = Inl err"
proof -
  obtain d where d: "NewDevice [] device_demo = Inr d" by (rule device_demo_selector)
  have "\<not> isObjectPath (TrimSpace (ObjPath (empty_event USPEventTypeValueChange ''s1'' ''dev.if.3.on'')))"
    by (simp add: empty_event_def isObjectPath_def HasSuffix_def TrimSpace_def TrimLeft_def TrimRight_def is_space_def code_def)
  from parameter_events_unsendable [OF this, of "\<lambda>_ _. True" "NewSchema device_demo" d 1] d show ?thesis by blast
qed

end
