(* ===== verification/Controller_State.thy ===== *)
theory Controller_State
  imports Events Agent
begin

text \<open>
  The state of the controller, \<open>src/internal/wuspcontroller/controller.go\<close>: what it knows of its peers, the budget for the
  size of a datagram, the counters and the transfer sessions of \<open>transfer_stream.go\<close>. The counters are a
  function from their names; an \<open>Add\<close> wraps at 64 bits. The send function is the caller's: a function on a state of its own
  (\<open>cworld\<close>), kept in the controller. Calls that the code starts in a goroutine of their own are listed in \<open>spawned\<close>.
  Locks are left out: a definition is what one call of the code does when no other goroutine comes in between. Where the code tests
  without the lock and writes with it (a chunk of a download), the two parts are definitions of their own, and the runs of the protocol interleave
  them. The process-wide schema and device model are the record \<open>env\<close> of the agent.
\<close>

section \<open>Data\<close>

definition fragmentTTL :: duration where "fragmentTTL = 30 * second"
definition maxFragmentBufs :: nat where "maxFragmentBufs = 64"
definition peerOnlineWindow :: duration where "peerOnlineWindow = 3 * minute"
definition peerFailureBackoff :: duration where "peerFailureBackoff = 30 * second"
definition minControlPayloadBudget :: int where "minControlPayloadBudget = 512"
definition controlPayloadIncreaseStep :: int where "controlPayloadIncreaseStep = 32"
definition controlPayloadIncreaseEvery :: int where "controlPayloadIncreaseEvery = 4"
definition idempotentControlRetryAttempts :: nat where "idempotentControlRetryAttempts = 2"

lemmas ctl_consts = fragmentTTL_def maxFragmentBufs_def peerOnlineWindow_def peerFailureBackoff_def minControlPayloadBudget_def
  controlPayloadIncreaseStep_def controlPayloadIncreaseEvery_def idempotentControlRetryAttempts_def

datatype ctx_error = DeadlineExceeded | Canceled

text \<open>Of the errors, \<open>AgentError\<close> holds the response too, which the code returns beside it.\<close>

datatype ctl_error =
    CNotConfigured
  | ErrPeerNotReachable
  | CEncode usp_error
  | CFragment frag_error
  | CSend string
  | CContext ctx_error
  | CRetriesExhausted
  | CInvalid string string
  | AgentError USPAgentMethod string USPAgentResponse
  | CFile string
  | CAborted string

text \<open>The counters of \<open>controllerStats\<close>.\<close>

datatype stat =
    inboundDatagrams | inboundBytes | inboundResponses | inboundRequests | inboundControlFragments | inboundTransferFrames
  | responsesAfterTimeout | fragmentReassemblies | fragmentReassemblyErrors | fragmentEvictions
  | outboundRequests | outboundRequestFragments | outboundBytes | outboundSendErrors | peerFastFails
  | roundTrips | roundTripRetries | roundTripTimeouts | roundTripSuccesses | roundTripFailures | roundTripLatencyNS | roundTripLatencyMaxNS
  | budgetReductions | budgetIncreaseEvents
  | transferFramesSent | transferFrameBytesSent | transferFramesReceived | transferFrameBytesReceived
  | transferSessionsStarted | transferSessionsCompleted | transferSessionsAborted | transferAckTimeouts | transferChunkResends
  | transferUnknownSessions | transferPayloadBytes | transferDurationNS | transferDurationMaxNS

record pendingRequest =
  ch :: "USPAgentResponse option"
  pmethod :: USPAgentMethod
  pstartedAt :: gotime

record fragmentBuf =
  frags :: "USPControlFragment list"
  arrivedAt :: gotime

record peerSession =
  LastInbound :: gotime
  LastFailure :: gotime
  ControlPayloadBudget :: int
  AdvertisedMaxPayload :: int
  ControlSuccesses :: int

text \<open>
  A download writes to a file through a buffer: what the file holds, whether it is open, the buffer (\<open>None\<close> is the nil writer) and whether
  the writer has failed, which \<open>bufio.Writer\<close> remembers.
\<close>

record uspTransferSession =
  sid :: "64 word"
  srequestID :: "64 word"
  smethod :: USPAgentMethod
  speer :: string
  sstartedAt :: gotime
  totalSize :: int
  transferred :: int
  nextSequence :: "32 word"
  spath :: string
  sdata :: "byte list"
  sopen :: bool
  sfailed :: bool
  swriter :: "byte list option"
  ackCh :: "32 word list"
  completeCh :: "USPTransferStreamFrame option"
  errCh :: "ctl_error option"

datatype call = OnNotify string USPAgentResponse | OnEvent string USPEvent

record 'w WUSPController =
  opts_Send :: "('w \<Rightarrow> string \<Rightarrow> byte list \<Rightarrow> 'w \<times> string option) option"
  opts_OnEvent :: bool
  opts_OnNotify :: bool
  model :: "Device option"
  stats :: "stat \<Rightarrow> 64 word"
  reqCounter :: "64 word"
  pending :: "(64 word, pendingRequest) fmap"
  fragments :: "(string, (64 word, fragmentBuf) fmap) fmap"
  sessions :: "(string, peerSession) fmap"
  streams :: "(string, (64 word, uspTransferSession) fmap) fmap"
  spawned :: "call list"
  cworld :: 'w

type_synonym 'w sender = "'w \<Rightarrow> string \<Rightarrow> byte list \<Rightarrow> 'w \<times> string option"

definition New :: "'w sender option \<Rightarrow> bool \<Rightarrow> bool \<Rightarrow> Device option \<Rightarrow> 'w \<Rightarrow> 'w WUSPController" where
  "New s onEvent onNotify m w =
     \<lparr> opts_Send = s, opts_OnEvent = onEvent, opts_OnNotify = onNotify, model = m, stats = (\<lambda>_. 0), reqCounter = 0, pending = fmempty,
       fragments = fmempty, sessions = fmempty, streams = fmempty, spawned = [], cworld = w \<rparr>"

section \<open>Counters\<close>

definition bump :: "stat \<Rightarrow> 64 word \<Rightarrow> 'w WUSPController \<Rightarrow> 'w WUSPController" where
  "bump s n c = c\<lparr> stats := (stats c)(s := stats c s + n) \<rparr>"

definition observeUint64Max :: "stat \<Rightarrow> 64 word \<Rightarrow> 'w WUSPController \<Rightarrow> 'w WUSPController" where
  "observeUint64Max s v c = (if v \<le> stats c s then c else c\<lparr> stats := (stats c)(s := v) \<rparr>)"

definition recordRoundTripLatency :: "duration \<Rightarrow> 'w WUSPController \<Rightarrow> 'w WUSPController" where
  "recordRoundTripLatency dur c =
     (if dur \<le> 0 then c else observeUint64Max roundTripLatencyMaxNS (word_of_int dur) (bump roundTripLatencyNS (word_of_int dur) c))"

definition recordTransferDuration :: "duration \<Rightarrow> 'w WUSPController \<Rightarrow> 'w WUSPController" where
  "recordTransferDuration dur c =
     (if dur \<le> 0 then c else observeUint64Max transferDurationMaxNS (word_of_int dur) (bump transferDurationNS (word_of_int dur) c))"

text \<open>A snapshot of the counters; the sums and maxima of nanoseconds are read as signed durations.\<close>

record WUSPControllerStats =
  counters :: "stat \<Rightarrow> 64 word"
  RoundTripLatencyTotal :: duration
  RoundTripLatencyMax :: duration
  TransferDurationTotal :: duration
  TransferDurationMax :: duration

definition StatsSnapshot :: "'w WUSPController \<Rightarrow> WUSPControllerStats" where
  "StatsSnapshot c =
     \<lparr> counters = stats c, RoundTripLatencyTotal = sint (stats c roundTripLatencyNS), RoundTripLatencyMax = sint (stats c roundTripLatencyMaxNS),
       TransferDurationTotal = sint (stats c transferDurationNS), TransferDurationMax = sint (stats c transferDurationMaxNS) \<rparr>"

section \<open>Peers\<close>

definition no_session :: peerSession where
  "no_session = \<lparr> LastInbound = 0, LastFailure = 0, ControlPayloadBudget = 0, AdvertisedMaxPayload = 0, ControlSuccesses = 0 \<rparr>"

text \<open>The session of a peer, created when there is none.\<close>

definition peer_of :: "string \<Rightarrow> 'w WUSPController \<Rightarrow> peerSession" where
  "peer_of peer c = (case fmlookup (sessions c) peer of None \<Rightarrow> no_session | Some s \<Rightarrow> s)"

definition put_peer :: "string \<Rightarrow> peerSession \<Rightarrow> 'w WUSPController \<Rightarrow> 'w WUSPController" where
  "put_peer peer s c = c\<lparr> sessions := fmupd peer s (sessions c) \<rparr>"

definition markPeerInbound :: "gotime \<Rightarrow> string \<Rightarrow> 'w WUSPController \<Rightarrow> 'w WUSPController" where
  "markPeerInbound now peer c = put_peer peer ((peer_of peer c)\<lparr> LastInbound := now, LastFailure := 0 \<rparr>) c"

definition markPeerFailure :: "gotime \<Rightarrow> string \<Rightarrow> 'w WUSPController \<Rightarrow> 'w WUSPController" where
  "markPeerFailure now peer c = put_peer peer ((peer_of peer c)\<lparr> LastFailure := now \<rparr>) c"

definition peerReachable :: "gotime \<Rightarrow> string \<Rightarrow> 'w WUSPController \<Rightarrow> bool" where
  "peerReachable now peer c =
     (case fmlookup (sessions c) peer of
        None \<Rightarrow> True
      | Some s \<Rightarrow>
          if \<not> IsZero (LastFailure s) \<and> now - LastFailure s < peerFailureBackoff then False
          else if IsZero (LastInbound s) then True
          else now - LastInbound s < peerOnlineWindow)"

definition IsPeerReachable :: "gotime \<Rightarrow> string \<Rightarrow> 'w WUSPController \<Rightarrow> bool" where
  "IsPeerReachable now peer c = peerReachable now peer c"

record WUSPPeerSessionSnapshot =
  PeerPublicKey :: string
  Reachable :: bool
  snap :: peerSession

definition PeerSessionSnapshot :: "gotime \<Rightarrow> string \<Rightarrow> 'w WUSPController \<Rightarrow> WUSPPeerSessionSnapshot" where
  "PeerSessionSnapshot now peer c = \<lparr> PeerPublicKey = peer, Reachable = peerReachable now peer c, snap = peer_of peer c \<rparr>"

section \<open>The budget of a peer\<close>

definition normalizeAdvertisedPayload :: "64 word \<Rightarrow> int" where
  "normalizeAdvertisedPayload v =
     (if v = 0 then 0
      else if WUSPMaxDatagramPayload < uint v then WUSPMaxDatagramPayload
      else if uint v < minControlPayloadBudget then minControlPayloadBudget
      else uint v)"

definition peerPayloadCap :: "peerSession \<Rightarrow> int" where
  "peerPayloadCap s =
     (let cap = (if 0 < AdvertisedMaxPayload s \<and> AdvertisedMaxPayload s < WUSPMaxDatagramPayload then AdvertisedMaxPayload s
                 else WUSPMaxDatagramPayload)
      in if cap < minControlPayloadBudget then minControlPayloadBudget else cap)"

definition peerControlPayloadBudget :: "string \<Rightarrow> 'w WUSPController \<Rightarrow> 'w WUSPController \<times> int" where
  "peerControlPayloadBudget peer c =
     (let s = peer_of peer c; cap = peerPayloadCap s;
          b0 = (if ControlPayloadBudget s = 0 then cap else ControlPayloadBudget s);
          b1 = (if cap < b0 then cap else b0);
          b2 = (if b1 < minControlPayloadBudget then minControlPayloadBudget else b1)
      in (put_peer peer (s\<lparr> ControlPayloadBudget := b2 \<rparr>) c, b2))"

definition hasAdvertisedControlPayload :: "string \<Rightarrow> 'w WUSPController \<Rightarrow> bool" where
  "hasAdvertisedControlPayload peer c \<longleftrightarrow>
     (case fmlookup (sessions c) peer of None \<Rightarrow> False | Some s \<Rightarrow> 0 < AdvertisedMaxPayload s)"

definition recordControlSuccess :: "string \<Rightarrow> USPProtocolInfo option \<Rightarrow> 'w WUSPController \<Rightarrow> 'w WUSPController" where
  "recordControlSuccess peer protocol c =
     (let s0 = peer_of peer c;
          s1 = (case protocol of None \<Rightarrow> s0 | Some p \<Rightarrow> s0\<lparr> AdvertisedMaxPayload := normalizeAdvertisedPayload (piMaxControlPayload p) \<rparr>);
          cap = peerPayloadCap s1; previousBudget = ControlPayloadBudget s1;
          b0 = (if ControlPayloadBudget s1 = 0 then cap else ControlPayloadBudget s1);
          b1 = (if cap < b0 then cap else b0)
      in if b1 < cap then
           (if controlPayloadIncreaseEvery \<le> ControlSuccesses s1 + 1 then
              (let b2 = (if cap < b1 + controlPayloadIncreaseStep then cap else b1 + controlPayloadIncreaseStep);
                   c' = put_peer peer (s1\<lparr> ControlPayloadBudget := b2, ControlSuccesses := 0 \<rparr>) c
               in if previousBudget < b2 then bump budgetIncreaseEvents 1 c' else c')
            else put_peer peer (s1\<lparr> ControlPayloadBudget := b1, ControlSuccesses := ControlSuccesses s1 + 1 \<rparr>) c)
         else put_peer peer (s1\<lparr> ControlPayloadBudget := b1, ControlSuccesses := 0 \<rparr>) c)"

definition reducePeerControlPayload :: "string \<Rightarrow> 'w WUSPController \<Rightarrow> 'w WUSPController \<times> int" where
  "reducePeerControlPayload peer c =
     (let s = peer_of peer c;
          current = (if ControlPayloadBudget s = 0 then peerPayloadCap s else ControlPayloadBudget s);
          n0 = go_div ((current * 3) div 4) controlPayloadIncreaseStep * controlPayloadIncreaseStep;
          n1 = (if current \<le> n0 then current - controlPayloadIncreaseStep else n0);
          n2 = (if n1 < minControlPayloadBudget then minControlPayloadBudget else n1);
          c' = put_peer peer (s\<lparr> ControlPayloadBudget := n2, ControlSuccesses := 0 \<rparr>) c
      in (if n2 < current then bump budgetReductions 1 c' else c', n2))"

section \<open>Bounds of the budget\<close>

text \<open>Every budget the controller keeps is unset or lies between the minimum and the maximal datagram.\<close>

definition session_ok :: "peerSession \<Rightarrow> bool" where
  "session_ok s \<longleftrightarrow>
     (ControlPayloadBudget s = 0 \<or> minControlPayloadBudget \<le> ControlPayloadBudget s \<and> ControlPayloadBudget s \<le> WUSPMaxDatagramPayload) \<and>
     (AdvertisedMaxPayload s = 0 \<or> minControlPayloadBudget \<le> AdvertisedMaxPayload s \<and> AdvertisedMaxPayload s \<le> WUSPMaxDatagramPayload) \<and>
     0 \<le> ControlSuccesses s \<and> ControlSuccesses s < controlPayloadIncreaseEvery"

definition peers_ok :: "'w WUSPController \<Rightarrow> bool" where
  "peers_ok c \<longleftrightarrow> (\<forall>peer s. fmlookup (sessions c) peer = Some s \<longrightarrow> session_ok s)"

lemma no_session_ok [simp]: "session_ok no_session"
  by (simp add: session_ok_def no_session_def controlPayloadIncreaseEvery_def)

lemma peer_of_ok: "peers_ok c \<Longrightarrow> session_ok (peer_of peer c)"
  by (auto simp: peers_ok_def peer_of_def split: option.splits)

lemma put_peer_ok: "peers_ok c \<Longrightarrow> session_ok s \<Longrightarrow> peers_ok (put_peer peer s c)"
  by (auto simp: peers_ok_def put_peer_def)

lemma sessions_bump [simp]: "sessions (bump s n c) = sessions c" "peers_ok (bump s n c) = peers_ok c"
  by (simp_all add: bump_def peers_ok_def)

lemma cap_bounds: "session_ok s \<Longrightarrow> minControlPayloadBudget \<le> peerPayloadCap s \<and> peerPayloadCap s \<le> WUSPMaxDatagramPayload"
  by (auto simp: peerPayloadCap_def session_ok_def Let_def ctl_consts WUSPMaxDatagramPayload_def)

lemma budget_bounds:
  assumes "peers_ok c" and "peerControlPayloadBudget peer c = (c', b)"
  shows "peers_ok c'" "minControlPayloadBudget \<le> b" "b \<le> WUSPMaxDatagramPayload" "b \<le> peerPayloadCap (peer_of peer c)"
proof -
  have s: "session_ok (peer_of peer c)" by (rule peer_of_ok [OF assms(1)])
  note k = cap_bounds [OF s]
  show b: "minControlPayloadBudget \<le> b" "b \<le> WUSPMaxDatagramPayload" "b \<le> peerPayloadCap (peer_of peer c)"
    using assms(2) s k by (auto simp: peerControlPayloadBudget_def Let_def split: if_splits)
  have "c' = put_peer peer ((peer_of peer c)\<lparr> ControlPayloadBudget := b \<rparr>) c"
    using assms(2) unfolding peerControlPayloadBudget_def Let_def by (elim Pair_inject) (hypsubst, rule refl)
  then show "peers_ok c'" using assms(1) s b by (auto intro!: put_peer_ok simp: session_ok_def)
qed

lemma reduced:
  fixes cur :: int
  assumes "512 \<le> cur" and "cur \<le> 1200"
  shows "go_div (cur * 3 div 4) 32 * 32 \<le> 1200"
proof -
  have "go_div (cur * 3 div 4) 32 = cur * 3 div 4 div 32" using assms by (simp add: go_div_def sgn_if)
  moreover have "q div 32 * 32 \<le> q" for q :: int by presburger
  then have "cur * 3 div 4 div 32 * 32 \<le> cur * 3 div 4" .
  ultimately show ?thesis using assms by linarith
qed

lemma reduce_bounds:
  assumes "peers_ok c" and "reducePeerControlPayload peer c = (c', b)"
  shows "peers_ok c'" "minControlPayloadBudget \<le> b" "b \<le> WUSPMaxDatagramPayload"
proof -
  have s: "session_ok (peer_of peer c)" by (rule peer_of_ok [OF assms(1)])
  define cur where "cur = (if ControlPayloadBudget (peer_of peer c) = 0 then peerPayloadCap (peer_of peer c) else ControlPayloadBudget (peer_of peer c))"
  define n0 where "n0 = go_div (cur * 3 div 4) controlPayloadIncreaseStep * controlPayloadIncreaseStep"
  have cur: "512 \<le> cur" "cur \<le> 1200"
    using s cap_bounds [OF s] by (auto simp: cur_def session_ok_def ctl_consts WUSPMaxDatagramPayload_def)
  have n0: "n0 \<le> 1200" using reduced [OF cur] by (simp add: n0_def controlPayloadIncreaseStep_def)
  define n1 where "n1 = (if cur \<le> n0 then cur - controlPayloadIncreaseStep else n0)"
  define n2 where "n2 = (if n1 < minControlPayloadBudget then minControlPayloadBudget else n1)"
  note d = assms(2) [unfolded reducePeerControlPayload_def Let_def, folded cur_def, folded n0_def, folded n1_def, folded n2_def]
  have b: "b = n2" using d by simp
  show bb: "minControlPayloadBudget \<le> b" "b \<le> WUSPMaxDatagramPayload"
    unfolding b n2_def n1_def using cur n0 by (auto simp: ctl_consts WUSPMaxDatagramPayload_def)
  define c1 where "c1 = put_peer peer ((peer_of peer c)\<lparr> ControlPayloadBudget := b, ControlSuccesses := 0 \<rparr>) c"
  have "c' = c1 \<or> c' = bump budgetReductions 1 c1" using d unfolding c1_def b by (cases "n2 < cur") auto
  moreover have "peers_ok c1" unfolding c1_def using assms(1) s bb by (intro put_peer_ok) (auto simp: session_ok_def controlPayloadIncreaseEvery_def)
  ultimately show "peers_ok c'" by auto
qed

lemma advertised_bounds: "normalizeAdvertisedPayload v = 0 \<or>
    minControlPayloadBudget \<le> normalizeAdvertisedPayload v \<and> normalizeAdvertisedPayload v \<le> WUSPMaxDatagramPayload"
  by (auto simp: normalizeAdvertisedPayload_def ctl_consts WUSPMaxDatagramPayload_def)

lemma success_bounds:
  assumes "peers_ok c"
  shows "peers_ok (recordControlSuccess peer protocol c)"
proof -
  define s1 where "s1 = (case protocol of None \<Rightarrow> peer_of peer c
     | Some p \<Rightarrow> (peer_of peer c)\<lparr> AdvertisedMaxPayload := normalizeAdvertisedPayload (piMaxControlPayload p) \<rparr>)"
  have s1: "session_ok s1" using peer_of_ok [OF assms, of peer] advertised_bounds by (auto simp: s1_def session_ok_def split: option.splits)
  note cap = cap_bounds [OF s1]
  define b0 where "b0 = (if ControlPayloadBudget s1 = 0 then peerPayloadCap s1 else ControlPayloadBudget s1)"
  define b1 where "b1 = (if peerPayloadCap s1 < b0 then peerPayloadCap s1 else b0)"
  define b2 where "b2 = (if peerPayloadCap s1 < b1 + controlPayloadIncreaseStep then peerPayloadCap s1 else b1 + controlPayloadIncreaseStep)"
  have b1: "minControlPayloadBudget \<le> b1" "b1 \<le> WUSPMaxDatagramPayload" using s1 cap by (auto simp: b1_def b0_def session_ok_def)
  then have b2: "minControlPayloadBudget \<le> b2" "b2 \<le> WUSPMaxDatagramPayload" using cap by (auto simp: b2_def controlPayloadIncreaseStep_def)
  have ok: "peers_ok (put_peer peer (s1\<lparr> ControlPayloadBudget := b, ControlSuccesses := n \<rparr>) c)"
    if "minControlPayloadBudget \<le> b" "b \<le> WUSPMaxDatagramPayload" "0 \<le> n" "n < controlPayloadIncreaseEvery" for b n
    using assms s1 that by (intro put_peer_ok) (auto simp: session_ok_def)
  have n: "0 \<le> ControlSuccesses s1" using s1 by (simp add: session_ok_def)
  have e: "0 < controlPayloadIncreaseEvery" by (simp add: controlPayloadIncreaseEvery_def)
  show ?thesis
    unfolding recordControlSuccess_def Let_def s1_def [symmetric] b0_def [symmetric] b1_def [symmetric] b2_def [symmetric]
    using ok [OF b1] ok [OF b2] n e by auto
qed

end
