(* ===== verification/Transfer_Stream.thy ===== *)
theory Transfer_Stream
  imports Controller_State
begin

text \<open>
  Transfer streams, \<open>src/internal/wuspcontroller/transfer_stream.go\<close>. An upload reads its source in chunks and keeps at most eight of them
  unacknowledged; a download writes the chunks that arrive in order and acknowledges. The outcomes of the waits of an upload
  (\<open>select\<close> on its channels) are the argument \<open>evs\<close>, and a run that needs more of them returns \<open>None\<close>: it is still waiting. The errors of the file system are
  arguments. A reader returns a full buffer as long as it has data (\<open>bytes.Reader\<close>, regular files). Closing a file does not fail.
\<close>

section \<open>Sessions\<close>

definition uspTransferWindowSize :: nat where "uspTransferWindowSize = 8"
definition chunk_size :: nat where "chunk_size = 1120"

definition maxInt64 :: "int list \<Rightarrow> int" where
  "maxInt64 vs = fold (\<lambda>v m. if m < v then v else m) vs 0"

definition storeTransferSession :: "uspTransferSession \<Rightarrow> 'w WUSPController \<Rightarrow> 'w WUSPController" where
  "storeTransferSession s c =
     (let byPeer = (case fmlookup (streams c) (speer s) of None \<Rightarrow> fmempty | Some m \<Rightarrow> m) in
      c\<lparr> streams := fmupd (speer s) (fmupd (sid s) s byPeer) (streams c) \<rparr>)"

definition loadTransferSession :: "string \<Rightarrow> 64 word \<Rightarrow> 'w WUSPController \<Rightarrow> uspTransferSession option" where
  "loadTransferSession peer i c = (case fmlookup (streams c) peer of None \<Rightarrow> None | Some byPeer \<Rightarrow> fmlookup byPeer i)"

definition deleteTransferSession :: "string \<Rightarrow> 64 word \<Rightarrow> 'w WUSPController \<Rightarrow> 'w WUSPController" where
  "deleteTransferSession peer i c =
     (case fmlookup (streams c) peer of
        None \<Rightarrow> c
      | Some byPeer \<Rightarrow>
          let m = fmdrop i byPeer in
          c\<lparr> streams := (if m = fmempty then fmdrop peer (streams c) else fmupd peer m (streams c)) \<rparr>)"

definition TransferMetadataSource :: string where "TransferMetadataSource = ''source''"
definition TransferMetadataDestination :: string where "TransferMetadataDestination = ''destination''"
definition TransferMetadataSessionID :: string where "TransferMetadataSessionID = ''session_id''"
definition TransferMetadataTransport :: string where "TransferMetadataTransport = ''transport''"

definition transferSessionID :: "USPTransferResult option \<Rightarrow> 64 word option" where
  "transferSessionID r =
     (case r of
        None \<Rightarrow> None
      | Some r \<Rightarrow>
          if trMetadata r = fmempty then None
          else let v = TrimSpace (meta_get (trMetadata r) TransferMetadataSessionID) in
            if v = '''' then None
            else case ParseUint v of None \<Rightarrow> None | Some i \<Rightarrow> if i = 0 then None else Some i)"

definition recordTransferSessionStart :: "'w WUSPController \<Rightarrow> 'w WUSPController" where
  "recordTransferSessionStart c = bump transferSessionsStarted 1 c"

definition recordTransferSessionComplete :: "gotime \<Rightarrow> uspTransferSession \<Rightarrow> 'w WUSPController \<Rightarrow> 'w WUSPController" where
  "recordTransferSessionComplete now s c =
     recordTransferDuration (now - sstartedAt s)
       (bump transferPayloadBytes (word_of_int (maxInt64 [transferred s, 0])) (bump transferSessionsCompleted 1 c))"

definition recordTransferSessionAbort :: "gotime \<Rightarrow> uspTransferSession \<Rightarrow> 'w WUSPController \<Rightarrow> 'w WUSPController" where
  "recordTransferSessionAbort now s c = recordTransferDuration (now - sstartedAt s) (bump transferSessionsAborted 1 c)"

text \<open>The channels of a session: sixteen acknowledgements, one completion, one error; what does not fit is dropped.\<close>

definition signalComplete :: "USPTransferStreamFrame \<Rightarrow> uspTransferSession \<Rightarrow> uspTransferSession" where
  "signalComplete f s = (if completeCh s = None then s\<lparr> completeCh := Some f \<rparr> else s)"

definition signalErr :: "ctl_error \<Rightarrow> uspTransferSession \<Rightarrow> uspTransferSession" where
  "signalErr err s = (if errCh s = None then s\<lparr> errCh := Some err \<rparr> else s)"

definition signalAck :: "32 word \<Rightarrow> uspTransferSession \<Rightarrow> uspTransferSession" where
  "signalAck n s = (if length (ackCh s) < uspTransferWindowSize * 2 then s\<lparr> ackCh := ackCh s @ [n] \<rparr> else s)"

section \<open>Frames\<close>

definition frame_of :: "uspTransferSession \<Rightarrow> USPTransferStreamPhase \<Rightarrow> USPTransferStreamFrame" where
  "frame_of s phase =
     \<lparr> sSessionID = sid s, sRequestID = srequestID s, sMethod = smethod s, sPhase = phase, sSequence = 0, sAckSequence = 0, sOffset = 0, sTotalSize = 0,
       sPath = '''', sFilename = '''', sContentType = '''', sMetadata = fmempty, sData = [], sFinal = False \<rparr>"

definition sendTransferStream :: "string \<Rightarrow> USPTransferStreamFrame \<Rightarrow> 'w WUSPController \<Rightarrow> 'w WUSPController \<times> (ctl_error + unit)" where
  "sendTransferStream peer f c =
     (case opts_Send c of
        None \<Rightarrow> (c, Inl CNotConfigured)
      | Some send_fn \<Rightarrow>
          (case EncodeUSPTransferStreamFrame f of
             Inl err \<Rightarrow> (c, Inl (CEncode err))
           | Inr payload \<Rightarrow>
               (let c1 = bump transferFrameBytesSent (of_nat (length payload)) (bump transferFramesSent 1 c);
                    (w, r) = send_fn (cworld c1) peer payload
                in (c1\<lparr> cworld := w \<rparr>, case r of None \<Rightarrow> Inr () | Some err \<Rightarrow> Inl (CSend err)))))"

definition abort_frame :: "uspTransferSession \<Rightarrow> USPTransferStreamFrame" where
  "abort_frame s = (frame_of s USPTransferStreamAbort)\<lparr> sFinal := True \<rparr>"

definition abortTransferSession :: "uspTransferSession \<Rightarrow> 'w WUSPController \<Rightarrow> 'w WUSPController \<times> (ctl_error + unit)" where
  "abortTransferSession s c = sendTransferStream (speer s) (abort_frame s) c"

section \<open>Downloads\<close>

text \<open>\<open>bufio.Writer\<close> with a buffer of eight chunks: the file and the buffer after a write. A closed file fails every write that reaches it.\<close>

definition bufio_size :: nat where "bufio_size = chunk_size * uspTransferWindowSize"

definition bufio_write :: "bool \<Rightarrow> byte list \<Rightarrow> byte list \<Rightarrow> byte list \<Rightarrow> (byte list \<times> byte list) option" where
  "bufio_write open_file file buf p =
     (if length p \<le> bufio_size - length buf then Some (file, buf @ p)
      else if \<not> open_file then None
      else if buf = [] then Some (file @ p, [])
      else
        let avail = bufio_size - length buf; file' = file @ buf @ take avail p; p' = drop avail p in
        if length p' \<le> bufio_size then Some (file', p') else Some (file' @ p', []))"

definition bufio_flush :: "bool \<Rightarrow> byte list \<Rightarrow> byte list \<Rightarrow> byte list option" where
  "bufio_flush open_file file buf = (if buf = [] then Some file else if open_file then Some (file @ buf) else None)"

text \<open>What a chunk in order does to the file: the write, and the flush of the final one. \<open>None\<close> is an error of the writer or of the file system (\<open>io_ok\<close>).\<close>

definition write_chunk :: "bool \<Rightarrow> USPTransferStreamFrame \<Rightarrow> uspTransferSession \<Rightarrow> (byte list \<times> byte list) option" where
  "write_chunk io_ok f s =
     (if sfailed s \<or> \<not> io_ok then None
      else case bufio_write (sopen s) (sdata s) (case swriter s of None \<Rightarrow> [] | Some b \<Rightarrow> b) (sData f) of
             None \<Rightarrow> None
           | Some (file, buf) \<Rightarrow>
               (if sFinal f then map_option (\<lambda>file'. (file', [])) (bufio_flush (sopen s) file buf) else Some (file, buf)))"

definition stale_ack :: "uspTransferSession \<Rightarrow> USPTransferStreamFrame" where
  "stale_ack s = (frame_of s USPTransferStreamAck)\<lparr> sAckSequence := nextSequence s - 1, sOffset := word_of_int (transferred s),
     sTotalSize := word_of_int (maxInt64 [totalSize s, transferred s]) \<rparr>"

definition chunk_ack :: "USPTransferStreamFrame \<Rightarrow> uspTransferSession \<Rightarrow> USPTransferStreamFrame" where
  "chunk_ack f s = (frame_of s USPTransferStreamAck)\<lparr> sAckSequence := sSequence f, sOffset := word_of_int (transferred s),
     sTotalSize := word_of_int (maxInt64 [totalSize s, transferred s]), sFinal := sFinal f \<rparr>"

text \<open>
  A chunk is handled in two parts: a test of its number, without the lock, and the write with everything after it, under the lock, which does not look at the
  number again. Between the two, handlers of other datagrams may run.
\<close>

definition chunk_expected :: "USPTransferStreamFrame \<Rightarrow> uspTransferSession \<Rightarrow> bool" where
  "chunk_expected f s \<longleftrightarrow> sSequence f = nextSequence s"

definition chunk_locked :: "bool \<Rightarrow> USPTransferStreamFrame \<Rightarrow> uspTransferSession \<Rightarrow> uspTransferSession \<times> USPTransferStreamFrame option \<times> ctl_error option" where
  "chunk_locked io_ok f s =
     (case write_chunk io_ok f s of
        None \<Rightarrow> (s\<lparr> swriter := Some (case swriter s of None \<Rightarrow> [] | Some b \<Rightarrow> b), sfailed := True \<rparr>, None, Some (CFile ''write''))
      | Some (file, buf) \<Rightarrow>
          (let s' = s\<lparr> sdata := file, swriter := Some buf, transferred := transferred s + int (length (sData f)), nextSequence := nextSequence s + 1 \<rparr>
           in (s', Some (chunk_ack f s'), None)))"

text \<open>A frame of a download, with no other handler in between: the session, the acknowledgement to send, and the error.\<close>

definition download_frame :: "bool \<Rightarrow> USPTransferStreamFrame \<Rightarrow> uspTransferSession \<Rightarrow> uspTransferSession \<times> USPTransferStreamFrame option \<times> ctl_error option" where
  "download_frame io_ok f s =
     (if sPhase f = USPTransferStreamOpen then (s\<lparr> totalSize := sint (sTotalSize f) \<rparr>, None, None)
      else if sPhase f = USPTransferStreamChunk then
        (if \<not> chunk_expected f s then (s, Some (stale_ack s), None) else chunk_locked io_ok f s)
      else if sPhase f = USPTransferStreamComplete then
        (case swriter s of
           None \<Rightarrow> (signalComplete f (s\<lparr> sopen := False \<rparr>), None, None)
         | Some buf \<Rightarrow>
             if sfailed s \<or> \<not> io_ok then (s\<lparr> sfailed := True \<rparr>, None, Some (CFile ''flush''))
             else case bufio_flush (sopen s) (sdata s) buf of
                    None \<Rightarrow> (s\<lparr> sfailed := True \<rparr>, None, Some (CFile ''flush''))
                  | Some file \<Rightarrow> (signalComplete f (s\<lparr> sdata := file, swriter := None, sopen := False \<rparr>), None, None))
      else if sPhase f = USPTransferStreamAbort then (signalErr (CAborted ''download stream aborted by peer'') s, None, None)
      else (s, None, None))"

definition handleDownloadStreamFrame :: "bool \<Rightarrow> uspTransferSession \<Rightarrow> USPTransferStreamFrame \<Rightarrow> 'w WUSPController \<Rightarrow>
    'w WUSPController \<times> uspTransferSession \<times> (ctl_error + unit)" where
  "handleDownloadStreamFrame io_ok s f c =
     (let (s', ack, err) = download_frame io_ok f s in
      case err of
        Some e \<Rightarrow> (c, s', Inl e)
      | None \<Rightarrow>
          (case ack of
             None \<Rightarrow> (c, s', Inr ())
           | Some a \<Rightarrow> (let (c', r) = sendTransferStream (speer s) a c in (c', s', r))))"

definition handleUploadStreamFrame :: "USPTransferStreamFrame \<Rightarrow> uspTransferSession \<Rightarrow> uspTransferSession" where
  "handleUploadStreamFrame f s =
     (if sPhase f = USPTransferStreamAck then signalAck (sAckSequence f) s
      else if sPhase f = USPTransferStreamComplete then signalComplete f s
      else if sPhase f = USPTransferStreamAbort then signalErr (CAborted ''upload stream aborted by peer'') s
      else s)"

definition handleTransferStreamFrame :: "bool \<Rightarrow> string \<Rightarrow> USPTransferStreamFrame \<Rightarrow> 'w WUSPController \<Rightarrow> 'w WUSPController" where
  "handleTransferStreamFrame io_ok peer f c =
     (case loadTransferSession peer (sSessionID f) c of
        None \<Rightarrow> bump transferUnknownSessions 1 c
      | Some s \<Rightarrow>
          if smethod s = USPAgentMethodUpload then storeTransferSession (handleUploadStreamFrame f s) c
          else if smethod s = USPAgentMethodDownload then
            (let (c', s', r) = handleDownloadStreamFrame io_ok s f c in
             storeTransferSession (case r of Inl err \<Rightarrow> signalErr err s' | Inr _ \<Rightarrow> s') c')
          else storeTransferSession (signalErr (CAborted ''unsupported transfer session method'') s) c)"

section \<open>Uploads\<close>

record uspTransferPendingChunk =
  pframe :: USPTransferStreamFrame
  psize :: nat

type_synonym window = "(32 word, uspTransferPendingChunk) fmap"

definition window_keys :: "window \<Rightarrow> 32 word list" where
  "window_keys p = sorted_list_of_fset (fmdom p)"

definition pendingTransferredBytes :: "window \<Rightarrow> int" where
  "pendingTransferredBytes p = sum_list (map (\<lambda>k. int (psize (the (fmlookup p k)))) (window_keys p))"

definition releaseAckedPendingChunks :: "window \<Rightarrow> 32 word \<Rightarrow> window \<times> int" where
  "releaseAckedPendingChunks p ack =
     (let acked = filter (\<lambda>k. k \<le> ack) (window_keys p) in
      (fold fmdrop acked p, sum_list (map (\<lambda>k. int (psize (the (fmlookup p k)))) acked)))"

fun resend_loop :: "string \<Rightarrow> window \<Rightarrow> 32 word list \<Rightarrow> nat \<Rightarrow> 'w WUSPController \<Rightarrow> 'w WUSPController \<times> nat \<times> bool" where
  "resend_loop peer p [] resent c = (c, resent, True)"
| "resend_loop peer p (k # ks) resent c =
     (let (c', r) = sendTransferStream peer (pframe (the (fmlookup p k))) c in
      case r of Inl _ \<Rightarrow> (c', resent, False) | Inr _ \<Rightarrow> resend_loop peer p ks (Suc resent) c')"

definition resendPendingChunks :: "uspTransferSession \<Rightarrow> window \<Rightarrow> 'w WUSPController \<Rightarrow> 'w WUSPController \<times> nat \<times> bool" where
  "resendPendingChunks s p c = resend_loop (speer s) p (window_keys p) 0 c"

definition open_frame :: "uspTransferSession \<Rightarrow> USPTransferRequest \<Rightarrow> USPTransferStreamFrame" where
  "open_frame s t = (frame_of s USPTransferStreamOpen)\<lparr> sPath := tPath t, sFilename := tFilename t, sContentType := tContentType t,
     sTotalSize := word_of_int (maxInt64 [totalSize s, 0]) \<rparr>"

definition chunk_frame :: "uspTransferSession \<Rightarrow> window \<Rightarrow> byte list \<Rightarrow> USPTransferStreamFrame" where
  "chunk_frame s p payload = (frame_of s USPTransferStreamChunk)\<lparr> sSequence := nextSequence s,
     sOffset := word_of_int (transferred s + pendingTransferredBytes p), sTotalSize := word_of_int (maxInt64 [totalSize s, 0]), sData := payload \<rparr>"

definition complete_frame :: "uspTransferSession \<Rightarrow> USPTransferStreamFrame" where
  "complete_frame s = (frame_of s USPTransferStreamComplete)\<lparr> sAckSequence := nextSequence s - 1, sOffset := word_of_int (transferred s),
     sTotalSize := word_of_int (maxInt64 [totalSize s, transferred s]), sFinal := True \<rparr>"

text \<open>
  The inner loop: chunks are read and sent until the window is full or the source is at its end. The chunk is in the window when it is
  sent, so an error of the send function leaves it there.
\<close>

function fill_window :: "uspTransferSession \<Rightarrow> window \<Rightarrow> byte list \<Rightarrow> 'w WUSPController \<Rightarrow>
    'w WUSPController \<times> uspTransferSession \<times> window \<times> byte list \<times> (ctl_error + unit)" where
  "fill_window s p rd c =
     (if uspTransferWindowSize \<le> size (window_keys p) \<or> rd = [] then (c, s, p, rd, Inr ())
      else
        let payload = take chunk_size rd; f = chunk_frame s p payload;
            p' = fmupd (sSequence f) \<lparr> pframe = f, psize = length payload \<rparr> p;
            (c', r) = sendTransferStream (speer s) f c
        in case r of
             Inl err \<Rightarrow> (c', s, p', drop chunk_size rd, Inl err)
           | Inr _ \<Rightarrow> fill_window (s\<lparr> nextSequence := nextSequence s + 1 \<rparr>) p' (drop chunk_size rd) c')"
  by pat_completeness auto
termination by (relation "measure (\<lambda>(s, p, rd, c). length rd)") (auto simp: chunk_size_def)

declare fill_window.simps [simp del]

datatype wait_result = Acked "32 word" | Expired ctx_error | Failed ctl_error

definition wait_error :: "wait_result \<Rightarrow> ctl_error" where
  "wait_error e = (case e of Acked _ \<Rightarrow> CRetriesExhausted | Expired r \<Rightarrow> CContext r | Failed err \<Rightarrow> err)"

text \<open>The outer loop: it ends when no chunk is unacknowledged and the source is at its end, or a send fails.\<close>

fun upload_loop :: "wait_result list \<Rightarrow> uspTransferSession \<Rightarrow> window \<Rightarrow> byte list \<Rightarrow> 'w WUSPController \<Rightarrow>
    'w WUSPController \<times> uspTransferSession \<times> (ctl_error + unit) option" where
  "upload_loop evs s p rd c =
     (let (c1, s1, p1, rd1, r) = fill_window s p rd c in
      case r of
        Inl err \<Rightarrow> (c1, s1, Some (Inl err))
      | Inr _ \<Rightarrow>
          if p1 = fmempty then (c1, s1, Some (Inr ()))
          else
            (case evs of
               [] \<Rightarrow> (c1, s1, None)
             | Acked n # evs' \<Rightarrow>
                 (let (p2, released) = releaseAckedPendingChunks p1 n in
                  upload_loop evs' (s1\<lparr> transferred := transferred s1 + released \<rparr>) p2 rd1 c1)
             | e # evs' \<Rightarrow>
                 (let (c2, resent, ok) = resendPendingChunks s1 p1 (bump transferAckTimeouts 1 c1);
                      c3 = (if 0 < resent then bump transferChunkResends (of_nat resent) c2 else c2)
                  in if \<not> ok then (c3, s1, Some (Inl (wait_error e))) else upload_loop evs' s1 p1 rd1 c3)))"

declare upload_loop.simps [simp del]

datatype final_wait = Completed USPTransferStreamFrame | FinalError ctl_error | FinalDone ctx_error

definition streamUploadSession :: "wait_result list \<Rightarrow> final_wait option \<Rightarrow> USPTransferRequest \<Rightarrow> byte list \<Rightarrow> uspTransferSession \<Rightarrow> 'w WUSPController \<Rightarrow>
    'w WUSPController \<times> uspTransferSession \<times> (ctl_error + unit) option" where
  "streamUploadSession evs fin t source s c =
     (let (c0, r0) = sendTransferStream (speer s) (open_frame s t) c in
      case r0 of
        Inl err \<Rightarrow> (c0, s, Some (Inl err))
      | Inr _ \<Rightarrow>
          (let (c1, s1, r1) = upload_loop evs s fmempty source c0 in
           case r1 of
             None \<Rightarrow> (c1, s1, None)
           | Some (Inl err) \<Rightarrow> (c1, s1, Some (Inl err))
           | Some (Inr _) \<Rightarrow>
               (let (c2, r2) = sendTransferStream (speer s1) (complete_frame s1) c1 in
                case r2 of
                  Inl err \<Rightarrow> (c2, s1, Some (Inl err))
                | Inr _ \<Rightarrow>
                    (c2, s1,
                     case fin of
                       None \<Rightarrow> None
                     | Some (Completed _) \<Rightarrow> Some (Inr ())
                     | Some (FinalError err) \<Rightarrow> Some (Inl err)
                     | Some (FinalDone r) \<Rightarrow> Some (Inl (CContext r))))))"

definition new_session :: "64 word \<Rightarrow> 64 word \<Rightarrow> USPAgentMethod \<Rightarrow> string \<Rightarrow> gotime \<Rightarrow> int \<Rightarrow> string \<Rightarrow> bool \<Rightarrow> uspTransferSession" where
  "new_session i req m peer now tsize path file =
     \<lparr> sid = i, srequestID = req, smethod = m, speer = peer, sstartedAt = now, totalSize = tsize, transferred = 0, nextSequence = 1,
       spath = path, sdata = [], sopen = file, sfailed = False, swriter = (if file then Some [] else None), ackCh = [], completeCh = None, errCh = None \<rparr>"

text \<open>The source of an upload: its payload, or the file the metadata names, opened by the file system \<open>fs\<close>.\<close>

definition upload_source :: "(string \<Rightarrow> string + byte list) \<Rightarrow> USPTransferRequest \<Rightarrow> ctl_error + (byte list \<times> string)" where
  "upload_source fs t =
     (if tPayload t \<noteq> [] then Inr (tPayload t, '''')
      else let sourcePath = TrimSpace (meta_get (tMetadata t) TransferMetadataSource) in
        if sourcePath = '''' then Inl (CInvalid '''' ''upload payload or source metadata is required'')
        else case fs sourcePath of Inl err \<Rightarrow> Inl (CFile err) | Inr content \<Rightarrow> Inr (content, sourcePath))"

definition upload_answer :: "USPTransferRequest \<Rightarrow> nat \<Rightarrow> string \<Rightarrow> USPAgentResponse \<Rightarrow> USPAgentResponse" where
  "upload_answer t n sourcePath resp =
     (let tr = (case rTransfer resp of None \<Rightarrow> \<lparr> trPath = '''', trURI = '''', trBytes = 0, trMetadata = fmempty \<rparr> | Some x \<Rightarrow> x);
          m = fmupd TransferMetadataTransport ''wg-stream'' (CloneMetadata (trMetadata tr))
      in resp\<lparr> rTransfer := Some (tr\<lparr> trPath := tPath t, trBytes := of_nat n,
           trMetadata := (if sourcePath \<noteq> '''' then fmupd TransferMetadataSource sourcePath m else m) \<rparr>) \<rparr>)"

definition uploadOverStream :: "(string \<Rightarrow> string + byte list) \<Rightarrow> gotime \<Rightarrow> gotime \<Rightarrow> wait_result list \<Rightarrow> final_wait option \<Rightarrow> string \<Rightarrow> USPTransferRequest \<Rightarrow>
    USPAgentResponse \<Rightarrow> 'w WUSPController \<Rightarrow> 'w WUSPController \<times> (ctl_error + USPAgentResponse) option" where
  "uploadOverStream fs t0 t1 evs fin peer t resp c =
     (case transferSessionID (rTransfer resp) of
        None \<Rightarrow> (c, Some (Inr resp))
      | Some i \<Rightarrow>
          (case upload_source fs t of
             Inl err \<Rightarrow> (c, Some (Inl err))
           | Inr (source, sourcePath) \<Rightarrow>
               (let s = new_session i (rID resp) USPAgentMethodUpload peer t0 (int (length source)) '''' False;
                    c0 = recordTransferSessionStart (storeTransferSession s c);
                    (c1, s1, r) = streamUploadSession evs fin t source s c0
                in case r of
                     None \<Rightarrow> (c1, None)
                   | Some (Inl err) \<Rightarrow>
                       (deleteTransferSession peer i (recordTransferSessionAbort t1 s1 (fst (abortTransferSession s1 c1))), Some (Inl err))
                   | Some (Inr _) \<Rightarrow>
                       (deleteTransferSession peer i (recordTransferSessionComplete t1 s1 c1), Some (Inr (upload_answer t (length source) sourcePath resp))))))"

section \<open>The life of a download\<close>

text \<open>The name of the file a download without a destination goes to, in the directory for temporary files.\<close>

definition replaced :: "char \<Rightarrow> string" where
  "replaced c = (if c \<in> {CHR ''/'', CHR 0x5C, CHR '':'', CHR ''.''} then ''_'' else if c \<in> {CHR ''{'', CHR ''}''} then '''' else [c])"

definition sanitizeTransferName :: "string \<Rightarrow> string" where
  "sanitizeTransferName path = (let v = concat (map replaced (TrimSpace path)) in if v = '''' then ''transfer'' else v)"

fun firstNonEmpty :: "string list \<Rightarrow> string" where
  "firstNonEmpty [] = ''''"
| "firstNonEmpty (v # vs) = (if TrimSpace v \<noteq> '''' then TrimSpace v else firstNonEmpty vs)"

text \<open>Such a file lies in that directory, whatever the path of the request: its name is not empty and has no separator and no dot.\<close>

lemma sanitized_name:
  "sanitizeTransferName path \<noteq> ''''"
  "c \<in> set (sanitizeTransferName path) \<Longrightarrow> c \<notin> {CHR ''/'', CHR 0x5C, CHR '':'', CHR ''.''}"
  by (auto simp: sanitizeTransferName_def Let_def replaced_def split: if_splits)

text \<open>
  \<open>downloadOverStream\<close> for a target file that has been created: it registers the session, other goroutines handle frames
  (\<open>during\<close>), and it ends with what its \<open>select\<close> takes. The computation of the target path
  is left out. When several channels are ready the code takes any of them; the model takes the completion, then the error.
\<close>

definition close_writer :: "uspTransferSession \<Rightarrow> uspTransferSession" where
  "close_writer s =
     (let file = (case swriter s of None \<Rightarrow> sdata s | Some buf \<Rightarrow> if sfailed s \<or> \<not> sopen s then sdata s else sdata s @ buf)
      in s\<lparr> sdata := file, swriter := None, sopen := False \<rparr>)"

definition put_all :: "(string, string) fmap \<Rightarrow> (string, string) fmap \<Rightarrow> (string, string) fmap" where
  "put_all src m = fold (\<lambda>k m. fmupd k (meta_get src k) m) (sorted_keys src) m"

definition download_answer :: "USPTransferRequest \<Rightarrow> string \<Rightarrow> uspTransferSession \<Rightarrow> USPTransferStreamFrame \<Rightarrow> USPAgentResponse \<Rightarrow> USPAgentResponse" where
  "download_answer t target s f resp =
     (let tr = (case rTransfer resp of None \<Rightarrow> \<lparr> trPath = '''', trURI = '''', trBytes = 0, trMetadata = fmempty \<rparr> | Some x \<Rightarrow> x);
          m = fmupd TransferMetadataDestination target (fmupd TransferMetadataTransport ''wg-stream'' (put_all (sMetadata f) (CloneMetadata (trMetadata tr))))
      in resp\<lparr> rTransfer := Some (tr\<lparr> trPath := tPath t, trURI := ''file://'' @ target, trBytes := word_of_int (transferred s), trMetadata := m \<rparr>) \<rparr>)"

definition downloadOverStream :: "gotime \<Rightarrow> gotime \<Rightarrow> ('w WUSPController \<Rightarrow> 'w WUSPController) \<Rightarrow> ctx_error \<Rightarrow> string \<Rightarrow> string \<Rightarrow> USPTransferRequest \<Rightarrow>
    USPAgentResponse \<Rightarrow> 'w WUSPController \<Rightarrow> 'w WUSPController \<times> (ctl_error + (USPAgentResponse \<times> byte list))" where
  "downloadOverStream t0 t1 during done target peer t resp c =
     (case transferSessionID (rTransfer resp) of
        None \<Rightarrow> (c, Inr (resp, []))
      | Some i \<Rightarrow>
          (let s0 = new_session i (rID resp) USPAgentMethodDownload peer t0 0 target True;
               c1 = during (recordTransferSessionStart (storeTransferSession s0 c));
               s = (case loadTransferSession peer i c1 of None \<Rightarrow> s0 | Some s \<Rightarrow> s);
               (c2, r) =
                 (case (completeCh s, errCh s) of
                    (Some f, _) \<Rightarrow> (recordTransferSessionComplete t1 s c1, Inr (download_answer t target s f resp, sdata (close_writer s)))
                  | (None, Some err) \<Rightarrow> (recordTransferSessionAbort t1 s c1, Inl err)
                  | (None, None) \<Rightarrow> (recordTransferSessionAbort t1 s (fst (abortTransferSession s c1)), Inl (CContext done)))
           in (deleteTransferSession peer i c2, r)))"

end
