(* ===== verification/Controller.thy ===== *)
theory Controller
  imports Transfer_Stream
begin

text \<open>
  The controller, \<open>src/internal/wuspcontroller/controller.go\<close>: inbound datagrams, reassembly with a cap per peer, the dispatch of responses and events,
  outbound requests and their retries, and the wrappers of the methods. A panic of a decoder in \<open>HandleInbound\<close> is the result \<open>None\<close>. While a
  request waits for its response, the other goroutines act on the controller: they are the argument \<open>during\<close> of the wait. The channel of a
  request is kept in its entry of \<open>pending\<close>. Loops over a map take the keys in order.
\<close>

section \<open>Fragments\<close>

definition msg_ids :: "(64 word, fragmentBuf) fmap \<Rightarrow> 64 word list" where
  "msg_ids m = sorted_list_of_fset (fmdom m)"

definition buf_of :: "(64 word, fragmentBuf) fmap \<Rightarrow> 64 word \<Rightarrow> fragmentBuf" where
  "buf_of m i = the (fmlookup m i)"

definition oldest_of :: "(64 word, fragmentBuf) fmap \<Rightarrow> 64 word option" where
  "oldest_of m =
     fold (\<lambda>i best. case best of None \<Rightarrow> Some i | Some j \<Rightarrow> if Before (arrivedAt (buf_of m i)) (arrivedAt (buf_of m j)) then Some i else Some j)
       (msg_ids m) None"

definition evictOldestFragment :: "(64 word, fragmentBuf) fmap \<Rightarrow> 'w WUSPController \<Rightarrow> (64 word, fragmentBuf) fmap \<times> 'w WUSPController" where
  "evictOldestFragment m c = (fmdrop (case oldest_of m of None \<Rightarrow> 0 | Some i \<Rightarrow> i) m, bump fragmentEvictions 1 c)"

text \<open>The buffers of a peer with one for the message: a new buffer evicts the oldest one when there are too many.\<close>

definition buffer_for :: "gotime \<Rightarrow> 64 word \<Rightarrow> (64 word, fragmentBuf) fmap \<Rightarrow> 'w WUSPController \<Rightarrow> (64 word, fragmentBuf) fmap \<times> 'w WUSPController" where
  "buffer_for now i m c =
     (if fmlookup m i = None then
        (let (m', c') = (if maxFragmentBufs \<le> length (msg_ids m) then evictOldestFragment m c else (m, c)) in
         (fmupd i \<lparr> frags = [], arrivedAt = now \<rparr> m', c'))
      else (m, c))"

definition peer_bufs :: "string \<Rightarrow> 'w WUSPController \<Rightarrow> (64 word, fragmentBuf) fmap" where
  "peer_bufs peer c = (case fmlookup (fragments c) peer of None \<Rightarrow> fmempty | Some m \<Rightarrow> m)"

definition handleFragment :: "gotime \<Rightarrow> string \<Rightarrow> USPControlFragment \<Rightarrow> 'w WUSPController \<Rightarrow> 'w WUSPController \<times> (frag_error + byte list option)" where
  "handleFragment now peer f c =
     (let (m1, c1) = buffer_for now (MessageID f) (peer_bufs peer c) c;
          buf = (buf_of m1 (MessageID f))\<lparr> frags := frags (buf_of m1 (MessageID f)) @ [f] \<rparr>;
          m2 = fmupd (MessageID f) buf m1
      in if of_nat (length (frags buf)) < Count f then (c1\<lparr> fragments := fmupd peer m2 (fragments c1) \<rparr>, Inr None)
         else
           let c2 = c1\<lparr> fragments := fmupd peer (fmdrop (MessageID f) m2) (fragments c1) \<rparr> in
           case ReassembleUSPControlFragments (frags buf) of
             Inl err \<Rightarrow> (c2, Inl err)
           | Inr payload \<Rightarrow> (bump fragmentReassemblies 1 c2, Inr (Some payload)))"

definition sweep_peer :: "gotime \<Rightarrow> (64 word, fragmentBuf) fmap \<Rightarrow> (64 word, fragmentBuf) fmap \<times> nat" where
  "sweep_peer cutoff m =
     (let stale = filter (\<lambda>i. Before (arrivedAt (buf_of m i)) cutoff) (msg_ids m) in (fold fmdrop stale m, length stale))"

fun sweep_loop :: "gotime \<Rightarrow> string list \<Rightarrow> 'w WUSPController \<Rightarrow> 'w WUSPController" where
  "sweep_loop cutoff [] c = c"
| "sweep_loop cutoff (peer # peers) c =
     (let (m, n) = sweep_peer cutoff (the (fmlookup (fragments c) peer));
          c' = bump fragmentEvictions (of_nat n) c
      in sweep_loop cutoff peers
           (c'\<lparr> fragments := (if m = fmempty then fmdrop peer (fragments c') else fmupd peer m (fragments c')) \<rparr>))"

definition sweepStaleFragments :: "gotime \<Rightarrow> 'w WUSPController \<Rightarrow> 'w WUSPController" where
  "sweepStaleFragments now c = sweep_loop (now - fragmentTTL) (sorted_list_of_fset (fmdom (fragments c))) c"

section \<open>Inbound datagrams\<close>

text \<open>A response is put into the channel of the request with its identifier, when that is empty; a notify response is also passed on.\<close>

definition deliver_response :: "string \<Rightarrow> USPAgentResponse \<Rightarrow> 'w WUSPController \<Rightarrow> 'w WUSPController" where
  "deliver_response peer resp c0 =
     (let c = bump inboundResponses 1 c0;
          notify = (\<lambda>c. if rMethod resp = USPAgentMethodNotify \<and> opts_OnNotify c then c\<lparr> spawned := spawned c @ [OnNotify peer resp] \<rparr> else c)
      in case fmlookup (pending c) (rID resp) of
           None \<Rightarrow> notify c
         | Some p \<Rightarrow>
             (let c' = (case ch p of
                          None \<Rightarrow> c\<lparr> pending := fmupd (rID resp) (p\<lparr> ch := Some resp \<rparr>) (pending c) \<rparr>
                        | Some _ \<Rightarrow> bump responsesAfterTimeout 1 c)
              in if rMethod resp \<noteq> USPAgentMethodNotify then c' else notify c'))"

definition dispatchInbound :: "env \<Rightarrow> string \<Rightarrow> byte list \<Rightarrow> 'w WUSPController \<Rightarrow> 'w WUSPController option" where
  "dispatchInbound e peer bs c =
     (case DecodeUSPAgentResponse (env_schema e) (runtimeDevice e) bs of
        Inr resp \<Rightarrow> Some (deliver_response peer resp c)
      | Inl err \<Rightarrow>
          if err = TPanic then None
          else
            (case DecodeUSPAgentRequest (env_re e) (env_schema e) (runtimeDevice e) bs of
               Inl err' \<Rightarrow> (if err' = TPanic then None else Some c)
             | Inr req \<Rightarrow>
                 (let c1 = bump inboundRequests 1 c in
                  if IsEventNotifyRequest req then
                    (case DecodeEventFromRequest req of
                       Inl _ \<Rightarrow> Some c1
                     | Inr event \<Rightarrow> Some (if opts_OnEvent c1 then c1\<lparr> spawned := spawned c1 @ [OnEvent peer event] \<rparr> else c1))
                  else Some c1)))"

definition HandleInbound :: "env \<Rightarrow> bool \<Rightarrow> gotime \<Rightarrow> string \<Rightarrow> byte list \<Rightarrow> 'w WUSPController \<Rightarrow> 'w WUSPController option" where
  "HandleInbound e io_ok now peer bs c0 =
     (let c = bump inboundBytes (of_nat (length bs)) (bump inboundDatagrams 1 (markPeerInbound now peer c0)) in
      if bs \<noteq> [] \<and> hd bs = 0x53 then
        (case DecodeUSPTransferStreamFrame bs of
           Inl err \<Rightarrow> (if err = TPanic then None else Some c)
         | Inr f \<Rightarrow>
             Some (handleTransferStreamFrame io_ok peer f
               (bump transferFrameBytesReceived (of_nat (length bs)) (bump transferFramesReceived 1 (bump inboundTransferFrames 1 c)))))
      else
        case DecodeUSPControlFragment bs of
          Inl _ \<Rightarrow> Some (bump fragmentReassemblyErrors 1 c)
        | Inr None \<Rightarrow> dispatchInbound e peer bs c
        | Inr (Some f) \<Rightarrow>
            (let (c1, r) = handleFragment now peer f (bump inboundControlFragments 1 c) in
             case r of
               Inl _ \<Rightarrow> Some (bump fragmentReassemblyErrors 1 c1)
             | Inr None \<Rightarrow> Some c1
             | Inr (Some payload) \<Rightarrow> dispatchInbound e peer payload c1))"

section \<open>Outbound requests\<close>

definition nextID :: "'w WUSPController \<Rightarrow> 'w WUSPController \<times> 64 word" where
  "nextID c = (c\<lparr> reqCounter := reqCounter c + 1 \<rparr>, reqCounter c + 1)"

fun send_frags :: "gotime \<Rightarrow> 'w sender \<Rightarrow> string \<Rightarrow> byte list list \<Rightarrow> 'w WUSPController \<Rightarrow> 'w WUSPController \<times> (ctl_error + unit)" where
  "send_frags now s peer [] c = (c, Inr ())"
| "send_frags now s peer (f # fs) c =
     (let (w, r) = s (cworld c) peer f; c' = c\<lparr> cworld := w \<rparr> in
      case r of
        None \<Rightarrow> send_frags now s peer fs c'
      | Some err \<Rightarrow> (markPeerFailure now peer (bump outboundSendErrors 1 c'), Inl (CSend err)))"

definition send :: "env \<Rightarrow> gotime \<Rightarrow> string \<Rightarrow> USPAgentRequest \<Rightarrow> 'w WUSPController \<Rightarrow> 'w WUSPController \<times> (ctl_error + unit)" where
  "send e now peer req c =
     (case opts_Send c of
        None \<Rightarrow> (c, Inl CNotConfigured)
      | Some s \<Rightarrow>
          if \<not> peerReachable now peer c then (bump peerFastFails 1 c, Inl ErrPeerNotReachable)
          else
            let (c1, b1) = peerControlPayloadBudget peer c;
                req' = req\<lparr> qMetadata := WithResponseMaxControlPayload (qMetadata req) b1 \<rparr>
            in case EncodeUSPAgentRequest (env_re e) (env_schema e) (runtimeDevice e) req' of
                 Inl err \<Rightarrow> (c1, Inl (CEncode err))
               | Inr encoded \<Rightarrow>
                   (let (c2, b2) = peerControlPayloadBudget peer c1 in
                    case FragmentUSPControlPayload encoded (qID req) b2 of
                      Inl err \<Rightarrow> (c2, Inl (CFragment err))
                    | Inr fs \<Rightarrow>
                        send_frags now s peer fs
                          (bump outboundBytes (sum_list (map (\<lambda>f. of_nat (length f)) fs))
                            (bump outboundRequestFragments (of_nat (length fs)) (bump outboundRequests 1 c2)))))"

text \<open>
  One wait for a response: the times of the send and of the failure, what other goroutines do meanwhile, whether the context
  of the attempt is done and why, which branch of the \<open>select\<close> is taken when both are ready, and whether the context of the caller is done.
\<close>

record 'w wait =
  w_now :: gotime
  w_end :: gotime
  during :: "'w WUSPController \<Rightarrow> 'w WUSPController"
  ctx_done :: "ctx_error option"
  take_response :: bool
  parent_done :: bool

definition roundTripOnce :: "env \<Rightarrow> 'w wait \<Rightarrow> string \<Rightarrow> USPAgentRequest \<Rightarrow> 'w WUSPController \<Rightarrow> 'w WUSPController \<times> (ctl_error + USPAgentResponse)" where
  "roundTripOnce e w peer req c =
     (let c1 = c\<lparr> pending := fmupd (qID req) \<lparr> ch = None, pmethod = qMethod req, pstartedAt = w_now w \<rparr> (pending c) \<rparr>;
          (c2, r) = send e (w_now w) peer req c1;
          forget = (\<lambda>c. c\<lparr> pending := fmdrop (qID req) (pending c) \<rparr>)
      in case r of
           Inl err \<Rightarrow> (forget c2, Inl err)
         | Inr _ \<Rightarrow>
             (let c3 = during w c2;
                  got = (case fmlookup (pending c3) (qID req) of None \<Rightarrow> None | Some p \<Rightarrow> ch p)
              in (forget c3,
                  case (got, ctx_done w) of
                    (Some resp, None) \<Rightarrow> Inr resp
                  | (Some resp, Some why) \<Rightarrow> (if take_response w then Inr resp else Inl (CContext why))
                  | (None, Some why) \<Rightarrow> Inl (CContext why)
                  | (None, None) \<Rightarrow> Inl (CContext DeadlineExceeded))))"

definition controlRetryAttempts :: "USPAgentMethod \<Rightarrow> nat" where
  "controlRetryAttempts m =
     (if m = USPAgentMethodGet \<or> m = USPAgentMethodGetInstances \<or> m = USPAgentMethodGetSupportedDM \<or> m = USPAgentMethodGetSupportedProtocol
      then idempotentControlRetryAttempts else 1)"

text \<open>The loop over the attempts: \<open>n\<close> attempts are left, the waits of which are listed.\<close>

fun attempt_loop :: "env \<Rightarrow> gotime \<Rightarrow> string \<Rightarrow> USPAgentRequest \<Rightarrow> bool \<Rightarrow> nat \<Rightarrow> (nat \<Rightarrow> 'w wait) \<Rightarrow> 'w WUSPController \<Rightarrow>
    'w WUSPController \<times> (ctl_error + USPAgentResponse)" where
  "attempt_loop e started peer req retry 0 ws c =
     (bump roundTripFailures 1 (markPeerFailure started peer c), Inl CRetriesExhausted)"
| "attempt_loop e started peer req retry (Suc n) ws c =
     (let w = ws 0;
          (c0, req') = (if retry then (let (c', i) = nextID c in (bump roundTripRetries 1 c', req\<lparr> qID := i \<rparr>)) else (c, req));
          (c1, r) = roundTripOnce e w peer req' c0
      in case r of
           Inr resp \<Rightarrow>
             (recordRoundTripLatency (w_end w - started) (bump roundTripSuccesses 1 (recordControlSuccess peer (rProtocol resp) c1)),
              if rError resp \<noteq> '''' then Inl (AgentError (qMethod req') (rError resp) resp) else Inr resp)
         | Inl err \<Rightarrow>
             if err = CContext DeadlineExceeded then
               (let c2 = fst (reducePeerControlPayload peer (bump roundTripTimeouts 1 c1)) in
                if 0 < n \<and> \<not> parent_done w then attempt_loop e started peer req True n (\<lambda>k. ws (Suc k)) c2
                else (bump roundTripFailures 1 (markPeerFailure (w_end w) peer c2), Inl err))
             else (bump roundTripFailures 1 c1, Inl err))"

definition roundTrip :: "env \<Rightarrow> gotime \<Rightarrow> (nat \<Rightarrow> 'w wait) \<Rightarrow> string \<Rightarrow> USPAgentRequest \<Rightarrow> 'w WUSPController \<Rightarrow> 'w WUSPController \<times> (ctl_error + USPAgentResponse)" where
  "roundTrip e started ws peer req c =
     attempt_loop e started peer req False (controlRetryAttempts (qMethod req)) ws (bump roundTrips 1 c)"

definition IsAgentError :: "ctl_error \<Rightarrow> bool" where
  "IsAgentError err \<longleftrightarrow> (case err of AgentError _ _ _ \<Rightarrow> True | _ \<Rightarrow> False)"

definition runRequest :: "env \<Rightarrow> gotime \<Rightarrow> (nat \<Rightarrow> 'w wait) \<Rightarrow> string \<Rightarrow> USPAgentRequest \<Rightarrow> 'w WUSPController \<Rightarrow> 'w WUSPController \<times> (ctl_error + USPAgentResponse)" where
  "runRequest e started ws peer req c =
     (let (c', req') = (if qID req = 0 then (let (c', i) = nextID c in (c', req\<lparr> qID := i \<rparr>)) else (c, req)) in roundTrip e started ws peer req' c')"

section \<open>Access to parameters\<close>

definition ReadOnly :: string where "ReadOnly = ''readOnly''"

definition IsWritable :: "string \<Rightarrow> 'w WUSPController \<Rightarrow> bool" where
  "IsWritable path c =
     (case model c of None \<Rightarrow> True | Some d \<Rightarrow> (case GetParam d path of None \<Rightarrow> True | Some p \<Rightarrow> pAccess p \<noteq> ReadOnly))"

definition IsReadOnly :: "string \<Rightarrow> 'w WUSPController \<Rightarrow> bool" where
  "IsReadOnly path c =
     (case model c of None \<Rightarrow> False | Some d \<Rightarrow> (case GetParam d path of None \<Rightarrow> False | Some p \<Rightarrow> pAccess p = ReadOnly))"

definition ParamInfo :: "string \<Rightarrow> 'w WUSPController \<Rightarrow> Param option" where
  "ParamInfo path c = (case model c of None \<Rightarrow> None | Some d \<Rightarrow> GetParam d path)"

fun sanitize_loop :: "Device \<Rightarrow> Field list \<Rightarrow> Field list \<Rightarrow> nat \<Rightarrow> Field list \<times> nat" where
  "sanitize_loop d [] kept dropped = (kept, dropped)"
| "sanitize_loop d (f # fs) kept dropped =
     (let path = TrimSpace (Path f) in
      if path = '''' then sanitize_loop d fs kept (Suc dropped)
      else if (case GetParam d path of None \<Rightarrow> False | Some p \<Rightarrow> pAccess p = ReadOnly) then sanitize_loop d fs kept (Suc dropped)
      else sanitize_loop d fs (kept @ [f]) dropped)"

text \<open>The message after the filter, the number of fields dropped, and the error.\<close>

definition sanitizeSetMessage :: "'w WUSPController \<Rightarrow> Message option \<Rightarrow> Message option \<times> nat \<times> (ctl_error + unit)" where
  "sanitizeSetMessage c m =
     (case m of
        None \<Rightarrow> (None, 0, Inl (CInvalid '''' ''Set requires a non-nil Message''))
      | Some x \<Rightarrow>
          if Fields x = [] then (m, 0, Inl (CInvalid '''' ''Set requires at least one field''))
          else case model c of
                 None \<Rightarrow> (m, 0, Inr ())
               | Some d \<Rightarrow>
                   (let (kept, dropped) = sanitize_loop d (Fields x) [] 0 in
                    (Some (x\<lparr> Fields := kept \<rparr>), dropped,
                     if kept = [] then Inl (CInvalid '''' ''Set rejected: all fields were read-only or empty'') else Inr ())))"

section \<open>Methods\<close>

definition request :: "USPAgentMethod \<Rightarrow> USPAgentRequest" where
  "request m =
     \<lparr> qID = 0, qMethod = m, qPaths = [], qPathCodes = [], qPathInstances = [], qObjectPath = '''', qObjectCode = 0, qObjectInstances = [],
       qMessage = None, qTransfer = None, qMetadata = fmempty \<rparr>"

type_synonym 'w wrapper = "'w WUSPController \<Rightarrow> 'w WUSPController \<times> (ctl_error + USPAgentResponse)"

definition ctl_Get :: "env \<Rightarrow> gotime \<Rightarrow> (nat \<Rightarrow> 'w wait) \<Rightarrow> string \<Rightarrow> string list \<Rightarrow> 'w wrapper" where
  "ctl_Get e t ws peer paths c =
     (if paths = [] then (c, Inl (CInvalid '''' ''Get requires at least one path''))
      else runRequest e t ws peer ((request USPAgentMethodGet)\<lparr> qPaths := paths \<rparr>) c)"

definition ctl_GetAll :: "env \<Rightarrow> gotime \<Rightarrow> (nat \<Rightarrow> 'w wait) \<Rightarrow> string \<Rightarrow> 'w wrapper" where
  "ctl_GetAll e t ws peer c = runRequest e t ws peer (request USPAgentMethodGet) c"

definition ctl_GetCoded :: "env \<Rightarrow> gotime \<Rightarrow> (nat \<Rightarrow> 'w wait) \<Rightarrow> string \<Rightarrow> 64 word list \<Rightarrow> 'w wrapper" where
  "ctl_GetCoded e t ws peer codes c =
     (if codes = [] then (c, Inl (CInvalid '''' ''GetCoded requires at least one code''))
      else runRequest e t ws peer ((request USPAgentMethodGet)\<lparr> qPathCodes := codes \<rparr>) c)"

definition ctl_Set :: "env \<Rightarrow> gotime \<Rightarrow> (nat \<Rightarrow> 'w wait) \<Rightarrow> string \<Rightarrow> Message option \<Rightarrow> 'w wrapper" where
  "ctl_Set e t ws peer m c =
     (if (case m of None \<Rightarrow> True | Some x \<Rightarrow> Fields x = []) then (c, Inl (CInvalid '''' ''Set requires at least one field''))
      else runRequest e t ws peer ((request USPAgentMethodSet)\<lparr> qMessage := m \<rparr>) c)"

definition SetValidated :: "env \<Rightarrow> gotime \<Rightarrow> (nat \<Rightarrow> 'w wait) \<Rightarrow> string \<Rightarrow> Message option \<Rightarrow> 'w wrapper" where
  "SetValidated e t ws peer m c =
     (let (m', dropped, r) = sanitizeSetMessage c m in case r of Inl err \<Rightarrow> (c, Inl err) | Inr _ \<Rightarrow> ctl_Set e t ws peer m' c)"

definition ctl_Add :: "env \<Rightarrow> gotime \<Rightarrow> (nat \<Rightarrow> 'w wait) \<Rightarrow> string \<Rightarrow> string \<Rightarrow> 'w wrapper" where
  "ctl_Add e t ws peer objectPath c =
     (if \<not> HasSuffix (TrimSpace objectPath) ''.'' then (c, Inl (CInvalid objectPath ''Add: objectPath must end with a dot''))
      else runRequest e t ws peer ((request USPAgentMethodAdd)\<lparr> qObjectPath := objectPath \<rparr>) c)"

definition ctl_Delete :: "env \<Rightarrow> gotime \<Rightarrow> (nat \<Rightarrow> 'w wait) \<Rightarrow> string \<Rightarrow> string list \<Rightarrow> 'w wrapper" where
  "ctl_Delete e t ws peer paths c =
     (if paths = [] then (c, Inl (CInvalid '''' ''Delete requires at least one path''))
      else runRequest e t ws peer ((request USPAgentMethodDelete)\<lparr> qPaths := paths \<rparr>) c)"

definition ctl_GetInstances :: "env \<Rightarrow> gotime \<Rightarrow> (nat \<Rightarrow> 'w wait) \<Rightarrow> string \<Rightarrow> string list \<Rightarrow> 'w wrapper" where
  "ctl_GetInstances e t ws peer objectPaths c =
     (if objectPaths = [] then (c, Inl (CInvalid '''' ''GetInstances requires at least one object path''))
      else case find (\<lambda>p. \<not> HasSuffix (TrimSpace p) ''.'') objectPaths of
             Some p \<Rightarrow> (c, Inl (CInvalid p ''GetInstances: object paths must end with a dot''))
           | None \<Rightarrow> runRequest e t ws peer ((request USPAgentMethodGetInstances)\<lparr> qPaths := objectPaths \<rparr>) c)"

definition ctl_Operate :: "env \<Rightarrow> gotime \<Rightarrow> (nat \<Rightarrow> 'w wait) \<Rightarrow> string \<Rightarrow> string \<Rightarrow> Message option \<Rightarrow> (string, string) fmap \<Rightarrow> 'w wrapper" where
  "ctl_Operate e t ws peer cmdPath input md c =
     (let trimmed = TrimSpace cmdPath in
      if trimmed = '''' then (c, Inl (CInvalid '''' ''Operate: cmdPath required''))
      else if \<not> HasSuffix trimmed ''()'' \<and> \<not> HasSuffix trimmed ''.'' then (c, Inl (CInvalid cmdPath ''Operate: cmdPath must be a command or an object path''))
      else runRequest e t ws peer ((request USPAgentMethodOperate)\<lparr> qObjectPath := trimmed, qMessage := input, qMetadata := md \<rparr>) c)"

definition ctl_Notify :: "env \<Rightarrow> gotime \<Rightarrow> (nat \<Rightarrow> 'w wait) \<Rightarrow> string \<Rightarrow> string \<Rightarrow> Message option \<Rightarrow> (string, string) fmap \<Rightarrow> 'w wrapper" where
  "ctl_Notify e t ws peer eventPath payload md c =
     (if \<not> HasSuffix (TrimSpace eventPath) ''.'' then (c, Inl (CInvalid eventPath ''Notify: eventPath must end with a dot''))
      else runRequest e t ws peer ((request USPAgentMethodNotify)\<lparr> qObjectPath := eventPath, qMessage := payload, qMetadata := md \<rparr>) c)"

definition ctl_GetSupportedDM :: "env \<Rightarrow> gotime \<Rightarrow> (nat \<Rightarrow> 'w wait) \<Rightarrow> string \<Rightarrow> string list \<Rightarrow> 'w wrapper" where
  "ctl_GetSupportedDM e t ws peer filters c = runRequest e t ws peer ((request USPAgentMethodGetSupportedDM)\<lparr> qPaths := filters \<rparr>) c"

definition ctl_GetSupportedProtocol :: "env \<Rightarrow> gotime \<Rightarrow> (nat \<Rightarrow> 'w wait) \<Rightarrow> string \<Rightarrow> 'w wrapper" where
  "ctl_GetSupportedProtocol e t ws peer c = runRequest e t ws peer (request USPAgentMethodGetSupportedProtocol) c"

definition ctl_Upload :: "env \<Rightarrow> gotime \<Rightarrow> (nat \<Rightarrow> 'w wait) \<Rightarrow> (string \<Rightarrow> string + byte list) \<Rightarrow> gotime \<Rightarrow> gotime \<Rightarrow> wait_result list \<Rightarrow> final_wait option \<Rightarrow> string \<Rightarrow>
    USPTransferRequest option \<Rightarrow> 'w WUSPController \<Rightarrow> 'w WUSPController \<times> (ctl_error + USPAgentResponse) option" where
  "ctl_Upload e t ws fs t0 t1 evs fin peer transfer c =
     (case transfer of
        None \<Rightarrow> (c, Some (Inl (CInvalid '''' ''Upload requires a Transfer block'')))
      | Some tr \<Rightarrow>
          (let (c', r) = runRequest e t ws peer ((request USPAgentMethodUpload)\<lparr> qTransfer := transfer \<rparr>) c in
           case r of Inl err \<Rightarrow> (c', Some (Inl err)) | Inr resp \<Rightarrow> uploadOverStream fs t0 t1 evs fin peer tr resp c'))"

definition ctl_Download :: "env \<Rightarrow> gotime \<Rightarrow> (nat \<Rightarrow> 'w wait) \<Rightarrow> gotime \<Rightarrow> gotime \<Rightarrow> ('w WUSPController \<Rightarrow> 'w WUSPController) \<Rightarrow> ctx_error \<Rightarrow> string \<Rightarrow> string \<Rightarrow>
    USPTransferRequest option \<Rightarrow> 'w WUSPController \<Rightarrow> 'w WUSPController \<times> (ctl_error + (USPAgentResponse \<times> byte list))" where
  "ctl_Download e t ws t0 t1 handle done target peer transfer c =
     (case transfer of
        None \<Rightarrow> (c, Inl (CInvalid '''' ''Download requires a Transfer block''))
      | Some tr \<Rightarrow>
          (let (c', r) = runRequest e t ws peer ((request USPAgentMethodDownload)\<lparr> qTransfer := transfer \<rparr>) c in
           case r of Inl err \<Rightarrow> (c', Inl err) | Inr resp \<Rightarrow> downloadOverStream t0 t1 handle done target peer tr resp c'))"

section \<open>Subscriptions and provisioning\<close>

definition Subscribe :: "env \<Rightarrow> gotime \<Rightarrow> string \<Rightarrow> string \<Rightarrow> USPEventType list \<Rightarrow> string list \<Rightarrow> string list \<Rightarrow> 'w WUSPController \<Rightarrow> 'w WUSPController \<times> (ctl_error + unit)" where
  "Subscribe e now peer subid ts pathFilter eventFilter c =
     (if TrimSpace subid = '''' then (c, Inl (CInvalid '''' ''Subscribe: subID must not be empty''))
      else let (c', i) = nextID c in send e now peer (EncodeSubscribeRequest i subid ts pathFilter eventFilter) c')"

definition Unsubscribe :: "env \<Rightarrow> gotime \<Rightarrow> string \<Rightarrow> string \<Rightarrow> 'w WUSPController \<Rightarrow> 'w WUSPController \<times> (ctl_error + unit)" where
  "Unsubscribe e now peer subid c =
     (if TrimSpace subid = '''' then (c, Inl (CInvalid '''' ''Unsubscribe: subID must not be empty''))
      else let (c', i) = nextID c in send e now peer (EncodeUnsubscribeRequest i subid) c')"

definition dashSubscriptionID :: string where "dashSubscriptionID = ''wantastic-dashboard''"

definition EnsureDashboardSubscription :: "env \<Rightarrow> gotime \<Rightarrow> string \<Rightarrow> 'w WUSPController \<Rightarrow> 'w WUSPController \<times> (ctl_error + unit)" where
  "EnsureDashboardSubscription e now peer c =
     Subscribe e now peer dashSubscriptionID
       [USPEventTypeValueChange, USPEventTypeOperationComplete, USPEventTypeObjectCreation, USPEventTypeObjectDeletion] [] [] c"

definition CancelDashboardSubscription :: "env \<Rightarrow> gotime \<Rightarrow> string \<Rightarrow> 'w WUSPController \<Rightarrow> 'w WUSPController \<times> (ctl_error + unit)" where
  "CancelDashboardSubscription e now peer c = Unsubscribe e now peer dashSubscriptionID c"

text \<open>\<open>ProvisionDevice\<close> for a snapshot that \<open>encoding/json\<close> has decoded to pairs of a path and a value, or refused.\<close>

definition ProvisionDevice :: "env \<Rightarrow> gotime \<Rightarrow> (nat \<Rightarrow> 'w wait) \<Rightarrow> string \<Rightarrow> (string \<times> string) list option \<Rightarrow> 'w wrapper" where
  "ProvisionDevice e t ws peer pairs c =
     (case pairs of
        None \<Rightarrow> (c, Inl (CInvalid '''' ''ProvisionDevice decode snapshot''))
      | Some ps \<Rightarrow>
          (let m = fold (\<lambda>(p, v) m. if IsReadOnly p c then m else Message_Set (globalRegistry (env_schema e)) m p (StringV v)) ps NewMessage in
           if Fields m = [] then (c, Inl (CInvalid '''' ''ProvisionDevice: snapshot contains no writable parameters''))
           else ctl_Set e t ws peer (Some m) c))"

end
