(* ===== verification/Controller_Runs.thy ===== *)
theory Controller_Runs
  imports Controller Agent_Runs
begin

text \<open>
  The controller over its lifetime: the states it reaches by inbound datagrams, sweeps and requests, and the invariants of its tables.
\<close>

section \<open>What the operations leave alone\<close>

lemma bump_keeps [simp]:
  "opts_Send (bump s n c) = opts_Send c" "opts_OnEvent (bump s n c) = opts_OnEvent c" "opts_OnNotify (bump s n c) = opts_OnNotify c"
  "model (bump s n c) = model c" "reqCounter (bump s n c) = reqCounter c" "pending (bump s n c) = pending c" "fragments (bump s n c) = fragments c"
  "streams (bump s n c) = streams c" "spawned (bump s n c) = spawned c" "cworld (bump s n c) = cworld c"
  by (simp_all add: bump_def)

lemma stats_bump: "stats (bump s n c) t = (if t = s then stats c t + n else stats c t)"
  by (simp add: bump_def)

lemma observe_keeps [simp]:
  "opts_Send (observeUint64Max s n c) = opts_Send c" "pending (observeUint64Max s n c) = pending c" "fragments (observeUint64Max s n c) = fragments c"
  "sessions (observeUint64Max s n c) = sessions c" "streams (observeUint64Max s n c) = streams c" "cworld (observeUint64Max s n c) = cworld c"
  by (simp_all add: observeUint64Max_def)

lemma put_peer_keeps [simp]:
  "opts_Send (put_peer p s c) = opts_Send c" "opts_OnEvent (put_peer p s c) = opts_OnEvent c" "opts_OnNotify (put_peer p s c) = opts_OnNotify c"
  "model (put_peer p s c) = model c" "reqCounter (put_peer p s c) = reqCounter c" "pending (put_peer p s c) = pending c"
  "fragments (put_peer p s c) = fragments c" "streams (put_peer p s c) = streams c" "spawned (put_peer p s c) = spawned c"
  "cworld (put_peer p s c) = cworld c" "stats (put_peer p s c) = stats c" "sessions (put_peer p s c) = fmupd p s (sessions c)"
  by (simp_all add: put_peer_def)

lemma mark_keeps [simp]:
  "fragments (markPeerInbound now p c) = fragments c" "pending (markPeerInbound now p c) = pending c" "stats (markPeerInbound now p c) = stats c"
  "fragments (markPeerFailure now p c) = fragments c" "pending (markPeerFailure now p c) = pending c" "stats (markPeerFailure now p c) = stats c"
  "opts_OnNotify (markPeerInbound now p c) = opts_OnNotify c" "opts_OnEvent (markPeerInbound now p c) = opts_OnEvent c"
  "streams (markPeerInbound now p c) = streams c" "opts_Send (markPeerInbound now p c) = opts_Send c"
  by (simp_all add: markPeerInbound_def markPeerFailure_def)

lemma peers_ok_cong: "sessions c' = sessions c \<Longrightarrow> peers_ok c' = peers_ok c"
  by (simp add: peers_ok_def)

lemma mark_ok [simp]:
  "peers_ok c \<Longrightarrow> peers_ok (markPeerInbound now p c)" "peers_ok c \<Longrightarrow> peers_ok (markPeerFailure now p c)"
  using peer_of_ok [of c p] by (auto simp: markPeerInbound_def markPeerFailure_def session_ok_def intro!: put_peer_ok)

section \<open>The buffers of a peer\<close>

definition buf_ok :: "64 word \<Rightarrow> fragmentBuf \<Rightarrow> bool" where
  "buf_ok i b \<longleftrightarrow> frags b \<noteq> [] \<and> (\<forall>f\<in>set (frags b). MessageID f = i \<and> validateUSPControlFragment f = Inr ())"

definition peer_bufs_ok :: "(64 word, fragmentBuf) fmap \<Rightarrow> bool" where
  "peer_bufs_ok m \<longleftrightarrow> length (msg_ids m) \<le> maxFragmentBufs \<and> (\<forall>i b. fmlookup m i = Some b \<longrightarrow> buf_ok i b)"

definition bufs_ok :: "'w WUSPController \<Rightarrow> bool" where
  "bufs_ok c \<longleftrightarrow> (\<forall>peer m. fmlookup (fragments c) peer = Some m \<longrightarrow> peer_bufs_ok m)"

lemma length_msg_ids: "length (msg_ids m) = fcard (fmdom m)"
  by (simp add: msg_ids_def sorted_list_of_fset.rep_eq fcard.rep_eq)

lemma set_msg_ids [simp]: "set (msg_ids m) = fset (fmdom m)" "distinct (msg_ids m)"
  by (simp_all add: msg_ids_def sorted_list_of_fset.rep_eq)

lemma msg_ids_drop: "length (msg_ids (fmdrop i m)) \<le> length (msg_ids m)"
  "i \<in> fset (fmdom m) \<Longrightarrow> length (msg_ids (fmdrop i m)) = length (msg_ids m) - 1"
proof -
  have d: "fset (fmdom (fmdrop i m)) = fset (fmdom m) - {i}" by auto
  show "length (msg_ids (fmdrop i m)) \<le> length (msg_ids m)" unfolding length_msg_ids fcard.rep_eq d by (rule card_mono) auto
  show "i \<in> fset (fmdom m) \<Longrightarrow> length (msg_ids (fmdrop i m)) = length (msg_ids m) - 1" unfolding length_msg_ids fcard.rep_eq d by simp
qed

lemma msg_ids_upd: "length (msg_ids (fmupd i b m)) = (if i \<in> fset (fmdom m) then length (msg_ids m) else Suc (length (msg_ids m)))"
  by (simp add: length_msg_ids fcard.rep_eq insert_absorb)

lemma peer_bufs_empty [simp]: "peer_bufs_ok fmempty"
  by (simp add: peer_bufs_ok_def msg_ids_def sorted_list_of_fset.rep_eq)

lemma peer_bufs_drop: "peer_bufs_ok m \<Longrightarrow> peer_bufs_ok (fmdrop i m)"
  using msg_ids_drop(1) [of i m] by (auto simp: peer_bufs_ok_def)

lemma peer_bufs_drops: "peer_bufs_ok m \<Longrightarrow> peer_bufs_ok (fold fmdrop is m)"
  by (induction "is" arbitrary: m) (auto intro: peer_bufs_drop)

text \<open>The oldest buffer is one of the buffers.\<close>

lemma oldest_of_mem:
  assumes "m \<noteq> fmempty"
  shows "\<exists>i. oldest_of m = Some i \<and> i \<in> fset (fmdom m)"
proof -
  let ?step = "\<lambda>i best. case best of None \<Rightarrow> Some i | Some j \<Rightarrow> if Before (arrivedAt (buf_of m i)) (arrivedAt (buf_of m j)) then Some i else Some j"
  have g: "best = None \<and> is = [] \<or> (\<exists>i. fold ?step is best = Some i \<and> (i \<in> set is \<or> best = Some i))" for "is" best
  proof (induction "is" arbitrary: best)
    case Nil
    then show ?case by (cases best) auto
  next
    case (Cons x xs)
    then show ?case using Cons [of "?step x best"] by (cases best) auto
  qed
  have "fmdom m \<noteq> {||}" using assms by (metis fmdom_notD fmap_ext fempty_iff fmempty_lookup)
  then have "msg_ids m \<noteq> []" using set_msg_ids(1) [of m] by (metis bot_fset.rep_eq fset_inject list.set(1))
  then obtain i where "fold ?step (msg_ids m) None = Some i" "i \<in> set (msg_ids m)" using g [of None "msg_ids m"] by auto
  then show ?thesis by (auto simp: oldest_of_def)
qed

lemma bufs_ok_peer: "bufs_ok c \<Longrightarrow> peer_bufs_ok (peer_bufs peer c)"
  by (auto simp: bufs_ok_def peer_bufs_def split: option.splits)

lemma evict_bufs:
  assumes "peer_bufs_ok m" and "maxFragmentBufs \<le> length (msg_ids m)" and "evictOldestFragment m c = (m', c')"
  shows "peer_bufs_ok m' \<and> length (msg_ids m') < maxFragmentBufs \<and> fset (fmdom m') \<subseteq> fset (fmdom m) \<and> fragments c' = fragments c"
proof -
  have "m \<noteq> fmempty" using assms(2) by (auto simp: maxFragmentBufs_def msg_ids_def sorted_list_of_fset.rep_eq)
  then obtain i where i: "oldest_of m = Some i" "i \<in> fset (fmdom m)" using oldest_of_mem by blast
  then have "m' = fmdrop i m" "fragments c' = fragments c" using assms(3) by (auto simp: evictOldestFragment_def)
  moreover have "length (msg_ids m) \<le> maxFragmentBufs" using assms(1) by (simp add: peer_bufs_ok_def)
  ultimately show ?thesis using assms(1) msg_ids_drop(2) [OF i(2)] peer_bufs_drop by (auto simp: maxFragmentBufs_def)
qed

lemma buffer_for_bufs:
  assumes "peer_bufs_ok m" and "validateUSPControlFragment f = Inr ()" and "buffer_for now (MessageID f) m c = (m1, c1)"
    and "buf = (buf_of m1 (MessageID f))\<lparr> frags := frags (buf_of m1 (MessageID f)) @ [f] \<rparr>"
  shows "fragments c1 = fragments c" "peer_bufs_ok (fmupd (MessageID f) buf m1)"
proof -
  have "fragments c1 = fragments c \<and> peer_bufs_ok (fmupd (MessageID f) buf m1)"
  proof (cases "fmlookup m (MessageID f)")
    case None
    obtain m' c' where e: "(if maxFragmentBufs \<le> length (msg_ids m) then evictOldestFragment m c else (m, c)) = (m', c')" by force
    have m1: "m1 = fmupd (MessageID f) \<lparr> frags = [], arrivedAt = now \<rparr> m'" "c1 = c'" using assms(3) None e by (simp_all add: buffer_for_def)
    have "peer_bufs_ok m' \<and> length (msg_ids m') < maxFragmentBufs \<and> fset (fmdom m') \<subseteq> fset (fmdom m) \<and> fragments c' = fragments c"
      using evict_bufs [OF assms(1)] e assms(1) by (cases "maxFragmentBufs \<le> length (msg_ids m)") auto
    then have m': "peer_bufs_ok m'" "length (msg_ids m') < maxFragmentBufs" "fragments c' = fragments c" "MessageID f \<notin> fset (fmdom m')"
      using None by (auto simp: fmlookup_dom_iff)
    have b: "buf_ok (MessageID f) buf" using assms(2,4) by (simp add: m1 buf_of_def buf_ok_def)
    have "length (msg_ids (fmupd (MessageID f) buf m1)) = Suc (length (msg_ids m'))" using m'(4) unfolding m1 msg_ids_upd by simp
    then show ?thesis using m' b m1 by (auto simp: peer_bufs_ok_def)
  next
    case (Some b)
    then have m1: "m1 = m" "c1 = c" using assms(3) by (simp_all add: buffer_for_def)
    then have "buf_ok (MessageID f) buf" using Some assms(1,2,4) by (auto simp: buf_of_def buf_ok_def peer_bufs_ok_def)
    moreover have "MessageID f \<in> fset (fmdom m)" using Some by (simp add: fmdomI)
    then have "length (msg_ids (fmupd (MessageID f) buf m)) = length (msg_ids m)" unfolding msg_ids_upd by simp
    ultimately show ?thesis using assms(1) m1 by (auto simp: peer_bufs_ok_def)
  qed
  then show "fragments c1 = fragments c" "peer_bufs_ok (fmupd (MessageID f) buf m1)" by blast+
qed

lemma handleFragment_bufs:
  assumes "bufs_ok c" and "validateUSPControlFragment f = Inr ()" and "handleFragment now peer f c = (c', r)"
  shows "bufs_ok c'"
proof -
  obtain m1 c1 where b: "buffer_for now (MessageID f) (peer_bufs peer c) c = (m1, c1)" by force
  define buf where "buf = (buf_of m1 (MessageID f))\<lparr> frags := frags (buf_of m1 (MessageID f)) @ [f] \<rparr>"
  note k = buffer_for_bufs [OF bufs_ok_peer [OF assms(1)] assms(2) b buf_def]
  have "fragments c' = fmupd peer (fmupd (MessageID f) buf m1) (fragments c) \<or>
      fragments c' = fmupd peer (fmdrop (MessageID f) (fmupd (MessageID f) buf m1)) (fragments c)"
    using assms(3) k(1) unfolding handleFragment_def b prod.case Let_def buf_def [symmetric] by (auto split: if_splits sum.splits)
  then show ?thesis using assms(1) k(2) peer_bufs_drop [OF k(2)] by (auto simp: bufs_ok_def split: if_splits)
qed

section \<open>The invariant of the tables\<close>

definition tables_ok :: "'w WUSPController \<Rightarrow> bool" where
  "tables_ok c \<longleftrightarrow> bufs_ok c \<and> peers_ok c"

lemma tables_cong: "fragments c' = fragments c \<Longrightarrow> sessions c' = sessions c \<Longrightarrow> tables_ok c \<Longrightarrow> tables_ok c'"
  by (simp add: tables_ok_def bufs_ok_def peers_ok_def)

lemma tables_bump [simp]: "tables_ok (bump s n c) = tables_ok c"
  by (simp add: tables_ok_def bufs_ok_def)

lemma tables_mark [simp]: "tables_ok c \<Longrightarrow> tables_ok (markPeerInbound now p c)" "tables_ok c \<Longrightarrow> tables_ok (markPeerFailure now p c)"
  by (simp_all add: tables_ok_def bufs_ok_def)

lemma peer_bufs_sweep: "peer_bufs_ok m \<Longrightarrow> sweep_peer cutoff m = (m', n) \<Longrightarrow> peer_bufs_ok m'"
  by (auto simp: sweep_peer_def Let_def peer_bufs_drops)

lemma sweep_tables:
  "tables_ok c \<Longrightarrow> set peers \<subseteq> fset (fmdom (fragments c)) \<Longrightarrow> distinct peers \<Longrightarrow> tables_ok (sweep_loop cutoff peers c)"
proof (induction peers arbitrary: c)
  case (Cons peer peers)
  obtain m n where sw: "sweep_peer cutoff (the (fmlookup (fragments c) peer)) = (m, n)" by force
  obtain m0 where m0: "fmlookup (fragments c) peer = Some m0" using Cons.prems(2) by (auto simp: fmlookup_dom_iff)
  then have "peer_bufs_ok m0" using Cons.prems(1) by (auto simp: tables_ok_def bufs_ok_def)
  then have m: "peer_bufs_ok m" using peer_bufs_sweep sw m0 by force
  let ?c = "(bump fragmentEvictions (of_nat n) c)\<lparr> fragments := (if m = fmempty then fmdrop peer (fragments c) else fmupd peer m (fragments c)) \<rparr>"
  have "tables_ok ?c" using Cons.prems(1) m by (auto simp: tables_ok_def bufs_ok_def peers_ok_def split: if_splits)
  moreover have "set peers \<subseteq> fset (fmdom (fragments ?c))" using Cons.prems(2,3) by auto
  ultimately show ?case using Cons.IH [of ?c] Cons.prems(3) sw by (cases "m = fmempty") (simp_all add: Let_def)
qed simp

lemma sendTransfer_keeps:
  "sendTransferStream peer f c = (c', r) \<Longrightarrow> fragments c' = fragments c \<and> sessions c' = sessions c \<and> streams c' = streams c \<and> pending c' = pending c"
  by (auto simp: sendTransferStream_def Let_def split: option.splits sum.splits prod.splits)

lemma transfer_frame_keeps:
  "fragments (handleTransferStreamFrame io_ok peer f c) = fragments c \<and> sessions (handleTransferStreamFrame io_ok peer f c) = sessions c \<and>
   pending (handleTransferStreamFrame io_ok peer f c) = pending c"
proof (cases "loadTransferSession peer (sSessionID f) c")
  case (Some s)
  have st: "fragments (storeTransferSession x c1) = fragments c1" "sessions (storeTransferSession x c1) = sessions c1"
    "pending (storeTransferSession x c1) = pending c1" for x and c1 :: "'a WUSPController"
    by (simp_all add: storeTransferSession_def Let_def)
  obtain c' s' r where d: "handleDownloadStreamFrame io_ok s f c = (c', s', r)" by (metis prod_cases3)
  have "fragments c' = fragments c \<and> sessions c' = sessions c \<and> pending c' = pending c"
    using d by (auto simp: handleDownloadStreamFrame_def Let_def dest: sendTransfer_keeps split: prod.splits option.splits)
  then show ?thesis using Some d by (simp add: handleTransferStreamFrame_def st)
qed (simp add: handleTransferStreamFrame_def)

lemma transfer_frame_tables [simp]: "tables_ok (handleTransferStreamFrame io_ok peer f c) = tables_ok c"
  using transfer_frame_keeps [of io_ok peer f c] by (simp add: tables_ok_def bufs_ok_def peers_ok_def)

lemma deliver_keeps [simp]:
  "fragments (deliver_response peer resp c) = fragments c" "sessions (deliver_response peer resp c) = sessions c"
  by (auto simp: deliver_response_def Let_def split: option.splits)

lemma dispatch_keeps:
  "dispatchInbound e peer bs c = Some c' \<Longrightarrow> fragments c' = fragments c \<and> sessions c' = sessions c"
  by (auto simp: dispatchInbound_def Let_def split: sum.splits if_splits)

lemma decoded_fragment_valid: "DecodeUSPControlFragment bs = Inr (Some f) \<Longrightarrow> validateUSPControlFragment f = Inr ()"
  by (auto simp: DecodeUSPControlFragment_def Let_def elim!: res_bind.elims split: if_splits)

lemma fragment_keeps_sessions: "handleFragment now peer f c = (c', r) \<Longrightarrow> sessions c' = sessions c"
  by (auto simp: handleFragment_def buffer_for_def evictOldestFragment_def Let_def split: prod.splits if_splits sum.splits)

lemma handleFragment_tables:
  "tables_ok c \<Longrightarrow> validateUSPControlFragment f = Inr () \<Longrightarrow> handleFragment now peer f c = (c', r) \<Longrightarrow> tables_ok c'"
  using handleFragment_bufs fragment_keeps_sessions [of now peer f c c' r] by (auto simp: tables_ok_def peers_ok_def)

lemma inbound_tables:
  assumes "tables_ok c" and "HandleInbound e io_ok now peer bs c = Some c'"
  shows "tables_ok c'"
proof -
  define c0 where "c0 = bump inboundBytes (of_nat (length bs)) (bump inboundDatagrams 1 (markPeerInbound now peer c))"
  have c0: "tables_ok c0" using assms(1) tables_mark(1) by (simp add: c0_def)
  have d: "tables_ok c2" if "dispatchInbound e peer p c1 = Some c2" "tables_ok c1" for p c1 c2
    using dispatch_keeps [OF that(1)] tables_cong that(2) by blast
  note h = assms(2) [unfolded HandleInbound_def Let_def, folded c0_def]
  show ?thesis
  proof (cases "bs \<noteq> [] \<and> hd bs = 0x53")
    case True
    then obtain f where f: "c' = handleTransferStreamFrame io_ok peer f
        (bump transferFrameBytesReceived (of_nat (length bs)) (bump transferFramesReceived 1 (bump inboundTransferFrames 1 c0))) \<or> c' = c0"
      using h by (auto split: sum.splits if_splits)
    then show ?thesis using c0 by auto
  next
    case False
    show ?thesis
    proof (cases "DecodeUSPControlFragment bs")
      case (Inl err)
      then show ?thesis using h False c0 by auto
    next
      case (Inr fo)
      show ?thesis
      proof (cases fo)
        case None
        then show ?thesis using h False Inr c0 d by auto
      next
        case (Some f)
        obtain c1 r where hf: "handleFragment now peer f (bump inboundControlFragments 1 c0) = (c1, r)" by force
        have c1: "tables_ok c1" using handleFragment_tables [OF _ decoded_fragment_valid hf] c0 Inr Some by simp
        have h': "(case r of Inl _ \<Rightarrow> Some (bump fragmentReassemblyErrors 1 c1) | Inr None \<Rightarrow> Some c1 | Inr (Some payload) \<Rightarrow> dispatchInbound e peer payload c1) = Some c'"
          using h False Inr Some hf by auto
        show ?thesis
        proof (cases r)
          case (Inl err)
          then show ?thesis using h' c1 by auto
        next
          case (Inr o')
          then show ?thesis using h' c1 d by (cases o') auto
        qed
      qed
    qed
  qed
qed

lemma budget_keeps:
  "peerControlPayloadBudget peer c = (c', b) \<Longrightarrow> fragments c' = fragments c \<and> pending c' = pending c \<and> stats c' = stats c \<and> opts_Send c' = opts_Send c \<and>
     cworld c' = cworld c \<and> reqCounter c' = reqCounter c"
  by (auto simp: peerControlPayloadBudget_def Let_def)

lemma budget_tables: "tables_ok c \<Longrightarrow> peerControlPayloadBudget peer c = (c', b) \<Longrightarrow> tables_ok c'"
  using budget_bounds(1) budget_keeps by (fastforce simp: tables_ok_def bufs_ok_def)

lemma send_frags_tables: "tables_ok c \<Longrightarrow> send_frags now s peer fs c = (c', r) \<Longrightarrow> tables_ok c'"
proof (induction fs arbitrary: c)
  case (Cons f fs)
  obtain w x where s: "s (cworld c) peer f = (w, x)" by force
  have t: "tables_ok (c\<lparr> cworld := w \<rparr>)" using Cons.prems(1) tables_cong [of "c\<lparr> cworld := w \<rparr>" c] by simp
  then show ?case using Cons.prems(2) Cons.IH [OF t] tables_mark(2) s by (cases x) auto
qed simp

lemma send_tables:
  assumes "tables_ok c" and "send e now peer req c = (c', r)"
  shows "tables_ok c'"
proof (cases "opts_Send c")
  case (Some s)
  obtain c1 b1 where b1: "peerControlPayloadBudget peer c = (c1, b1)" by force
  obtain c2 b2 where b2: "peerControlPayloadBudget peer c1 = (c2, b2)" by force
  have t: "tables_ok c1" "tables_ok c2" using budget_tables b1 b2 assms(1) by blast+
  show ?thesis using assms Some t
    by (auto simp: send_def b1 b2 Let_def elim!: send_frags_tables [rotated] split: if_splits sum.splits)
qed (use assms in \<open>simp add: send_def\<close>)

lemma reduce_keeps: "reducePeerControlPayload peer c = (c', b) \<Longrightarrow> fragments c' = fragments c"
proof -
  assume "reducePeerControlPayload peer c = (c', b)"
  then have "fst (reducePeerControlPayload peer c) = c'" by simp
  then show ?thesis unfolding reducePeerControlPayload_def Let_def fst_conv by (metis bump_keeps(7) put_peer_keeps(7))
qed

lemma reduce_tables: "tables_ok c \<Longrightarrow> reducePeerControlPayload peer c = (c', b) \<Longrightarrow> tables_ok c'"
  using reduce_bounds(1) [of c peer c' b] reduce_keeps [of peer c c' b] by (simp add: tables_ok_def bufs_ok_def)

lemma success_tables: "tables_ok c \<Longrightarrow> tables_ok (recordControlSuccess peer p c)"
proof -
  assume t: "tables_ok c"
  have "fragments (recordControlSuccess peer p c) = fragments c"
    unfolding recordControlSuccess_def Let_def if_distrib [of fragments] bump_keeps put_peer_keeps by simp
  then show ?thesis using t success_bounds [of c peer p] by (simp add: tables_ok_def bufs_ok_def)
qed

lemma latency_tables [simp]: "tables_ok (recordRoundTripLatency d c) = tables_ok c"
  by (simp add: recordRoundTripLatency_def observeUint64Max_def tables_ok_def bufs_ok_def peers_ok_def)

lemma once_tables:
  assumes "tables_ok c" and "\<And>c. tables_ok c \<Longrightarrow> tables_ok (during w c)" and "roundTripOnce e w peer req c = (c', r)"
  shows "tables_ok c'"
proof -
  let ?c1 = "c\<lparr> pending := fmupd (qID req) \<lparr> ch = None, pmethod = qMethod req, pstartedAt = w_now w \<rparr> (pending c) \<rparr>"
  obtain c2 r2 where s: "send e (w_now w) peer req ?c1 = (c2, r2)" by force
  have c1: "tables_ok ?c1" using assms(1) tables_cong [of ?c1 c] by simp
  have c2: "tables_ok c2" by (rule send_tables [OF c1 s])
  have f: "tables_ok (x\<lparr> pending := y \<rparr>) = tables_ok x" for x :: "'a WUSPController" and y by (simp add: tables_ok_def bufs_ok_def peers_ok_def)
  show ?thesis using assms(3) c2 assms(2) [OF c2] by (cases r2) (auto simp: roundTripOnce_def s Let_def f)
qed

lemma nextID_tables: "tables_ok c \<Longrightarrow> nextID c = (c', i) \<Longrightarrow> tables_ok c'"
  by (auto simp: nextID_def tables_ok_def bufs_ok_def peers_ok_def)

lemma attempts_tables:
  assumes "\<And>k c. tables_ok c \<Longrightarrow> tables_ok (during (ws k) c)" and "tables_ok c" and "attempt_loop e started peer req retry n ws c = (c', r)"
  shows "tables_ok c'"
  using assms
proof (induction n arbitrary: retry ws c)
  case 0
  then show ?case using tables_mark(2) by auto
next
  case (Suc n)
  obtain c0 req' where c0: "(if retry then (let (c', i) = nextID c in (bump roundTripRetries 1 c', req\<lparr> qID := i \<rparr>)) else (c, req)) = (c0, req')" by force
  have t0: "tables_ok c0" using c0 Suc.prems(2) nextID_tables by (auto split: if_splits prod.splits)
  obtain c1 r1 where o1: "roundTripOnce e (ws 0) peer req' c0 = (c1, r1)" by force
  have t1: "tables_ok c1" by (rule once_tables [OF t0 _ o1]) (rule Suc.prems(1))
  obtain c2 b where rd: "reducePeerControlPayload peer (bump roundTripTimeouts 1 c1) = (c2, b)" by force
  have t2: "tables_ok c2" by (rule reduce_tables [OF _ rd]) (simp add: t1)
  show ?case
  proof (cases r1)
    case (Inr resp)
    then show ?thesis using Suc.prems(3) t1 success_tables c0 o1 by auto
  next
    case (Inl err)
    show ?thesis
    proof (cases "err = CContext DeadlineExceeded \<and> 0 < n \<and> \<not> parent_done (ws 0)")
      case True
      then have l: "attempt_loop e started peer req True n (\<lambda>k. ws (Suc k)) c2 = (c', r)" using Suc.prems(3) Inl c0 o1 rd by auto
      show ?thesis by (rule Suc.IH [OF _ t2 l]) (rule Suc.prems(1))
    next
      case False
      then have "c' = bump roundTripFailures 1 c1 \<or> c' = bump roundTripFailures 1 (markPeerFailure (w_end (ws 0)) peer c2)"
        using Suc.prems(3) Inl c0 o1 rd by (cases "err = CContext DeadlineExceeded") auto
      then show ?thesis using t1 t2 by auto
    qed
  qed
qed

lemma runRequest_tables:
  assumes "\<And>k c. tables_ok c \<Longrightarrow> tables_ok (during (ws k) c)" and "tables_ok c" and "runRequest e started ws peer req c = (c', r)"
  shows "tables_ok c'"
proof -
  obtain c0 req' where c0: "(if qID req = 0 then (let (c', i) = nextID c in (c', req\<lparr> qID := i \<rparr>)) else (c, req)) = (c0, req')" by force
  have t0: "tables_ok c0" using c0 assms(2) nextID_tables by (auto split: if_splits prod.splits)
  have "attempt_loop e started peer req' False (controlRetryAttempts (qMethod req')) ws (bump roundTrips 1 c0) = (c', r)"
    using assms(3) c0 by (simp add: runRequest_def roundTrip_def)
  then show ?thesis by (rule attempts_tables [rotated -1]) (simp_all add: assms(1) t0)
qed

section \<open>Reachable controllers\<close>

text \<open>
  The steps of the controller: the datagrams that come in, the sweeps, and the steps a request is made of, in any interleaving. The waits
  between the steps of a request are the steps of the others.
\<close>

inductive ctl_reach :: "env \<Rightarrow> 'w WUSPController \<Rightarrow> bool" for e where
  new: "ctl_reach e (New s onEvent onNotify m w)"
| inbound: "ctl_reach e c \<Longrightarrow> HandleInbound e io_ok now peer bs c = Some c' \<Longrightarrow> ctl_reach e c'"
| sweep: "ctl_reach e c \<Longrightarrow> ctl_reach e (sweepStaleFragments now c)"
| fresh: "ctl_reach e c \<Longrightarrow> nextID c = (c', i) \<Longrightarrow> ctl_reach e c'"
| register: "ctl_reach e c \<Longrightarrow> ctl_reach e (c\<lparr> pending := fmupd i p (pending c) \<rparr>)"
| send: "ctl_reach e c \<Longrightarrow> send e now peer req c = (c', r) \<Longrightarrow> ctl_reach e c'"
| forget: "ctl_reach e c \<Longrightarrow> ctl_reach e (c\<lparr> pending := fmdrop i (pending c) \<rparr>)"
| success: "ctl_reach e c \<Longrightarrow> ctl_reach e (recordControlSuccess peer protocol c)"
| timeout: "ctl_reach e c \<Longrightarrow> reducePeerControlPayload peer c = (c', b) \<Longrightarrow> ctl_reach e c'"
| failure: "ctl_reach e c \<Longrightarrow> ctl_reach e (markPeerFailure now peer c)"
| request: "ctl_reach e c \<Longrightarrow> \<forall>k. during (ws k) = (\<lambda>x. x) \<Longrightarrow> runRequest e started ws peer req c = (c', r2) \<Longrightarrow> ctl_reach e c'"
| store: "ctl_reach e c \<Longrightarrow> ctl_reach e (storeTransferSession s c)"
| delete: "ctl_reach e c \<Longrightarrow> ctl_reach e (deleteTransferSession peer i c)"
| transfer: "ctl_reach e c \<Longrightarrow> sendTransferStream peer f c = (c', r3) \<Longrightarrow> ctl_reach e c'"
| count_up: "ctl_reach e c \<Longrightarrow> ctl_reach e (bump st n c)"

lemma reach_tables: "ctl_reach e c \<Longrightarrow> tables_ok c"
proof (induction rule: ctl_reach.induct)
  case (new s onEvent onNotify m w)
  then show ?case by (simp add: New_def tables_ok_def bufs_ok_def peers_ok_def)
next
  case (sweep c now)
  then show ?case unfolding sweepStaleFragments_def by (intro sweep_tables) (simp_all add: sorted_list_of_fset.rep_eq)
next
  case (register c i p)
  then show ?case using tables_cong [of "c\<lparr> pending := fmupd i p (pending c) \<rparr>" c] by simp
next
  case (forget c i)
  then show ?case using tables_cong [of "c\<lparr> pending := fmdrop i (pending c) \<rparr>" c] by simp
next
  case (request c ws started peer req c' r2)
  then show ?case using runRequest_tables [of ws c e started peer req c' r2] by auto
next
  case (store c s)
  then show ?case using tables_cong [of "storeTransferSession s c" c] by (simp add: storeTransferSession_def Let_def)
next
  case (delete c peer i)
  then show ?case using tables_cong [of "deleteTransferSession peer i c" c] by (simp add: deleteTransferSession_def Let_def split: option.splits)
next
  case (transfer c peer f c' r3)
  then show ?case using sendTransfer_keeps tables_cong by blast
qed (auto intro: inbound_tables nextID_tables send_tables success_tables reduce_tables)

text \<open>
  C22. Whatever datagrams arrive and whatever the controller does, it keeps at most 64 incomplete messages of a peer, each of them
  with fragments of one message only, and the budget for datagrams to a peer stays between 512 and 1200 bytes once it is set, also when the peer announces another maximum.
\<close>

theorem controller_tables_bounded:
  assumes "ctl_reach e c"
  shows "(\<forall>peer m. fmlookup (fragments c) peer = Some m \<longrightarrow> fcard (fmdom m) \<le> 64 \<and>
       (\<forall>i b. fmlookup m i = Some b \<longrightarrow> frags b \<noteq> [] \<and> (\<forall>f\<in>set (frags b). MessageID f = i))) \<and>
    (\<forall>peer s. fmlookup (sessions c) peer = Some s \<longrightarrow> ControlPayloadBudget s = 0 \<or> 512 \<le> ControlPayloadBudget s \<and> ControlPayloadBudget s \<le> 1200)"
proof -
  have t: "bufs_ok c" "peers_ok c" using reach_tables [OF assms] by (simp_all add: tables_ok_def)
  have "fcard (fmdom m) \<le> 64 \<and> (\<forall>i b. fmlookup m i = Some b \<longrightarrow> frags b \<noteq> [] \<and> (\<forall>f\<in>set (frags b). MessageID f = i))"
    if "fmlookup (fragments c) peer = Some m" for peer m
    using t(1) that by (auto simp: bufs_ok_def peer_bufs_ok_def buf_ok_def length_msg_ids maxFragmentBufs_def)
  moreover have "ControlPayloadBudget s = 0 \<or> 512 \<le> ControlPayloadBudget s \<and> ControlPayloadBudget s \<le> 1200"
    if "fmlookup (sessions c) peer = Some s" for peer s
    using t(2) that by (auto simp: peers_ok_def session_ok_def minControlPayloadBudget_def WUSPMaxDatagramPayload_def)
  ultimately show ?thesis by blast
qed


section \<open>Witnesses\<close>

definition half_message :: "byte list" where
  "half_message = [0x54, 1, 0, 9, 0, 0, 0, 0, 0, 0, 0, 0, 0, 0, 0, 2, 0, 0, 0, 0, 0, 0, 0, 7]"

lemma half_message_decoded:
  "DecodeUSPControlFragment half_message = Inr (Some \<lparr> MessageID = 9, Index = 0, Count = 2, RawSize = 0, Compressed = False, Data = [7] \<rparr>)"
  by code_simp

theorem controller_tables_bounded_witness:
  "\<exists>c m. HandleInbound env_demo True 5 ''peer'' half_message (New None False False None ()) = Some c \<and>
     fmlookup (fragments c) ''peer'' = Some m \<and> fcard (fmdom m) = 1 \<and> (\<forall>i b. fmlookup m i = Some b \<longrightarrow> (\<forall>f\<in>set (frags b). MessageID f = i))"
proof -
  let ?f = "\<lparr> MessageID = 9, Index = 0, Count = 2, RawSize = 0, Compressed = False, Data = [7] \<rparr> :: USPControlFragment"
  let ?m = "fmupd 9 \<lparr> frags = [?f], arrivedAt = 5 \<rparr> (fmupd 9 \<lparr> frags = [], arrivedAt = 5 \<rparr> fmempty) :: (64 word, fragmentBuf) fmap"
  have hd: "hd half_message \<noteq> 0x53" by (simp add: half_message_def)
  obtain c where c: "HandleInbound env_demo True 5 ''peer'' half_message (New None False False None ()) = Some c"
    "fmlookup (fragments c) ''peer'' = Some ?m"
    unfolding HandleInbound_def Let_def half_message_decoded
    using hd by (simp add: handleFragment_def buffer_for_def peer_bufs_def New_def msg_ids_def sorted_list_of_fset.rep_eq maxFragmentBufs_def buf_of_def Let_def)
  have "ctl_reach env_demo c" using ctl_reach.new c(1) by (rule ctl_reach.inbound)
  from controller_tables_bounded [OF this] c show ?thesis by (auto simp: fcard.rep_eq)
qed

end
