(* ===== verification/Controller_Requests.thy ===== *)
theory Controller_Requests
  imports Controller_Runs
begin

text \<open>
  Requests and responses of the controller: a response is put together from its fragments and reaches the request that waits for it; a request
  reaches the agent; what the filters on parameters let through; and what goes wrong: subscriptions, short frames, duplicates.
\<close>

section \<open>Reassembly\<close>

text \<open>The buffer of a message of a peer, and what the controller has of the message.\<close>

definition msg_buf :: "string \<Rightarrow> 64 word \<Rightarrow> 'w WUSPController \<Rightarrow> fragmentBuf option" where
  "msg_buf peer i c = fmlookup (peer_bufs peer c) i"

definition got :: "string \<Rightarrow> 64 word \<Rightarrow> 'w WUSPController \<Rightarrow> USPControlFragment list" where
  "got peer i c = (case msg_buf peer i c of None \<Rightarrow> [] | Some b \<Rightarrow> frags b)"

lemma msg_buf_cong: "fragments c' = fragments c \<Longrightarrow> msg_buf peer i c' = msg_buf peer i c"
  by (simp add: msg_buf_def peer_bufs_def)

lemma got_cong: "fragments c' = fragments c \<Longrightarrow> got peer i c' = got peer i c"
  unfolding got_def by (metis msg_buf_cong)

lemma buffer_for_buf:
  assumes "buffer_for now i m c = (m1, c1)"
  shows "buf_of m1 i = (case fmlookup m i of None \<Rightarrow> \<lparr> frags = [], arrivedAt = now \<rparr> | Some b \<Rightarrow> b)" "pending c1 = pending c" "fragments c1 = fragments c"
  using assms by (auto simp: buffer_for_def buf_of_def evictOldestFragment_def Let_def split: if_splits option.splits)

text \<open>The buffer of a message after one more fragment.\<close>

definition extended :: "gotime \<Rightarrow> string \<Rightarrow> USPControlFragment \<Rightarrow> 'w WUSPController \<Rightarrow> fragmentBuf" where
  "extended now peer f c =
     (case msg_buf peer (MessageID f) c of None \<Rightarrow> \<lparr> frags = [f], arrivedAt = now \<rparr> | Some b \<Rightarrow> b\<lparr> frags := frags b @ [f] \<rparr>)"

lemma extended_frags: "frags (extended now peer f c) = got peer (MessageID f) c @ [f]"
  by (simp add: extended_def got_def split: option.split)

lemma handleFragment_buf:
  fixes c :: "'w WUSPController" and f :: USPControlFragment and peer :: string and now :: gotime
  defines "b \<equiv> extended now peer f c"
  shows "of_nat (length (frags b)) < Count f \<Longrightarrow>
      \<exists>c'. handleFragment now peer f c = (c', Inr None) \<and> msg_buf peer (MessageID f) c' = Some b \<and> pending c' = pending c"
    and "\<not> of_nat (length (frags b)) < Count f \<Longrightarrow>
      \<exists>c'. handleFragment now peer f c = (c', map_sum id Some (ReassembleUSPControlFragments (frags b))) \<and> msg_buf peer (MessageID f) c' = None \<and> pending c' = pending c"
proof -
  obtain m1 c1 where u: "buffer_for now (MessageID f) (peer_bufs peer c) c = (m1, c1)" by force
  note k = buffer_for_buf [OF u]
  have fb: "(buf_of m1 (MessageID f))\<lparr> frags := frags (buf_of m1 (MessageID f)) @ [f] \<rparr> = b"
    unfolding k(1) by (simp add: b_def extended_def msg_buf_def split: option.split)
  have h: "handleFragment now peer f c =
     (if of_nat (length (frags b)) < Count f then (c1\<lparr> fragments := fmupd peer (fmupd (MessageID f) b m1) (fragments c1) \<rparr>, Inr None)
      else let c2 = c1\<lparr> fragments := fmupd peer (fmdrop (MessageID f) (fmupd (MessageID f) b m1)) (fragments c1) \<rparr> in
        case ReassembleUSPControlFragments (frags b) of Inl err \<Rightarrow> (c2, Inl err) | Inr payload \<Rightarrow> (bump fragmentReassemblies 1 c2, Inr (Some payload)))"
    unfolding handleFragment_def u prod.case Let_def fb ..
  show "\<exists>c'. handleFragment now peer f c = (c', Inr None) \<and> msg_buf peer (MessageID f) c' = Some b \<and> pending c' = pending c" if "of_nat (length (frags b)) < Count f"
    using that k(2) unfolding h by (simp add: msg_buf_def peer_bufs_def)
  show "\<exists>c'. handleFragment now peer f c = (c', map_sum id Some (ReassembleUSPControlFragments (frags b))) \<and> msg_buf peer (MessageID f) c' = None \<and> pending c' = pending c"
    if "\<not> of_nat (length (frags b)) < Count f"
    using that k(2) unfolding h Let_def by (cases "ReassembleUSPControlFragments (frags b)") (simp_all add: msg_buf_def peer_bufs_def)
qed

text \<open>A datagram that holds a fragment.\<close>

lemma inbound_fragment:
  assumes "DecodeUSPControlFragment bs = Inr (Some f)"
  obtains c0 :: "'w WUSPController" where "fragments c0 = fragments c" "pending c0 = pending c"
    "HandleInbound e io_ok now peer bs c =
       (let (c1, r) = handleFragment now peer f c0 in
        case r of Inl _ \<Rightarrow> Some (bump fragmentReassemblyErrors 1 c1) | Inr None \<Rightarrow> Some c1 | Inr (Some payload) \<Rightarrow> dispatchInbound e peer payload c1)"
proof -
  let ?c0 = "bump inboundControlFragments 1 (bump inboundBytes (of_nat (length bs)) (bump inboundDatagrams 1 (markPeerInbound now peer c)))"
  have "bs \<noteq> []" "hd bs \<noteq> 0x53" using assms
    by (auto simp: DecodeUSPControlFragment_def uspControlFragmentMagic_def hd_conv_nth split: if_splits)
  then show ?thesis using assms by (intro that [of ?c0]) (simp_all add: HandleInbound_def Let_def)
qed

text \<open>A sweep drops the buffers that are too old, and only those.\<close>

lemma fmlookup_drops: "fmlookup (fold fmdrop ks m) i = (if i \<in> set ks then None else fmlookup m i)"
  by (induction ks arbitrary: m) auto

lemma sweep_peer_buf:
  "fmlookup (fst (sweep_peer cutoff m)) i =
     (case fmlookup m i of None \<Rightarrow> None | Some b \<Rightarrow> if Before (arrivedAt b) cutoff then None else Some b)"
proof (cases "fmlookup m i")
  case (Some b)
  then have "i \<in> set (msg_ids m)" "buf_of m i = b" by (auto simp: msg_ids_def buf_of_def fmdomI)
  then show ?thesis using Some by (auto simp: sweep_peer_def Let_def fmlookup_drops)
qed (simp add: sweep_peer_def Let_def fmlookup_drops)

lemma sweep_loop_buf:
  "distinct peers \<Longrightarrow> set peers \<subseteq> fset (fmdom (fragments c)) \<Longrightarrow>
   msg_buf peer i (sweep_loop cutoff peers c) =
     (if peer \<in> set peers then (case msg_buf peer i c of None \<Rightarrow> None | Some b \<Rightarrow> if Before (arrivedAt b) cutoff then None else Some b)
      else msg_buf peer i c) \<and> pending (sweep_loop cutoff peers c) = pending c"
proof (induction peers arbitrary: c)
  case (Cons q peers)
  obtain m0 where m0: "fmlookup (fragments c) q = Some m0" using Cons.prems(2) by (auto simp: fmlookup_dom_iff)
  obtain m n where sw: "sweep_peer cutoff m0 = (m, n)" by force
  define c1 where "c1 = (bump fragmentEvictions (of_nat n) c)\<lparr> fragments := (if m = fmempty then fmdrop q (fragments c) else fmupd q m (fragments c)) \<rparr>"
  have b: "msg_buf peer i c1 = (if peer = q then fmlookup m i else msg_buf peer i c)"
    by (simp add: c1_def msg_buf_def peer_bufs_def)
  have m: "fmlookup m i = (case msg_buf q i c of None \<Rightarrow> None | Some b \<Rightarrow> if Before (arrivedAt b) cutoff then None else Some b)"
    using sweep_peer_buf [of cutoff m0 i] m0 sw by (simp add: msg_buf_def peer_bufs_def)
  have "sweep_loop cutoff (q # peers) c = sweep_loop cutoff peers c1" using m0 sw by (simp add: c1_def Let_def)
  moreover have "set peers \<subseteq> fset (fmdom (fragments c1))" using Cons.prems by (auto simp: c1_def)
  moreover have "pending c1 = pending c" by (simp add: c1_def)
  ultimately show ?case using Cons.IH [of c1] Cons.prems(1) b m by auto
qed simp

lemma sweep_buf:
  "msg_buf peer i (sweepStaleFragments now c) =
     (case msg_buf peer i c of None \<Rightarrow> None | Some b \<Rightarrow> if Before (arrivedAt b) (now - fragmentTTL) then None else Some b)"
  "pending (sweepStaleFragments now c) = pending c"
proof -
  let ?ps = "sorted_list_of_fset (fmdom (fragments c))"
  have "distinct ?ps" "set ?ps \<subseteq> fset (fmdom (fragments c))" by (simp_all add: sorted_list_of_fset.rep_eq)
  note l = sweep_loop_buf [OF this, of peer i "now - fragmentTTL"]
  have "msg_buf peer i c = None" if "peer \<notin> set ?ps" using that by (simp add: msg_buf_def peer_bufs_def sorted_list_of_fset.rep_eq fmdom_notD)
  then show "msg_buf peer i (sweepStaleFragments now c) =
     (case msg_buf peer i c of None \<Rightarrow> None | Some b \<Rightarrow> if Before (arrivedAt b) (now - fragmentTTL) then None else Some b)"
    "pending (sweepStaleFragments now c) = pending c"
    using l by (auto simp: sweepStaleFragments_def)
qed

text \<open>
  The controller while a message of a peer comes in: \<open>inbound_run e peer i t0 c ds r\<close> says that from \<open>c\<close> it has come to \<open>r\<close> (\<open>None\<close> is a panic) with the
  datagrams \<open>ds\<close> of the message handled, none before \<open>t0\<close>. Between them are sweeps, up to the time to live of a buffer after \<open>t0\<close>, and steps of others
  (datagrams of other peers and messages, requests, transfers): any that leave the buffer of the message and the entry of the request as they are.
\<close>

inductive inbound_run :: "env \<Rightarrow> string \<Rightarrow> 64 word \<Rightarrow> gotime \<Rightarrow> 'w WUSPController \<Rightarrow> byte list list \<Rightarrow> 'w WUSPController option \<Rightarrow> bool"
  for e peer i t0 c where
  start: "inbound_run e peer i t0 c [] (Some c)"
| datagram: "inbound_run e peer i t0 c ds (Some c1) \<Longrightarrow> t0 \<le> now \<Longrightarrow> inbound_run e peer i t0 c (ds @ [bs]) (HandleInbound e io_ok now peer bs c1)"
| sweep: "inbound_run e peer i t0 c ds (Some c1) \<Longrightarrow> now \<le> t0 + fragmentTTL \<Longrightarrow> inbound_run e peer i t0 c ds (Some (sweepStaleFragments now c1))"
| others: "inbound_run e peer i t0 c ds (Some c1) \<Longrightarrow> msg_buf peer i c2 = msg_buf peer i c1 \<Longrightarrow>
    fmlookup (pending c2) i = fmlookup (pending c1) i \<Longrightarrow> inbound_run e peer i t0 c ds (Some c2)"

text \<open>One more fragment of a message, with some missing or with none missing.\<close>

lemma inbound_piece:
  assumes "DecodeUSPControlFragment bs = Inr (Some f)" and "Count f = of_nat n" and "n < 2 ^ 32" and "length (got peer (MessageID f) c) < n"
  shows "Suc (length (got peer (MessageID f) c)) < n \<Longrightarrow> \<exists>c'. HandleInbound e io_ok now peer bs c = Some c' \<and>
      msg_buf peer (MessageID f) c' = Some (extended now peer f c) \<and> pending c' = pending c"
    and "Suc (length (got peer (MessageID f) c)) = n \<Longrightarrow> ReassembleUSPControlFragments (got peer (MessageID f) c @ [f]) = Inr payload \<Longrightarrow>
      \<exists>c'. HandleInbound e io_ok now peer bs c = dispatchInbound e peer payload c' \<and> msg_buf peer (MessageID f) c' = None \<and> pending c' = pending c"
proof -
  obtain c0 where c0: "fragments c0 = fragments c" "pending c0 = pending c"
    "HandleInbound e io_ok now peer bs c = (let (c1, r) = handleFragment now peer f c0 in
        case r of Inl _ \<Rightarrow> Some (bump fragmentReassemblyErrors 1 c1) | Inr None \<Rightarrow> Some c1 | Inr (Some payload) \<Rightarrow> dispatchInbound e peer payload c1)"
    by (rule inbound_fragment [OF assms(1)])
  let ?l = "length (frags (extended now peer f c0))"
  have x: "extended now peer f c0 = extended now peer f c" "got peer (MessageID f) c0 = got peer (MessageID f) c"
    by (simp_all add: extended_def msg_buf_cong [OF c0(1)] got_def)
  have v: "unat (of_nat k :: 32 word) = k" if "k < 2 ^ 32" for k using that by (simp add: unat_of_nat)
  have l: "?l = Suc (length (got peer (MessageID f) c))" by (simp add: extended_frags x(2))
  have u: "(of_nat ?l :: 32 word) < Count f \<longleftrightarrow> Suc (length (got peer (MessageID f) c)) < n"
    unfolding l word_less_nat_alt assms(2) using v [of "Suc (length (got peer (MessageID f) c))"] v [OF assms(3)] assms(3,4) by (simp del: of_nat_Suc)
  show "\<exists>c'. HandleInbound e io_ok now peer bs c = Some c' \<and> msg_buf peer (MessageID f) c' = Some (extended now peer f c) \<and> pending c' = pending c"
    if "Suc (length (got peer (MessageID f) c)) < n" using handleFragment_buf(1) [of now peer f c0] that u c0(2,3) x(1) by auto
  show "\<exists>c'. HandleInbound e io_ok now peer bs c = dispatchInbound e peer payload c' \<and> msg_buf peer (MessageID f) c' = None \<and> pending c' = pending c"
    if "Suc (length (got peer (MessageID f) c)) = n" "ReassembleUSPControlFragments (got peer (MessageID f) c @ [f]) = Inr payload"
    using handleFragment_buf(2) [of now peer f c0] that u c0(2,3) x by (auto simp: extended_frags)
qed

section \<open>Responses\<close>

lemma deliver_pending:
  assumes "fmlookup (pending c) (rID resp) = Some p" and "ch p = None"
  shows "fmlookup (pending (deliver_response peer resp c)) (rID resp) = Some (p\<lparr> ch := Some resp \<rparr>)"
  using assms by (simp add: deliver_response_def Let_def)

lemma decode_empty: "DecodeUSPAgentResponse sc d [] \<noteq> Inr resp" "DecodeUSPAgentRequest re sc d [] \<noteq> Inr req"
  by (simp_all add: DecodeUSPAgentResponse_def DecodeUSPAgentRequest_def readHeader_def)

text \<open>The piece a datagram holds.\<close>

definition piece :: "byte list \<Rightarrow> USPControlFragment" where
  "piece bs = the (projr (DecodeUSPControlFragment bs))"

lemma reordered:
  assumes "map DecodeUSPControlFragment frames = map (\<lambda>f. Inr (Some f)) pieces" and "mset ds = mset frames"
  shows "mset (map piece ds) = mset pieces" "bs \<in> set frames \<Longrightarrow> DecodeUSPControlFragment bs = Inr (Some (piece bs)) \<and> piece bs \<in> set pieces"
proof -
  have "map piece frames = map (\<lambda>y. the (projr y)) (map DecodeUSPControlFragment frames)" by (simp add: piece_def)
  then have m: "map piece frames = pieces" unfolding assms(1) by (simp add: comp_def)
  show "mset (map piece ds) = mset pieces" using assms(2) m by (metis mset_map)
  assume b: "bs \<in> set frames"
  then have "DecodeUSPControlFragment bs \<in> set (map (\<lambda>f. Inr (Some f)) pieces)" unfolding assms(1) [symmetric] by simp
  then show "DecodeUSPControlFragment bs = Inr (Some (piece bs)) \<and> piece bs \<in> set pieces" by (auto simp: piece_def)
qed

text \<open>What holds while the datagrams of a message come in: the buffer has the pieces so far, and the last one delivers the message.\<close>

definition arriving :: "string \<Rightarrow> 64 word \<Rightarrow> gotime \<Rightarrow> byte list list \<Rightarrow> 'w WUSPController \<Rightarrow> bool" where
  "arriving peer i t0 ds c \<longleftrightarrow>
     (if ds = [] then msg_buf peer i c = None else \<exists>b. msg_buf peer i c = Some b \<and> frags b = map piece ds \<and> t0 \<le> arrivedAt b)"

lemma arriving_got: "arriving peer i t0 ds c \<Longrightarrow> got peer i c = map piece ds"
  by (auto simp: arriving_def got_def split: if_splits)

lemma arriving_next:
  assumes "arriving peer (MessageID (piece bs)) t0 ds c" and "t0 \<le> now"
    and "msg_buf peer (MessageID (piece bs)) c' = Some (extended now peer (piece bs) c)"
  shows "arriving peer (MessageID (piece bs)) t0 (ds @ [bs]) c'"
  using assms by (auto simp: arriving_def extended_def split: if_splits)

lemma arriving_sweep:
  assumes "arriving peer i t0 ds c" and "now \<le> t0 + fragmentTTL"
  shows "arriving peer i t0 ds (sweepStaleFragments now c)"
  using assms by (auto simp: arriving_def sweep_buf Before_def split: if_splits)

lemma message_arrives:
  fixes c :: "'w WUSPController"
  assumes "inbound_run e peer i t0 c ds r" and "mset ds \<subseteq># mset frames" and "length frames < 2 ^ 32"
    and frames: "\<And>bs. bs \<in> set frames \<Longrightarrow> DecodeUSPControlFragment bs = Inr (Some (piece bs)) \<and>
        MessageID (piece bs) = i \<and> Count (piece bs) = of_nat (length frames)"
    and whole: "\<And>ds. mset ds = mset frames \<Longrightarrow> ReassembleUSPControlFragments (map piece ds) = Inr payload"
    and dispatch: "\<And>c1 :: 'w WUSPController. fmlookup (pending c1) i = Some p \<Longrightarrow>
        \<exists>c2. dispatchInbound e peer payload c1 = Some c2 \<and> fragments c2 = fragments c1 \<and> fmlookup (pending c2) i = Some p'"
    and "msg_buf peer i c = None" and "fmlookup (pending c) i = Some p" and "frames \<noteq> []"
  shows "\<exists>c'. r = Some c' \<and> (if length ds < length frames then arriving peer i t0 ds c' \<and> fmlookup (pending c') i = Some p
      else msg_buf peer i c' = None \<and> fmlookup (pending c') i = Some p')"
  using assms(1,2)
proof (induction rule: inbound_run.induct)
  case start
  then show ?case using assms(7-9) by (simp add: arriving_def)
next
  case (datagram ds c1 now bs io_ok)
  have sub: "mset ds \<subseteq># mset frames" "bs \<in> set frames"
    using datagram.prems mset_subset_eq_insertD [of bs "mset ds" "mset frames"] by (auto simp: subset_mset.less_imp_le)
  have n: "length ds < length frames" using size_mset_mono [OF datagram.prems] by simp
  note fr = frames [OF sub(2)]
  have a: "arriving peer (MessageID (piece bs)) t0 ds c1" "fmlookup (pending c1) i = Some p" using datagram.IH [OF sub(1)] n fr by auto
  note got = arriving_got [OF a(1)]
  note inb = inbound_piece [of bs "piece bs" "length frames" peer c1]
  have fr': "DecodeUSPControlFragment bs = Inr (Some (piece bs))" "Count (piece bs) = of_nat (length frames)" "length (got peer (MessageID (piece bs)) c1) < length frames"
    using fr n got by simp_all
  show ?case
  proof (cases "Suc (length ds) < length frames")
    case True
    then obtain c' where c': "HandleInbound e io_ok now peer bs c1 = Some c'" "msg_buf peer (MessageID (piece bs)) c' = Some (extended now peer (piece bs) c1)" "pending c' = pending c1"
      using inb(1) [OF fr'(1,2) assms(3) fr'(3), of e io_ok now] got by auto
    then show ?thesis using arriving_next [OF a(1) datagram.hyps(2) c'(2)] fr a(2) True by auto
  next
    case False
    then have l: "Suc (length ds) = length frames" using n by simp
    then have "mset (ds @ [bs]) = mset frames"
      using datagram.prems mset_subset_size [of "mset (ds @ [bs])" "mset frames"] by (auto simp: subset_mset.le_less)
    then have "ReassembleUSPControlFragments (got peer (MessageID (piece bs)) c1 @ [piece bs]) = Inr payload" using whole [of "ds @ [bs]"] got by simp
    then obtain c0 where c0: "HandleInbound e io_ok now peer bs c1 = dispatchInbound e peer payload c0" "msg_buf peer i c0 = None" "pending c0 = pending c1"
      using inb(2) [OF fr'(1,2) assms(3) fr'(3), of payload e io_ok now] got l fr by auto
    then obtain c2 where "dispatchInbound e peer payload c0 = Some c2" "fragments c2 = fragments c0" "fmlookup (pending c2) i = Some p'"
      using dispatch [of c0] a(2) by auto
    then show ?thesis using c0 l msg_buf_cong [of c2 c0] by simp
  qed
next
  case (sweep ds c1 now)
  then show ?case using arriving_sweep [of peer i t0 ds c1 now] by (auto simp: sweep_buf)
next
  case (others ds c1 c2)
  then have "arriving peer i t0 ds c2 = arriving peer i t0 ds c1" by (simp add: arriving_def)
  then show ?case using others by auto
qed

text \<open>In whatever order they come, the datagrams of a message can all be handled.\<close>

lemma message_run:
  fixes c :: "'w WUSPController"
  assumes "mset ds \<subseteq># mset frames" and "length frames < 2 ^ 32"
    and frames: "\<And>bs. bs \<in> set frames \<Longrightarrow> DecodeUSPControlFragment bs = Inr (Some (piece bs)) \<and>
        MessageID (piece bs) = i \<and> Count (piece bs) = of_nat (length frames)"
    and whole: "\<And>ds. mset ds = mset frames \<Longrightarrow> ReassembleUSPControlFragments (map piece ds) = Inr payload"
    and dispatch: "\<And>c1 :: 'w WUSPController. fmlookup (pending c1) i = Some p \<Longrightarrow>
        \<exists>c2. dispatchInbound e peer payload c1 = Some c2 \<and> fragments c2 = fragments c1 \<and> fmlookup (pending c2) i = Some p'"
    and "msg_buf peer i c = None" and "fmlookup (pending c) i = Some p" and "frames \<noteq> []"
  shows "\<exists>r. inbound_run e peer i t0 c ds r"
  using assms(1)
proof (induction ds rule: rev_induct)
  case Nil
  show ?case using inbound_run.start by blast
next
  case (snoc bs ds)
  then have s: "mset ds \<subseteq># mset frames" using mset_subset_eq_insertD [of bs "mset ds" "mset frames"] by (auto simp: subset_mset.less_imp_le)
  then obtain r where r: "inbound_run e peer i t0 c ds r" using snoc.IH by blast
  obtain c1 where "r = Some c1" using message_arrives [OF r s assms(2) frames whole dispatch assms(6-8)] by blast
  then show ?case using inbound_run.datagram [of e peer i t0 c ds c1 t0 bs True] r by auto
qed

text \<open>The datagrams of a response.\<close>

lemma response_frames:
  assumes "NewDevice objs params = Inr (runtimeDevice e)" and "schema_ok objs params" and "sendable_response resp"
    and "validateUSPAgentResponse (compactResponseSelectors (runtimeDevice e) resp) = Inr ()"
    and "EncodeUSPAgentResponse sc (runtimeDevice e) resp = Inr bs" and "length bs < 2 ^ 32" and "rID resp \<noteq> 0"
    and "FragmentUSPControlPayload bs (rID resp) maxp = Inr frames"
  shows "\<exists>resp'. same_response (globalRegistry (env_schema e)) resp resp' \<and> frames \<noteq> [] \<and> length frames < 2 ^ 32 \<and>
    (\<forall>x\<in>set frames. DecodeUSPControlFragment x = Inr (Some (piece x)) \<and> MessageID (piece x) = rID resp \<and> Count (piece x) = of_nat (length frames)) \<and>
    (\<forall>ds. mset ds = mset frames \<longrightarrow> ReassembleUSPControlFragments (map piece ds) = Inr bs) \<and>
    (\<forall>peer p (c1 :: 'w WUSPController). ch p = None \<and> fmlookup (pending c1) (rID resp) = Some p \<longrightarrow>
      (\<exists>c2. dispatchInbound e peer bs c1 = Some c2 \<and> fragments c2 = fragments c1 \<and> fmlookup (pending c2) (rID resp) = Some (p\<lparr> ch := Some resp' \<rparr>)))"
proof -
  obtain resp' where r: "same_response (globalRegistry (env_schema e)) resp resp'"
    "\<forall>n. DecodeUSPAgentResponse (env_schema e) (runtimeDevice e) (bs @ replicate n 0) = Inr resp'"
    using response_wire [OF assms(1-4), of sc "env_schema e"] assms(5) by auto
  have d: "DecodeUSPAgentResponse (env_schema e) (runtimeDevice e) bs = Inr resp'" using r(2) [THEN spec, of 0] by simp
  then have "bs \<noteq> []" using decode_empty(1) by metis
  then obtain frames' pieces where w0: "FragmentUSPControlPayload bs (rID resp) maxp = Inr frames'"
    "\<forall>frame\<in>set frames'. length frame \<le> datagram_limit maxp" "map DecodeUSPControlFragment frames' = map (\<lambda>f. Inr (Some f)) pieces"
    and w: "\<forall>arrived. mset arrived = mset pieces \<longrightarrow> ReassembleUSPControlFragments arrived = Inr bs"
    "pieces \<noteq> []" "length pieces < 2 ^ 32" "\<forall>f\<in>set pieces. MessageID f = rID resp \<and> Count f = of_nat (length pieces)"
    by (rule fragments_wire [OF _ assms(6,7)])
  have w1: "map DecodeUSPControlFragment frames = map (\<lambda>f. Inr (Some f)) pieces" using w0 assms(8) by simp
  then have l: "length frames = length pieces" by (metis length_map)
  have i: "rID resp' = rID resp" using r(1) by (simp add: same_response_def)
  have "\<exists>c2. dispatchInbound e peer bs c1 = Some c2 \<and> fragments c2 = fragments c1 \<and> fmlookup (pending c2) (rID resp) = Some (p\<lparr> ch := Some resp' \<rparr>)"
    if "ch p = None" "fmlookup (pending c1) (rID resp) = Some p" for peer p and c1 :: "'w WUSPController"
    using that d deliver_pending [of c1 resp' p peer] i by (simp add: dispatchInbound_def)
  moreover have "frames \<noteq> []" "length frames < 2 ^ 32" using w(2,3) l by auto
  moreover have "\<forall>x\<in>set frames. DecodeUSPControlFragment x = Inr (Some (piece x)) \<and> MessageID (piece x) = rID resp \<and> Count (piece x) = of_nat (length frames)"
    using reordered(2) [OF w1 refl] w(4) l by auto
  moreover have "\<forall>ds. mset ds = mset frames \<longrightarrow> ReassembleUSPControlFragments (map piece ds) = Inr bs" using reordered(1) [OF w1] w(1) by blast
  ultimately show ?thesis using r(1) by blast
qed

text \<open>
  C9. A response that an agent encodes and cuts into datagrams reaches the request that waits for its identifier, in whatever order the datagrams
  arrive, each once: identifier, method, error, transfer result and metadata are those sent, paths are restored up to case and space, and nothing of the message
  is left behind. That is so while the request still waits, with sweeps for stale fragments and any steps of others in between, as long as the sweeps come within the 30
  seconds a buffer lives after the first datagram of the message and the others neither evict or fill its buffer (each peer has 64) nor touch the entry of the
  request (by a timeout, or a response with the same identifier). The peer the datagrams come from need not be the one the request was sent to.
\<close>

theorem response_delivered:
  assumes "NewDevice objs params = Inr (runtimeDevice e)" and "schema_ok objs params" and "sendable_response resp"
    and "validateUSPAgentResponse (compactResponseSelectors (runtimeDevice e) resp) = Inr ()"
    and "EncodeUSPAgentResponse sc (runtimeDevice e) resp = Inr bs" and "length bs < 2 ^ 32" and "rID resp \<noteq> 0"
    and "FragmentUSPControlPayload bs (rID resp) maxp = Inr frames" and "mset arrived = mset frames"
    and "fmlookup (pending c) (rID resp) = Some p" and "ch p = None" and "msg_buf peer (rID resp) c = None"
    and "inbound_run e peer (rID resp) t0 c arrived r"
  shows "\<exists>c' resp'. r = Some c' \<and> same_response (globalRegistry (env_schema e)) resp resp' \<and>
    fmlookup (pending c') (rID resp) = Some (p\<lparr> ch := Some resp' \<rparr>) \<and> msg_buf peer (rID resp) c' = None"
proof -
  obtain resp' where same: "same_response (globalRegistry (env_schema e)) resp resp'" and f: "frames \<noteq> []" "length frames < 2 ^ 32"
    "\<forall>x\<in>set frames. DecodeUSPControlFragment x = Inr (Some (piece x)) \<and> MessageID (piece x) = rID resp \<and> Count (piece x) = of_nat (length frames)"
    "\<forall>ds. mset ds = mset frames \<longrightarrow> ReassembleUSPControlFragments (map piece ds) = Inr bs"
    "\<forall>peer p (c1 :: 'a WUSPController). ch p = None \<and> fmlookup (pending c1) (rID resp) = Some p \<longrightarrow>
      (\<exists>c2. dispatchInbound e peer bs c1 = Some c2 \<and> fragments c2 = fragments c1 \<and> fmlookup (pending c2) (rID resp) = Some (p\<lparr> ch := Some resp' \<rparr>))"
    using response_frames [OF assms(1-8)] by (elim exE conjE) (rule that)
  have "\<exists>c'. r = Some c' \<and> (if length arrived < length frames then arriving peer (rID resp) t0 arrived c' \<and> fmlookup (pending c') (rID resp) = Some p
      else msg_buf peer (rID resp) c' = None \<and> fmlookup (pending c') (rID resp) = Some (p\<lparr> ch := Some resp' \<rparr>))"
    by (rule message_arrives [OF assms(13), where frames = frames and payload = bs]) (use assms(9-12) f in \<open>blast | simp\<close>)+
  then show ?thesis using same mset_eq_length [OF assms(9)] by auto
qed

section \<open>Subscriptions\<close>

lemma send_not_encodable:
  assumes "\<And>q. qMethod q = qMethod req \<Longrightarrow> qObjectPath q = qObjectPath req \<Longrightarrow> qObjectCode q = qObjectCode req \<Longrightarrow>
      \<exists>err. EncodeUSPAgentRequest (env_re e) (env_schema e) (runtimeDevice e) q = Inl err"
  shows "\<exists>c' err. send e now peer req c = (c', Inl err) \<and> cworld c' = cworld c \<and> stats c' outboundRequests = stats c outboundRequests"
proof (cases "opts_Send c")
  case (Some s)
  obtain c1 b1 where b1: "peerControlPayloadBudget peer c = (c1, b1)" by force
  obtain err where "EncodeUSPAgentRequest (env_re e) (env_schema e) (runtimeDevice e)
      (req\<lparr> qMetadata := WithResponseMaxControlPayload (qMetadata req) b1 \<rparr>) = Inl err"
    using assms [of "req\<lparr> qMetadata := WithResponseMaxControlPayload (qMetadata req) b1 \<rparr>"] by auto
  then show ?thesis using Some budget_keeps [OF b1] by (simp add: send_def b1 stats_bump)
qed (simp add: send_def)

text \<open>
  C36. The controller cannot subscribe to events of a device: every call of \<open>Subscribe\<close> and \<open>Unsubscribe\<close> fails, and nothing is sent,
  because the request has no object path and its encoder demands one.
\<close>

theorem subscribe_never_sent:
  "(\<exists>c' err. Subscribe e now peer subid ts pathFilter eventFilter c = (c', Inl err) \<and> cworld c' = cworld c) \<and>
   (\<exists>c' err. Unsubscribe e now peer subid c = (c', Inl err) \<and> cworld c' = cworld c)"
proof -
  have "\<exists>c' err. send e now peer (EncodeSubscribeRequest i subid ts pathFilter eventFilter) c0 = (c', Inl err) \<and> cworld c' = cworld c0 \<and>
      stats c' outboundRequests = stats c0 outboundRequests" for i and c0 :: "'a WUSPController"
    by (rule send_not_encodable, rule notify_not_encodable)
      (simp_all add: EncodeSubscribeRequest_def notify_request_def Let_def TrimSpace_def TrimLeft_def TrimRight_def)
  moreover have "\<exists>c' err. send e now peer (EncodeUnsubscribeRequest i subid) c0 = (c', Inl err) \<and> cworld c' = cworld c0 \<and>
      stats c' outboundRequests = stats c0 outboundRequests" for i and c0 :: "'a WUSPController"
    by (rule send_not_encodable, rule notify_not_encodable)
      (simp_all add: EncodeUnsubscribeRequest_def notify_request_def Let_def TrimSpace_def TrimLeft_def TrimRight_def)
  ultimately have S: "\<exists>c' err. send e now peer (EncodeSubscribeRequest i subid ts pathFilter eventFilter) c0 = (c', Inl err) \<and> cworld c' = cworld c0"
    "\<exists>c' err. send e now peer (EncodeUnsubscribeRequest i subid) c0 = (c', Inl err) \<and> cworld c' = cworld c0" for i and c0 :: "'a WUSPController" by blast+
  let ?c = "c\<lparr> reqCounter := reqCounter c + 1 \<rparr>"
  show ?thesis using S(1) [of "reqCounter c + 1" ?c] S(2) [of "reqCounter c + 1" ?c]
    by (simp add: Subscribe_def Unsubscribe_def nextID_def Let_def)
qed


section \<open>Requests\<close>

text \<open>A send function that never fails and records what it is given.\<close>

definition recorder :: "(string \<times> byte list) list sender" where
  "recorder w peer bs = (w @ [(peer, bs)], None)"

lemma send_frags_recorded: "send_frags now recorder peer fs c = (c\<lparr> cworld := cworld c @ map (Pair peer) fs \<rparr>, Inr ())"
  by (induction fs arbitrary: c) (simp_all add: recorder_def)

lemma budget_again:
  assumes "peerControlPayloadBudget peer c = (c1, b)"
  shows "peerControlPayloadBudget peer c1 = (c1, b)"
proof -
  let ?s = "peer_of peer c"
  have cap: "minControlPayloadBudget \<le> peerPayloadCap ?s" by (simp add: peerPayloadCap_def Let_def)
  have c1: "c1 = put_peer peer (?s\<lparr> ControlPayloadBudget := b \<rparr>) c"
    using assms unfolding peerControlPayloadBudget_def Let_def by (elim Pair_inject) (hypsubst, rule refl)
  have b: "b \<noteq> 0" "\<not> peerPayloadCap ?s < b" "\<not> b < minControlPayloadBudget"
    using assms cap by (auto simp: peerControlPayloadBudget_def Let_def minControlPayloadBudget_def split: if_splits)
  have s1: "peer_of peer c1 = ?s\<lparr> ControlPayloadBudget := b \<rparr>" unfolding c1 by (simp add: peer_of_def)
  have "peerPayloadCap (?s\<lparr> ControlPayloadBudget := b \<rparr>) = peerPayloadCap ?s" by (simp add: peerPayloadCap_def)
  moreover have "put_peer peer (?s\<lparr> ControlPayloadBudget := b \<rparr>) c1 = c1"
    unfolding c1 by (rule WUSPController.equality) (simp_all add: put_peer_def)
  ultimately show ?thesis using b by (simp add: peerControlPayloadBudget_def Let_def s1)
qed

lemma budget_sessions: "sessions c' = sessions c \<Longrightarrow> snd (peerControlPayloadBudget peer c') = snd (peerControlPayloadBudget peer c)"
  by (simp add: peerControlPayloadBudget_def Let_def peer_of_def)

lemma send_recorded:
  assumes "opts_Send c = Some recorder" and "peerReachable now peer c" and "b = snd (peerControlPayloadBudget peer c)"
    and "EncodeUSPAgentRequest (env_re e) (env_schema e) (runtimeDevice e) (req\<lparr> qMetadata := WithResponseMaxControlPayload (qMetadata req) b \<rparr>) = Inr bs"
    and "FragmentUSPControlPayload bs (qID req) b = Inr frames"
  shows "\<exists>c'. send e now peer req c = (c', Inr ()) \<and> cworld c' = cworld c @ map (Pair peer) frames"
proof -
  obtain c1 where b1: "peerControlPayloadBudget peer c = (c1, b)" using assms(3) by (metis prod.collapse)
  show ?thesis using assms(1,2,4,5) budget_keeps [OF b1]
    by (simp add: send_def b1 budget_again [OF b1] send_frags_recorded)
qed

text \<open>What a request does after its last attempt sends nothing.\<close>

lemma after_keeps_world:
  "cworld (recordControlSuccess peer p c) = cworld c" "cworld (fst (reducePeerControlPayload peer c)) = cworld c"
  "cworld (recordRoundTripLatency d c) = cworld c" "cworld (markPeerFailure now peer c) = cworld c"
  unfolding recordControlSuccess_def reducePeerControlPayload_def Let_def fst_conv if_distrib [of cworld] bump_keeps put_peer_keeps markPeerFailure_def
  by (simp_all add: recordRoundTripLatency_def)

lemma last_attempt_world:
  "roundTripOnce e (ws 0) peer req c = (c1, r1) \<Longrightarrow> cworld (fst (attempt_loop e started peer req False (Suc 0) ws c)) = cworld c1"
  by (simp add: after_keeps_world Let_def split: sum.split)

lemma once_world:
  assumes "send e (w_now w) peer req (c\<lparr> pending := fmupd (qID req) \<lparr> ch = None, pmethod = qMethod req, pstartedAt = w_now w \<rparr> (pending c) \<rparr>) = (c2, Inr ())"
    and "\<And>x. cworld (during w x) = cworld x"
  shows "cworld (fst (roundTripOnce e w peer req c)) = cworld c2"
  using assms by (simp add: roundTripOnce_def Let_def)

text \<open>The request with the identifier the controller gives it, which is what the callers rely on: they all leave it 0.\<close>

definition identified :: "'w WUSPController \<Rightarrow> USPAgentRequest \<Rightarrow> USPAgentRequest" where
  "identified c req = (if qID req = 0 then req\<lparr> qID := reqCounter c + 1 \<rparr> else req)"

lemma runRequest_identified:
  "\<exists>c0. runRequest e started ws peer req c = roundTrip e started ws peer (identified c req) c0 \<and> sessions c0 = sessions c \<and> opts_Send c0 = opts_Send c \<and> cworld c0 = cworld c"
  by (auto simp: runRequest_def identified_def nextID_def)

lemma identified_method [simp]: "qMethod (identified c req) = qMethod req"
  by (simp add: identified_def)

text \<open>
  C10. A request that changes the device (every method that is not repeated), with the identifier the caller gave or the one the controller assigns when the
  caller gives none, is sent exactly once: the datagrams it sends have at most 1200 bytes, and the agent that puts them together in any order decodes that request, with the
  limit for the response in its metadata. This is for a peer that counts as reachable and a transport whose send does not fail, when other goroutines send nothing
  while the controller waits; otherwise it is whatever happens during the wait.
\<close>

theorem request_sent_once:
  assumes "ctl_reach e c" and "opts_Send c = Some recorder" and "peerReachable (w_now (ws 0)) peer c"
    and "controlRetryAttempts (qMethod req) = 1" and "qID (identified c req) \<noteq> 0"
    and "NewDevice objs params = Inr (runtimeDevice e)" and "schema_ok objs params"
    and "q = (identified c req)\<lparr> qMetadata := WithResponseMaxControlPayload (qMetadata req) (snd (peerControlPayloadBudget peer c)) \<rparr>"
    and "sendable_request q" and "validateUSPAgentRequest (env_re e) (env_schema e) (compactRequestSelectors (runtimeDevice e) q) = Inr ()"
    and "EncodeUSPAgentRequest (env_re e) (env_schema e) (runtimeDevice e) q = Inr bs" and "length bs < 2 ^ 32"
    and "safeParamIndex sc' = safeParamIndex (env_schema e)" and "\<forall>k x. cworld (during (ws k) x) = cworld x"
  shows "\<exists>frames pieces q'. cworld (fst (runRequest e started ws peer req c)) = cworld c @ map (Pair peer) frames \<and>
    (\<forall>frame\<in>set frames. length frame \<le> 1200) \<and> map DecodeUSPControlFragment frames = map (\<lambda>f. Inr (Some f)) pieces \<and>
    (\<forall>arrived. mset arrived = mset pieces \<longrightarrow> ReassembleUSPControlFragments arrived = Inr bs) \<and>
    DecodeUSPAgentRequest (env_re e) sc' (runtimeDevice e) bs = Inr q' \<and> same_request q q'"
proof -
  define b where "b = snd (peerControlPayloadBudget peer c)"
  let ?req = "identified c req"
  obtain q' where q': "same_request q q'" "\<forall>n. DecodeUSPAgentRequest (env_re e) sc' (runtimeDevice e) (bs @ replicate n 0) = Inr q'"
    using request_wire [OF assms(6,7,13,9,10)] assms(11) by auto
  then have d: "DecodeUSPAgentRequest (env_re e) sc' (runtimeDevice e) bs = Inr q'" by (metis append_Nil2 replicate_0)
  then have "bs \<noteq> []" using decode_empty(2) by metis
  then obtain frames pieces where w: "FragmentUSPControlPayload bs (qID ?req) b = Inr frames"
    "\<forall>frame\<in>set frames. length frame \<le> datagram_limit b" "map DecodeUSPControlFragment frames = map (\<lambda>f. Inr (Some f)) pieces"
    "\<forall>arrived. mset arrived = mset pieces \<longrightarrow> ReassembleUSPControlFragments arrived = Inr bs"
    "pieces \<noteq> []" "length pieces < 2 ^ 32" "\<forall>f\<in>set pieces. MessageID f = qID ?req \<and> Count f = of_nat (length pieces)"
    by (rule fragments_wire [OF _ assms(12,5)])
  have "peers_ok c" using reach_tables [OF assms(1)] by (simp add: tables_ok_def)
  then have "512 \<le> b" "b \<le> 1200" using budget_bounds(2,3) [of c peer] unfolding b_def
    by (metis prod.collapse minControlPayloadBudget_def, metis prod.collapse WUSPMaxDatagramPayload_def)
  then have lim: "datagram_limit b \<le> 1200" by (simp add: datagram_limit_def)
  obtain ca where ca: "runRequest e started ws peer req c = roundTrip e started ws peer ?req ca" "sessions ca = sessions c" "opts_Send ca = opts_Send c" "cworld ca = cworld c"
    using runRequest_identified by blast
  let ?c0 = "bump roundTrips 1 ca"
  let ?c1 = "?c0\<lparr> pending := fmupd (qID ?req) \<lparr> ch = None, pmethod = qMethod ?req, pstartedAt = w_now (ws 0) \<rparr> (pending ?c0) \<rparr>"
  have s: "sessions ?c1 = sessions c" "cworld ?c1 = cworld c" "opts_Send ?c1 = Some recorder" using ca assms(2) by simp_all
  have q: "q = ?req\<lparr> qMetadata := WithResponseMaxControlPayload (qMetadata ?req) b \<rparr>" using assms(8) by (simp add: b_def identified_def)
  have "\<exists>c'. send e (w_now (ws 0)) peer ?req ?c1 = (c', Inr ()) \<and> cworld c' = cworld ?c1 @ map (Pair peer) frames"
  proof (rule send_recorded [OF s(3)])
    show "b = snd (peerControlPayloadBudget peer ?c1)" unfolding b_def using budget_sessions [OF s(1)] by simp
    show "peerReachable (w_now (ws 0)) peer ?c1" using assms(3) s(1) by (simp add: peerReachable_def)
  qed (use assms(11) w(1) q in simp_all)
  then obtain c2 where c2: "send e (w_now (ws 0)) peer ?req ?c1 = (c2, Inr ())" "cworld c2 = cworld c @ map (Pair peer) frames" using s(2) by auto
  obtain c3 r3 where o3: "roundTripOnce e (ws 0) peer ?req ?c0 = (c3, r3)" by force
  have "cworld c3 = cworld c2" using once_world [OF c2(1)] assms(14) o3 by simp
  then have "cworld (fst (runRequest e started ws peer req c)) = cworld c @ map (Pair peer) frames"
    using last_attempt_world [of e ws, OF o3, of started] assms(4) c2(2) by (simp add: ca(1) roundTrip_def)
  then show ?thesis using w(2-4) lim d q'(1) by (intro exI [of _ frames] exI [of _ pieces] exI [of _ q']) (auto intro: order_trans)
qed


section \<open>Parameters\<close>

lemma sanitize_loop_kept:
  "sanitize_loop d fs kept dropped =
     (let ok = (\<lambda>f. TrimSpace (Path f) \<noteq> '''' \<and> \<not> (case GetParam d (TrimSpace (Path f)) of None \<Rightarrow> False | Some p \<Rightarrow> pAccess p = ReadOnly))
      in (kept @ filter ok fs, dropped + length (filter (\<lambda>f. \<not> ok f) fs)))"
  by (induction fs arbitrary: kept dropped) (auto simp: Let_def)

text \<open>
  The filter on the fields of a set keeps, in their order, exactly the fields with a path that the device model does not call read-only, says how many
  it dropped, and fails when none is left; without a device model it keeps everything.
\<close>

theorem sanitize_exact:
  assumes "Fields m \<noteq> []" and "sanitizeSetMessage c (Some m) = (Some m', dropped, r)"
  shows "(model c = None \<longrightarrow> m' = m \<and> dropped = 0 \<and> r = Inr ()) \<and>
    (model c \<noteq> None \<longrightarrow> Fields m' = filter (\<lambda>f. TrimSpace (Path f) \<noteq> '''' \<and> IsWritable (TrimSpace (Path f)) c) (Fields m) \<and>
       length (Fields m') + dropped = length (Fields m) \<and> (r = Inr () \<longleftrightarrow> Fields m' \<noteq> []))"
proof (cases "model c")
  case None
  then show ?thesis using assms by (simp add: sanitizeSetMessage_def)
next
  case (Some d)
  let ?ok = "\<lambda>f. TrimSpace (Path f) \<noteq> '''' \<and> \<not> (case GetParam d (TrimSpace (Path f)) of None \<Rightarrow> False | Some p \<Rightarrow> pAccess p = ReadOnly)"
  have e: "?ok = (\<lambda>f. TrimSpace (Path f) \<noteq> '''' \<and> IsWritable (TrimSpace (Path f)) c)"
    using Some by (auto simp: IsWritable_def split: option.splits)
  have "Fields m' = filter ?ok (Fields m)" "dropped = length (filter (\<lambda>f. \<not> ?ok f) (Fields m))" "r = Inr () \<longleftrightarrow> Fields m' \<noteq> []"
    using assms Some by (auto simp: sanitizeSetMessage_def sanitize_loop_kept Let_def split: if_splits)
  then have "Fields m' = filter ?ok (Fields m) \<and> length (Fields m') + dropped = length (Fields m) \<and> (r = Inr () \<longleftrightarrow> Fields m' \<noteq> [])"
    using sum_length_filter_compl [of ?ok "Fields m"] by simp
  then show ?thesis unfolding e using Some by (metis option.distinct(1))
qed

section \<open>Frames that break the controller\<close>

text \<open>
  C38. A datagram of 37 to 44 bytes that begins like a frame of a transfer stream makes the handler of inbound datagrams panic, whoever sends it and whether
  or not there is a transfer.
\<close>

theorem short_stream_frame_panics:
  assumes "37 \<le> length bs" and "length bs < 45" and "bs ! 0 = 0x53" and "bs ! 1 = uspTransferStreamVersion"
  shows "HandleInbound e io_ok now peer bs c = None"
proof -
  have n: "bs \<noteq> []" using assms(1) by auto
  then have "hd bs = 0x53" using assms(3) by (simp add: hd_conv_nth)
  moreover have "DecodeUSPTransferStreamFrame bs = Inl TPanic"
    by (rule stream_short_frame_panics) (use assms in \<open>simp_all add: uspTransferStreamMagic_def\<close>)
  ultimately show ?thesis using n by (simp add: HandleInbound_def Let_def)
qed

text \<open>
  A fragment that arrives twice destroys its message: with two fragments, the second copy of the first completes the count, the reassembly fails and the
  buffer is dropped, so that the other fragment starts a new message that is never complete and no request gets its response.
\<close>

theorem duplicate_fragment_fatal:
  assumes "DecodeUSPControlFragment bs1 = Inr (Some f1)" and "DecodeUSPControlFragment bs2 = Inr (Some f2)"
    and "MessageID f2 = MessageID f1" and "Count f1 = 2" and "Count f2 = 2" and "got peer (MessageID f1) c = []"
  shows "\<exists>c1 c2 c3. HandleInbound e True t1 peer bs1 c = Some c1 \<and> HandleInbound e True t2 peer bs1 c1 = Some c2 \<and>
    HandleInbound e True t3 peer bs2 c2 = Some c3 \<and> got peer (MessageID f1) c3 = [f2] \<and> pending c3 = pending c"
proof -
  have one: "\<exists>c'. HandleInbound e True t peer bs x = Some c' \<and> got peer (MessageID f) c' = [f] \<and> pending c' = pending x"
    if d: "DecodeUSPControlFragment bs = Inr (Some f)" and n: "Count f = 2" and g: "got peer (MessageID f) x = []" for bs f t and x :: "'a WUSPController"
  proof -
    have "Count f = of_nat 2" using n by simp
    from inbound_piece(1) [OF d this, of peer x e True t] g obtain c' where "HandleInbound e True t peer bs x = Some c'"
      "msg_buf peer (MessageID f) c' = Some (extended t peer f x)" "pending c' = pending x" by auto
    then show ?thesis using extended_frags [of t peer f x] g by (auto simp: got_def [of _ _ c'])
  qed
  obtain c1 where c1: "HandleInbound e True t1 peer bs1 c = Some c1" "got peer (MessageID f1) c1 = [f1]" "pending c1 = pending c"
    using one [OF assms(1,4,6)] by blast
  obtain c0 where c0: "fragments c0 = fragments c1" "pending c0 = pending c1" "HandleInbound e True t2 peer bs1 c1 = (let (c1, r) = handleFragment t2 peer f1 c0 in
      case r of Inl _ \<Rightarrow> Some (bump fragmentReassemblyErrors 1 c1) | Inr None \<Rightarrow> Some c1 | Inr (Some payload) \<Rightarrow> dispatchInbound e peer payload c1)"
    by (rule inbound_fragment [OF assms(1)])
  have g0: "frags (extended t2 peer f1 c0) = [f1, f1]" using got_cong [OF c0(1), of peer "MessageID f1"] c1(2) by (simp add: extended_frags)
  have "ReassembleUSPControlFragments [f1, f1] \<noteq> Inr p" for p
  proof
    assume r: "ReassembleUSPControlFragments [f1, f1] = Inr p"
    then obtain o' where "assemble_loop f1 (replicate (unat (Count f1)) None) [f1, f1] = Inr o'"
      unfolding ReassembleUSPControlFragments_def list.case by (cases "assemble_loop f1 (replicate (unat (Count f1)) None) [f1, f1]") (auto split: if_splits)
    from assemble_loop_Inr [OF this] show False by simp
  qed
  then obtain err where err: "ReassembleUSPControlFragments [f1, f1] = Inl err" by (metis sum.exhaust)
  obtain c2 where c2: "HandleInbound e True t2 peer bs1 c1 = Some c2" "got peer (MessageID f1) c2 = []" "pending c2 = pending c"
    using handleFragment_buf(2) [of t2 peer f1 c0] g0 err assms(4) c0 c1(3) by (auto simp: got_def msg_buf_def peer_bufs_def)
  show ?thesis using one [of bs2 f2 c2 t3] assms(2,3,5) c1(1) c2 by auto
qed


section \<open>Peers that do not answer\<close>

text \<open>
  After a failure of a peer, a request to it within 30 seconds fails at once and nothing is sent, unless a datagram of
  the peer has arrived meanwhile: then requests are sent again for three minutes, and after those no longer, until the next datagram.
\<close>

theorem peer_backoff:
  assumes "t \<noteq> 0" and "opts_Send c = Some s"
  shows "(now - t < 30 * second \<longrightarrow>
      (\<exists>c'. send e now peer req (markPeerFailure t peer c) = (c', Inl ErrPeerNotReachable) \<and> cworld c' = cworld c)) \<and>
    (peerReachable now peer (markPeerInbound t peer c) \<longleftrightarrow> now - t < 3 * minute)"
  using assms by (simp add: send_def peerReachable_def markPeerFailure_def markPeerInbound_def IsZero_def peerFailureBackoff_def peerOnlineWindow_def)

section \<open>Witnesses\<close>

definition response_plain :: USPAgentResponse where
  "response_plain = response_demo\<lparr> rPaths := [] \<rparr>"

definition upload_plain :: USPAgentRequest where
  "upload_plain = (request USPAgentMethodUpload)\<lparr> qTransfer := Some \<lparr> tPath = ''dev.'', tURI = '''', tFilename = '''', tContentType = '''', tPayload = [1, 2], tMetadata = fmempty \<rparr> \<rparr>"

lemma env_demo_device: "NewDevice [] device_demo = Inr (runtimeDevice env_demo)" "schema_ok [] device_demo"
proof -
  obtain d where d: "NewDevice [] device_demo = Inr d" "schema_ok [] device_demo" by (rule device_demo_selector)
  then show "NewDevice [] device_demo = Inr (runtimeDevice env_demo)" "schema_ok [] device_demo" by (simp_all add: env_demo_def)
qed

lemma short_uvarint: "v < 0x80 \<Longrightarrow> writeUvarint v = [ucast v]"
  by (simp add: writeUvarint.simps)

lemma plain_sendable: "sendable_response response_plain" "compactResponseSelectors d response_plain = response_plain"
  using demo_sendable(2)
  by (simp_all add: sendable_response_def response_plain_def response_demo_def compactResponseSelectors_def compact_paths_def compact_object_def fits_in_def
      TrimSpace_def TrimLeft_def TrimRight_def)

lemma plain_encoded: "\<exists>bs. EncodeUSPAgentResponse sc d response_plain = Inr bs \<and> length bs < 2 ^ 32"
proof -
  have "EncodeUSPAgentResponse sc d response_plain = Inr (response_bytes response_plain [])"
    by (simp add: EncodeUSPAgentResponse_def plain_sendable(2), simp add: response_plain_def response_demo_def validateUSPAgentResponse_def
        check_selectors_def method_defs TrimSpace_def TrimLeft_def TrimRight_def)
  moreover have "length (response_bytes response_plain []) < 2 ^ 32"
    by (simp add: response_bytes_def response_plain_def response_demo_def Let_def response_flags_def has_flag_def flag_def writeHeader_def put64_def
        writeString_def short_uvarint TrimSpace_def TrimLeft_def TrimRight_def)
  ultimately show ?thesis by blast
qed

theorem response_delivered_witness:
  "\<exists>c c' resp'. fmlookup (pending c) 7 = Some \<lparr> ch = None, pmethod = USPAgentMethodGet, pstartedAt = 1 \<rparr> \<and>
     fmlookup (pending c') 7 = Some \<lparr> ch = Some resp', pmethod = USPAgentMethodGet, pstartedAt = 1 \<rparr> \<and> rError resp' = ''busy'' \<and>
     (\<exists>arrived. inbound_run env_demo ''peer'' 7 5 (c :: unit WUSPController) arrived (Some c'))"
proof -
  let ?p = "\<lparr> ch = None, pmethod = USPAgentMethodGet, pstartedAt = 1 \<rparr>"
  let ?c = "(New None False False None ())\<lparr> pending := fmupd 7 ?p fmempty \<rparr>"
  obtain bs where bs: "EncodeUSPAgentResponse (NewSchema device_demo) (runtimeDevice env_demo) response_plain = Inr bs" "length bs < 2 ^ 32"
    using plain_encoded by blast
  have i: "rID response_plain = 7" "rError response_plain = ''busy''" "rMethod response_plain = USPAgentMethodGet" by (simp_all add: response_plain_def response_demo_def)
  have v: "validateUSPAgentResponse (compactResponseSelectors (runtimeDevice env_demo) response_plain) = Inr ()"
    unfolding plain_sendable(2) by (simp add: response_plain_def response_demo_def validateUSPAgentResponse_def check_selectors_def method_defs
        TrimSpace_def TrimLeft_def TrimRight_def)
  have nz: "bs \<noteq> []"
    using bs(1) by (auto simp: EncodeUSPAgentResponse_def Let_def response_bytes_def writeHeader_def elim!: res_bind.elims)
  have i0: "rID response_plain \<noteq> 0" by (simp add: i)
  obtain frames where f: "FragmentUSPControlPayload bs (rID response_plain) 1200 = Inr frames"
    by (rule fragments_wire [OF nz bs(2) i0, of 1200]) (rule that)
  have c: "msg_buf ''peer'' (rID response_plain) ?c = None" "fmlookup (pending ?c) (rID response_plain) = Some ?p" by (simp_all add: msg_buf_def peer_bufs_def New_def i)
  obtain resp0 where f': "frames \<noteq> []" "length frames < 2 ^ 32"
    "\<forall>x\<in>set frames. DecodeUSPControlFragment x = Inr (Some (piece x)) \<and> MessageID (piece x) = rID response_plain \<and> Count (piece x) = of_nat (length frames)"
    "\<forall>ds. mset ds = mset frames \<longrightarrow> ReassembleUSPControlFragments (map piece ds) = Inr bs"
    "\<forall>peer p (c1 :: unit WUSPController). ch p = None \<and> fmlookup (pending c1) (rID response_plain) = Some p \<longrightarrow>
      (\<exists>c2. dispatchInbound env_demo peer bs c1 = Some c2 \<and> fragments c2 = fragments c1 \<and> fmlookup (pending c2) (rID response_plain) = Some (p\<lparr> ch := Some resp0 \<rparr>))"
    using response_frames [OF env_demo_device plain_sendable(1) v bs i0 f] by (elim exE conjE) (rule that)
  have "\<exists>r. inbound_run env_demo ''peer'' (rID response_plain) 5 ?c frames r"
  proof (rule message_run [OF subset_mset.order_refl f'(2) _ _ _ c f'(1)])
    show "DecodeUSPControlFragment x = Inr (Some (piece x)) \<and> MessageID (piece x) = rID response_plain \<and> Count (piece x) = of_nat (length frames)"
      if "x \<in> set frames" for x using f'(3) that by blast
    show "ReassembleUSPControlFragments (map piece ds) = Inr bs" if "mset ds = mset frames" for ds using f'(4) that by blast
    show "\<exists>c2. dispatchInbound env_demo ''peer'' bs c1 = Some c2 \<and> fragments c2 = fragments c1 \<and>
        fmlookup (pending c2) (rID response_plain) = Some (?p\<lparr> ch := Some resp0 \<rparr>)"
      if "fmlookup (pending c1) (rID response_plain) = Some ?p" for c1 :: "unit WUSPController"
      using f'(5) [rule_format, of ?p c1 "''peer''"] that by simp
  qed
  then obtain r where r: "inbound_run env_demo ''peer'' (rID response_plain) 5 ?c frames r" by blast
  have "\<exists>c' resp'. r = Some c' \<and> same_response (globalRegistry (env_schema env_demo)) response_plain resp' \<and>
      fmlookup (pending c') (rID response_plain) = Some (?p\<lparr> ch := Some resp' \<rparr>) \<and> msg_buf ''peer'' (rID response_plain) c' = None"
    by (rule response_delivered [OF env_demo_device plain_sendable(1) v bs i0 f refl c(2) _ c(1) r]) simp
  then obtain c' resp' where "r = Some c'" "rError resp' = ''busy''" "fmlookup (pending c') 7 = Some (?p\<lparr> ch := Some resp' \<rparr>)"
    using i by (auto simp: same_response_def)
  then show ?thesis using r i(1) by (intro exI [of _ ?c] exI [of _ c'] exI [of _ resp'] conjI exI [of _ frames]) simp_all
qed

theorem short_stream_frame_panics_witness:
  "HandleInbound env_demo True 5 ''peer'' (0x53 # uspTransferStreamVersion # replicate 40 0) (New None False False None ()) = None"
  by (rule short_stream_frame_panics) simp_all

definition other_half :: "byte list" where
  "other_half = [0x54, 1, 0, 9, 0, 0, 0, 0, 0, 0, 0, 1, 0, 0, 0, 2, 0, 0, 0, 0, 0, 0, 0, 8]"

lemma other_half_decoded:
  "DecodeUSPControlFragment other_half = Inr (Some \<lparr> MessageID = 9, Index = 1, Count = 2, RawSize = 0, Compressed = False, Data = [8] \<rparr>)"
  by code_simp

theorem duplicate_fragment_fatal_witness:
  "\<exists>c1 c2 c3. HandleInbound env_demo True 1 ''peer'' half_message (New None False False None ()) = Some c1 \<and>
     HandleInbound env_demo True 2 ''peer'' half_message c1 = Some c2 \<and> HandleInbound env_demo True 3 ''peer'' other_half c2 = Some c3 \<and>
     length (got ''peer'' 9 c3) = 1"
proof -
  have "got ''peer'' 9 (New None False False None ()) = []" by (simp add: got_def msg_buf_def peer_bufs_def New_def)
  then show ?thesis
    using duplicate_fragment_fatal [OF half_message_decoded other_half_decoded, of "''peer''" "New None False False None ()" env_demo 1 2 3] by force
qed

theorem peer_backoff_witness:
  "\<not> peerReachable (200 * second) ''peer'' (markPeerInbound 5 ''peer'' (New (Some recorder) False False None [])) \<and>
   (\<exists>c'. send env_demo (20 * second) ''peer'' upload_plain (markPeerFailure 5 ''peer'' (New (Some recorder) False False None [])) = (c', Inl ErrPeerNotReachable))"
  using peer_backoff [of 5 "New (Some recorder) False False None []" recorder "200 * second" env_demo "''peer''" upload_plain]
    peer_backoff [of 5 "New (Some recorder) False False None []" recorder "20 * second" env_demo "''peer''" upload_plain]
  by (simp add: New_def second_def minute_def) blast

theorem sanitize_exact_witness:
  "\<exists>m' dropped r. sanitizeSetMessage (New None False False (Some (runtimeDevice env_demo)) ()) (Some (fields_message [\<lparr> field_id = 0, Path = '' '', Val = BoolV True \<rparr>])) =
     (Some m', dropped, r) \<and> Fields m' = [] \<and> dropped = 1 \<and> r \<noteq> Inr ()"
proof -
  let ?c = "New None False False (Some (runtimeDevice env_demo)) ()" and ?m = "fields_message [\<lparr> field_id = 0, Path = '' '', Val = BoolV True \<rparr>]"
  have t: "Fields ?m \<noteq> []" "model ?c \<noteq> None" "TrimSpace '' '' = ''''"
    by (simp_all add: fields_message_def New_def TrimSpace_def TrimLeft_def TrimRight_def is_space_def code_def)
  obtain m' dropped r where s: "sanitizeSetMessage ?c (Some ?m) = (Some m', dropped, r)"
    by (simp add: sanitizeSetMessage_def fields_message_def New_def t)
  then show ?thesis using t sanitize_exact [OF _ s] s by (auto simp: fields_message_def)
qed


definition quiet_wait :: "'w wait" where
  "quiet_wait = \<lparr> w_now = 5, w_end = 6, during = (\<lambda>x. x), ctx_done = Some DeadlineExceeded, take_response = False, parent_done = False \<rparr>"

definition upload_sent :: USPAgentRequest where
  "upload_sent = upload_plain\<lparr> qID := 1, qMetadata := WithResponseMaxControlPayload fmempty 1200 \<rparr>"

lemma upload_sent_ok:
  "sendable_request upload_sent" "compactRequestSelectors d upload_sent = upload_sent" "validateUSPAgentRequest re sc upload_sent = Inr ()"
proof -
  have n: "utoa 1200 = ''1200''" by code_simp
  have md: "qMetadata upload_sent = fmupd MetadataKeyResponseMaxControlPayload ''1200'' fmempty"
    by (simp add: upload_sent_def WithResponseMaxControlPayload_def Clone_same Let_def itoa_def n)
  have "ok_metadata (qMetadata upload_sent)"
    by (simp add: md ok_metadata_def sorted_keys_def sorted_list_of_fset.rep_eq short_def MetadataKeyResponseMaxControlPayload_def)
  moreover have "ok_transfer \<lparr> tPath = ''dev.'', tURI = '''', tFilename = '''', tContentType = '''', tPayload = [1, 2], tMetadata = fmempty \<rparr>"
    by (simp add: ok_transfer_def short_def ok_metadata_def sorted_keys_def sorted_list_of_fset.rep_eq)
  moreover have "concrete_path ''''" "short_path ''''"
    using demo_sendable(1) by (simp_all add: sendable_request_def request_demo_def)
  ultimately show "sendable_request upload_sent"
    by (simp add: sendable_request_def upload_sent_def upload_plain_def request_def fits_in_def TrimSpace_def TrimLeft_def TrimRight_def)
  show "compactRequestSelectors d upload_sent = upload_sent"
    by (simp add: upload_sent_def upload_plain_def request_def compactRequestSelectors_def compact_paths_def compact_object_def TrimSpace_def TrimLeft_def TrimRight_def)
  show "validateUSPAgentRequest re sc upload_sent = Inr ()"
    by (simp add: upload_sent_def upload_plain_def request_def validateUSPAgentRequest_def check_selectors_def check_method_def method_defs
        validateTransferRequest_def isObjectPath_def HasSuffix_def is_space_def code_def
        TrimSpace_def TrimLeft_def TrimRight_def)
qed

lemma upload_sent_encoded: "\<exists>bs. EncodeUSPAgentRequest re sc d upload_sent = Inr bs \<and> length bs < 2 ^ 32"
proof -
  have "EncodeUSPAgentRequest re sc d upload_sent = Inr (request_bytes upload_sent [])"
    by (simp add: EncodeUSPAgentRequest_def upload_sent_ok(2,3)) (simp add: upload_sent_def upload_plain_def request_def)
  moreover have "length (request_bytes upload_sent []) < 2 ^ 32"
  proof -
    have c: "CloneMetadata (fmempty :: metadata) = fmempty" by (rule Clone_same)
    have n: "utoa 1200 = ''1200''" by code_simp
    show ?thesis
    by (simp add: request_bytes_def upload_sent_def upload_plain_def request_def Let_def request_flags_def has_flag_def flag_def writeHeader_def put64_def
        writeString_def writeBytes_def writeStringList_def writeTransferRequest_def writeMetadata_def write_counted_def write_entry_def short_uvarint
        sorted_keys_def sorted_list_of_fset.rep_eq WithResponseMaxControlPayload_def c n itoa_def MetadataKeyResponseMaxControlPayload_def
        TrimSpace_def TrimLeft_def TrimRight_def)
  qed
  ultimately show ?thesis by blast
qed

theorem request_sent_once_witness:
  "\<exists>frames. cworld (fst (runRequest env_demo 5 (\<lambda>_. quiet_wait) ''peer'' upload_plain (New (Some recorder) False False None []))) = map (Pair ''peer'') frames \<and>
     (\<forall>frame\<in>set frames. length frame \<le> 1200)"
proof -
  let ?c = "New (Some recorder) False False None []"
  obtain bs where bs: "EncodeUSPAgentRequest (env_re env_demo) (env_schema env_demo) (runtimeDevice env_demo) upload_sent = Inr bs" "length bs < 2 ^ 32"
    using upload_sent_encoded by blast
  have b: "snd (peerControlPayloadBudget ''peer'' ?c) = 1200"
    by (simp add: peerControlPayloadBudget_def Let_def peer_of_def New_def no_session_def peerPayloadCap_def WUSPMaxDatagramPayload_def minControlPayloadBudget_def)
  have q: "upload_sent = (identified ?c upload_plain)\<lparr> qMetadata := WithResponseMaxControlPayload (qMetadata upload_plain) (snd (peerControlPayloadBudget ''peer'' ?c)) \<rparr>"
    unfolding b by (simp add: upload_sent_def upload_plain_def request_def identified_def New_def)
  have "\<exists>frames pieces q'. cworld (fst (runRequest env_demo 5 (\<lambda>_. quiet_wait) ''peer'' upload_plain ?c)) = cworld ?c @ map (Pair ''peer'') frames \<and>
    (\<forall>frame\<in>set frames. length frame \<le> 1200) \<and> map DecodeUSPControlFragment frames = map (\<lambda>f. Inr (Some f)) pieces \<and>
    (\<forall>arrived. mset arrived = mset pieces \<longrightarrow> ReassembleUSPControlFragments arrived = Inr bs) \<and>
    DecodeUSPAgentRequest (env_re env_demo) (env_schema env_demo) (runtimeDevice env_demo) bs = Inr q' \<and> same_request upload_sent q'"
  proof (rule request_sent_once [OF ctl_reach.new _ _ _ _ env_demo_device q upload_sent_ok(1) _ bs refl])
    show "controlRetryAttempts (qMethod upload_plain) = 1" "qID (identified ?c upload_plain) \<noteq> 0"
      by (simp_all add: upload_plain_def request_def controlRetryAttempts_def method_defs identified_def New_def)
  qed (simp_all add: New_def peerReachable_def upload_sent_ok quiet_wait_def)
  then show ?thesis by (auto simp: New_def)
qed

end
