(* ===== verification/Transfer_Protocol.thy ===== *)
theory Transfer_Protocol
  imports Controller_Runs
begin

text \<open>
  The transfer protocol as a whole: the sender of an upload and the receiver of a download, joined by a network that may lose, repeat, delay and reorder frames and
  acknowledgements. The steps are those of the code: the sender fills its window, takes an acknowledgement or sends its completion; the
  receiver handles a frame. Every datagram has a handler of its own, so a chunk is tested in one step and written in a later one, and other frames are handled in between;
  the runs are those in which no chunk is handled by two handlers at a time. \<open>repeated_chunk_written_twice\<close> shows why that is needed. Chunks that are sent again are frames
  the network has already.
\<close>

section \<open>The two sides and the network\<close>

record 'w transfer =
  ctl :: "'w WUSPController"
  tx :: uspTransferSession
  win :: window
  left :: "byte list"
  rx :: uspTransferSession
  net :: "USPTransferStreamFrame set"
  acks :: "32 word set"
  busy :: "USPTransferStreamFrame set"

definition window_frames :: "window \<Rightarrow> USPTransferStreamFrame set" where
  "window_frames p = {pframe b | k b. fmlookup p k = Some b}"

inductive transfer_reach :: "byte list \<Rightarrow> 'w transfer \<Rightarrow> bool" for source where
  start: "transfer_reach source
     \<lparr> ctl = c, tx = new_session i q USPAgentMethodUpload peer now n '''' False, win = fmempty, left = source,
       rx = new_session i q' USPAgentMethodDownload peer' now' n' target True,
       net = {open_frame (new_session i q USPAgentMethodUpload peer now n '''' False) t}, acks = {}, busy = {} \<rparr>"
| others: "transfer_reach source x \<Longrightarrow> transfer_reach source (x\<lparr> ctl := c \<rparr>)"
| fill: "transfer_reach source x \<Longrightarrow> fill_window (tx x) (win x) (left x) (ctl x) = (c, s, p, rd, Inr ()) \<Longrightarrow>
     transfer_reach source (x\<lparr> ctl := c, tx := s, win := p, left := rd, net := net x \<union> window_frames p \<rparr>)"
| ack: "transfer_reach source x \<Longrightarrow> n \<in> acks x \<Longrightarrow> releaseAckedPendingChunks (win x) n = (p, released) \<Longrightarrow>
     transfer_reach source (x\<lparr> tx := (tx x)\<lparr> transferred := transferred (tx x) + released \<rparr>, win := p \<rparr>)"
| complete: "transfer_reach source x \<Longrightarrow> fill_window (tx x) (win x) (left x) (ctl x) = (c, s, fmempty, rd, Inr ()) \<Longrightarrow>
     transfer_reach source (x\<lparr> ctl := c, tx := s, win := fmempty, left := rd, net := insert (complete_frame s) (net x) \<rparr>)"
| receive: "transfer_reach source x \<Longrightarrow> f \<in> net x \<Longrightarrow> sPhase f \<noteq> USPTransferStreamChunk \<Longrightarrow> download_frame io_ok f (rx x) = (r, reply, err) \<Longrightarrow>
     transfer_reach source (x\<lparr> rx := r \<rparr>)"
| stale: "transfer_reach source x \<Longrightarrow> transfer_reach source (x\<lparr> acks := insert (sAckSequence (stale_ack (rx x))) (acks x) \<rparr>)"
| expected: "transfer_reach source x \<Longrightarrow> f \<in> net x \<Longrightarrow> sPhase f = USPTransferStreamChunk \<Longrightarrow> chunk_expected f (rx x) \<Longrightarrow>
     sSequence f \<notin> sSequence ` busy x \<Longrightarrow> transfer_reach source (x\<lparr> busy := insert f (busy x) \<rparr>)"
| written: "transfer_reach source x \<Longrightarrow> f \<in> busy x \<Longrightarrow> chunk_locked io_ok f (rx x) = (r, reply, err) \<Longrightarrow>
     transfer_reach source (x\<lparr> rx := r, acks := acks x \<union> (case reply of None \<Rightarrow> {} | Some a \<Rightarrow> {sAckSequence a}), busy := busy x - {f} \<rparr>)"

text \<open>
  A chunk that is not expected is answered with the number of the last one, read after the test: that answer may come at any moment (\<open>stale\<close>).
\<close>

section \<open>Chunks\<close>

definition chunk :: "byte list \<Rightarrow> nat \<Rightarrow> byte list" where
  "chunk source i = take chunk_size (drop (i * chunk_size) source)"

definition chunk_of :: "byte list \<Rightarrow> USPTransferStreamFrame \<Rightarrow> bool" where
  "chunk_of source f \<longleftrightarrow> sPhase f = USPTransferStreamChunk \<and> sSequence f \<noteq> 0 \<and> sData f = chunk source (unat (sSequence f) - 1) \<and> \<not> sFinal f"

lemma take_chunks: "take (Suc i * chunk_size) source = take (i * chunk_size) source @ chunk source i"
proof -
  have "Suc i * chunk_size = i * chunk_size + chunk_size" by simp
  then show ?thesis by (simp only: chunk_def take_add)
qed

text \<open>The sender has sent \<open>n\<close> chunks, and the window holds chunks among them.\<close>

definition sender_ok :: "byte list \<Rightarrow> nat \<Rightarrow> uspTransferSession \<Rightarrow> window \<Rightarrow> byte list \<Rightarrow> bool" where
  "sender_ok source n s p rd \<longleftrightarrow>
     unat (nextSequence s) = Suc n \<and> rd = drop (n * chunk_size) source \<and> (n = 0 \<or> (n - 1) * chunk_size < length source) \<and>
     (\<forall>k b. fmlookup p k = Some b \<longrightarrow> sSequence (pframe b) = k \<and> unat k \<le> n \<and> chunk_of source (pframe b))"

text \<open>The chunks that are no longer in the window after a step of the sender were not there before it.\<close>

lemma fill_window_ok:
  assumes "length source \<le> (2 ^ 32 - 2) * chunk_size" and "sender_ok source n s p rd" and "fill_window s p rd c = (c', s', p', rd', Inr ())"
  shows "\<exists>n'. n \<le> n' \<and> sender_ok source n' s' p' rd' \<and> (\<forall>k. n < unat k \<and> unat k \<le> n' \<longrightarrow> fmlookup p' k \<noteq> None) \<and>
    (\<forall>k. unat k \<le> n \<longrightarrow> fmlookup p' k = fmlookup p k) \<and> (uspTransferWindowSize \<le> length (window_keys p') \<or> rd' = [])"
  using assms(2,3)
proof (induction s p rd c arbitrary: n rule: fill_window.induct)
  case (1 s p rd c)
  show ?case
  proof (cases "uspTransferWindowSize \<le> length (window_keys p) \<or> rd = []")
    case True
    then have "s' = s" "p' = p" "rd' = rd" using 1(3) by (subst (asm) fill_window.simps, simp)+
    then show ?thesis using 1(2) True by (intro exI [of _ n]) auto
  next
    case False
    let ?f = "chunk_frame s p (take chunk_size rd)"
    let ?p = "fmupd (sSequence ?f) \<lparr> pframe = ?f, psize = length (take chunk_size rd) \<rparr> p"
    let ?s = "s\<lparr> nextSequence := nextSequence s + 1 \<rparr>"
    obtain c1 r where sd: "sendTransferStream (speer s) ?f c = (c1, r)" by force
    have r: "r = Inr ()" and w: "fill_window ?s ?p (drop chunk_size rd) c1 = (c', s', p', rd', Inr ())"
      using 1(3) False sd by (subst (asm) fill_window.simps, cases r, auto simp: Let_def)+
    have f: "sSequence ?f = nextSequence s" "sPhase ?f = USPTransferStreamChunk" "sData ?f = take chunk_size rd" "\<not> sFinal ?f"
      by (simp_all add: chunk_frame_def frame_of_def)
    have u: "unat (nextSequence s) = Suc n" and rd: "rd = drop (n * chunk_size) source" using 1(2) by (simp_all add: sender_ok_def)
    have n: "n * chunk_size < length source" using False rd by auto
    then have "n * chunk_size < (2 ^ 32 - 2) * chunk_size" using assms(1) by linarith
    then have n32: "n < 2 ^ 32 - 2" unfolding mult_less_cancel2 by blast
    then have un: "unat (nextSequence s + 1) = Suc (Suc n)" using u by (simp add: unat_word_ariths)
    have ch: "chunk_of source ?f" using u f rd unfolding chunk_of_def chunk_def by (auto simp: word_unat_eq_iff [of _ 0])
    have ok: "sender_ok source (Suc n) ?s ?p (drop chunk_size rd)"
      using 1(2) un n ch u f(1) unfolding sender_ok_def rd by (auto simp: add.commute intro: le_SucI split: if_splits)
    have ih: "\<exists>n'. Suc n \<le> n' \<and> sender_ok source n' s' p' rd' \<and> (\<forall>k. Suc n < unat k \<and> unat k \<le> n' \<longrightarrow> fmlookup p' k \<noteq> None) \<and>
      (\<forall>k. unat k \<le> Suc n \<longrightarrow> fmlookup p' k = fmlookup ?p k) \<and> (uspTransferWindowSize \<le> length (window_keys p') \<or> rd' = [])"
      by (rule 1(1) [OF False refl refl refl refl sd [symmetric] r ok w])
    then obtain n' where n': "Suc n \<le> n'" "sender_ok source n' s' p' rd'" "\<forall>k. Suc n < unat k \<and> unat k \<le> n' \<longrightarrow> fmlookup p' k \<noteq> None"
      "\<forall>k. unat k \<le> Suc n \<longrightarrow> fmlookup p' k = fmlookup ?p k" "uspTransferWindowSize \<le> length (window_keys p') \<or> rd' = []" by blast
    have "fmlookup p' k \<noteq> None" if "n < unat k" "unat k \<le> n'" for k
    proof (cases "Suc n < unat k")
      case False
      then have "unat k = Suc n" using that by simp
      then have "k = nextSequence s" using u by (simp add: word_unat_eq_iff)
      then show ?thesis using n'(4) u f(1) by simp
    qed (use n'(3) that in blast)
    moreover have "fmlookup p' k = fmlookup p k" if "unat k \<le> n" for k
    proof -
      have "k \<noteq> nextSequence s" using that u by auto
      then show ?thesis using n'(4) that f(1) by simp
    qed
    ultimately show ?thesis using n' by (intro exI [of _ n']) auto
  qed
qed


lemma fold_fmdrop: "fmlookup (fold fmdrop ks p) k = (if k \<in> set ks then None else fmlookup p k)"
  by (induction ks arbitrary: p) auto

lemma window_keys_set: "set (window_keys p) = fset (fmdom p)"
  by (simp add: window_keys_def sorted_list_of_fset.rep_eq)

lemma released_lookup: "releaseAckedPendingChunks p n = (p', k) \<Longrightarrow> fmlookup p' i = (if i \<le> n then None else fmlookup p i)"
  by (auto simp: releaseAckedPendingChunks_def Let_def fold_fmdrop window_keys_set fmlookup_dom_iff)

section \<open>The file of the receiver\<close>

definition content :: "uspTransferSession \<Rightarrow> byte list" where
  "content r = sdata r @ (case swriter r of None \<Rightarrow> [] | Some b \<Rightarrow> b)"

lemma bufio_write_content: "bufio_write True file buf p = Some (file', buf') \<Longrightarrow> file' @ buf' = file @ buf @ p"
  by (auto simp: bufio_write_def Let_def split: if_splits)

lemma bufio_flush_content: "bufio_flush open_file file buf = Some file' \<Longrightarrow> file' = file @ buf"
  by (auto simp: bufio_flush_def split: if_splits)

lemma write_chunk_content:
  "write_chunk io_ok f r = Some (file, buf) \<Longrightarrow> \<not> sFinal f \<Longrightarrow> sopen r \<Longrightarrow> file @ buf = content r @ sData f"
  by (auto simp: write_chunk_def content_def split: if_splits option.splits dest!: bufio_write_content)

definition receiver_ok :: "byte list \<Rightarrow> nat \<Rightarrow> uspTransferSession \<Rightarrow> bool" where
  "receiver_ok source m r \<longleftrightarrow> unat (nextSequence r) = Suc m \<and> content r = take (m * chunk_size) source \<and> (sopen r \<or> swriter r = None) \<and>
     (swriter r = None \<longrightarrow> length source \<le> m * chunk_size) \<and> (completeCh r \<noteq> None \<longrightarrow> swriter r = None)"

text \<open>What the network may deliver when \<open>n\<close> chunks were sent and \<open>m\<close> were received.\<close>

definition frame_ok :: "byte list \<Rightarrow> nat \<Rightarrow> nat \<Rightarrow> USPTransferStreamFrame \<Rightarrow> bool" where
  "frame_ok source n m f \<longleftrightarrow>
     sPhase f = USPTransferStreamOpen \<or> chunk_of source f \<and> unat (sSequence f) \<le> n \<or> sPhase f = USPTransferStreamComplete \<and> length source \<le> m * chunk_size"

lemma frame_ok_mono: "frame_ok source n m f \<Longrightarrow> n \<le> n' \<Longrightarrow> m \<le> m' \<Longrightarrow> frame_ok source n' m' f"
proof -
  assume "frame_ok source n m f" "n \<le> n'" "m \<le> m'"
  moreover have "m * chunk_size \<le> m' * chunk_size" using \<open>m \<le> m'\<close> by (rule mult_le_mono1)
  ultimately show ?thesis unfolding frame_ok_def by (meson order_trans)
qed

text \<open>Frames that are not chunks leave the content of the receiver as it is; a chunk that passed the test is the next one and is added.\<close>

lemma receive_frame:
  assumes "receiver_ok source m r" and "frame_ok source n m f" and "sPhase f \<noteq> USPTransferStreamChunk" and "download_frame io_ok f r = (r', reply, err)"
  shows "receiver_ok source m r'" "nextSequence r' = nextSequence r"
proof -
  have nc: "\<not> chunk_of source f" using assms(3) by (simp add: chunk_of_def)
  consider (op) "sPhase f = USPTransferStreamOpen" | (comp) "sPhase f = USPTransferStreamComplete" "length source \<le> m * chunk_size"
    using assms(2) nc unfolding frame_ok_def by blast
  then have "receiver_ok source m r' \<and> nextSequence r' = nextSequence r"
  proof cases
    case op
    then have "r' = r\<lparr> totalSize := sint (sTotalSize f) \<rparr>" using assms(4) by (simp add: download_frame_def)
    then show ?thesis using assms(1) by (simp add: receiver_ok_def content_def)
  next
    case comp
    have all: "take (m * chunk_size) source = source" using comp(2) by simp
    show ?thesis
      using assms(1,4) comp all
      by (auto simp: download_frame_def stream_consts receiver_ok_def content_def signalComplete_def split: option.splits if_splits dest!: bufio_flush_content)
  qed
  then show "receiver_ok source m r'" "nextSequence r' = nextSequence r" by simp_all
qed

lemma stale_sequence: "receiver_ok source m r \<Longrightarrow> unat (sAckSequence (stale_ack r)) = m"
proof -
  assume "receiver_ok source m r"
  then have u: "unat (nextSequence r) = Suc m" by (simp add: receiver_ok_def)
  then have "nextSequence r \<noteq> 0" by auto
  then have "unat (nextSequence r - 1) = unat (nextSequence r) - 1" by (rule unat_minus_one)
  then show ?thesis using u by (simp add: stale_ack_def)
qed

lemma write_frame:
  assumes "receiver_ok source m r" and "chunk_of source f" and "unat (sSequence f) \<le> n" and "sSequence f = nextSequence r" and "n \<le> 2 ^ 32 - 2"
    and "n = 0 \<or> (n - 1) * chunk_size < length source" and "chunk_locked io_ok f r = (r', reply, err)"
  shows "\<exists>m'. m \<le> m' \<and> m' \<le> n \<and> receiver_ok source m' r' \<and> (\<forall>a. reply = Some a \<longrightarrow> unat (sAckSequence a) = m')"
proof -
  have u: "unat (nextSequence r) = Suc m" using assms(1) by (simp add: receiver_ok_def)
  have mn: "Suc m \<le> n" using assms(3,4) u by simp
  then have "m * chunk_size \<le> (n - 1) * chunk_size" by (intro mult_le_mono1) simp
  then have lt: "m * chunk_size < length source" using assms(6) mn by linarith
  then have so: "sopen r" "swriter r \<noteq> None" using assms(1) by (auto simp: receiver_ok_def)
  have cf: "\<not> sFinal f" "sData f = chunk source m" "sPhase f = USPTransferStreamChunk" using assms(2,4) u by (simp_all add: chunk_of_def)
  show ?thesis
  proof (cases "write_chunk io_ok f r")
    case None
    then have "r' = r\<lparr> swriter := Some (case swriter r of None \<Rightarrow> [] | Some b \<Rightarrow> b), sfailed := True \<rparr>" "reply = None"
      using assms(7) by (simp_all add: chunk_locked_def)
    then show ?thesis using assms(1) so mn by (intro exI [of _ m]) (auto simp: receiver_ok_def content_def)
  next
    case (Some fb)
    obtain fl buf where fb: "fb = (fl, buf)" by force
    let ?r = "r\<lparr> sdata := fl, swriter := Some buf, transferred := transferred r + int (length (sData f)), nextSequence := nextSequence r + 1 \<rparr>"
    have r': "r' = ?r" "reply = Some (chunk_ack f ?r)" using assms(7) Some fb by (auto simp: chunk_locked_def Let_def)
    have "unat (nextSequence r + 1) = Suc (Suc m)" using u mn assms(5) by (simp add: unat_word_ariths)
    moreover have "content ?r = take (Suc m * chunk_size) source"
      using write_chunk_content [OF _ cf(1) so(1)] Some fb assms(1) unfolding take_chunks by (simp add: content_def receiver_ok_def cf(2))
    moreover have "completeCh r = None" using assms(1) so(2) by (auto simp: receiver_ok_def)
    ultimately have "receiver_ok source (Suc m) ?r" using so by (simp add: receiver_ok_def)
    moreover have "unat (sAckSequence (chunk_ack f ?r)) = Suc m" using assms(4) u by (simp add: chunk_ack_def)
    ultimately show ?thesis using r' mn by (intro exI [of _ "Suc m"]) simp
  qed
qed

section \<open>The invariant\<close>

text \<open>
  Every chunk that was sent and not received is still in the window, and no acknowledgement is ahead of the receiver. At most one handler is between its test and its
  write, and it has the chunk that the receiver expects.
\<close>

definition busy_ok :: "byte list \<Rightarrow> nat \<Rightarrow> USPTransferStreamFrame set \<Rightarrow> uspTransferSession \<Rightarrow> bool" where
  "busy_ok source n fs r \<longleftrightarrow> (\<forall>f\<in>fs. chunk_of source f \<and> unat (sSequence f) \<le> n \<and> sSequence f = nextSequence r) \<and> (\<forall>f\<in>fs. \<forall>g\<in>fs. f = g)"

lemma busy_ok_mono: "busy_ok source n fs r \<Longrightarrow> n \<le> n' \<Longrightarrow> nextSequence r' = nextSequence r \<Longrightarrow> busy_ok source n' fs r'"
  by (auto simp: busy_ok_def)

definition transfer_rel :: "byte list \<Rightarrow> nat \<Rightarrow> nat \<Rightarrow> 'w transfer \<Rightarrow> bool" where
  "transfer_rel source n m x \<longleftrightarrow> sender_ok source n (tx x) (win x) (left x) \<and> receiver_ok source m (rx x) \<and> m \<le> n \<and>
     (\<forall>k. m < unat k \<and> unat k \<le> n \<longrightarrow> fmlookup (win x) k \<noteq> None) \<and> (\<forall>a\<in>acks x. unat a \<le> m) \<and> (\<forall>f\<in>net x. frame_ok source n m f) \<and>
     busy_ok source n (busy x) (rx x)"

definition transfer_inv :: "byte list \<Rightarrow> 'w transfer \<Rightarrow> bool" where
  "transfer_inv source x \<longleftrightarrow> (\<exists>n m. transfer_rel source n m x)"

lemma transfer_relD:
  assumes "transfer_rel source n m x"
  shows "sender_ok source n (tx x) (win x) (left x)" "receiver_ok source m (rx x)" "m \<le> n"
    "\<forall>k. m < unat k \<and> unat k \<le> n \<longrightarrow> fmlookup (win x) k \<noteq> None" "\<forall>a\<in>acks x. unat a \<le> m" "\<forall>f\<in>net x. frame_ok source n m f"
    "busy_ok source n (busy x) (rx x)"
  using assms by (simp_all add: transfer_rel_def)

lemma sent_bound:
  assumes "sender_ok source n s p rd" and "length source \<le> (2 ^ 32 - 2) * chunk_size"
  shows "n \<le> 2 ^ 32 - 2" "n = 0 \<or> (n - 1) * chunk_size < length source"
proof -
  show n: "n = 0 \<or> (n - 1) * chunk_size < length source" using assms(1) by (simp add: sender_ok_def)
  show "n \<le> 2 ^ 32 - 2"
  proof (cases n)
    case (Suc k)
    then have "k * chunk_size < length source" using n by simp
    then have "k * chunk_size < (2 ^ 32 - 2) * chunk_size" using assms(2) by (rule less_le_trans)
    then have "k < 2 ^ 32 - 2" unfolding mult_less_cancel2 by blast
    then show ?thesis unfolding Suc by simp
  qed simp
qed

text \<open>When the window is empty after it was filled, everything was received.\<close>

lemma all_received:
  assumes "sender_ok source n s fmempty rd" and "uspTransferWindowSize \<le> length (window_keys fmempty) \<or> rd = []"
    and "\<forall>k. m < unat k \<and> unat k \<le> n \<longrightarrow> fmlookup (fmempty :: window) k \<noteq> None" and "m \<le> n" and "n \<le> 2 ^ 32 - 2"
  shows "length source \<le> m * chunk_size"
proof -
  have "rd = []" using assms(2) by (simp add: window_keys_def sorted_list_of_fset.rep_eq uspTransferWindowSize_def)
  then have "length source \<le> n * chunk_size" using assms(1) by (simp add: sender_ok_def)
  moreover have "n \<le> m"
  proof (rule ccontr)
    assume "\<not> n \<le> m"
    moreover have "unat (of_nat n :: 32 word) = n" using assms(5) by (simp add: unat_of_nat)
    ultimately show False using assms(3) [rule_format, of "of_nat n"] by simp
  qed
  ultimately show ?thesis using assms(4) by simp
qed

lemma filled_inv:
  assumes "length source \<le> (2 ^ 32 - 2) * chunk_size" and "transfer_inv source x" and "fill_window (tx x) (win x) (left x) c = (c', s, p, rd, Inr ())"
  obtains n n' m where "n \<le> n'" "m \<le> n" "sender_ok source n' s p rd" "transfer_rel source n m x"
    "\<forall>k. m < unat k \<and> unat k \<le> n' \<longrightarrow> fmlookup p k \<noteq> None" "uspTransferWindowSize \<le> length (window_keys p) \<or> rd = []" "n' \<le> 2 ^ 32 - 2"
proof -
  obtain n m where t: "transfer_rel source n m x" using assms(2) by (auto simp: transfer_inv_def)
  note i = transfer_relD [OF t]
  obtain n' where n': "n \<le> n'" "sender_ok source n' s p rd" "\<forall>k. n < unat k \<and> unat k \<le> n' \<longrightarrow> fmlookup p k \<noteq> None"
    "\<forall>k. unat k \<le> n \<longrightarrow> fmlookup p k = fmlookup (win x) k" "uspTransferWindowSize \<le> length (window_keys p) \<or> rd = []"
    using fill_window_ok [OF assms(1) i(1) assms(3)] by blast
  have "fmlookup p k \<noteq> None" if "m < unat k" "unat k \<le> n'" for k
    using i(4) n'(3,4) that by (cases "unat k \<le> n") auto
  then show ?thesis using that [OF n'(1) i(3) n'(2) t _ n'(5) sent_bound(1) [OF n'(2) assms(1)]] by blast
qed

lemma window_frames_ok: "sender_ok source n s p rd \<Longrightarrow> f \<in> window_frames p \<Longrightarrow> frame_ok source n m f"
  by (auto simp: window_frames_def sender_ok_def frame_ok_def)

lemma transfer_filled:
  assumes "transfer_rel source n m x" and "n \<le> n'" and "sender_ok source n' s p rd" and "\<forall>k. m < unat k \<and> unat k \<le> n' \<longrightarrow> fmlookup p k \<noteq> None"
    and "\<forall>f\<in>F. frame_ok source n' m f"
  shows "transfer_rel source n' m (x\<lparr> ctl := c, tx := s, win := p, left := rd, net := net x \<union> F \<rparr>)"
  unfolding transfer_rel_def
  using transfer_relD [OF assms(1)] assms(2-5) frame_ok_mono [OF _ assms(2) order_refl] busy_ok_mono [OF transfer_relD(7) [OF assms(1)] assms(2) refl] by auto

lemma transfer_received:
  assumes "transfer_rel source n m x" and "m \<le> m'" and "m' \<le> n" and "receiver_ok source m' r" and "\<forall>a\<in>A. unat a \<le> m'" and "busy_ok source n B r"
  shows "transfer_rel source n m' (x\<lparr> rx := r, acks := acks x \<union> A, busy := B \<rparr>)"
  unfolding transfer_rel_def
  using transfer_relD [OF assms(1)] assms(2-6) frame_ok_mono [OF _ order_refl assms(2)] by (auto intro: order_trans)

lemma written_inv:
  assumes "length source \<le> (2 ^ 32 - 2) * chunk_size" and "transfer_rel source n m x" and "f \<in> busy x" and "chunk_locked io_ok f (rx x) = (r, reply, err)"
  shows "\<exists>m'. transfer_rel source n m' (x\<lparr> rx := r, acks := acks x \<union> (case reply of None \<Rightarrow> {} | Some a \<Rightarrow> {sAckSequence a}), busy := busy x - {f} \<rparr>)"
proof -
  note i = transfer_relD [OF assms(2)]
  have f: "chunk_of source f" "unat (sSequence f) \<le> n" "sSequence f = nextSequence (rx x)" "busy x - {f} = {}"
    using i(7) assms(3) by (auto simp: busy_ok_def)
  obtain m' where "m \<le> m'" "m' \<le> n" "receiver_ok source m' r" "\<forall>a. reply = Some a \<longrightarrow> unat (sAckSequence a) = m'"
    using write_frame [OF i(2) f(1-3) sent_bound [OF i(1) assms(1)] assms(4)] by blast
  then show ?thesis unfolding f(4)
    by (intro exI [of _ m'] transfer_received [OF assms(2)]) (auto simp: busy_ok_def split: option.splits)
qed

lemma transfer_invariant:
  assumes "length source \<le> (2 ^ 32 - 2) * chunk_size" and "transfer_reach source x"
  shows "transfer_inv source x"
  using assms(2)
proof (induction rule: transfer_reach.induct)
  case (start c i q peer now n q' peer' now' n' target t)
  then show ?case unfolding transfer_inv_def transfer_rel_def
    by (intro exI [of _ 0])
      (simp add: sender_ok_def receiver_ok_def new_session_def content_def frame_ok_def open_frame_def frame_of_def busy_ok_def neq0_conv [symmetric] del: neq0_conv)
next
  case (others x c)
  then show ?case by (simp add: transfer_inv_def transfer_rel_def)
next
  case (fill x c s p rd)
  obtain n n' m where f: "n \<le> n'" "m \<le> n" "sender_ok source n' s p rd" "transfer_rel source n m x" "\<forall>k. m < unat k \<and> unat k \<le> n' \<longrightarrow> fmlookup p k \<noteq> None"
    "uspTransferWindowSize \<le> length (window_keys p) \<or> rd = []" "n' \<le> 2 ^ 32 - 2"
    by (rule filled_inv [OF assms(1) fill(3,2)])
  then show ?case unfolding transfer_inv_def using transfer_filled [OF f(4,1,3,5)] window_frames_ok [OF f(3)] by blast
next
  case (complete x c s rd)
  obtain n n' m where f: "n \<le> n'" "m \<le> n" "sender_ok source n' s fmempty rd" "transfer_rel source n m x"
    "\<forall>k. m < unat k \<and> unat k \<le> n' \<longrightarrow> fmlookup (fmempty :: window) k \<noteq> None" "uspTransferWindowSize \<le> length (window_keys fmempty) \<or> rd = []" "n' \<le> 2 ^ 32 - 2"
    by (rule filled_inv [OF assms(1) complete(3,2)])
  have "length source \<le> m * chunk_size" using all_received [OF f(3,6,5)] f(1,2,7) by simp
  then have "\<forall>g\<in>{complete_frame s}. frame_ok source n' m g" by (simp add: frame_ok_def complete_frame_def frame_of_def)
  from transfer_filled [OF f(4,1,3,5) this, of c] show ?case unfolding transfer_inv_def by auto
next
  case (ack x a p released)
  then obtain n m where t: "transfer_rel source n m x" by (auto simp: transfer_inv_def)
  note i = transfer_relD [OF t]
  have am: "unat a \<le> m" using i(5) ack(2) by blast
  have "fmlookup p k \<noteq> None" if "m < unat k" "unat k \<le> n" for k
    using that i(4) am released_lookup [OF ack(3), of k] by (auto simp: word_le_nat_alt)
  moreover have "sender_ok source n ((tx x)\<lparr> transferred := transferred (tx x) + released \<rparr>) p (left x)"
    using i(1) released_lookup [OF ack(3)] by (auto simp: sender_ok_def split: if_splits)
  ultimately show ?case unfolding transfer_inv_def transfer_rel_def using i by (intro exI [of _ n] exI [of _ m]) simp
next
  case (receive x f io_ok r reply err)
  then obtain n m where t: "transfer_rel source n m x" by (auto simp: transfer_inv_def)
  note i = transfer_relD [OF t]
  have fo: "frame_ok source n m f" using i(6) receive(2) by blast
  note r = receive_frame [OF i(2) fo receive(3,4)]
  have "busy_ok source n (busy x) r" using busy_ok_mono [OF i(7) order_refl r(2)] .
  from transfer_received [OF t order_refl i(3) r(1) _ this, of "{}"] show ?case unfolding transfer_inv_def by auto
next
  case (stale x)
  then obtain n m where t: "transfer_rel source n m x" by (auto simp: transfer_inv_def)
  note i = transfer_relD [OF t]
  have "\<forall>a\<in>{sAckSequence (stale_ack (rx x))}. unat a \<le> m" using stale_sequence [OF i(2)] by simp
  from transfer_received [OF t order_refl i(3,2) this i(7)] show ?case unfolding transfer_inv_def by auto
next
  case (expected x f)
  then obtain n m where t: "transfer_rel source n m x" by (auto simp: transfer_inv_def)
  note i = transfer_relD [OF t]
  have "frame_ok source n m f" using i(6) expected(2) by blast
  then have f: "chunk_of source f" "unat (sSequence f) \<le> n" "sSequence f = nextSequence (rx x)"
    using expected(3,4) by (auto simp: frame_ok_def stream_consts chunk_expected_def)
  then have "busy x = {}" using i(7) expected(5) by (auto simp: busy_ok_def)
  then have "busy_ok source n (insert f (busy x)) (rx x)" using f by (simp add: busy_ok_def)
  from transfer_received [OF t order_refl i(3,2) _ this, of "{}"] show ?case unfolding transfer_inv_def by auto
next
  case (written x f io_ok r reply err)
  then show ?case unfolding transfer_inv_def using written_inv [OF assms(1)] by blast
qed


text \<open>
  Two handlers of one chunk that both pass the test before either has written: the chunk is in the file twice, and the receiver counts two chunks, so that it
  acknowledges one it never had.
\<close>

theorem repeated_chunk_written_twice:
  assumes "chunk_expected f r" and "sopen r" and "\<not> sFinal f" and "chunk_locked True f r = (r1, reply1, None)" and "chunk_locked True f r1 = (r2, reply2, None)"
  shows "content r2 = content r @ sData f @ sData f \<and> nextSequence r2 = nextSequence r + 2"
proof -
  have one: "content s' = content s @ sData f \<and> nextSequence s' = nextSequence s + 1 \<and> sopen s'" if "chunk_locked True f s = (s', reply, None)" "sopen s" for s s' reply
    using that write_chunk_content [of True f s] assms(3) by (auto simp: chunk_locked_def content_def Let_def split: option.splits)
  show ?thesis using one [OF assms(4,2)] one [OF assms(5)] by simp
qed

section \<open>Uploads that cannot be stopped\<close>

definition sends :: "'w WUSPController \<Rightarrow> bool" where
  "sends c \<longleftrightarrow> (\<exists>s. opts_Send c = Some s \<and> (\<forall>w p b. snd (s w p b) = None))"

definition valid_window :: "window \<Rightarrow> bool" where
  "valid_window p \<longleftrightarrow> (\<forall>k b. fmlookup p k = Some b \<longrightarrow> validateUSPTransferStreamFrame (pframe b) = Inr ())"

lemma sends_frame:
  assumes "sends c" and "validateUSPTransferStreamFrame f = Inr ()"
  shows "\<exists>c'. sendTransferStream peer f c = (c', Inr ()) \<and> sends c'"
proof -
  obtain s where s: "opts_Send c = Some s" "\<And>w p b. snd (s w p b) = None" using assms(1) by (auto simp: sends_def)
  obtain bs where bs: "EncodeUSPTransferStreamFrame f = Inr bs" using assms(2) by (simp add: EncodeUSPTransferStreamFrame_def Let_def)
  obtain w r where w: "s (cworld c) peer bs = (w, r)" by force
  then have "r = None" using s(2) [of "cworld c" peer bs] by simp
  then show ?thesis using s w bs by (auto simp: sendTransferStream_def Let_def sends_def)
qed

lemma fill_window_sends:
  assumes "sends c" and "valid_window p" and "smethod s = USPAgentMethodUpload"
  shows "\<exists>c' s' p' rd'. fill_window s p rd c = (c', s', p', rd', Inr ()) \<and> sends c' \<and> valid_window p' \<and> smethod s' = USPAgentMethodUpload \<and>
    speer s' = speer s \<and> (uspTransferWindowSize \<le> length (window_keys p') \<or> rd' = []) \<and> (p \<noteq> fmempty \<or> rd \<noteq> [] \<longrightarrow> p' \<noteq> fmempty)"
  using assms
proof (induction s p rd c rule: fill_window.induct)
  case (1 s p rd c)
  show ?case
  proof (cases "uspTransferWindowSize \<le> length (window_keys p) \<or> rd = []")
    case True
    then have "fill_window s p rd c = (c, s, p, rd, Inr ())" by (subst fill_window.simps) simp
    moreover have "p = fmempty \<Longrightarrow> rd = []" using True by (auto simp: window_keys_def sorted_list_of_fset.rep_eq uspTransferWindowSize_def)
    ultimately show ?thesis using 1(2-4) True by auto
  next
    case False
    let ?f = "chunk_frame s p (take chunk_size rd)"
    let ?p = "fmupd (sSequence ?f) \<lparr> pframe = ?f, psize = length (take chunk_size rd) \<rparr> p"
    let ?s = "s\<lparr> nextSequence := nextSequence s + 1 \<rparr>"
    have v: "validateUSPTransferStreamFrame ?f = Inr ()"
      using False 1(4) by (simp add: validateUSPTransferStreamFrame_def chunk_frame_def frame_of_def stream_consts chunk_size_def)
    obtain c1 where c1: "sendTransferStream (speer s) ?f c = (c1, Inr ())" "sends c1" using sends_frame [OF 1(2) v] by blast
    have vp: "valid_window ?p" using 1(3) v by (simp add: valid_window_def)
    have w: "fill_window s p rd c = fill_window ?s ?p (drop chunk_size rd) c1" using False c1(1) by (subst fill_window.simps) (simp add: Let_def)
    have ne: "?p \<noteq> fmempty" by (metis fmempty_lookup fmupd_lookup option.distinct(1))
    have "smethod ?s = USPAgentMethodUpload" using 1(4) by simp
    from 1(1) [OF False refl refl refl refl c1(1) [symmetric] refl c1(2) vp this] show ?thesis unfolding w using ne by auto
  qed
qed

lemma resend_sends:
  assumes "sends c" and "\<forall>k\<in>set ks. validateUSPTransferStreamFrame (pframe (the (fmlookup p k))) = Inr ()"
  shows "\<exists>c' n. resend_loop peer p ks m c = (c', n, True) \<and> sends c'"
  using assms
proof (induction ks arbitrary: m c)
  case (Cons k ks)
  obtain c1 where "sendTransferStream peer (pframe (the (fmlookup p k))) c = (c1, Inr ())" "sends c1" using sends_frame [OF Cons.prems(1)] Cons.prems(2) by (meson list.set_intros(1))
  then show ?case using Cons.IH [of c1 "Suc m"] Cons.prems(2) by simp
qed simp

lemma full_window: "uspTransferWindowSize \<le> length (window_keys p) \<or> rd = [] \<Longrightarrow> fill_window s p rd c = (c, s, p, rd, Inr ())"
  by (subst fill_window.simps) simp

lemma waits_forever:
  assumes "sends c" and "valid_window p" and "p \<noteq> fmempty" and "uspTransferWindowSize \<le> length (window_keys p) \<or> rd = []" and "\<forall>n. Acked n \<notin> set evs"
  shows "\<exists>c'. upload_loop evs s p rd c = (c', s, None)"
  using assms(1,5)
proof (induction evs arbitrary: c)
  case Nil
  then show ?case using assms(3) by (simp add: upload_loop.simps [of "[]"] full_window [OF assms(4)])
next
  case (Cons e evs)
  let ?c = "bump transferAckTimeouts 1 c"
  have "sends ?c" using Cons.prems(1) by (simp add: sends_def)
  moreover have "\<forall>k\<in>set (window_keys p). validateUSPTransferStreamFrame (pframe (the (fmlookup p k))) = Inr ()"
    using assms(2) by (auto simp: valid_window_def window_keys_set fmlookup_dom_iff)
  ultimately obtain c1 n where c1: "resendPendingChunks s p ?c = (c1, n, True)" "sends c1" using resend_sends unfolding resendPendingChunks_def by blast
  define c2 where "c2 = (if 0 < n then bump transferChunkResends (of_nat n) c1 else c1)"
  have s2: "sends c2" using c1(2) by (simp add: c2_def sends_def)
  have "upload_loop (e # evs) s p rd c = upload_loop evs s p rd c2"
    using assms(3) Cons.prems(2) c1(1) by (cases e) (auto simp: upload_loop.simps [of "_ # _"] full_window [OF assms(4)] c2_def)
  then show ?case using Cons.IH [OF s2] Cons.prems(2) by auto
qed

text \<open>
  C37. An upload with unacknowledged chunks ignores the cancellation of its context and the abort of the peer: whatever number of timeouts,
  cancellations and aborts it is told of, it sends its chunks again and goes on waiting, as long as the send function succeeds.
\<close>

theorem upload_ignores_abort:
  assumes "sends c" and "smethod s = USPAgentMethodUpload" and "source \<noteq> []" and "\<forall>n. Acked n \<notin> set evs"
  shows "\<exists>c' s'. upload_loop evs s fmempty source c = (c', s', None)"
proof -
  have "valid_window fmempty" by (simp add: valid_window_def)
  then obtain c1 s1 p1 rd1 where f: "fill_window s fmempty source c = (c1, s1, p1, rd1, Inr ())" "sends c1" "valid_window p1"
    "uspTransferWindowSize \<le> length (window_keys p1) \<or> rd1 = []" "p1 \<noteq> fmempty"
    using fill_window_sends [OF assms(1) _ assms(2), of fmempty source] assms(3) by blast
  have "upload_loop evs s fmempty source c = upload_loop evs s1 p1 rd1 c1"
    unfolding upload_loop.simps [of evs] f(1) full_window [OF f(4)] by simp
  then show ?thesis using waits_forever [OF f(2,3,5,4) assms(4), of s1] by auto
qed


section \<open>Witnesses\<close>

definition sink :: "unit sender" where
  "sink w peer bs = (w, None)"

definition upload_demo :: uspTransferSession where
  "upload_demo = new_session 5 6 USPAgentMethodUpload ''peer'' 1 3 '''' False"

definition start_demo :: "unit transfer" where
  "start_demo = \<lparr> ctl = New (Some sink) False False None (), tx = upload_demo, win = fmempty, left = [1, 2, 3],
     rx = new_session 5 6 USPAgentMethodDownload ''agent'' 1 0 ''file'' True,
     net = {open_frame upload_demo \<lparr> tPath = ''dev.'', tURI = '''', tFilename = '''', tContentType = '''', tPayload = [], tMetadata = fmempty \<rparr>}, acks = {}, busy = {} \<rparr>"

lemma sends_sink: "sends (New (Some sink) False False None ())"
  by (simp add: sends_def New_def sink_def)

lemma start_demo_reach: "transfer_reach [1, 2, 3] start_demo"
  unfolding start_demo_def upload_demo_def by (rule transfer_reach.start)


theorem upload_ignores_abort_witness:
  "\<exists>c' s'. upload_loop [Failed (CAborted ''upload stream aborted by peer''), Expired Canceled, Expired Canceled] upload_demo fmempty [1, 2, 3]
     (New (Some sink) False False None ()) = (c', s', None)"
  by (rule upload_ignores_abort [OF sends_sink]) (simp_all add: upload_demo_def new_session_def)

end
