(* ===== verification/Tenant_Dns.thy ===== *)
theory Tenant_Dns
  imports GoNet "HOL-Library.Finite_Map" "HOL-Library.FSet"
begin

text \<open>
  The name server of a tenant's network, \<open>src/internal/server/tenant_dns.go\<close>: the snapshot of names it builds from the peers of an account, the answers,
  the names it passes on to an upstream resolver, and the handling of a query. Sockets and their loops are left out. The wire format of DNS messages is that of
  \<open>golang.org/x/net/dns/dnsmessage\<close>: its parser, its builder and its check of a name are the fields of a record; the upstream resolver is another.
  \<open>netip\<close> addresses are modelled here.
\<close>

section \<open>Addresses\<close>

datatype Addr = NoAddr | Addr4 "byte list" | Addr6 "byte list" string

definition Is4 :: "Addr \<Rightarrow> bool" where "Is4 a \<longleftrightarrow> (case a of Addr4 _ \<Rightarrow> True | _ \<Rightarrow> False)"
definition Is6 :: "Addr \<Rightarrow> bool" where "Is6 a \<longleftrightarrow> (case a of Addr6 _ _ \<Rightarrow> True | _ \<Rightarrow> False)"
definition IsValid :: "Addr \<Rightarrow> bool" where "IsValid a \<longleftrightarrow> a \<noteq> NoAddr"

definition Addr_String :: "Addr \<Rightarrow> string" where
  "Addr_String a =
     (case a of
        NoAddr \<Rightarrow> ''invalid IP''
      | Addr4 b \<Rightarrow> v4_String b
      | Addr6 b z \<Rightarrow>
          (if take 12 b = v4InV6Prefix then ''::ffff:'' @ v4_String (drop 12 b) else v6_String b) @ (if z = '''' then '''' else ''%'' @ z))"

definition parse_v6_zone :: "string \<Rightarrow> Addr option" where
  "parse_v6_zone s =
     (if CHR ''%'' \<in> set s then
        (let a = takeWhile (\<lambda>c. c \<noteq> CHR ''%'') s; z = drop (Suc (length a)) s in
         if z = '''' then None else map_option (\<lambda>b. Addr6 b z) (parseIPv6 a))
      else map_option (\<lambda>b. Addr6 b '''') (parseIPv6 s))"

definition ParseAddr :: "string \<Rightarrow> Addr option" where
  "ParseAddr s =
     (case find (\<lambda>c. c = CHR ''.'' \<or> c = CHR '':'' \<or> c = CHR ''%'') s of
        None \<Rightarrow> None
      | Some c \<Rightarrow> if c = CHR ''.'' then map_option Addr4 (parseIPv4Fields s) else if c = CHR '':'' then parse_v6_zone s else None)"

text \<open>The address of a prefix in CIDR notation.\<close>

definition prefix_Addr :: "string \<Rightarrow> Addr option" where
  "prefix_Addr s =
     (case after_last s (CHR ''/'') of
        None \<Rightarrow> None
      | Some bits \<Rightarrow>
          (case ParseAddr (take (length s - length bits - 1) s) of
             None \<Rightarrow> None
           | Some a \<Rightarrow>
               if (case a of Addr6 _ z \<Rightarrow> z \<noteq> '''' | _ \<Rightarrow> False) then None
               else if 1 < length bits \<and> (code (hd bits) < 49 \<or> 57 < code (hd bits)) then None
               else case Atoi bits of
                      None \<Rightarrow> None
                    | Some n \<Rightarrow> if n < 0 \<or> (if Is6 a then 128 else 32) < n then None else Some a))"

definition parseAssignedIP :: "string \<Rightarrow> Addr option" where
  "parseAssignedIP value =
     (let v = TrimSpace value in if v = '''' then None else if Contains v ''/'' then prefix_Addr v else ParseAddr v)"

section \<open>Names\<close>

definition tenantDNSDomainBase :: string where "tenantDNSDomainBase = ''wantastic.internal''"

definition normalizeDNSName :: "string \<Rightarrow> string" where
  "normalizeDNSName name = TrimSuffix (ToLower (TrimSpace name)) ''.''"

definition ensureTrailingDot :: "string \<Rightarrow> string" where
  "ensureTrailingDot name = (if name = '''' then ''.'' else if HasSuffix name ''.'' then name else name @ ''.'')"

definition label_char :: "char \<Rightarrow> bool" where
  "label_char c \<longleftrightarrow> 97 \<le> code c \<and> code c \<le> 122 \<or> is_digit c"

fun label_loop :: "string \<Rightarrow> bool \<Rightarrow> string \<Rightarrow> string" where
  "label_loop b lastDash [] = b"
| "label_loop b lastDash (c # s) =
     (if label_char c then label_loop (b @ [c]) False s
      else if c \<in> {CHR ''-'', CHR ''_'', CHR '' '', CHR ''.''} \<and> \<not> lastDash \<and> b \<noteq> '''' then label_loop (b @ ''-'') True s
      else label_loop b lastDash s)"

definition sanitizeDNSLabel :: "string \<Rightarrow> string" where
  "sanitizeDNSLabel value =
     (let v = ToLower (TrimSpace value) in
      if v = '''' then ''''
      else let label = Trim (label_loop '''' False v) ''-'' in if 63 < length label then Trim (take 63 label) ''-'' else label)"

definition tenantDNSDomain :: "string \<Rightarrow> string" where
  "tenantDNSDomain acc = (let l = sanitizeDNSLabel acc in (if l = '''' then ''tenant'' else l) @ ''.'' @ tenantDNSDomainBase)"

definition dashed :: "char \<Rightarrow> char" where
  "dashed c = (if c = CHR ''.'' \<or> c = CHR '':'' then CHR ''-'' else c)"

definition syntheticPeerHost :: "Addr \<Rightarrow> string" where
  "syntheticPeerHost a = (if \<not> IsValid a then ''peer'' else ''peer-'' @ map dashed (Addr_String a))"

definition reversePTRName :: "Addr \<Rightarrow> string" where
  "reversePTRName a = (case a of Addr4 b \<Rightarrow> Join (map (\<lambda>x. utoa (unat x)) (rev b)) ''.'' @ ''.in-addr.arpa'' | _ \<Rightarrow> '''')"

definition octet :: "string \<Rightarrow> byte option" where
  "octet p = (case Atoi p of None \<Rightarrow> None | Some n \<Rightarrow> if n < 0 \<or> 255 < n then None else Some (word_of_int n))"

definition ptrNameToAddr :: "string \<Rightarrow> Addr option" where
  "ptrNameToAddr name =
     (if \<not> HasSuffix name ''.in-addr.arpa'' then None
      else let parts = Split (TrimSuffix name ''.in-addr.arpa'') (CHR ''.'') in
        if length parts \<noteq> 4 then None
        else if \<exists>p\<in>set parts. octet p = None then None
        else Some (Addr4 (map (\<lambda>p. the (octet p)) (rev parts))))"

section \<open>The snapshot\<close>

record tenantDNSSnapshot =
  domain :: string
  forward :: "(string, Addr list) fmap"
  reverse :: "(string, string) fmap"
  known :: "string fset"

record tenantDNSPeerRecord =
  PeerID :: string
  peerName :: string
  AssignedIP :: string

definition hosts :: "tenantDNSSnapshot \<Rightarrow> string \<Rightarrow> Addr list" where
  "hosts s n = (case fmlookup (forward s) n of None \<Rightarrow> [] | Some l \<Rightarrow> l)"

definition addHost :: "string \<Rightarrow> Addr \<Rightarrow> tenantDNSSnapshot \<Rightarrow> tenantDNSSnapshot" where
  "addHost name a s =
     (let n = normalizeDNSName name in
      if n = '''' \<or> \<not> IsValid a then s
      else if a \<in> set (hosts s n) then s\<lparr> known := finsert n (known s) \<rparr>
      else s\<lparr> forward := fmupd n (hosts s n @ [a]) (forward s), known := finsert n (known s) \<rparr>)"

definition server_names :: "string \<Rightarrow> string list" where
  "server_names d = [''router'', ''gateway'', ''gw'', d, ''router.'' @ d, ''gateway.'' @ d, ''gw.'' @ d]"

definition peer_labels :: "tenantDNSPeerRecord \<Rightarrow> Addr \<Rightarrow> string list" where
  "peer_labels p a = (let l = sanitizeDNSLabel (peerName p) in (if l \<noteq> '''' then [l] else []) @ [syntheticPeerHost a])"

definition add_peer :: "tenantDNSPeerRecord \<Rightarrow> tenantDNSSnapshot \<Rightarrow> tenantDNSSnapshot" where
  "add_peer p s =
     (case parseAssignedIP (AssignedIP p) of
        None \<Rightarrow> s
      | Some a \<Rightarrow>
          (let labels = peer_labels p a; d = domain s;
               s1 = fold (\<lambda>l s. addHost (l @ ''.'' @ d) a (addHost l a s)) labels s
           in if Is4 a then s1\<lparr> reverse := fmupd (reversePTRName a) (hd labels @ ''.'' @ d) (reverse s1) \<rparr> else s1))"

definition server_snapshot :: "string \<Rightarrow> Addr \<Rightarrow> tenantDNSSnapshot" where
  "server_snapshot acc serverIP =
     (let d = tenantDNSDomain acc;
          s1 = fold (\<lambda>n. addHost n serverIP) (server_names d) \<lparr> domain = d, forward = fmempty, reverse = fmempty, known = {||} \<rparr>
      in if Is4 serverIP then s1\<lparr> reverse := fmupd (reversePTRName serverIP) (''router.'' @ d) (reverse s1) \<rparr> else s1)"

definition buildTenantDNSSnapshot :: "string \<Rightarrow> Addr \<Rightarrow> tenantDNSPeerRecord list \<Rightarrow> tenantDNSSnapshot" where
  "buildTenantDNSSnapshot acc serverIP peers = fold add_peer peers (server_snapshot acc serverIP)"

section \<open>Answers\<close>

datatype qtype = TypeA | TypeAAAA | TypePTR | TypeALL | OtherType nat
datatype RCode = RCodeSuccess | RCodeServerFailure | RCodeNameError

record Question =
  qName :: string
  qType :: qtype

record dnsAnswer =
  aname :: string
  atyp :: qtype
  aaddr :: Addr
  aptr :: string

definition addr_answer :: "string \<Rightarrow> qtype \<Rightarrow> Addr \<Rightarrow> dnsAnswer" where
  "addr_answer n t a = \<lparr> aname = n, atyp = t, aaddr = a, aptr = '''' \<rparr>"

definition ptr_answer :: "string \<Rightarrow> string \<Rightarrow> dnsAnswer" where
  "ptr_answer n t = \<lparr> aname = n, atyp = TypePTR, aaddr = NoAddr, aptr = t \<rparr>"

definition answerAll :: "string \<Rightarrow> tenantDNSSnapshot \<Rightarrow> dnsAnswer list option" where
  "answerAll name s =
     map_option (\<lambda>ips. concat (map (\<lambda>ip. (if Is4 ip then [addr_answer name TypeA ip] else []) @ (if Is6 ip then [addr_answer name TypeAAAA ip] else [])) ips))
       (fmlookup (forward s) name)"

definition answerAddress :: "string \<Rightarrow> bool \<Rightarrow> tenantDNSSnapshot \<Rightarrow> RCode \<times> dnsAnswer list" where
  "answerAddress name wantV6 s =
     (case fmlookup (forward s) name of
        None \<Rightarrow> (RCodeNameError, [])
      | Some ips \<Rightarrow>
          (RCodeSuccess,
           concat (map (\<lambda>ip. (if wantV6 \<and> Is6 ip then [addr_answer name TypeAAAA ip] else []) @ (if \<not> wantV6 \<and> Is4 ip then [addr_answer name TypeA ip] else [])) ips)))"

definition snapshot_answer :: "Question \<Rightarrow> tenantDNSSnapshot \<Rightarrow> RCode \<times> dnsAnswer list" where
  "snapshot_answer q s =
     (let name = normalizeDNSName (qName q) in
      case qType q of
        TypeA \<Rightarrow> answerAddress name False s
      | TypeAAAA \<Rightarrow> answerAddress name True s
      | TypePTR \<Rightarrow>
          (case fmlookup (reverse s) name of None \<Rightarrow> (RCodeNameError, []) | Some ptr \<Rightarrow> (RCodeSuccess, [ptr_answer (qName q) ptr]))
      | TypeALL \<Rightarrow> (case answerAll name s of Some as \<Rightarrow> (RCodeSuccess, as) | None \<Rightarrow> (RCodeNameError, []))
      | OtherType _ \<Rightarrow> if name |\<in>| known s then (RCodeSuccess, []) else (RCodeNameError, []))"

definition shouldResolveUpstream :: "string \<Rightarrow> tenantDNSSnapshot \<Rightarrow> bool" where
  "shouldResolveUpstream name s =
     (if name = '''' then False
      else if name |\<in>| known s then False
      else if fmlookup (reverse s) name \<noteq> None then False
      else if name = domain s \<or> HasSuffix name (''.'' @ domain s) then False
      else if name = tenantDNSDomainBase \<or> HasSuffix name (''.'' @ tenantDNSDomainBase) then False
      else True)"

section \<open>The upstream resolver\<close>

datatype lookup_error = LookupNotFound | LookupFailed

record tenantDNSResolver =
  LookupNetIP :: "string \<Rightarrow> string \<Rightarrow> lookup_error + Addr list"
  LookupAddr :: "string \<Rightarrow> lookup_error + string list"

definition mapLookupErrorToRCode :: "lookup_error \<Rightarrow> RCode" where
  "mapLookupErrorToRCode e = (case e of LookupNotFound \<Rightarrow> RCodeNameError | LookupFailed \<Rightarrow> RCodeServerFailure)"

definition lookupUpstreamIPs :: "tenantDNSResolver \<Rightarrow> string \<Rightarrow> string \<Rightarrow> string \<Rightarrow> RCode \<times> dnsAnswer list" where
  "lookupUpstreamIPs r responseName host network =
     (case LookupNetIP r network host of
        Inl err \<Rightarrow> (mapLookupErrorToRCode err, [])
      | Inr addrs \<Rightarrow>
          (RCodeSuccess,
           concat (map (\<lambda>a. if Is4 a then [addr_answer responseName TypeA a] else if Is6 a then [addr_answer responseName TypeAAAA a] else []) addrs)))"

definition lookupUpstreamPTR :: "tenantDNSResolver \<Rightarrow> string \<Rightarrow> Addr \<Rightarrow> RCode \<times> dnsAnswer list" where
  "lookupUpstreamPTR r responseName a =
     (case LookupAddr r (Addr_String a) of
        Inl err \<Rightarrow> (mapLookupErrorToRCode err, [])
      | Inr names \<Rightarrow>
          (RCodeSuccess, map (\<lambda>n. ptr_answer responseName (normalizeDNSName n)) (filter (\<lambda>n. normalizeDNSName n \<noteq> '''') names)))"

definition resolveUpstreamQuestion :: "tenantDNSResolver option \<Rightarrow> tenantDNSSnapshot \<Rightarrow> Question \<Rightarrow> (RCode \<times> dnsAnswer list) option" where
  "resolveUpstreamQuestion resolver s q =
     (case resolver of
        None \<Rightarrow> None
      | Some r \<Rightarrow>
          (let name = normalizeDNSName (qName q) in
           if \<not> shouldResolveUpstream name s then None
           else case qType q of
                  TypeA \<Rightarrow> Some (lookupUpstreamIPs r (qName q) name ''ip4'')
                | TypeAAAA \<Rightarrow> Some (lookupUpstreamIPs r (qName q) name ''ip6'')
                | TypeALL \<Rightarrow> Some (lookupUpstreamIPs r (qName q) name ''ip'')
                | TypePTR \<Rightarrow> map_option (lookupUpstreamPTR r (qName q)) (ptrNameToAddr name)
                | OtherType _ \<Rightarrow> None))"

text \<open>The code, whether the answer is authoritative, whether recursion is available, and the answers.\<close>

definition resolveQuestion :: "tenantDNSResolver option \<Rightarrow> tenantDNSSnapshot \<Rightarrow> Question \<Rightarrow> RCode \<times> bool \<times> bool \<times> dnsAnswer list" where
  "resolveQuestion resolver s q =
     (let available = (resolver \<noteq> None); (rcode, answers) = snapshot_answer q s in
      if rcode \<noteq> RCodeNameError then (rcode, True, available, answers)
      else case resolveUpstreamQuestion resolver s q of
             Some (rcode', answers') \<Rightarrow> (rcode', False, available, answers')
           | None \<Rightarrow> (rcode, True, available, answers))"

section \<open>The server\<close>

text \<open>The device is known by its address in memory and its address in the network.\<close>

record TenantDevice =
  device_ptr :: nat
  DeviceIP :: Addr

record tenantDNSServer =
  accountID :: string
  device :: TenantDevice
  resolver :: "tenantDNSResolver option"
  dns_cached :: "tenantDNSSnapshot option"
  dns_expires :: gotime

definition tenantDNSCacheTTL :: duration where "tenantDNSCacheTTL = minute"

text \<open>Two listeners are opened; without a device or with a listener that fails there is no server.\<close>

definition newTenantDNSServer :: "tenantDNSResolver option \<Rightarrow> bool \<Rightarrow> bool \<Rightarrow> string \<Rightarrow> TenantDevice option \<Rightarrow> tenantDNSServer option" where
  "newTenantDNSServer upstream udp_ok tcp_ok acc dev =
     (case dev of
        None \<Rightarrow> None
      | Some d \<Rightarrow>
          if \<not> udp_ok then None else if \<not> tcp_ok then None
          else Some \<lparr> accountID = acc, device = d, resolver = upstream, dns_cached = None, dns_expires = 0 \<rparr>)"

definition invalidate :: "tenantDNSServer \<Rightarrow> tenantDNSServer" where
  "invalidate s = s\<lparr> dns_cached := None, dns_expires := 0 \<rparr>"

definition snapshot :: "(string \<Rightarrow> tenantDNSPeerRecord list) \<Rightarrow> gotime \<Rightarrow> tenantDNSServer \<Rightarrow> tenantDNSServer \<times> tenantDNSSnapshot" where
  "snapshot peerIndex now s =
     (case dns_cached s of
        Some c \<Rightarrow>
          if Before now (dns_expires s) then (s, c)
          else (let c' = buildTenantDNSSnapshot (accountID s) (DeviceIP (device s)) (peerIndex (accountID s)) in
                (s\<lparr> dns_cached := Some c', dns_expires := now + tenantDNSCacheTTL \<rparr>, c'))
      | None \<Rightarrow>
          (let c' = buildTenantDNSSnapshot (accountID s) (DeviceIP (device s)) (peerIndex (accountID s)) in
           (s\<lparr> dns_cached := Some c', dns_expires := now + tenantDNSCacheTTL \<rparr>, c')))"

text \<open>
  The library: the parser gives the header and the questions or an error, \<open>NewName\<close> refuses a name that is too long, the builder makes a message.
  A resource is a name, a type and its data; all of them live for 30 seconds. \<open>mustDNSName\<close> panics on a refused name, and \<open>As4\<close> of
  \<open>net/netip\<close> on an address that is neither IPv4 nor an IPv4 address mapped into IPv6: no result.
\<close>

record dns_header =
  hid :: nat
  RecursionDesired :: bool

record dns_response =
  rid :: nat
  Authoritative :: bool
  rRecursionDesired :: bool
  RecursionAvailable :: bool
  rcode_of :: RCode

datatype resource = AResource string "byte list" | AAAAResource string "byte list" | PTRResource string string

record dnsmessage =
  Parse :: "byte list \<Rightarrow> (dns_header \<times> Question list) option"
  NewName :: "string \<Rightarrow> string option"
  Build :: "dns_response \<Rightarrow> Question list \<Rightarrow> resource list \<Rightarrow> byte list option"

definition mustDNSName :: "dnsmessage \<Rightarrow> string \<Rightarrow> string option" where
  "mustDNSName lib name = NewName lib (ensureTrailingDot (normalizeDNSName name))"

definition As16 :: "Addr \<Rightarrow> byte list" where
  "As16 a = (case a of NoAddr \<Rightarrow> replicate 16 0 | Addr4 b \<Rightarrow> v4InV6Prefix @ b | Addr6 b _ \<Rightarrow> b)"

definition As4 :: "Addr \<Rightarrow> byte list option" where
  "As4 a = (case a of NoAddr \<Rightarrow> None | Addr4 b \<Rightarrow> Some b | Addr6 b _ \<Rightarrow> if take 12 b = v4InV6Prefix then Some (drop 12 b) else None)"

definition answer_append :: "dnsmessage \<Rightarrow> dnsAnswer \<Rightarrow> resource list option" where
  "answer_append lib a =
     (case mustDNSName lib (aname a) of
        None \<Rightarrow> None
      | Some n \<Rightarrow>
          (case atyp a of
             TypeA \<Rightarrow> map_option (\<lambda>ip4. [AResource n ip4]) (As4 (aaddr a))
           | TypeAAAA \<Rightarrow> Some [AAAAResource n (As16 (aaddr a))]
           | TypePTR \<Rightarrow> map_option (\<lambda>t. [PTRResource n t]) (mustDNSName lib (aptr a))
           | _ \<Rightarrow> Some []))"

fun append_all :: "dnsmessage \<Rightarrow> dnsAnswer list \<Rightarrow> resource list option" where
  "append_all lib [] = Some []"
| "append_all lib (a # as) = (case answer_append lib a of None \<Rightarrow> None | Some r \<Rightarrow> map_option ((@) r) (append_all lib as))"

datatype dns_result = DnsPanic | DnsNothing | DnsReply "byte list"

definition handleQuery :: "dnsmessage \<Rightarrow> (string \<Rightarrow> tenantDNSPeerRecord list) \<Rightarrow> gotime \<Rightarrow> byte list \<Rightarrow> tenantDNSServer \<Rightarrow> tenantDNSServer \<times> dns_result" where
  "handleQuery lib peerIndex now msg s =
     (case Parse lib msg of
        None \<Rightarrow> (s, DnsNothing)
      | Some (h, qs) \<Rightarrow>
          if qs = [] then (s, DnsNothing)
          else
            (let (s', snap) = snapshot peerIndex now s;
                 (rcode, auth, available, answers) = resolveQuestion (resolver s) snap (hd qs)
             in (s',
                 case append_all lib answers of
                   None \<Rightarrow> DnsPanic
                 | Some rs \<Rightarrow>
                     (case Build lib \<lparr> rid = hid h, Authoritative = auth, rRecursionDesired = RecursionDesired h, RecursionAvailable = available, rcode_of = rcode \<rparr> qs rs of
                        None \<Rightarrow> DnsNothing
                      | Some bs \<Rightarrow> DnsReply bs))))"


section \<open>Labels\<close>

lemma Trim_parts: "\<exists>us vs. s = us @ Trim s cs @ vs"
proof -
  have "s = takeWhile (\<lambda>c. c \<in> set cs) s @ dropWhile (\<lambda>c. c \<in> set cs) s" by simp
  moreover have "t = rev (dropWhile (\<lambda>c. c \<in> set cs) (rev t)) @ rev (takeWhile (\<lambda>c. c \<in> set cs) (rev t))" for t
    by (metis rev_append rev_rev_ident takeWhile_dropWhile_id)
  ultimately show ?thesis unfolding Trim_def TrimRight_def TrimLeft_def by metis
qed

lemma Trim_set: "set (Trim s cs) \<subseteq> set s" "length (Trim s cs) \<le> length s"
  using Trim_parts [of s cs] by (auto, metis UnCI set_append, metis le_add1 le_add2 le_trans length_append)

lemma Trim_ends:
  assumes "Trim s cs \<noteq> ''''"
  shows "hd (Trim s cs) \<notin> set cs" "last (Trim s cs) \<notin> set cs"
proof -
  let ?P = "\<lambda>c. c \<in> set cs" and ?t = "dropWhile (\<lambda>c. c \<in> set cs) s"
  have t: "Trim s cs = rev (dropWhile ?P (rev ?t))" by (simp add: Trim_def TrimRight_def TrimLeft_def)
  then have ne: "dropWhile ?P (rev ?t) \<noteq> []" using assms by simp
  then show "last (Trim s cs) \<notin> set cs" unfolding t by (metis hd_dropWhile last_rev)
  have "?t \<noteq> []" using ne by (metis dropWhile.simps(1) rev.simps(1))
  then have h: "\<not> ?P (hd ?t)" by (rule hd_dropWhile)
  obtain us where "rev ?t = us @ dropWhile ?P (rev ?t)" by (metis takeWhile_dropWhile_id)
  then have "?t = rev (dropWhile ?P (rev ?t)) @ rev us" by (metis rev_append rev_rev_ident)
  then have "hd ?t = hd (rev (dropWhile ?P (rev ?t)))" using ne by (metis hd_append2 rev_is_Nil_conv)
  then show "hd (Trim s cs) \<notin> set cs" using h t by metis
qed

lemma label_loop_chars: "c \<in> set (label_loop b d s) \<Longrightarrow> c \<in> set b \<or> label_char c \<or> c = CHR ''-''"
  by (induction b d s rule: label_loop.induct) (auto split: if_splits)

definition dns_label :: "string \<Rightarrow> bool" where
  "dns_label l \<longleftrightarrow> l \<noteq> '''' \<and> length l \<le> 63 \<and> (\<forall>c\<in>set l. label_char c \<or> c = CHR ''-'') \<and> hd l \<noteq> CHR ''-'' \<and> last l \<noteq> CHR ''-''"

lemma sanitized_label:
  assumes "sanitizeDNSLabel v \<noteq> ''''"
  shows "dns_label (sanitizeDNSLabel v)"
proof -
  let ?b = "label_loop '''' False (ToLower (TrimSpace v))"
  let ?l = "Trim ?b ''-''"
  have l: "sanitizeDNSLabel v = (if 63 < length ?l then Trim (take 63 ?l) ''-'' else ?l)"
    using assms by (simp add: sanitizeDNSLabel_def Let_def split: if_splits)
  have b: "\<forall>c\<in>set ?b. label_char c \<or> c = CHR ''-''" using label_loop_chars by fastforce
  define t where "t = Trim (take 63 ?l) ''-''"
  have c: "\<forall>c\<in>set ?l. label_char c \<or> c = CHR ''-''" using b Trim_set(1) [of ?b "''-''"] by blast
  have "set t \<subseteq> set ?l" unfolding t_def using Trim_set(1) [of "take 63 ?l" "''-''"] set_take_subset by (rule order_trans)
  then have ct: "\<forall>c\<in>set t. label_char c \<or> c = CHR ''-''" using c by blast
  have n: "length t \<le> 63" unfolding t_def using Trim_set(2) [of "take 63 ?l" "''-''"] by simp
  show ?thesis
  proof (cases "63 < length ?l")
    case True
    then show ?thesis using assms Trim_ends [of "take 63 ?l" "''-''", folded t_def] ct n unfolding l t_def [symmetric] by (simp add: dns_label_def)
  next
    case False
    then show ?thesis using assms Trim_ends [of ?b "''-''"] c by (simp add: l dns_label_def)
  qed
qed

section \<open>Names in normal form\<close>

definition normal_name :: "string \<Rightarrow> bool" where
  "normal_name n \<longleftrightarrow> n \<noteq> '''' \<and> (\<forall>c\<in>set n. lower_char c = c \<and> \<not> is_space c) \<and> last n \<noteq> CHR ''.''"

lemma plain_normal: "normal_name n \<Longrightarrow> normalizeDNSName n = n"
proof -
  assume p: "normal_name n"
  then have "TrimSpace n = n" by (intro trimmed) (auto simp: normal_name_def)
  moreover have "ToLower n = n" using p by (auto simp: normal_name_def ToLower_def intro!: map_idI)
  moreover have "\<not> HasSuffix n ''.''"
  proof
    assume "HasSuffix n ''.''"
    then have "last n = CHR ''.''" unfolding HasSuffix_def by (metis append_take_drop_id last_snoc length_append_singleton list.size(3))
    then show False using p by (simp add: normal_name_def)
  qed
  ultimately show ?thesis by (simp add: normalizeDNSName_def TrimSuffix_def)
qed

lemma plain_append: "normal_name b \<Longrightarrow> (\<forall>c\<in>set a. lower_char c = c \<and> \<not> is_space c) \<Longrightarrow> normal_name (a @ b)"
  by (auto simp: normal_name_def)

lemma label_char_plain: "label_char c \<or> c = CHR ''-'' \<or> c = CHR ''.'' \<Longrightarrow> lower_char c = c \<and> \<not> is_space c"
  by (auto simp: label_char_def lower_char_def is_space_def is_digit_def code_def)

lemma domain_plain: "normal_name (tenantDNSDomain acc)"
proof -
  have base: "normal_name (''.'' @ tenantDNSDomainBase)" "normal_name (''tenant'' @ ''.'' @ tenantDNSDomainBase)"
    by (simp_all add: normal_name_def tenantDNSDomainBase_def lower_char_def is_space_def code_def)
  show ?thesis
  proof (cases "sanitizeDNSLabel acc = ''''")
    case True
    then show ?thesis using base(2) by (simp add: tenantDNSDomain_def Let_def)
  next
    case False
    then have "\<forall>c\<in>set (sanitizeDNSLabel acc). lower_char c = c \<and> \<not> is_space c"
      using sanitized_label label_char_plain by (auto simp: dns_label_def)
    then show ?thesis using False plain_append [OF base(1)] by (simp add: tenantDNSDomain_def Let_def)
  qed
qed

lemma host_plain:
  assumes "\<forall>c\<in>set l. label_char c \<or> c = CHR ''-''"
  shows "normal_name (l @ ''.'' @ tenantDNSDomain acc)"
proof -
  have "normal_name (''.'' @ tenantDNSDomain acc)" by (rule plain_append [OF domain_plain]) (simp add: label_char_plain)
  then show ?thesis by (rule plain_append) (use assms label_char_plain in blast)
qed

lemma synthetic_chars:
  assumes "length b = 4"
  shows "\<forall>c\<in>set (syntheticPeerHost (Addr4 b)). label_char c \<or> c = CHR ''-''"
proof -
  have "label_char (dashed c) \<or> dashed c = CHR ''-''" if "c \<in> set (v4_String b)" for c
    using v4_String_chars [of b] that assms by (auto simp: dashed_def label_char_def)
  moreover have "\<forall>c\<in>set ''peer-''. label_char c \<or> c = CHR ''-''" by (simp add: label_char_def code_def)
  ultimately show ?thesis by (auto simp: syntheticPeerHost_def IsValid_def Addr_String_def)
qed


section \<open>The invariant of the snapshot\<close>

lemma hosts_addHost:
  "hosts (addHost name a s) n =
     (if n = normalizeDNSName name \<and> n \<noteq> '''' \<and> IsValid a \<and> a \<notin> set (hosts s n) then hosts s n @ [a] else hosts s n)"
  by (auto simp: addHost_def Let_def hosts_def)

lemma addHost_keeps [simp]: "domain (addHost name a s) = domain s" "reverse (addHost name a s) = reverse s"
  by (simp_all add: addHost_def Let_def)

lemma addHost_adds: "normal_name name \<Longrightarrow> IsValid a \<Longrightarrow> a \<in> set (hosts (addHost name a s) name)"
  using plain_normal [of name] by (simp add: hosts_addHost normal_name_def)

lemma addHost_mono: "set (hosts s n) \<subseteq> set (hosts (addHost name a s) n)"
  by (simp add: hosts_addHost subset_insertI)

lemma known_dom: "known s = fmdom (forward s) \<Longrightarrow> known (addHost name a s) = fmdom (forward (addHost name a s))"
proof (cases "a \<in> set (hosts s (normalizeDNSName name))")
  case True
  assume k: "known s = fmdom (forward s)"
  have "normalizeDNSName name |\<in>| fmdom (forward s)" using True by (cases "fmlookup (forward s) (normalizeDNSName name)") (auto simp: hosts_def fmlookup_dom_iff)
  then show ?thesis using True k by (auto simp: addHost_def Let_def)
qed (simp add: addHost_def Let_def)

text \<open>Every address is the server's or one of a peer, the known names are those with an address, and the name of an address is in normal form and has that address.\<close>

definition snapshot_ok :: "string \<Rightarrow> Addr \<Rightarrow> tenantDNSPeerRecord set \<Rightarrow> tenantDNSSnapshot \<Rightarrow> bool" where
  "snapshot_ok acc serverIP peers s \<longleftrightarrow> domain s = tenantDNSDomain acc \<and> known s = fmdom (forward s) \<and>
     (\<forall>n. \<forall>a\<in>set (hosts s n). a = serverIP \<or> (\<exists>p\<in>peers. parseAssignedIP (AssignedIP p) = Some a)) \<and>
     (\<forall>k t. fmlookup (reverse s) k = Some t \<longrightarrow> (\<exists>a. Is4 a \<and> normal_name t \<and> k = reversePTRName a \<and> a \<in> set (hosts s t)))"

lemma addHost_ok:
  assumes "snapshot_ok acc serverIP peers s" and "a = serverIP \<or> (\<exists>p\<in>peers. parseAssignedIP (AssignedIP p) = Some a)"
  shows "snapshot_ok acc serverIP peers (addHost name a s)"
proof -
  have "\<exists>x. Is4 x \<and> normal_name t \<and> k = reversePTRName x \<and> x \<in> set (hosts (addHost name a s) t)" if "fmlookup (reverse s) k = Some t" for k t
    using assms(1) that addHost_mono [of s t name a] unfolding snapshot_ok_def by blast
  moreover have "x = serverIP \<or> (\<exists>p\<in>peers. parseAssignedIP (AssignedIP p) = Some x)" if "x \<in> set (hosts (addHost name a s) n)" for x n
    using assms that by (auto simp: hosts_addHost snapshot_ok_def split: if_splits)
  ultimately show ?thesis using assms(1) known_dom [of s name a] by (simp add: snapshot_ok_def)
qed

lemma add_hosts_ok:
  assumes "snapshot_ok acc serverIP peers s" and "a = serverIP \<or> (\<exists>p\<in>peers. parseAssignedIP (AssignedIP p) = Some a)"
  shows "snapshot_ok acc serverIP peers (fold (\<lambda>n. addHost n a) ns s)"
  using assms by (induction ns arbitrary: s) (auto intro: addHost_ok)

lemma add_hosts_mono: "set (hosts s n) \<subseteq> set (hosts (fold (\<lambda>n. addHost n a) ns s) n)"
proof (induction ns arbitrary: s)
  case (Cons m ns)
  then show ?case using order_trans [OF addHost_mono [of s n m a] Cons [of "addHost m a s"]] by simp
qed simp

lemma add_hosts_adds: "normal_name n \<Longrightarrow> IsValid a \<Longrightarrow> n \<in> set ns \<Longrightarrow> a \<in> set (hosts (fold (\<lambda>n. addHost n a) ns s) n)"
proof (induction ns arbitrary: s)
  case (Cons m ns)
  then show ?case using addHost_adds [of n a s] add_hosts_mono [of "addHost n a s" n a ns] by (cases "m = n") auto
qed simp

lemma add_hosts_keeps [simp]: "domain (fold (\<lambda>n. addHost n a) ns s) = domain s" "reverse (fold (\<lambda>n. addHost n a) ns s) = reverse s"
  by (induction ns arbitrary: s) simp_all

text \<open>The two names of each label, as one list.\<close>

definition label_names :: "string \<Rightarrow> string list \<Rightarrow> string list" where
  "label_names d ls = concat (map (\<lambda>l. [l, l @ ''.'' @ d]) ls)"

lemma label_fold: "fold (\<lambda>l s. addHost (l @ ''.'' @ d) a (addHost l a s)) ls s = fold (\<lambda>n. addHost n a) (label_names d ls) s"
  by (induction ls arbitrary: s) (simp_all add: label_names_def)

lemma add_peer_alt:
  "parseAssignedIP (AssignedIP p) = Some a \<Longrightarrow>
   add_peer p s = (let s1 = fold (\<lambda>n. addHost n a) (label_names (domain s) (peer_labels p a)) s in
     if Is4 a then s1\<lparr> reverse := fmupd (reversePTRName a) (hd (peer_labels p a) @ ''.'' @ domain s) (reverse s1) \<rparr> else s1)"
  unfolding add_peer_def label_fold Let_def by simp

lemma parsed_valid:
  assumes "parseAssignedIP v = Some a"
  shows "IsValid a" "a = Addr4 b \<Longrightarrow> length b = 4"
proof -
  have v4: "length fs = 4" if "parseIPv4Fields s = Some fs" for s fs
  proof -
    have "length out = 4" if "v4_fields pr x n fs0 s = Some out" "length fs0 \<le> 3" for pr x n fs0 s out
      using that by (induction pr x n fs0 s rule: v4_fields.induct) (auto split: if_splits)
    then show ?thesis using that unfolding parseIPv4Fields_def by simp
  qed
  have p: "IsValid a \<and> (a = Addr4 b \<longrightarrow> length b = 4)" if "ParseAddr s = Some a" for s
    using that v4 by (auto simp: ParseAddr_def parse_v6_zone_def IsValid_def Let_def split: option.splits if_splits)
  have "IsValid a \<and> (a = Addr4 b \<longrightarrow> length b = 4)"
    using assms p by (auto simp: parseAssignedIP_def prefix_Addr_def Let_def split: if_splits option.splits)
  then show "IsValid a" "a = Addr4 b \<Longrightarrow> length b = 4" by blast+
qed

lemma peer_label_plain:
  assumes "parseAssignedIP (AssignedIP p) = Some a" and "Is4 a" and "l \<in> set (peer_labels p a)"
  shows "normal_name (l @ ''.'' @ tenantDNSDomain acc)"
proof (rule host_plain)
  obtain b where b: "a = Addr4 b" using assms(2) by (auto simp: Is4_def split: Addr.splits)
  then have "length b = 4" using parsed_valid(2) [OF assms(1)] by blast
  then show "\<forall>c\<in>set l. label_char c \<or> c = CHR ''-''"
    using assms(3) b synthetic_chars sanitized_label by (auto simp: peer_labels_def Let_def dns_label_def split: if_splits)
qed

lemma add_peer_ok:
  assumes "snapshot_ok acc serverIP peers s" and "p \<in> peers"
  shows "snapshot_ok acc serverIP peers (add_peer p s)"
proof (cases "parseAssignedIP (AssignedIP p)")
  case (Some a)
  define s1 where "s1 = fold (\<lambda>n. addHost n a) (label_names (domain s) (peer_labels p a)) s"
  have s1: "snapshot_ok acc serverIP peers s1" unfolding s1_def by (rule add_hosts_ok [OF assms(1)]) (use assms(2) Some in blast)
  show ?thesis
  proof (cases "Is4 a")
    case True
    let ?t = "hd (peer_labels p a) @ ''.'' @ domain s"
    have l: "hd (peer_labels p a) \<in> set (peer_labels p a)" by (simp add: peer_labels_def Let_def)
    have "?t \<in> set (label_names (domain s) (peer_labels p a))" using l unfolding label_names_def by auto
    moreover have pt: "normal_name ?t" using peer_label_plain [OF Some True l] assms(1) by (simp add: snapshot_ok_def)
    ultimately have "a \<in> set (hosts s1 ?t)" unfolding s1_def using add_hosts_adds parsed_valid(1) [OF Some] by blast
    then show ?thesis using s1 True pt add_peer_alt [OF Some, of s] unfolding s1_def [symmetric]
      by (auto simp: snapshot_ok_def hosts_def Let_def split: if_splits)
  next
    case False
    then show ?thesis using s1 add_peer_alt [OF Some, of s] by (simp add: s1_def [symmetric] Let_def)
  qed
qed (use assms in \<open>simp add: add_peer_def\<close>)

lemma server_names_plain: "normal_name (''router.'' @ tenantDNSDomain acc)"
  using host_plain [of "''router''" acc] by (simp add: label_char_def code_def)

lemma built_ok:
  assumes "IsValid serverIP"
  shows "snapshot_ok acc serverIP (set peers) (buildTenantDNSSnapshot acc serverIP peers)"
proof -
  let ?d = "tenantDNSDomain acc"
  let ?s0 = "\<lparr> domain = ?d, forward = fmempty, reverse = fmempty, known = {||} \<rparr>"
  define s1 where "s1 = fold (\<lambda>n. addHost n serverIP) (server_names ?d) ?s0"
  have s1: "snapshot_ok acc serverIP (set peers) s1" unfolding s1_def by (rule add_hosts_ok) (simp_all add: snapshot_ok_def hosts_def)
  have "serverIP \<in> set (hosts s1 (''router.'' @ ?d))"
    unfolding s1_def by (rule add_hosts_adds [OF server_names_plain assms]) (simp add: server_names_def)
  then have s2: "snapshot_ok acc serverIP (set peers) (server_snapshot acc serverIP)"
    using s1 server_names_plain [of acc] unfolding server_snapshot_def Let_def s1_def [symmetric] by (auto simp: snapshot_ok_def hosts_def split: if_splits)
  have "snapshot_ok acc serverIP (set peers) (fold add_peer ps s)" if "snapshot_ok acc serverIP (set peers) s" "set ps \<subseteq> set peers" for ps s
    using that by (induction ps arbitrary: s) (auto intro: add_peer_ok)
  from this [OF s2 order_refl] show ?thesis by (simp only: buildTenantDNSSnapshot_def)
qed

lemma built_hosts:
  assumes "IsValid serverIP" and "a \<in> set (hosts (buildTenantDNSSnapshot acc serverIP peers) n)"
  shows "a = serverIP \<or> (\<exists>p\<in>set peers. parseAssignedIP (AssignedIP p) = Some a)"
  using built_ok [OF assms(1), of acc peers] assms(2) unfolding snapshot_ok_def by (elim conjE) blast

lemma add_peers_mono: "set (hosts s n) \<subseteq> set (hosts (fold add_peer ps s) n)"
proof (induction ps arbitrary: s)
  case (Cons p ps)
  have "set (hosts s n) \<subseteq> set (hosts (add_peer p s) n)"
  proof (cases "parseAssignedIP (AssignedIP p)")
    case (Some a)
    then show ?thesis using add_hosts_mono [of s n a "label_names (domain s) (peer_labels p a)"]
      by (simp add: add_peer_alt Let_def hosts_def)
  qed (simp add: add_peer_def)
  then show ?case using Cons [of "add_peer p s"] by simp
qed simp

lemma add_peer_domain [simp]: "domain (add_peer p s) = domain s"
  by (cases "parseAssignedIP (AssignedIP p)") (simp_all add: add_peer_alt Let_def, simp add: add_peer_def)

text \<open>Every label of a peer leads to its address.\<close>

lemma peer_hosts:
  assumes "p \<in> set peers" and "parseAssignedIP (AssignedIP p) = Some a" and "Is4 a" and "l \<in> set (peer_labels p a)"
  shows "a \<in> set (hosts (buildTenantDNSSnapshot acc serverIP peers) (l @ ''.'' @ tenantDNSDomain acc))"
proof -
  obtain ps qs where peers: "peers = ps @ p # qs" using assms(1) by (meson split_list)
  define s where "s = fold add_peer ps (server_snapshot acc serverIP)"
  have "domain (fold add_peer ps x) = domain x" for x by (induction ps arbitrary: x) simp_all
  then have s: "buildTenantDNSSnapshot acc serverIP peers = fold add_peer qs (add_peer p s)" "domain s = tenantDNSDomain acc"
    unfolding buildTenantDNSSnapshot_def s_def peers by (simp_all add: server_snapshot_def Let_def)
  have "l @ ''.'' @ tenantDNSDomain acc \<in> set (label_names (domain s) (peer_labels p a))" using assms(4) s(2) unfolding label_names_def by auto
  then have "a \<in> set (hosts (add_peer p s) (l @ ''.'' @ tenantDNSDomain acc))"
    using add_hosts_adds [OF peer_label_plain [OF assms(2-4)] parsed_valid(1) [OF assms(2)]] by (simp add: add_peer_alt [OF assms(2)] Let_def hosts_def)
  then show ?thesis using add_peers_mono [of "add_peer p s"] unfolding s(1) by blast
qed


section \<open>Reverse names\<close>

lemma octet_utoa: "octet (utoa (unat b)) = Some b"
proof -
  have b: "unat b < 2 ^ 8" using unsigned_less [of b] by simp
  then have "Atoi (utoa (unat b)) = Some (int (unat b))" by (intro Atoi_utoa order_less_trans [OF b]) simp
  moreover have "uint b < 2 ^ 8" using unsigned_less [of b] by simp
  ultimately show ?thesis by (simp add: octet_def)
qed

lemma suffix_append: "HasSuffix (a @ b) b" "TrimSuffix (a @ b) b = a"
  by (simp_all add: HasSuffix_def TrimSuffix_def)

lemma reverse_name_read:
  assumes "length b = 4"
  shows "ptrNameToAddr (reversePTRName (Addr4 b)) = Some (Addr4 b)"
proof -
  let ?ps = "map (\<lambda>x. utoa (unat x)) (rev b)"
  have "CHR ''.'' \<notin> set p" if p: "p \<in> set ?ps" for p
  proof
    assume "CHR ''.'' \<in> set p"
    moreover obtain x :: byte where "p = utoa (unat x)" using p by auto
    ultimately have "CHR ''.'' \<in> set (utoa (unat x))" by simp
    then have "is_digit (CHR ''.'')" using utoa_digits by blast
    then show False by (simp add: is_digit_def code_def)
  qed
  then have "Split (Join ?ps ''.'') (CHR ''.'') = ?ps" using assms by (intro Split_Join_comma) auto
  then show ?thesis using assms
    by (simp add: ptrNameToAddr_def reversePTRName_def suffix_append octet_utoa Let_def rev_map [symmetric] comp_def)
qed

lemma Join_chars: "c \<in> set (Join ps sep) \<Longrightarrow> c \<in> set sep \<or> (\<exists>p\<in>set ps. c \<in> set p)"
  by (induction ps sep rule: Join.induct) auto

lemma reverse_plain: "normal_name (reversePTRName (Addr4 b))"
proof -
  have "\<forall>c\<in>set (Join (map (\<lambda>x. utoa (unat x)) (rev b)) ''.''). lower_char c = c \<and> \<not> is_space c"
  proof
    fix c assume "c \<in> set (Join (map (\<lambda>x. utoa (unat x)) (rev b)) ''.'')"
    then have "c = CHR ''.'' \<or> (\<exists>x\<in>set b. c \<in> set (utoa (unat x)))" using Join_chars by fastforce
    then have "c = CHR ''.'' \<or> is_digit c" using utoa_digits by blast
    then show "lower_char c = c \<and> \<not> is_space c" using label_char_plain by (auto simp: label_char_def)
  qed
  moreover have "normal_name ''.in-addr.arpa''" by (simp add: normal_name_def lower_char_def is_space_def code_def)
  ultimately show ?thesis by (simp add: reversePTRName_def plain_append)
qed

section \<open>Properties\<close>

lemma address_answers:
  assumes "answerAddress n v6 s = (rc, answers)" and "x \<in> set answers"
  shows "aaddr x \<in> set (hosts s n)"
  using assms by (auto simp: answerAddress_def hosts_def addr_answer_def split: option.splits if_splits)

lemma answer_hosts:
  assumes "x \<in> set (snd (snapshot_answer q s))" and "atyp x = TypeA \<or> atyp x = TypeAAAA"
  shows "aaddr x \<in> set (hosts s (normalizeDNSName (qName q)))"
proof (cases "qType q")
  case TypeALL
  then show ?thesis using assms(1) by (auto simp: snapshot_answer_def answerAll_def hosts_def addr_answer_def Let_def split: option.splits if_splits)
next
  case TypePTR
  then show ?thesis using assms by (auto simp: snapshot_answer_def ptr_answer_def Let_def split: option.splits)
qed (use assms(1) address_answers [OF surjective_pairing] in \<open>auto simp: snapshot_answer_def Let_def split: if_splits\<close>)

lemma host_answer:
  assumes "normal_name n" and "Addr4 b \<in> set (hosts s n)"
  shows "addr_answer n TypeA (Addr4 b) \<in> set (snd (snapshot_answer \<lparr> qName = n, qType = TypeA \<rparr> s))"
proof -
  obtain ips where "fmlookup (forward s) n = Some ips" "Addr4 b \<in> set ips" using assms(2) by (cases "fmlookup (forward s) n") (auto simp: hosts_def)
  then show ?thesis using plain_normal [OF assms(1)] by (auto simp: snapshot_answer_def answerAddress_def Is4_def)
qed

lemma peer_answer:
  assumes "p \<in> set peers" and "parseAssignedIP (AssignedIP p) = Some (Addr4 b)" and "l \<in> set (peer_labels p (Addr4 b))"
  shows "addr_answer (l @ ''.'' @ tenantDNSDomain acc) TypeA (Addr4 b) \<in>
    set (snd (snapshot_answer \<lparr> qName = l @ ''.'' @ tenantDNSDomain acc, qType = TypeA \<rparr> (buildTenantDNSSnapshot acc serverIP peers)))"
proof -
  have v: "Is4 (Addr4 b)" by (simp add: Is4_def)
  show ?thesis by (rule host_answer [OF peer_label_plain [OF assms(2) v assms(3)] peer_hosts [OF assms(1,2) v assms(3)]])
qed

text \<open>
  C20. The addresses a tenant's name server gives from its own names are those of the account: the address of the server itself or one assigned to
  a peer of the account, whatever is asked.
\<close>

theorem dns_confined:
  assumes "IsValid serverIP" and "snapshot_answer q (buildTenantDNSSnapshot acc serverIP peers) = (rc, answers)"
    and "x \<in> set answers" and "atyp x = TypeA \<or> atyp x = TypeAAAA"
  shows "aaddr x = serverIP \<or> (\<exists>p\<in>set peers. parseAssignedIP (AssignedIP p) = Some (aaddr x))"
  by (rule built_hosts [OF assms(1) answer_hosts [of x q "buildTenantDNSSnapshot acc serverIP peers"]]) (use assms(2-4) in simp_all)

lemma reverse_kept: "fmlookup (reverse s) k \<noteq> None \<Longrightarrow> fmlookup (reverse (fold add_peer ps s)) k \<noteq> None"
proof (induction ps arbitrary: s)
  case (Cons p ps)
  have "fmlookup (reverse (add_peer p s)) k \<noteq> None"
    using Cons.prems by (cases "parseAssignedIP (AssignedIP p)") (simp_all add: add_peer_alt Let_def, simp add: add_peer_def)
  then show ?case using Cons.IH by simp
qed simp

definition addr_ok :: "Addr \<Rightarrow> bool" where
  "addr_ok a \<longleftrightarrow> (case a of NoAddr \<Rightarrow> False | Addr4 b \<Rightarrow> length b = 4 | Addr6 b _ \<Rightarrow> length b = 16)"

text \<open>
  C21. The reverse name of a peer's address leads to a name of the tenant's domain that in turn leads to that address, as mail and login servers demand.
\<close>

theorem dns_forward_confirmed:
  assumes "addr_ok serverIP" and "p \<in> set peers" and "parseAssignedIP (AssignedIP p) = Some (Addr4 b)"
  shows "\<exists>ptr. snapshot_answer \<lparr> qName = reversePTRName (Addr4 b), qType = TypePTR \<rparr> (buildTenantDNSSnapshot acc serverIP peers) =
      (RCodeSuccess, [ptr_answer (reversePTRName (Addr4 b)) ptr]) \<and>
    addr_answer ptr TypeA (Addr4 b) \<in> set (snd (snapshot_answer \<lparr> qName = ptr, qType = TypeA \<rparr> (buildTenantDNSSnapshot acc serverIP peers)))"
proof -
  let ?s = "buildTenantDNSSnapshot acc serverIP peers" and ?k = "reversePTRName (Addr4 b)"
  have v: "IsValid serverIP" using assms(1) by (auto simp: addr_ok_def IsValid_def)
  have ok: "snapshot_ok acc serverIP (set peers) ?s" by (rule built_ok [OF v])
  have lb: "length b = 4" using parsed_valid(2) [OF assms(3)] by blast
  obtain ps qs where peers: "peers = ps @ p # qs" using assms(2) by (meson split_list)
  have "fmlookup (reverse (add_peer p x)) ?k \<noteq> None" for x using assms(3) by (simp add: add_peer_alt Let_def Is4_def)
  then have "fmlookup (reverse ?s) ?k \<noteq> None" unfolding peers buildTenantDNSSnapshot_def by (simp add: reverse_kept)
  then obtain t where t: "fmlookup (reverse ?s) ?k = Some t" by blast
  then obtain a where a: "Is4 a" "normal_name t" "?k = reversePTRName a" "a \<in> set (hosts ?s t)" using ok unfolding snapshot_ok_def by blast
  obtain b' where b': "a = Addr4 b'" using a(1) by (auto simp: Is4_def split: Addr.splits)
  have "length b' = 4"
  proof (cases "a = serverIP")
    case True
    then show ?thesis using assms(1) b' by (auto simp: addr_ok_def)
  next
    case False
    moreover have "a = serverIP \<or> (\<exists>p\<in>set peers. parseAssignedIP (AssignedIP p) = Some a)"
      by (rule built_hosts [OF v a(4)])
    ultimately obtain p' where "p' \<in> set peers" "parseAssignedIP (AssignedIP p') = Some a" by blast
    then show ?thesis using parsed_valid(2) b' by blast
  qed
  then have "Addr4 b' = Addr4 b" using reverse_name_read [of b'] reverse_name_read [OF lb] a(3) b' by simp
  then have h: "Addr4 b \<in> set (hosts ?s t)" using a(4) b' by simp
  have "snapshot_answer \<lparr> qName = ?k, qType = TypePTR \<rparr> ?s = (RCodeSuccess, [ptr_answer ?k t])"
    using t plain_normal [OF reverse_plain [of b]] by (simp add: snapshot_answer_def)
  moreover have "addr_answer t TypeA (Addr4 b) \<in> set (snd (snapshot_answer \<lparr> qName = t, qType = TypeA \<rparr> ?s))"
    by (rule host_answer [OF a(2) h])
  ultimately show ?thesis by blast
qed

text \<open>
  A question about a name of the service's own domain is never passed on to the upstream resolver, known or not: the answer is that of the snapshot and authoritative.
\<close>

theorem dns_no_leak:
  assumes "normalizeDNSName (qName q) = tenantDNSDomainBase \<or> HasSuffix (normalizeDNSName (qName q)) (''.'' @ tenantDNSDomainBase)"
  shows "resolveQuestion (Some r) s q = (fst (snapshot_answer q s), True, True, snd (snapshot_answer q s))"
proof -
  have "\<not> shouldResolveUpstream (normalizeDNSName (qName q)) s" using assms by (auto simp: shouldResolveUpstream_def)
  then show ?thesis by (simp add: resolveQuestion_def resolveUpstreamQuestion_def Let_def split: prod.split)
qed

text \<open>
  C34. A peer that is named like the gateway is given out as the gateway: when the name of a peer becomes the label \<open>router\<close>, a lookup of the router of the
  domain returns the address of that peer too.
\<close>

theorem dns_router_captured:
  assumes "p \<in> set peers" and "parseAssignedIP (AssignedIP p) = Some (Addr4 b)" and "sanitizeDNSLabel (peerName p) = ''router''"
  shows "addr_answer (''router.'' @ tenantDNSDomain acc) TypeA (Addr4 b) \<in>
    set (snd (snapshot_answer \<lparr> qName = ''router.'' @ tenantDNSDomain acc, qType = TypeA \<rparr> (buildTenantDNSSnapshot acc serverIP peers)))"
  using peer_answer [OF assms(1,2), of "''router''" acc serverIP] assms(3) by (simp add: peer_labels_def)

text \<open>An account with the server at 10.0.0.1 and a peer at 10.0.0.5 that is called like the gateway.\<close>

definition demo_peer :: tenantDNSPeerRecord where
  "demo_peer = \<lparr> PeerID = ''p1'', peerName = ''Router'', AssignedIP = ''10.0.0.5/32'' \<rparr>"

lemma demo_address: "parseAssignedIP (AssignedIP demo_peer) = Some (Addr4 [10, 0, 0, 5])"
  by code_simp

lemma demo_label: "sanitizeDNSLabel (peerName demo_peer) = ''router''"
  by code_simp

theorem dns_router_captured_witness:
  "addr_answer (''router.'' @ tenantDNSDomain ''Acme Corp'') TypeA (Addr4 [10, 0, 0, 5]) \<in>
    set (snd (snapshot_answer \<lparr> qName = ''router.'' @ tenantDNSDomain ''Acme Corp'', qType = TypeA \<rparr>
      (buildTenantDNSSnapshot ''Acme Corp'' (Addr4 [10, 0, 0, 1]) [demo_peer])))"
  by (rule dns_router_captured [OF _ demo_address demo_label]) simp

theorem dns_forward_confirmed_witness:
  "\<exists>ptr. snapshot_answer \<lparr> qName = reversePTRName (Addr4 [10, 0, 0, 5]), qType = TypePTR \<rparr> (buildTenantDNSSnapshot ''Acme Corp'' (Addr4 [10, 0, 0, 1]) [demo_peer]) =
      (RCodeSuccess, [ptr_answer (reversePTRName (Addr4 [10, 0, 0, 5])) ptr]) \<and>
    addr_answer ptr TypeA (Addr4 [10, 0, 0, 5]) \<in>
      set (snd (snapshot_answer \<lparr> qName = ptr, qType = TypeA \<rparr> (buildTenantDNSSnapshot ''Acme Corp'' (Addr4 [10, 0, 0, 1]) [demo_peer])))"
  by (rule dns_forward_confirmed [OF _ _ demo_address]) (simp_all add: addr_ok_def)

theorem dns_confined_witness:
  "Addr4 [10, 0, 0, 5] = Addr4 [10, 0, 0, 1] \<or> (\<exists>p\<in>set [demo_peer]. parseAssignedIP (AssignedIP p) = Some (Addr4 [10, 0, 0, 5]))"
proof -
  let ?n = "''router'' @ ''.'' @ tenantDNSDomain ''Acme Corp''"
  let ?r = "snapshot_answer \<lparr> qName = ?n, qType = TypeA \<rparr> (buildTenantDNSSnapshot ''Acme Corp'' (Addr4 [10, 0, 0, 1]) [demo_peer])"
  have x: "addr_answer ?n TypeA (Addr4 [10, 0, 0, 5]) \<in> set (snd ?r)"
    by (rule peer_answer [OF _ demo_address]) (simp_all add: peer_labels_def demo_label)
  have "aaddr (addr_answer ?n TypeA (Addr4 [10, 0, 0, 5])) = Addr4 [10, 0, 0, 1] \<or>
    (\<exists>p\<in>set [demo_peer]. parseAssignedIP (AssignedIP p) = Some (aaddr (addr_answer ?n TypeA (Addr4 [10, 0, 0, 5]))))"
    by (rule dns_confined [OF _ surjective_pairing x]) (simp_all add: IsValid_def addr_answer_def)
  then show ?thesis by (simp add: addr_answer_def)
qed

text \<open>A resolver that knows every name.\<close>

definition demo_resolver :: tenantDNSResolver where
  "demo_resolver = \<lparr> LookupNetIP = (\<lambda>_ _. Inr [Addr4 [1, 1, 1, 1]]), LookupAddr = (\<lambda>_. Inr [''one.one'']) \<rparr>"

theorem dns_no_leak_witness:
  "resolveQuestion (Some demo_resolver) (buildTenantDNSSnapshot ''Acme Corp'' (Addr4 [10, 0, 0, 1]) []) \<lparr> qName = ''db.wantastic.internal.'', qType = OtherType 15 \<rparr> =
    (fst (snapshot_answer \<lparr> qName = ''db.wantastic.internal.'', qType = OtherType 15 \<rparr> (buildTenantDNSSnapshot ''Acme Corp'' (Addr4 [10, 0, 0, 1]) [])), True, True,
     snd (snapshot_answer \<lparr> qName = ''db.wantastic.internal.'', qType = OtherType 15 \<rparr> (buildTenantDNSSnapshot ''Acme Corp'' (Addr4 [10, 0, 0, 1]) [])))"
proof (rule dns_no_leak)
  show "normalizeDNSName (qName \<lparr> qName = ''db.wantastic.internal.'', qType = OtherType 15 \<rparr>) = tenantDNSDomainBase \<or>
    HasSuffix (normalizeDNSName (qName \<lparr> qName = ''db.wantastic.internal.'', qType = OtherType 15 \<rparr>)) (''.'' @ tenantDNSDomainBase)" by code_simp
qed

end
