(* ===== verification/Tenant_Dns_Server.thy ===== *)
theory Tenant_Dns_Server
  imports Tenant_Dns
begin

text \<open>
  The two listeners of \<open>src/internal/server/tenant_dns.go\<close> as functions of one datagram and of one connection, runs of a server
  (queries and invalidations in the order of the lock, each with the peers of its moment), and what holds along them: how old an answer can be, and that no
  query stops the process.
\<close>

section \<open>The listeners\<close>

text \<open>A datagram is cut to the buffer; the reply is one datagram.\<close>

definition serveUDP :: "dnsmessage \<Rightarrow> (string \<Rightarrow> tenantDNSPeerRecord list) \<Rightarrow> gotime \<Rightarrow> byte list \<Rightarrow> tenantDNSServer \<Rightarrow> tenantDNSServer \<times> dns_result" where
  "serveUDP lib peerIndex now datagram s =
     (let (s', r) = handleQuery lib peerIndex now (take 2048 datagram) s in (s', if r = DnsReply [] then DnsNothing else r))"

text \<open>A connection carries one query and one reply, each after two bytes of length.\<close>

definition tcp_frame :: "byte list \<Rightarrow> byte list" where
  "tcp_frame resp = of_nat (length resp div 256) # of_nat (length resp) # resp"

definition serveTCP :: "dnsmessage \<Rightarrow> (string \<Rightarrow> tenantDNSPeerRecord list) \<Rightarrow> gotime \<Rightarrow> byte list \<Rightarrow> tenantDNSServer \<Rightarrow> tenantDNSServer \<times> dns_result" where
  "serveTCP lib peerIndex now input s =
     (case input of
        h # l # rest \<Rightarrow>
          (let msgLen = unat h * 256 + unat l in
           if msgLen = 0 \<or> 4096 < msgLen then (s, DnsNothing)
           else if length rest < msgLen then (s, DnsNothing)
           else let (s', r) = handleQuery lib peerIndex now (take msgLen rest) s in
             (s', case r of DnsReply resp \<Rightarrow> if resp = [] then DnsNothing else DnsReply (tcp_frame resp) | _ \<Rightarrow> r))
      | _ \<Rightarrow> (s, DnsNothing))"

section \<open>Runs\<close>

text \<open>
  \<open>dns_run lib world s0 i t s\<close>: the server \<open>s0\<close> has come to \<open>s\<close> by time \<open>t\<close>, and was last invalidated (or started) at \<open>i\<close>. The peers of an account at a time are
  \<open>world\<close>.
\<close>

inductive dns_run :: "dnsmessage \<Rightarrow> (gotime \<Rightarrow> string \<Rightarrow> tenantDNSPeerRecord list) \<Rightarrow> tenantDNSServer \<Rightarrow> gotime \<Rightarrow> gotime \<Rightarrow> tenantDNSServer \<Rightarrow> bool"
  for lib world s0 where
  started: "dns_cached s0 = None \<Longrightarrow> dns_run lib world s0 t t s0"
| datagram: "dns_run lib world s0 i t s \<Longrightarrow> t \<le> now \<Longrightarrow> dns_run lib world s0 i now (fst (serveUDP lib (world now) now msg s))"
| connection: "dns_run lib world s0 i t s \<Longrightarrow> t \<le> now \<Longrightarrow> dns_run lib world s0 i now (fst (serveTCP lib (world now) now input s))"
| invalidated: "dns_run lib world s0 i t s \<Longrightarrow> t \<le> now \<Longrightarrow> dns_run lib world s0 now now (invalidate s)"

text \<open>What a server holds is the snapshot of a moment since the last invalidation, and expires a minute after that moment.\<close>

definition server_ok :: "(gotime \<Rightarrow> string \<Rightarrow> tenantDNSPeerRecord list) \<Rightarrow> tenantDNSServer \<Rightarrow> gotime \<Rightarrow> gotime \<Rightarrow> tenantDNSServer \<Rightarrow> bool" where
  "server_ok world s0 i t s \<longleftrightarrow> i \<le> t \<and> accountID s = accountID s0 \<and> device s = device s0 \<and> resolver s = resolver s0 \<and>
     (\<forall>c. dns_cached s = Some c \<longrightarrow>
        (\<exists>t0. i \<le> t0 \<and> t0 \<le> t \<and> dns_expires s = t0 + minute \<and>
              c = buildTenantDNSSnapshot (accountID s0) (DeviceIP (device s0)) (world t0 (accountID s0))))"

lemma snapshot_step:
  assumes "server_ok world s0 i t s" and "t \<le> now"
  shows "server_ok world s0 i now (fst (snapshot (world now) now s))"
    and "\<exists>t0. i \<le> t0 \<and> t0 \<le> now \<and> now - minute < t0 \<and>
           snd (snapshot (world now) now s) = buildTenantDNSSnapshot (accountID s0) (DeviceIP (device s0)) (world t0 (accountID s0))"
proof -
  have i: "i \<le> now" using assms by (simp add: server_ok_def)
  have m: "(0 :: int) < minute" by (simp add: time_defs)
  have id: "accountID s = accountID s0" "device s = device s0" using assms(1) by (simp_all add: server_ok_def)
  have "server_ok world s0 i now (fst (snapshot (world now) now s)) \<and> (\<exists>t0. i \<le> t0 \<and> t0 \<le> now \<and> now - minute < t0 \<and>
           snd (snapshot (world now) now s) = buildTenantDNSSnapshot (accountID s0) (DeviceIP (device s0)) (world t0 (accountID s0)))"
  proof (cases "dns_cached s \<noteq> None \<and> now < dns_expires s")
    case True
    then obtain c where c: "dns_cached s = Some c" "snapshot (world now) now s = (s, c)" by (auto simp: snapshot_def Before_def)
    then obtain t0 where "i \<le> t0" "t0 \<le> t" "dns_expires s = t0 + minute" "c = buildTenantDNSSnapshot (accountID s0) (DeviceIP (device s0)) (world t0 (accountID s0))"
      using assms(1) unfolding server_ok_def by blast
    then show ?thesis using True c assms i by (force simp: server_ok_def)
  next
    case False
    then have "snapshot (world now) now s =
        (s\<lparr> dns_cached := Some (buildTenantDNSSnapshot (accountID s0) (DeviceIP (device s0)) (world now (accountID s0))), dns_expires := now + minute \<rparr>,
         buildTenantDNSSnapshot (accountID s0) (DeviceIP (device s0)) (world now (accountID s0)))"
      by (auto simp: snapshot_def Before_def tenantDNSCacheTTL_def Let_def id split: option.split)
    then show ?thesis using assms i m by (auto simp: server_ok_def intro!: exI [of _ now])
  qed
  then show "server_ok world s0 i now (fst (snapshot (world now) now s))"
    and "\<exists>t0. i \<le> t0 \<and> t0 \<le> now \<and> now - minute < t0 \<and>
           snd (snapshot (world now) now s) = buildTenantDNSSnapshot (accountID s0) (DeviceIP (device s0)) (world t0 (accountID s0))" by blast+
qed

lemma query_state: "fst (handleQuery lib idx now msg s) = s \<or> fst (handleQuery lib idx now msg s) = fst (snapshot idx now s)"
  by (auto simp: handleQuery_def Let_def split: option.split prod.split)

lemma server_ok_later: "server_ok world s0 i t s \<Longrightarrow> t \<le> now \<Longrightarrow> server_ok world s0 i now s"
  by (force simp: server_ok_def)

lemma query_ok: "server_ok world s0 i t s \<Longrightarrow> t \<le> now \<Longrightarrow> server_ok world s0 i now (fst (handleQuery lib (world now) now msg s))"
  using query_state [of lib "world now" now msg s] snapshot_step(1) [of world s0 i t s now] server_ok_later by metis

lemma udp_state: "fst (serveUDP lib idx now msg s) = fst (handleQuery lib idx now (take 2048 msg) s)"
  by (simp add: serveUDP_def split: prod.split)

lemma tcp_state: "\<exists>m. fst (serveTCP lib idx now input s) \<in> {s, fst (handleQuery lib idx now m s)}"
proof (cases "serveTCP lib idx now input s = (s, DnsNothing)")
  case False
  then obtain h l rest where "input = h # l # rest" by (cases input rule: remdups_adj.cases) (auto simp: serveTCP_def)
  then show ?thesis using False by (intro exI [of _ "take (unat h * 256 + unat l) rest"]) (auto simp: serveTCP_def Let_def split: if_splits prod.split)
qed simp

lemma run_ok: "dns_run lib world s0 i t s \<Longrightarrow> server_ok world s0 i t s"
proof (induction rule: dns_run.induct)
  case (connection i t s now input)
  then show ?case using tcp_state [of lib "world now" now input s] query_ok server_ok_later by (metis insertE singletonD)
qed (auto simp: udp_state query_ok server_ok_def [of _ _ _ _ "invalidate s" for s] invalidate_def, auto simp: server_ok_def)


section \<open>How old an answer can be\<close>

text \<open>
  C33. A query at a time is answered from the names of the account as they were at some moment of the last minute, and not before the last invalidation:
  a change that is followed by an invalidation is seen by every later query, any other one after at most a minute.
\<close>

theorem dns_freshness:
  assumes "dns_run lib world s0 i t s" and "t \<le> now"
  shows "\<exists>t0. i \<le> t0 \<and> t0 \<le> now \<and> now - minute < t0 \<and>
    snd (snapshot (world now) now s) = buildTenantDNSSnapshot (accountID s0) (DeviceIP (device s0)) (world t0 (accountID s0))"
  using snapshot_step(2) [OF run_ok [OF assms(1)] assms(2)] .

section \<open>No query stops the process\<close>

lemma TrimSuffix_length: "length (TrimSuffix s x) \<le> length s"
  by (simp add: TrimSuffix_def)

lemma TrimSpace_length: "length (TrimSpace s) \<le> length s"
  using length_dropWhile_le [of is_space s] length_dropWhile_le [of is_space "rev (dropWhile is_space s)"]
  by (simp add: TrimSpace_def TrimRight_def TrimLeft_def)

lemma normalize_length: "length (normalizeDNSName n) \<le> length n"
  using TrimSuffix_length [of "ToLower (TrimSpace n)" "''.''"] TrimSpace_length [of n] by (simp add: normalizeDNSName_def ToLower_def)

lemma TrimSpace_dot: "\<exists>u. TrimSpace (n @ ''.'') = u @ ''.'' \<and> length u \<le> length n"
proof -
  have dot: "\<not> is_space (CHR ''.'')" by (simp add: is_space_def code_def)
  have "dropWhile is_space (n @ ''.'') = dropWhile is_space n @ ''.''"
    using dot by (induction n) auto
  then show ?thesis using dot by (auto simp: TrimSpace_def TrimRight_def TrimLeft_def length_dropWhile_le)
qed

text \<open>
  A name as the parser gives it. Names are ASCII here: Go's \<open>strings.ToLower\<close> replaces every byte that is not valid UTF-8 by three
  bytes, so a name of other bytes can grow beyond what \<open>NewName\<close> takes.
\<close>

definition ascii :: "string \<Rightarrow> bool" where
  "ascii s \<longleftrightarrow> list_all (\<lambda>c. code c < 128) s"

definition wire_name :: "string \<Rightarrow> bool" where
  "wire_name n \<longleftrightarrow> ascii n \<and> length n \<le> 255 \<and> HasSuffix n ''.''"

lemma normal_length:
  assumes "wire_name n"
  shows "length (normalizeDNSName n) \<le> 254"
proof -
  obtain m where m: "n = m @ ''.''" using assms unfolding wire_name_def HasSuffix_def by (metis append_take_drop_id)
  then obtain u where u: "TrimSpace n = u @ ''.''" "length u \<le> length m" using TrimSpace_dot by blast
  have "lower_char (CHR ''.'') = CHR ''.''" by (simp add: lower_char_def code_def)
  then have "normalizeDNSName n = ToLower u" using u(1) by (simp add: normalizeDNSName_def ToLower_def suffix_append(2))
  then show ?thesis using u(2) m assms by (auto simp: wire_name_def ToLower_def)
qed

lemma normal_fits: "wire_name n \<Longrightarrow> length (ensureTrailingDot (normalizeDNSName n)) \<le> 255"
  using normal_length [of n] by (auto simp: ensureTrailingDot_def)

lemma short_fits: "length n \<le> 254 \<Longrightarrow> length (ensureTrailingDot (normalizeDNSName n)) \<le> 255"
  using normalize_length [of n] by (auto simp: ensureTrailingDot_def)

text \<open>The names that reverse lookups lead to are short.\<close>

lemma domain_length: "length (tenantDNSDomain acc) \<le> 82"
  using sanitized_label [of acc] by (auto simp: tenantDNSDomain_def Let_def tenantDNSDomainBase_def dns_label_def)

lemma utoa_length: "n < 1000 \<Longrightarrow> length (utoa n) \<le> 3"
  by (subst utoa.simps, simp, subst utoa.simps, simp, subst utoa.simps, simp)

lemma synthetic_length:
  assumes "length b = 4"
  shows "length (syntheticPeerHost (Addr4 b)) \<le> 20"
proof -
  obtain w x y z where b: "b = [w, x, y, z]" using assms by (rule list4_cases)
  have "length (utoa (unat c)) \<le> 3" for c :: byte by (rule utoa_length, rule order_less_le_trans [OF unat_byte_lt]) simp
  from this [of w] this [of x] this [of y] this [of z] show ?thesis
    by (simp add: syntheticPeerHost_def IsValid_def Addr_String_def v4_String_def b)
qed

lemma first_label_length:
  assumes "parseAssignedIP (AssignedIP p) = Some a" and "Is4 a"
  shows "length (hd (peer_labels p a)) \<le> 63"
proof -
  obtain b where b: "a = Addr4 b" using assms(2) by (auto simp: Is4_def split: Addr.splits)
  then have "length b = 4" using parsed_valid(2) [OF assms(1)] by blast
  then show ?thesis using synthetic_length [of b] sanitized_label [of "peerName p"] by (auto simp: peer_labels_def Let_def dns_label_def b)
qed

definition targets_short :: "string \<Rightarrow> tenantDNSSnapshot \<Rightarrow> bool" where
  "targets_short acc s \<longleftrightarrow> domain s = tenantDNSDomain acc \<and> (\<forall>k t. fmlookup (reverse s) k = Some t \<longrightarrow> length t \<le> 146)"

lemma peer_short:
  assumes "targets_short acc s"
  shows "targets_short acc (add_peer p s)"
proof (cases "parseAssignedIP (AssignedIP p)")
  case (Some a)
  then show ?thesis using assms first_label_length [OF Some] domain_length [of acc] by (auto simp: targets_short_def add_peer_alt [OF Some] Let_def split: if_splits)
qed (use assms in \<open>simp add: add_peer_def\<close>)

lemma built_short: "targets_short acc (buildTenantDNSSnapshot acc serverIP peers)"
proof -
  have "targets_short acc (server_snapshot acc serverIP)"
    using domain_length [of acc] by (auto simp: targets_short_def server_snapshot_def Let_def split: if_splits)
  then have "targets_short acc (fold add_peer peers (server_snapshot acc serverIP))"
    by (induction peers arbitrary: serverIP rule: rev_induct) (auto intro: peer_short)
  then show ?thesis by (simp add: buildTenantDNSSnapshot_def)
qed

text \<open>
  What the code relies on: the library takes a name of up to 255 characters, the names of a parsed message have at most 255 and end with a dot, and the resolver returns
  ASCII names of at most 254. The question of a query is named in ASCII.
\<close>

definition lib_ok :: "dnsmessage \<Rightarrow> bool" where
  "lib_ok lib \<longleftrightarrow> (\<forall>n. length n \<le> 255 \<longrightarrow> NewName lib n \<noteq> None) \<and>
     (\<forall>msg h qs. Parse lib msg = Some (h, qs) \<longrightarrow> (\<forall>q\<in>set qs. length (qName q) \<le> 255 \<and> HasSuffix (qName q) ''.''))"

definition resolver_ok :: "tenantDNSResolver option \<Rightarrow> bool" where
  "resolver_ok r \<longleftrightarrow> (\<forall>u a ns. r = Some u \<and> LookupAddr u a = Inr ns \<longrightarrow> (\<forall>n\<in>set ns. ascii n \<and> length n \<le> 254))"

definition ascii_query :: "dnsmessage \<Rightarrow> byte list \<Rightarrow> bool" where
  "ascii_query lib msg \<longleftrightarrow> (case Parse lib msg of None \<Rightarrow> True | Some (h, qs) \<Rightarrow> list_all (\<lambda>q. ascii (qName q)) qs)"

fun tcp_query :: "byte list \<Rightarrow> byte list" where
  "tcp_query (h # l # rest) = take (unat h * 256 + unat l) rest"
| "tcp_query _ = []"

definition answer_fits :: "dnsAnswer \<Rightarrow> bool" where
  "answer_fits a \<longleftrightarrow> length (ensureTrailingDot (normalizeDNSName (aname a))) \<le> 255 \<and> length (ensureTrailingDot (normalizeDNSName (aptr a))) \<le> 255"

definition typed :: "dnsAnswer \<Rightarrow> bool" where
  "typed a \<longleftrightarrow> (atyp a = TypeA \<longrightarrow> Is4 (aaddr a))"

lemma fits_appended: "lib_ok lib \<Longrightarrow> \<forall>a\<in>set as. answer_fits a \<and> typed a \<Longrightarrow> append_all lib as \<noteq> None"
proof (induction as)
  case (Cons a as)
  have "NewName lib (ensureTrailingDot (normalizeDNSName (aname a))) \<noteq> None" "NewName lib (ensureTrailingDot (normalizeDNSName (aptr a))) \<noteq> None"
    using Cons.prems by (auto simp: lib_ok_def answer_fits_def)
  moreover have "As4 (aaddr a) \<noteq> None" if "atyp a = TypeA" using that Cons.prems(2) by (auto simp: typed_def Is4_def As4_def split: Addr.splits)
  ultimately have "answer_append lib a \<noteq> None" by (auto simp: answer_append_def mustDNSName_def split: qtype.split)
  then show ?case using Cons by auto
qed simp

text \<open>Every answer carries an address of its type.\<close>

lemma local_typed: "x \<in> set (snd (snapshot_answer q s)) \<Longrightarrow> typed x"
  by (cases "qType q") (auto simp: typed_def snapshot_answer_def answerAddress_def answerAll_def addr_answer_def ptr_answer_def Let_def split: option.splits if_splits)

lemma resolved_typed:
  assumes "resolveQuestion r s q = (rc, auth, rec, as)" and "x \<in> set as"
  shows "typed x"
proof (cases "as = snd (snapshot_answer q s)")
  case False
  then obtain rc' u where "resolveUpstreamQuestion (Some u) s q = Some (rc', as)"
    using assms(1) by (cases r) (auto simp: resolveQuestion_def resolveUpstreamQuestion_def Let_def split: prod.splits if_splits option.splits)
  then consider h w where "lookupUpstreamIPs u (qName q) h w = (rc', as)" | a where "lookupUpstreamPTR u (qName q) a = (rc', as)"
    by (cases "qType q") (auto simp: resolveUpstreamQuestion_def Let_def split: if_splits)
  then show ?thesis using assms(2)
    by cases (auto simp: lookupUpstreamIPs_def lookupUpstreamPTR_def typed_def addr_answer_def ptr_answer_def split: if_splits sum.splits)
qed (use assms(2) local_typed in blast)

lemma empty_fits: "length (ensureTrailingDot (normalizeDNSName '''')) \<le> 255"
  by (rule short_fits) simp

lemma local_fits:
  assumes "wire_name (qName q)" and "targets_short acc s" and "x \<in> set (snd (snapshot_answer q s))"
  shows "answer_fits x"
proof (cases "aname x = normalizeDNSName (qName q) \<and> aptr x = ''''")
  case True
  then show ?thesis using empty_fits short_fits [OF normal_length [OF assms(1)]] by (simp add: answer_fits_def)
next
  case False
  then obtain t where "fmlookup (reverse s) (normalizeDNSName (qName q)) = Some t" "x = ptr_answer (qName q) t"
    using assms(3) by (cases "qType q") (auto simp: snapshot_answer_def answerAddress_def answerAll_def addr_answer_def Let_def split: option.splits if_splits)
  then show ?thesis using assms(2) normal_fits [OF assms(1)] short_fits [of t] by (fastforce simp: answer_fits_def ptr_answer_def targets_short_def)
qed

lemma upstream_ips: "x \<in> set (snd (lookupUpstreamIPs u n h w)) \<Longrightarrow> aname x = n \<and> length (aptr x) \<le> 254"
  by (auto simp: lookupUpstreamIPs_def addr_answer_def split: sum.splits if_splits)

lemma upstream_ptr: "resolver_ok (Some u) \<Longrightarrow> x \<in> set (snd (lookupUpstreamPTR u n a)) \<Longrightarrow> aname x = n \<and> length (aptr x) \<le> 254"
  using order_trans [OF normalize_length] by (auto simp: lookupUpstreamPTR_def ptr_answer_def resolver_ok_def split: sum.splits)

lemma upstream_fits:
  assumes "wire_name (qName q)" and "resolver_ok r" and "resolveUpstreamQuestion r s q = Some as" and "x \<in> set (snd as)"
  shows "answer_fits x"
proof -
  obtain u where "r = Some u" using assms(3) by (cases r) (simp_all add: resolveUpstreamQuestion_def)
  then have "aname x = qName q \<and> length (aptr x) \<le> 254"
    using assms(2-4) upstream_ips upstream_ptr [of u x]
    by (cases "qType q") (auto simp: resolveUpstreamQuestion_def Let_def split: if_splits)
  then show ?thesis using normal_fits [OF assms(1)] short_fits by (simp add: answer_fits_def)
qed

lemma resolved_fits:
  assumes "wire_name (qName q)" and "resolver_ok r" and "targets_short acc s" and "resolveQuestion r s q = (rc, auth, rec, as)"
  shows "\<forall>x\<in>set as. answer_fits x"
proof (cases "as = snd (snapshot_answer q s)")
  case True
  then show ?thesis using local_fits [OF assms(1,3)] by simp
next
  case False
  then obtain rc' where "resolveUpstreamQuestion r s q = Some (rc', as)"
    using assms(4) by (auto simp: resolveQuestion_def Let_def split: prod.splits if_splits option.splits)
  then show ?thesis using upstream_fits [OF assms(1,2)] by fastforce
qed

lemma query_no_panic:
  assumes "server_ok world s0 i t s" and "t \<le> now" and "lib_ok lib" and "resolver_ok (resolver s0)" and "ascii_query lib msg"
  shows "snd (handleQuery lib (world now) now msg s) \<noteq> DnsPanic"
proof (cases "Parse lib msg")
  case (Some r)
  obtain h qs where r: "r = (h, qs)" by (cases r)
  obtain s' snap where sn: "snapshot (world now) now s = (s', snap)" by (cases "snapshot (world now) now s")
  have snap: "targets_short (accountID s0) snap" using snapshot_step(2) [OF assms(1,2)] built_short by (auto simp: sn)
  have res: "resolver s = resolver s0" using assms(1) by (simp add: server_ok_def)
  obtain rc auth rec as where a: "resolveQuestion (resolver s0) snap (hd qs) = (rc, auth, rec, as)" by (metis prod_cases4)
  show ?thesis
  proof (cases "qs = []")
    case False
    then have "hd qs \<in> set qs" by simp
    then have "wire_name (qName (hd qs))" using assms(3,5) Some r unfolding lib_ok_def by (auto simp: ascii_query_def wire_name_def list_all_iff)
    then have "append_all lib as \<noteq> None" using fits_appended [OF assms(3)] resolved_fits [OF _ assms(4) snap a] resolved_typed [OF a] by blast
    then show ?thesis using Some r False by (auto simp: handleQuery_def sn a res split: option.split)
  qed (use Some r in \<open>simp add: handleQuery_def\<close>)
qed (simp add: handleQuery_def)


text \<open>A server that has answered one query, with a library that reads any message as a question for the root.\<close>

definition demo_lib :: dnsmessage where
  "demo_lib = \<lparr> Parse = (\<lambda>_. Some (\<lparr> hid = 1, RecursionDesired = True \<rparr>, [\<lparr> qName = ''router.'', qType = TypeA \<rparr>])),
     NewName = (\<lambda>n. if length n \<le> 255 then Some n else None), Build = (\<lambda>h qs rs. Some [0]) \<rparr>"

definition demo_server :: tenantDNSServer where
  "demo_server = the (newTenantDNSServer (Some demo_resolver) True True ''Acme Corp'' (Some \<lparr> device_ptr = 1, DeviceIP = Addr4 [10, 0, 0, 1] \<rparr>))"

lemma demo_run: "dns_run demo_lib (\<lambda>_ _. [demo_peer]) demo_server 5 7 (fst (serveUDP demo_lib (\<lambda>_. [demo_peer]) 7 [1] (invalidate demo_server)))"
  by (rule dns_run.datagram [where t = 5], rule dns_run.invalidated [where t = 3], rule dns_run.started)
    (simp_all add: demo_server_def newTenantDNSServer_def)

theorem dns_freshness_witness:
  "\<exists>t0. 5 \<le> t0 \<and> t0 \<le> 9 \<and> 9 - minute < t0 \<and>
    snd (snapshot (\<lambda>_. [demo_peer]) 9 (fst (serveUDP demo_lib (\<lambda>_. [demo_peer]) 7 [1] (invalidate demo_server)))) =
      buildTenantDNSSnapshot (accountID demo_server) (DeviceIP (device demo_server)) [demo_peer]"
  using dns_freshness [OF demo_run, of 9] by simp


end
