(* ===== verification/Tenant_Dns_Registry.thy ===== *)
theory Tenant_Dns_Registry
  imports Tenant_Dns_Server "HOL-Library.List_Lexorder" "HOL-Library.Char_ord"
begin

text \<open>
  The name servers of all accounts, as \<open>src/internal/server/server.go\<close> keeps them: the peers of each account by their key, the running server of each account, the
  operations that change either, and runs that mix them with queries. The order in which Go walks a map is a parameter, a function that lists the values of a map.
\<close>

record PeerMetadata =
  pmID :: string
  pmAccountID :: string
  pmName :: string
  pmAssignedIP :: string

record dns_registry =
  tenantDNSPeers :: "(string, (string, tenantDNSPeerRecord) fmap) fmap"
  tenantDNS :: "(string, tenantDNSServer) fmap"

type_synonym map_order = "(string, tenantDNSPeerRecord) fmap \<Rightarrow> tenantDNSPeerRecord list"

definition order_ok :: "map_order \<Rightarrow> bool" where
  "order_ok order \<longleftrightarrow> (\<forall>m. set (order m) = fmran' m)"

definition peer_record :: "PeerMetadata \<Rightarrow> tenantDNSPeerRecord" where
  "peer_record p = \<lparr> PeerID = pmID p, peerName = pmName p, AssignedIP = pmAssignedIP p \<rparr>"

definition listTenantDNSPeers :: "map_order \<Rightarrow> dns_registry \<Rightarrow> string \<Rightarrow> tenantDNSPeerRecord list" where
  "listTenantDNSPeers order r acc = (case fmlookup (tenantDNSPeers r) acc of None \<Rightarrow> [] | Some records \<Rightarrow> order records)"

definition upsertTenantDNSPeer :: "PeerMetadata option \<Rightarrow> dns_registry \<Rightarrow> dns_registry" where
  "upsertTenantDNSPeer peer r =
     (case peer of
        None \<Rightarrow> r
      | Some p \<Rightarrow>
          if pmAccountID p = '''' \<or> pmID p = '''' then r
          else let records = (case fmlookup (tenantDNSPeers r) (pmAccountID p) of None \<Rightarrow> fmempty | Some m \<Rightarrow> m) in
            r\<lparr> tenantDNSPeers := fmupd (pmAccountID p) (fmupd (pmID p) (peer_record p) records) (tenantDNSPeers r) \<rparr>)"

definition removeTenantDNSPeer :: "string \<Rightarrow> string \<Rightarrow> dns_registry \<Rightarrow> dns_registry" where
  "removeTenantDNSPeer acc peerID r =
     (if acc = '''' \<or> peerID = '''' then r
      else case fmlookup (tenantDNSPeers r) acc of
             None \<Rightarrow> r
           | Some peers \<Rightarrow>
               let peers' = fmdrop peerID peers in
               r\<lparr> tenantDNSPeers := if fmdom peers' = {||} then fmdrop acc (tenantDNSPeers r) else fmupd acc peers' (tenantDNSPeers r) \<rparr>)"

definition collect_records :: "PeerMetadata option list \<Rightarrow> (string, tenantDNSPeerRecord) fmap" where
  "collect_records peers =
     fold (\<lambda>peer m. case peer of None \<Rightarrow> m | Some p \<Rightarrow> if pmID p = '''' then m else fmupd (pmID p) (peer_record p) m) peers fmempty"

definition resetTenantDNSPeers :: "string \<Rightarrow> PeerMetadata option list \<Rightarrow> dns_registry \<Rightarrow> dns_registry" where
  "resetTenantDNSPeers acc peers r =
     (if peers = [] then r\<lparr> tenantDNSPeers := fmdrop acc (tenantDNSPeers r) \<rparr>
      else let records = collect_records peers in
        if fmdom records = {||} then r\<lparr> tenantDNSPeers := fmdrop acc (tenantDNSPeers r) \<rparr>
        else r\<lparr> tenantDNSPeers := fmupd acc records (tenantDNSPeers r) \<rparr>)"

definition clearTenantDNSPeers :: "string \<Rightarrow> dns_registry \<Rightarrow> dns_registry" where
  "clearTenantDNSPeers acc r = r\<lparr> tenantDNSPeers := fmdrop acc (tenantDNSPeers r) \<rparr>"

definition invalidateTenantDNS :: "string \<Rightarrow> dns_registry \<Rightarrow> dns_registry" where
  "invalidateTenantDNS acc r =
     (case fmlookup (tenantDNS r) acc of None \<Rightarrow> r | Some s \<Rightarrow> r\<lparr> tenantDNS := fmupd acc (invalidate s) (tenantDNS r) \<rparr>)"

text \<open>A server of the same device is kept, one of another device is stopped first, and then gone even when the new one cannot be started.\<close>

definition ensureTenantDNS :: "tenantDNSResolver option \<Rightarrow> bool \<Rightarrow> bool \<Rightarrow> string \<Rightarrow> TenantDevice option \<Rightarrow> dns_registry \<Rightarrow> dns_registry" where
  "ensureTenantDNS upstream udp_ok tcp_ok acc dev r =
     (if (case fmlookup (tenantDNS r) acc of None \<Rightarrow> False | Some s \<Rightarrow> map_option device_ptr dev = Some (device_ptr (device s))) then r
      else let r1 = r\<lparr> tenantDNS := fmdrop acc (tenantDNS r) \<rparr> in
        case newTenantDNSServer upstream udp_ok tcp_ok acc dev of
          None \<Rightarrow> r1
        | Some s \<Rightarrow> r1\<lparr> tenantDNS := fmupd acc s (tenantDNS r1) \<rparr>)"

definition stopTenantDNS :: "string \<Rightarrow> dns_registry \<Rightarrow> dns_registry" where
  "stopTenantDNS acc r = r\<lparr> tenantDNS := fmdrop acc (tenantDNS r) \<rparr>"

definition stopAllTenantDNS :: "dns_registry \<Rightarrow> dns_registry" where
  "stopAllTenantDNS r = r\<lparr> tenantDNS := fmempty \<rparr>"

text \<open>A query to the server of an account: it lists the peers of the account when its snapshot is too old.\<close>

definition dns_query :: "dnsmessage \<Rightarrow> map_order \<Rightarrow> gotime \<Rightarrow> byte list \<Rightarrow> string \<Rightarrow> dns_registry \<Rightarrow> dns_registry \<times> dns_result" where
  "dns_query lib order now msg acc r =
     (case fmlookup (tenantDNS r) acc of
        None \<Rightarrow> (r, DnsNothing)
      | Some s \<Rightarrow> (let (s', res) = handleQuery lib (listTenantDNSPeers order r) now msg s in (r\<lparr> tenantDNS := fmupd acc s' (tenantDNS r) \<rparr>, res)))"

section \<open>Runs\<close>

datatype dns_op =
    OpUpsert "PeerMetadata option"
  | OpRemove string string
  | OpReset string "PeerMetadata option list"
  | OpClear string
  | OpInvalidate string
  | OpEnsure "tenantDNSResolver option" bool bool string "TenantDevice option"
  | OpStop string
  | OpStopAll
  | OpQuery gotime "byte list" string

fun dns_apply :: "dnsmessage \<Rightarrow> map_order \<Rightarrow> dns_op \<Rightarrow> dns_registry \<Rightarrow> dns_registry" where
  "dns_apply lib order (OpUpsert p) r = upsertTenantDNSPeer p r"
| "dns_apply lib order (OpRemove acc k) r = removeTenantDNSPeer acc k r"
| "dns_apply lib order (OpReset acc ps) r = resetTenantDNSPeers acc ps r"
| "dns_apply lib order (OpClear acc) r = clearTenantDNSPeers acc r"
| "dns_apply lib order (OpInvalidate acc) r = invalidateTenantDNS acc r"
| "dns_apply lib order (OpEnsure u x y acc d) r = ensureTenantDNS u x y acc d r"
| "dns_apply lib order (OpStop acc) r = stopTenantDNS acc r"
| "dns_apply lib order OpStopAll r = stopAllTenantDNS r"
| "dns_apply lib order (OpQuery now msg acc) r = fst (dns_query lib order now msg acc r)"

definition dns_ops :: "dnsmessage \<Rightarrow> map_order \<Rightarrow> dns_op list \<Rightarrow> dns_registry \<Rightarrow> dns_registry" where
  "dns_ops lib order ops r = fold (dns_apply lib order) ops r"

text \<open>The peers of an account, and the step that gives one an address.\<close>

definition records_of :: "string \<Rightarrow> dns_registry \<Rightarrow> tenantDNSPeerRecord set" where
  "records_of acc r = (case fmlookup (tenantDNSPeers r) acc of None \<Rightarrow> {} | Some m \<Rightarrow> fmran' m)"

definition has_address :: "Addr \<Rightarrow> PeerMetadata option \<Rightarrow> bool" where
  "has_address a peer \<longleftrightarrow> (case peer of None \<Rightarrow> False | Some p \<Rightarrow> parseAssignedIP (pmAssignedIP p) = Some a)"

fun brings :: "string \<Rightarrow> Addr \<Rightarrow> dns_op \<Rightarrow> bool" where
  "brings acc a (OpUpsert p) = (map_option pmAccountID p = Some acc \<and> has_address a p)"
| "brings acc a (OpReset acc' ps) = (acc' = acc \<and> (\<exists>p\<in>set ps. has_address a p))"
| "brings acc a (OpEnsure u x y acc' d) = (acc' = acc \<and> map_option DeviceIP d = Some a)"
| "brings acc a _ = False"

section \<open>The peers of the account\<close>

definition peers_without :: "string \<Rightarrow> Addr \<Rightarrow> dns_registry \<Rightarrow> bool" where
  "peers_without acc a r \<longleftrightarrow> (\<forall>x\<in>records_of acc r. parseAssignedIP (AssignedIP x) \<noteq> Some a)"

lemma records_listed: "order_ok order \<Longrightarrow> set (listTenantDNSPeers order r acc) = records_of acc r"
  by (auto simp: listTenantDNSPeers_def records_of_def order_ok_def split: option.split)

lemma collected: "x \<in> fmran' (collect_records ps) \<Longrightarrow> \<exists>p. Some p \<in> set ps \<and> x = peer_record p"
proof (induction ps rule: rev_induct)
  case (snoc p ps)
  then show ?case by (auto simp: collect_records_def fmran'_def split: option.splits if_splits)
qed (simp add: collect_records_def fmran'_def)

lemma server_ops_keep [simp]:
  "tenantDNSPeers (invalidateTenantDNS acc r) = tenantDNSPeers r"
  "tenantDNSPeers (ensureTenantDNS u x y acc d r) = tenantDNSPeers r"
  "tenantDNSPeers (stopTenantDNS acc r) = tenantDNSPeers r"
  "tenantDNSPeers (stopAllTenantDNS r) = tenantDNSPeers r"
  "tenantDNSPeers (fst (dns_query lib order now msg acc r)) = tenantDNSPeers r"
  by (simp_all add: invalidateTenantDNS_def ensureTenantDNS_def stopTenantDNS_def stopAllTenantDNS_def dns_query_def Let_def split: option.split prod.split)

lemma peer_ops_keep [simp]:
  "tenantDNS (upsertTenantDNSPeer p r) = tenantDNS r"
  "tenantDNS (removeTenantDNSPeer acc k r) = tenantDNS r"
  "tenantDNS (resetTenantDNSPeers acc ps r) = tenantDNS r"
  "tenantDNS (clearTenantDNSPeers acc r) = tenantDNS r"
  by (simp_all add: upsertTenantDNSPeer_def removeTenantDNSPeer_def resetTenantDNSPeers_def clearTenantDNSPeers_def Let_def split: option.split)

lemma records_kept: "tenantDNSPeers r' = tenantDNSPeers r \<Longrightarrow> records_of acc r' = records_of acc r"
  by (simp add: records_of_def)

lemma upsert_records:
  "records_of acc (upsertTenantDNSPeer p r) \<subseteq> records_of acc r \<union> {peer_record q | q. p = Some q \<and> pmAccountID q = acc}"
  by (auto simp: upsertTenantDNSPeer_def records_of_def Let_def fmran'_def split: option.splits if_splits)

lemma remove_records: "records_of acc (removeTenantDNSPeer acc' k r) \<subseteq> records_of acc r"
  by (auto simp: removeTenantDNSPeer_def records_of_def Let_def fmran'_def split: option.splits if_splits)

lemma reset_records:
  "records_of acc (resetTenantDNSPeers acc ps r) \<subseteq> fmran' (collect_records ps)"
  "acc' \<noteq> acc \<Longrightarrow> records_of acc (resetTenantDNSPeers acc' ps r) \<subseteq> records_of acc r"
  by (auto simp: resetTenantDNSPeers_def records_of_def Let_def fmran'_def split: option.splits if_splits)

lemma clear_records: "records_of acc (clearTenantDNSPeers acc' r) \<subseteq> records_of acc r"
  by (auto simp: clearTenantDNSPeers_def records_of_def split: option.splits if_splits)

lemma peers_step:
  assumes "peers_without acc a r" and "\<not> brings acc a op"
  shows "peers_without acc a (dns_apply lib order op r)"
proof (cases op)
  case (OpUpsert p)
  then show ?thesis using assms upsert_records [of acc p r] by (fastforce simp: peers_without_def has_address_def peer_record_def)
next
  case (OpRemove acc' k)
  then show ?thesis using assms remove_records [of acc acc' k r] by (auto simp: peers_without_def)
next
  case (OpReset acc' ps)
  show ?thesis
  proof (cases "acc' = acc")
    case True
    then have "parseAssignedIP (AssignedIP x) \<noteq> Some a" if x: "x \<in> records_of acc (resetTenantDNSPeers acc ps r)" for x
      using collected [OF subsetD [OF reset_records(1) x]] assms(2) OpReset by (force simp: has_address_def peer_record_def)
    then show ?thesis by (simp add: OpReset True peers_without_def)
  next
    case False
    then show ?thesis using assms reset_records(2) [of acc' acc ps r] OpReset by (auto simp: peers_without_def)
  qed
next
  case (OpClear acc')
  then show ?thesis using assms clear_records [of acc acc' r] by (auto simp: peers_without_def)
qed (use assms in \<open>simp_all add: peers_without_def records_of_def\<close>)


section \<open>The server of the account\<close>

definition server_other :: "string \<Rightarrow> Addr \<Rightarrow> dns_registry \<Rightarrow> bool" where
  "server_other acc a r \<longleftrightarrow> (\<forall>s. fmlookup (tenantDNS r) acc = Some s \<longrightarrow> accountID s = acc \<and> IsValid (DeviceIP (device s)) \<and> DeviceIP (device s) \<noteq> a)"

definition cache_without :: "string \<Rightarrow> Addr \<Rightarrow> dns_registry \<Rightarrow> bool" where
  "cache_without acc a r \<longleftrightarrow> (\<forall>s c n. fmlookup (tenantDNS r) acc = Some s \<and> dns_cached s = Some c \<longrightarrow> a \<notin> set (hosts c n))"

text \<open>Devices have an address.\<close>

fun device_ok :: "dns_op \<Rightarrow> bool" where
  "device_ok (OpEnsure u x y acc d) = (case d of None \<Rightarrow> True | Some d \<Rightarrow> IsValid (DeviceIP d))"
| "device_ok _ = True"

lemma snapshot_without:
  assumes "order_ok order" and "peers_without acc a r" and "accountID s = acc" and "IsValid (DeviceIP (device s))" and "DeviceIP (device s) \<noteq> a"
    and "\<forall>c n. dns_cached s = Some c \<longrightarrow> a \<notin> set (hosts c n)"
  shows "a \<notin> set (hosts (snd (snapshot (listTenantDNSPeers order r) now s)) n)"
    and "\<forall>c n. dns_cached (fst (snapshot (listTenantDNSPeers order r) now s)) = Some c \<longrightarrow> a \<notin> set (hosts c n)"
proof -
  let ?c = "buildTenantDNSSnapshot (accountID s) (DeviceIP (device s)) (listTenantDNSPeers order r (accountID s))"
  have "a \<notin> set (hosts ?c n)" for n
    using built_hosts [OF assms(4), of a "accountID s" "listTenantDNSPeers order r (accountID s)" n] assms(2,3,5) records_listed [OF assms(1), of r acc]
    by (auto simp: peers_without_def)
  then show "a \<notin> set (hosts (snd (snapshot (listTenantDNSPeers order r) now s)) n)"
    and "\<forall>c n. dns_cached (fst (snapshot (listTenantDNSPeers order r) now s)) = Some c \<longrightarrow> a \<notin> set (hosts c n)"
    using assms(6) by (auto simp: snapshot_def Let_def split: option.split if_splits)
qed

lemma query_same: "accountID (fst (handleQuery lib idx now msg s)) = accountID s" "device (fst (handleQuery lib idx now msg s)) = device s"
  using query_state [of lib idx now msg s] by (auto simp: snapshot_def Let_def split: option.split)

lemma dns_query_lookup:
  "fmlookup (tenantDNS (fst (dns_query lib order now msg acc' r))) acc =
     (if acc' = acc then map_option (\<lambda>s. fst (handleQuery lib (listTenantDNSPeers order r) now msg s)) (fmlookup (tenantDNS r) acc) else fmlookup (tenantDNS r) acc)"
  by (auto simp: dns_query_def split: option.split prod.split)

lemma server_step:
  assumes "server_other acc a r" and "\<not> brings acc a op" and "device_ok op"
  shows "server_other acc a (dns_apply lib order op r)"
proof (cases op)
  case (OpEnsure u x y acc' d)
  then show ?thesis using assms
    by (auto simp: server_other_def ensureTenantDNS_def newTenantDNSServer_def Let_def split: option.splits if_splits)
next
  case (OpQuery now msg acc')
  then show ?thesis using assms(1) by (auto simp: server_other_def dns_query_lookup query_same)
qed (use assms(1) in \<open>auto simp: server_other_def invalidateTenantDNS_def invalidate_def stopTenantDNS_def stopAllTenantDNS_def split: option.splits if_splits\<close>)

lemma cache_kept:
  assumes "order_ok order" and "peers_without acc a r" and "server_other acc a r" and "cache_without acc a r"
  shows "cache_without acc a (dns_apply lib order op r)"
proof (cases op)
  case (OpEnsure u x y acc' d)
  then show ?thesis using assms(4)
    by (auto simp: cache_without_def ensureTenantDNS_def newTenantDNSServer_def Let_def split: option.splits if_splits)
next
  case (OpQuery now msg acc')
  have "a \<notin> set (hosts c n)" if s: "fmlookup (tenantDNS r) acc = Some s" and c: "dns_cached (fst (handleQuery lib (listTenantDNSPeers order r) now msg s)) = Some c" for s c n
  proof -
    have o: "accountID s = acc" "IsValid (DeviceIP (device s))" "DeviceIP (device s) \<noteq> a" using assms(3) s by (auto simp: server_other_def)
    have w: "\<forall>c n. dns_cached s = Some c \<longrightarrow> a \<notin> set (hosts c n)" using assms(4) s by (auto simp: cache_without_def)
    show ?thesis using snapshot_without(2) [OF assms(1,2) o w, of now] w c query_state [of lib "listTenantDNSPeers order r" now msg s] by auto
  qed
  then show ?thesis using assms(4) by (auto simp: OpQuery cache_without_def dns_query_lookup split: if_splits)
qed (use assms(4) in \<open>auto simp: cache_without_def invalidateTenantDNS_def invalidate_def stopTenantDNS_def stopAllTenantDNS_def split: option.splits if_splits\<close>)

lemma ops_without:
  assumes "peers_without acc a r" and "server_other acc a r" and "\<forall>op\<in>set ops. \<not> brings acc a op \<and> device_ok op"
  shows "peers_without acc a (dns_ops lib order ops r)" "server_other acc a (dns_ops lib order ops r)"
    "order_ok order \<Longrightarrow> cache_without acc a r \<Longrightarrow> cache_without acc a (dns_ops lib order ops r)"
  using assms unfolding dns_ops_def by (induction ops arbitrary: r) (simp_all add: peers_step server_step cache_kept)


section \<open>A removed peer is forgotten\<close>

text \<open>No peer of the account but \<open>k\<close> has the address.\<close>

definition alone_at :: "string \<Rightarrow> string \<Rightarrow> Addr \<Rightarrow> dns_registry \<Rightarrow> bool" where
  "alone_at acc k a r \<longleftrightarrow>
     (\<forall>m k' x. fmlookup (tenantDNSPeers r) acc = Some m \<and> fmlookup m k' = Some x \<and> k' \<noteq> k \<longrightarrow> parseAssignedIP (AssignedIP x) \<noteq> Some a)"

lemma removed_peers:
  assumes "acc \<noteq> ''''" and "k \<noteq> ''''" and "alone_at acc k a r"
  shows "peers_without acc a (removeTenantDNSPeer acc k r)"
  using assms by (auto simp: alone_at_def peers_without_def records_of_def removeTenantDNSPeer_def Let_def elim!: fmran'E split: option.splits if_splits)

text \<open>The addresses in the answers to a question.\<close>

definition given_addresses :: "Question \<Rightarrow> tenantDNSSnapshot \<Rightarrow> Addr list" where
  "given_addresses q s = map aaddr (filter (\<lambda>x. atyp x = TypeA \<or> atyp x = TypeAAAA) (snd (snapshot_answer q s)))"

lemma invalidated_cache: "cache_without acc a (invalidateTenantDNS acc r)"
  by (auto simp: cache_without_def invalidateTenantDNS_def invalidate_def split: option.splits if_splits)


definition demo_order :: map_order where
  "demo_order m = map snd (sorted_list_of_fmap m)"

lemma demo_order_ok: "order_ok demo_order"
proof -
  have "set (demo_order m) = fmran' m" for m
    by (force simp: demo_order_def sorted_list_of_fmap_def fmlookup_dom_iff fmlookup_ran'_iff)
  then show ?thesis by (simp add: order_ok_def)
qed

definition demo_registry :: dns_registry where
  "demo_registry = \<lparr> tenantDNSPeers = fmupd ''Acme Corp'' (fmupd ''p1'' demo_peer fmempty) fmempty, tenantDNS = fmupd ''Acme Corp'' demo_server fmempty \<rparr>"


end
