(* ===== verification/Spec2Isabelle.thy ===== *)
theory Spec2Isabelle
  imports Ipam_Runs Acl_Runs OAuth_Runs Transport_Roundtrip Agent_Runs Events Controller_Requests Transfer_Protocol Tenant_Dns_Registry
begin

text \<open>
  WantasticCore: a verification development of the control plane of a managed WireGuard service.

  \<^bold>\<open>The program.\<close> The core process gives every tenant a network from a shared pool of addresses, decides
  with access rules which peer may talk to which, authorizes command-line devices through an OAuth 2.0 server, caches
  API results, and manages the devices of its tenants with WUSP, a binary variant of the TR-369 user services platform that travels in
  datagrams of the WireGuard tunnels. Every tenant has a name server for its peers. The parts interact as follows: the address manager and the access rules keep their rows in
  repositories of the database; the authorization server keeps its requests in a store; a WUSP controller turns requests
  into frames of the control transport, cuts them into fragments and sends them; the agent puts them together, decodes,
  validates against the schema of parameters, acts on its store and answers the same way; bulk data goes in transfer stream frames.

  \<^bold>\<open>The theories.\<close>
  \<^item> \<open>Prelude\<close>, \<open>GoStrings\<close>, \<open>GoNet\<close>, \<open>Encoding\<close>: what the source uses of the language and its standard library: maps, slices,
    clocks, \<open>strings\<close>, \<open>strconv\<close>, \<open>net\<close>, \<open>hash/fnv\<close>, \<open>encoding\<close>, and the generic lemmas.
  \<^item> \<open>Cache_Spec\<close>, \<open>Cache\<close>, \<open>Cache_Contract\<close>: the sharded cache, the bloom filter and the LRU lists of \<open>internal/cache\<close>. The contract of a cache is a
    locale, interpreted on the model; the lemmas show what a get returns after a set, the capacity, the clean-up and the pressure loop.
  \<^item> \<open>Ipam_Repo\<close>, \<open>Ipam\<close>, \<open>Ipam_Blocks\<close>, \<open>Ipam_Tenants\<close>, \<open>Ipam_Pools\<close>, \<open>Ipam_Runs\<close>: the address manager \<open>internal/state/ipam.go\<close> and its repository. An invariant of
    the reachable states gives isolation of tenants, all-or-nothing allocation, exact statistics and release.
  \<^item> \<open>Acl\<close>, \<open>Acl_Decisions\<close>, \<open>Acl_Runs\<close>: \<open>internal/acl/acl.go\<close> and the repository of the rules: the fast matcher agrees with the definition of a
    match, a decision follows the stored rules, an update stays within its tenant.
  \<^item> \<open>OAuth_Store\<close>, \<open>OAuth\<close>, \<open>OAuth_Devices\<close>, \<open>OAuth_Codes\<close>, \<open>OAuth_Runs\<close>: \<open>internal/oauth2\<close>: tokens are only issued for approved requests, the flows
    complete, PKCE is checked; the interleaving of two exchanges is modelled step by step.
  \<^item> \<open>Lz4\<close>, \<open>Wire\<close>, \<open>Message\<close>, \<open>Message_Registry\<close>, \<open>Schema\<close>, \<open>Device_Model\<close>, \<open>Fill\<close>: \<open>interface.go\<close>, \<open>methods.go\<close> and \<open>models.go\<close> of \<open>internal/wusp\<close>: the compressor, values and messages,
    the registry of field identifiers, validation, path codes and selectors, sample values. Round trips and well-formedness of what is decoded.
  \<^item> \<open>Codec\<close>, \<open>Fragments\<close>, \<open>Stream_Frames\<close>, \<open>Transport\<close>, \<open>Transport_Parts\<close>, \<open>Transport_Roundtrip\<close>: \<open>control_fragments.go\<close>, \<open>usp_stream.go\<close> and \<open>usp_transport.go\<close>. The locale of a codec is interpreted
    on every part of a frame; whole requests and responses round-trip, fragments reassemble in any order.
  \<^item> \<open>Agent\<close>, \<open>Agent_Store\<close>, \<open>Agent_Runs\<close>: \<open>usp_agent.go\<close>: every stored value is valid over the lifetime of an agent; get and delete act exactly on what the paths select.
  \<^item> \<open>Events\<close>: \<open>usp_events.go\<close>: events and subscriptions as notify requests, and which of them the codec refuses.
  \<^item> \<open>Controller_State\<close>, \<open>Transfer_Stream\<close>, \<open>Controller\<close>, \<open>Controller_Runs\<close>, \<open>Controller_Requests\<close>, \<open>Transfer_Protocol\<close>: \<open>internal/wuspcontroller\<close>: peer sessions and payload budgets,
    reassembly with its cap, dispatch, requests with their retries, method wrappers, subscriptions, uploads and downloads. Over the lifetime of a controller the tables
    stay bounded; a response reaches its request in whatever order its fragments arrive; a request that changes the device is sent once and is the one the agent
    decodes; a transfer over an unreliable network delivers its source. Other goroutines are an argument of the waits; the outcomes of a \<open>select\<close> are listed events.
  \<^item> \<open>Tenant_Dns\<close>, \<open>Tenant_Dns_Server\<close>, \<open>Tenant_Dns_Registry\<close>: \<open>internal/server/tenant_dns.go\<close> and the registry of name servers in \<open>internal/server/server.go\<close>: answers stay within the
    tenant, reverse names lead back, no query panics, an answer is at most a minute old, and a removed peer is forgotten.

  \<^bold>\<open>Arguments for code outside the repository.\<close> The engine of \<open>regexp\<close> is a predicate \<open>re\<close> on a pattern and a string. Random bytes, hashes of
  \<open>crypto\<close>, clocks and the database driver are arguments of the operations that use them; the laws a property needs of them are
  its hypotheses. The handlers, the collector and the setter of an agent and the send function of a controller are functions on a state of
  the caller. The format of DNS messages and the upstream resolver are records of functions. The order in which Go ranges over a map is an argument where it can matter, and the order of the keys where the code sorts what it collects.

  \<^bold>\<open>Bounds.\<close> Loops of the code are structural recursions or have a termination proof; none uses fuel except where noted in its theory. Machine integers are
  words where the code may wrap (identifiers, counters, offsets, hashes, lengths on the wire) and integers where the bound is shown (sizes, budgets).
  Lengths on the wire are below \<open>2^63\<close> in the round trips, as every Go slice is.

  \<^bold>\<open>Not modelled.\<close> The API and portal services, the server but for its name servers, the WireGuard devices and their vendored implementation, the databases, mail, chat, SSH,
  web proxy and router access: network and database input and output, conversions between record types, or third-party protocols. The
  embedded catalogue of TR-181 parameters is data: its decoder and the generated tables are left out, and the schema is an argument. The rendering of values as text
  (\<open>ValueToString\<close>) and the device snapshot made from it (\<open>SyncDeviceState\<close>) are left out: they print floating-point numbers and calendar dates.
  Of the controller, the parsing of a destination URI is left out. The Redis stores are left out: their behaviour is that of the server they call.
\<close>

end
